(* ===== verification/Prelude.thy ===== *)
theory Prelude
  imports Main "HOL-Library.AList" "HOL-Library.Word"
begin

text \<open>
  Shared vocabulary of the development.

  Go values are modelled as follows. A Go \<^verbatim>\<open>string\<close> is a sequence of bytes, which is
  exactly HOL's \<^typ>\<open>string\<close> (a list of 8-bit characters); \<open>byte_of\<close> reads one of them as
  the \<^verbatim>\<open>byte\<close> that indexing yields. A \<^verbatim>\<open>time.Time\<close> is the number of nanoseconds since
  Go's zero time, so that \<^verbatim>\<open>IsZero\<close> is the comparison with 0, and a \<^verbatim>\<open>time.Duration\<close> is a
  number of nanoseconds. A Go map is an association list with distinct keys: the order
  of the list is one of the iteration orders the language allows. A pair
  \<^verbatim>\<open>(value, error)\<close> is a sum with the error on the left.
\<close>

type_synonym byte = "8 word"
type_synonym u64 = "64 word"
type_synonym gotime = int
type_synonym duration = int
type_synonym ('k, 'v) gomap = "('k \<times> 'v) list"

definition byte_of :: "char \<Rightarrow> byte" where
  "byte_of c = word_of_nat (of_char c)"

text \<open>The multiples of \<^verbatim>\<open>time.Nanosecond\<close> the packages name.\<close>

definition Millisecond :: duration where
  "Millisecond = 1000000"

definition Second :: duration where
  "Second = 1000 * Millisecond"

definition Minute :: duration where
  "Minute = 60 * Second"

definition Hour :: duration where
  "Hour = 60 * Minute"

abbreviation time_is_zero :: "gotime \<Rightarrow> bool" where
  "time_is_zero t \<equiv> t = 0"

text \<open>
  The three operations the packages perform on a map, and what it means for an
  association list to be one.
\<close>

definition mget :: "('k, 'v) gomap \<Rightarrow> 'k \<Rightarrow> 'v option" where
  "mget m k = map_of m k"

definition mput :: "'k \<Rightarrow> 'v \<Rightarrow> ('k, 'v) gomap \<Rightarrow> ('k, 'v) gomap" where
  "mput k v m = AList.update k v m"

definition mdel :: "'k \<Rightarrow> ('k, 'v) gomap \<Rightarrow> ('k, 'v) gomap" where
  "mdel k m = AList.delete k m"

definition mkeys :: "('k, 'v) gomap \<Rightarrow> 'k list" where
  "mkeys m = map fst m"

definition is_map :: "('k, 'v) gomap \<Rightarrow> bool" where
  "is_map m \<longleftrightarrow> distinct (map fst m)"

text \<open>
  \<^verbatim>\<open>strings.Split\<close> at the elements a predicate picks out: always at least one part, with no
  picked element in any of them.
\<close>

fun split_by :: "('a \<Rightarrow> bool) \<Rightarrow> 'a list \<Rightarrow> 'a list list" where
  "split_by P [] = [[]]"
| "split_by P (x # xs) =
     (if P x then [] # split_by P xs
      else (case split_by P xs of [] \<Rightarrow> [[x]] | p # ps \<Rightarrow> (x # p) # ps))"

text \<open>\<^verbatim>\<open>strings.Join\<close> with a separator of one byte.\<close>

fun join :: "'a \<Rightarrow> 'a list list \<Rightarrow> 'a list" where
  "join sep [] = []"
| "join sep [x] = x"
| "join sep (x # y # xs) = x @ sep # join sep (y # xs)"

text \<open>\<^verbatim>\<open>strconv.Itoa\<close> and \<^verbatim>\<open>strconv.FormatUint(n, 10)\<close> of a number that is not negative.\<close>

fun decimal :: "nat \<Rightarrow> string" where
  "decimal n = (if n < 10 then [char_of (48 + n)] else decimal (n div 10) @ [char_of (48 + n mod 10)])"

declare decimal.simps [simp del]

text \<open>The number a string of digits denotes.\<close>

definition digits_value :: "string \<Rightarrow> nat" where
  "digits_value ds = foldl (\<lambda>acc c. acc * 10 + (of_char c - 48)) 0 ds"

subsection \<open>Bytes\<close>

lemma unat_byte_of [simp]: "unat (byte_of c) = of_char c"
proof -
  have "(of_char c :: nat) < 256" by simp
  then show ?thesis by (simp add: byte_of_def unat_of_nat)
qed

lemma byte_of_eq_iff [simp]: "byte_of c = byte_of d \<longleftrightarrow> c = d"
  by (metis char_of_char unat_byte_of)

subsection \<open>Association lists as Go maps\<close>

named_theorems gomap_simps \<open>what the map operations do to lookups, keys and the map property\<close>

lemma mget_mput [simp, gomap_simps]: "mget (mput k v m) k' = (if k' = k then Some v else mget m k')"
  by (simp add: mget_def mput_def update_conv)

lemma mget_mdel [simp, gomap_simps]: "mget (mdel k m) k' = (if k' = k then None else mget m k')"
  by (simp add: mget_def mdel_def delete_conv)

lemma mget_Nil [simp, gomap_simps]: "mget [] k = None"
  by (simp add: mget_def)

lemma is_map_Nil [simp, gomap_simps]: "is_map []"
  by (simp add: is_map_def)

lemma is_map_mput [simp, gomap_simps]: "is_map m \<Longrightarrow> is_map (mput k v m)"
  by (simp add: is_map_def mput_def distinct_update)

lemma is_map_mdel [simp, gomap_simps]: "is_map m \<Longrightarrow> is_map (mdel k m)"
  by (simp add: is_map_def mdel_def distinct_delete)

lemma mkeys_Nil [simp, gomap_simps]: "mkeys [] = []"
  by (simp add: mkeys_def)

lemma set_mkeys [gomap_simps]: "set (mkeys m) = {k. mget m k \<noteq> None}"
  by (auto simp: mkeys_def mget_def map_of_eq_None_iff)

lemma mget_eq_None_iff: "mget m k = None \<longleftrightarrow> k \<notin> set (mkeys m)"
  by (simp add: set_mkeys)

lemma mget_Some_in_set: "is_map m \<Longrightarrow> mget m k = Some v \<longleftrightarrow> (k, v) \<in> set m"
  by (simp add: is_map_def mget_def)

lemma mkeys_mdel [simp, gomap_simps]: "mkeys (mdel k m) = removeAll k (mkeys m)"
  by (simp add: mkeys_def mdel_def delete_keys)

lemma set_mkeys_mput [simp, gomap_simps]: "set (mkeys (mput k v m)) = insert k (set (mkeys m))"
  by (auto simp: mkeys_def mput_def dom_update)

lemma length_is_map: "is_map m \<Longrightarrow> length m = card (set (mkeys m))"
  by (metis distinct_card is_map_def length_map mkeys_def)

lemma distinct_mkeys: "is_map m \<longleftrightarrow> distinct (mkeys m)"
  by (simp add: is_map_def mkeys_def)

subsection \<open>Lists\<close>

lemma foldl_append_map: "foldl (\<lambda>acc x. acc @ [f x]) acc xs = acc @ map f xs"
  by (induction xs arbitrary: acc) simp_all

lemma length_removeAll_distinct:
  "distinct xs \<Longrightarrow> k \<in> set xs \<Longrightarrow> Suc (length (removeAll k xs)) = length xs"
  using length_pos_if_in_set [of k xs]
  by (simp add: distinct_remove1_removeAll [symmetric] length_remove1)

lemma set_drop_iff: "distinct xs \<Longrightarrow> x \<in> set (drop n xs) \<longleftrightarrow> x \<in> set xs \<and> x \<notin> set (take n xs)"
  by (metis Un_iff append_take_drop_id distinct_append disjoint_iff set_append)

subsection \<open>Splitting\<close>

lemma split_by_not_Nil [simp]: "split_by P xs \<noteq> []"
  by (induction xs) (auto split: list.splits)

lemma split_by_no_sep: "\<forall>x \<in> set xs. \<not> P x \<Longrightarrow> split_by P xs = [xs]"
  by (induction xs) auto

lemma split_by_append_sep:
  "\<forall>x \<in> set xs. \<not> P x \<Longrightarrow> P s \<Longrightarrow> split_by P (xs @ s # ys) = xs # split_by P ys"
  by (induction xs) auto

lemma split_by_parts: "p \<in> set (split_by P xs) \<Longrightarrow> x \<in> set p \<Longrightarrow> x \<in> set xs \<and> \<not> P x"
  by (induction xs arbitrary: p) (auto split: if_splits list.splits, blast+)

lemma split_by_join:
  assumes "xs \<noteq> []" and "\<forall>x \<in> set xs. sep \<notin> set x"
  shows "split_by ((=) sep) (join sep xs) = xs"
  using assms
proof (induction sep xs rule: join.induct)
  case (2 sep x)
  then show ?case by (auto intro: split_by_no_sep)
next
  case (3 sep x y xs)
  then have "\<forall>c \<in> set x. \<not> sep = c" by auto
  with 3 show ?case by (simp add: split_by_append_sep [of x "(=) sep" sep])
qed simp

lemma join_inj:
  assumes "xs \<noteq> []" "ys \<noteq> []" "\<forall>x \<in> set xs. sep \<notin> set x" "\<forall>y \<in> set ys. sep \<notin> set y"
  shows "join sep xs = join sep ys \<longleftrightarrow> xs = ys"
  using split_by_join assms by metis

lemma join_eq_Nil: "[] \<notin> set xs \<Longrightarrow> join sep xs = [] \<longleftrightarrow> xs = []"
  by (induction sep xs rule: join.induct) auto

subsection \<open>Decimal numbers\<close>

lemma decimal_is_digits: "c \<in> set (decimal n) \<Longrightarrow> 48 \<le> (of_char c :: nat) \<and> of_char c < (58 :: nat)"
proof (induction n rule: decimal.induct)
  case (1 n)
  then show ?case
    by (cases "n < 10") (auto simp: decimal.simps [of n] split: if_splits)
qed

lemma digits_value_decimal [simp]: "digits_value (decimal n) = n"
proof (induction n rule: decimal.induct)
  case (1 n)
  then show ?case
    by (cases "n < 10") (auto simp: decimal.simps [of n] digits_value_def)
qed

lemma decimal_inj [simp]: "decimal m = decimal n \<longleftrightarrow> m = n"
  by (metis digits_value_decimal)

lemma decimal_no_char: "of_char c < (48 :: nat) \<or> (58 :: nat) \<le> of_char c \<Longrightarrow> c \<notin> set (decimal n)"
  using decimal_is_digits by fastforce

lemma append_sep_cancel:
  assumes "c \<notin> set xs" and "c \<notin> set ys"
  shows "xs @ c # us = ys @ c # vs \<longleftrightarrow> xs = ys \<and> us = vs"
  using assms
proof (induction xs arbitrary: ys)
  case Nil
  then show ?case by (cases ys) auto
next
  case (Cons x xs)
  then show ?case by (cases ys) auto
qed

end
