(* ===== verification/Charset.thy ===== *)
theory Charset
  imports Prelude
begin

text \<open>
  The package \<^verbatim>\<open>charset\<close>: byte alphabets as 256-bit sets (\<^verbatim>\<open>set.go\<close>), the rule a
  \<^verbatim>\<open>Checker\<close> states over one (\<^verbatim>\<open>charset.go\<close>), and the rune-boundary cut of
  \<^verbatim>\<open>truncate.go\<close>.

  An alphabet is the four 64-bit words of the source, addressed by \<^verbatim>\<open>b>>6\<close> and
  \<^verbatim>\<open>b&63\<close>; \<open>members\<close> is the set of bytes it stands for, and the lemmas show that every
  constructor and operation computes the set operation it is named after, and that two
  alphabets are equal as values exactly when they admit the same bytes.
\<close>

unbundle bit_operations_syntax

subsection \<open>set.go\<close>

record cset =
  set_bits :: "u64 list"

definition zero_cset :: cset where
  "zero_cset = \<lparr>set_bits = replicate 4 0\<rparr>"

text \<open>The one statement both constructors run: \<^verbatim>\<open>s.bits[b>>6] |= 1 << uint(b&63)\<close>.\<close>

definition set_bit_of :: "nat \<Rightarrow> cset \<Rightarrow> cset" where
  "set_bit_of b s =
     s\<lparr>set_bits := (set_bits s)[drop_bit 6 b := set_bits s ! drop_bit 6 b OR push_bit (b AND 63) 1]\<rparr>"

function range_loop :: "nat \<Rightarrow> nat \<Rightarrow> cset \<Rightarrow> cset" where
  "range_loop b hi s = (if b \<le> hi then range_loop (Suc b) hi (set_bit_of b s) else s)"
  by pat_completeness auto
termination
  by (relation "measure (\<lambda>(b, hi, s). Suc hi - b)") auto

declare range_loop.simps [simp del]

definition RangeSet :: "byte \<Rightarrow> byte \<Rightarrow> cset" where
  "RangeSet lo hi = range_loop (unat lo) (unat hi) zero_cset"

definition Bytes :: "byte list \<Rightarrow> cset" where
  "Bytes bs = foldl (\<lambda>s b. set_bit_of (unat b) s) zero_cset bs"

definition UnionSet :: "cset \<Rightarrow> cset list \<Rightarrow> cset" where
  "UnionSet s others =
     foldl (\<lambda>s other. s\<lparr>set_bits := map2 (\<lambda>a b. a OR b) (set_bits s) (set_bits other)\<rparr>) s others"

definition Without :: "cset \<Rightarrow> cset list \<Rightarrow> cset" where
  "Without s others =
     foldl (\<lambda>s other. s\<lparr>set_bits := map2 (\<lambda>a b. a AND NOT b) (set_bits s) (set_bits other)\<rparr>) s others"

definition Contains :: "cset \<Rightarrow> byte \<Rightarrow> bool" where
  "Contains s b \<longleftrightarrow>
     set_bits s ! drop_bit 6 (unat b) AND push_bit (unat b AND 63) 1 \<noteq> 0"

fun ContainsAll :: "cset \<Rightarrow> string \<Rightarrow> bool" where
  "ContainsAll s [] = True"
| "ContainsAll s (c # cs) = (if \<not> Contains s (byte_of c) then False else ContainsAll s cs)"

definition Empty :: "cset \<Rightarrow> bool" where
  "Empty s \<longleftrightarrow> set_bits s = replicate 4 0"

text \<open>The named alphabets of the package.\<close>

definition ASCIILower :: cset where
  "ASCIILower = RangeSet 0x61 0x7A"

definition ASCIIUpper :: cset where
  "ASCIIUpper = RangeSet 0x41 0x5A"

definition ASCIILetters :: cset where
  "ASCIILetters = UnionSet ASCIILower [ASCIIUpper]"

definition ASCIIDigits :: cset where
  "ASCIIDigits = RangeSet 0x30 0x39"

definition ASCIIAlphanumeric :: cset where
  "ASCIIAlphanumeric = UnionSet ASCIILetters [ASCIIDigits]"

definition HexDigits :: cset where
  "HexDigits = UnionSet ASCIIDigits [RangeSet 0x61 0x66, RangeSet 0x41 0x46]"

definition VisibleASCII :: cset where
  "VisibleASCII = RangeSet 0x21 0x7E"

definition AllBytes :: cset where
  "AllBytes = RangeSet 0 255"

text \<open>
  \<^verbatim>\<open>String\<close>: the outer loop looks for the next run of members, \<open>run_end\<close> is the inner loop
  that extends it, and \<open>escape\<close> spells one byte.
\<close>

definition hex_digit :: "nat \<Rightarrow> char" where
  "hex_digit n = ''0123456789abcdef'' ! n"

definition escape :: "byte \<Rightarrow> string" where
  "escape b =
     (if b = 0x5C \<or> b = 0x5D \<or> b = 0x5E \<or> b = 0x2D then [CHR 0x5C, char_of (unat b)]
      else if b < 0x21 \<or> b > 0x7E
      then [CHR 0x5C, CHR ''x'', hex_digit (unat (drop_bit 4 b)), hex_digit (unat (b AND 0xF))]
      else [char_of (unat b)])"

function run_end :: "cset \<Rightarrow> nat \<Rightarrow> nat" where
  "run_end s hi = (if hi + 1 < 256 \<and> Contains s (of_nat (hi + 1)) then run_end s (hi + 1) else hi)"
  by pat_completeness auto
termination
  by (relation "measure (\<lambda>(s, hi). 256 - hi)") auto

declare run_end.simps [simp del]

lemma run_end_ge: "hi \<le> run_end s hi"
  by (induction s hi rule: run_end.induct) (subst run_end.simps, auto)

function string_loop :: "cset \<Rightarrow> nat \<Rightarrow> string" where
  "string_loop s lo =
     (if lo < 256 then
        (if \<not> Contains s (of_nat lo) then string_loop s (lo + 1)
         else (let hi = run_end s lo
               in (if hi = lo then escape (of_nat lo)
                   else if hi = lo + 1 then escape (of_nat lo) @ escape (of_nat hi)
                   else escape (of_nat lo) @ ''-'' @ escape (of_nat hi))
                  @ string_loop s (hi + 1)))
      else [])"
  by pat_completeness auto
termination
proof (relation "measure (\<lambda>(s, lo). 256 - lo)", goal_cases)
  case (3 s lo hi)
  with run_end_ge [of lo s] show ?case by simp
qed auto

declare string_loop.simps [simp del]

definition String_set :: "cset \<Rightarrow> string" where
  "String_set s = ''['' @ string_loop s 0 @ '']''"

subsection \<open>charset.go\<close>

record checker =
  ck_body :: cset
  ck_first :: cset
  ck_minLength :: int
  ck_maxLength :: int
  ck_maxSegs :: int
  ck_hasFirst :: bool
  ck_separator :: byte
  ck_segmented :: bool

type_synonym checker_option = "(checker \<Rightarrow> checker) option"

definition New :: "cset \<Rightarrow> checker_option list \<Rightarrow> checker" where
  "New b opts =
     (let c0 = \<lparr>ck_body = b, ck_first = zero_cset, ck_minLength = 1, ck_maxLength = -1, ck_maxSegs = 0,
                ck_hasFirst = False, ck_separator = 0, ck_segmented = False\<rparr>;
          c = foldl (\<lambda>c opt. case opt of None \<Rightarrow> c | Some f \<Rightarrow> f c) c0 opts
      in if ck_segmented c
         then c\<lparr>ck_body := Without (ck_body c) [Bytes [ck_separator c]],
                ck_first := Without (ck_first c) [Bytes [ck_separator c]]\<rparr>
         else c)"

definition WithFirst :: "cset \<Rightarrow> checker_option" where
  "WithFirst f = Some (\<lambda>c. c\<lparr>ck_first := f, ck_hasFirst := True\<rparr>)"

definition AllowEmpty :: checker_option where
  "AllowEmpty = Some (\<lambda>c. c\<lparr>ck_minLength := 0\<rparr>)"

definition WithMaxLength :: "int \<Rightarrow> checker_option" where
  "WithMaxLength n = Some (\<lambda>c. c\<lparr>ck_maxLength := n\<rparr>)"

definition WithExactLength :: "int \<Rightarrow> checker_option" where
  "WithExactLength n = Some (\<lambda>c. c\<lparr>ck_minLength := n, ck_maxLength := n\<rparr>)"

definition WithSeparator :: "byte \<Rightarrow> int \<Rightarrow> checker_option" where
  "WithSeparator sep n = Some (\<lambda>c. c\<lparr>ck_separator := sep, ck_segmented := True, ck_maxSegs := n\<rparr>)"

definition validSegment :: "checker \<Rightarrow> string \<Rightarrow> bool" where
  "validSegment c s =
     (case s of
        [] \<Rightarrow> False
      | x # xs \<Rightarrow>
          (let f = (if ck_hasFirst c then ck_first c else ck_body c)
           in if \<not> Contains f (byte_of x) then False else ContainsAll (ck_body c) xs))"

text \<open>
  The scan of \<^verbatim>\<open>Valid\<close>: \<open>i\<close> is the loop index, \<open>start\<close> the beginning of the current
  segment and \<open>segments\<close> how many have begun.
\<close>

function valid_loop :: "checker \<Rightarrow> string \<Rightarrow> nat \<Rightarrow> nat \<Rightarrow> int \<Rightarrow> bool" where
  "valid_loop c s i start segments =
     (if i < length s then
        (if byte_of (s ! i) \<noteq> ck_separator c then valid_loop c s (Suc i) start segments
         else if \<not> validSegment c (take (i - start) (drop start s)) then False
         else if ck_maxSegs c > 0 \<and> segments + 1 > ck_maxSegs c then False
         else valid_loop c s (Suc i) (Suc i) (segments + 1))
      else validSegment c (drop start s))"
  by pat_completeness auto
termination
  by (relation "measure (\<lambda>(c, s, i, start, segments). length s - i)") auto

declare valid_loop.simps [simp del]

definition Valid :: "checker \<Rightarrow> string \<Rightarrow> bool" where
  "Valid c s =
     (if int (length s) < ck_minLength c \<or> (ck_maxLength c \<ge> 0 \<and> int (length s) > ck_maxLength c)
      then False
      else if s = [] then True
      else if \<not> ck_segmented c then validSegment c s
      else valid_loop c s 0 0 1)"

subsection \<open>truncate.go\<close>

text \<open>\<^verbatim>\<open>utf8.RuneStart\<close>: every byte but a continuation byte \<^verbatim>\<open>10xxxxxx\<close>.\<close>

definition RuneStart :: "byte \<Rightarrow> bool" where
  "RuneStart b \<longleftrightarrow> b AND 0xC0 \<noteq> 0x80"

fun truncate_loop :: "string \<Rightarrow> nat \<Rightarrow> nat" where
  "truncate_loop s 0 = 0"
| "truncate_loop s (Suc n) =
     (if RuneStart (byte_of (s ! Suc n)) then Suc n else truncate_loop s n)"

definition TruncateUTF8 :: "string \<Rightarrow> int \<Rightarrow> string" where
  "TruncateUTF8 s limit =
     (if limit \<le> 0 then []
      else if int (length s) \<le> limit then s
      else take (truncate_loop s (nat limit)) s)"


subsection \<open>Alphabets are the sets they are named after\<close>

definition wf_cset :: "cset \<Rightarrow> bool" where
  "wf_cset s \<longleftrightarrow> length (set_bits s) = 4"

definition members :: "cset \<Rightarrow> byte set" where
  "members s = {b. Contains s b}"

lemma and_63: "n AND 63 = n mod 64" for n :: nat
proof -
  have "n AND 63 = take_bit 6 n" by (simp add: take_bit_eq_mask mask_eq_exp_minus_1)
  then show ?thesis by (simp add: take_bit_eq_mod)
qed

lemma Contains_bit: "Contains s b \<longleftrightarrow> bit (set_bits s ! (unat b div 64)) (unat b mod 64)"
  by (simp add: Contains_def and_63 drop_bit_eq_div bit_iff_and_push_bit_not_eq_0)

lemma byte_less_256 [simp]: "unat (b :: byte) < 256"
  using unsigned_less [of b] by simp

lemma byte_div_less: "unat (b :: byte) div 64 < 4"
  using byte_less_256 [of b] by (simp add: less_mult_imp_div_less)

lemma div_mod_eq_iff: "(m :: nat) = n \<longleftrightarrow> m div 64 = n div 64 \<and> m mod 64 = n mod 64"
  by (metis div_mod_decomp)

lemma wf_zero_cset [simp]: "wf_cset zero_cset"
  by (simp add: wf_cset_def zero_cset_def)

lemma Contains_zero [simp]: "\<not> Contains zero_cset b"
  using byte_div_less [of b] by (simp add: Contains_bit zero_cset_def)

lemma wf_set_bit_of [simp]: "wf_cset (set_bit_of n s) = wf_cset s"
  by (simp add: wf_cset_def set_bit_of_def)

lemma Contains_set_bit_of:
  assumes "wf_cset s" and "n < 256"
  shows "Contains (set_bit_of n s) b \<longleftrightarrow> unat b = n \<or> Contains s b"
proof -
  have n: "n div 64 < length (set_bits s)"
    using assms by (simp add: wf_cset_def less_mult_imp_div_less)
  show ?thesis
  proof (cases "unat b div 64 = n div 64")
    case True
    with n have "Contains (set_bit_of n s) b \<longleftrightarrow>
        bit (set_bits s ! (n div 64) OR push_bit (n mod 64) 1) (unat b mod 64)"
      by (simp add: Contains_bit set_bit_of_def drop_bit_eq_div and_63)
    also have "\<dots> \<longleftrightarrow> Contains s b \<or> unat b mod 64 = n mod 64"
      using True by (auto simp: Contains_bit bit_or_iff bit_exp_iff)
    finally show ?thesis using True by (auto simp: div_mod_eq_iff [of "unat b" n])
  next
    case False
    then show ?thesis
      by (auto simp: Contains_bit set_bit_of_def drop_bit_eq_div)
  qed
qed

lemma range_loop_spec:
  "wf_cset s \<Longrightarrow> hi < 256 \<Longrightarrow> wf_cset (range_loop n hi s) \<and>
     (Contains (range_loop n hi s) b \<longleftrightarrow> (n \<le> unat b \<and> unat b \<le> hi) \<or> Contains s b)"
proof (induction n hi s rule: range_loop.induct)
  case (1 n hi s)
  show ?case
  proof (cases "n \<le> hi")
    case True
    with 1 show ?thesis
      by (auto simp: range_loop.simps [of n hi s] Contains_set_bit_of)
  next
    case False
    with 1 show ?thesis by (auto simp: range_loop.simps [of n hi s])
  qed
qed

lemma wf_RangeSet [simp]: "wf_cset (RangeSet lo hi)"
  by (simp add: RangeSet_def range_loop_spec)

lemma Contains_RangeSet [simp]: "Contains (RangeSet lo hi) b \<longleftrightarrow> lo \<le> b \<and> b \<le> hi"
  by (simp add: RangeSet_def range_loop_spec word_le_nat_alt)

lemma foldl_set_bit_of:
  "wf_cset s \<Longrightarrow> wf_cset (foldl (\<lambda>s b. set_bit_of (unat b) s) s bs) \<and>
     (Contains (foldl (\<lambda>s b. set_bit_of (unat b) s) s bs) x \<longleftrightarrow> x \<in> set bs \<or> Contains s x)"
  for bs :: "byte list"
  by (induction bs arbitrary: s) (auto simp: Contains_set_bit_of unsigned_word_eqI)

lemma wf_Bytes [simp]: "wf_cset (Bytes bs)"
  by (simp add: Bytes_def foldl_set_bit_of)

lemma Contains_Bytes [simp]: "Contains (Bytes bs) b \<longleftrightarrow> b \<in> set bs"
  by (simp add: Bytes_def foldl_set_bit_of)

lemma wf_UnionSet [simp]: "wf_cset s \<Longrightarrow> list_all wf_cset ss \<Longrightarrow> wf_cset (UnionSet s ss)"
  unfolding UnionSet_def by (induction ss arbitrary: s) (auto simp: wf_cset_def)

lemma Contains_UnionSet [simp]:
  "wf_cset s \<Longrightarrow> list_all wf_cset ss \<Longrightarrow>
     Contains (UnionSet s ss) b \<longleftrightarrow> Contains s b \<or> (\<exists>t \<in> set ss. Contains t b)"
  unfolding UnionSet_def using byte_div_less [of b]
  by (induction ss arbitrary: s) (auto simp: wf_cset_def Contains_bit bit_or_iff)

lemma wf_Without [simp]: "wf_cset s \<Longrightarrow> list_all wf_cset ss \<Longrightarrow> wf_cset (Without s ss)"
  unfolding Without_def by (induction ss arbitrary: s) (auto simp: wf_cset_def)

lemma Contains_Without [simp]:
  "wf_cset s \<Longrightarrow> list_all wf_cset ss \<Longrightarrow>
     Contains (Without s ss) b \<longleftrightarrow> Contains s b \<and> (\<forall>t \<in> set ss. \<not> Contains t b)"
  unfolding Without_def using byte_div_less [of b]
  by (induction ss arbitrary: s)
     (auto simp: wf_cset_def Contains_bit bit_and_iff bit_not_iff)

lemma ContainsAll_iff [simp]: "ContainsAll s cs \<longleftrightarrow> (\<forall>c \<in> set cs. Contains s (byte_of c))"
  by (induction cs) auto

lemma wf_cset_eqI:
  assumes "wf_cset s" "wf_cset t" "\<And>b. Contains s b \<longleftrightarrow> Contains t b"
  shows "s = t"
proof -
  have "set_bits s ! i = set_bits t ! i" if "i < 4" for i
  proof (rule bit_word_eqI)
    fix n assume "n < LENGTH(64)"
    with that have "64 * i + n < 256" by simp
    then have "unat (word_of_nat (64 * i + n) :: byte) = 64 * i + n"
      by (simp add: unat_of_nat del: of_nat_add of_nat_mult)
    with assms(3) [of "word_of_nat (64 * i + n)"] \<open>n < LENGTH(64)\<close>
    show "bit (set_bits s ! i) n = bit (set_bits t ! i) n"
      by (simp add: Contains_bit del: of_nat_add of_nat_mult)
  qed
  with assms(1,2) show ?thesis
    by (auto simp: wf_cset_def intro!: cset.equality nth_equalityI)
qed

subsection \<open>What a checker accepts\<close>

text \<open>
  The specification of \<^verbatim>\<open>Valid\<close> on the whole string: its segments are the parts between
  separators, or the string itself when the checker has none.
\<close>

definition segments_of :: "checker \<Rightarrow> string \<Rightarrow> string list" where
  "segments_of c s = (if ck_segmented c then split_by (\<lambda>x. byte_of x = ck_separator c) s else [s])"

lemma valid_loop_spec:
  assumes "\<forall>x \<in> set cur. byte_of x \<noteq> ck_separator c"
    and "ck_maxSegs c \<le> 0 \<or> k \<le> ck_maxSegs c"
  shows "valid_loop c (pre @ cur @ rest) (length pre + length cur) (length pre) k \<longleftrightarrow>
     (\<forall>g \<in> set (split_by (\<lambda>x. byte_of x = ck_separator c) (cur @ rest)). validSegment c g) \<and>
     (ck_maxSegs c > 0 \<longrightarrow>
        k + int (length (split_by (\<lambda>x. byte_of x = ck_separator c) (cur @ rest))) - 1 \<le> ck_maxSegs c)"
  using assms
proof (induction rest arbitrary: pre cur k)
  case Nil
  then show ?case
    by (subst valid_loop.simps) (auto simp: split_by_no_sep)
next
  case (Cons x rest)
  let ?sep = "\<lambda>x. byte_of x = ck_separator c"
  show ?case
  proof (cases "?sep x")
    case False
    then have "valid_loop c (pre @ cur @ x # rest) (length pre + length cur) (length pre) k =
        valid_loop c (pre @ (cur @ [x]) @ rest) (length pre + length (cur @ [x])) (length pre) k"
      by (subst valid_loop.simps) (simp add: nth_append)
    with Cons.IH [of "cur @ [x]" k pre] Cons.prems False show ?thesis by simp
  next
    case True
    have step: "valid_loop c (pre @ cur @ x # rest) (length pre + length cur) (length pre) k \<longleftrightarrow>
        validSegment c cur \<and> \<not> (ck_maxSegs c > 0 \<and> k + 1 > ck_maxSegs c) \<and>
        valid_loop c ((pre @ cur @ [x]) @ [] @ rest) (length (pre @ cur @ [x]) + length [])
          (length (pre @ cur @ [x])) (k + 1)"
      using True by (subst valid_loop.simps) (simp add: nth_append)
    have ne: "0 < length (split_by ?sep rest)" by simp
    show ?thesis
    proof (cases "ck_maxSegs c > 0 \<and> k + 1 > ck_maxSegs c")
      case True
      with step ne \<open>?sep x\<close> Cons.prems show ?thesis
        by (auto simp: split_by_append_sep)
    next
      case False
      then have "valid_loop c ((pre @ cur @ [x]) @ [] @ rest) (length (pre @ cur @ [x]) + length [])
          (length (pre @ cur @ [x])) (k + 1) \<longleftrightarrow>
          (\<forall>g \<in> set (split_by ?sep rest). validSegment c g) \<and>
          (ck_maxSegs c > 0 \<longrightarrow> k + 1 + int (length (split_by ?sep rest)) - 1 \<le> ck_maxSegs c)"
        using Cons.IH [of "[]" "k + 1" "pre @ cur @ [x]"] by auto
      with step False True Cons.prems show ?thesis
        by (auto simp: split_by_append_sep)
    qed
  qed
qed

lemma Valid_segments:
  "Valid c s \<longleftrightarrow>
     ck_minLength c \<le> int (length s) \<and> (0 \<le> ck_maxLength c \<longrightarrow> int (length s) \<le> ck_maxLength c) \<and>
     (s = [] \<or>
      (\<forall>g \<in> set (segments_of c s). validSegment c g) \<and>
      (ck_segmented c \<and> 0 < ck_maxSegs c \<longrightarrow> int (length (segments_of c s)) \<le> ck_maxSegs c))"
proof -
  have "ck_maxSegs c \<le> 0 \<or> 1 \<le> ck_maxSegs c" by linarith
  then have "valid_loop c s 0 0 1 \<longleftrightarrow>
     (\<forall>g \<in> set (split_by (\<lambda>x. byte_of x = ck_separator c) s). validSegment c g) \<and>
     (ck_maxSegs c > 0 \<longrightarrow>
        int (length (split_by (\<lambda>x. byte_of x = ck_separator c) s)) \<le> ck_maxSegs c)"
    using valid_loop_spec [of "[]" c 1 "[]" s] by simp
  then show ?thesis
    by (auto simp: Valid_def segments_of_def)
qed

subsection \<open>Truncation keeps whole runes\<close>

text \<open>
  A decodable string is a concatenation of runes: each a start byte followed by
  continuation bytes.
\<close>

definition is_rune :: "string \<Rightarrow> bool" where
  "is_rune r \<longleftrightarrow> (\<exists>x xs. r = x # xs \<and> RuneStart (byte_of x) \<and> (\<forall>y \<in> set xs. \<not> RuneStart (byte_of y)))"

lemma truncate_loop_spec:
  "truncate_loop s m \<le> m \<and>
   (truncate_loop s m = 0 \<or> RuneStart (byte_of (s ! truncate_loop s m))) \<and>
   (\<forall>i. truncate_loop s m < i \<and> i \<le> m \<longrightarrow> \<not> RuneStart (byte_of (s ! i)))"
  by (induction s m rule: truncate_loop.induct) (auto simp: le_Suc_eq)

lemma RuneStart_is_boundary:
  "\<forall>r \<in> set rs. is_rune r \<Longrightarrow> j < length (concat rs) \<Longrightarrow> RuneStart (byte_of (concat rs ! j)) \<Longrightarrow>
     \<exists>n < length rs. j = length (concat (take n rs))"
proof (induction rs arbitrary: j)
  case Nil
  then show ?case by simp
next
  case (Cons r rs)
  show ?case
  proof (cases "j < length r")
    case True
    with Cons.prems have "RuneStart (byte_of (r ! j))" by (simp add: nth_append)
    moreover from Cons.prems(1) have "is_rune r" by simp
    ultimately have "j = 0"
      using True by (cases j) (auto simp: is_rune_def)
    then show ?thesis by (auto intro: exI [of _ 0])
  next
    case False
    with Cons.prems have "j - length r < length (concat rs)"
      and "RuneStart (byte_of (concat rs ! (j - length r)))"
      by (auto simp: nth_append)
    with Cons.IH Cons.prems(1) obtain n where "n < length rs" "j - length r = length (concat (take n rs))"
      by auto
    with False show ?thesis by (intro exI [of _ "Suc n"]) simp
  qed
qed

lemma boundary_is_RuneStart:
  "\<forall>r \<in> set rs. is_rune r \<Longrightarrow> n < length rs \<Longrightarrow>
     RuneStart (byte_of (concat rs ! length (concat (take n rs))))"
proof (induction rs arbitrary: n)
  case Nil
  then show ?case by simp
next
  case (Cons r rs)
  then show ?case
    by (cases n) (auto simp: is_rune_def nth_append)
qed

lemma TruncateUTF8_runes:
  assumes rs: "\<forall>r \<in> set rs. is_rune r" and "0 \<le> limit"
  shows "\<exists>n \<le> length rs. TruncateUTF8 (concat rs) limit = concat (take n rs) \<and>
     int (length (concat (take n rs))) \<le> limit \<and>
     (n < length rs \<longrightarrow> limit < int (length (concat (take (Suc n) rs))))"
proof (cases "limit = 0")
  case True
  then have "n < length rs \<longrightarrow> limit < int (length (concat (take (Suc n) rs)))" if "n = 0" for n
    using rs that by (cases rs) (auto simp: is_rune_def)
  with True show ?thesis by (auto simp: TruncateUTF8_def intro: exI [of _ 0])
next
  case False
  show ?thesis
  proof (cases "int (length (concat rs)) \<le> limit")
    case True
    with False \<open>0 \<le> limit\<close> show ?thesis
      by (intro exI [of _ "length rs"]) (simp add: TruncateUTF8_def)
  next
    case cut: False
    define j where "j = truncate_loop (concat rs) (nat limit)"
    have j: "j \<le> nat limit" "j = 0 \<or> RuneStart (byte_of (concat rs ! j))"
      and after: "\<And>i. j < i \<Longrightarrow> i \<le> nat limit \<Longrightarrow> \<not> RuneStart (byte_of (concat rs ! i))"
      using truncate_loop_spec [of "concat rs" "nat limit"] unfolding j_def by auto
    from cut j(1) \<open>0 \<le> limit\<close> have lt: "j < length (concat rs)" by (simp add: not_le)
    then have "rs \<noteq> []" by auto
    obtain n where n: "n < length rs" "j = length (concat (take n rs))"
      using j(2) RuneStart_is_boundary [OF rs lt] \<open>rs \<noteq> []\<close> by fastforce
    have "limit < int (length (concat (take (Suc n) rs)))"
    proof (rule ccontr)
      let ?i = "length (concat (take (Suc n) rs))"
      assume "\<not> limit < int ?i"
      then have i: "?i \<le> nat limit" by (simp add: not_less)
      with cut \<open>0 \<le> limit\<close> have "?i < length (concat rs)" by (simp add: not_le)
      then have "Suc n < length rs" by (cases "Suc n < length rs") auto
      then have "RuneStart (byte_of (concat rs ! ?i))" by (rule boundary_is_RuneStart [OF rs])
      moreover have "j < ?i"
        using n(2) bspec [OF rs nth_mem [OF n(1)]] n(1)
        by (auto simp: take_Suc_conv_app_nth is_rune_def)
      ultimately show False using after i by blast
    qed
    moreover have "TruncateUTF8 (concat rs) limit = take j (concat rs)"
      using False cut \<open>0 \<le> limit\<close> by (simp add: TruncateUTF8_def j_def)
    moreover have "take j (concat rs) = concat (take n rs)"
      using n(2) by (metis append_eq_conv_conj append_take_drop_id concat_append)
    ultimately show ?thesis using n j(1) \<open>0 \<le> limit\<close> by (intro exI [of _ n]) auto
  qed
qed

subsection \<open>Properties\<close>

text \<open>Alphabets are the sets of bytes they are named after: the constructors and \<^verbatim>\<open>Union\<close> and
  \<^verbatim>\<open>Without\<close> compute range, finite set, union and difference on the bits, \<^verbatim>\<open>ContainsAll\<close> is
  membership of every byte, and two alphabets are equal as values (the comparison \<^verbatim>\<open>==\<close>)
  exactly when they admit the same bytes.\<close>

theorem alphabet_algebra:
  assumes "wf_cset s" and "wf_cset t"
  shows "members (RangeSet lo hi) = {lo..hi} \<and> members (Bytes bs) = set bs \<and>
    members (UnionSet s [t]) = members s \<union> members t \<and>
    members (Without s [t]) = members s - members t \<and>
    (ContainsAll s str \<longleftrightarrow> byte_of ` set str \<subseteq> members s) \<and>
    (Empty s \<longleftrightarrow> members s = {}) \<and> (s = t \<longleftrightarrow> members s = members t)"
proof -
  have eq: "s = t \<longleftrightarrow> members s = members t" if "wf_cset s" "wf_cset t" for s t
    using wf_cset_eqI [OF that] by (auto simp: members_def)
  have "Empty s \<longleftrightarrow> s = zero_cset"
    by (cases s) (simp add: Empty_def zero_cset_def)
  also have "\<dots> \<longleftrightarrow> members s = {}"
    using eq [OF assms(1) wf_zero_cset] by (simp add: members_def)
  finally show ?thesis
    using assms eq [OF assms] by (auto simp: members_def)
qed

theorem alphabet_algebra_witness:
  "members (Without ASCIILetters [ASCIIUpper]) = members ASCIILetters - members ASCIIUpper"
proof -
  have "wf_cset ASCIILetters" "wf_cset ASCIIUpper"
    by (simp_all add: ASCIILetters_def ASCIILower_def ASCIIUpper_def)
  from alphabet_algebra [OF this] show ?thesis by blast
qed

text \<open>\<^verbatim>\<open>Valid\<close> accepts a string exactly when its length is within the bounds and, unless it is
  the permitted empty string, every segment is non-empty, begins with a byte of the
  first-character alphabet (or of the body, when there is none) and continues in the body
  alphabet, and there are no more segments than allowed. The single pass of the loop is
  thereby equal to splitting at the separators first.\<close>

theorem Valid_spec:
  "Valid c s \<longleftrightarrow>
     ck_minLength c \<le> int (length s) \<and> (0 \<le> ck_maxLength c \<longrightarrow> int (length s) \<le> ck_maxLength c) \<and>
     (s = [] \<or>
      (\<forall>g \<in> set (segments_of c s).
         g \<noteq> [] \<and> byte_of (hd g) \<in> members (if ck_hasFirst c then ck_first c else ck_body c) \<and>
         byte_of ` set (tl g) \<subseteq> members (ck_body c)) \<and>
      (ck_segmented c \<and> 0 < ck_maxSegs c \<longrightarrow> int (length (segments_of c s)) \<le> ck_maxSegs c))"
proof -
  have "validSegment c g \<longleftrightarrow>
      g \<noteq> [] \<and> byte_of (hd g) \<in> members (if ck_hasFirst c then ck_first c else ck_body c) \<and>
      byte_of ` set (tl g) \<subseteq> members (ck_body c)" for g
    by (cases g) (auto simp: validSegment_def members_def Let_def image_subset_iff)
  then show ?thesis by (simp add: Valid_segments)
qed

text \<open>A dotted identifier of at most two segments, as the SQL identifier rules use.\<close>

theorem Valid_spec_witness:
  "Valid (New ASCIIAlphanumeric [WithFirst ASCIILetters, WithSeparator 0x2E 2]) ''a1.b'' \<and>
   \<not> Valid (New ASCIIAlphanumeric [WithFirst ASCIILetters, WithSeparator 0x2E 2]) ''a.b.c''"
proof -
  let ?c = "New ASCIIAlphanumeric [WithFirst ASCIILetters, WithSeparator 0x2E 2]"
  have c: "ck_minLength ?c = 1" "ck_maxLength ?c = -1" "ck_segmented ?c" "ck_separator ?c = 0x2E"
    "ck_maxSegs ?c = 2" "ck_hasFirst ?c"
    "ck_first ?c = Without ASCIILetters [Bytes [0x2E]]"
    "ck_body ?c = Without ASCIIAlphanumeric [Bytes [0x2E]]"
    by (simp_all add: New_def WithFirst_def WithSeparator_def)
  have sep: "segments_of ?c ''a1.b'' = [''a1'', ''b'']" "segments_of ?c ''a.b.c'' = [''a'', ''b'', ''c'']"
    by (simp_all add: segments_of_def c byte_of_def)
  have "byte_of CHR ''a'' \<in> members (ck_first ?c)" "byte_of CHR ''b'' \<in> members (ck_first ?c)"
    "byte_of CHR ''1'' \<in> members (ck_body ?c)"
    unfolding c by (simp_all add: members_def ASCIILetters_def ASCIIAlphanumeric_def ASCIILower_def
        ASCIIUpper_def ASCIIDigits_def byte_of_def word_le_nat_alt)
  with c sep show ?thesis
    using Valid_spec [of ?c "''a1.b''"] Valid_spec [of ?c "''a.b.c''"] by simp
qed

text \<open>Truncating a string of whole runes to a byte budget keeps the longest run of whole runes
  that fits: the result is a concatenation of the first runes, within the budget, and one
  more rune would not have fitted.\<close>

theorem TruncateUTF8_longest:
  assumes "list_all is_rune rs" and "0 \<le> limit"
  shows "\<exists>n \<le> length rs. TruncateUTF8 (concat rs) limit = concat (take n rs) \<and>
     int (length (concat (take n rs))) \<le> limit \<and>
     (n < length rs \<longrightarrow> limit < int (length (concat (take (Suc n) rs))))"
  using TruncateUTF8_runes [of rs limit] assms by (simp add: list_all_iff)

text \<open>Cutting \<^verbatim>\<open>"a\u00e9z"\<close> (four bytes) at two bytes drops the whole second rune.\<close>

theorem TruncateUTF8_longest_witness:
  "TruncateUTF8 [CHR ''a'', CHR 0xC3, CHR 0xA9, CHR ''z''] 2 = ''a''"
proof -
  let ?rs = "[[CHR ''a''], [CHR 0xC3, CHR 0xA9], [CHR ''z'']]"
  have "list_all is_rune ?rs"
    by (simp add: is_rune_def RuneStart_def byte_of_def)
  from TruncateUTF8_longest [OF this, of 2]
  obtain n where n: "n \<le> length ?rs" "TruncateUTF8 (concat ?rs) 2 = concat (take n ?rs)"
    "int (length (concat (take n ?rs))) \<le> 2"
    "n < length ?rs \<longrightarrow> 2 < int (length (concat (take (Suc n) ?rs)))"
    by fastforce
  then have "n \<le> 3" by simp
  then consider "n = 0" | "n = 1" | "n = 2" | "n = 3" by linarith
  then show ?thesis using n(2-4) by cases simp_all
qed

end
