(* ===== verification/CacheSpec.thy ===== *)
theory CacheSpec
  imports Prelude
begin

text \<open>
  \<^verbatim>\<open>cache/cache.go\<close>: how a write resolves its expiry, the errors of the package, and the
  contract of the \<^verbatim>\<open>Cache\<close> interface.

  A \<^verbatim>\<open>WriteOption\<close> is a function on the write configuration, whose only field is the
  requested expiry; a nil option is \<^const>\<open>None\<close>.

  The contract is the locale \<open>cache_contract\<close>. Its parameter \<open>live\<close> is what the store answers
  for at an instant; the laws say what each operation does to it, and that time only ever
  takes entries away. The components that are given a cache (the idempotency manager, the
  cached policy resolver) rely on these laws and on nothing else of the provider.
\<close>

datatype cache_error =
    ErrNotFound
  | ErrNamespaceRequired
  | ErrUnavailable
  | ErrUnknownEvictionPolicy
  | ErrContext
  | ErrLoader string

definition NoExpiry :: duration where
  "NoExpiry = -1"

record WriteConfig =
  wc_Expiry :: duration

type_synonym WriteOption = "(WriteConfig \<Rightarrow> WriteConfig) option"

definition WithExpiry :: "duration \<Rightarrow> WriteOption" where
  "WithExpiry expiry = Some (\<lambda>c. c\<lparr>wc_Expiry := expiry\<rparr>)"

definition EffectiveExpiry :: "duration \<Rightarrow> WriteOption list \<Rightarrow> duration" where
  "EffectiveExpiry defaultExpiry opts =
     (let cfg = foldl (\<lambda>cfg opt. case opt of None \<Rightarrow> cfg | Some f \<Rightarrow> f cfg) \<lparr>wc_Expiry = 0\<rparr> opts;
          expiry = (if wc_Expiry cfg = 0 then defaultExpiry else wc_Expiry cfg)
      in max 0 expiry)"

lemma EffectiveExpiry_none [simp]: "EffectiveExpiry d [] = max 0 d"
  by (simp add: EffectiveExpiry_def)

lemma EffectiveExpiry_WithExpiry:
  "EffectiveExpiry d [WithExpiry e] = (if e = 0 then max 0 d else max 0 e)"
  by (simp add: EffectiveExpiry_def WithExpiry_def)

text \<open>The last option that sets an expiry wins, wherever the nil options stand.\<close>

lemma EffectiveExpiry_last:
  "EffectiveExpiry d (opts @ WithExpiry e # replicate n None) = (if e = 0 then max 0 d else max 0 e)"
proof -
  have "foldl (\<lambda>cfg opt. case opt of None \<Rightarrow> cfg | Some f \<Rightarrow> f cfg) cfg (replicate n None) = cfg"
    for cfg :: WriteConfig
    by (induction n) auto
  then show ?thesis by (simp add: EffectiveExpiry_def WithExpiry_def Let_def)
qed

subsection \<open>The contract\<close>

locale cache_contract =
  fixes get :: "gotime \<Rightarrow> string \<Rightarrow> 's \<Rightarrow> (cache_error + 'v) \<times> 's"
    and put :: "gotime \<Rightarrow> string \<Rightarrow> 'v \<Rightarrow> duration \<Rightarrow> 's \<Rightarrow> 's"
    and del :: "gotime \<Rightarrow> string \<Rightarrow> 's \<Rightarrow> 's"
    and live :: "gotime \<Rightarrow> 's \<Rightarrow> string \<Rightarrow> 'v option"
    and ok :: "'s \<Rightarrow> bool"
  assumes get_result: "ok s \<Longrightarrow>
      fst (get t k s) = (case live t s k of None \<Rightarrow> Inl ErrNotFound | Some v \<Rightarrow> Inr v)"
    and get_ok: "ok s \<Longrightarrow> ok (snd (get t k s))"
    and get_live: "ok s \<Longrightarrow> t \<le> t' \<Longrightarrow> live t' (snd (get t k s)) k' = live t' s k'"
    and put_ok: "ok s \<Longrightarrow> ok (put t k v d s)"
    and put_live: "ok s \<Longrightarrow> 0 \<le> t \<Longrightarrow> 0 < d \<Longrightarrow> t \<le> t' \<Longrightarrow>
      live t' (put t k v d s) k' =
        (if k' = k then (if t' < t + d then Some v else None) else live t' s k')"
    and del_ok: "ok s \<Longrightarrow> ok (del t k s)"
    and del_live: "ok s \<Longrightarrow> live t' (del t k s) k' = (if k' = k then None else live t' s k')"
    and live_expires: "t \<le> t' \<Longrightarrow> live t' s k = Some v \<Longrightarrow> live t s k = Some v"
begin

lemmas contract = get_result get_ok get_live put_ok put_live del_ok del_live

text \<open>A value written is read back until its deadline, whatever happens to other keys.\<close>

lemma read_your_write:
  assumes "ok s" "0 \<le> t" "0 < d" "t \<le> t'" "t' < t + d"
  shows "fst (get t' k (put t k v d s)) = Inr v"
  using assms by (simp add: contract)

lemma read_after_delete:
  assumes "ok s"
  shows "fst (get t' k (del t k s)) = Inl ErrNotFound"
  using assms by (simp add: contract)

lemma dead_stays_dead: "t \<le> t' \<Longrightarrow> live t s k = None \<Longrightarrow> live t' s k = None"
  by (cases "live t' s k") (auto dest: live_expires)

end

end
