(* ===== verification/CacheBounds.thy ===== *)
theory CacheBounds
  imports Prelude
begin

text \<open>
  \<^verbatim>\<open>cache/memory/bounds.go\<close>: the eviction index of a size-bounded in-memory cache.

  The source keeps a doubly linked list (front: survives longest, back: next to go) and a
  map from keys to list elements. Here the list is a list of elements, each an identity
  (what the pointer stands for) and the key it holds, and the map goes from keys to
  identities; \<open>ix_next\<close> supplies the identity of the next element allocated. A nil index, an
  unbounded cache, is \<^const>\<open>None\<close>.

  \<open>recency\<close> forgets the pointers: the refinement lemmas show that on a consistent index every
  operation is a plain operation on a duplicate-free list of keys.
\<close>

subsection \<open>Policies\<close>

type_synonym EvictionPolicy = byte

definition EvictLeastRecentlyUsed :: EvictionPolicy where
  "EvictLeastRecentlyUsed = 1"

definition EvictOldestWritten :: EvictionPolicy where
  "EvictOldestWritten = 2"

definition String_policy :: "EvictionPolicy \<Rightarrow> string" where
  "String_policy p =
     (if p = EvictLeastRecentlyUsed then ''least_recently_used''
      else if p = EvictOldestWritten then ''oldest_written''
      else ''unknown'')"

definition valid_policy :: "EvictionPolicy \<Rightarrow> bool" where
  "valid_policy p \<longleftrightarrow> p = EvictLeastRecentlyUsed \<or> p = EvictOldestWritten"

subsection \<open>The linked list\<close>

type_synonym element = "nat \<times> string"

definition MoveToFront :: "nat \<Rightarrow> element list \<Rightarrow> element list" where
  "MoveToFront el l =
     (case find (\<lambda>p. fst p = el) l of
        None \<Rightarrow> l
      | Some p \<Rightarrow> p # filter (\<lambda>q. fst q \<noteq> el) l)"

definition Remove :: "nat \<Rightarrow> element list \<Rightarrow> element list" where
  "Remove el l = filter (\<lambda>q. fst q \<noteq> el) l"

subsection \<open>The index\<close>

record evictionIndex =
  ix_elements :: "(string, nat) gomap"
  ix_order :: "element list"
  ix_next :: nat
  ix_maxEntries :: int
  ix_policy :: EvictionPolicy

definition newEvictionIndex :: "int \<Rightarrow> EvictionPolicy \<Rightarrow> evictionIndex option" where
  "newEvictionIndex maxEntries policy =
     (if maxEntries \<le> 0 then None
      else Some \<lparr>ix_elements = [], ix_order = [], ix_next = 0,
                 ix_maxEntries = maxEntries, ix_policy = policy\<rparr>)"

definition recordsReads :: "evictionIndex option \<Rightarrow> bool" where
  "recordsReads x = (case x of None \<Rightarrow> False | Some i \<Rightarrow> ix_policy i = EvictLeastRecentlyUsed)"

definition recordRead :: "string \<Rightarrow> evictionIndex option \<Rightarrow> evictionIndex option" where
  "recordRead key x =
     (if \<not> recordsReads x then x
      else map_option (\<lambda>i. case mget (ix_elements i) key of
             Some el \<Rightarrow> i\<lparr>ix_order := MoveToFront el (ix_order i)\<rparr>
           | None \<Rightarrow> i) x)"

definition recordWrite :: "string \<Rightarrow> evictionIndex option \<Rightarrow> evictionIndex option" where
  "recordWrite key x =
     map_option (\<lambda>i. case mget (ix_elements i) key of
         Some el \<Rightarrow> i\<lparr>ix_order := MoveToFront el (ix_order i)\<rparr>
       | None \<Rightarrow> i\<lparr>ix_order := (ix_next i, key) # ix_order i,
                  ix_elements := mput key (ix_next i) (ix_elements i),
                  ix_next := Suc (ix_next i)\<rparr>) x"

definition forget :: "string \<Rightarrow> evictionIndex option \<Rightarrow> evictionIndex option" where
  "forget key x =
     map_option (\<lambda>i. case mget (ix_elements i) key of
         Some el \<Rightarrow> i\<lparr>ix_order := Remove el (ix_order i), ix_elements := mdel key (ix_elements i)\<rparr>
       | None \<Rightarrow> i) x"

definition reset :: "evictionIndex option \<Rightarrow> evictionIndex option" where
  "reset x = map_option (\<lambda>i. i\<lparr>ix_order := [], ix_elements := []\<rparr>) x"

function evict_loop :: "evictionIndex \<Rightarrow> string list \<Rightarrow> string list \<times> evictionIndex" where
  "evict_loop i evicted =
     (if int (length (ix_order i)) > ix_maxEntries i then
        (if ix_order i = [] then (evicted, i)
         else (let el = last (ix_order i)
               in evict_loop (i\<lparr>ix_order := Remove (fst el) (ix_order i),
                                ix_elements := mdel (snd el) (ix_elements i)\<rparr>)
                    (evicted @ [snd el])))
      else (evicted, i))"
  by pat_completeness auto
termination
proof (relation "measure (\<lambda>(i, evicted). length (ix_order i))", goal_cases)
  case (2 i evicted el)
  then have "length (Remove (fst el) (ix_order i)) < length (ix_order i)"
    unfolding Remove_def by (intro length_filter_less [of "last (ix_order i)"]) auto
  then show ?case by simp
qed simp

declare evict_loop.simps [simp del]

definition evictOverflow :: "evictionIndex option \<Rightarrow> string list \<times> evictionIndex option" where
  "evictOverflow x =
     (case x of
        None \<Rightarrow> ([], None)
      | Some i \<Rightarrow>
          if int (length (ix_order i)) \<le> ix_maxEntries i then ([], Some i)
          else (case evict_loop i [] of (evicted, i') \<Rightarrow> (evicted, Some i')))"

subsection \<open>Consistency and the recency list\<close>

definition recency :: "evictionIndex \<Rightarrow> string list" where
  "recency i = map snd (ix_order i)"

definition index_inv :: "evictionIndex \<Rightarrow> bool" where
  "index_inv i \<longleftrightarrow>
     is_map (ix_elements i) \<and> distinct (map fst (ix_order i)) \<and> distinct (recency i) \<and>
     (\<forall>k el. mget (ix_elements i) k = Some el \<longleftrightarrow> (el, k) \<in> set (ix_order i)) \<and>
     (\<forall>p \<in> set (ix_order i). fst p < ix_next i) \<and> 0 < ix_maxEntries i"

text \<open>The recency list after the three promotions and removals, as list operations.\<close>

definition touch :: "string \<Rightarrow> string list \<Rightarrow> string list" where
  "touch k ks = (if k \<in> set ks then k # removeAll k ks else ks)"

lemma newEvictionIndex_inv: "newEvictionIndex n p = Some i \<Longrightarrow> index_inv i \<and> recency i = []"
  by (auto simp: newEvictionIndex_def index_inv_def recency_def split: if_splits)

lemma index_elements_None:
  "index_inv i \<Longrightarrow> mget (ix_elements i) k = None \<longleftrightarrow> k \<notin> set (recency i)"
  by (cases "mget (ix_elements i) k") (force simp: index_inv_def recency_def)+

lemma MoveToFront_spec:
  assumes "distinct (map fst l)" and "distinct (map snd l)" and "(el, k) \<in> set l"
  shows "set (MoveToFront el l) = set l" and "distinct (map fst (MoveToFront el l))"
    and "map snd (MoveToFront el l) = k # removeAll k (map snd l)"
proof -
  have "find (\<lambda>p. fst p = el) l = Some (el, k)"
    using assms
  proof (induction l)
    case (Cons p l)
    then show ?case by (cases p) (auto simp: image_iff)
  qed simp
  then have mv: "MoveToFront el l = (el, k) # filter (\<lambda>q. fst q \<noteq> el) l"
    by (simp add: MoveToFront_def)
  have same: "fst q = el \<longleftrightarrow> snd q = k" if "q \<in> set l" for q
    using assms that by (metis distinct_map eq_fst_iff eq_snd_iff inj_on_eq_iff prod.collapse)
  show "set (MoveToFront el l) = set l"
    using assms(3) same by (auto simp: mv) (metis fst_conv prod.collapse snd_conv same)
  show "distinct (map fst (MoveToFront el l))"
    using assms(1) by (auto simp: mv distinct_map_filter)
  have "filter (\<lambda>q. fst q \<noteq> el) l = filter (\<lambda>q. snd q \<noteq> k) l"
    using same by (intro filter_cong) auto
  then show "map snd (MoveToFront el l) = k # removeAll k (map snd l)"
    by (simp add: mv removeAll_filter_not_eq filter_map comp_def eq_commute)
qed

lemma Remove_spec:
  assumes "distinct (map fst l)" and "distinct (map snd l)" and "(el, k) \<in> set l"
  shows "set (Remove el l) = set l - {(el, k)}" and "distinct (map fst (Remove el l))"
    and "map snd (Remove el l) = removeAll k (map snd l)"
proof -
  have same: "fst q = el \<longleftrightarrow> snd q = k" if "q \<in> set l" for q
    using assms that by (metis distinct_map eq_fst_iff eq_snd_iff inj_on_eq_iff prod.collapse)
  then have "fst q = el \<longleftrightarrow> q = (el, k)" if "q \<in> set l" for q
    using that by (metis fst_conv prod.collapse)
  then show "set (Remove el l) = set l - {(el, k)}"
    by (auto simp: Remove_def)
  show "distinct (map fst (Remove el l))"
    using assms(1) by (simp add: Remove_def distinct_map_filter)
  have "filter (\<lambda>q. fst q \<noteq> el) l = filter (\<lambda>q. snd q \<noteq> k) l"
    using same by (intro filter_cong) auto
  then show "map snd (Remove el l) = removeAll k (map snd l)"
    by (simp add: Remove_def removeAll_filter_not_eq filter_map comp_def eq_commute)
qed

subsection \<open>Every operation is its list operation on recency\<close>

lemma promote_refines:
  assumes "index_inv i" and "mget (ix_elements i) k = Some el"
  shows "index_inv (i\<lparr>ix_order := MoveToFront el (ix_order i)\<rparr>)"
    and "recency (i\<lparr>ix_order := MoveToFront el (ix_order i)\<rparr>) = k # removeAll k (recency i)"
proof -
  from assms have mem: "(el, k) \<in> set (ix_order i)"
    and d: "distinct (map fst (ix_order i))" "distinct (map snd (ix_order i))"
    by (auto simp: index_inv_def recency_def)
  note mv = MoveToFront_spec [OF d mem]
  show r: "recency (i\<lparr>ix_order := MoveToFront el (ix_order i)\<rparr>) = k # removeAll k (recency i)"
    by (simp add: recency_def mv(3))
  show "index_inv (i\<lparr>ix_order := MoveToFront el (ix_order i)\<rparr>)"
    using assms(1) mv(1,2) r unfolding index_inv_def by (simp add: distinct_removeAll)
qed

lemma drop_refines:
  assumes "index_inv i" and "(el, k) \<in> set (ix_order i)"
  shows "index_inv (i\<lparr>ix_order := Remove el (ix_order i), ix_elements := mdel k (ix_elements i)\<rparr>)"
    and "recency (i\<lparr>ix_order := Remove el (ix_order i), ix_elements := mdel k (ix_elements i)\<rparr>) =
           removeAll k (recency i)"
proof -
  from assms(1) have d: "distinct (map fst (ix_order i))" "distinct (map snd (ix_order i))"
    by (auto simp: index_inv_def recency_def)
  note rm = Remove_spec [OF d assms(2)]
  show r: "recency (i\<lparr>ix_order := Remove el (ix_order i), ix_elements := mdel k (ix_elements i)\<rparr>) =
      removeAll k (recency i)"
    by (simp add: recency_def rm(3))
  have only: "el' = el \<and> k' = k" if "(el', k') \<in> set (ix_order i)" "k' = k" for el' k'
    using that assms d(2) by (auto simp: index_inv_def) (metis option.inject)
  show "index_inv (i\<lparr>ix_order := Remove el (ix_order i), ix_elements := mdel k (ix_elements i)\<rparr>)"
    using assms(1) rm(1,2) r only unfolding index_inv_def by (auto simp: distinct_removeAll)
qed

lemma push_refines:
  assumes "index_inv i" and "mget (ix_elements i) k = None"
    and j: "j = i\<lparr>ix_order := (ix_next i, k) # ix_order i,
      ix_elements := mput k (ix_next i) (ix_elements i), ix_next := Suc (ix_next i)\<rparr>"
  shows "index_inv j" and "recency j = k # removeAll k (recency i)"
proof -
  from assms have k: "k \<notin> set (recency i)" by (simp add: index_elements_None)
  then show r: "recency j = k # removeAll k (recency i)"
    by (simp add: recency_def j)
  from k have new: "(el, k) \<notin> set (ix_order i)" for el
    by (force simp: recency_def)
  from assms(1) have fresh: "ix_next i \<notin> fst ` set (ix_order i)"
    by (auto simp: index_inv_def)
  have "(\<forall>k' el. mget (ix_elements j) k' = Some el \<longleftrightarrow> (el, k') \<in> set (ix_order j))"
    using assms(1) new by (auto simp: index_inv_def j)
  moreover have "\<forall>p \<in> set (ix_order j). fst p < ix_next j"
    using assms(1) by (auto simp: index_inv_def less_Suc_eq j)
  moreover have "distinct (recency j)"
    using assms(1) k by (simp add: r index_inv_def distinct_removeAll)
  ultimately show "index_inv j"
    using assms(1) fresh unfolding index_inv_def by (auto simp: j)
qed

text \<open>What a step of the index keeps of its configuration.\<close>

definition same_bound :: "evictionIndex \<Rightarrow> evictionIndex \<Rightarrow> bool" where
  "same_bound i j \<longleftrightarrow> ix_maxEntries j = ix_maxEntries i \<and> ix_policy j = ix_policy i"

lemma recordWrite_refines:
  assumes "index_inv i"
  obtains j where "recordWrite k (Some i) = Some j" "index_inv j"
    "recency j = k # removeAll k (recency i)" "same_bound i j"
proof (cases "mget (ix_elements i) k")
  case None
  with push_refines [OF assms None refl] that show ?thesis
    by (simp add: recordWrite_def same_bound_def)
next
  case (Some el)
  with promote_refines [OF assms Some] that show ?thesis
    by (simp add: recordWrite_def same_bound_def)
qed

lemma recordRead_refines:
  assumes "index_inv i"
  obtains j where "recordRead k (Some i) = Some j" "index_inv j" "same_bound i j"
    "recency j = (if ix_policy i = EvictLeastRecentlyUsed then touch k (recency i) else recency i)"
proof (cases "mget (ix_elements i) k")
  case None
  with assms have "touch k (recency i) = recency i" by (simp add: touch_def index_elements_None)
  with None assms show ?thesis
    by (intro that [of i]) (simp_all add: recordRead_def recordsReads_def same_bound_def)
next
  case (Some el)
  with index_elements_None [OF assms, of k] have "k \<in> set (recency i)" by simp
  with promote_refines [OF assms Some] Some assms show ?thesis
    by (intro that [of "if ix_policy i = EvictLeastRecentlyUsed
            then i\<lparr>ix_order := MoveToFront el (ix_order i)\<rparr> else i"])
       (simp_all add: recordRead_def recordsReads_def same_bound_def touch_def)
qed

lemma forget_refines:
  assumes "index_inv i"
  obtains j where "forget k (Some i) = Some j" "index_inv j" "same_bound i j"
    "recency j = removeAll k (recency i)"
proof (cases "mget (ix_elements i) k")
  case None
  with assms have "removeAll k (recency i) = recency i" by (simp add: index_elements_None)
  with None assms that show ?thesis by (simp add: forget_def same_bound_def)
next
  case (Some el)
  with assms have "(el, k) \<in> set (ix_order i)" by (simp add: index_inv_def)
  with drop_refines [OF assms this] Some that show ?thesis
    by (simp add: forget_def same_bound_def)
qed

lemma reset_refines:
  assumes "index_inv i"
  obtains j where "reset (Some i) = Some j" "index_inv j" "same_bound i j" "recency j = []"
  using assms that by (simp add: reset_def index_inv_def recency_def same_bound_def)

lemma removeAll_last: "distinct xs \<Longrightarrow> xs \<noteq> [] \<Longrightarrow> removeAll (last xs) xs = butlast xs"
  by (metis append_butlast_last_id distinct_append distinct_remove1_removeAll
        disjoint_insert(1) list.set(2) remove1.simps(2) remove1_append append_Nil2)

lemma evict_loop_refines:
  "index_inv i \<Longrightarrow> evict_loop i ev = (ev', j) \<Longrightarrow>
     index_inv j \<and> same_bound i j \<and> recency j = take (nat (ix_maxEntries i)) (recency i) \<and>
     ev' = ev @ rev (drop (nat (ix_maxEntries i)) (recency i))"
proof (induction i ev rule: evict_loop.induct)
  case (1 i ev)
  show ?case
  proof (cases "int (length (ix_order i)) > ix_maxEntries i")
    case False
    with 1 have "ev' = ev \<and> j = i" by (simp add: evict_loop.simps [of i ev])
    moreover have "length (recency i) \<le> nat (ix_maxEntries i)"
      using False by (simp add: recency_def)
    ultimately show ?thesis using 1 by (simp add: same_bound_def)
  next
    case True
    then have ne: "ix_order i \<noteq> []" using "1.prems"(1) by (auto simp: index_inv_def)
    let ?el = "last (ix_order i)"
    let ?i = "i\<lparr>ix_order := Remove (fst ?el) (ix_order i), ix_elements := mdel (snd ?el) (ix_elements i)\<rparr>"
    have "(fst ?el, snd ?el) \<in> set (ix_order i)" using ne by simp
    note dr = drop_refines [OF "1.prems"(1) this]
    have d: "distinct (recency i)" "recency i \<noteq> []" "snd ?el = last (recency i)"
      using "1.prems"(1) ne by (auto simp: index_inv_def recency_def last_map)
    have rb: "recency ?i = butlast (recency i)"
      using dr(2) d by (simp add: removeAll_last)
    have len: "nat (ix_maxEntries i) < length (recency i)"
      using True "1.prems"(1) by (auto simp: recency_def index_inv_def nat_less_iff)
    have "evict_loop ?i (ev @ [snd ?el]) = (ev', j)"
      using "1.prems"(2) True ne by (simp add: evict_loop.simps [of i ev] Let_def)
    with "1.IH" [OF True ne refl dr(1)] have IH:
      "index_inv j" "same_bound ?i j" "recency j = take (nat (ix_maxEntries i)) (butlast (recency i))"
      "ev' = (ev @ [snd ?el]) @ rev (drop (nat (ix_maxEntries i)) (butlast (recency i)))"
      by (simp_all add: rb)
    have "drop (nat (ix_maxEntries i)) (recency i) =
        drop (nat (ix_maxEntries i)) (butlast (recency i)) @ [last (recency i)]"
      using len by (metis append_butlast_last_id drop_butlast last_drop drop_eq_Nil not_le)
    with IH len d(3) show ?thesis
      by (simp add: same_bound_def take_butlast)
  qed
qed

lemma evictOverflow_refines:
  assumes "index_inv i"
  obtains j where
    "evictOverflow (Some i) = (rev (drop (nat (ix_maxEntries i)) (recency i)), Some j)"
    "index_inv j" "same_bound i j" "recency j = take (nat (ix_maxEntries i)) (recency i)"
proof (cases "int (length (ix_order i)) \<le> ix_maxEntries i")
  case True
  then have "length (recency i) \<le> nat (ix_maxEntries i)" by (simp add: recency_def nat_le_iff le_nat_iff)
  with True assms that show ?thesis by (simp add: evictOverflow_def same_bound_def)
next
  case False
  obtain ev j where "evict_loop i [] = (ev, j)" by fastforce
  with evict_loop_refines [OF assms this] False that show ?thesis
    by (simp add: evictOverflow_def)
qed

end
