(* ===== verification/CacheMemory.thy ===== *)
theory CacheMemory
  imports CacheSpec CacheBounds
begin

text \<open>
  \<^verbatim>\<open>cache/memory\<close>: the in-memory cache, its janitor and its read-through loader.

  \<open>cache\<close> is the struct: the map, the eviction index of \<open>CacheBounds\<close>, the default expiry,
  whether a sweep goroutine is running, and the counters the operations move. Each method
  is one definition, in the order of the source, and covers the whole critical section.
  Methods read the clock at several points; \<open>clk\<close> gives the reading at each of them, so that
  time may pass inside a call. A map iteration is the order of the association list.

  A loader is a function supplied by the caller; joining a flight in progress is not
  modelled (a joiner shares the result of the flight and changes nothing), and \<open>gone\<close> says
  whether the caller's context ended before the flight answered.
\<close>

record 'v entry =
  e_expiresAt :: gotime
  e_val :: 'v

record 'v cache =
  c_map :: "(string, 'v entry) gomap"
  c_index :: "evictionIndex option"
  c_defaultExpiry :: duration
  c_janitor :: bool
  c_hits :: nat
  c_misses :: nat
  c_sets :: nat
  c_dels :: nat
  c_evicts :: nat
  c_capEvicts :: nat
  c_loads :: nat

type_synonym 'v loader = "string \<Rightarrow> cache_error + 'v"
type_synonym clk = "nat \<Rightarrow> gotime"

subsection \<open>Construction\<close>

record options =
  o_maxEntries :: int
  o_evictionPolicy :: EvictionPolicy
  o_janitorCtx :: bool
  o_janitorInterval :: duration

type_synonym Option = "(options \<Rightarrow> options) option"

definition WithMaxEntries :: "int \<Rightarrow> EvictionPolicy \<Rightarrow> Option" where
  "WithMaxEntries maxEntries policy =
     Some (\<lambda>cfg. if maxEntries \<le> 0 then cfg
               else cfg\<lparr>o_maxEntries := maxEntries, o_evictionPolicy := policy\<rparr>)"

definition WithJanitor :: "bool \<Rightarrow> duration \<Rightarrow> Option" where
  "WithJanitor hasCtx interval =
     Some (\<lambda>cfg. if \<not> hasCtx \<or> interval \<le> 0 then cfg
               else cfg\<lparr>o_janitorCtx := True, o_janitorInterval := interval\<rparr>)"

definition NewInMemoryCache :: "duration \<Rightarrow> Option list \<Rightarrow> cache_error + 'v cache" where
  "NewInMemoryCache defaultExpiry opts =
     (let cfg0 = \<lparr>o_maxEntries = 0, o_evictionPolicy = 0, o_janitorCtx = False, o_janitorInterval = 0\<rparr>;
          cfg = foldl (\<lambda>cfg opt. case opt of None \<Rightarrow> cfg | Some f \<Rightarrow> f cfg) cfg0 opts
      in if o_maxEntries cfg > 0 \<and> \<not> valid_policy (o_evictionPolicy cfg)
         then Inl ErrUnknownEvictionPolicy
         else Inr \<lparr>c_map = [], c_index = newEvictionIndex (o_maxEntries cfg) (o_evictionPolicy cfg),
                   c_defaultExpiry = defaultExpiry,
                   c_janitor = (o_janitorCtx cfg \<and> o_janitorInterval cfg > 0),
                   c_hits = 0, c_misses = 0, c_sets = 0, c_dels = 0, c_evicts = 0,
                   c_capEvicts = 0, c_loads = 0\<rparr>)"

subsection \<open>Reading and writing\<close>

definition expired :: "gotime \<Rightarrow> 'v entry \<Rightarrow> bool" where
  "expired now e \<longleftrightarrow> \<not> time_is_zero (e_expiresAt e) \<and> \<not> now < e_expiresAt e"

definition newEntry :: "gotime \<Rightarrow> 'v \<Rightarrow> WriteOption list \<Rightarrow> 'v cache \<Rightarrow> 'v entry" where
  "newEntry now v opts c =
     (let expiry = EffectiveExpiry (c_defaultExpiry c) opts
      in if expiry > 0 then \<lparr>e_expiresAt = now + expiry, e_val = v\<rparr>
         else \<lparr>e_expiresAt = 0, e_val = v\<rparr>)"

definition evictOverflowLocked :: "'v cache \<Rightarrow> 'v cache" where
  "evictOverflowLocked c =
     (case evictOverflow (c_index c) of (keys, x) \<Rightarrow>
        foldl (\<lambda>c key. c\<lparr>c_map := mdel key (c_map c), c_capEvicts := c_capEvicts c + 1\<rparr>)
          (c\<lparr>c_index := x\<rparr>) keys)"

definition evictExpired :: "gotime \<Rightarrow> string \<Rightarrow> 'v cache \<Rightarrow> 'v cache" where
  "evictExpired now key c =
     (case mget (c_map c) key of
        None \<Rightarrow> c
      | Some cur \<Rightarrow>
          if expired now cur
          then c\<lparr>c_map := mdel key (c_map c), c_index := forget key (c_index c),
                 c_evicts := c_evicts c + 1\<rparr>
          else c)"

definition lookup :: "gotime \<Rightarrow> string \<Rightarrow> 'v cache \<Rightarrow> 'v entry option \<times> 'v cache" where
  "lookup now key c =
     (case mget (c_map c) key of
        None \<Rightarrow> (None, c)
      | Some e \<Rightarrow>
          (Some e, if \<not> expired now e then c\<lparr>c_index := recordRead key (c_index c)\<rparr> else c))"

definition Set :: "gotime \<Rightarrow> string \<Rightarrow> 'v \<Rightarrow> WriteOption list \<Rightarrow> 'v cache \<Rightarrow> 'v cache" where
  "Set now key v opts c =
     (let e = newEntry now v opts c
      in evictOverflowLocked
           (c\<lparr>c_map := mput key e (c_map c), c_index := recordWrite key (c_index c),
              c_sets := c_sets c + 1\<rparr>))"

definition load :: "clk \<Rightarrow> 'v loader \<Rightarrow> bool \<Rightarrow> string \<Rightarrow> 'v cache \<Rightarrow> (cache_error + 'v) \<times> 'v cache" where
  "load clk loader gone key c =
     (let (res, c') =
        (case lookup (clk 0) key c of (found, c1) \<Rightarrow>
           let compute =
             (let c2 = c1\<lparr>c_loads := c_loads c1 + 1\<rparr>
              in case loader key of
                   Inl err \<Rightarrow> (Inl err, c2)
                 | Inr v \<Rightarrow> (Inr v, Set (clk 2) key v [] c2))
           in case found of
                None \<Rightarrow> compute
              | Some e \<Rightarrow> if \<not> expired (clk 1) e then (Inr (e_val e), c1) else compute)
      in if gone then (Inl ErrContext, c') else (res, c'))"

definition Get :: "clk \<Rightarrow> 'v loader option \<Rightarrow> bool \<Rightarrow> string \<Rightarrow> 'v cache \<Rightarrow>
    (cache_error + 'v) \<times> 'v cache" where
  "Get clk loader gone key c =
     (case lookup (clk 0) key c of (found, c1) \<Rightarrow>
        let miss = (\<lambda>c2.
          let c3 = c2\<lparr>c_misses := c_misses c2 + 1\<rparr>
          in case loader of
               None \<Rightarrow> (Inl ErrNotFound, c3)
             | Some f \<Rightarrow> load (\<lambda>i. clk (3 + i)) f gone key c3)
        in case found of
             None \<Rightarrow> miss c1
           | Some e \<Rightarrow>
               if \<not> expired (clk 1) e then (Inr (e_val e), c1\<lparr>c_hits := c_hits c1 + 1\<rparr>)
               else miss (evictExpired (clk 2) key c1))"

definition SetIfPresent :: "clk \<Rightarrow> string \<Rightarrow> 'v \<Rightarrow> WriteOption list \<Rightarrow> 'v cache \<Rightarrow>
    cache_error option \<times> 'v cache" where
  "SetIfPresent clk key v opts c =
     (let e = newEntry (clk 0) v opts c
      in case mget (c_map c) key of
           None \<Rightarrow> (Some ErrNotFound, c\<lparr>c_misses := c_misses c + 1\<rparr>)
         | Some cur \<Rightarrow>
             if expired (clk 1) cur then (Some ErrNotFound, c\<lparr>c_misses := c_misses c + 1\<rparr>)
             else (None, c\<lparr>c_map := mput key e (c_map c), c_index := recordWrite key (c_index c),
                           c_sets := c_sets c + 1\<rparr>))"

definition Delete :: "string \<Rightarrow> 'v cache \<Rightarrow> 'v cache" where
  "Delete key c =
     c\<lparr>c_map := mdel key (c_map c), c_index := forget key (c_index c), c_dels := c_dels c + 1\<rparr>"

subsection \<open>Batches\<close>

text \<open>
  One iteration of the read loop of \<^verbatim>\<open>GetMany\<close>. The accumulated state is the cache, the
  map of results, the expired keys and, when there is a loader, the keys to load.
\<close>

type_synonym 'v many = "'v cache \<times> (string, 'v) gomap \<times> string list \<times> string list"

definition getMany_step :: "gotime \<Rightarrow> bool \<Rightarrow> string \<Rightarrow> 'v many \<Rightarrow> 'v many" where
  "getMany_step now hasLoader key st =
     (case st of (c, out, expiredKeys, missingKeys) \<Rightarrow>
        let missing = (\<lambda>ex. (c\<lparr>c_misses := c_misses c + 1\<rparr>, out, ex,
                             if hasLoader then missingKeys @ [key] else missingKeys))
        in case mget (c_map c) key of
             None \<Rightarrow> missing expiredKeys
           | Some e \<Rightarrow>
               if \<not> expired now e
               then (c\<lparr>c_index := recordRead key (c_index c), c_hits := c_hits c + 1\<rparr>,
                     mput key (e_val e) out, expiredKeys, missingKeys)
               else missing (expiredKeys @ [key]))"

fun getMany_loop :: "clk \<Rightarrow> bool \<Rightarrow> string list \<Rightarrow> 'v many \<Rightarrow> 'v many" where
  "getMany_loop clk hasLoader [] st = st"
| "getMany_loop clk hasLoader (key # keys) st =
     getMany_loop (\<lambda>i. clk (Suc i)) hasLoader keys (getMany_step (clk 0) hasLoader key st)"

fun evict_each :: "clk \<Rightarrow> string list \<Rightarrow> 'v cache \<Rightarrow> 'v cache" where
  "evict_each clk [] c = c"
| "evict_each clk (key # keys) c = evict_each (\<lambda>i. clk (Suc i)) keys (evictExpired (clk 0) key c)"

text \<open>
  \<^verbatim>\<open>loadMany\<close> starts every load and waits for all of them. The loads run in the order of the
  list, which stands for the order in which the goroutines are scheduled; a key without a
  value is left out, and the first other error is the error of the whole call.
\<close>

fun loadMany :: "clk \<Rightarrow> 'v loader \<Rightarrow> (nat \<Rightarrow> bool) \<Rightarrow> string list \<Rightarrow> 'v cache \<Rightarrow>
    (cache_error + (string, 'v) gomap) \<times> 'v cache" where
  "loadMany clk loader gone [] c = (Inr [], c)"
| "loadMany clk loader gone (key # keys) c =
     (case load clk loader (gone 0) key c of (res, c1) \<Rightarrow>
        case loadMany (\<lambda>i. clk (3 + i)) loader (\<lambda>i. gone (Suc i)) keys c1 of (rest, c2) \<Rightarrow>
          (case res of
             Inl err \<Rightarrow> if err = ErrNotFound then (rest, c2) else (Inl err, c2)
           | Inr v \<Rightarrow> (case rest of Inl err \<Rightarrow> (Inl err, c2) | Inr l \<Rightarrow> (Inr ((key, v) # l), c2))))"

definition GetMany :: "clk \<Rightarrow> 'v loader option \<Rightarrow> (nat \<Rightarrow> bool) \<Rightarrow> string list \<Rightarrow> 'v cache \<Rightarrow>
    (cache_error + (string, 'v) gomap) \<times> 'v cache" where
  "GetMany clk loader gone keys c =
     (case getMany_loop clk (loader \<noteq> None) keys (c, [], [], []) of
        (c1, out, expiredKeys, missingKeys) \<Rightarrow>
          let n = length keys;
              c2 = evict_each (\<lambda>i. clk (n + i)) expiredKeys c1
          in case (missingKeys, loader) of
               (key # later, Some f) \<Rightarrow>
                 (case loadMany (\<lambda>i. clk (n + length expiredKeys + i)) f gone missingKeys c2 of
                    (Inl err, c3) \<Rightarrow> (Inl err, c3)
                  | (Inr loaded, c3) \<Rightarrow> (Inr (foldl (\<lambda>m (k, v). mput k v m) out loaded), c3))
             | _ \<Rightarrow> (Inr out, c2))"

definition SetMany :: "gotime \<Rightarrow> (string \<times> 'v) list \<Rightarrow> WriteOption list \<Rightarrow> 'v cache \<Rightarrow> 'v cache" where
  "SetMany now items opts c =
     (let expiry = EffectiveExpiry (c_defaultExpiry c) opts;
          expiresAt = (if expiry > 0 then now + expiry else 0)
      in evictOverflowLocked
           (foldl (\<lambda>c (key, v).
              c\<lparr>c_map := mput key \<lparr>e_expiresAt = expiresAt, e_val = v\<rparr> (c_map c),
                c_index := recordWrite key (c_index c), c_sets := c_sets c + 1\<rparr>) c items))"

definition delete_present :: "string \<Rightarrow> 'v cache \<Rightarrow> 'v cache" where
  "delete_present key c =
     (case mget (c_map c) key of
        None \<Rightarrow> c
      | Some e \<Rightarrow> c\<lparr>c_map := mdel key (c_map c), c_index := forget key (c_index c),
                   c_dels := c_dels c + 1\<rparr>)"

definition DeleteMany :: "string list \<Rightarrow> 'v cache \<Rightarrow> 'v cache" where
  "DeleteMany keys c = foldl (\<lambda>c key. delete_present key c) c keys"

definition HasPrefix :: "string \<Rightarrow> string \<Rightarrow> bool" where
  "HasPrefix s prefix \<longleftrightarrow> take (length prefix) s = prefix"

definition DeleteByPrefix :: "string \<Rightarrow> 'v cache \<Rightarrow> 'v cache" where
  "DeleteByPrefix prefix c =
     foldl (\<lambda>c key. if HasPrefix key prefix then delete_present key c else c) c (mkeys (c_map c))"

definition Flush :: "'v cache \<Rightarrow> 'v cache" where
  "Flush c =
     c\<lparr>c_dels := c_dels c + length (c_map c), c_map := [], c_index := reset (c_index c)\<rparr>"

subsection \<open>The janitor\<close>

definition sweep :: "clk \<Rightarrow> 'v cache \<Rightarrow> 'v cache" where
  "sweep clk c =
     (let n = length (c_map c);
          exp = [fst p. (i, p) \<leftarrow> zip [0..<n] (c_map c), expired (clk i) (snd p)]
      in evict_each (\<lambda>i. clk (n + i)) exp c)"

text \<open>One tick of the goroutine \<^verbatim>\<open>sweepEvery\<close>, which runs until \<^verbatim>\<open>Close\<close> cancels its context.\<close>

definition sweepEvery_tick :: "clk \<Rightarrow> 'v cache \<Rightarrow> 'v cache" where
  "sweepEvery_tick clk c = (if c_janitor c then sweep clk c else c)"

definition Close :: "'v cache \<Rightarrow> 'v cache" where
  "Close c = c\<lparr>c_janitor := False\<rparr>"

subsection \<open>The invariant\<close>

text \<open>
  The index, when there is one, tracks exactly the keys of the map and holds no more of
  them than its bound.
\<close>

definition ix_tracks :: "evictionIndex option \<Rightarrow> (string, 'e) gomap \<Rightarrow> bool" where
  "ix_tracks x m = (case x of None \<Rightarrow> True | Some i \<Rightarrow> index_inv i \<and> set (recency i) = set (mkeys m))"

definition ix_within :: "evictionIndex option \<Rightarrow> bool" where
  "ix_within x = (case x of None \<Rightarrow> True | Some i \<Rightarrow> int (length (recency i)) \<le> ix_maxEntries i)"

definition cache_inv :: "'v cache \<Rightarrow> bool" where
  "cache_inv c \<longleftrightarrow> is_map (c_map c) \<and> ix_tracks (c_index c) (c_map c) \<and> ix_within (c_index c)"

definition bound_of :: "'v cache \<Rightarrow> int option" where
  "bound_of c = map_option ix_maxEntries (c_index c)"

lemma tracks_read:
  assumes "ix_tracks x m"
  shows "ix_tracks (recordRead k x) m" and "ix_within x \<Longrightarrow> ix_within (recordRead k x)"
    and "map_option ix_maxEntries (recordRead k x) = map_option ix_maxEntries x"
proof -
  have "ix_tracks (recordRead k x) m \<and> (ix_within x \<longrightarrow> ix_within (recordRead k x)) \<and>
      map_option ix_maxEntries (recordRead k x) = map_option ix_maxEntries x"
  proof (cases x)
    case None
    then show ?thesis by (simp add: recordRead_def recordsReads_def ix_tracks_def)
  next
    case (Some i)
    with assms have inv: "index_inv i" by (simp add: ix_tracks_def)
    then have len: "length (touch k (recency i)) = length (recency i)"
      by (simp add: touch_def index_inv_def length_removeAll_distinct)
    have keys: "set (touch k (recency i)) = set (recency i)" by (auto simp: touch_def)
    obtain j where "recordRead k (Some i) = Some j" "index_inv j" "same_bound i j"
      "recency j = (if ix_policy i = EvictLeastRecentlyUsed then touch k (recency i) else recency i)"
      using recordRead_refines [OF inv] by metis
    with len keys assms Some show ?thesis
      by (simp add: ix_tracks_def ix_within_def same_bound_def)
  qed
  then show "ix_tracks (recordRead k x) m" and "ix_within x \<Longrightarrow> ix_within (recordRead k x)"
    and "map_option ix_maxEntries (recordRead k x) = map_option ix_maxEntries x" by auto
qed

lemma tracks_write:
  assumes "ix_tracks x m"
  shows "ix_tracks (recordWrite k x) (mput k e m)"
    and "mget m k \<noteq> None \<Longrightarrow> ix_within x \<Longrightarrow> ix_within (recordWrite k x)"
    and "map_option ix_maxEntries (recordWrite k x) = map_option ix_maxEntries x"
proof -
  have "ix_tracks (recordWrite k x) (mput k e m) \<and>
      (mget m k \<noteq> None \<and> ix_within x \<longrightarrow> ix_within (recordWrite k x)) \<and>
      map_option ix_maxEntries (recordWrite k x) = map_option ix_maxEntries x"
  proof (cases x)
    case None
    then show ?thesis by (simp add: recordWrite_def ix_tracks_def)
  next
    case (Some i)
    with assms have inv: "index_inv i" and keys: "set (recency i) = set (mkeys m)"
      by (simp_all add: ix_tracks_def)
    have len: "length (k # removeAll k (recency i)) = length (recency i)" if "mget m k \<noteq> None"
      using that inv keys by (simp add: set_mkeys index_inv_def length_removeAll_distinct)
    obtain j where j: "recordWrite k (Some i) = Some j" "index_inv j"
      "recency j = k # removeAll k (recency i)" "same_bound i j"
      using recordWrite_refines [OF inv] by metis
    with Some keys have "ix_tracks (recordWrite k x) (mput k e m)"
      by (auto simp: ix_tracks_def)
    with j len Some show ?thesis
      by (auto simp: ix_within_def same_bound_def)
  qed
  then show "ix_tracks (recordWrite k x) (mput k e m)"
    and "mget m k \<noteq> None \<Longrightarrow> ix_within x \<Longrightarrow> ix_within (recordWrite k x)"
    and "map_option ix_maxEntries (recordWrite k x) = map_option ix_maxEntries x" by auto
qed

lemma tracks_forget:
  assumes "ix_tracks x m"
  shows "ix_tracks (forget k x) (mdel k m)" and "ix_within x \<Longrightarrow> ix_within (forget k x)"
    and "map_option ix_maxEntries (forget k x) = map_option ix_maxEntries x"
proof -
  have "ix_tracks (forget k x) (mdel k m) \<and> (ix_within x \<longrightarrow> ix_within (forget k x)) \<and>
      map_option ix_maxEntries (forget k x) = map_option ix_maxEntries x"
  proof (cases x)
    case None
    then show ?thesis by (simp add: forget_def ix_tracks_def)
  next
    case (Some i)
    with assms have inv: "index_inv i" by (simp add: ix_tracks_def)
    have len: "length (removeAll k (recency i)) \<le> length (recency i)"
      by (simp add: removeAll_filter_not_eq)
    obtain j where "forget k (Some i) = Some j" "index_inv j" "same_bound i j"
      "recency j = removeAll k (recency i)"
      using forget_refines [OF inv] by metis
    with assms Some show ?thesis
      by (simp add: ix_tracks_def ix_within_def same_bound_def) (use len in linarith)
  qed
  then show "ix_tracks (forget k x) (mdel k m)" and "ix_within x \<Longrightarrow> ix_within (forget k x)"
    and "map_option ix_maxEntries (forget k x) = map_option ix_maxEntries x" by auto
qed

lemma tracks_reset:
  assumes "ix_tracks x m"
  shows "ix_tracks (reset x) []" and "ix_within (reset x)"
    and "map_option ix_maxEntries (reset x) = map_option ix_maxEntries x"
  using assms
  by (auto simp: ix_tracks_def ix_within_def reset_def index_inv_def recency_def mkeys_def
        split: option.splits)

lemmas tracks = tracks_read tracks_write tracks_forget tracks_reset

subsection \<open>Capacity eviction\<close>

lemma foldl_evict:
  "c_map (foldl (\<lambda>c key. c\<lparr>c_map := mdel key (c_map c), c_capEvicts := Suc (c_capEvicts c)\<rparr>) c keys) =
     foldl (\<lambda>m k. mdel k m) (c_map c) keys \<and>
   c_index (foldl (\<lambda>c key. c\<lparr>c_map := mdel key (c_map c), c_capEvicts := Suc (c_capEvicts c)\<rparr>) c keys) =
     c_index c"
  by (induction keys arbitrary: c) auto

lemma foldl_mdel:
  "mget (foldl (\<lambda>m k. mdel k m) m keys) k = (if k \<in> set keys then None else mget m k)"
  "is_map m \<Longrightarrow> is_map (foldl (\<lambda>m k. mdel k m) m keys)"
  by (induction keys arbitrary: m) auto

text \<open>The keys a bounded cache still holds after an eviction are a prefix of the recency list.\<close>

definition survivors :: "'v cache \<Rightarrow> string \<Rightarrow> bool" where
  "survivors c k =
     (case c_index c of None \<Rightarrow> True
      | Some i \<Rightarrow> k \<in> set (take (nat (ix_maxEntries i)) (recency i)))"

lemma evictOverflowLocked_spec:
  assumes "is_map (c_map c)" and "ix_tracks (c_index c) (c_map c)"
  shows "cache_inv (evictOverflowLocked c)"
    and "mget (c_map (evictOverflowLocked c)) k = (if survivors c k then mget (c_map c) k else None)"
    and "bound_of (evictOverflowLocked c) = bound_of c"
proof -
  have "cache_inv (evictOverflowLocked c) \<and>
      mget (c_map (evictOverflowLocked c)) k = (if survivors c k then mget (c_map c) k else None) \<and>
      bound_of (evictOverflowLocked c) = bound_of c"
  proof (cases "c_index c")
    case None
    with assms show ?thesis
      by (simp add: evictOverflowLocked_def evictOverflow_def cache_inv_def ix_within_def
            survivors_def bound_of_def)
  next
    case (Some i)
    with assms have inv: "index_inv i" and keys: "set (recency i) = set (mkeys (c_map c))"
      by (simp_all add: ix_tracks_def)
    from inv have d: "distinct (recency i)" by (simp add: index_inv_def)
    let ?n = "nat (ix_maxEntries i)"
    obtain j where j: "evictOverflow (Some i) = (rev (drop ?n (recency i)), Some j)"
      "index_inv j" "same_bound i j" "recency j = take ?n (recency i)"
      using evictOverflow_refines [OF inv] by metis
    let ?c = "evictOverflowLocked c"
    have m: "c_map ?c = foldl (\<lambda>m k. mdel k m) (c_map c) (rev (drop ?n (recency i)))"
      and x: "c_index ?c = Some j"
      using j(1) Some by (simp_all add: evictOverflowLocked_def foldl_evict)
    have get: "mget (c_map ?c) k = (if k \<in> set (take ?n (recency i)) then mget (c_map c) k else None)"
      for k using d keys by (auto simp: m foldl_mdel set_drop_iff set_mkeys)
    then have "set (mkeys (c_map ?c)) = set (take ?n (recency i))"
      using keys by (auto simp: set_mkeys dest: in_set_takeD)
    moreover have "int (length (take ?n (recency i))) \<le> ix_maxEntries i"
      using inv by (simp add: index_inv_def min_def) linarith
    ultimately show ?thesis
      using assms(1) j x get Some
      by (simp add: cache_inv_def ix_tracks_def ix_within_def survivors_def bound_of_def
            same_bound_def foldl_mdel m)
  qed
  then show "cache_inv (evictOverflowLocked c)"
    and "mget (c_map (evictOverflowLocked c)) k = (if survivors c k then mget (c_map c) k else None)"
    and "bound_of (evictOverflowLocked c) = bound_of c" by auto
qed

subsection \<open>Every operation keeps the invariant and the bound\<close>

definition keeps :: "('v cache \<Rightarrow> 'v cache) \<Rightarrow> bool" where
  "keeps f \<longleftrightarrow> (\<forall>c. cache_inv c \<longrightarrow> cache_inv (f c) \<and> bound_of (f c) = bound_of c)"

lemma keepsD: "keeps f \<Longrightarrow> cache_inv c \<Longrightarrow> cache_inv (f c) \<and> bound_of (f c) = bound_of c"
  by (simp add: keeps_def)

lemma keeps_comp: "keeps f \<Longrightarrow> keeps g \<Longrightarrow> keeps (\<lambda>c. g (f c))"
  by (simp add: keeps_def)

lemma keeps_foldl: "(\<And>k. keeps (f k)) \<Longrightarrow> keeps (\<lambda>c. foldl (\<lambda>c k. f k c) c ks)"
  by (induction ks) (auto simp: keeps_def)

lemmas inv_defs = keeps_def cache_inv_def bound_of_def

lemma keeps_evictExpired: "keeps (evictExpired now key)"
  by (auto simp: inv_defs evictExpired_def tracks split: option.split)

lemma keeps_lookup: "keeps (\<lambda>c. snd (lookup now key c))"
  by (auto simp: inv_defs lookup_def tracks split: option.split)

lemma keeps_delete_present: "keeps (delete_present key)"
  by (auto simp: inv_defs delete_present_def tracks split: option.split)

lemma keeps_Delete: "keeps (Delete key)"
  by (auto simp: inv_defs Delete_def tracks)

lemma keeps_Flush: "keeps Flush"
  by (auto simp: inv_defs Flush_def tracks)

lemma keeps_Close: "keeps Close"
  by (auto simp: inv_defs Close_def)

lemma keeps_SetIfPresent: "keeps (\<lambda>c. snd (SetIfPresent clk key v opts c))"
  by (auto simp: inv_defs SetIfPresent_def tracks Let_def split: option.split)

text \<open>A batch of writes followed by one capacity eviction.\<close>

definition writes :: "(string \<times> 'v entry) list \<Rightarrow> 'v cache \<Rightarrow> 'v cache" where
  "writes es c = foldl (\<lambda>c (key, e).
     c\<lparr>c_map := mput key e (c_map c), c_index := recordWrite key (c_index c),
       c_sets := c_sets c + 1\<rparr>) c es"

lemma writes_tracks:
  "is_map (c_map c) \<Longrightarrow> ix_tracks (c_index c) (c_map c) \<Longrightarrow>
     is_map (c_map (writes es c)) \<and> ix_tracks (c_index (writes es c)) (c_map (writes es c)) \<and>
     bound_of (writes es c) = bound_of c"
  unfolding writes_def
  by (induction es arbitrary: c) (auto simp: tracks_write bound_of_def split: prod.splits)

lemma keeps_writes: "keeps (\<lambda>c. evictOverflowLocked (writes (es c) c))"
  unfolding keeps_def
proof (intro allI impI)
  fix c :: "'a cache" assume "cache_inv c"
  then have "is_map (c_map c)" "ix_tracks (c_index c) (c_map c)" by (simp_all add: cache_inv_def)
  from writes_tracks [OF this, of "es c"]
  show "cache_inv (evictOverflowLocked (writes (es c) c)) \<and>
      bound_of (evictOverflowLocked (writes (es c) c)) = bound_of c"
    by (auto simp: evictOverflowLocked_spec)
qed

lemma Set_writes: "Set now key v opts c = evictOverflowLocked (writes [(key, newEntry now v opts c)] c)"
  by (simp add: Set_def writes_def)

lemma SetMany_writes:
  "SetMany now items opts c =
     evictOverflowLocked (writes (map (\<lambda>(k, v). (k, newEntry now v opts c)) items) c)"
  by (simp add: SetMany_def writes_def newEntry_def Let_def foldl_map case_prod_unfold)

lemma keeps_Set: "keeps (Set now key v opts)"
  using keeps_writes [of "\<lambda>c. [(key, newEntry now v opts c)]"] by (simp add: keeps_def Set_writes)

lemma keeps_SetMany: "keeps (SetMany now items opts)"
  using keeps_writes [of "\<lambda>c. map (\<lambda>(k, v). (k, newEntry now v opts c)) items"]
  by (simp add: keeps_def SetMany_writes)

lemma keeps_evict_each: "keeps (evict_each clk keys)"
proof (induction keys arbitrary: clk)
  case Nil
  then show ?case by (simp add: keeps_def)
next
  case (Cons key keys)
  from keeps_comp [OF keeps_evictExpired Cons.IH] show ?case by (simp add: keeps_def)
qed

lemma keeps_sweep: "keeps (sweep clk)"
  using keeps_evict_each by (auto simp: sweep_def Let_def keeps_def)

lemma keeps_sweepEvery_tick: "keeps (sweepEvery_tick clk)"
  using keeps_sweep by (auto simp: sweepEvery_tick_def keeps_def)

lemma keeps_DeleteMany: "keeps (DeleteMany keys)"
  using keeps_foldl [OF keeps_delete_present] by (simp add: DeleteMany_def keeps_def)

lemma keeps_if: "keeps f \<Longrightarrow> keeps (\<lambda>c. if b then f c else c)"
  by (simp add: keeps_def)

lemma keeps_DeleteByPrefix: "keeps (DeleteByPrefix prefix)"
  unfolding DeleteByPrefix_def keeps_def
  by (intro allI impI, rule keepsD [OF keeps_foldl [OF keeps_if [OF keeps_delete_present]]])

text \<open>Counters are no part of the invariant.\<close>

lemma counters_inv [simp]:
  "cache_inv (c\<lparr>c_misses := a\<rparr>) = cache_inv c" "bound_of (c\<lparr>c_misses := a\<rparr>) = bound_of c"
  "cache_inv (c\<lparr>c_hits := a\<rparr>) = cache_inv c" "bound_of (c\<lparr>c_hits := a\<rparr>) = bound_of c"
  "cache_inv (c\<lparr>c_loads := a\<rparr>) = cache_inv c" "bound_of (c\<lparr>c_loads := a\<rparr>) = bound_of c"
  by (simp_all add: cache_inv_def bound_of_def)

lemma lookup_inv:
  "lookup now key c = (found, c') \<Longrightarrow> cache_inv c \<Longrightarrow> cache_inv c' \<and> bound_of c' = bound_of c"
  using keepsD [OF keeps_lookup, of c now key] by simp

lemma keeps_load: "keeps (\<lambda>c. snd (load clk loader gone key c))"
proof -
  have "cache_inv (snd (load clk loader gone key c)) \<and>
      bound_of (snd (load clk loader gone key c)) = bound_of c" if "cache_inv c" for c :: "'a cache"
  proof (cases "lookup (clk 0) key c")
    case (Pair found c1)
    with that lookup_inv have c1: "cache_inv c1" "bound_of c1 = bound_of c" by blast+
    then have "cache_inv (c1\<lparr>c_loads := Suc (c_loads c1)\<rparr>)" by simp
    note set = keepsD [OF keeps_Set this]
    show ?thesis
      using Pair c1 set by (auto simp: load_def Let_def split: option.splits sum.splits if_splits)
  qed
  then show ?thesis by (simp add: keeps_def)
qed

lemma keeps_Get: "keeps (\<lambda>c. snd (Get clk loader gone key c))"
proof -
  have "cache_inv (snd (Get clk loader gone key c)) \<and>
      bound_of (snd (Get clk loader gone key c)) = bound_of c" if "cache_inv c" for c :: "'a cache"
  proof (cases "lookup (clk 0) key c")
    case (Pair found c1)
    with that lookup_inv have c1: "cache_inv c1" "bound_of c1 = bound_of c" by blast+
    have miss: "cache_inv (snd (load clk' f gone key (d\<lparr>c_misses := a\<rparr>))) \<and>
        bound_of (snd (load clk' f gone key (d\<lparr>c_misses := a\<rparr>))) = bound_of d"
      if "cache_inv d" for d a clk' f
      using keepsD [OF keeps_load, of "d\<lparr>c_misses := a\<rparr>"] that by simp
    show ?thesis
      using Pair c1 miss [OF c1(1)] keepsD [OF keeps_evictExpired c1(1)]
        miss [of "evictExpired (clk 2) key c1"]
      by (auto simp: Get_def Let_def split: option.splits)
  qed
  then show ?thesis by (simp add: keeps_def)
qed

lemma getMany_step_inv:
  "cache_inv (fst st) \<Longrightarrow>
     cache_inv (fst (getMany_step now b key st)) \<and> bound_of (fst (getMany_step now b key st)) = bound_of (fst st)"
  by (cases st) (auto simp: getMany_step_def cache_inv_def bound_of_def tracks_read Let_def split: option.split)

lemma getMany_loop_inv:
  "cache_inv (fst st) \<Longrightarrow>
     cache_inv (fst (getMany_loop clk b keys st)) \<and> bound_of (fst (getMany_loop clk b keys st)) = bound_of (fst st)"
  by (induction keys arbitrary: clk st) (auto simp: getMany_step_inv)

lemma keeps_loadMany: "keeps (\<lambda>c. snd (loadMany clk loader gone keys c))"
  unfolding keeps_def
proof (intro allI impI)
  fix c :: "'a cache" assume "cache_inv c"
  then show "cache_inv (snd (loadMany clk loader gone keys c)) \<and>
      bound_of (snd (loadMany clk loader gone keys c)) = bound_of c"
  proof (induction clk loader gone keys c rule: loadMany.induct)
    case (2 clk loader gone key keys c)
    have "cache_inv (snd (load clk loader (gone 0) key c)) \<and>
        bound_of (snd (load clk loader (gone 0) key c)) = bound_of c"
      using keepsD [OF keeps_load "2.prems"] .
    with "2.IH" show ?case
      by (auto split: prod.splits sum.splits)
  qed simp
qed

lemma keeps_GetMany: "keeps (\<lambda>c. snd (GetMany clk loader gone keys c))"
  unfolding keeps_def
proof (intro allI impI)
  fix c :: "'a cache" assume inv: "cache_inv c"
  obtain c1 out ex mi where l: "getMany_loop clk (loader \<noteq> None) keys (c, [], [], []) = (c1, out, ex, mi)"
    by (metis prod_cases4)
  with getMany_loop_inv [of "(c, [], [], [])" clk "loader \<noteq> None" keys] inv
  have c1: "cache_inv c1" "bound_of c1 = bound_of c" by simp_all
  let ?c2 = "evict_each (\<lambda>i. clk (length keys + i)) ex c1"
  have c2: "cache_inv ?c2" "bound_of ?c2 = bound_of c"
    using keepsD [OF keeps_evict_each c1(1)] c1(2) by auto
  have c3: "cache_inv c3 \<and> bound_of c3 = bound_of c"
    if "loadMany clk' f g mi ?c2 = (r, c3)" for r c3 clk' f g
    using keepsD [OF keeps_loadMany c2(1), of clk' f g mi] that c2(2) by simp
  show "cache_inv (snd (GetMany clk loader gone keys c)) \<and>
      bound_of (snd (GetMany clk loader gone keys c)) = bound_of c"
    unfolding GetMany_def l using c2 c3
    by (auto simp: Let_def split: list.splits option.splits prod.splits sum.splits)
qed

subsection \<open>Sequences of operations\<close>

datatype 'v cache_op =
    OGet clk "'v loader option" bool string
  | OGetMany clk "'v loader option" "nat \<Rightarrow> bool" "string list"
  | OSet gotime string 'v "WriteOption list"
  | OSetIfPresent clk string 'v "WriteOption list"
  | OSetMany gotime "(string \<times> 'v) list" "WriteOption list"
  | ODelete string
  | ODeleteMany "string list"
  | ODeleteByPrefix string
  | OFlush
  | OTick clk
  | OClose

fun run_op :: "'v cache_op \<Rightarrow> 'v cache \<Rightarrow> 'v cache" where
  "run_op (OGet clk l g k) c = snd (Get clk l g k c)"
| "run_op (OGetMany clk l g ks) c = snd (GetMany clk l g ks c)"
| "run_op (OSet t k v opts) c = Set t k v opts c"
| "run_op (OSetIfPresent clk k v opts) c = snd (SetIfPresent clk k v opts c)"
| "run_op (OSetMany t items opts) c = SetMany t items opts c"
| "run_op (ODelete k) c = Delete k c"
| "run_op (ODeleteMany ks) c = DeleteMany ks c"
| "run_op (ODeleteByPrefix p) c = DeleteByPrefix p c"
| "run_op OFlush c = Flush c"
| "run_op (OTick clk) c = sweepEvery_tick clk c"
| "run_op OClose c = Close c"

definition run_ops :: "'v cache_op list \<Rightarrow> 'v cache \<Rightarrow> 'v cache" where
  "run_ops ops c = foldl (\<lambda>c op. run_op op c) c ops"

lemmas keeps_all = keeps_Get keeps_GetMany keeps_Set keeps_SetIfPresent keeps_SetMany keeps_Delete
  keeps_DeleteMany keeps_DeleteByPrefix keeps_Flush keeps_sweepEvery_tick keeps_Close

lemma run_op_inv: "cache_inv c \<Longrightarrow> cache_inv (run_op x c) \<and> bound_of (run_op x c) = bound_of c"
  by (cases x) (simp_all add: keepsD [OF keeps_Get] keepsD [OF keeps_GetMany] keepsD [OF keeps_Set]
      keepsD [OF keeps_SetIfPresent] keepsD [OF keeps_SetMany] keepsD [OF keeps_Delete]
      keepsD [OF keeps_DeleteMany] keepsD [OF keeps_DeleteByPrefix] keepsD [OF keeps_Flush]
      keepsD [OF keeps_sweepEvery_tick] keepsD [OF keeps_Close])

lemma run_ops_inv: "cache_inv c \<Longrightarrow> cache_inv (run_ops ops c) \<and> bound_of (run_ops ops c) = bound_of c"
  unfolding run_ops_def by (induction ops arbitrary: c) (auto simp: run_op_inv)

lemma newEvictionIndex_tracks: "ix_tracks (newEvictionIndex n p) []" "ix_within (newEvictionIndex n p)"
  by (simp_all add: newEvictionIndex_def ix_tracks_def ix_within_def index_inv_def recency_def mkeys_def)

lemma NewInMemoryCache_inv: "NewInMemoryCache d opts = Inr c \<Longrightarrow> cache_inv c"
  by (auto simp: NewInMemoryCache_def Let_def cache_inv_def newEvictionIndex_tracks split: if_splits)

lemma cache_inv_length:
  assumes "cache_inv c" and "bound_of c = Some n"
  shows "int (length (c_map c)) \<le> n"
proof -
  from assms(2) obtain i where i: "c_index c = Some i" "ix_maxEntries i = n"
    by (auto simp: bound_of_def)
  with assms(1) have "length (c_map c) = card (set (recency i))"
    by (simp add: cache_inv_def ix_tracks_def length_is_map)
  also have "\<dots> \<le> length (recency i)" by (rule card_length)
  finally show ?thesis using assms(1) i by (simp add: cache_inv_def ix_within_def)
qed

subsection \<open>What the cache answers for\<close>

definition live :: "gotime \<Rightarrow> 'v cache \<Rightarrow> string \<Rightarrow> 'v option" where
  "live now c k =
     (case mget (c_map c) k of None \<Rightarrow> None | Some e \<Rightarrow> if expired now e then None else Some (e_val e))"

lemma expired_mono: "t \<le> t' \<Longrightarrow> expired t e \<Longrightarrow> expired t' e"
  by (auto simp: expired_def)

lemma live_antimono: "t \<le> t' \<Longrightarrow> live t' c k = Some v \<Longrightarrow> live t c k = Some v"
  by (auto simp: live_def dest: expired_mono split: option.splits if_splits)

lemma lookup_simps [simp]:
  "fst (lookup now key c) = mget (c_map c) key" "c_map (snd (lookup now key c)) = c_map c"
  "c_misses (snd (lookup now key c)) = c_misses c" "c_hits (snd (lookup now key c)) = c_hits c"
  by (simp_all add: lookup_def split: option.split)

lemma evictExpired_get:
  "mget (c_map (evictExpired now key c)) k =
     (case mget (c_map c) k of None \<Rightarrow> None
      | Some e \<Rightarrow> if k = key \<and> expired now e then None else Some e)"
  by (auto simp: evictExpired_def split: option.split)

lemma live_evictExpired: "now \<le> t \<Longrightarrow> live t (evictExpired now key c) k = live t c k"
  by (auto simp: live_def evictExpired_get dest: expired_mono split: option.split)

lemma live_cong: "c_map c = c_map d \<Longrightarrow> live t c k = live t d k"
  by (simp add: live_def)

lemma evictExpired_counters [simp]:
  "c_misses (evictExpired now key c) = c_misses c" "c_hits (evictExpired now key c) = c_hits c"
  by (simp_all add: evictExpired_def split: option.split)

lemma Get_no_loader:
  "Get clk None gone key c =
     (case mget (c_map c) key of
        None \<Rightarrow> (Inl ErrNotFound, (snd (lookup (clk 0) key c))\<lparr>c_misses := Suc (c_misses c)\<rparr>)
      | Some e \<Rightarrow>
          if \<not> expired (clk 1) e
          then (Inr (e_val e), (snd (lookup (clk 0) key c))\<lparr>c_hits := Suc (c_hits c)\<rparr>)
          else (Inl ErrNotFound,
                (evictExpired (clk 2) key (snd (lookup (clk 0) key c)))\<lparr>c_misses := Suc (c_misses c)\<rparr>))"
proof -
  obtain f d where "lookup (clk 0) key c = (f, d)" by fastforce
  moreover from this have "f = mget (c_map c) key" "c_misses d = c_misses c" "c_hits d = c_hits c"
    using lookup_simps [of "clk 0" key c] by simp_all
  ultimately show ?thesis by (simp add: Get_def Let_def split: option.split)
qed

lemma evict_each_get:
  "mget (c_map (evict_each (\<lambda>_. now) keys c)) k =
     (case mget (c_map c) k of None \<Rightarrow> None
      | Some e \<Rightarrow> if k \<in> set keys \<and> expired now e then None else Some e)"
  by (induction keys arbitrary: c) (auto simp: evictExpired_get split: option.splits)

lemma evictOverflowLocked_unbounded: "c_index c = None \<Longrightarrow> evictOverflowLocked c = c"
  by (simp add: evictOverflowLocked_def evictOverflow_def)

lemma recordWrite_None [simp]: "recordWrite k None = None"
  by (simp add: recordWrite_def)

lemma recordRead_None [simp]: "recordRead k None = None"
  by (simp add: recordRead_def recordsReads_def)

lemma forget_None [simp]: "forget k None = None"
  by (simp add: forget_def)

lemma Set_unbounded:
  "c_index c = None \<Longrightarrow>
     c_map (Set now key v opts c) = mput key (newEntry now v opts c) (c_map c) \<and>
     c_index (Set now key v opts c) = None"
  by (simp add: Set_def evictOverflowLocked_unbounded Let_def)

lemma expired_newEntry:
  "0 \<le> now \<Longrightarrow> 0 < d \<Longrightarrow>
     expired t (newEntry now v [WithExpiry d] c) \<longleftrightarrow> \<not> t < now + d"
  by (simp add: expired_def newEntry_def EffectiveExpiry_WithExpiry)

lemma newEntry_val [simp]: "e_val (newEntry now v opts c) = v"
  by (simp add: newEntry_def Let_def)

subsection \<open>The unbounded cache meets the contract\<close>

interpretation mem: cache_contract
  where get = "\<lambda>t. Get (\<lambda>_. t) None False"
    and put = "\<lambda>t k v d. Set t k v [WithExpiry d]"
    and del = "\<lambda>t. Delete"
    and live = live
    and ok = "\<lambda>c. c_index c = None"
proof (unfold_locales, goal_cases)
  case (1 s t k)
  then show ?case by (simp add: Get_no_loader live_def split: option.split)
next
  case (2 s t k)
  then show ?case
    by (simp add: Get_no_loader lookup_def evictExpired_def split: option.split)
next
  case (3 s t t' k k')
  then show ?case
    by (auto simp: Get_no_loader live_def evictExpired_get dest: expired_mono split: option.split)
next
  case (4 s t k v d)
  then show ?case by (simp add: Set_unbounded)
next
  case (5 s t d t' k v k')
  then show ?case by (auto simp: live_def Set_unbounded expired_newEntry)
next
  case (6 s t k)
  then show ?case by (simp add: Delete_def)
next
  case (7 s t' t k k')
  then show ?case by (simp add: live_def Delete_def)
next
  case (8 t t' s k v)
  then show ?case by (rule live_antimono)
qed

text \<open>The recency list after a write to a full cache: the newest keys, up to the bound.\<close>

definition kept_after_write :: "string \<Rightarrow> evictionIndex \<Rightarrow> string list" where
  "kept_after_write key i = take (nat (ix_maxEntries i)) (key # removeAll key (recency i))"

lemma Set_unbounded_eq:
  "c_index c = None \<Longrightarrow>
     Set now key v opts c =
       c\<lparr>c_map := mput key (newEntry now v opts c) (c_map c), c_sets := Suc (c_sets c)\<rparr>"
  by (cases c) (simp add: Set_def Let_def evictOverflowLocked_unbounded)

lemma newEntry_update [simp]:
  "newEntry now v opts (c\<lparr>c_loads := n\<rparr>) = newEntry now v opts c"
  by (simp add: newEntry_def)

lemma load_absent:
  assumes "c_index d = None" and "mget (c_map d) key = None"
  shows "load clk f gone key d =
    (case f key of
       Inl err \<Rightarrow> (Inl (if gone then ErrContext else err), d\<lparr>c_loads := Suc (c_loads d)\<rparr>)
     | Inr v \<Rightarrow> (if gone then Inl ErrContext else Inr v,
         d\<lparr>c_loads := Suc (c_loads d), c_map := mput key (newEntry (clk 2) v [] d) (c_map d),
           c_sets := Suc (c_sets d)\<rparr>))"
  using assms by (simp add: load_def lookup_def Set_unbounded_eq split: sum.split)

lemma Get_miss_loads:
  fixes c :: "'v cache"
  assumes "c_index c = None" and "clk 1 \<le> clk 2" and "live (clk 1) c key = None"
  shows "\<exists>d. Get clk (Some f) gone key c = load (\<lambda>i. clk (3 + i)) f gone key d \<and>
    c_index d = None \<and> mget (c_map d) key = None \<and> c_defaultExpiry d = c_defaultExpiry c \<and>
    c_loads d = c_loads c \<and> c_misses d = Suc (c_misses c) \<and>
    (\<forall>t k. clk 2 \<le> t \<longrightarrow> live t d k = live t c k)"
proof (cases "mget (c_map c) key")
  case None
  with assms(1) show ?thesis
    by (intro exI [of _ "c\<lparr>c_misses := Suc (c_misses c)\<rparr>"])
       (simp add: Get_def lookup_def Let_def live_def)
next
  case (Some e)
  with assms(3) have e: "expired (clk 1) e" by (simp add: live_def split: if_splits)
  with assms(2) have e2: "expired (clk 2) e" by (rule expired_mono)
  let ?d = "(evictExpired (clk 2) key c)\<lparr>c_misses := Suc (c_misses c)\<rparr>"
  have l: "snd (lookup (clk 0) key c) = c" "fst (lookup (clk 0) key c) = Some e"
    using Some assms(1) by (simp_all add: lookup_def)
  have "Get clk (Some f) gone key c = load (\<lambda>i. clk (3 + i)) f gone key ?d"
    using l e by (simp add: Get_def Let_def case_prod_beta)
  moreover have "live t ?d k = live t c k" if "clk 2 \<le> t" for t k
    using live_evictExpired [OF that, of key c k] live_cong [of ?d "evictExpired (clk 2) key c" t k]
    by simp
  moreover have "c_index ?d = None \<and> mget (c_map ?d) key = None \<and>
      c_defaultExpiry ?d = c_defaultExpiry c \<and> c_loads ?d = c_loads c"
    using Some e2 assms(1) by (simp add: evictExpired_def)
  ultimately show ?thesis by (intro exI [of _ ?d]) simp
qed

lemma delete_present_get:
  "mget (c_map (delete_present key c)) k = (if k = key then None else mget (c_map c) k)"
  by (auto simp: delete_present_def split: option.split)

lemma DeleteByPrefix_fold:
  "mget (c_map (foldl (\<lambda>c key. if HasPrefix key p then delete_present key c else c) c ks)) k =
     (if k \<in> set ks \<and> HasPrefix k p then None else mget (c_map c) k)"
  by (induction ks arbitrary: c) (auto simp: delete_present_get)

lemma delete_present_dels:
  "c_dels (delete_present key c) = c_dels c + (if mget (c_map c) key = None then 0 else 1)"
  by (simp add: delete_present_def split: option.split)

lemma DeleteByPrefix_fold_dels:
  "distinct ks \<Longrightarrow>
     c_dels (foldl (\<lambda>c key. if HasPrefix key p then delete_present key c else c) c ks) =
       c_dels c + length (filter (\<lambda>k. HasPrefix k p \<and> mget (c_map c) k \<noteq> None) ks)"
proof (induction ks arbitrary: c)
  case (Cons a ks)
  let ?d = "if HasPrefix a p then delete_present a c else c"
  have "filter (\<lambda>k. HasPrefix k p \<and> mget (c_map ?d) k \<noteq> None) ks =
      filter (\<lambda>k. HasPrefix k p \<and> mget (c_map c) k \<noteq> None) ks"
    using Cons.prems by (intro filter_cong) (auto simp: delete_present_get)
  with Cons show ?case by (simp add: delete_present_dels)
qed simp

lemma sweep_expired_keys:
  "[fst p. (i, p) \<leftarrow> zip [0..<length m] m, expired t (snd p)] = map fst (filter (\<lambda>p. expired t (snd p)) m)"
proof -
  have "[fst p. (i, p) \<leftarrow> zip ns m, expired t (snd p)] = map fst (filter (\<lambda>p. expired t (snd p)) m)"
    if "length ns = length m" for ns :: "nat list"
    using that by (induction ns m rule: list_induct2) auto
  then show ?thesis by simp
qed

lemma getMany_step_unbounded:
  "c_map (fst (getMany_step now b key st)) = c_map (fst st)"
  by (cases st) (simp add: getMany_step_def Let_def split: option.split)

lemma getMany_loop_results:
  fixes c :: "'v cache"
  shows "\<exists>c1 out1 ex1 mi1.
     getMany_loop (\<lambda>_. t) b keys (c, out, ex, mi) = (c1, out1, ex1, mi1) \<and> c_map c1 = c_map c \<and>
     (\<forall>k. mget out1 k = (if k \<in> set keys \<and> live t c k \<noteq> None then live t c k else mget out k)) \<and>
     mi1 = mi @ (if b then filter (\<lambda>k. live t c k = None) keys else []) \<and>
     c_hits c1 + c_misses c1 = c_hits c + c_misses c + length keys \<and>
     ex1 = ex @ filter (\<lambda>k. live t c k = None \<and> mget (c_map c) k \<noteq> None) keys"
proof (induction keys arbitrary: c out ex mi)
  case (Cons key keys)
  obtain c' out' ex' mi' where st: "getMany_step t b key (c, out, ex, mi) = (c', out', ex', mi')"
    by (metis prod_cases4)
  have m: "c_map c' = c_map c" using getMany_step_unbounded [of t b key "(c, out, ex, mi)"] st by simp
  then have l: "live t c' = live t c" by (simp add: live_def fun_eq_iff)
  have st': "mget out' k = (if k = key \<and> live t c k \<noteq> None then live t c k else mget out k)"
    "mi' = mi @ (if b \<and> live t c key = None then [key] else [])"
    "ex' = ex @ (if live t c key = None \<and> mget (c_map c) key \<noteq> None then [key] else [])"
    "c_hits c' + c_misses c' = Suc (c_hits c + c_misses c)" for k
    using st by (auto simp: getMany_step_def live_def Let_def split: option.splits if_splits)
  obtain c1 out1 ex1 mi1 where IH:
    "getMany_loop (\<lambda>_. t) b keys (c', out', ex', mi') = (c1, out1, ex1, mi1)" "c_map c1 = c_map c"
    "\<forall>k. mget out1 k = (if k \<in> set keys \<and> live t c k \<noteq> None then live t c k else mget out' k)"
    "mi1 = mi' @ (if b then filter (\<lambda>k. live t c k = None) keys else [])"
    "c_hits c1 + c_misses c1 = c_hits c' + c_misses c' + length keys"
    "ex1 = ex' @ filter (\<lambda>k. live t c k = None \<and> mget (c_map c) k \<noteq> None) keys"
    using Cons.IH [of c' out' ex' mi'] unfolding l m by (elim exE conjE) (rule that)
  show ?case
  proof (intro exI conjI)
    show "getMany_loop (\<lambda>_. t) b (key # keys) (c, out, ex, mi) = (c1, out1, ex1, mi1)"
      using IH(1) st by simp
    show "c_map c1 = c_map c" by (rule IH(2))
    show "\<forall>k. mget out1 k =
        (if k \<in> set (key # keys) \<and> live t c k \<noteq> None then live t c k else mget out k)"
      using IH(3) st'(1) by simp
  qed (use IH(4-6) st'(2-4) in simp_all)
qed auto

subsection \<open>Properties\<close>

text \<open>C8. A cache built by \<^verbatim>\<open>NewInMemoryCache\<close> with a bound never holds more entries than the
  bound, whatever sequence of its operations runs on it (reads with or without a loader,
  batches, conditional writes, deletes, flushes, janitor ticks), and its eviction index
  tracks exactly the keys of its map.\<close>

theorem cache_never_exceeds_bound:
  assumes "NewInMemoryCache d opts = Inr c" and "bound_of c = Some n"
  shows "int (length (c_map (run_ops ops c))) \<le> n \<and> cache_inv (run_ops ops c)"
  using assms run_ops_inv [OF NewInMemoryCache_inv [OF assms(1)], of ops]
  by (simp add: cache_inv_length)

theorem cache_never_exceeds_bound_witness:
  "int (length (c_map (run_ops [OSet 1 ''a'' (7 :: nat) [], OSet 2 ''b'' 8 [], OSet 3 ''c'' 9 []]
      \<lparr>c_map = [], c_index = newEvictionIndex 2 EvictLeastRecentlyUsed, c_defaultExpiry = 0,
       c_janitor = False, c_hits = 0, c_misses = 0, c_sets = 0, c_dels = 0, c_evicts = 0,
       c_capEvicts = 0, c_loads = 0\<rparr>))) \<le> 2"
proof -
  let ?c = "\<lparr>c_map = [], c_index = newEvictionIndex 2 EvictLeastRecentlyUsed, c_defaultExpiry = 0,
       c_janitor = False, c_hits = 0, c_misses = 0, c_sets = 0, c_dels = 0, c_evicts = 0,
       c_capEvicts = 0, c_loads = 0\<rparr> :: nat cache"
  have "NewInMemoryCache 0 [WithMaxEntries 2 EvictLeastRecentlyUsed] = Inr ?c"
    by (simp add: NewInMemoryCache_def WithMaxEntries_def valid_policy_def)
  moreover have "bound_of ?c = Some 2"
    by (simp add: bound_of_def newEvictionIndex_def)
  ultimately show ?thesis
    using cache_never_exceeds_bound by blast
qed

text \<open>A write to a bounded cache makes the key the newest and keeps exactly the newest
  \<open>n\<close> keys of the resulting order: what is dropped is the tail of the recency list (the least
  recently used or, under the other policy, the oldest written), the new value is stored
  under its key, and every survivor keeps its entry.\<close>

theorem Set_keeps_most_recent:
  assumes inv: "cache_inv c" and ix: "c_index c = Some i"
  shows "(\<exists>j. c_index (Set now key v opts c) = Some j \<and> recency j = kept_after_write key i) \<and>
    (\<forall>k. mget (c_map (Set now key v opts c)) k =
      (if k \<notin> set (kept_after_write key i) then None
       else if k = key then Some (newEntry now v opts c) else mget (c_map c) k))"
proof -
  from inv ix have i: "index_inv i" and t: "ix_tracks (c_index c) (c_map c)" "is_map (c_map c)"
    by (simp_all add: cache_inv_def ix_tracks_def)
  obtain i1 where w: "recordWrite key (Some i) = Some i1" "index_inv i1" "same_bound i i1"
    "recency i1 = key # removeAll key (recency i)"
    using recordWrite_refines [OF i] by metis
  obtain j where j: "evictOverflow (Some i1) = (rev (drop (nat (ix_maxEntries i1)) (recency i1)), Some j)"
    "recency j = take (nat (ix_maxEntries i1)) (recency i1)"
    using evictOverflow_refines [OF w(2)] by metis
  let ?c1 = "writes [(key, newEntry now v opts c)] c"
  have c1: "c_index ?c1 = Some i1" "c_map ?c1 = mput key (newEntry now v opts c) (c_map c)"
    by (simp_all add: writes_def ix w)
  have "\<exists>j. c_index (Set now key v opts c) = Some j \<and> recency j = kept_after_write key i"
    using j w c1 by (simp add: Set_writes evictOverflowLocked_def foldl_evict same_bound_def
        kept_after_write_def)
  moreover have "is_map (c_map ?c1)" "ix_tracks (c_index ?c1) (c_map ?c1)"
    using writes_tracks [OF t(2,1), of "[(key, newEntry now v opts c)]"] by simp_all
  note evictOverflowLocked_spec(2) [OF this]
  ultimately show ?thesis
    using c1 w by (simp add: Set_writes survivors_def same_bound_def kept_after_write_def)
qed

theorem Set_keeps_most_recent_witness:
  "\<exists>c i. c_index c = Some i \<and> recency i = [''b'', ''a''] \<and>
     mget (c_map (Set 3 ''c'' (9 :: nat) [] c)) ''a'' = None \<and>
     mget (c_map (Set 3 ''c'' 9 [] c)) ''b'' = Some \<lparr>e_expiresAt = 0, e_val = 8\<rparr>"
proof -
  let ?i = "\<lparr>ix_elements = [(''a'', 0), (''b'', 1)], ix_order = [(1, ''b''), (0, ''a'')], ix_next = 2,
      ix_maxEntries = 2, ix_policy = EvictOldestWritten\<rparr>"
  let ?c = "\<lparr>c_map = [(''a'', \<lparr>e_expiresAt = 0, e_val = 7\<rparr>), (''b'', \<lparr>e_expiresAt = 0, e_val = 8\<rparr>)],
      c_index = Some ?i, c_defaultExpiry = 0, c_janitor = False, c_hits = 0, c_misses = 0, c_sets = 2,
      c_dels = 0, c_evicts = 0, c_capEvicts = 0, c_loads = 0\<rparr> :: nat cache"
  have r: "recency ?i = [''b'', ''a'']" by (simp add: recency_def)
  have "index_inv ?i" by (auto simp: index_inv_def recency_def is_map_def mget_def)
  then have "cache_inv ?c"
    by (auto simp: cache_inv_def ix_tracks_def ix_within_def recency_def mkeys_def is_map_def)
  moreover have "c_index ?c = Some ?i" by simp
  moreover have "kept_after_write ''c'' ?i = [''c'', ''b'']"
    by (simp add: kept_after_write_def recency_def)
  ultimately have
    "mget (c_map (Set 3 ''c'' 9 [] ?c)) ''a'' = None"
    "mget (c_map (Set 3 ''c'' 9 [] ?c)) ''b'' = mget (c_map ?c) ''b''"
    using Set_keeps_most_recent [of ?c ?i 3 "''c''" 9 "[]"] by simp_all
  with r show ?thesis by (intro exI [of _ ?c] exI [of _ ?i]) (simp add: mget_def)
qed

text \<open>Without a loader, a read answers exactly what the cache holds live at the instant it
  judges the entry: the value if the deadline has not been reached, \<^verbatim>\<open>ErrNotFound\<close> otherwise.
  It counts one hit or one miss, and an eviction it performs on the way takes away only what
  was dead already: at no later instant does any key answer differently.\<close>

theorem Get_answers_live:
  fixes c :: "'v cache"
  assumes "clk 2 \<le> t"
  shows "fst (Get clk None gone key c) =
      (case live (clk 1) c key of None \<Rightarrow> Inl ErrNotFound | Some v \<Rightarrow> Inr v) \<and>
    live t (snd (Get clk None gone key c)) k = live t c k \<and>
    c_hits (snd (Get clk None gone key c)) =
      c_hits c + (if live (clk 1) c key = None then 0 else 1) \<and>
    c_misses (snd (Get clk None gone key c)) =
      c_misses c + (if live (clk 1) c key = None then 1 else 0)"
proof -
  have "live t (evictExpired (clk 2) key (snd (lookup (clk 0) key c))) k = live t c k"
    using live_evictExpired [OF assms, of key "snd (lookup (clk 0) key c)" k]
      live_cong [of "snd (lookup (clk 0) key c)" c t k] by simp
  then show ?thesis
    by (auto simp: Get_no_loader live_def split: option.splits)
qed

theorem Get_answers_live_witness:
  "fst (Get (\<lambda>i. 10 + int i) None False ''k''
      \<lparr>c_map = [(''k'', \<lparr>e_expiresAt = 11, e_val = 5 :: nat\<rparr>)], c_index = None, c_defaultExpiry = 0,
       c_janitor = False, c_hits = 0, c_misses = 0, c_sets = 1, c_dels = 0, c_evicts = 0,
       c_capEvicts = 0, c_loads = 0\<rparr>) = Inl ErrNotFound"
proof -
  let ?c = "\<lparr>c_map = [(''k'', \<lparr>e_expiresAt = 11, e_val = 5 :: nat\<rparr>)], c_index = None, c_defaultExpiry = 0,
       c_janitor = False, c_hits = 0, c_misses = 0, c_sets = 1, c_dels = 0, c_evicts = 0,
       c_capEvicts = 0, c_loads = 0\<rparr>"
  have "live (10 + int 1) ?c ''k'' = None" by (simp add: live_def mget_def expired_def)
  with Get_answers_live [of "\<lambda>i. 10 + int i" 12 False "''k''" ?c "''k''"] show ?thesis by simp
qed

text \<open>The read-through path. When the key is not live on either check, the loader runs once:
  if it fails, the error is the answer and nothing is stored; if it gives a value, the value
  is the answer, it is stored under the default expiry, and it is counted as one load. A
  caller whose context ended is told so, but the value is stored all the same.\<close>

theorem Get_read_through:
  fixes c :: "'v cache"
  assumes "c_index c = None" and "clk 1 \<le> clk 2" and "live (clk 1) c key = None"
  shows "(case f key of
      Inl err \<Rightarrow>
        fst (Get clk (Some f) gone key c) = Inl (if gone then ErrContext else err) \<and>
        (\<forall>t k. clk 2 \<le> t \<longrightarrow> live t (snd (Get clk (Some f) gone key c)) k = live t c k)
    | Inr v \<Rightarrow>
        fst (Get clk (Some f) gone key c) = (if gone then Inl ErrContext else Inr v) \<and>
        mget (c_map (snd (Get clk (Some f) gone key c))) key = Some (newEntry (clk 5) v [] c)) \<and>
    c_loads (snd (Get clk (Some f) gone key c)) = c_loads c + 1 \<and>
    c_misses (snd (Get clk (Some f) gone key c)) = c_misses c + 1"
proof -
  obtain d where d: "Get clk (Some f) gone key c = load (\<lambda>i. clk (3 + i)) f gone key d"
    "c_index d = None" "mget (c_map d) key = None" "c_defaultExpiry d = c_defaultExpiry c"
    "c_loads d = c_loads c" "c_misses d = Suc (c_misses c)"
    "\<And>t k. clk 2 \<le> t \<Longrightarrow> live t d k = live t c k"
    using Get_miss_loads [OF assms, of f gone] by metis
  note l = load_absent [OF d(2,3), of "\<lambda>i. clk (3 + i)" f gone]
  show ?thesis
  proof (cases "f key")
    case (Inl err)
    have "live t (d\<lparr>c_loads := n\<rparr>) k = live t d k" for t k n by (rule live_cong) simp
    with Inl l d show ?thesis by (simp add: numeral_eq_Suc)
  next
    case (Inr v)
    have "newEntry (clk 5) v [] d = newEntry (clk 5) v [] c" using d(4) by (simp add: newEntry_def)
    with Inr l d show ?thesis by simp
  qed
qed

theorem Get_read_through_witness:
  "fst (Get int (Some (\<lambda>k. Inr (length k))) False ''abc''
      \<lparr>c_map = [], c_index = None, c_defaultExpiry = 50, c_janitor = False, c_hits = 0, c_misses = 0,
       c_sets = 0, c_dels = 0, c_evicts = 0, c_capEvicts = 0, c_loads = 0\<rparr>) = Inr 3"
proof -
  let ?c = "\<lparr>c_map = [], c_index = None, c_defaultExpiry = 50, c_janitor = False, c_hits = 0, c_misses = 0,
       c_sets = 0, c_dels = 0, c_evicts = 0, c_capEvicts = 0, c_loads = 0\<rparr> :: nat cache"
  have "c_index ?c = None" "int 1 \<le> int 2" "live (int 1) ?c ''abc'' = None"
    by (simp_all add: live_def)
  from Get_read_through [OF this, of "\<lambda>k. Inr (length k)" False] show ?thesis by simp
qed

text \<open>A conditional write never brings an entry back: it succeeds exactly when the key is live
  at the instant of the check, and then replaces the entry and nothing else; otherwise it
  fails with \<^verbatim>\<open>ErrNotFound\<close> and leaves the map and the eviction order untouched.\<close>

theorem SetIfPresent_never_resurrects:
  "(live (clk 1) c key = None \<longleftrightarrow> fst (SetIfPresent clk key v opts c) = Some ErrNotFound) \<and>
   (case live (clk 1) c key of
      None \<Rightarrow> snd (SetIfPresent clk key v opts c) = c\<lparr>c_misses := c_misses c + 1\<rparr>
    | Some old \<Rightarrow>
        fst (SetIfPresent clk key v opts c) = None \<and>
        (\<forall>k. mget (c_map (snd (SetIfPresent clk key v opts c))) k =
          (if k = key then Some (newEntry (clk 0) v opts c) else mget (c_map c) k)))"
  by (simp add: SetIfPresent_def live_def Let_def split: option.split)

text \<open>A sweep of the janitor removes exactly the entries that have expired and no live one.\<close>

theorem sweep_removes_exactly_expired:
  assumes "is_map (c_map c)"
  shows "mget (c_map (sweep (\<lambda>_. now) c)) k =
    (case mget (c_map c) k of
       None \<Rightarrow> None
     | Some e \<Rightarrow> if expired now e then None else Some e)"
proof (cases "mget (c_map c) k")
  case (Some e)
  with assms have "(k, e) \<in> set (c_map c)" by (simp add: mget_Some_in_set)
  then have "expired now e \<Longrightarrow> k \<in> fst ` {x \<in> set (c_map c). expired now (snd x)}" by force
  with Some show ?thesis by (simp add: sweep_def Let_def sweep_expired_keys evict_each_get)
qed (simp add: sweep_def Let_def sweep_expired_keys evict_each_get)

theorem sweep_removes_exactly_expired_witness:
  "mget (c_map (sweep (\<lambda>_. 20)
      \<lparr>c_map = [(''a'', \<lparr>e_expiresAt = 11, e_val = 5 :: nat\<rparr>), (''b'', \<lparr>e_expiresAt = 21, e_val = 6\<rparr>)],
       c_index = None, c_defaultExpiry = 0, c_janitor = True, c_hits = 0, c_misses = 0, c_sets = 2,
       c_dels = 0, c_evicts = 0, c_capEvicts = 0, c_loads = 0\<rparr>)) ''a'' = None"
  by (subst sweep_removes_exactly_expired) (simp_all add: is_map_def mget_def expired_def)

text \<open>Deleting by prefix removes exactly the keys that begin with the prefix, and counts as
  many deletions as it removed entries.\<close>

theorem DeleteByPrefix_exact:
  assumes "is_map (c_map c)"
  shows "mget (c_map (DeleteByPrefix p c)) k = (if HasPrefix k p then None else mget (c_map c) k) \<and>
    c_dels (DeleteByPrefix p c) = c_dels c + length (filter (\<lambda>k. HasPrefix k p) (mkeys (c_map c)))"
proof (rule conjI)
  show "mget (c_map (DeleteByPrefix p c)) k = (if HasPrefix k p then None else mget (c_map c) k)"
    by (simp add: DeleteByPrefix_def DeleteByPrefix_fold mget_eq_None_iff [symmetric])
  have "filter (\<lambda>k. HasPrefix k p \<and> mget (c_map c) k \<noteq> None) (mkeys (c_map c)) =
      filter (\<lambda>k. HasPrefix k p) (mkeys (c_map c))"
    by (intro filter_cong) (auto simp: set_mkeys)
  then show "c_dels (DeleteByPrefix p c) =
      c_dels c + length (filter (\<lambda>k. HasPrefix k p) (mkeys (c_map c)))"
    using assms by (simp add: DeleteByPrefix_def DeleteByPrefix_fold_dels distinct_mkeys)
qed

theorem DeleteByPrefix_exact_witness:
  "c_dels (DeleteByPrefix ''ab''
      \<lparr>c_map = [(''abc'', \<lparr>e_expiresAt = 0, e_val = 5 :: nat\<rparr>), (''b'', \<lparr>e_expiresAt = 0, e_val = 6\<rparr>)],
       c_index = None, c_defaultExpiry = 0, c_janitor = True, c_hits = 0, c_misses = 0, c_sets = 2,
       c_dels = 0, c_evicts = 0, c_capEvicts = 0, c_loads = 0\<rparr>) = 1"
  by (subst DeleteByPrefix_exact [THEN conjunct2]) (simp_all add: is_map_def mkeys_def HasPrefix_def)

text \<open>A batch read agrees with one read per key: the result holds exactly the requested keys
  that are live, each with its value; one hit or miss is counted per requested key, and what
  the call evicts was dead already.\<close>

theorem GetMany_agrees_with_live:
  fixes c :: "'v cache"
  shows "\<exists>out d. GetMany (\<lambda>_. now) None gone keys c = (Inr out, d) \<and>
    (\<forall>k. mget out k = (if k \<in> set keys then live now c k else None)) \<and>
    (\<forall>k. live now d k = live now c k) \<and>
    c_hits d + c_misses d = c_hits c + c_misses c + length keys"
proof -
  obtain c1 out1 ex1 mi1 where l:
    "getMany_loop (\<lambda>_. now) False keys (c, [], [], []) = (c1, out1, ex1, mi1)" "c_map c1 = c_map c"
    "\<forall>k. mget out1 k = (if k \<in> set keys \<and> live now c k \<noteq> None then live now c k else None)"
    "c_hits c1 + c_misses c1 = c_hits c + c_misses c + length keys"
    using getMany_loop_results [of now False keys c "[]" "[]" "[]"] by auto
  let ?d = "evict_each (\<lambda>_. now) ex1 c1"
  have "GetMany (\<lambda>_. now) None gone keys c = (Inr out1, ?d)"
    by (simp add: GetMany_def l(1) Let_def split: list.split)
  moreover have "live now ?d k = live now c k" for k
    by (auto simp: live_def evict_each_get l(2) split: option.split)
  moreover have "c_hits (evict_each clk ks d) = c_hits d \<and> c_misses (evict_each clk ks d) = c_misses d"
    for clk ks and d :: "'v cache"
    by (induction ks arbitrary: clk d) simp_all
  ultimately show ?thesis using l by auto
qed

end
