(* ===== verification/LockMemory.thy ===== *)
theory LockMemory
  imports Prelude
begin

text \<open>
  \<^verbatim>\<open>distributedlock\<close>: the errors of the package and its single-process provider
  \<^verbatim>\<open>distributedlock/memory\<close>.

  A \<open>locker\<close> is the struct: the map of the current owner of each key and the counters. Every
  operation runs under the mutex, so each is one step; \<open>now\<close> is the clock reading taken inside
  it and \<open>token\<close> the identifier \<^verbatim>\<open>identifiers.New\<close> returned, which the proofs assume fresh.

  The section on mutual exclusion runs any number of clients against one locker as a step
  relation with a record of the leases the clients believe they hold.
\<close>

datatype lock_error =
    ErrLockNotAcquired
  | ErrLockNotHeld
  | ErrNilConfig
  | ErrInvalidTTL
  | ErrEmptyKey
  | ErrNilDatabaseClient
  | ErrBackend string

record held =
  h_expires :: gotime
  h_token :: string

record locker =
  l_held :: "(string, held) gomap"
  l_acquires :: nat
  l_releases :: nat
  l_refreshes :: nat
  l_contended :: nat

record lock =
  lk_key :: string
  lk_token :: string
  lk_ttl :: duration

definition NewLocker :: locker where
  "NewLocker = \<lparr>l_held = [], l_acquires = 0, l_releases = 0, l_refreshes = 0, l_contended = 0\<rparr>"

text \<open>The sweep at the head of \<^verbatim>\<open>Acquire\<close>: deleting while ranging over the map.\<close>

definition sweep_held :: "gotime \<Rightarrow> (string, held) gomap \<Rightarrow> (string, held) gomap" where
  "sweep_held now m =
     foldl (\<lambda>m' (k, h). if h_expires h < now then mdel k m' else m') m m"

definition Acquire :: "gotime \<Rightarrow> string \<Rightarrow> string \<Rightarrow> duration \<Rightarrow> locker \<Rightarrow> (lock_error + lock) \<times> locker" where
  "Acquire now token key ttl l =
     (if key = [] then (Inl ErrEmptyKey, l)
      else if ttl \<le> 0 then (Inl ErrInvalidTTL, l)
      else
        (let l1 = l\<lparr>l_held := sweep_held now (l_held l)\<rparr>;
             grant = (Inr \<lparr>lk_key = key, lk_token = token, lk_ttl = ttl\<rparr>,
                      l1\<lparr>l_held := mput key \<lparr>h_expires = now + ttl, h_token = token\<rparr> (l_held l1),
                         l_acquires := l_acquires l1 + 1\<rparr>)
         in case mget (l_held l1) key of
              Some existing \<Rightarrow>
                if now < h_expires existing
                then (Inl ErrLockNotAcquired, l1\<lparr>l_contended := l_contended l1 + 1\<rparr>)
                else grant
            | None \<Rightarrow> grant))"

definition Close_locker :: "locker \<Rightarrow> locker" where
  "Close_locker l = l\<lparr>l_held := []\<rparr>"

text \<open>The check \<^verbatim>\<open>release\<close> and \<^verbatim>\<open>refresh\<close> share.\<close>

definition not_held :: "gotime \<Rightarrow> string \<Rightarrow> held option \<Rightarrow> bool" where
  "not_held now token cur =
     (case cur of None \<Rightarrow> True | Some h \<Rightarrow> h_token h \<noteq> token \<or> h_expires h < now)"

definition release_lock :: "gotime \<Rightarrow> string \<Rightarrow> string \<Rightarrow> locker \<Rightarrow> lock_error option \<times> locker" where
  "release_lock now key token l =
     (if not_held now token (mget (l_held l) key) then (Some ErrLockNotHeld, l)
      else (None, l\<lparr>l_held := mdel key (l_held l), l_releases := l_releases l + 1\<rparr>))"

definition refresh_lock ::
  "gotime \<Rightarrow> string \<Rightarrow> string \<Rightarrow> duration \<Rightarrow> locker \<Rightarrow> lock_error option \<times> locker" where
  "refresh_lock now key token ttl l =
     (if ttl \<le> 0 then (Some ErrInvalidTTL, l)
      else if not_held now token (mget (l_held l) key) then (Some ErrLockNotHeld, l)
      else (None, l\<lparr>l_held := mput key \<lparr>h_expires = now + ttl, h_token = token\<rparr> (l_held l),
                    l_refreshes := l_refreshes l + 1\<rparr>))"

definition Release :: "gotime \<Rightarrow> lock \<Rightarrow> locker \<Rightarrow> lock_error option \<times> locker" where
  "Release now h l = release_lock now (lk_key h) (lk_token h) l"

definition Refresh :: "gotime \<Rightarrow> duration \<Rightarrow> lock \<Rightarrow> locker \<Rightarrow> lock_error option \<times> lock \<times> locker" where
  "Refresh now ttl h l =
     (case refresh_lock now (lk_key h) (lk_token h) ttl l of
        (Some err, l') \<Rightarrow> (Some err, h, l')
      | (None, l') \<Rightarrow> (None, h\<lparr>lk_ttl := ttl\<rparr>, l'))"

subsection \<open>What each operation does to the owners\<close>

text \<open>Who answers for a key, deadline included; the expired owners are still in the map.\<close>

definition owner :: "locker \<Rightarrow> string \<Rightarrow> held option" where
  "owner l k = mget (l_held l) k"

definition holds :: "gotime \<Rightarrow> locker \<Rightarrow> string \<Rightarrow> string \<Rightarrow> bool" where
  "holds now l k token \<longleftrightarrow> (\<exists>h. owner l k = Some h \<and> h_token h = token \<and> now < h_expires h)"

definition free :: "gotime \<Rightarrow> locker \<Rightarrow> string \<Rightarrow> bool" where
  "free now l k \<longleftrightarrow> (case owner l k of None \<Rightarrow> True | Some h \<Rightarrow> \<not> now < h_expires h)"

lemma sweep_held_fold:
  "mget (foldl (\<lambda>m' (k, h). if h_expires h < now then mdel k m' else m') m0 m) k =
     (if \<exists>h. (k, h) \<in> set m \<and> h_expires h < now then None else mget m0 k)"
  "is_map m0 \<Longrightarrow> is_map (foldl (\<lambda>m' (k, h). if h_expires h < now then mdel k m' else m') m0 m)"
  by (induction m arbitrary: m0) auto

lemma sweep_held_get [simp]:
  "is_map m \<Longrightarrow> mget (sweep_held now m) k =
     (case mget m k of None \<Rightarrow> None | Some h \<Rightarrow> if h_expires h < now then None else Some h)"
  by (auto simp: sweep_held_def sweep_held_fold mget_Some_in_set [symmetric] split: option.split)

lemma sweep_held_is_map [simp]: "is_map m \<Longrightarrow> is_map (sweep_held now m)"
  by (simp add: sweep_held_def sweep_held_fold)

definition locker_inv :: "locker \<Rightarrow> bool" where
  "locker_inv l \<longleftrightarrow> is_map (l_held l)"

lemma Acquire_cases:
  assumes "locker_inv l" and "key \<noteq> []" and "0 < ttl"
  shows "Acquire now token key ttl l =
    (if free now l key
     then (Inr \<lparr>lk_key = key, lk_token = token, lk_ttl = ttl\<rparr>,
           l\<lparr>l_held := mput key \<lparr>h_expires = now + ttl, h_token = token\<rparr> (sweep_held now (l_held l)),
             l_acquires := l_acquires l + 1\<rparr>)
     else (Inl ErrLockNotAcquired,
           l\<lparr>l_held := sweep_held now (l_held l), l_contended := l_contended l + 1\<rparr>))"
  using assms by (auto simp: Acquire_def Let_def free_def owner_def locker_inv_def split: option.split)

lemma Acquire_inv: "locker_inv l \<Longrightarrow> locker_inv (snd (Acquire now token key ttl l))"
  by (auto simp: Acquire_def Let_def locker_inv_def split: option.split)

lemma release_inv: "locker_inv l \<Longrightarrow> locker_inv (snd (release_lock now key token l))"
  by (simp add: release_lock_def locker_inv_def)

lemma refresh_inv: "locker_inv l \<Longrightarrow> locker_inv (snd (refresh_lock now key token ttl l))"
  by (simp add: refresh_lock_def locker_inv_def)

lemma NewLocker_inv [simp]: "locker_inv NewLocker"
  by (simp add: NewLocker_def locker_inv_def)

text \<open>A failed attempt only sweeps: nobody's unexpired ownership changes.\<close>

lemma Acquire_fail_owner:
  assumes "locker_inv l" and "Acquire now token key ttl l = (Inl err, l')"
  shows "owner l' k = owner l k \<or> owner l' k = None \<and> (\<exists>h. owner l k = Some h \<and> h_expires h < now)"
proof (cases "key = [] \<or> ttl \<le> 0")
  case False
  then have "Acquire now token key ttl l = (Inl ErrLockNotAcquired,
      l\<lparr>l_held := sweep_held now (l_held l), l_contended := l_contended l + 1\<rparr>)"
    using assms Acquire_cases [OF assms(1), of key ttl now token] by (simp split: if_splits)
  with assms show ?thesis
    by (auto simp: owner_def locker_inv_def split: option.splits if_splits)
qed (use assms in \<open>auto simp: Acquire_def split: if_splits\<close>)

lemma Acquire_ok_owner:
  assumes "locker_inv l" and "Acquire now token key ttl l = (Inr h, l')"
  shows "h = \<lparr>lk_key = key, lk_token = token, lk_ttl = ttl\<rparr>" and "free now l key" and "0 < ttl"
    and "owner l' key = Some \<lparr>h_expires = now + ttl, h_token = token\<rparr>"
    and "k \<noteq> key \<Longrightarrow>
      owner l' k = owner l k \<or> owner l' k = None \<and> (\<exists>h. owner l k = Some h \<and> h_expires h < now)"
proof -
  from assms(2) have ok: "key \<noteq> []" "0 < ttl" by (auto simp: Acquire_def split: if_splits)
  note c = Acquire_cases [OF assms(1) ok, of now token]
  with assms(2) show free: "free now l key" by (simp split: if_splits)
  with c assms(2) have h: "h = \<lparr>lk_key = key, lk_token = token, lk_ttl = ttl\<rparr>"
    and l': "l' = l\<lparr>l_held := mput key \<lparr>h_expires = now + ttl, h_token = token\<rparr> (sweep_held now (l_held l)),
             l_acquires := l_acquires l + 1\<rparr>" by simp_all
  show "h = \<lparr>lk_key = key, lk_token = token, lk_ttl = ttl\<rparr>" by (rule h)
  show "0 < ttl" by (rule ok(2))
  show "owner l' key = Some \<lparr>h_expires = now + ttl, h_token = token\<rparr>" by (simp add: owner_def l')
  show "owner l' k = owner l k \<or> owner l' k = None \<and> (\<exists>h. owner l k = Some h \<and> h_expires h < now)"
    if "k \<noteq> key"
    using that assms(1) by (auto simp: owner_def l' locker_inv_def split: option.splits if_splits)
qed

lemma release_ok_iff:
  "fst (release_lock now key token l) = None \<longleftrightarrow>
     (\<exists>h. owner l key = Some h \<and> h_token h = token \<and> now \<le> h_expires h)"
  by (auto simp: release_lock_def not_held_def owner_def split: option.split)

lemma release_owner:
  "owner (snd (release_lock now key token l)) k =
     (if k = key \<and> fst (release_lock now key token l) = None then None else owner l k)"
  by (auto simp: release_lock_def owner_def)

lemma refresh_owner:
  "owner (snd (refresh_lock now key token ttl l)) k =
     (if k = key \<and> fst (refresh_lock now key token ttl l) = None
      then Some \<lparr>h_expires = now + ttl, h_token = token\<rparr> else owner l k)"
  by (auto simp: refresh_lock_def owner_def)

subsection \<open>Clients\<close>

text \<open>
  A system state: the clock, the locker, the leases clients believe they hold (key, token and
  deadline, as their successful \<^verbatim>\<open>Acquire\<close> and \<^verbatim>\<open>Refresh\<close> calls told them) and the tokens issued
  so far. Any client may call any operation at any time, with any handle it was ever given.
\<close>

record lock_system =
  ls_now :: gotime
  ls_locker :: locker
  ls_leases :: "(string \<times> string \<times> gotime) set"
  ls_issued :: "string set"

definition init_locks :: "gotime \<Rightarrow> lock_system" where
  "init_locks t = \<lparr>ls_now = t, ls_locker = NewLocker, ls_leases = {}, ls_issued = {}\<rparr>"

inductive lock_step :: "lock_system \<Rightarrow> lock_system \<Rightarrow> bool" where
  tick: "ls_now s \<le> t \<Longrightarrow> lock_step s (s\<lparr>ls_now := t\<rparr>)"
| granted: "token \<notin> ls_issued s \<Longrightarrow>
    Acquire (ls_now s) token key ttl (ls_locker s) = (Inr h, l) \<Longrightarrow>
    lock_step s (s\<lparr>ls_locker := l, ls_issued := insert token (ls_issued s),
                   ls_leases := insert (key, token, ls_now s + ttl) (ls_leases s)\<rparr>)"
| refused: "Acquire (ls_now s) token key ttl (ls_locker s) = (Inl err, l) \<Longrightarrow>
    lock_step s (s\<lparr>ls_locker := l\<rparr>)"
| released: "Release (ls_now s) h (ls_locker s) = (None, l) \<Longrightarrow>
    lock_step s (s\<lparr>ls_locker := l,
      ls_leases := {x \<in> ls_leases s. \<not> (fst x = lk_key h \<and> fst (snd x) = lk_token h)}\<rparr>)"
| not_released: "Release (ls_now s) h (ls_locker s) = (Some err, l) \<Longrightarrow>
    lock_step s (s\<lparr>ls_locker := l\<rparr>)"
| refreshed: "Refresh (ls_now s) ttl h (ls_locker s) = (None, h', l) \<Longrightarrow>
    lock_step s (s\<lparr>ls_locker := l,
      ls_leases := insert (lk_key h, lk_token h, ls_now s + ttl)
        {x \<in> ls_leases s. \<not> (fst x = lk_key h \<and> fst (snd x) = lk_token h)}\<rparr>)"
| not_refreshed: "Refresh (ls_now s) ttl h (ls_locker s) = (Some err, h', l) \<Longrightarrow>
    lock_step s (s\<lparr>ls_locker := l\<rparr>)"
| closed: "lock_step s (s\<lparr>ls_locker := Close_locker (ls_locker s), ls_leases := {}\<rparr>)"

inductive lock_run :: "gotime \<Rightarrow> lock_system \<Rightarrow> bool" for t where
  start: "lock_run t (init_locks t)"
| step: "lock_run t s \<Longrightarrow> lock_step s s' \<Longrightarrow> lock_run t s'"

inductive_cases lock_stepE: "lock_step s s'"

text \<open>Every lease whose deadline has not been reached is what the locker holds.\<close>

definition lease_inv :: "lock_system \<Rightarrow> bool" where
  "lease_inv s \<longleftrightarrow> locker_inv (ls_locker s) \<and>
     (\<forall>k tok d. (k, tok, d) \<in> ls_leases s \<and> ls_now s < d \<longrightarrow>
        owner (ls_locker s) k = Some \<lparr>h_expires = d, h_token = tok\<rparr>)"

lemma lease_invD:
  "lease_inv s \<Longrightarrow> (k, tok, d) \<in> ls_leases s \<Longrightarrow> ls_now s < d \<Longrightarrow>
     owner (ls_locker s) k = Some \<lparr>h_expires = d, h_token = tok\<rparr>"
  by (simp add: lease_inv_def)

text \<open>An unexpired owner survives whatever only sweeps.\<close>

lemma owner_survives:
  assumes "owner l' k = owner l k \<or> owner l' k = None \<and> (\<exists>h. owner l k = Some h \<and> h_expires h < now)"
    and "owner l k = Some \<lparr>h_expires = d, h_token = tok\<rparr>" and "now < d"
  shows "owner l' k = Some \<lparr>h_expires = d, h_token = tok\<rparr>"
  using assms by auto

lemma Refresh_split:
  "Refresh now ttl h l = (r, h', l') \<Longrightarrow>
     r = fst (refresh_lock now (lk_key h) (lk_token h) ttl l) \<and>
     l' = snd (refresh_lock now (lk_key h) (lk_token h) ttl l)"
  by (auto simp: Refresh_def split: prod.splits option.splits)

lemma lock_step_inv:
  assumes "lock_step s s'" and inv: "lease_inv s"
  shows "lease_inv s'"
  using assms(1)
proof cases
  case (tick t)
  with inv show ?thesis by (auto simp: lease_inv_def)
next
  case (granted token key ttl h l)
  from inv have li: "locker_inv (ls_locker s)" by (simp add: lease_inv_def)
  note ok = Acquire_ok_owner [OF li granted(3)]
  have none: "\<not> ls_now s < d" if "(key, tok, d) \<in> ls_leases s" for tok d
    using lease_invD [OF inv that] ok(2) by (auto simp: free_def)
  have "owner l k = Some \<lparr>h_expires = d, h_token = tok\<rparr>"
    if "(k, tok, d) \<in> ls_leases s" "ls_now s < d" for k tok d
    using owner_survives [OF ok(5) lease_invD [OF inv that] that(2)] none that by blast
  moreover have "locker_inv l" using Acquire_inv [OF li] granted(3) by (metis snd_conv)
  ultimately show ?thesis
    using ok(4) granted(1) by (auto simp: lease_inv_def)
next
  case (refused token key ttl err l)
  from inv have li: "locker_inv (ls_locker s)" by (simp add: lease_inv_def)
  note keep = owner_survives [OF Acquire_fail_owner [OF li refused(2)] lease_invD [OF inv]]
  moreover have "locker_inv l" using Acquire_inv [OF li] refused(2) by (metis snd_conv)
  ultimately show ?thesis using refused(1) by (simp add: lease_inv_def)
next
  case (released h l)
  then have l: "l = snd (release_lock (ls_now s) (lk_key h) (lk_token h) (ls_locker s))"
    and r: "fst (release_lock (ls_now s) (lk_key h) (lk_token h) (ls_locker s)) = None"
    by (simp_all add: Release_def)
  from r have "\<exists>o'. owner (ls_locker s) (lk_key h) = Some o' \<and> h_token o' = lk_token h"
    by (auto simp: release_ok_iff)
  then have "tok = lk_token h" if "(lk_key h, tok, d) \<in> ls_leases s" "ls_now s < d" for tok d
    using lease_invD [OF inv that] by auto
  moreover have "locker_inv l" using release_inv inv l by (simp add: lease_inv_def)
  ultimately show ?thesis
    using released(1) r l by (auto simp: lease_inv_def release_owner dest: lease_invD [OF inv])
next
  case (not_released h err l)
  then have "l = ls_locker s" by (auto simp: Release_def release_lock_def split: if_splits)
  with inv not_released(1) show ?thesis by (simp add: lease_inv_def)
next
  case (refreshed ttl h h' l)
  note rl = Refresh_split [OF refreshed(2)]
  then have r: "fst (refresh_lock (ls_now s) (lk_key h) (lk_token h) ttl (ls_locker s)) = None"
    by simp
  then have "\<exists>o'. owner (ls_locker s) (lk_key h) = Some o' \<and> h_token o' = lk_token h"
    by (auto simp: refresh_lock_def not_held_def owner_def split: if_splits option.splits)
  then have "tok = lk_token h" if "(lk_key h, tok, d) \<in> ls_leases s" "ls_now s < d" for tok d
    using lease_invD [OF inv that] by auto
  moreover have "locker_inv l" using refresh_inv inv rl by (simp add: lease_inv_def)
  ultimately show ?thesis
    using refreshed(1) r rl by (auto simp: lease_inv_def refresh_owner dest: lease_invD [OF inv])
next
  case (not_refreshed ttl h err h' l)
  then have "l = ls_locker s"
    by (auto simp: Refresh_def refresh_lock_def split: if_splits)
  with inv not_refreshed(1) show ?thesis by (simp add: lease_inv_def)
next
  case closed
  with inv show ?thesis by (simp add: lease_inv_def locker_inv_def Close_locker_def)
qed

lemma lock_run_inv: "lock_run t s \<Longrightarrow> lease_inv s"
proof (induction rule: lock_run.induct)
  case start
  then show ?case by (simp add: init_locks_def lease_inv_def)
next
  case (step s s')
  then show ?case using lock_step_inv by blast
qed

subsection \<open>Properties\<close>

text \<open>C4. Mutual exclusion. However many clients acquire, release, refresh and let time pass, in any
  order: two leases on the same key whose deadlines have not been reached are the same
  lease, and while one exists every attempt to acquire the key is refused with
  \<^verbatim>\<open>ErrLockNotAcquired\<close>.\<close>

theorem lock_mutual_exclusion:
  assumes "lock_run t s" and "(k, tok, d) \<in> ls_leases s" and "ls_now s < d"
  shows "((k, tok', d') \<in> ls_leases s \<and> ls_now s < d' \<longrightarrow> tok' = tok \<and> d' = d) \<and>
    (k \<noteq> [] \<and> 0 < ttl \<longrightarrow>
       fst (Acquire (ls_now s) fresh k ttl (ls_locker s)) = Inl ErrLockNotAcquired)"
proof -
  note inv = lock_run_inv [OF assms(1)]
  note own = lease_invD [OF inv assms(2,3)]
  from inv have "locker_inv (ls_locker s)" by (simp add: lease_inv_def)
  moreover from own assms(3) have "\<not> free (ls_now s) (ls_locker s) k" by (simp add: free_def)
  ultimately show ?thesis
    using own lease_invD [OF inv] Acquire_cases [of "ls_locker s" k ttl "ls_now s" fresh]
    by fastforce
qed

theorem lock_mutual_exclusion_witness:
  "\<exists>s. lock_run 5 s \<and> (''k'', ''t1'', 15) \<in> ls_leases s \<and>
     fst (Acquire (ls_now s) ''t2'' ''k'' 10 (ls_locker s)) = Inl ErrLockNotAcquired"
proof -
  let ?l = "snd (Acquire 5 ''t1'' ''k'' 10 NewLocker)"
  let ?s = "\<lparr>ls_now = 5, ls_locker = ?l, ls_leases = {(''k'', ''t1'', 15)}, ls_issued = {''t1''}\<rparr>"
  have "Acquire 5 ''t1'' ''k'' 10 NewLocker = (Inr \<lparr>lk_key = ''k'', lk_token = ''t1'', lk_ttl = 10\<rparr>, ?l)"
    by (simp add: Acquire_def NewLocker_def sweep_held_def)
  have "lock_step (init_locks 5) ?s"
    using lock_step.granted [of "''t1''" "init_locks 5" "''k''" 10 "\<lparr>lk_key = ''k'', lk_token = ''t1'', lk_ttl = 10\<rparr>" ?l]
      \<open>Acquire 5 ''t1'' ''k'' 10 NewLocker = _\<close>
    by (simp add: init_locks_def)
  then have "lock_run 5 ?s" using lock_run.step [OF lock_run.start] by blast
  moreover from lock_mutual_exclusion [OF this, of "''k''" "''t1''" 15 _ _ 10 "''t2''"]
  have "fst (Acquire 5 ''t2'' ''k'' 10 ?l) = Inl ErrLockNotAcquired" by simp
  ultimately show ?thesis by (intro exI [of _ ?s]) simp
qed

text \<open>Release and refresh act only for the current owner: they succeed exactly when the token
  matches and the deadline has not passed, after a release the key is free, after a refresh
  it is held to the new deadline, and in every other case they report \<^verbatim>\<open>ErrLockNotHeld\<close> and
  change nothing. No other key is affected.\<close>

theorem handle_acts_for_owner_only:
  "(fst (Release now h l) = None \<longleftrightarrow>
      (\<exists>o'. owner l (lk_key h) = Some o' \<and> h_token o' = lk_token h \<and> now \<le> h_expires o')) \<and>
   (fst (Release now h l) = None \<or> Release now h l = (Some ErrLockNotHeld, l)) \<and>
   (\<forall>k. owner (snd (Release now h l)) k =
      (if k = lk_key h \<and> fst (Release now h l) = None then None else owner l k)) \<and>
   (\<forall>k. owner (snd (snd (Refresh now ttl h l))) k =
      (if k = lk_key h \<and> fst (Refresh now ttl h l) = None
       then Some \<lparr>h_expires = now + ttl, h_token = lk_token h\<rparr> else owner l k)) \<and>
   (fst (Refresh now ttl h l) = None \<longleftrightarrow>
      0 < ttl \<and> (\<exists>o'. owner l (lk_key h) = Some o' \<and> h_token o' = lk_token h \<and> now \<le> h_expires o')) \<and>
   lk_ttl (fst (snd (Refresh now ttl h l))) = (if fst (Refresh now ttl h l) = None then ttl else lk_ttl h)"
proof -
  have rel: "Release now h l = release_lock now (lk_key h) (lk_token h) l" by (simp add: Release_def)
  have ref: "fst (Refresh now ttl h l) = fst (refresh_lock now (lk_key h) (lk_token h) ttl l)"
    "snd (snd (Refresh now ttl h l)) = snd (refresh_lock now (lk_key h) (lk_token h) ttl l)"
    "lk_ttl (fst (snd (Refresh now ttl h l))) = (if fst (Refresh now ttl h l) = None then ttl else lk_ttl h)"
    by (auto simp: Refresh_def split: prod.split option.split)
  have "fst (refresh_lock now key tok ttl l) = None \<longleftrightarrow>
      0 < ttl \<and> (\<exists>o'. owner l key = Some o' \<and> h_token o' = tok \<and> now \<le> h_expires o')" for key tok
    by (auto simp: refresh_lock_def not_held_def owner_def split: option.split)
  moreover have "fst (release_lock now key tok l) = None \<or>
      release_lock now key tok l = (Some ErrLockNotHeld, l)" for key tok
    by (simp add: release_lock_def)
  ultimately show ?thesis
    using ref by (auto simp: rel release_ok_iff release_owner refresh_owner)
qed

end
