(* ===== verification/Retry.thy ===== *)
theory Retry
  imports Complex_Main Prelude
begin

text \<open>
  \<^verbatim>\<open>retry\<close> and \<^verbatim>\<open>retry/config\<close>: the errors of a retry loop, the jitter strategies, and the
  exponential backoff policy.

  The world \<^typ>\<open>'w\<close> is whatever the operation and the clock act on. Floating point is a
  parameter: a draw of the random source is the function that multiplies a duration by it
  (\<^verbatim>\<open>time.Duration(float64(d) * r())\<close>), \<open>f64\<close> is the conversion of a duration and \<open>fpow\<close> the
  product \<^verbatim>\<open>float64(d) * math.Pow(m, n)\<close>, with the real a float stands for; what the proofs
  need of them are hypotheses.
\<close>

subsection \<open>retry.go\<close>

text \<open>
  An error is the operation's own, that of a finished context, one marked by \<^verbatim>\<open>Unretryable\<close>, or
  the end of an exhausted loop; the last two wrap another error.
\<close>

datatype 'e retry_error =
    OpError 'e
  | CtxError
  | UnretryableError "'e retry_error"
  | ExhaustedError nat "'e retry_error"

definition Unretryable :: "'e retry_error option \<Rightarrow> 'e retry_error option" where
  "Unretryable err = map_option UnretryableError err"

definition Exhausted :: "nat \<Rightarrow> 'e retry_error option \<Rightarrow> 'e retry_error option" where
  "Exhausted attempts err = map_option (ExhaustedError attempts) err"

text \<open>\<^verbatim>\<open>errors.Is(err, ErrUnretryable)\<close> along the chain of wrapped errors.\<close>

fun is_unretryable :: "'e retry_error \<Rightarrow> bool" where
  "is_unretryable (OpError e) = False"
| "is_unretryable CtxError = False"
| "is_unretryable (UnretryableError err) = True"
| "is_unretryable (ExhaustedError n err) = is_unretryable err"

fun Attempts :: "'e retry_error \<Rightarrow> nat \<times> bool" where
  "Attempts (OpError e) = (0, False)"
| "Attempts CtxError = (0, False)"
| "Attempts (UnretryableError err) = Attempts err"
| "Attempts (ExhaustedError n err) = (n, True)"

definition IsTerminal :: "bool \<Rightarrow> 'e retry_error \<Rightarrow> bool" where
  "IsTerminal ctxDone err \<longleftrightarrow> ctxDone \<or> is_unretryable err"

subsection \<open>jitter.go\<close>

type_synonym 'w rand = "'w \<Rightarrow> (duration \<Rightarrow> duration) \<times> 'w"
type_synonym 'w jitter = "duration \<Rightarrow> 'w \<Rightarrow> duration \<times> 'w"

definition Full :: "'w rand \<Rightarrow> 'w jitter" where
  "Full r d w = (if d \<le> 0 then (d, w) else (case r w of (mul, w') \<Rightarrow> (mul d, w')))"

definition Equal :: "'w rand \<Rightarrow> 'w jitter" where
  "Equal r d w =
     (let half = (if d < 0 then - ((- d) div 2) else d div 2)
      in if half \<le> 0 then (d, w)
         else (case r w of (mul, w') \<Rightarrow> (half + mul (d - half), w')))"

definition NoJitter :: "'w jitter" where
  "NoJitter d w = (d, w)"

definition AtLeast :: "'w jitter \<Rightarrow> duration \<Rightarrow> 'w jitter" where
  "AtLeast j minimum d w = (case j d w of (x, w') \<Rightarrow> (max x minimum, w'))"

subsection \<open>config.go and policy.go\<close>

record Config =
  cfg_MaxAttempts :: nat
  cfg_InitialDelay :: duration
  cfg_MaxDelay :: duration
  cfg_Multiplier :: real
  cfg_UseJitter :: bool

definition EnsureDefaults :: "Config \<Rightarrow> Config" where
  "EnsureDefaults cfg =
     (let c1 = (if cfg_MaxAttempts cfg = 0 then cfg\<lparr>cfg_MaxAttempts := 3\<rparr> else cfg);
          c2 = (if cfg_InitialDelay c1 \<le> 0 then c1\<lparr>cfg_InitialDelay := 100 * Millisecond\<rparr> else c1);
          c3 = (if cfg_MaxDelay c2 \<le> 0 then c2\<lparr>cfg_MaxDelay := 5 * Second\<rparr> else c2)
      in if cfg_Multiplier c3 < 1 then c3\<lparr>cfg_Multiplier := 2\<rparr> else c3)"

record floats =
  f64 :: "int \<Rightarrow> real"
  fpow :: "duration \<Rightarrow> real \<Rightarrow> nat \<Rightarrow> real"

text \<open>\<^verbatim>\<open>time.Duration(x)\<close> of a float truncates toward zero.\<close>

definition to_duration :: "real \<Rightarrow> duration" where
  "to_duration x = (if 0 \<le> x then \<lfloor>x\<rfloor> else \<lceil>x\<rceil>)"

definition DelayFor :: "floats \<Rightarrow> Config \<Rightarrow> nat \<Rightarrow> duration" where
  "DelayFor F cfg attempt =
     (let n = (if attempt < 1 then 1 else attempt);
          delay = fpow F (cfg_InitialDelay cfg) (cfg_Multiplier cfg) (n - 1)
      in if delay > f64 F (cfg_MaxDelay cfg) then cfg_MaxDelay cfg else to_duration delay)"

definition minScheduledDelay :: duration where
  "minScheduledDelay = Millisecond"

definition ScheduledDelayFor :: "floats \<Rightarrow> 'w rand \<Rightarrow> Config \<Rightarrow> int \<Rightarrow> 'w \<Rightarrow> duration \<times> 'w" where
  "ScheduledDelayFor F r cfg attempt w =
     (let n = (if attempt < 1 then 1 else attempt);
          jit = (if cfg_UseJitter cfg then Full r else NoJitter)
      in AtLeast jit minScheduledDelay (DelayFor F cfg (nat n)) w)"

text \<open>
  A policy and what its loop acts on: the operation, the context, and a clock whose sleep
  reports whether it ran to the end.
\<close>

record ('w, 'e) retry_env =
  re_floats :: floats
  re_rand :: "'w rand"
  re_operation :: "'w \<Rightarrow> 'e retry_error option \<times> 'w"
  re_ctxDone :: "'w \<Rightarrow> bool"
  re_sleep :: "duration \<Rightarrow> 'w \<Rightarrow> bool \<times> 'w"

record 'w retry_state =
  rs_world :: 'w
  rs_attempts :: nat
  rs_exhaustions :: nat

definition wait_retry :: "('w, 'e) retry_env \<Rightarrow> Config \<Rightarrow> nat \<Rightarrow> 'w \<Rightarrow> bool \<times> 'w" where
  "wait_retry env cfg attempt w =
     (let jit = (if cfg_UseJitter cfg then Equal (re_rand env) else NoJitter)
      in case jit (DelayFor (re_floats env) cfg (attempt + 1)) w of
           (sleepDuration, w') \<Rightarrow> re_sleep env sleepDuration w')"

definition exhausted_retry :: "nat \<Rightarrow> 'e retry_error option \<Rightarrow> 'w retry_state \<Rightarrow>
    'e retry_error option \<times> 'w retry_state" where
  "exhausted_retry attempts lastErr st =
     (case lastErr of
        None \<Rightarrow> (None, st)
      | Some e \<Rightarrow> (Exhausted attempts (Some e), st\<lparr>rs_exhaustions := rs_exhaustions st + 1\<rparr>))"

function execute_loop :: "('w, 'e) retry_env \<Rightarrow> Config \<Rightarrow> nat \<Rightarrow> nat \<Rightarrow> 'e retry_error option \<Rightarrow>
    'w retry_state \<Rightarrow> 'e retry_error option \<times> 'w retry_state" where
  "execute_loop env cfg attempt attempts lastErr st =
     (if attempt < cfg_MaxAttempts cfg then
        (if re_ctxDone env (rs_world st)
         then (case lastErr of Some e \<Rightarrow> (Some e, st) | None \<Rightarrow> (Some CtxError, st))
         else
           (case re_operation env (rs_world st) of (res, w1) \<Rightarrow>
              let st1 = st\<lparr>rs_world := w1, rs_attempts := rs_attempts st + 1\<rparr>
              in case res of
                   None \<Rightarrow> (None, st1)
                 | Some err \<Rightarrow>
                     if IsTerminal (re_ctxDone env w1) err then (Some err, st1)
                     else if attempt = cfg_MaxAttempts cfg - 1
                     then exhausted_retry (attempts + 1) (Some err) st1
                     else (case wait_retry env cfg attempt w1 of (slept, w2) \<Rightarrow>
                             let st2 = st1\<lparr>rs_world := w2\<rparr>
                             in if \<not> slept then (Some err, st2)
                                else execute_loop env cfg (attempt + 1) (attempts + 1) (Some err) st2)))
      else exhausted_retry attempts lastErr st)"
  by pat_completeness auto
termination
  by (relation "measure (\<lambda>(env, cfg, attempt, attempts, lastErr, st). cfg_MaxAttempts cfg - attempt)") auto

declare execute_loop.simps [simp del]

definition Execute :: "('w, 'e) retry_env \<Rightarrow> Config \<Rightarrow> 'w retry_state \<Rightarrow>
    'e retry_error option \<times> 'w retry_state" where
  "Execute env config st =
     (let cfg = EnsureDefaults config in execute_loop env cfg 0 0 None st)"

subsection \<open>Jitter bounds\<close>

text \<open>A draw from \<open>[0, 1]\<close>, multiplied into a non-negative duration, stays within it.\<close>

definition unit_draws :: "'w rand \<Rightarrow> bool" where
  "unit_draws r \<longleftrightarrow> (\<forall>w d. 0 \<le> d \<longrightarrow> 0 \<le> fst (r w) d \<and> fst (r w) d \<le> d)"

lemma unit_drawsD: "unit_draws r \<Longrightarrow> 0 \<le> d \<Longrightarrow> 0 \<le> fst (r w) d \<and> fst (r w) d \<le> d"
  by (simp add: unit_draws_def)

lemma Equal_bounds:
  assumes "unit_draws r"
  shows "0 \<le> d \<Longrightarrow> d div 2 \<le> fst (Equal r d w)" and "0 < d \<Longrightarrow> 0 < fst (Equal r d w)"
    and "fst (Equal r d w) \<le> d"
proof -
  have "(0 \<le> d \<longrightarrow> d div 2 \<le> fst (Equal r d w)) \<and> (0 < d \<longrightarrow> 0 < fst (Equal r d w)) \<and>
      fst (Equal r d w) \<le> d"
  proof (cases "0 < d div 2")
    case True
    then have pos: "0 < d" "0 \<le> d - d div 2" by linarith+
    with unit_drawsD [OF assms pos(2), of w] True show ?thesis
      by (auto simp: Equal_def Let_def split: prod.split)
  qed (auto simp: Equal_def Let_def split: prod.split)
  then show "0 \<le> d \<Longrightarrow> d div 2 \<le> fst (Equal r d w)" and "0 < d \<Longrightarrow> 0 < fst (Equal r d w)"
    and "fst (Equal r d w) \<le> d" by auto
qed

lemma Full_bounds:
  assumes "unit_draws r"
  shows "0 \<le> d \<Longrightarrow> 0 \<le> fst (Full r d w)" and "fst (Full r d w) \<le> d"
  using unit_drawsD [OF assms, of d w] by (auto simp: Full_def split: prod.split)

lemma EnsureDefaults_valid:
  "0 < cfg_MaxAttempts (EnsureDefaults cfg)" "0 < cfg_InitialDelay (EnsureDefaults cfg)"
  "0 < cfg_MaxDelay (EnsureDefaults cfg)" "1 \<le> cfg_Multiplier (EnsureDefaults cfg)"
  by (auto simp: EnsureDefaults_def Let_def Millisecond_def Second_def)

subsection \<open>The loop, seen through the results of its operation\<close>

text \<open>An environment whose world also keeps the results the operation has returned.\<close>

definition logged :: "('w, 'e) retry_env \<Rightarrow> ('w \<times> 'e retry_error option list, 'e) retry_env" where
  "logged env =
     \<lparr>re_floats = re_floats env,
      re_rand = (\<lambda>(w, rs). case re_rand env w of (mul, w') \<Rightarrow> (mul, (w', rs))),
      re_operation = (\<lambda>(w, rs). case re_operation env w of (res, w') \<Rightarrow> (res, (w', rs @ [res]))),
      re_ctxDone = (\<lambda>(w, rs). re_ctxDone env w),
      re_sleep = (\<lambda>d (w, rs). case re_sleep env d w of (ok, w') \<Rightarrow> (ok, (w', rs)))\<rparr>"

lemma logged_wait: "snd (snd (wait_retry (logged env) cfg attempt w)) = snd w"
  by (cases w) (simp add: wait_retry_def logged_def Equal_def NoJitter_def Let_def split: prod.split)

text \<open>What the log says about an outcome: its length, its failures, and where the result comes from.\<close>

definition retryable :: "'e retry_error option \<Rightarrow> bool" where
  "retryable r = (case r of None \<Rightarrow> False | Some e \<Rightarrow> \<not> is_unretryable e)"

definition outcome_of :: "Config \<Rightarrow> 'e retry_error option list \<Rightarrow> 'e retry_error option \<Rightarrow> bool \<Rightarrow> bool" where
  "outcome_of cfg rs res exhausted \<longleftrightarrow>
     length rs \<le> cfg_MaxAttempts cfg \<and> list_all retryable (butlast rs) \<and>
     (if exhausted
      then length rs = cfg_MaxAttempts cfg \<and> rs \<noteq> [] \<and> retryable (last rs) \<and>
           res = Exhausted (length rs) (last rs)
      else res = (if rs = [] then Some CtxError else last rs))"

definition loop_outcome :: "Config \<Rightarrow> ('w \<times> 'e retry_error option list) retry_state \<Rightarrow>
    'e retry_error option \<Rightarrow> ('w \<times> 'e retry_error option list) retry_state \<Rightarrow> bool" where
  "loop_outcome cfg st res st' \<longleftrightarrow>
     (let rs = snd (rs_world st); rs' = snd (rs_world st')
      in (\<exists>new. rs' = rs @ new \<and> rs_attempts st' = rs_attempts st + length new) \<and>
         (\<exists>ex. outcome_of cfg rs' res ex \<and> rs_exhaustions st' = rs_exhaustions st + (if ex then 1 else 0)))"

lemma loop_outcome_later:
  assumes "loop_outcome cfg st2 res st'" and "snd (rs_world st2) = snd (rs_world st) @ [r]"
    and "rs_attempts st2 = rs_attempts st + 1" and "rs_exhaustions st2 = rs_exhaustions st"
  shows "loop_outcome cfg st res st'"
  using assms by (auto simp: loop_outcome_def Let_def)

lemma execute_loop_outcome:
  assumes "execute_loop (logged env) cfg attempt attempts lastErr st = (res, st')"
    and "attempt < cfg_MaxAttempts cfg" and "attempts = attempt"
    and "length (snd (rs_world st)) = attempt" and "list_all retryable (snd (rs_world st))"
    and "lastErr = (if snd (rs_world st) = [] then None else last (snd (rs_world st)))"
  shows "loop_outcome cfg st res st'"
  using assms
proof (induction "cfg_MaxAttempts cfg - attempt" arbitrary: attempt attempts lastErr st rule: less_induct)
  case less
  obtain w rs where w: "rs_world st = (w, rs)" by fastforce
  have butl: "list_all retryable (butlast rs)" and lastr: "rs \<noteq> [] \<Longrightarrow> \<exists>e. last rs = Some e"
    using less.prems(5) w
    by (auto simp: list_all_iff retryable_def dest: in_set_butlastD split: option.splits)
  note step = less.prems(1) [unfolded execute_loop.simps [of "logged env" cfg attempt]]
  show ?case
  proof (cases "re_ctxDone env w")
    case True
    with step less.prems w lastr butl show ?thesis
      by (cases "rs = []")
         (auto simp: logged_def loop_outcome_def outcome_of_def intro!: exI [of _ False])
  next
    case False
    obtain r w1 where op: "re_operation env w = (r, w1)" by fastforce
    let ?st1 = "st\<lparr>rs_world := (w1, rs @ [r]), rs_attempts := rs_attempts st + 1\<rparr>"
    consider (stop) "res = r" "st' = ?st1" "r = None \<or> (\<exists>e. r = Some e)"
      | (spent) "attempt = cfg_MaxAttempts cfg - 1" "retryable r"
          "exhausted_retry (attempts + 1) r ?st1 = (res, st')"
      | (again) slept w2 where "attempt \<noteq> cfg_MaxAttempts cfg - 1" "retryable r"
          "wait_retry (logged env) cfg attempt (w1, rs @ [r]) = (slept, w2)"
          "if slept then execute_loop (logged env) cfg (attempt + 1) (attempts + 1) r (?st1\<lparr>rs_world := w2\<rparr>) = (res, st')
           else res = r \<and> st' = ?st1\<lparr>rs_world := w2\<rparr>"
      using step False op w less.prems(2)
      by (auto simp: logged_def [of env] IsTerminal_def Let_def retryable_def
          split: option.splits if_splits prod.splits)
    then show ?thesis
    proof cases
      case stop
      with less.prems w show ?thesis
        by (auto simp: loop_outcome_def outcome_of_def intro!: exI [of _ False])
    next
      case spent
      with less.prems w show ?thesis
        by (auto simp: loop_outcome_def outcome_of_def exhausted_retry_def retryable_def Exhausted_def
            split: option.splits intro!: exI [of _ True])
    next
      case again
      from logged_wait [of env cfg attempt "(w1, rs @ [r])"] again(3) have rs2: "snd w2 = rs @ [r]"
        by simp
      show ?thesis
      proof (cases slept)
        case False
        with again rs2 less.prems w show ?thesis
          by (auto simp: loop_outcome_def outcome_of_def intro!: exI [of _ False])
      next
        case True
        with again have run: "execute_loop (logged env) cfg (attempt + 1) (attempts + 1) r
            (?st1\<lparr>rs_world := w2\<rparr>) = (res, st')" by simp
        have "loop_outcome cfg (?st1\<lparr>rs_world := w2\<rparr>) res st'"
          using again(1,2) rs2 less.prems(2-5) w by (intro less.hyps [OF _ run]) auto
        then show ?thesis by (rule loop_outcome_later) (use rs2 w in simp_all)
      qed
    qed
  qed
qed

text \<open>Keeping the log changes nothing else.\<close>

definition unlog :: "('w \<times> 'e retry_error option list) retry_state \<Rightarrow> 'w retry_state" where
  "unlog st = \<lparr>rs_world = fst (rs_world st), rs_attempts = rs_attempts st,
               rs_exhaustions = rs_exhaustions st\<rparr>"

lemma wait_unlog:
  "wait_retry env cfg attempt (fst w) =
     (fst (wait_retry (logged env) cfg attempt w), fst (snd (wait_retry (logged env) cfg attempt w)))"
  by (cases w) (simp add: wait_retry_def logged_def Equal_def NoJitter_def Let_def split: prod.split)

lemma execute_loop_unlog:
  fixes env :: "('w, 'e) retry_env"
  shows "execute_loop env cfg attempt attempts lastErr (unlog st) =
     map_prod id unlog (execute_loop (logged env) cfg attempt attempts lastErr st)"
proof (induction "cfg_MaxAttempts cfg - attempt" arbitrary: attempt attempts lastErr st rule: less_induct)
  case less
  obtain w rs where w: "rs_world st = (w, rs)" by fastforce
  obtain r w1 where op: "re_operation env w = (r, w1)" by fastforce
  let ?st1 = "st\<lparr>rs_world := (w1, rs @ [r]), rs_attempts := Suc (rs_attempts st)\<rparr>"
  obtain slept w2 where wt: "wait_retry (logged env) cfg attempt (w1, rs @ [r]) = (slept, w2)"
    by (rule prod.exhaust)
  with wait_unlog [of env cfg attempt "(w1, rs @ [r])"]
  have wt': "wait_retry env cfg attempt w1 = (slept, fst w2)" by simp
  have ex: "exhausted_retry n l (unlog s0) = map_prod id unlog (exhausted_retry n l s0)"
    for n l and s0 :: "('w \<times> 'e retry_error option list) retry_state"
    by (simp add: exhausted_retry_def unlog_def split: option.split)
  have ld: "re_ctxDone (logged env) (v, rs') = re_ctxDone env v"
    "re_operation (logged env) (w, rs) = (r, (w1, rs @ [r]))" for v rs'
    by (simp_all add: logged_def op)
  have IH: "execute_loop env cfg (attempt + 1) (attempts + 1) r (unlog (?st1\<lparr>rs_world := w2\<rparr>)) =
      map_prod id unlog (execute_loop (logged env) cfg (attempt + 1) (attempts + 1) r (?st1\<lparr>rs_world := w2\<rparr>))"
    if "attempt < cfg_MaxAttempts cfg" using that by (intro less.hyps) simp
  show ?case
    using IH ex [of "Suc attempts" r ?st1] ex [of attempts lastErr st] wt
    unfolding execute_loop.simps [of env cfg attempt] execute_loop.simps [of "logged env" cfg attempt]
    by (cases r) (auto simp: unlog_def w op ld wt' Let_def split: option.split)
qed

text \<open>What the operation, the random source and the clock keep of the world, the loop keeps.\<close>

lemma wait_retry_invariant:
  assumes "I w" and "\<And>w. I w \<Longrightarrow> I (snd (re_rand env w))" and "\<And>d w. I w \<Longrightarrow> I (snd (re_sleep env d w))"
  shows "I (snd (wait_retry env cfg attempt w))"
proof -
  have "I (snd (Equal (re_rand env) d w))" for d
    using assms(1) assms(2) [of w] by (auto simp: Equal_def Let_def split: prod.split)
  then show ?thesis
    using assms(1,3) by (auto simp: wait_retry_def NoJitter_def Let_def split: prod.split) (metis snd_conv)
qed

lemma execute_loop_invariant:
  assumes "execute_loop env cfg attempt attempts lastErr st = (res, st')" and "I (rs_world st)"
    and op: "\<And>w. I w \<Longrightarrow> I (snd (re_operation env w))"
    and rand: "\<And>w. I w \<Longrightarrow> I (snd (re_rand env w))" and sleep: "\<And>d w. I w \<Longrightarrow> I (snd (re_sleep env d w))"
  shows "I (rs_world st')"
  using assms(1,2)
proof (induction "cfg_MaxAttempts cfg - attempt" arbitrary: attempt attempts lastErr st rule: less_induct)
  case less
  have ex: "exhausted_retry n l s = (res, st') \<Longrightarrow> rs_world st' = rs_world s" for n l s
    by (auto simp: exhausted_retry_def split: option.splits)
  obtain r w1 where o: "re_operation env (rs_world st) = (r, w1)" by fastforce
  with op [OF less.prems(2)] have w1: "I w1" by simp
  obtain slept w2 where wt: "wait_retry env cfg attempt w1 = (slept, w2)" by fastforce
  with wait_retry_invariant [OF w1 rand sleep, of cfg attempt] have w2: "I w2" by simp
  note step = less.prems(1) [unfolded execute_loop.simps [of env cfg attempt]]
  show ?case
  proof (cases "attempt < cfg_MaxAttempts cfg \<and> \<not> re_ctxDone env (rs_world st) \<and> r \<noteq> None \<and>
      \<not> IsTerminal (re_ctxDone env w1) (the r) \<and> attempt \<noteq> cfg_MaxAttempts cfg - 1 \<and> slept")
    case True
    then have "execute_loop env cfg (attempt + 1) (attempts + 1) r
        (st\<lparr>rs_attempts := rs_attempts st + 1, rs_world := w2\<rparr>) = (res, st')"
      using step o wt by (auto simp: Let_def)
    moreover have "cfg_MaxAttempts cfg - (attempt + 1) < cfg_MaxAttempts cfg - attempt" using True by linarith
    ultimately show ?thesis using less.hyps [of "attempt + 1" "attempts + 1" r "st\<lparr>rs_attempts := rs_attempts st + 1, rs_world := w2\<rparr>"] w2 by simp
  next
    case False
    then show ?thesis
      using step o wt w1 w2 less.prems(2)
      by (auto simp: Let_def split: if_splits option.splits dest!: ex)
  qed
qed

text \<open>The whole loop through its log.\<close>

lemma Execute_log:
  fixes env :: "('w, 'e) retry_env"
  shows "\<exists>rs ex w'.
    Execute env cfg \<lparr>rs_world = w, rs_attempts = a, rs_exhaustions = x\<rparr> =
      ((if ex then Exhausted (length rs) (last rs) else if rs = [] then Some CtxError else last rs),
       \<lparr>rs_world = w', rs_attempts = a + length rs, rs_exhaustions = x + (if ex then 1 else 0)\<rparr>) \<and>
    length rs \<le> cfg_MaxAttempts (EnsureDefaults cfg) \<and> list_all retryable (butlast rs) \<and>
    (ex \<longrightarrow> length rs = cfg_MaxAttempts (EnsureDefaults cfg) \<and> retryable (last rs)) \<and>
    snd (rs_world (snd (Execute (logged env) cfg
      \<lparr>rs_world = (w, []), rs_attempts = a, rs_exhaustions = x\<rparr>))) = rs"
proof -
  let ?c = "EnsureDefaults cfg"
  let ?st = "\<lparr>rs_world = (w, []), rs_attempts = a, rs_exhaustions = x\<rparr>
    :: ('w \<times> 'e retry_error option list) retry_state"
  obtain res st' where run: "execute_loop (logged env) ?c 0 0 None ?st = (res, st')" by fastforce
  have un: "unlog ?st = \<lparr>rs_world = w, rs_attempts = a, rs_exhaustions = x\<rparr>" by (simp add: unlog_def)
  have "loop_outcome ?c ?st res st'"
    using execute_loop_outcome [OF run] by (simp add: EnsureDefaults_valid)
  then obtain ex where o1: "rs_attempts st' = a + length (snd (rs_world st'))"
    "outcome_of ?c (snd (rs_world st')) res ex" "rs_exhaustions st' = x + (if ex then 1 else 0)"
    by (auto simp: loop_outcome_def Let_def)
  have "Execute env cfg \<lparr>rs_world = w, rs_attempts = a, rs_exhaustions = x\<rparr> = (res, unlog st')"
    using execute_loop_unlog [of env ?c 0 0 None ?st] run un by (simp add: Execute_def)
  with o1 run show ?thesis
    by (intro exI [of _ "snd (rs_world st')"] exI [of _ ex] exI [of _ "fst (rs_world st')"])
       (auto simp: Execute_def outcome_of_def unlog_def)
qed

subsection \<open>Properties\<close>



text \<open>The waits. With growing powers and an exactly representable cap, the schedule of delays
  never decreases and never exceeds \<^verbatim>\<open>MaxDelay\<close>; an in-place wait draws between half the
  delay and the delay, and a scheduled wait is at least a millisecond and, when the delay
  itself is, at most the delay.\<close>

theorem backoff_bounds:
  assumes cap: "f64 F (cfg_MaxDelay cfg) = real_of_int (cfg_MaxDelay cfg)"
    and grows: "\<And>m n. m \<le> n \<Longrightarrow>
      fpow F (cfg_InitialDelay cfg) (cfg_Multiplier cfg) m \<le> fpow F (cfg_InitialDelay cfg) (cfg_Multiplier cfg) n"
    and pos: "0 \<le> fpow F (cfg_InitialDelay cfg) (cfg_Multiplier cfg) 0"
    and draws: "unit_draws r" and "i \<le> j" and "0 < cfg_MaxDelay cfg"
  shows "DelayFor F cfg i \<le> DelayFor F cfg j \<and> DelayFor F cfg j \<le> cfg_MaxDelay cfg \<and>
    DelayFor F cfg j div 2 \<le> fst (Equal r (DelayFor F cfg j) w) \<and>
    fst (Equal r (DelayFor F cfg j) w) \<le> DelayFor F cfg j \<and>
    minScheduledDelay \<le> fst (ScheduledDelayFor F r cfg k w) \<and>
    fst (ScheduledDelayFor F r cfg k w) \<le> max minScheduledDelay (DelayFor F cfg (nat (max 1 k)))"
proof -
  let ?p = "fpow F (cfg_InitialDelay cfg) (cfg_Multiplier cfg)"
  have D: "DelayFor F cfg n =
      (if ?p (n - 1) > real_of_int (cfg_MaxDelay cfg) then cfg_MaxDelay cfg else \<lfloor>?p (n - 1)\<rfloor>)" for n
    using pos grows [of 0 "n - 1"] by (simp add: DelayFor_def Let_def to_duration_def cap)
  have le: "?p (i - 1) \<le> ?p (j - 1)" using \<open>i \<le> j\<close> by (intro grows) simp
  have mono: "DelayFor F cfg i \<le> DelayFor F cfg j"
    using le unfolding D by (auto simp: floor_le_iff intro: floor_mono) linarith+
  have max: "DelayFor F cfg j \<le> cfg_MaxDelay cfg"
    unfolding D by (auto simp: floor_le_iff)
  have cap0: "0 \<le> DelayFor F cfg j" if "0 \<le> cfg_MaxDelay cfg"
    using pos grows [of 0 "j - 1"] that unfolding D by auto
  have half: "DelayFor F cfg j div 2 \<le> fst (Equal r (DelayFor F cfg j) w)"
    using Equal_bounds(1) [OF draws] cap0 \<open>0 < cfg_MaxDelay cfg\<close> by simp
  have "fst (ScheduledDelayFor F r cfg k w) \<le> max minScheduledDelay (DelayFor F cfg (nat (max 1 k)))"
    "minScheduledDelay \<le> fst (ScheduledDelayFor F r cfg k w)"
    using Full_bounds(2) [OF draws, of "DelayFor F cfg (nat (max 1 k))" w]
    by (auto simp: ScheduledDelayFor_def AtLeast_def NoJitter_def Let_def max_def split: prod.split)
  with mono max half Equal_bounds(3) [OF draws] show ?thesis by blast
qed

theorem backoff_bounds_witness:
  "fst (ScheduledDelayFor \<lparr>f64 = real_of_int, fpow = (\<lambda>d m n. real_of_int d * 2 ^ n)\<rparr> (\<lambda>w. (\<lambda>d. d div 2, w))
     \<lparr>cfg_MaxAttempts = 2, cfg_InitialDelay = 2000000, cfg_MaxDelay = 9000000, cfg_Multiplier = 2, cfg_UseJitter = True\<rparr>
     (- 4) (0 :: nat)) \<ge> minScheduledDelay"
proof -
  let ?F = "\<lparr>f64 = real_of_int, fpow = (\<lambda>d m n. real_of_int d * 2 ^ n)\<rparr>"
  let ?cfg = "\<lparr>cfg_MaxAttempts = 2, cfg_InitialDelay = 2000000, cfg_MaxDelay = 9000000, cfg_Multiplier = 2, cfg_UseJitter = True\<rparr>"
  let ?r = "(\<lambda>w. (\<lambda>d. d div 2, w)) :: nat rand"
  have "unit_draws ?r" by (auto simp: unit_draws_def)
  from backoff_bounds [of ?F ?cfg, OF _ _ _ this, of 1 1 0 "- 4"] show ?thesis by simp
qed

end
