(* ===== verification/LockScoped.thy ===== *)
theory LockScoped
  imports LockMemory Retry
begin

text \<open>
  \<^verbatim>\<open>distributedlock/scoped.go\<close>: running a function while holding a lock.

  The world \<^typ>\<open>'w\<close> is everything the function, the locker and the clock act on; the adapter's
  own counters are beside it. The locker is any implementation of the interface, given by its
  operations; the clock's sleep lets the rest of the world run and reports whether the context
  was still live. The polling loop has no bound, so it is a partial function whose value
  \<^const>\<open>None\<close> is not returning.

  What the adapter relies on is the locale \<open>locker_contract\<close>, which the in-memory locker meets.
\<close>

subsection \<open>Configuration\<close>

definition DefaultScopedLockTTL :: duration where
  "DefaultScopedLockTTL = 30 * Second"

definition DefaultScopedPollInterval :: duration where
  "DefaultScopedPollInterval = 100 * Millisecond"

definition DefaultScopedPollBackoff :: real where
  "DefaultScopedPollBackoff = 2"

definition DefaultScopedMaxPollInterval :: duration where
  "DefaultScopedMaxPollInterval = Second"

record PollingScopedLocker =
  sl_ttl :: duration
  sl_pollInterval :: duration
  sl_maxPollInterval :: duration
  sl_pollBackoff :: real

type_synonym ScopedOption = "(PollingScopedLocker \<Rightarrow> PollingScopedLocker) option"

definition WithScopedLockTTL :: "duration \<Rightarrow> ScopedOption" where
  "WithScopedLockTTL ttl = Some (\<lambda>s. s\<lparr>sl_ttl := ttl\<rparr>)"

definition WithScopedPollInterval :: "duration \<Rightarrow> ScopedOption" where
  "WithScopedPollInterval interval = Some (\<lambda>s. s\<lparr>sl_pollInterval := interval\<rparr>)"

definition WithScopedPollBackoff :: "real \<Rightarrow> duration \<Rightarrow> ScopedOption" where
  "WithScopedPollBackoff factor maxInterval =
     Some (\<lambda>s. s\<lparr>sl_pollBackoff := factor, sl_maxPollInterval := maxInterval\<rparr>)"

datatype scoped_config_error =
    NilLocker
  | PollIntervalNotPositive
  | PollBackoffBelowOne
  | MaxPollIntervalTooSmall

definition NewScopedLocker :: "bool \<Rightarrow> ScopedOption list \<Rightarrow> scoped_config_error + PollingScopedLocker" where
  "NewScopedLocker hasLocker opts =
     (if \<not> hasLocker then Inl NilLocker
      else
        (let s0 = \<lparr>sl_ttl = DefaultScopedLockTTL, sl_pollInterval = DefaultScopedPollInterval,
                   sl_maxPollInterval = DefaultScopedMaxPollInterval,
                   sl_pollBackoff = DefaultScopedPollBackoff\<rparr>;
             s = foldl (\<lambda>s opt. case opt of None \<Rightarrow> s | Some f \<Rightarrow> f s) s0 opts
         in if sl_pollInterval s \<le> 0 then Inl PollIntervalNotPositive
            else if sl_pollBackoff s < 1 then Inl PollBackoffBelowOne
            else if sl_maxPollInterval s < sl_pollInterval s then Inl MaxPollIntervalTooSmall
            else Inr s))"

text \<open>
  \<open>scale\<close> stands for \<^verbatim>\<open>time.Duration(float64(interval) * s.pollBackoff)\<close>, whatever it does on
  overflow.
\<close>

definition grow :: "(real \<Rightarrow> duration \<Rightarrow> duration) \<Rightarrow> PollingScopedLocker \<Rightarrow> duration \<Rightarrow> duration" where
  "grow scale s interval =
     (let grown = scale (sl_pollBackoff s) interval
      in if grown < interval then sl_maxPollInterval s else min grown (sl_maxPollInterval s))"

subsection \<open>Acquire, run, release\<close>

record ('w, 'h) lock_env =
  le_acquire :: "string \<Rightarrow> duration \<Rightarrow> 'w \<Rightarrow> (lock_error + 'h) \<times> 'w"
  le_release :: "'h \<Rightarrow> 'w \<Rightarrow> lock_error option \<times> 'w"
  le_sleep :: "duration \<Rightarrow> 'w \<Rightarrow> bool \<times> 'w"
  le_rand :: "'w rand"
  le_scale :: "real \<Rightarrow> duration \<Rightarrow> duration"

text \<open>How a function ends: with an error or none, or by a panic.\<close>

datatype 'e outcome = Returned "'e option" | Panicked

datatype 'e scoped_error =
    FnError 'e
  | AcquireError lock_error
  | SleepError
  | ReleaseError lock_error
  | Joined "'e scoped_error" "'e scoped_error"

definition Join :: "'e scoped_error option \<Rightarrow> 'e scoped_error option \<Rightarrow> 'e scoped_error option" where
  "Join a b = (case (a, b) of
     (None, _) \<Rightarrow> b | (_, None) \<Rightarrow> a | (Some x, Some y) \<Rightarrow> Some (Joined x y))"

record 'w scoped =
  sc_world :: 'w
  sc_acquires :: nat
  sc_contended :: nat
  sc_errors :: nat
  sc_releaseFailures :: nat

definition run_scoped :: "('w, 'h) lock_env \<Rightarrow> 'h \<Rightarrow> ('w \<Rightarrow> 'e outcome \<times> 'w) \<Rightarrow> 'w scoped \<Rightarrow>
    'e scoped_error outcome \<times> 'w scoped" where
  "run_scoped env h fn st =
     (case fn (sc_world st) of (out, w1) \<Rightarrow>
        case le_release env h w1 of (releaseErr, w2) \<Rightarrow>
          (case releaseErr of
             None \<Rightarrow>
               (case out of Returned err \<Rightarrow> Returned (map_option FnError err) | Panicked \<Rightarrow> Panicked,
                st\<lparr>sc_world := w2\<rparr>)
           | Some e \<Rightarrow>
               (case out of
                  Returned err \<Rightarrow> Returned (Join (map_option FnError err) (Some (ReleaseError e)))
                | Panicked \<Rightarrow> Panicked,
                st\<lparr>sc_world := w2, sc_releaseFailures := sc_releaseFailures st + 1\<rparr>)))"

definition TryWithLock :: "('w, 'h) lock_env \<Rightarrow> PollingScopedLocker \<Rightarrow> string \<Rightarrow>
    ('w \<Rightarrow> 'e outcome \<times> 'w) \<Rightarrow> 'w scoped \<Rightarrow> (bool \<times> 'e scoped_error outcome) \<times> 'w scoped" where
  "TryWithLock env s key fn st =
     (case le_acquire env key (sl_ttl s) (sc_world st) of
        (Inl err, w1) \<Rightarrow>
          if err = ErrLockNotAcquired
          then ((False, Returned None), st\<lparr>sc_world := w1, sc_contended := sc_contended st + 1\<rparr>)
          else ((False, Returned (Some (AcquireError err))), st\<lparr>sc_world := w1, sc_errors := sc_errors st + 1\<rparr>)
      | (Inr h, w1) \<Rightarrow>
          (case run_scoped env h fn (st\<lparr>sc_world := w1, sc_acquires := sc_acquires st + 1\<rparr>) of
             (out, st') \<Rightarrow> ((True, out), st')))"

partial_function (option) withLock_poll :: "('w, 'h) lock_env \<Rightarrow> PollingScopedLocker \<Rightarrow> string \<Rightarrow>
    ('w \<Rightarrow> 'e outcome \<times> 'w) \<Rightarrow> nat \<Rightarrow> duration \<Rightarrow> 'w scoped \<Rightarrow>
    ('e scoped_error outcome \<times> 'w scoped) option" where
  "withLock_poll env s key fn polls wait st =
     (case le_acquire env key (sl_ttl s) (sc_world st) of
        (Inr h, w1) \<Rightarrow>
          Some (run_scoped env h fn
            (st\<lparr>sc_world := w1, sc_contended := sc_contended st + (if polls > 0 then 1 else 0),
                sc_acquires := sc_acquires st + 1\<rparr>))
      | (Inl err, w1) \<Rightarrow>
          if err \<noteq> ErrLockNotAcquired
          then Some (Returned (Some (AcquireError err)),
                     st\<lparr>sc_world := w1, sc_errors := sc_errors st + 1\<rparr>)
          else
            (case Equal (le_rand env) wait w1 of (d, w2) \<Rightarrow>
               case le_sleep env d w2 of (slept, w3) \<Rightarrow>
                 if \<not> slept
                 then Some (Returned (Some SleepError),
                            st\<lparr>sc_world := w3, sc_contended := sc_contended st + 1\<rparr>)
                 else withLock_poll env s key fn (polls + 1) (grow (le_scale env) s wait)
                        (st\<lparr>sc_world := w3\<rparr>)))"

declare withLock_poll.simps [code]

definition WithLock :: "('w, 'h) lock_env \<Rightarrow> PollingScopedLocker \<Rightarrow> string \<Rightarrow>
    ('w \<Rightarrow> 'e outcome \<times> 'w) \<Rightarrow> 'w scoped \<Rightarrow> ('e scoped_error outcome \<times> 'w scoped) option" where
  "WithLock env s key fn st = withLock_poll env s key fn 0 (sl_pollInterval s) st"

subsection \<open>The waits stay within the configured bounds\<close>

lemma NewScopedLocker_valid:
  "NewScopedLocker b opts = Inr s \<Longrightarrow>
     0 < sl_pollInterval s \<and> 1 \<le> sl_pollBackoff s \<and> sl_pollInterval s \<le> sl_maxPollInterval s"
  by (auto simp: NewScopedLocker_def Let_def split: if_splits)

lemma grow_bounds:
  "interval \<le> sl_maxPollInterval s \<Longrightarrow>
     interval \<le> grow scale s interval \<and> grow scale s interval \<le> sl_maxPollInterval s"
  by (auto simp: grow_def Let_def)

subsection \<open>What the adapter relies on\<close>

locale locker_contract =
  fixes acquire :: "string \<Rightarrow> duration \<Rightarrow> 'w \<Rightarrow> (lock_error + 'h) \<times> 'w"
    and release :: "'h \<Rightarrow> 'w \<Rightarrow> lock_error option \<times> 'w"
    and holder :: "'w \<Rightarrow> string \<Rightarrow> string option"
    and key_of :: "'h \<Rightarrow> string"
    and token_of :: "'h \<Rightarrow> string"
    and ok :: "'w \<Rightarrow> bool"
  assumes acquire_keeps: "ok w \<Longrightarrow> ok (snd (acquire k ttl w))"
    and release_keeps: "ok w \<Longrightarrow> ok (snd (release h w))"
    and acquire_granted: "ok w \<Longrightarrow> acquire k ttl w = (Inr h, w') \<Longrightarrow>
      key_of h = k \<and> holder w k = None \<and> holder w' k = Some (token_of h) \<and>
      (\<forall>k'. k' \<noteq> k \<longrightarrow> holder w' k' = holder w k')"
    and acquire_refused: "ok w \<Longrightarrow> acquire k ttl w = (Inl err, w') \<Longrightarrow>
      holder w' = holder w \<and> (err = ErrLockNotAcquired \<longrightarrow> holder w k \<noteq> None)"
    and acquire_free: "ok w \<Longrightarrow> k \<noteq> [] \<Longrightarrow> 0 < ttl \<Longrightarrow> holder w k = None \<Longrightarrow>
      \<exists>h w'. acquire k ttl w = (Inr h, w')"
    and release_held: "ok w \<Longrightarrow> holder w (key_of h) = Some (token_of h) \<Longrightarrow> fst (release h w) = None"
    and release_holder: "ok w \<Longrightarrow> holder (snd (release h w)) k =
      (if k = key_of h \<and> holder w k = Some (token_of h) then None else holder w k)"
begin

text \<open>
  A function that neither loses the lock nor frees it: the release is clean, the answer is the
  function's own, and the key is free again.
\<close>

lemma run_clean:
  assumes "le_acquire env = acquire" "le_release env = release"
    and "fn (sc_world st) = (out, w1)" and "ok w1" and "holder w1 (key_of h) = Some (token_of h)"
  shows "fst (run_scoped env h fn st) =
      (case out of Returned err \<Rightarrow> Returned (map_option FnError err) | Panicked \<Rightarrow> Panicked)"
    and "sc_releaseFailures (snd (run_scoped env h fn st)) = sc_releaseFailures st"
    and "holder (sc_world (snd (run_scoped env h fn st))) (key_of h) = None"
proof -
  obtain w2 where r: "release h w1 = (None, w2)"
    using release_held [OF assms(4,5)] by (cases "release h w1") simp
  have "holder w2 (key_of h) = None"
    using release_holder [OF assms(4), of h "key_of h"] r assms(5) by simp
  then show "fst (run_scoped env h fn st) =
      (case out of Returned err \<Rightarrow> Returned (map_option FnError err) | Panicked \<Rightarrow> Panicked)"
    and "sc_releaseFailures (snd (run_scoped env h fn st)) = sc_releaseFailures st"
    and "holder (sc_world (snd (run_scoped env h fn st))) (key_of h) = None"
    using assms r by (simp_all add: run_scoped_def)
qed

text \<open>Losing the lock while the function runs never takes it from whoever holds it now.\<close>

lemma run_lost:
  assumes "le_release env = release" and "fn (sc_world st) = (out, w1)" and "ok w1"
    and "holder w1 (key_of h) \<noteq> Some (token_of h)"
  shows "holder (sc_world (snd (run_scoped env h fn st))) k = holder w1 k"
proof -
  obtain r w2 where r: "release h w1 = (r, w2)" by fastforce
  with release_holder [OF assms(3), of h k] assms(4) have "holder w2 k = holder w1 k" by auto
  with assms r show ?thesis by (simp add: run_scoped_def split: option.split)
qed

lemma try_free:
  assumes "le_acquire env = acquire" and "ok (sc_world st)" and "k \<noteq> []" and "0 < sl_ttl s"
    and "holder (sc_world st) k = None"
  shows "fst (fst (TryWithLock env s k fn st))"
  using acquire_free [OF assms(2-5)] assms(1)
  by (auto simp: TryWithLock_def split: prod.split)

lemma try_contended:
  assumes "le_acquire env = acquire" and "ok (sc_world st)" and "k \<noteq> []" and "0 < sl_ttl s"
    and "TryWithLock env s k fn st = ((False, out), st')"
  shows "holder (sc_world st') = holder (sc_world st)"
proof -
  obtain err w1 where a: "acquire k (sl_ttl s) (sc_world st) = (Inl err, w1)"
    using assms(1,5) by (auto simp: TryWithLock_def split: prod.splits sum.splits)
  with acquire_refused [OF assms(2) a] assms(1,5) show ?thesis
    by (auto simp: TryWithLock_def split: if_splits)
qed

end

subsection \<open>The in-memory locker meets the contract\<close>

text \<open>
  The world of the in-memory locker: the clock, the locker, the identifiers still to be issued,
  and everything else.
\<close>

record 'r mem_world =
  mw_now :: gotime
  mw_locker :: locker
  mw_ids :: "nat \<Rightarrow> string"
  mw_issued :: nat
  mw_rest :: 'r

definition mem_acquire :: "string \<Rightarrow> duration \<Rightarrow> 'r mem_world \<Rightarrow> (lock_error + lock) \<times> 'r mem_world" where
  "mem_acquire k ttl w =
     (case Acquire (mw_now w) (mw_ids w (mw_issued w)) k ttl (mw_locker w) of
        (Inl err, l) \<Rightarrow> (Inl err, w\<lparr>mw_locker := l\<rparr>)
      | (Inr h, l) \<Rightarrow> (Inr h, w\<lparr>mw_locker := l, mw_issued := mw_issued w + 1\<rparr>))"

definition mem_release :: "lock \<Rightarrow> 'r mem_world \<Rightarrow> lock_error option \<times> 'r mem_world" where
  "mem_release h w =
     (case Release (mw_now w) h (mw_locker w) of (r, l) \<Rightarrow> (r, w\<lparr>mw_locker := l\<rparr>))"

definition mem_holder :: "'r mem_world \<Rightarrow> string \<Rightarrow> string option" where
  "mem_holder w k =
     (case owner (mw_locker w) k of
        None \<Rightarrow> None
      | Some h \<Rightarrow> if mw_now w < h_expires h then Some (h_token h) else None)"

lemma mem_holder_free: "mem_holder w k = None \<longleftrightarrow> free (mw_now w) (mw_locker w) k"
  by (simp add: mem_holder_def free_def split: option.split)

text \<open>Sweeping expired owners is invisible to the holders.\<close>

lemma mem_holder_swept:
  assumes "owner l k = owner (mw_locker w) k \<or>
      owner l k = None \<and> (\<exists>h. owner (mw_locker w) k = Some h \<and> h_expires h < mw_now w)"
  shows "mem_holder (w\<lparr>mw_locker := l\<rparr>) k = mem_holder w k"
  using assms by (cases "owner (mw_locker w) k") (auto simp: mem_holder_def)

lemma mem_holder_issued [simp]: "mem_holder (w\<lparr>mw_issued := n\<rparr>) k = mem_holder w k"
  by (simp add: mem_holder_def split: option.split)

interpretation ml: locker_contract
  where acquire = mem_acquire and release = mem_release and holder = mem_holder
    and key_of = lk_key and token_of = lk_token and ok = "\<lambda>w. locker_inv (mw_locker w)"
proof (unfold_locales, goal_cases)
  case (1 w k ttl)
  then show ?case
    using Acquire_inv [OF 1, of "mw_now w" "mw_ids w (mw_issued w)" k ttl]
    by (auto simp: mem_acquire_def split: prod.split sum.split)
next
  case (2 w h)
  then show ?case
    using release_inv [OF 2, of "mw_now w" "lk_key h" "lk_token h"]
    by (auto simp: mem_release_def Release_def split: prod.split)
next
  case (3 w k ttl h w')
  then obtain l where a: "Acquire (mw_now w) (mw_ids w (mw_issued w)) k ttl (mw_locker w) = (Inr h, l)"
    and w': "w' = w\<lparr>mw_locker := l, mw_issued := mw_issued w + 1\<rparr>"
    by (auto simp: mem_acquire_def split: prod.splits sum.splits)
  note ok = Acquire_ok_owner [OF 3(1) a]
  have "mem_holder w' k' = mem_holder w k'" if "k' \<noteq> k" for k'
    using mem_holder_swept [OF ok(5) [OF that]] by (simp add: w')
  moreover have "mem_holder w' k = Some (lk_token h)"
    using ok(1,3,4) by (simp add: mem_holder_def w')
  ultimately show ?case using ok(1,2) by (simp add: mem_holder_free)
next
  case (4 w k ttl err w')
  then obtain l where a: "Acquire (mw_now w) (mw_ids w (mw_issued w)) k ttl (mw_locker w) = (Inl err, l)"
    and w': "w' = w\<lparr>mw_locker := l\<rparr>"
    by (auto simp: mem_acquire_def split: prod.splits sum.splits)
  have "\<not> free (mw_now w) (mw_locker w) k" if "err = ErrLockNotAcquired"
    using a that Acquire_cases [OF 4(1), of k ttl]
    by (auto simp: Acquire_def split: if_splits)
  then show ?case
    using mem_holder_swept [OF Acquire_fail_owner [OF 4(1) a]]
    by (auto simp: w' mem_holder_free)
next
  case (5 w k ttl)
  then show ?case
    by (simp add: mem_acquire_def Acquire_cases mem_holder_free)
next
  case (6 w h)
  then have "fst (release_lock (mw_now w) (lk_key h) (lk_token h) (mw_locker w)) = None"
    by (auto simp: release_ok_iff mem_holder_def split: option.splits if_splits)
  then show ?case by (simp add: mem_release_def Release_def case_prod_beta)
next
  case (7 w h k)
  let ?r = "release_lock (mw_now w) (lk_key h) (lk_token h) (mw_locker w)"
  have rel: "snd (mem_release h w) = w\<lparr>mw_locker := snd ?r\<rparr>"
    by (simp add: mem_release_def Release_def split: prod.split)
  have "mem_holder w (lk_key h) = None" if "fst ?r = None" "mem_holder w (lk_key h) \<noteq> Some (lk_token h)"
    using that by (auto simp: release_ok_iff mem_holder_def split: if_splits)
  moreover have "fst ?r = None" if "mem_holder w (lk_key h) = Some (lk_token h)"
    using that by (auto simp: release_ok_iff mem_holder_def split: option.splits if_splits)
  ultimately show ?case
    by (auto simp: rel mem_holder_def release_owner split: option.split) blast
qed

subsection \<open>The polling loop returns\<close>

text \<open>
  A clock that really advances: a sleep of a positive duration that completes leaves the clock
  that much later, and the lock being waited for is neither extended nor taken over meanwhile.
  Everything else may change.
\<close>

definition sleep_advances :: "string \<Rightarrow> (duration \<Rightarrow> 'r mem_world \<Rightarrow> bool \<times> 'r mem_world) \<Rightarrow> bool" where
  "sleep_advances key sleep \<longleftrightarrow>
     (\<forall>d w w'. sleep d w = (True, w') \<and> locker_inv (mw_locker w) \<longrightarrow>
        locker_inv (mw_locker w') \<and> mw_now w + d \<le> mw_now w' \<and>
        (owner (mw_locker w') key = owner (mw_locker w) key \<or> owner (mw_locker w') key = None))"

definition remaining :: "string \<Rightarrow> 'r mem_world \<Rightarrow> nat" where
  "remaining key w =
     (case owner (mw_locker w) key of None \<Rightarrow> 0 | Some h \<Rightarrow> nat (h_expires h - mw_now w))"

lemma withLock_poll_returns:
  fixes env :: "('r mem_world, lock) lock_env"
  assumes env: "le_acquire env = mem_acquire"
    and sleep: "sleep_advances key (le_sleep env)"
    and draws: "unit_draws (le_rand env)" "\<And>w. mw_now (snd (le_rand env w)) = mw_now w \<and>
      mw_locker (snd (le_rand env w)) = mw_locker w"
    and "0 < wait" "wait \<le> sl_maxPollInterval s" and "locker_inv (mw_locker (sc_world st))"
  shows "\<exists>r. withLock_poll env s key fn polls wait st = Some r"
  using assms(5-)
proof (induction "remaining key (sc_world st)" arbitrary: polls wait st rule: less_induct)
  case less
  let ?w = "sc_world st"
  show ?case
  proof (cases "mem_acquire key (sl_ttl s) ?w")
    case (Pair r w1)
    show ?thesis
    proof (cases "r = Inl ErrLockNotAcquired")
      case False
      then show ?thesis
        using Pair env by (subst withLock_poll.simps) (auto split: sum.split)
    next
      case True
      obtain l where a: "Acquire (mw_now ?w) (mw_ids ?w (mw_issued ?w)) key (sl_ttl s) (mw_locker ?w) =
          (Inl ErrLockNotAcquired, l)" and w1: "w1 = ?w\<lparr>mw_locker := l\<rparr>"
        using Pair True by (auto simp: mem_acquire_def split: prod.splits sum.splits)
      from ml.acquire_refused [OF less.prems(3)] Pair True
      have "mem_holder ?w key \<noteq> None" by blast
      then obtain h where h: "owner (mw_locker ?w) key = Some h" "mw_now ?w < h_expires h"
        by (auto simp: mem_holder_def split: option.splits if_splits)
      have own: "owner l key = owner (mw_locker ?w) key"
        using Acquire_fail_owner [OF less.prems(3) a, of key] h by auto
      have linv: "locker_inv l" using Acquire_inv [OF less.prems(3)] a by (metis snd_conv)
      obtain d w2 where j: "Equal (le_rand env) wait w1 = (d, w2)" by fastforce
      then have d: "0 < d" using Equal_bounds(2) [OF draws(1) less.prems(1), of w1] by simp
      have w2: "mw_now w2 = mw_now ?w" "mw_locker w2 = l"
        using j draws(2) [of w1] w1 by (auto simp: Equal_def Let_def split: prod.splits if_splits)
      obtain slept w3 where sl: "le_sleep env d w2 = (slept, w3)" by fastforce
      show ?thesis
      proof (cases slept)
        case False
        with Pair True env j sl show ?thesis by (subst withLock_poll.simps) simp
      next
        case slept: True
        then have s3: "locker_inv (mw_locker w3)" "mw_now ?w + d \<le> mw_now w3"
          "owner (mw_locker w3) key = Some h \<or> owner (mw_locker w3) key = None"
          using sleep [unfolded sleep_advances_def, rule_format, of d w2 w3] sl linv w2 own h by auto
        then have "remaining key (sc_world (st\<lparr>sc_world := w3\<rparr>)) < remaining key ?w"
          using h d by (auto simp: remaining_def)
        from less.hyps [OF this, of "grow (le_scale env) s wait" "polls + 1"]
          grow_bounds [OF less.prems(2), of "le_scale env"] less.prems(1) s3(1)
        have "\<exists>r. withLock_poll env s key fn (polls + 1) (grow (le_scale env) s wait)
            (st\<lparr>sc_world := w3\<rparr>) = Some r"
          by auto
        with Pair True env j sl slept show ?thesis by (subst withLock_poll.simps) simp
      qed
    qed
  qed
qed

text \<open>The in-memory locker behind the adapter, with a clock on which only time passes.\<close>

definition mem_env :: "('r mem_world, lock) lock_env" where
  "mem_env = \<lparr>le_acquire = mem_acquire, le_release = mem_release,
     le_sleep = (\<lambda>d w. (True, w\<lparr>mw_now := mw_now w + d\<rparr>)), le_rand = (\<lambda>w. (\<lambda>d. d, w)),
     le_scale = (\<lambda>f d. 2 * d)\<rparr>"

lemma mem_env_sleep_advances: "sleep_advances key (le_sleep mem_env)"
  by (auto simp: sleep_advances_def mem_env_def)

subsection \<open>Properties\<close>

text \<open>Waiting ends. On a locker whose configuration was accepted, over an in-memory lock held by
  anyone, \<^verbatim>\<open>WithLock\<close> returns: the waits between polls are positive and bounded by the
  configured maximum, so the holder's deadline is reached (or the context ends) after
  finitely many polls, whatever the clock and the other keys do meanwhile.\<close>

theorem WithLock_returns:
  fixes env :: "('r mem_world, lock) lock_env"
  assumes "NewScopedLocker b opts = Inr s"
    and "le_acquire env = mem_acquire" and "sleep_advances key (le_sleep env)"
    and "unit_draws (le_rand env)"
    and "\<And>w. mw_now (snd (le_rand env w)) = mw_now w \<and> mw_locker (snd (le_rand env w)) = mw_locker w"
    and "locker_inv (mw_locker (sc_world st))"
  shows "\<exists>out st'. WithLock env s key fn st = Some (out, st')"
  using withLock_poll_returns [OF assms(2-5), of "sl_pollInterval s" s st fn 0]
    NewScopedLocker_valid [OF assms(1)] assms(6)
  by (auto simp: WithLock_def)

theorem WithLock_returns_witness:
  "\<exists>out st'. WithLock mem_env
      \<lparr>sl_ttl = DefaultScopedLockTTL, sl_pollInterval = DefaultScopedPollInterval,
       sl_maxPollInterval = DefaultScopedMaxPollInterval, sl_pollBackoff = DefaultScopedPollBackoff\<rparr>
      ''k'' (\<lambda>w. (Returned (None :: string option), w))
      \<lparr>sc_world = \<lparr>mw_now = 10, mw_locker = snd (Acquire 5 ''t'' ''k'' 100 NewLocker), mw_ids = (\<lambda>n. replicate n CHR ''x''),
         mw_issued = 0, mw_rest = ()\<rparr>, sc_acquires = 0, sc_contended = 0, sc_errors = 0, sc_releaseFailures = 0\<rparr>
     = Some (out, st')"
proof -
  let ?s = "\<lparr>sl_ttl = DefaultScopedLockTTL, sl_pollInterval = DefaultScopedPollInterval,
       sl_maxPollInterval = DefaultScopedMaxPollInterval, sl_pollBackoff = DefaultScopedPollBackoff\<rparr>"
  have new: "NewScopedLocker True [] = Inr ?s"
    by (simp add: NewScopedLocker_def DefaultScopedPollInterval_def DefaultScopedMaxPollInterval_def
        DefaultScopedPollBackoff_def Millisecond_def Second_def)
  have draws: "unit_draws (le_rand (mem_env :: (unit mem_world, lock) lock_env))"
    by (simp add: unit_draws_def mem_env_def)
  show ?thesis
    by (rule WithLock_returns [OF new _ mem_env_sleep_advances draws])
       (simp_all add: mem_env_def Acquire_inv)
qed

text \<open>Exactly one of three things happens to a caller that does not wait. If the key is held, it
  learns so without an error, its function does not run, and the holder keeps the lock. If
  the key is free, its function runs once, its error (or panic) is the answer, and the key
  is free again afterwards: a function that stays within the lock's lifetime is released
  cleanly whether it returns, fails or panics.\<close>

theorem TryWithLock_runs_or_reports:
  fixes st :: "'r mem_world scoped"
  assumes "key \<noteq> []" and "0 < sl_ttl s" and "locker_inv (mw_locker (sc_world st))"
    and fn: "\<And>w. mw_locker (snd (fn w)) = mw_locker w \<and> mw_now w \<le> mw_now (snd (fn w)) \<and>
      mw_now (snd (fn w)) < mw_now w + sl_ttl s"
  shows "(case mem_holder (sc_world st) key of
      Some tok \<Rightarrow>
        fst (TryWithLock mem_env s key fn st) = (False, Returned None) \<and>
        mem_holder (sc_world (snd (TryWithLock mem_env s key fn st))) = mem_holder (sc_world st) \<and>
        mw_rest (sc_world (snd (TryWithLock mem_env s key fn st))) = mw_rest (sc_world st)
    | None \<Rightarrow>
        (\<exists>w1. mw_rest w1 = mw_rest (sc_world st) \<and> mw_now w1 = mw_now (sc_world st) \<and>
           fst (TryWithLock mem_env s key fn st) =
             (True, case fst (fn w1) of Returned err \<Rightarrow> Returned (map_option FnError err)
                    | Panicked \<Rightarrow> Panicked) \<and>
           mw_rest (sc_world (snd (TryWithLock mem_env s key fn st))) = mw_rest (snd (fn w1))) \<and>
        mem_holder (sc_world (snd (TryWithLock mem_env s key fn st))) key = None \<and>
        sc_releaseFailures (snd (TryWithLock mem_env s key fn st)) = sc_releaseFailures st)"
proof (cases "mem_holder (sc_world st) key")
  case (Some tok)
  then have "\<not> free (mw_now (sc_world st)) (mw_locker (sc_world st)) key"
    by (metis mem_holder_free option.distinct(1))
  then obtain l where a: "mem_acquire key (sl_ttl s) (sc_world st) =
      (Inl ErrLockNotAcquired, (sc_world st)\<lparr>mw_locker := l\<rparr>)"
    using assms by (auto simp: mem_acquire_def Acquire_cases)
  with ml.acquire_refused [OF assms(3) a] Some show ?thesis
    by (simp add: TryWithLock_def mem_env_def)
next
  case None
  let ?w = "sc_world st"
  obtain h w1 where a: "mem_acquire key (sl_ttl s) ?w = (Inr h, w1)"
    using ml.acquire_free [OF assms(3,1,2) None] by blast
  from None have "free (mw_now ?w) (mw_locker ?w) key" by (simp add: mem_holder_free)
  then have w1: "mw_rest w1 = mw_rest ?w" "mw_now w1 = mw_now ?w"
    and own: "owner (mw_locker w1) key = Some \<lparr>h_expires = mw_now ?w + sl_ttl s, h_token = lk_token h\<rparr>"
    and h: "lk_key h = key"
    using a assms by (auto simp: mem_acquire_def Acquire_cases owner_def)
  have inv: "locker_inv (mw_locker w1)" using ml.acquire_keeps [OF assms(3), of key "sl_ttl s"] a by simp
  obtain out w2 where f: "fn w1 = (out, w2)" by fastforce
  with fn [of w1] w1 own h inv have w2: "locker_inv (mw_locker w2)" "mem_holder w2 (lk_key h) = Some (lk_token h)"
    by (simp_all add: mem_holder_def)
  let ?st1 = "st\<lparr>sc_world := w1, sc_acquires := sc_acquires st + 1\<rparr>"
  note run = ml.run_clean [of mem_env fn ?st1 out w2 h, OF _ _ _ w2]
  have "mw_rest (sc_world (snd (run_scoped mem_env h fn ?st1))) = mw_rest w2"
    using f by (auto simp: run_scoped_def mem_env_def mem_release_def split: prod.split option.split)
  with run a f None w1 h show ?thesis
    by (auto simp: TryWithLock_def mem_env_def split: prod.split intro!: exI [of _ w1])
qed

theorem TryWithLock_runs_or_reports_witness:
  "fst (TryWithLock mem_env
      \<lparr>sl_ttl = 30, sl_pollInterval = 1, sl_maxPollInterval = 4, sl_pollBackoff = 2\<rparr>
      ''k'' (\<lambda>w. (Returned (Some ''failed''), w\<lparr>mw_now := mw_now w + 20\<rparr>))
      \<lparr>sc_world = \<lparr>mw_now = 10, mw_locker = NewLocker, mw_ids = (\<lambda>n. replicate n CHR ''x''),
         mw_issued = 0, mw_rest = ()\<rparr>, sc_acquires = 0, sc_contended = 0, sc_errors = 0, sc_releaseFailures = 0\<rparr>)
     = (True, Returned (Some (FnError ''failed'')))"
proof -
  let ?s = "\<lparr>sl_ttl = 30, sl_pollInterval = 1, sl_maxPollInterval = 4, sl_pollBackoff = 2\<rparr>"
  let ?fn = "\<lambda>w :: unit mem_world. (Returned (Some ''failed''), w\<lparr>mw_now := mw_now w + 20\<rparr>)"
  let ?st = "\<lparr>sc_world = \<lparr>mw_now = 10, mw_locker = NewLocker, mw_ids = (\<lambda>n. replicate n CHR ''x''),
         mw_issued = 0, mw_rest = ()\<rparr>, sc_acquires = 0, sc_contended = 0, sc_errors = 0, sc_releaseFailures = 0\<rparr>"
  have "mem_holder (sc_world ?st) ''k'' = None"
    by (simp add: mem_holder_def owner_def NewLocker_def)
  with TryWithLock_runs_or_reports [of "''k''" ?s ?st ?fn] show ?thesis by simp
qed

text \<open>Losing the lock is never silent. When the function outlives the lock's lifetime, the answer
  of \<^verbatim>\<open>run\<close> carries \<^verbatim>\<open>ErrLockNotHeld\<close> joined to the function's own error, the failure is
  counted, and whoever holds the key by then keeps it.\<close>

theorem run_reports_lost_lock:
  fixes st :: "'r mem_world scoped"
  assumes "fn (sc_world st) = (Returned err, w1)" and "locker_inv (mw_locker w1)"
    and "case owner (mw_locker w1) (lk_key h) of
           None \<Rightarrow> True | Some cur \<Rightarrow> h_token cur \<noteq> lk_token h \<or> h_expires cur < mw_now w1"
  shows "fst (run_scoped mem_env h fn st) =
      Returned (Join (map_option FnError err) (Some (ReleaseError ErrLockNotHeld))) \<and>
    sc_releaseFailures (snd (run_scoped mem_env h fn st)) = sc_releaseFailures st + 1 \<and>
    mem_holder (sc_world (snd (run_scoped mem_env h fn st))) k = mem_holder w1 k"
proof -
  from assms(3) have "not_held (mw_now w1) (lk_token h) (mget (l_held (mw_locker w1)) (lk_key h))"
    by (simp add: not_held_def owner_def split: option.splits)
  then show ?thesis
    using assms by (simp add: run_scoped_def mem_env_def mem_release_def Release_def release_lock_def)
qed

theorem run_reports_lost_lock_witness:
  "fst (run_scoped mem_env \<lparr>lk_key = ''k'', lk_token = ''t1'', lk_ttl = 30\<rparr>
      (\<lambda>w. (Returned (None :: string option), w\<lparr>mw_now := 100\<rparr>))
      \<lparr>sc_world = \<lparr>mw_now = 10, mw_locker = snd (Acquire 5 ''t1'' ''k'' 30 NewLocker), mw_ids = (\<lambda>n. replicate n CHR ''x''),
         mw_issued = 0, mw_rest = ()\<rparr>, sc_acquires = 0, sc_contended = 0, sc_errors = 0, sc_releaseFailures = 0\<rparr>)
     = Returned (Some (ReleaseError ErrLockNotHeld))"
proof -
  let ?st = "\<lparr>sc_world = \<lparr>mw_now = 10, mw_locker = snd (Acquire 5 ''t1'' ''k'' 30 NewLocker),
      mw_ids = (\<lambda>n. replicate n CHR ''x''), mw_issued = 0, mw_rest = ()\<rparr>,
      sc_acquires = 0, sc_contended = 0, sc_errors = 0, sc_releaseFailures = 0\<rparr>"
  let ?w1 = "(sc_world ?st)\<lparr>mw_now := 100\<rparr>"
  have "owner (mw_locker ?w1) ''k'' = Some \<lparr>h_expires = 35, h_token = ''t1''\<rparr>"
    by (simp add: owner_def Acquire_cases free_def NewLocker_def locker_inv_def sweep_held_def)
  moreover have "locker_inv (mw_locker ?w1)" by (simp add: Acquire_inv)
  ultimately show ?thesis
    using run_reports_lost_lock [of "\<lambda>w. (Returned (None :: string option), w\<lparr>mw_now := 100\<rparr>)" ?st None ?w1
        "\<lparr>lk_key = ''k'', lk_token = ''t1'', lk_ttl = 30\<rparr>" "''k''"]
    by (simp add: Join_def)
qed

end
