(* ===== verification/Idempotency.thy ===== *)
theory Idempotency
  imports Charset CacheMemory LockScoped
begin

text \<open>
  \<^verbatim>\<open>idempotency\<close>: running work at most once per key, over a record store and a scoped locker.

  A \<^verbatim>\<open>Manager\<close> holds only configuration; what it acts on is the state \<open>idem\<close>: the world (store,
  locker, clock and whatever the work touches), the two variables the claim's closure captures,
  and the counters. The store, the locker, the clock and the identifier source are the record
  \<open>idem_env\<close>, with the signatures of the interfaces: \<^verbatim>\<open>Get\<close> returns a pointer that may be nil, any
  call may fail, and \<^verbatim>\<open>WithLock\<close> takes the closure to run and may not return at all, which makes
  the operations below partial.
\<close>

subsection \<open>Records and errors\<close>

definition StateInFlight :: byte where
  "StateInFlight = 1"

definition StateCompleted :: byte where
  "StateCompleted = 2"

definition FailClosed :: byte where
  "FailClosed = 0"

definition FailOpen :: byte where
  "FailOpen = 1"

definition recordVersion :: int where
  "recordVersion = 1"

record 't Record =
  r_CreatedAt :: gotime
  r_Value :: "'t option"
  r_Fingerprint :: string
  r_ClaimID :: string
  r_Version :: int
  r_State :: byte

record 't Result =
  res_Value :: "'t option"
  res_Replayed :: bool

datatype idem_error =
    ErrKeyRequired
  | ErrKeyTooLong
  | ErrKeyInvalid
  | ErrEmptyFingerprint
  | ErrNilFunc
  | ErrNilStore
  | ErrNilLocker
  | ErrRecordableTypeMismatch
  | ErrInvalidTTL_idem
  | ErrFingerprintMismatch
  | ErrInFlight
  | ErrStoreUnavailable cache_error
  | StoreWriteError cache_error

text \<open>What \<^verbatim>\<open>Do\<close> returns as its error: one of the above, one that came through the lock, or the work's own.\<close>

datatype 'e do_error =
    Plain idem_error
  | FromLock "idem_error scoped_error"
  | WorkError 'e

subsection \<open>key.go\<close>

definition keyCharset :: cset where
  "keyCharset = VisibleASCII"

definition ValidateKey :: "string \<Rightarrow> int \<Rightarrow> idem_error option" where
  "ValidateKey key maxLength =
     (if key = [] then Some ErrKeyRequired
      else if maxLength > 0 \<and> int (length key) > maxLength then Some ErrKeyTooLong
      else if \<not> ContainsAll keyCharset key then Some ErrKeyInvalid
      else None)"

subsection \<open>options.go and the constructor\<close>

record 't managerOptions =
  mo_recordable :: "('t option \<Rightarrow> bool) option option"
  mo_keyPrefix :: "string option"
  mo_ttl :: duration
  mo_inFlightTTL :: duration
  mo_maxKeyLength :: int
  mo_storeFailurePolicy :: byte

type_synonym 't idem_option = "('t managerOptions \<Rightarrow> 't managerOptions) option"

definition WithTTL :: "duration \<Rightarrow> 't idem_option" where
  "WithTTL ttl = Some (\<lambda>cfg. if ttl > 0 then cfg\<lparr>mo_ttl := ttl\<rparr> else cfg)"

definition WithInFlightTTL :: "duration \<Rightarrow> 't idem_option" where
  "WithInFlightTTL ttl = Some (\<lambda>cfg. if ttl > 0 then cfg\<lparr>mo_inFlightTTL := ttl\<rparr> else cfg)"

definition WithMaxKeyLength :: "int \<Rightarrow> 't idem_option" where
  "WithMaxKeyLength maxLength =
     Some (\<lambda>cfg. if maxLength > 0 then cfg\<lparr>mo_maxKeyLength := maxLength\<rparr> else cfg)"

definition WithKeyPrefix :: "string \<Rightarrow> 't idem_option" where
  "WithKeyPrefix prefix = Some (\<lambda>cfg. cfg\<lparr>mo_keyPrefix := Some prefix\<rparr>)"

text \<open>
  A predicate is \<^const>\<open>None\<close> when nil and \<^term>\<open>Some None\<close> when it was built for another type,
  which the option cannot see.
\<close>

definition WithRecordable :: "('t option \<Rightarrow> bool) option option \<Rightarrow> 't idem_option" where
  "WithRecordable recordable =
     Some (\<lambda>cfg. if recordable \<noteq> None then cfg\<lparr>mo_recordable := recordable\<rparr> else cfg)"

definition WithStoreFailurePolicy :: "byte \<Rightarrow> 't idem_option" where
  "WithStoreFailurePolicy policy = Some (\<lambda>cfg. cfg\<lparr>mo_storeFailurePolicy := policy\<rparr>)"

record 't Manager =
  mg_recordable :: "'t option \<Rightarrow> bool"
  mg_keyPrefix :: string
  mg_ttl :: duration
  mg_inFlightTTL :: duration
  mg_maxKeyLength :: int
  mg_storeFailurePolicy :: byte

definition DefaultTTL :: duration where
  "DefaultTTL = 24 * Hour"

definition DefaultInFlightTTL :: duration where
  "DefaultInFlightTTL = 2 * Minute"

definition DefaultMaxKeyLength :: int where
  "DefaultMaxKeyLength = 255"

definition DefaultKeyPrefix :: string where
  "DefaultKeyPrefix = ''idempotency:''"

definition NewManager :: "bool \<Rightarrow> bool \<Rightarrow> 't idem_option list \<Rightarrow> idem_error + 't Manager" where
  "NewManager hasStore hasLocker opts =
     (if \<not> hasStore then Inl ErrNilStore
      else if \<not> hasLocker then Inl ErrNilLocker
      else
        (let o0 = \<lparr>mo_recordable = None, mo_keyPrefix = None, mo_ttl = DefaultTTL,
                   mo_inFlightTTL = DefaultInFlightTTL, mo_maxKeyLength = DefaultMaxKeyLength,
                   mo_storeFailurePolicy = FailClosed\<rparr>;
             cfg = foldl (\<lambda>cfg opt. case opt of None \<Rightarrow> cfg | Some f \<Rightarrow> f cfg) o0 opts;
             m = \<lparr>mg_recordable = (\<lambda>_. True),
                  mg_keyPrefix = (case mo_keyPrefix cfg of None \<Rightarrow> DefaultKeyPrefix | Some p \<Rightarrow> p),
                  mg_ttl = mo_ttl cfg, mg_inFlightTTL = mo_inFlightTTL cfg,
                  mg_maxKeyLength = mo_maxKeyLength cfg,
                  mg_storeFailurePolicy = mo_storeFailurePolicy cfg\<rparr>;
             finish = (\<lambda>m. if mg_ttl m \<le> 0 \<or> mg_inFlightTTL m \<le> 0 then Inl ErrInvalidTTL_idem else Inr m)
         in case mo_recordable cfg of
              None \<Rightarrow> finish m
            | Some None \<Rightarrow> Inl ErrRecordableTypeMismatch
            | Some (Some p) \<Rightarrow> finish (m\<lparr>mg_recordable := p\<rparr>)))"

type_synonym do_option = "(duration option \<Rightarrow> duration option) option"

definition WithCallTTL :: "duration \<Rightarrow> do_option" where
  "WithCallTTL ttl = Some (\<lambda>t. if ttl > 0 then Some ttl else t)"

definition newDoOptions :: "do_option list \<Rightarrow> duration option" where
  "newDoOptions opts = foldl (\<lambda>t opt. case opt of None \<Rightarrow> t | Some f \<Rightarrow> f t) None opts"

definition storeKey :: "'t Manager \<Rightarrow> string \<Rightarrow> string" where
  "storeKey m key = mg_keyPrefix m @ key"

definition lockKey :: "'t Manager \<Rightarrow> string \<Rightarrow> string" where
  "lockKey m key = mg_keyPrefix m @ ''lock:'' @ key"

subsection \<open>The state and the interfaces\<close>

record ('w, 't) idem =
  i_world :: 'w
  i_claimID :: string
  i_existing :: "'t Record option"
  i_requests :: "string list"
  i_claimsLost :: nat
  i_recordFailures :: nat
  i_storeErrors :: nat
  i_staleRecords :: nat

type_synonym ('w, 't) section_fn = "('w, 't) idem \<Rightarrow> idem_error outcome \<times> ('w, 't) idem"

record ('w, 't) idem_env =
  ie_get :: "string \<Rightarrow> 'w \<Rightarrow> (cache_error + 't Record option) \<times> 'w"
  ie_set :: "string \<Rightarrow> 't Record \<Rightarrow> duration \<Rightarrow> 'w \<Rightarrow> cache_error option \<times> 'w"
  ie_delete :: "string \<Rightarrow> 'w \<Rightarrow> cache_error option \<times> 'w"
  ie_now :: "'w \<Rightarrow> gotime"
  ie_newID :: "'w \<Rightarrow> string \<times> 'w"
  ie_withLock :: "string \<Rightarrow> ('w, 't) section_fn \<Rightarrow> ('w, 't) idem \<Rightarrow>
    (idem_error scoped_error outcome \<times> ('w, 't) idem) option"

datatype ('t, 'e) work = WorkReturned "'e + 't option" | WorkPanicked

datatype ('t, 'e) do_outcome = DoReturned "'e do_error + 't Result" | DoPanicked

definition count :: "string \<Rightarrow> ('w, 't) idem \<Rightarrow> ('w, 't) idem" where
  "count name st = st\<lparr>i_requests := i_requests st @ [name]\<rparr>"

subsection \<open>manager.go\<close>

definition load_record :: "('w, 't) idem_env \<Rightarrow> 't Manager \<Rightarrow> string \<Rightarrow> ('w, 't) idem \<Rightarrow>
    (idem_error + 't Record option) \<times> ('w, 't) idem" where
  "load_record env m key st =
     (case ie_get env key (i_world st) of
        (Inl err, w) \<Rightarrow>
          (let st1 = st\<lparr>i_world := w\<rparr>
           in if err = ErrNotFound then (Inr None, st1)
              else
                (let st2 = st1\<lparr>i_storeErrors := i_storeErrors st1 + 1\<rparr>
                 in if mg_storeFailurePolicy m = FailOpen then (Inr None, st2)
                    else (Inl (ErrStoreUnavailable err), st2)))
      | (Inr None, w) \<Rightarrow> (Inr None, st\<lparr>i_world := w\<rparr>)
      | (Inr (Some r), w) \<Rightarrow>
          (let st1 = st\<lparr>i_world := w\<rparr>
           in if r_Version r \<noteq> recordVersion
              then (Inr None, st1\<lparr>i_staleRecords := i_staleRecords st1 + 1\<rparr>)
              else (Inr (Some r), st1)))"

definition replay :: "'t Record \<Rightarrow> string \<Rightarrow> ('w, 't) idem \<Rightarrow> (idem_error + 't Result) \<times> ('w, 't) idem" where
  "replay r fingerprint st =
     (if r_Fingerprint r \<noteq> fingerprint then (Inl ErrFingerprintMismatch, count ''mismatch'' st)
      else if r_State r = StateCompleted
      then (Inr \<lparr>res_Value = r_Value r, res_Replayed = True\<rparr>, count ''replayed'' st)
      else if r_State r = StateInFlight then (Inl ErrInFlight, count ''in_flight'' st)
      else (Inl ErrInFlight, st\<lparr>i_staleRecords := i_staleRecords st + 1\<rparr>))"

definition stillOurs :: "('w, 't) idem_env \<Rightarrow> 't Manager \<Rightarrow> string \<Rightarrow> string \<Rightarrow> ('w, 't) idem \<Rightarrow>
    bool \<times> ('w, 't) idem" where
  "stillOurs env m key claimID st =
     (case load_record env m key st of
        (Inl err, st1) \<Rightarrow> (False, st1\<lparr>i_recordFailures := i_recordFailures st1 + 1\<rparr>)
      | (Inr None, st1) \<Rightarrow> (False, st1\<lparr>i_claimsLost := i_claimsLost st1 + 1\<rparr>)
      | (Inr (Some r), st1) \<Rightarrow>
          if r_ClaimID r \<noteq> claimID then (False, st1\<lparr>i_claimsLost := i_claimsLost st1 + 1\<rparr>)
          else (True, st1))"

text \<open>The closures run under the lock, and the calls that run them.\<close>

definition claim_section :: "('w, 't) idem_env \<Rightarrow> 't Manager \<Rightarrow> string \<Rightarrow> string \<Rightarrow> ('w, 't) section_fn" where
  "claim_section env m key fingerprint st =
     (case load_record env m key st of
        (Inl err, st1) \<Rightarrow> (Returned (Some err), st1)
      | (Inr (Some r), st1) \<Rightarrow> (Returned None, st1\<lparr>i_existing := Some r\<rparr>)
      | (Inr None, st1) \<Rightarrow>
          (case ie_newID env (i_world st1) of (cid, w) \<Rightarrow>
             (case ie_set env key
                \<lparr>r_CreatedAt = ie_now env w, r_Value = None, r_Fingerprint = fingerprint,
                 r_ClaimID = cid, r_Version = recordVersion, r_State = StateInFlight\<rparr>
                (mg_inFlightTTL m) w of
                (Some err, w') \<Rightarrow> (Returned (Some (StoreWriteError err)), st1\<lparr>i_world := w'\<rparr>)
              | (None, w') \<Rightarrow> (Returned None, st1\<lparr>i_world := w', i_claimID := cid\<rparr>))))"

definition claim :: "('w, 't) idem_env \<Rightarrow> 't Manager \<Rightarrow> string \<Rightarrow> string \<Rightarrow> ('w, 't) idem \<Rightarrow>
    ((idem_error scoped_error + string \<times> 't Record option) \<times> ('w, 't) idem) option" where
  "claim env m key fingerprint st =
     (case ie_withLock env (lockKey m key) (claim_section env m (storeKey m key) fingerprint)
             (st\<lparr>i_claimID := [], i_existing := None\<rparr>) of
        None \<Rightarrow> None
      | Some (Panicked, st1) \<Rightarrow> None
      | Some (Returned (Some err), st1) \<Rightarrow> Some (Inl err, st1)
      | Some (Returned None, st1) \<Rightarrow> Some (Inr (i_claimID st1, i_existing st1), st1))"

definition commit_section :: "('w, 't) idem_env \<Rightarrow> 't Manager \<Rightarrow> string \<Rightarrow> string \<Rightarrow> string \<Rightarrow>
    't option \<Rightarrow> duration \<Rightarrow> ('w, 't) section_fn" where
  "commit_section env m key claimID fingerprint v ttl st =
     (case stillOurs env m key claimID st of
        (False, st1) \<Rightarrow> (Returned None, st1)
      | (True, st1) \<Rightarrow>
          (case ie_set env key
             \<lparr>r_CreatedAt = ie_now env (i_world st1), r_Value = v, r_Fingerprint = fingerprint,
              r_ClaimID = claimID, r_Version = recordVersion, r_State = StateCompleted\<rparr> ttl (i_world st1) of
             (Some err, w) \<Rightarrow> (Returned (Some (StoreWriteError err)), st1\<lparr>i_world := w\<rparr>)
           | (None, w) \<Rightarrow> (Returned None, st1\<lparr>i_world := w\<rparr>)))"

definition commit :: "('w, 't) idem_env \<Rightarrow> 't Manager \<Rightarrow> string \<Rightarrow> string \<Rightarrow> string \<Rightarrow>
    't option \<Rightarrow> duration \<Rightarrow> ('w, 't) idem \<Rightarrow> ('w, 't) idem option" where
  "commit env m key claimID fingerprint v ttl st =
     (case ie_withLock env (lockKey m key)
             (commit_section env m (storeKey m key) claimID fingerprint v ttl) st of
        None \<Rightarrow> None
      | Some (Panicked, st1) \<Rightarrow> None
      | Some (Returned (Some err), st1) \<Rightarrow> Some (st1\<lparr>i_recordFailures := i_recordFailures st1 + 1\<rparr>)
      | Some (Returned None, st1) \<Rightarrow> Some st1)"

definition release_section :: "('w, 't) idem_env \<Rightarrow> 't Manager \<Rightarrow> string \<Rightarrow> string \<Rightarrow> ('w, 't) section_fn" where
  "release_section env m key claimID st =
     (case stillOurs env m key claimID st of
        (False, st1) \<Rightarrow> (Returned None, st1)
      | (True, st1) \<Rightarrow>
          (case ie_delete env key (i_world st1) of
             (Some err, w) \<Rightarrow> (Returned (Some (StoreWriteError err)), st1\<lparr>i_world := w\<rparr>)
           | (None, w) \<Rightarrow> (Returned None, st1\<lparr>i_world := w\<rparr>)))"

definition release_claim :: "('w, 't) idem_env \<Rightarrow> 't Manager \<Rightarrow> string \<Rightarrow> string \<Rightarrow> ('w, 't) idem \<Rightarrow>
    ('w, 't) idem option" where
  "release_claim env m key claimID st =
     (case ie_withLock env (lockKey m key) (release_section env m (storeKey m key) claimID) st of
        None \<Rightarrow> None
      | Some (Panicked, st1) \<Rightarrow> None
      | Some (Returned err, st1) \<Rightarrow> Some st1)"

definition invoke :: "('w, 't) idem_env \<Rightarrow> 't Manager \<Rightarrow> string \<Rightarrow> string \<Rightarrow>
    ('w \<Rightarrow> ('t, 'e) work \<times> 'w) \<Rightarrow> ('w, 't) idem \<Rightarrow> (('t, 'e) work \<times> ('w, 't) idem) option" where
  "invoke env m key claimID fn st =
     (case fn (i_world st) of
        (WorkPanicked, w) \<Rightarrow>
          (case release_claim env m key claimID (st\<lparr>i_world := w\<rparr>) of
             None \<Rightarrow> None | Some st1 \<Rightarrow> Some (WorkPanicked, st1))
      | (WorkReturned r, w) \<Rightarrow> Some (WorkReturned r, st\<lparr>i_world := w\<rparr>))"

definition Do :: "('w, 't) idem_env \<Rightarrow> 't Manager \<Rightarrow> string \<Rightarrow> string \<Rightarrow>
    ('w \<Rightarrow> ('t, 'e) work \<times> 'w) option \<Rightarrow> do_option list \<Rightarrow> ('w, 't) idem \<Rightarrow>
    (('t, 'e) do_outcome \<times> ('w, 't) idem) option" where
  "Do env m key fingerprint fn opts st =
     (let ttl = (case newDoOptions opts of None \<Rightarrow> mg_ttl m | Some t \<Rightarrow> t);
          answer = (\<lambda>(res, s). Some (DoReturned (case res of Inl err \<Rightarrow> Inl (Plain err) | Inr r \<Rightarrow> Inr r), s))
      in case ValidateKey key (mg_maxKeyLength m) of
           Some err \<Rightarrow> Some (DoReturned (Inl (Plain err)), st)
         | None \<Rightarrow>
        if fingerprint = [] then Some (DoReturned (Inl (Plain ErrEmptyFingerprint)), st)
        else case fn of
           None \<Rightarrow> Some (DoReturned (Inl (Plain ErrNilFunc)), st)
         | Some f \<Rightarrow>
        (case load_record env m (storeKey m key) st of
           (Inl err, st1) \<Rightarrow> Some (DoReturned (Inl (Plain err)), st1)
         | (Inr (Some r), st1) \<Rightarrow> answer (replay r fingerprint st1)
         | (Inr None, st1) \<Rightarrow>
        (case claim env m key fingerprint st1 of
           None \<Rightarrow> None
         | Some (Inl err, st2) \<Rightarrow> Some (DoReturned (Inl (FromLock err)), st2)
         | Some (Inr (claimID, Some r), st2) \<Rightarrow> answer (replay r fingerprint st2)
         | Some (Inr (claimID, None), st2) \<Rightarrow>
        (case invoke env m key claimID f st2 of
           None \<Rightarrow> None
         | Some (WorkPanicked, st3) \<Rightarrow> Some (DoPanicked, st3)
         | Some (WorkReturned (Inl err), st3) \<Rightarrow>
             (case release_claim env m key claimID st3 of
                None \<Rightarrow> None | Some st4 \<Rightarrow> Some (DoReturned (Inl (WorkError err)), st4))
         | Some (WorkReturned (Inr v), st3) \<Rightarrow>
             if \<not> mg_recordable m v
             then (case release_claim env m key claimID st3 of
                     None \<Rightarrow> None
                   | Some st4 \<Rightarrow> Some (DoReturned (Inr \<lparr>res_Value = v, res_Replayed = False\<rparr>), count ''executed'' st4))
             else (case commit env m key claimID fingerprint v ttl st3 of
                     None \<Rightarrow> None
                   | Some st4 \<Rightarrow> Some (DoReturned (Inr \<lparr>res_Value = v, res_Replayed = False\<rparr>), count ''executed'' st4))))))"

subsection \<open>What is in the store\<close>

text \<open>
  What the store answers for is a record with the instant at which it stops (0: never). A record
  is usable if it was written by this version; a claim is ours while its record is usable and
  carries our identifier. \<open>after_work\<close> is what the store holds after the work of a claim ended:
  the claim's record is replaced by the completed one, or removed, only while the claim is ours.
\<close>

type_synonym 't stored = "('t Record \<times> gotime) option"

definition usable :: "'t stored \<Rightarrow> 't Record option" where
  "usable r =
     (case r of None \<Rightarrow> None | Some x \<Rightarrow> if r_Version (fst x) = recordVersion then Some (fst x) else None)"

definition ours :: "string \<Rightarrow> 't stored \<Rightarrow> bool" where
  "ours cid r = (case usable r of None \<Rightarrow> False | Some x \<Rightarrow> r_ClaimID x = cid)"

definition claim_record :: "gotime \<Rightarrow> string \<Rightarrow> string \<Rightarrow> 't Record" where
  "claim_record t fp cid = \<lparr>r_CreatedAt = t, r_Value = None, r_Fingerprint = fp, r_ClaimID = cid,
     r_Version = recordVersion, r_State = StateInFlight\<rparr>"

definition completed_record :: "gotime \<Rightarrow> 't option \<Rightarrow> string \<Rightarrow> string \<Rightarrow> 't Record" where
  "completed_record t v fp cid = \<lparr>r_CreatedAt = t, r_Value = v, r_Fingerprint = fp, r_ClaimID = cid,
     r_Version = recordVersion, r_State = StateCompleted\<rparr>"

definition after_work :: "'t Manager \<Rightarrow> duration \<Rightarrow> string \<Rightarrow> string \<Rightarrow> string \<Rightarrow> gotime \<Rightarrow> ('t, 'e) work \<Rightarrow>
    (string \<Rightarrow> 't stored) \<Rightarrow> string \<Rightarrow> 't stored" where
  "after_work m ttl k fp cid t out v2 =
     (if \<not> ours cid (v2 k) then v2
      else case out of
        WorkReturned (Inr v) \<Rightarrow>
          if mg_recordable m v then v2(k \<mapsto> (completed_record t v fp cid, t + ttl)) else v2(k := None)
      | _ \<Rightarrow> v2(k := None))"

definition result_of_work :: "('t, 'e) work \<Rightarrow> ('t, 'e) do_outcome" where
  "result_of_work out =
     (case out of
        WorkPanicked \<Rightarrow> DoPanicked
      | WorkReturned (Inl err) \<Rightarrow> DoReturned (Inl (WorkError err))
      | WorkReturned (Inr v) \<Rightarrow> DoReturned (Inr \<lparr>res_Value = v, res_Replayed = False\<rparr>))"

lemma ours_claim_record [simp]: "ours cid (Some (claim_record t fp cid', d)) \<longleftrightarrow> cid' = cid"
  by (simp add: ours_def usable_def claim_record_def)

lemma usable_records [simp]:
  "usable None = None" "usable (Some (claim_record t fp cid, d)) = Some (claim_record t fp cid)"
  "usable (Some (completed_record t v fp cid, d)) = Some (completed_record t v fp cid)"
  by (simp_all add: usable_def claim_record_def completed_record_def)

subsection \<open>What the manager relies on\<close>

text \<open>
  The laws of a reliable store and lock. \<open>view\<close> is what the store answers for at the moment
  \<open>now\<close>, \<open>holder\<close> who holds which lock, and \<open>issued\<close> the identifiers handed out so far. Only the
  work itself takes time. The law of \<open>ie_withLock\<close> is the promise of the interface: on a free
  lock the closure runs once, its error is the answer, and the lock is free afterwards.
\<close>

definition steady :: "('w \<Rightarrow> bool) \<Rightarrow> ('w \<Rightarrow> gotime) \<Rightarrow> ('w \<Rightarrow> string set) \<Rightarrow> 'w \<Rightarrow> 'w \<Rightarrow> bool" where
  "steady ok now issued w w' \<longleftrightarrow> ok w' \<and> now w' = now w \<and> issued w \<subseteq> issued w'"

lemma steady_trans:
  "steady ok now issued w w' \<Longrightarrow> steady ok now issued w' w'' \<Longrightarrow> steady ok now issued w w''"
  by (auto simp: steady_def)

locale idem_contract =
  fixes env :: "('w, 't) idem_env"
    and view :: "'w \<Rightarrow> string \<Rightarrow> 't stored"
    and holder :: "'w \<Rightarrow> string \<Rightarrow> string option"
    and now :: "'w \<Rightarrow> gotime"
    and issued :: "'w \<Rightarrow> string set"
    and ok :: "'w \<Rightarrow> bool"
  assumes now_law: "ie_now env = now"
    and get_law: "ok w \<Longrightarrow> \<exists>w'. ie_get env k w =
        (case view w k of None \<Rightarrow> Inl ErrNotFound | Some x \<Rightarrow> Inr (Some (fst x)), w') \<and>
        steady ok now issued w w' \<and> view w' = view w \<and> holder w' = holder w"
    and set_law: "ok w \<Longrightarrow> 0 < d \<Longrightarrow> \<exists>w'. ie_set env k r d w = (None, w') \<and>
        steady ok now issued w w' \<and> view w' = (view w)(k \<mapsto> (r, now w + d)) \<and> holder w' = holder w"
    and delete_law: "ok w \<Longrightarrow> \<exists>w'. ie_delete env k w = (None, w') \<and>
        steady ok now issued w w' \<and> view w' = (view w)(k := None) \<and> holder w' = holder w"
    and newID_law: "ok w \<Longrightarrow> \<exists>cid w'. ie_newID env w = (cid, w') \<and> cid \<notin> issued w \<and> cid \<in> issued w' \<and>
        steady ok now issued w w' \<and> view w' = view w \<and> holder w' = holder w"
    and withLock_law: "ok (i_world st) \<Longrightarrow> k \<noteq> [] \<Longrightarrow> holder (i_world st) k = None \<Longrightarrow>
        \<exists>w1. steady ok now issued (i_world st) w1 \<and> view w1 = view (i_world st) \<and>
          (\<forall>f err st2. f (st\<lparr>i_world := w1\<rparr>) = (Returned err, st2) \<and> ok (i_world st2) \<and>
             now (i_world st2) = now w1 \<and> holder (i_world st2) = holder w1 \<longrightarrow>
             (\<exists>w3. ie_withLock env k f st = Some (Returned (map_option FnError err), st2\<lparr>i_world := w3\<rparr>) \<and>
                steady ok now issued (i_world st2) w3 \<and> view w3 = view (i_world st2) \<and>
                holder w3 = holder (i_world st)))"
begin

definition sound :: "('w, 't) idem \<Rightarrow> ('w, 't) idem \<Rightarrow> bool" where
  "sound st st' \<longleftrightarrow> steady ok now issued (i_world st) (i_world st') \<and> holder (i_world st') = holder (i_world st)"

lemma sound_trans: "sound st st' \<Longrightarrow> sound st' st'' \<Longrightarrow> sound st st''"
  using steady_trans by (fastforce simp: sound_def)

lemma soundD:
  "sound st st' \<Longrightarrow> ok (i_world st') \<and> now (i_world st') = now (i_world st) \<and>
     holder (i_world st') = holder (i_world st) \<and> issued (i_world st) \<subseteq> issued (i_world st')"
  by (simp add: sound_def steady_def)

lemma load_spec:
  assumes "ok (i_world st)"
  shows "\<exists>st'. load_record env m k st = (Inr (usable (view (i_world st) k)), st') \<and>
    sound st st' \<and> view (i_world st') = view (i_world st) \<and> i_existing st' = i_existing st \<and>
    i_claimID st' = i_claimID st \<and> i_requests st' = i_requests st"
proof -
  obtain w' where "ie_get env k (i_world st) =
      (case view (i_world st) k of None \<Rightarrow> Inl ErrNotFound | Some x \<Rightarrow> Inr (Some (fst x)), w')"
    "steady ok now issued (i_world st) w'" "view w' = view (i_world st)" "holder w' = holder (i_world st)"
    using get_law [OF assms] by blast
  then show ?thesis
    by (auto simp: load_record_def usable_def sound_def Let_def split: option.split)
qed

lemma stillOurs_spec:
  assumes "ok (i_world st)"
  shows "\<exists>st'. stillOurs env m k cid st = (ours cid (view (i_world st) k), st') \<and>
    sound st st' \<and> view (i_world st') = view (i_world st) \<and> i_requests st' = i_requests st"
proof -
  obtain st' where l: "load_record env m k st = (Inr (usable (view (i_world st) k)), st')" "sound st st'"
    "view (i_world st') = view (i_world st)" "i_requests st' = i_requests st"
    using load_spec [OF assms] by blast
  then show ?thesis
    by (cases "usable (view (i_world st) k)") (auto simp: stillOurs_def ours_def sound_def)
qed

lemma claim_section_spec:
  assumes "ok (i_world st)" and "0 < mg_inFlightTTL m"
  shows "\<exists>st'. claim_section env m k fp st = (Returned None, st') \<and> sound st st' \<and>
    i_requests st' = i_requests st \<and>
    (case usable (view (i_world st) k) of
       Some r \<Rightarrow> i_existing st' = Some r \<and> view (i_world st') = view (i_world st)
     | None \<Rightarrow> i_existing st' = i_existing st \<and>
         i_claimID st' \<notin> issued (i_world st) \<and> i_claimID st' \<in> issued (i_world st') \<and>
         view (i_world st') = (view (i_world st))(k \<mapsto>
           (claim_record (now (i_world st)) fp (i_claimID st'), now (i_world st) + mg_inFlightTTL m)))"
proof -
  obtain st1 where l: "load_record env m k st = (Inr (usable (view (i_world st) k)), st1)" "sound st st1"
    "view (i_world st1) = view (i_world st)" "i_existing st1 = i_existing st" "i_requests st1 = i_requests st"
    using load_spec [OF assms(1)] by blast
  show ?thesis
  proof (cases "usable (view (i_world st) k)")
    case (Some r)
    with l show ?thesis by (simp add: claim_section_def sound_def)
  next
    case None
    note s1 = soundD [OF l(2)]
    obtain cid w where n: "ie_newID env (i_world st1) = (cid, w)" "steady ok now issued (i_world st1) w"
      "view w = view (i_world st1)" "holder w = holder (i_world st1)"
      "cid \<notin> issued (i_world st1)" "cid \<in> issued w"
      using newID_law s1 by blast
    then have w: "ok w" "now w = now (i_world st)" using s1 by (auto simp: steady_def)
    obtain w' where w': "ie_set env k (claim_record (now (i_world st)) fp cid) (mg_inFlightTTL m) w = (None, w')"
      "steady ok now issued w w'" "view w' = (view w)(k \<mapsto> (claim_record (now (i_world st)) fp cid,
         now (i_world st) + mg_inFlightTTL m))" "holder w' = holder w"
      using set_law [OF w(1) assms(2)] w(2) by metis
    have "steady ok now issued (i_world st) w'"
      using steady_trans [OF steady_trans [OF _ n(2)] w'(2)] l(2) by (simp add: sound_def)
    moreover have "cid \<notin> issued (i_world st)" "cid \<in> issued w'"
      using n s1 w'(2) by (auto simp: steady_def)
    ultimately show ?thesis
      using None l n w w' by (auto simp: claim_section_def sound_def now_law claim_record_def)
  qed
qed

lemma commit_section_spec:
  assumes "ok (i_world st)" and "0 < ttl"
  shows "\<exists>st'. commit_section env m k cid fp v ttl st = (Returned None, st') \<and> sound st st' \<and>
    i_requests st' = i_requests st \<and>
    view (i_world st') =
      (if ours cid (view (i_world st) k)
       then (view (i_world st))(k \<mapsto> (completed_record (now (i_world st)) v fp cid, now (i_world st) + ttl))
       else view (i_world st))"
proof -
  obtain st1 where s: "stillOurs env m k cid st = (ours cid (view (i_world st) k), st1)" "sound st st1"
    "view (i_world st1) = view (i_world st)" "i_requests st1 = i_requests st"
    using stillOurs_spec [OF assms(1)] by blast
  let ?r = "completed_record (now (i_world st)) v fp cid"
  note s1 = soundD [OF s(2)]
  then obtain w' where w': "ie_set env k ?r ttl (i_world st1) = (None, w')" "steady ok now issued (i_world st1) w'"
    "view w' = (view (i_world st1))(k \<mapsto> (?r, now (i_world st) + ttl))" "holder w' = holder (i_world st1)"
    using set_law [OF _ assms(2)] by metis
  with s s1 show ?thesis
    using steady_trans [OF _ w'(2)]
    by (cases "ours cid (view (i_world st) k)")
       (auto simp: commit_section_def sound_def now_law completed_record_def)
qed

lemma release_section_spec:
  assumes "ok (i_world st)"
  shows "\<exists>st'. release_section env m k cid st = (Returned None, st') \<and> sound st st' \<and>
    i_requests st' = i_requests st \<and>
    view (i_world st') =
      (if ours cid (view (i_world st) k) then (view (i_world st))(k := None) else view (i_world st))"
proof -
  obtain st1 where s: "stillOurs env m k cid st = (ours cid (view (i_world st) k), st1)" "sound st st1"
    "view (i_world st1) = view (i_world st)" "i_requests st1 = i_requests st"
    using stillOurs_spec [OF assms(1)] by blast
  from soundD [OF s(2)] have "ok (i_world st1)" by simp
  then obtain w' where w': "ie_delete env k (i_world st1) = (None, w')" "steady ok now issued (i_world st1) w'"
    "view w' = (view (i_world st1))(k := None)" "holder w' = holder (i_world st1)"
    using delete_law by blast
  with s show ?thesis
    using steady_trans [OF _ w'(2)]
    by (cases "ours cid (view (i_world st) k)") (auto simp: release_section_def sound_def)
qed

text \<open>Running a well-behaved closure under the lock.\<close>

lemma locked_section:
  assumes "ok (i_world st)" and "k \<noteq> []" and "holder (i_world st) k = None"
    and spec: "\<And>st1. ok (i_world st1) \<Longrightarrow> view (i_world st1) = view (i_world st) \<Longrightarrow>
      now (i_world st1) = now (i_world st) \<Longrightarrow> issued (i_world st) \<subseteq> issued (i_world st1) \<Longrightarrow>
      i_existing st1 = i_existing st \<Longrightarrow> i_requests st1 = i_requests st \<Longrightarrow>
      \<exists>st2. f st1 = (Returned None, st2) \<and> sound st1 st2 \<and> Q st2"
    and world: "\<And>st2 w. Q st2 \<Longrightarrow> view w = view (i_world st2) \<Longrightarrow>
      issued (i_world st2) \<subseteq> issued w \<Longrightarrow> Q (st2\<lparr>i_world := w\<rparr>)"
  shows "\<exists>st'. ie_withLock env k f st = Some (Returned None, st') \<and> sound st st' \<and> Q st'"
proof -
  obtain w1 where w1: "steady ok now issued (i_world st) w1" "view w1 = view (i_world st)"
    and run: "\<And>f err st2. f (st\<lparr>i_world := w1\<rparr>) = (Returned err, st2) \<Longrightarrow> ok (i_world st2) \<Longrightarrow>
      now (i_world st2) = now w1 \<Longrightarrow> holder (i_world st2) = holder w1 \<Longrightarrow>
      \<exists>w3. ie_withLock env k f st = Some (Returned (map_option FnError err), st2\<lparr>i_world := w3\<rparr>) \<and>
        steady ok now issued (i_world st2) w3 \<and> view w3 = view (i_world st2) \<and>
        holder w3 = holder (i_world st)"
    using withLock_law [OF assms(1-3)] by blast
  obtain st2 where st2: "f (st\<lparr>i_world := w1\<rparr>) = (Returned None, st2)" "sound (st\<lparr>i_world := w1\<rparr>) st2" "Q st2"
    using spec [of "st\<lparr>i_world := w1\<rparr>"] w1 by (auto simp: steady_def)
  then obtain w3 where w3: "ie_withLock env k f st = Some (Returned None, st2\<lparr>i_world := w3\<rparr>)"
    "steady ok now issued (i_world st2) w3" "view w3 = view (i_world st2)" "holder w3 = holder (i_world st)"
    using run [of f None st2, OF st2(1)] soundD [OF st2(2)] by auto
  have "steady ok now issued (i_world st) w3"
    using steady_trans [OF steady_trans [OF w1(1)] w3(2)] st2(2) by (simp add: sound_def)
  moreover have "Q (st2\<lparr>i_world := w3\<rparr>)" using world [OF st2(3) w3(3)] w3(2) by (simp add: steady_def)
  ultimately show ?thesis using w3 by (intro exI [of _ "st2\<lparr>i_world := w3\<rparr>"]) (simp add: sound_def)
qed

lemma lockKey_not_empty [simp]: "lockKey m key \<noteq> []"
  by (simp add: lockKey_def)

lemma claim_spec:
  assumes "ok (i_world st)" and "0 < mg_inFlightTTL m" and "holder (i_world st) (lockKey m key) = None"
  shows "\<exists>cid st'. claim env m key fp st = Some (Inr (cid, usable (view (i_world st) (storeKey m key))), st') \<and>
    sound st st' \<and> i_requests st' = i_requests st \<and>
    (if usable (view (i_world st) (storeKey m key)) = None
     then cid \<notin> issued (i_world st) \<and> cid \<in> issued (i_world st') \<and>
       view (i_world st') = (view (i_world st))(storeKey m key \<mapsto>
         (claim_record (now (i_world st)) fp cid, now (i_world st) + mg_inFlightTTL m))
     else view (i_world st') = view (i_world st))"
proof -
  let ?st = "st\<lparr>i_claimID := [], i_existing := None\<rparr>"
  let ?k = "storeKey m key"
  let ?Q = "\<lambda>st2. i_requests st2 = i_requests st \<and>
    i_existing st2 = usable (view (i_world st) ?k) \<and>
    (if usable (view (i_world st) ?k) = None
     then i_claimID st2 \<notin> issued (i_world st) \<and> i_claimID st2 \<in> issued (i_world st2) \<and>
       view (i_world st2) = (view (i_world st))(?k \<mapsto>
         (claim_record (now (i_world st)) fp (i_claimID st2), now (i_world st) + mg_inFlightTTL m))
     else view (i_world st2) = view (i_world st))"
  have "\<exists>st'. ie_withLock env (lockKey m key) (claim_section env m ?k fp) ?st = Some (Returned None, st') \<and>
      sound ?st st' \<and> ?Q st'"
  proof (rule locked_section, goal_cases)
    case (4 st1)
    with claim_section_spec [OF 4(1) assms(2), of ?k fp] show ?case
      by (auto split: option.splits)
  qed (use assms in \<open>auto split: if_splits\<close>)
  then obtain st' where "ie_withLock env (lockKey m key) (claim_section env m ?k fp) ?st = Some (Returned None, st')"
    "sound ?st st'" "?Q st'" by blast
  then show ?thesis
    by (intro exI [of _ "i_claimID st'"] exI [of _ st']) (simp add: claim_def sound_def)
qed

lemma commit_spec:
  assumes "ok (i_world st)" and "0 < ttl" and "holder (i_world st) (lockKey m key) = None"
  shows "\<exists>st'. commit env m key cid fp v ttl st = Some st' \<and> sound st st' \<and> i_requests st' = i_requests st \<and>
    view (i_world st') =
      (if ours cid (view (i_world st) (storeKey m key))
       then (view (i_world st))(storeKey m key \<mapsto>
         (completed_record (now (i_world st)) v fp cid, now (i_world st) + ttl))
       else view (i_world st))"
proof -
  let ?k = "storeKey m key"
  let ?Q = "\<lambda>st2. i_requests st2 = i_requests st \<and> view (i_world st2) =
    (if ours cid (view (i_world st) ?k)
     then (view (i_world st))(?k \<mapsto> (completed_record (now (i_world st)) v fp cid, now (i_world st) + ttl))
     else view (i_world st))"
  have "\<exists>st'. ie_withLock env (lockKey m key) (commit_section env m ?k cid fp v ttl) st =
      Some (Returned None, st') \<and> sound st st' \<and> ?Q st'"
  proof (rule locked_section, goal_cases)
    case (4 st1)
    with commit_section_spec [OF 4(1) assms(2), of m ?k cid fp v] show ?case by auto
  qed (use assms in auto)
  then show ?thesis by (auto simp: commit_def)
qed

lemma release_spec:
  assumes "ok (i_world st)" and "holder (i_world st) (lockKey m key) = None"
  shows "\<exists>st'. release_claim env m key cid st = Some st' \<and> sound st st' \<and> i_requests st' = i_requests st \<and>
    view (i_world st') =
      (if ours cid (view (i_world st) (storeKey m key))
       then (view (i_world st))(storeKey m key := None) else view (i_world st))"
proof -
  let ?k = "storeKey m key"
  let ?Q = "\<lambda>st2. i_requests st2 = i_requests st \<and> view (i_world st2) =
    (if ours cid (view (i_world st) ?k) then (view (i_world st))(?k := None) else view (i_world st))"
  have "\<exists>st'. ie_withLock env (lockKey m key) (release_section env m ?k cid) st =
      Some (Returned None, st') \<and> sound st st' \<and> ?Q st'"
  proof (rule locked_section, goal_cases)
    case (4 st1)
    with release_section_spec [OF 4(1), of m ?k cid] show ?case by auto
  qed (use assms in auto)
  then show ?thesis by (auto simp: release_claim_def)
qed

text \<open>A key in use: the stored record answers, and nothing runs.\<close>

lemma do_answers_from_record:
  assumes "ok (i_world st)" and "ValidateKey key (mg_maxKeyLength m) = None" and "fp \<noteq> []"
    and "usable (view (i_world st) (storeKey m key)) = Some r"
  shows "\<exists>st'. sound st st' \<and> view (i_world st') = view (i_world st) \<and>
    (\<forall>f opts. Do env m key fp (Some f) opts st =
      Some (DoReturned (if r_Fingerprint r \<noteq> fp then Inl (Plain ErrFingerprintMismatch)
        else if r_State r = StateCompleted then Inr \<lparr>res_Value = r_Value r, res_Replayed = True\<rparr>
        else Inl (Plain ErrInFlight)), st'))"
proof -
  obtain st1 where "load_record env m (storeKey m key) st = (Inr (Some r), st1)" "sound st st1"
    "view (i_world st1) = view (i_world st)"
    using load_spec [OF assms(1)] assms(4) by metis
  then show ?thesis
    using assms(2,3)
    by (intro exI [of _ "snd (replay r fp st1)"])
       (simp add: Do_def replay_def sound_def count_def Let_def)
qed

text \<open>
  A free key: the claim is in the store while the work runs, and what the store holds
  afterwards depends on the outcome and on whether the claim is still there.
\<close>

lemma do_runs_work:
  assumes "ok (i_world st)" and "ValidateKey key (mg_maxKeyLength m) = None" and "fp \<noteq> []"
    and "0 < mg_inFlightTTL m" and ttl: "0 < (case newDoOptions opts of None \<Rightarrow> mg_ttl m | Some t \<Rightarrow> t)"
    and "usable (view (i_world st) (storeKey m key)) = None"
    and "holder (i_world st) (lockKey m key) = None"
    and work: "\<And>w. ok w \<Longrightarrow> holder w (lockKey m key) = None \<Longrightarrow>
      ok (snd (f w)) \<and> holder (snd (f w)) (lockKey m key) = None"
  shows "\<exists>w1 cid st'.
    view w1 = (view (i_world st))(storeKey m key \<mapsto>
      (claim_record (now (i_world st)) fp cid, now (i_world st) + mg_inFlightTTL m)) \<and>
    ok w1 \<and> now w1 = now (i_world st) \<and> holder w1 = holder (i_world st) \<and>
    Do env m key fp (Some f) opts st = Some (result_of_work (fst (f w1)), st') \<and>
    ok (i_world st') \<and> holder (i_world st') = holder (snd (f w1)) \<and> now (i_world st') = now (snd (f w1)) \<and>
    view (i_world st') = after_work m (case newDoOptions opts of None \<Rightarrow> mg_ttl m | Some t \<Rightarrow> t)
      (storeKey m key) fp cid (now (snd (f w1))) (fst (f w1)) (view (snd (f w1)))"
proof -
  let ?k = "storeKey m key"
  obtain st1 where l: "load_record env m ?k st = (Inr None, st1)" "sound st st1"
    "view (i_world st1) = view (i_world st)"
    using load_spec [OF assms(1)] assms(6) by metis
  note s1 = soundD [OF l(2)]
  obtain cid st2 where c: "claim env m key fp st1 = Some (Inr (cid, None), st2)" "sound st1 st2"
    "view (i_world st2) = (view (i_world st))(?k \<mapsto>
       (claim_record (now (i_world st)) fp cid, now (i_world st) + mg_inFlightTTL m))"
    using claim_spec [of st1 m key fp] s1 l(3) assms(4,6,7) by auto
  note s2 = soundD [OF c(2)]
  obtain out w2 where f: "f (i_world st2) = (out, w2)" by fastforce
  have w2: "ok w2" "holder w2 (lockKey m key) = None"
    using work [of "i_world st2"] f s1 s2 assms(7) by auto
  let ?st3 = "st2\<lparr>i_world := w2\<rparr>"
  have e3: "i_world ?st3 = w2" by simp
  have s3: "ok (i_world ?st3)" "holder (i_world ?st3) (lockKey m key) = None" using w2 by auto
  obtain st4 where r: "release_claim env m key cid ?st3 = Some st4" "sound ?st3 st4"
    "view (i_world st4) = (if ours cid (view w2 ?k) then (view w2)(?k := None) else view w2)"
    using release_spec [OF s3, of cid] unfolding e3 by blast
  show ?thesis
  proof (cases "\<exists>v. out = WorkReturned (Inr v) \<and> mg_recordable m v")
    case True
    then obtain v where v: "out = WorkReturned (Inr v)" "mg_recordable m v" by blast
    obtain st5 where "commit env m key cid fp v (case newDoOptions opts of None \<Rightarrow> mg_ttl m | Some t \<Rightarrow> t) ?st3 = Some st5"
      "sound ?st3 st5" "view (i_world st5) = (if ours cid (view w2 ?k)
         then (view w2)(?k \<mapsto> (completed_record (now w2) v fp cid,
           now w2 + (case newDoOptions opts of None \<Rightarrow> mg_ttl m | Some t \<Rightarrow> t))) else view w2)"
      using commit_spec [OF s3(1) ttl s3(2), of cid fp v] unfolding e3 by blast
    with v l c f assms(2,3) s1 s2 show ?thesis
      by (intro exI [of _ "i_world st2"] exI [of _ cid] exI [of _ "count ''executed'' st5"])
         (simp add: Do_def invoke_def Let_def result_of_work_def after_work_def soundD count_def)
  next
    case False
    with r l c f assms(2,3) s1 s2 show ?thesis
      by (intro exI [of _ "i_world st2"] exI [of _ cid]
            exI [of _ "case out of WorkReturned (Inr v) \<Rightarrow> count ''executed'' st4 | _ \<Rightarrow> st4"])
         (auto simp: Do_def invoke_def Let_def result_of_work_def after_work_def count_def
            dest: soundD split: work.splits sum.splits)
  qed
qed

end

subsection \<open>The in-memory store and lock meet the contract\<close>

text \<open>The polling locker as the manager's locker: its world is the manager's state.\<close>

definition lift_lock_env :: "('w, 'h) lock_env \<Rightarrow> (('w, 't) idem, 'h) lock_env" where
  "lift_lock_env e =
     \<lparr>le_acquire = (\<lambda>k ttl st. case le_acquire e k ttl (i_world st) of (r, w) \<Rightarrow> (r, st\<lparr>i_world := w\<rparr>)),
      le_release = (\<lambda>h st. case le_release e h (i_world st) of (r, w) \<Rightarrow> (r, st\<lparr>i_world := w\<rparr>)),
      le_sleep = (\<lambda>d st. case le_sleep e d (i_world st) of (r, w) \<Rightarrow> (r, st\<lparr>i_world := w\<rparr>)),
      le_rand = (\<lambda>st. case le_rand e (i_world st) of (r, w) \<Rightarrow> (r, st\<lparr>i_world := w\<rparr>)),
      le_scale = le_scale e\<rparr>"

definition scoped_withLock :: "('w, 'h) lock_env \<Rightarrow> PollingScopedLocker \<Rightarrow> string \<Rightarrow> ('w, 't) section_fn \<Rightarrow>
    ('w, 't) idem \<Rightarrow> (idem_error scoped_error outcome \<times> ('w, 't) idem) option" where
  "scoped_withLock e s k f st =
     map_option (map_prod id sc_world)
       (WithLock (lift_lock_env e) s k f
          \<lparr>sc_world = st, sc_acquires = 0, sc_contended = 0, sc_errors = 0, sc_releaseFailures = 0\<rparr>)"

type_synonym 't mem_idem = "'t Record cache mem_world"

definition default_scoped :: PollingScopedLocker where
  "default_scoped = \<lparr>sl_ttl = DefaultScopedLockTTL, sl_pollInterval = DefaultScopedPollInterval,
     sl_maxPollInterval = DefaultScopedMaxPollInterval, sl_pollBackoff = DefaultScopedPollBackoff\<rparr>"

definition mem_idem_env :: "('t mem_idem, 't) idem_env" where
  "mem_idem_env =
     \<lparr>ie_get = (\<lambda>k w. case Get (\<lambda>_. mw_now w) None False k (mw_rest w) of
        (r, c) \<Rightarrow> (map_sum id Some r, w\<lparr>mw_rest := c\<rparr>)),
      ie_set = (\<lambda>k r d w. (None, w\<lparr>mw_rest := Set (mw_now w) k r [WithExpiry d] (mw_rest w)\<rparr>)),
      ie_delete = (\<lambda>k w. (None, w\<lparr>mw_rest := Delete k (mw_rest w)\<rparr>)),
      ie_now = mw_now,
      ie_newID = (\<lambda>w. (mw_ids w (mw_issued w), w\<lparr>mw_issued := mw_issued w + 1\<rparr>)),
      ie_withLock = scoped_withLock mem_env default_scoped\<rparr>"

definition unexpired :: "gotime \<Rightarrow> 't entry option \<Rightarrow> ('t \<times> gotime) option" where
  "unexpired t e = (case e of None \<Rightarrow> None
     | Some x \<Rightarrow> if expired t x then None else Some (e_val x, e_expiresAt x))"

definition mem_view :: "'t mem_idem \<Rightarrow> string \<Rightarrow> 't stored" where
  "mem_view w k = unexpired (mw_now w) (mget (c_map (mw_rest w)) k)"

definition mem_issued :: "'t mem_idem \<Rightarrow> string set" where
  "mem_issued w = mw_ids w ` {..<mw_issued w}"

definition mem_ok :: "'t mem_idem \<Rightarrow> bool" where
  "mem_ok w \<longleftrightarrow> locker_inv (mw_locker w) \<and> c_index (mw_rest w) = None \<and> 0 \<le> mw_now w \<and> inj (mw_ids w)"

lemma mem_view_live: "live (mw_now w) (mw_rest w) k = map_option fst (mem_view w k)"
  by (simp add: live_def mem_view_def unexpired_def split: option.split)

lemma mem_holder_rest [simp]: "mem_holder (w\<lparr>mw_rest := c\<rparr>) = mem_holder w"
  by (simp add: mem_holder_def fun_eq_iff split: option.split)

lemma mem_holder_issued_fun [simp]: "mem_holder (w\<lparr>mw_issued := n\<rparr>) = mem_holder w"
  by (simp add: fun_eq_iff)

lemma mem_view_simps [simp]:
  "mem_view (w\<lparr>mw_issued := n\<rparr>) = mem_view w" "mem_view (w\<lparr>mw_locker := l\<rparr>) = mem_view w"
  "mem_issued (w\<lparr>mw_rest := c\<rparr>) = mem_issued w" "mem_issued (w\<lparr>mw_locker := l\<rparr>) = mem_issued w"
  by (simp_all add: mem_view_def mem_issued_def fun_eq_iff)

lemma mem_acquire_frame:
  "mem_acquire k ttl w = (r, w1) \<Longrightarrow>
     mw_now w1 = mw_now w \<and> mw_rest w1 = mw_rest w \<and> mw_ids w1 = mw_ids w \<and> mw_issued w \<le> mw_issued w1"
  by (auto simp: mem_acquire_def split: prod.splits sum.splits)

lemma mem_release_frame:
  "mem_release h w = (r, w1) \<Longrightarrow>
     mw_now w1 = mw_now w \<and> mw_rest w1 = mw_rest w \<and> mw_ids w1 = mw_ids w \<and> mw_issued w1 = mw_issued w"
  by (auto simp: mem_release_def split: prod.splits)

lemma scoped_withLock_free:
  fixes st :: "('t mem_idem, 't) idem"
  assumes "mem_ok (i_world st)" and "k \<noteq> []" and "mem_holder (i_world st) k = None"
  shows "\<exists>w1. steady mem_ok mw_now mem_issued (i_world st) w1 \<and> mem_view w1 = mem_view (i_world st) \<and>
    (\<forall>f err st2. f (st\<lparr>i_world := w1\<rparr>) = (Returned err, st2) \<and> mem_ok (i_world st2) \<and>
       mw_now (i_world st2) = mw_now w1 \<and> mem_holder (i_world st2) = mem_holder w1 \<longrightarrow>
       (\<exists>w3. scoped_withLock mem_env default_scoped k f st =
           Some (Returned (map_option FnError err), st2\<lparr>i_world := w3\<rparr>) \<and>
          steady mem_ok mw_now mem_issued (i_world st2) w3 \<and> mem_view w3 = mem_view (i_world st2) \<and>
          mem_holder w3 = mem_holder (i_world st)))"
proof -
  let ?w = "i_world st"
  have inv: "locker_inv (mw_locker ?w)" using assms(1) by (simp add: mem_ok_def)
  have ttl: "0 < sl_ttl default_scoped"
    by (simp add: default_scoped_def DefaultScopedLockTTL_def Second_def Millisecond_def)
  obtain h w1 where a: "mem_acquire k (sl_ttl default_scoped) ?w = (Inr h, w1)"
    using ml.acquire_free [OF inv assms(2) ttl assms(3)] by blast
  note g = ml.acquire_granted [OF inv a] and same = mem_acquire_frame [OF a]
  have st1: "steady mem_ok mw_now mem_issued ?w w1"
    using ml.acquire_keeps [OF inv, of k "sl_ttl default_scoped"] a same assms(1)
    by (auto simp: steady_def mem_ok_def mem_issued_def)
  have "\<exists>w3. scoped_withLock mem_env default_scoped k f st =
         Some (Returned (map_option FnError err), st2\<lparr>i_world := w3\<rparr>) \<and>
       steady mem_ok mw_now mem_issued (i_world st2) w3 \<and> mem_view w3 = mem_view (i_world st2) \<and>
       mem_holder w3 = mem_holder ?w"
    if f: "f (st\<lparr>i_world := w1\<rparr>) = (Returned err, st2)" and ok2: "mem_ok (i_world st2)"
      and h2: "mem_holder (i_world st2) = mem_holder w1" for f err st2
  proof -
    from ok2 have inv2: "locker_inv (mw_locker (i_world st2))" by (simp add: mem_ok_def)
    have held: "mem_holder (i_world st2) (lk_key h) = Some (lk_token h)" using g h2 by simp
    obtain w3 where r: "mem_release h (i_world st2) = (None, w3)"
      using ml.release_held [OF inv2 held] by (cases "mem_release h (i_world st2)") simp
    have "mem_holder w3 k' = mem_holder ?w k'" for k'
      using ml.release_holder [OF inv2, of h k'] r g h2 by (auto split: if_splits)
    then have h3: "mem_holder w3 = mem_holder ?w" by (rule ext)
    note s3 = mem_release_frame [OF r]
    have "steady mem_ok mw_now mem_issued (i_world st2) w3"
      using ml.release_keeps [OF inv2, of h] r s3 ok2 by (simp add: steady_def mem_ok_def mem_issued_def)
    moreover have "scoped_withLock mem_env default_scoped k f st =
        Some (Returned (map_option FnError err), st2\<lparr>i_world := w3\<rparr>)"
      using a f r unfolding scoped_withLock_def WithLock_def
      by (subst withLock_poll.simps) (simp add: lift_lock_env_def mem_env_def run_scoped_def)
    ultimately show ?thesis using h3 s3 by (intro exI [of _ w3]) (simp add: mem_view_def fun_eq_iff)
  qed
  with st1 same show ?thesis by (intro exI [of _ w1]) (auto simp: mem_view_def)
qed

lemma unexpired_Get:
  "unexpired t (mget (c_map (snd (Get (\<lambda>_. t) None False key c))) k) = unexpired t (mget (c_map c) k)"
  by (auto simp: Get_no_loader evictExpired_get unexpired_def split: option.splits)

interpretation idm: idem_contract
  where env = mem_idem_env and view = mem_view and holder = mem_holder and now = mw_now
    and issued = mem_issued and ok = mem_ok
proof (unfold_locales, goal_cases)
  case 1
  show ?case by (simp add: mem_idem_env_def)
next
  case (2 w k)
  then have c: "c_index (mw_rest w) = None" by (simp add: mem_ok_def)
  obtain r c' where g: "Get (\<lambda>_. mw_now w) None False k (mw_rest w) = (r, c')" by fastforce
  have "r = (case mem_view w k of None \<Rightarrow> Inl ErrNotFound | Some x \<Rightarrow> Inr (fst x))" "c_index c' = None"
    using mem.get_result [OF c, of "mw_now w" k] mem.get_ok [OF c, of "mw_now w" k] g
    by (auto simp: mem_view_live split: option.splits)
  moreover have "mem_view (w\<lparr>mw_rest := c'\<rparr>) = mem_view w"
    using unexpired_Get [of "mw_now w" k "mw_rest w"] g by (simp add: mem_view_def fun_eq_iff)
  ultimately show ?case
    using g 2 by (auto simp: mem_idem_env_def mem_ok_def steady_def split: option.split)
next
  case (3 w d k r)
  then have c: "c_index (mw_rest w) = None" "0 \<le> mw_now w" by (simp_all add: mem_ok_def)
  note set = Set_unbounded [OF c(1), of "mw_now w" k r "[WithExpiry d]"]
  have "newEntry (mw_now w) r [WithExpiry d] (mw_rest w) = \<lparr>e_expiresAt = mw_now w + d, e_val = r\<rparr>"
    using 3(2) by (simp add: newEntry_def EffectiveExpiry_WithExpiry)
  then have "mem_view (w\<lparr>mw_rest := Set (mw_now w) k r [WithExpiry d] (mw_rest w)\<rparr>) =
      (mem_view w)(k \<mapsto> (r, mw_now w + d))"
    using set 3(2) c(2) by (auto simp: mem_view_def unexpired_def expired_def fun_eq_iff)
  with set 3 show ?case by (auto simp: mem_idem_env_def mem_ok_def steady_def)
next
  case (4 w k)
  have "mem_view (w\<lparr>mw_rest := Delete k (mw_rest w)\<rparr>) = (mem_view w)(k := None)"
    by (auto simp: mem_view_def unexpired_def Delete_def fun_eq_iff)
  with 4 show ?case by (auto simp: mem_idem_env_def mem_ok_def steady_def Delete_def)
next
  case (5 w)
  then have "mw_ids w (mw_issued w) \<notin> mem_issued w"
    by (auto simp: mem_ok_def mem_issued_def dest: injD)
  with 5 show ?case
    by (auto simp: mem_idem_env_def mem_ok_def steady_def mem_issued_def lessThan_Suc)
next
  case (6 st k)
  from scoped_withLock_free [OF this] show ?case by (simp add: mem_idem_env_def)
qed

lemma NewManager_valid: "NewManager b b' opts = Inr m \<Longrightarrow> 0 < mg_ttl m \<and> 0 < mg_inFlightTTL m"
  by (auto simp: NewManager_def Let_def split: if_splits option.splits)

text \<open>The options a caller can build: nil, or what \<^verbatim>\<open>WithCallTTL\<close> returns.\<close>

definition call_options :: "do_option list \<Rightarrow> bool" where
  "call_options opts = list_all (\<lambda>opt. case opt of None \<Rightarrow> True | Some f \<Rightarrow> \<exists>t. opt = WithCallTTL t) opts"

definition call_ttl :: "'t Manager \<Rightarrow> do_option list \<Rightarrow> duration" where
  "call_ttl m opts = (case newDoOptions opts of None \<Rightarrow> mg_ttl m | Some t \<Rightarrow> t)"

lemma call_ttl_positive:
  assumes opts: "call_options opts" and pos: "0 < mg_ttl m"
  shows "0 < call_ttl m opts"
proof -
  have "case foldl (\<lambda>t opt. case opt of None \<Rightarrow> t | Some f \<Rightarrow> f t) t0 opts of None \<Rightarrow> True | Some t \<Rightarrow> 0 < t"
    if "case t0 of None \<Rightarrow> True | Some t \<Rightarrow> 0 < t" for t0 :: "duration option"
    using opts that unfolding call_options_def
  proof (induction opts arbitrary: t0)
    case (Cons opt opts)
    have "case (case opt of None \<Rightarrow> t0 | Some f \<Rightarrow> f t0) of None \<Rightarrow> True | Some t \<Rightarrow> 0 < t"
      using Cons.prems by (auto simp: WithCallTTL_def split: option.splits)
    with Cons show ?case by simp
  qed simp
  from this [of None] pos show ?thesis by (simp add: call_ttl_def newDoOptions_def split: option.splits)
qed

text \<open>
  A piece of work: it may take time and change the store, but it leaves the store and the locker
  usable and does not keep the lock of its own key. \<open>quiet\<close> work does not touch the key's entry
  and is done before its claim lapses.
\<close>

definition well_behaved :: "'t Manager \<Rightarrow> string \<Rightarrow> ('t mem_idem \<Rightarrow> ('t, 'e) work \<times> 't mem_idem) \<Rightarrow> bool" where
  "well_behaved m key f \<longleftrightarrow>
     (\<forall>w. mem_ok w \<and> mem_holder w (lockKey m key) = None \<longrightarrow>
        mem_ok (snd (f w)) \<and> mem_holder (snd (f w)) (lockKey m key) = None)"

definition quiet :: "'t Manager \<Rightarrow> string \<Rightarrow> ('t mem_idem \<Rightarrow> ('t, 'e) work \<times> 't mem_idem) \<Rightarrow> bool" where
  "quiet m key f \<longleftrightarrow>
     (\<forall>w. mw_now w \<le> mw_now (snd (f w)) \<and> mw_now (snd (f w)) < mw_now w + mg_inFlightTTL m \<and>
        mget (c_map (mw_rest (snd (f w)))) (storeKey m key) = mget (c_map (mw_rest w)) (storeKey m key))"

lemma unexpired_later:
  "unexpired t e = Some (x, d) \<Longrightarrow> t' < d \<Longrightarrow> unexpired t' e = Some (x, d)"
  by (auto simp: unexpired_def expired_def split: option.splits if_splits)

lemma quiet_keeps_claim:
  assumes "quiet m key f"
    and "mem_view w (storeKey m key) = Some (x, mw_now w + mg_inFlightTTL m)"
  shows "mem_view (snd (f w)) (storeKey m key) = Some (x, mw_now w + mg_inFlightTTL m)"
  using assms unexpired_later [of "mw_now w" "mget (c_map (mw_rest w)) (storeKey m key)" x
      "mw_now w + mg_inFlightTTL m" "mw_now (snd (f w))"]
  by (simp add: quiet_def mem_view_def)

definition ready :: "'t idem_option list \<Rightarrow> 't Manager \<Rightarrow> string \<Rightarrow> string \<Rightarrow> do_option list \<Rightarrow>
    ('t mem_idem, 't) idem \<Rightarrow> bool" where
  "ready mopts m key fp opts st \<longleftrightarrow>
     NewManager True True mopts = Inr m \<and> call_options opts \<and> mem_ok (i_world st) \<and>
     ValidateKey key (mg_maxKeyLength m) = None \<and> fp \<noteq> [] \<and>
     usable (mem_view (i_world st) (storeKey m key)) = None \<and>
     mem_holder (i_world st) (lockKey m key) = None"

lemma Do_runs:
  assumes "ready mopts m key fp opts st" and "well_behaved m key f"
  obtains w1 cid st' where
    "mem_view w1 = (mem_view (i_world st))(storeKey m key \<mapsto>
       (claim_record (mw_now (i_world st)) fp cid, mw_now (i_world st) + mg_inFlightTTL m))"
    "mem_ok w1" "mw_now w1 = mw_now (i_world st)"
    "Do mem_idem_env m key fp (Some f) opts st = Some (result_of_work (fst (f w1)), st')"
    "mem_ok (i_world st')" "mw_now (i_world st') = mw_now (snd (f w1))"
    "mem_view (i_world st') =
       after_work m (call_ttl m opts) (storeKey m key) fp cid (mw_now (snd (f w1))) (fst (f w1))
         (mem_view (snd (f w1)))"
proof -
  have m: "0 < mg_ttl m" "0 < mg_inFlightTTL m" "0 < call_ttl m opts"
    using assms(1) NewManager_valid [of True True mopts m] call_ttl_positive [of opts m]
    by (auto simp: ready_def)
  moreover have "\<And>w. mem_ok w \<Longrightarrow> mem_holder w (lockKey m key) = None \<Longrightarrow>
      mem_ok (snd (f w)) \<and> mem_holder (snd (f w)) (lockKey m key) = None"
    using assms(2) by (simp add: well_behaved_def)
  ultimately show ?thesis
    using idm.do_runs_work [of st key m fp opts f] assms(1) that
    by (auto simp: ready_def call_ttl_def)
qed

subsection \<open>Concurrent executions\<close>

text \<open>
  Many executions share one manager, store and locker. The sections under the lock are atomic;
  between them the work of the executions runs and time passes. \<open>is_running\<close> lists the
  executions that hold a claim: key, identifier, and the instant the claim lapses.
\<close>

record 't idem_system =
  is_st :: "('t mem_idem, 't) idem"
  is_running :: "(string \<times> string \<times> gotime) set"

definition without_exec :: "string \<Rightarrow> string \<Rightarrow> (string \<times> string \<times> gotime) set \<Rightarrow> (string \<times> string \<times> gotime) set" where
  "without_exec key cid R = {x \<in> R. \<not> (fst x = key \<and> fst (snd x) = cid)}"

inductive idem_step :: "'t Manager \<Rightarrow> 't idem_system \<Rightarrow> 't idem_system \<Rightarrow> bool" for m where
  time_passes: "mw_now (i_world (is_st s)) \<le> t \<Longrightarrow>
    idem_step m s (s\<lparr>is_st := (is_st s)\<lparr>i_world := (i_world (is_st s))\<lparr>mw_now := t\<rparr>\<rparr>\<rparr>)"
| claimed: "claim mem_idem_env m key fp (is_st s) = Some (Inr (cid, None), st) \<Longrightarrow>
    idem_step m s (s\<lparr>is_st := st,
      is_running := insert (key, cid, mw_now (i_world (is_st s)) + mg_inFlightTTL m) (is_running s)\<rparr>)"
| found: "claim mem_idem_env m key fp (is_st s) = Some (Inr (cid, Some r), st) \<Longrightarrow>
    idem_step m s (s\<lparr>is_st := st\<rparr>)"
| committed: "(key, cid, d) \<in> is_running s \<Longrightarrow> 0 < ttl \<Longrightarrow>
    commit mem_idem_env m key cid fp v ttl (is_st s) = Some st \<Longrightarrow>
    idem_step m s (s\<lparr>is_st := st, is_running := without_exec key cid (is_running s)\<rparr>)"
| released: "(key, cid, d) \<in> is_running s \<Longrightarrow>
    release_claim mem_idem_env m key cid (is_st s) = Some st \<Longrightarrow>
    idem_step m s (s\<lparr>is_st := st, is_running := without_exec key cid (is_running s)\<rparr>)"

inductive idem_run :: "'t Manager \<Rightarrow> 't idem_system \<Rightarrow> bool" for m where
  start: "mem_ok (i_world st) \<Longrightarrow> (\<And>k. mem_holder (i_world st) k = None) \<Longrightarrow>
    idem_run m \<lparr>is_st = st, is_running = {}\<rparr>"
| step: "idem_run m s \<Longrightarrow> idem_step m s s' \<Longrightarrow> idem_run m s'"

text \<open>Every claim that has not lapsed is what the store holds for its key.\<close>

definition claim_stored :: "'t Manager \<Rightarrow> 't mem_idem \<Rightarrow> string \<times> string \<times> gotime \<Rightarrow> bool" where
  "claim_stored m w x \<longleftrightarrow> (case x of (key, cid, d) \<Rightarrow> mw_now w < d \<longrightarrow>
     (\<exists>t fp. mem_view w (storeKey m key) = Some (claim_record t fp cid, d)))"

definition idem_inv :: "'t Manager \<Rightarrow> 't idem_system \<Rightarrow> bool" where
  "idem_inv m s \<longleftrightarrow> mem_ok (i_world (is_st s)) \<and> (\<forall>k. mem_holder (i_world (is_st s)) k = None) \<and>
     (\<forall>x \<in> is_running s. claim_stored m (i_world (is_st s)) x)"

lemma storeKey_inj [simp]: "storeKey m k = storeKey m k' \<longleftrightarrow> k = k'"
  by (simp add: storeKey_def)

lemma claim_stored_frame:
  assumes "mw_now w' = mw_now w" and "\<And>k. k \<noteq> storeKey m key \<Longrightarrow> mem_view w' k = mem_view w k"
    and "\<And>cid' d. x = (key, cid', d) \<Longrightarrow> mw_now w < d \<Longrightarrow> mem_view w (storeKey m key) = mem_view w' (storeKey m key)"
    and "claim_stored m w x"
  shows "claim_stored m w' x"
proof (cases x)
  case (fields a b c)
  with assms show ?thesis by (cases "a = key") (auto simp: claim_stored_def)
qed

lemma claim_stored_later:
  assumes "claim_stored m w x" and "mw_now w \<le> t"
  shows "claim_stored m (w\<lparr>mw_now := t\<rparr>) x"
proof (cases x)
  case (fields key cid d)
  with assms unexpired_later [of "mw_now w" "mget (c_map (mw_rest w)) (storeKey m key)" _ d t]
  show ?thesis by (auto simp: claim_stored_def mem_view_def)
qed

lemma idem_step_inv:
  assumes "idem_step m s s'" and inv: "idem_inv m s" and m: "0 < mg_inFlightTTL m"
  shows "idem_inv m s'"
proof -
  let ?st = "is_st s" and ?w = "i_world (is_st s)"
  have ok: "mem_ok ?w" "\<And>k. mem_holder ?w k = None" and run: "\<And>x. x \<in> is_running s \<Longrightarrow> claim_stored m ?w x"
    using inv by (auto simp: idem_inv_def)
  from assms(1) show ?thesis
  proof cases
    case (time_passes t)
    have "mem_holder (?w\<lparr>mw_now := t\<rparr>) k = None" for k
      using ok(2) [of k] time_passes(2) by (auto simp: mem_holder_def split: option.splits if_splits)
    moreover have "claim_stored m (?w\<lparr>mw_now := t\<rparr>) x" if "x \<in> is_running s" for x
      using claim_stored_later [OF run [OF that] time_passes(2)] .
    ultimately show ?thesis
      using time_passes ok(1) by (auto simp: idem_inv_def mem_ok_def)
  next
    case (claimed key fp cid st)
    have spec: "usable (mem_view ?w (storeKey m key)) = None" "idm.sound ?st st"
      "mem_view (i_world st) = (mem_view ?w)(storeKey m key \<mapsto>
         (claim_record (mw_now ?w) fp cid, mw_now ?w + mg_inFlightTTL m))"
      using idm.claim_spec [OF ok(1) m ok(2), of key fp] claimed(2) by (auto split: if_splits)
    note fr = idm.soundD [OF spec(2)]
    have "claim_stored m (i_world st) x" if "x \<in> is_running s" for x
    proof (rule claim_stored_frame [of _ ?w _ key])
      show "mem_view ?w (storeKey m key) = mem_view (i_world st) (storeKey m key)"
        if "x = (key, cid', d)" "mw_now ?w < d" for cid' d
        using run [OF \<open>x \<in> is_running s\<close>] that spec(1) by (auto simp: claim_stored_def)
    qed (use fr spec(3) run [OF that] in auto)
    then show ?thesis
      using claimed(1) fr ok(2) spec(3) by (auto simp: idem_inv_def claim_stored_def)
  next
    case (found key fp cid r st)
    have "idm.sound ?st st" "mem_view (i_world st) = mem_view ?w"
      using idm.claim_spec [OF ok(1) m ok(2), of key fp] found(2) by (auto split: if_splits)
    with found(1) ok(2) run show ?thesis
      by (auto simp: idem_inv_def claim_stored_def dest!: idm.soundD)
  next
    case (committed key cid d ttl fp v st)
    let ?R = "\<lambda>x. x \<in> without_exec key cid (is_running s)"
    have spec: "idm.sound ?st st" "mem_view (i_world st) =
        (if ours cid (mem_view ?w (storeKey m key))
         then (mem_view ?w)(storeKey m key \<mapsto> (completed_record (mw_now ?w) v fp cid, mw_now ?w + ttl))
         else mem_view ?w)"
      using idm.commit_spec [OF ok(1) committed(3) ok(2), of m key cid fp v] committed(4) by auto
    note fr = idm.soundD [OF spec(1)]
    have "claim_stored m (i_world st) x" if "?R x" for x
    proof (rule claim_stored_frame [of _ ?w _ key])
      show "mem_view ?w (storeKey m key) = mem_view (i_world st) (storeKey m key)"
        if "x = (key, cid', d)" "mw_now ?w < d" for cid' d
        using run [of x] that \<open>?R x\<close> spec(2) by (auto simp: claim_stored_def without_exec_def)
    qed (use fr spec(2) run that in \<open>auto simp: without_exec_def\<close>)
    then show ?thesis using committed(1) fr ok(2) by (simp add: idem_inv_def)
  next
    case (released key cid d st)
    let ?R = "\<lambda>x. x \<in> without_exec key cid (is_running s)"
    have spec: "idm.sound ?st st" "mem_view (i_world st) =
        (if ours cid (mem_view ?w (storeKey m key)) then (mem_view ?w)(storeKey m key := None) else mem_view ?w)"
      using idm.release_spec [OF ok(1) ok(2), of m key cid] released(3) by auto
    note fr = idm.soundD [OF spec(1)]
    have "claim_stored m (i_world st) x" if "?R x" for x
    proof (rule claim_stored_frame [of _ ?w _ key])
      show "mem_view ?w (storeKey m key) = mem_view (i_world st) (storeKey m key)"
        if "x = (key, cid', d)" "mw_now ?w < d" for cid' d
        using run [of x] that \<open>?R x\<close> spec(2) by (auto simp: claim_stored_def without_exec_def)
    qed (use fr spec(2) run that in \<open>auto simp: without_exec_def\<close>)
    then show ?thesis using released(1) fr ok(2) by (simp add: idem_inv_def)
  qed
qed

lemma idem_run_inv: "idem_run m s \<Longrightarrow> 0 < mg_inFlightTTL m \<Longrightarrow> idem_inv m s"
proof (induction rule: idem_run.induct)
  case (start st)
  then show ?case by (simp add: idem_inv_def)
next
  case (step s s')
  then show ?case using idem_step_inv by blast
qed

subsection \<open>A concrete manager\<close>

text \<open>A default manager over an empty in-memory store, and a minute of work for it.\<close>

definition example_manager :: "nat Manager" where
  "example_manager = \<lparr>mg_recordable = (\<lambda>_. True), mg_keyPrefix = DefaultKeyPrefix, mg_ttl = DefaultTTL,
     mg_inFlightTTL = DefaultInFlightTTL, mg_maxKeyLength = DefaultMaxKeyLength,
     mg_storeFailurePolicy = FailClosed\<rparr>"

definition example_state :: "(nat mem_idem, nat) idem" where
  "example_state =
     \<lparr>i_world = \<lparr>mw_now = 1, mw_locker = NewLocker, mw_ids = (\<lambda>n. replicate n CHR ''x''), mw_issued = 0,
        mw_rest = \<lparr>c_map = [], c_index = None, c_defaultExpiry = 0, c_janitor = False, c_hits = 0,
          c_misses = 0, c_sets = 0, c_dels = 0, c_evicts = 0, c_capEvicts = 0, c_loads = 0\<rparr>\<rparr>,
      i_claimID = [], i_existing = None, i_requests = [], i_claimsLost = 0, i_recordFailures = 0,
      i_storeErrors = 0, i_staleRecords = 0\<rparr>"

definition minute_of_work :: "(nat, string) work \<Rightarrow> nat mem_idem \<Rightarrow> (nat, string) work \<times> nat mem_idem" where
  "minute_of_work out w = (out, w\<lparr>mw_now := mw_now w + Minute\<rparr>)"

lemma inj_replicate_char: "inj (\<lambda>n. replicate n CHR ''x'')"
proof (rule injI)
  fix i j :: nat assume "replicate i CHR ''x'' = replicate j CHR ''x''"
  then have "length (replicate i CHR ''x'') = length (replicate j CHR ''x'')" by simp
  then show "i = j" by simp
qed

lemma example_key:
  "ValidateKey ''key'' DefaultMaxKeyLength = None"
  "ValidateKey ''key'' (mg_maxKeyLength example_manager) = None"
  by (simp_all add: ValidateKey_def keyCharset_def VisibleASCII_def example_manager_def
      DefaultMaxKeyLength_def byte_of_def word_le_nat_alt)

lemma example_ready: "ready [] example_manager ''key'' ''fp'' [] example_state"
  by (auto simp: ready_def NewManager_def example_manager_def example_state_def DefaultTTL_def
      DefaultInFlightTTL_def Hour_def Minute_def Second_def Millisecond_def call_options_def mem_ok_def
      mem_view_def unexpired_def mem_holder_def owner_def NewLocker_def inj_replicate_char
      locker_inv_def example_key(1))

lemma minute_of_work_behaves:
  "well_behaved m key (minute_of_work out)" "quiet example_manager ''key'' (minute_of_work out)"
  by (auto simp: well_behaved_def quiet_def minute_of_work_def mem_ok_def mem_holder_def Minute_def
      Second_def Millisecond_def example_manager_def DefaultInFlightTTL_def split: option.splits if_splits)

subsection \<open>Properties\<close>

text \<open>C24. At most once. When work succeeds with a result worth recording, before its claim lapses,
  every later call with the same key and fingerprint, made before the retention of that call
  is over and while nobody touched the record, answers with the same value marked as
  replayed, whatever function it was given: the answer and the state do not depend on it, so
  it does not run, and what the store holds does not change.\<close>

theorem Do_at_most_once:
  fixes f :: "'t mem_idem \<Rightarrow> ('t, 'e) work \<times> 't mem_idem"
  assumes "ready mopts m key fp opts st" and "well_behaved m key f" and "quiet m key f"
    and f: "\<And>w. fst (f w) = WorkReturned (Inr v)" and "mg_recordable m v"
  shows "\<exists>st1. Do mem_idem_env m key fp (Some f) opts st =
      Some (DoReturned (Inr \<lparr>res_Value = v, res_Replayed = False\<rparr>), st1) \<and> mem_ok (i_world st1) \<and>
    (\<forall>w2. mem_ok w2 \<and> mw_now w2 < mw_now (i_world st1) + call_ttl m opts \<and>
       mget (c_map (mw_rest w2)) (storeKey m key) = mget (c_map (mw_rest (i_world st1))) (storeKey m key) \<longrightarrow>
       (\<exists>st3. mem_view (i_world st3) = mem_view w2 \<and>
          (\<forall>(g :: 't mem_idem \<Rightarrow> ('t, 'e) work \<times> 't mem_idem) opts'.
             Do mem_idem_env m key fp (Some g) opts' (st1\<lparr>i_world := w2\<rparr>) =
             Some (DoReturned (Inr \<lparr>res_Value = v, res_Replayed = True\<rparr>), st3))))"
proof -
  let ?k = "storeKey m key"
  obtain w1 cid st1 where w1: "mem_view w1 = (mem_view (i_world st))(?k \<mapsto>
      (claim_record (mw_now (i_world st)) fp cid, mw_now (i_world st) + mg_inFlightTTL m))"
    "mw_now w1 = mw_now (i_world st)"
    and run: "Do mem_idem_env m key fp (Some f) opts st = Some (result_of_work (fst (f w1)), st1)"
    and now1: "mw_now (i_world st1) = mw_now (snd (f w1))" "mem_ok (i_world st1)"
    and after: "mem_view (i_world st1) = after_work m (call_ttl m opts) ?k fp cid (mw_now (snd (f w1)))
      (fst (f w1)) (mem_view (snd (f w1)))"
    using Do_runs [OF assms(1,2)] by metis
  have "mem_view (snd (f w1)) ?k =
      Some (claim_record (mw_now (i_world st)) fp cid, mw_now w1 + mg_inFlightTTL m)"
    using quiet_keeps_claim [OF assms(3)] w1 by simp
  then have stored: "unexpired (mw_now (i_world st1)) (mget (c_map (mw_rest (i_world st1))) ?k) =
      Some (completed_record (mw_now (i_world st1)) v fp cid, mw_now (i_world st1) + call_ttl m opts)"
    using f [of w1] assms(5) after now1 by (simp add: after_work_def fun_eq_iff mem_view_def)
  have "\<exists>st3. mem_view (i_world st3) = mem_view w2 \<and>
      (\<forall>g opts'. Do mem_idem_env m key fp (Some g) opts' (st1\<lparr>i_world := w2\<rparr>) =
        Some (DoReturned (Inr \<lparr>res_Value = v, res_Replayed = True\<rparr>), st3))"
    if "mem_ok w2" "mw_now w2 < mw_now (i_world st1) + call_ttl m opts"
      "mget (c_map (mw_rest w2)) ?k = mget (c_map (mw_rest (i_world st1))) ?k" for w2
    using idm.do_answers_from_record [of "st1\<lparr>i_world := w2\<rparr>" key m fp
        "completed_record (mw_now (i_world st1)) v fp cid"]
      that unexpired_later [OF stored that(2)] assms(1)
    by (auto simp: ready_def mem_view_def completed_record_def usable_def)
  with run now1 f [of w1] show ?thesis by (auto simp: result_of_work_def)
qed

theorem Do_at_most_once_witness:
  "\<exists>st1. Do mem_idem_env example_manager ''key'' ''fp'' (Some (minute_of_work (WorkReturned (Inr (Some 7))))) []
      example_state = Some (DoReturned (Inr \<lparr>res_Value = Some 7, res_Replayed = False\<rparr>), st1) \<and>
    (\<exists>st3. Do mem_idem_env example_manager ''key'' ''fp'' (Some (minute_of_work WorkPanicked)) [] st1 =
      Some (DoReturned (Inr \<lparr>res_Value = Some 7, res_Replayed = True\<rparr>), st3))"
proof -
  have f: "\<And>w. fst (minute_of_work (WorkReturned (Inr (Some 7))) w) = WorkReturned (Inr (Some 7))"
    by (simp add: minute_of_work_def)
  have "mg_recordable example_manager (Some 7)" by (simp add: example_manager_def)
  from Do_at_most_once [OF example_ready minute_of_work_behaves f this]
  obtain st1 where st1: "Do mem_idem_env example_manager ''key'' ''fp'' (Some (minute_of_work (WorkReturned (Inr (Some 7))))) []
      example_state = Some (DoReturned (Inr \<lparr>res_Value = Some 7, res_Replayed = False\<rparr>), st1)" "mem_ok (i_world st1)"
    and replay: "\<forall>w2. mem_ok w2 \<and> mw_now w2 < mw_now (i_world st1) + call_ttl example_manager [] \<and>
       mget (c_map (mw_rest w2)) (storeKey example_manager ''key'') =
         mget (c_map (mw_rest (i_world st1))) (storeKey example_manager ''key'') \<longrightarrow>
       (\<exists>st3. mem_view (i_world st3) = mem_view w2 \<and>
         (\<forall>(g :: nat mem_idem \<Rightarrow> (nat, string) work \<times> nat mem_idem) opts'.
            Do mem_idem_env example_manager ''key'' ''fp'' (Some g) opts' (st1\<lparr>i_world := w2\<rparr>) =
             Some (DoReturned (Inr \<lparr>res_Value = Some 7, res_Replayed = True\<rparr>), st3)))"
    by (elim exE conjE)
  have "0 < call_ttl example_manager []"
    by (simp add: call_ttl_def newDoOptions_def example_manager_def DefaultTTL_def Hour_def Minute_def
        Second_def Millisecond_def)
  with st1(2) replay [rule_format, of "i_world st1"]
  have "\<exists>st3. Do mem_idem_env example_manager ''key'' ''fp'' (Some (minute_of_work WorkPanicked)) [] st1 =
      Some (DoReturned (Inr \<lparr>res_Value = Some 7, res_Replayed = True\<rparr>), st3)" by auto
  with st1(1) show ?thesis by blast
qed

text \<open>A key answers one request only. While a usable record exists, a call never runs its function:
  with another fingerprint it is refused as a mismatch, with the same one it replays a
  completed result or is told the work is in flight; what the store holds is left as it was.\<close>

theorem Do_answers_from_record:
  assumes "mem_ok (i_world st)" and "ValidateKey key (mg_maxKeyLength m) = None" and "fp \<noteq> []"
    and "usable (mem_view (i_world st) (storeKey m key)) = Some r"
  shows "\<exists>st'. mem_view (i_world st') = mem_view (i_world st) \<and>
    (\<forall>(f :: 't mem_idem \<Rightarrow> ('t, 'e) work \<times> 't mem_idem) opts. Do mem_idem_env m key fp (Some f) opts st =
      Some (DoReturned (if r_Fingerprint r \<noteq> fp then Inl (Plain ErrFingerprintMismatch)
        else if r_State r = StateCompleted then Inr \<lparr>res_Value = r_Value r, res_Replayed = True\<rparr>
        else Inl (Plain ErrInFlight)), st'))"
  using idm.do_answers_from_record [OF assms] by blast

theorem Do_answers_from_record_witness:
  "\<exists>st. \<exists>st'. \<forall>f :: nat mem_idem \<Rightarrow> (nat, string) work \<times> nat mem_idem.
     Do mem_idem_env example_manager ''key'' ''fp'' (Some f) [] st = Some (DoReturned (Inl (Plain ErrInFlight)), st')"
proof -
  let ?r = "claim_record 1 ''fp'' ''c'' :: nat Record"
  let ?w = "i_world example_state"
  let ?st = "example_state\<lparr>i_world := ?w\<lparr>mw_rest :=
    (mw_rest ?w)\<lparr>c_map := [(storeKey example_manager ''key'', \<lparr>e_expiresAt = 0, e_val = ?r\<rparr>)]\<rparr>\<rparr>\<rparr>"
  have ok: "mem_ok (i_world ?st)"
    using example_ready by (simp add: ready_def mem_ok_def)
  have "usable (mem_view (i_world ?st) (storeKey example_manager ''key'')) = Some ?r"
    by (simp add: mem_view_def mget_def unexpired_def expired_def)
  from Do_answers_from_record [OF ok example_key(2) _ this, of "''fp''"] show ?thesis
    by (auto simp: claim_record_def StateInFlight_def StateCompleted_def)
qed

text \<open>Only a finished, recordable result is pinned. After quiet work that failed, panicked, or
  produced a result the manager was told not to record, the store holds nothing for the key,
  so the next attempt runs; the error or the panic reaches the caller, and an unrecorded
  result is still returned.\<close>

theorem Do_failure_frees_key:
  assumes "ready mopts m key fp opts st" and "well_behaved m key f" and "quiet m key f"
    and f: "\<And>w. fst (f w) = out" and "\<And>v. out = WorkReturned (Inr v) \<Longrightarrow> \<not> mg_recordable m v"
  shows "\<exists>st1. Do mem_idem_env m key fp (Some f) opts st =
      Some (case out of
        WorkPanicked \<Rightarrow> DoPanicked
      | WorkReturned (Inl err) \<Rightarrow> DoReturned (Inl (WorkError err))
      | WorkReturned (Inr v) \<Rightarrow> DoReturned (Inr \<lparr>res_Value = v, res_Replayed = False\<rparr>), st1) \<and>
    mem_view (i_world st1) (storeKey m key) = None"
proof -
  let ?k = "storeKey m key"
  obtain w1 cid st1 where w1: "mem_view w1 = (mem_view (i_world st))(?k \<mapsto>
      (claim_record (mw_now (i_world st)) fp cid, mw_now (i_world st) + mg_inFlightTTL m))"
    "mw_now w1 = mw_now (i_world st)"
    and run: "Do mem_idem_env m key fp (Some f) opts st = Some (result_of_work (fst (f w1)), st1)"
    and after: "mem_view (i_world st1) = after_work m (call_ttl m opts) ?k fp cid (mw_now (snd (f w1)))
      (fst (f w1)) (mem_view (snd (f w1)))"
    using Do_runs [OF assms(1,2)] by metis
  have "mem_view (snd (f w1)) ?k =
      Some (claim_record (mw_now (i_world st)) fp cid, mw_now w1 + mg_inFlightTTL m)"
    using quiet_keeps_claim [OF assms(3)] w1 by simp
  then have "mem_view (i_world st1) ?k = None"
    using f [of w1] assms(5) unfolding after
    by (auto simp: after_work_def split: work.split sum.split)
  with run f [of w1] show ?thesis by (auto simp: result_of_work_def)
qed

theorem Do_failure_frees_key_witness:
  "\<exists>st1. Do mem_idem_env example_manager ''key'' ''fp'' (Some (minute_of_work (WorkReturned (Inl ''declined'')))) []
      example_state = Some (DoReturned (Inl (WorkError ''declined'')), st1) \<and>
    mem_view (i_world st1) (storeKey example_manager ''key'') = None"
proof -
  have "\<And>w. fst (minute_of_work (WorkReturned (Inl ''declined'')) w) = WorkReturned (Inl ''declined'')"
    by (simp add: minute_of_work_def)
  from Do_failure_frees_key [OF example_ready minute_of_work_behaves this] show ?thesis by simp
qed

text \<open>C25. An execution that outlived its claim never overwrites its successor. The work starts in a
  world where the store holds this execution's claim; if, when it ends, the key's record is
  no longer that claim, neither committing nor releasing changes what the store holds, and
  the caller still gets the outcome of the work.\<close>

theorem Do_lost_claim_writes_nothing:
  assumes "ready mopts m key fp opts st" and "well_behaved m key f"
  shows "\<exists>w1 cid st1.
    mem_view w1 (storeKey m key) =
      Some (claim_record (mw_now (i_world st)) fp cid, mw_now (i_world st) + mg_inFlightTTL m) \<and>
    Do mem_idem_env m key fp (Some f) opts st = Some (result_of_work (fst (f w1)), st1) \<and>
    (ours cid (mem_view (snd (f w1)) (storeKey m key)) \<or> mem_view (i_world st1) = mem_view (snd (f w1)))"
proof -
  obtain w1 cid st1 where "mem_view w1 = (mem_view (i_world st))(storeKey m key \<mapsto>
      (claim_record (mw_now (i_world st)) fp cid, mw_now (i_world st) + mg_inFlightTTL m))"
    "Do mem_idem_env m key fp (Some f) opts st = Some (result_of_work (fst (f w1)), st1)"
    "mem_view (i_world st1) = after_work m (call_ttl m opts) (storeKey m key) fp cid (mw_now (snd (f w1)))
      (fst (f w1)) (mem_view (snd (f w1)))"
    using Do_runs [OF assms] by metis
  then show ?thesis
    by (intro exI [of _ w1] exI [of _ cid] exI [of _ st1]) (simp add: after_work_def)
qed

theorem Do_lost_claim_writes_nothing_witness:
  "\<exists>st1. Do mem_idem_env example_manager ''key'' ''fp''
      (Some (\<lambda>w. (WorkReturned (Inr (Some 7)) :: (nat, string) work, w\<lparr>mw_now := mw_now w + 10 * Minute\<rparr>))) [] example_state
      = Some (DoReturned (Inr \<lparr>res_Value = Some 7, res_Replayed = False\<rparr>), st1)"
proof -
  let ?f = "\<lambda>w :: nat mem_idem. (WorkReturned (Inr (Some 7)) :: (nat, string) work, w\<lparr>mw_now := mw_now w + 10 * Minute\<rparr>)"
  have "well_behaved example_manager ''key'' ?f"
    by (auto simp: well_behaved_def mem_ok_def mem_holder_def Minute_def Second_def Millisecond_def
        split: option.splits if_splits)
  from Do_lost_claim_writes_nothing [OF example_ready this] show ?thesis
    by (auto simp: result_of_work_def)
qed

text \<open>A store that cannot be read. With the default policy the request is refused with
  \<^verbatim>\<open>ErrStoreUnavailable\<close> and the store's own error, the failure is counted, and neither the lock
  nor the function is touched; an explicit \<^verbatim>\<open>FailOpen\<close> treats the key as unused and goes on to
  claim it. This holds for every store and locker.\<close>

theorem Do_store_failure:
  assumes "ValidateKey key (mg_maxKeyLength m) = None" and "fp \<noteq> []"
    and "ie_get env (storeKey m key) (i_world st) = (Inl err, w)" and "err \<noteq> ErrNotFound"
  shows "(mg_storeFailurePolicy m \<noteq> FailOpen \<longrightarrow>
      Do env m key fp (Some f) opts st =
        Some (DoReturned (Inl (Plain (ErrStoreUnavailable err))),
              st\<lparr>i_world := w, i_storeErrors := i_storeErrors st + 1\<rparr>)) \<and>
    (mg_storeFailurePolicy m = FailOpen \<longrightarrow>
      load_record env m (storeKey m key) st =
        (Inr None, st\<lparr>i_world := w, i_storeErrors := i_storeErrors st + 1\<rparr>))"
  using assms by (simp add: Do_def load_record_def)

theorem Do_store_failure_witness:
  "Do \<lparr>ie_get = (\<lambda>k w. (Inl ErrUnavailable, w)), ie_set = (\<lambda>k r d w. (None, w)), ie_delete = (\<lambda>k w. (None, w)),
      ie_now = (\<lambda>w. 0), ie_newID = (\<lambda>w. (''id'', w)), ie_withLock = (\<lambda>k f st. None)\<rparr>
     example_manager ''key'' ''fp'' (Some (\<lambda>w. (WorkPanicked :: (nat, string) work, w))) [] example_state =
   Some (DoReturned (Inl (Plain (ErrStoreUnavailable ErrUnavailable))),
         example_state\<lparr>i_world := i_world example_state, i_storeErrors := i_storeErrors example_state + 1\<rparr>)"
proof -
  have "mg_storeFailurePolicy example_manager \<noteq> FailOpen"
    by (simp add: example_manager_def FailClosed_def FailOpen_def)
  with example_key(2) Do_store_failure [of "''key''" example_manager "''fp''"
      "\<lparr>ie_get = (\<lambda>k w. (Inl ErrUnavailable, w)), ie_set = (\<lambda>k r d w. (None, w)), ie_delete = (\<lambda>k w. (None, w)),
      ie_now = (\<lambda>w. 0), ie_newID = (\<lambda>w. (''id'', w)), ie_withLock = (\<lambda>k f st. None)\<rparr>"
      example_state ErrUnavailable "i_world example_state"]
  show ?thesis by simp
qed

text \<open>The accepted keys are exactly the non-empty strings of visible ASCII bytes within the
  configured length, and the three rejections are told apart, length before alphabet.\<close>

theorem ValidateKey_spec:
  "(ValidateKey key n = None \<longleftrightarrow>
      key \<noteq> [] \<and> (n \<le> 0 \<or> int (length key) \<le> n) \<and> byte_of ` set key \<subseteq> {0x21..0x7E}) \<and>
   (ValidateKey key n = Some ErrKeyRequired \<longleftrightarrow> key = []) \<and>
   (ValidateKey key n = Some ErrKeyTooLong \<longleftrightarrow> key \<noteq> [] \<and> 0 < n \<and> n < int (length key))"
  by (auto simp: ValidateKey_def keyCharset_def VisibleASCII_def)



end
