(* ===== verification/Authorization.thy ===== *)
theory Authorization
  imports Prelude "HOL-Library.List_Lexorder" "HOL-Library.Char_ord"
begin

text \<open>
  \<^verbatim>\<open>authorization\<close>: permission sets (\<^verbatim>\<open>authorization.go\<close>), the grants a request is checked
  against (\<^verbatim>\<open>grants.go\<close>), and role policies with inheritance (\<^verbatim>\<open>policy.go\<close>).

  A \<^verbatim>\<open>*PermissionSet\<close> may be nil, so it is an option; its map is an association list. Go orders
  strings bytewise, which is the lexicographic order of the library.

  The two recursive closures of \<^verbatim>\<open>policy.go\<close> walk a graph whose depth is bounded by the number of
  roles. They take that bound as fuel, and run out of it nowhere (\<open>walk_total\<close>,
  \<open>resolve_total\<close>). \<open>inherits\<close> is the inheritance relation the specifications are stated over.
\<close>

subsection \<open>authorization.go\<close>

type_synonym Permission = string

record PermissionSet =
  ps_perms :: "(Permission, unit) gomap"

definition NewPermissionSet :: "Permission list \<Rightarrow> PermissionSet option" where
  "NewPermissionSet perms =
     Some \<lparr>ps_perms = foldl (\<lambda>m p. if p \<noteq> [] then mput p () m else m) [] perms\<rparr>"

definition safe :: "PermissionSet option \<Rightarrow> (Permission, unit) gomap" where
  "safe s = (case s of None \<Rightarrow> [] | Some x \<Rightarrow> ps_perms x)"

definition Has :: "PermissionSet option \<Rightarrow> Permission \<Rightarrow> bool" where
  "Has s p = (case s of None \<Rightarrow> False | Some x \<Rightarrow> if p = [] then False else mget (ps_perms x) p \<noteq> None)"

fun HasAll :: "PermissionSet option \<Rightarrow> Permission list \<Rightarrow> bool" where
  "HasAll s [] = True"
| "HasAll s (p # ps) = (if \<not> Has s p then False else HasAll s ps)"

definition HasAny :: "PermissionSet option \<Rightarrow> Permission list \<Rightarrow> bool" where
  "HasAny s perms = list_ex (Has s) perms"

definition Len :: "PermissionSet option \<Rightarrow> nat" where
  "Len s = (case s of None \<Rightarrow> 0 | Some x \<Rightarrow> length (ps_perms x))"

definition IsEmpty :: "PermissionSet option \<Rightarrow> bool" where
  "IsEmpty s \<longleftrightarrow> Len s = 0"

definition Slice :: "PermissionSet option \<Rightarrow> Permission list" where
  "Slice s = (case s of None \<Rightarrow> [] | Some x \<Rightarrow> sort (mkeys (ps_perms x)))"

definition copy_map :: "('k, 'v) gomap \<Rightarrow> ('k, 'v) gomap \<Rightarrow> ('k, 'v) gomap" where
  "copy_map dst src = foldl (\<lambda>m (k, v). mput k v m) dst src"

definition Union_ps :: "PermissionSet option \<Rightarrow> PermissionSet option list \<Rightarrow> PermissionSet option" where
  "Union_ps s others =
     Some \<lparr>ps_perms = foldl (\<lambda>m other. copy_map m (safe other)) (copy_map [] (safe s)) others\<rparr>"

definition IsSubsetOf :: "PermissionSet option \<Rightarrow> PermissionSet option \<Rightarrow> bool" where
  "IsSubsetOf s other = list_all (\<lambda>p. Has other p) (mkeys (safe s))"

definition Equal_ps :: "PermissionSet option \<Rightarrow> PermissionSet option \<Rightarrow> bool" where
  "Equal_ps s other \<longleftrightarrow> Len s = Len other \<and> IsSubsetOf s other"

subsection \<open>grants.go\<close>

record Grants =
  g_sets :: "PermissionSet option list"
  g_all :: bool

definition NewGrants :: "PermissionSet option list \<Rightarrow> Grants" where
  "NewGrants sets =
     (let kept = filter (\<lambda>s. s \<noteq> None \<and> \<not> IsEmpty s) sets
      in if kept = [] then \<lparr>g_sets = [], g_all = False\<rparr> else \<lparr>g_sets = kept, g_all = False\<rparr>)"

definition AllowAll :: Grants where
  "AllowAll = \<lparr>g_sets = [], g_all = True\<rparr>"

definition DenyAll :: Grants where
  "DenyAll = \<lparr>g_sets = [], g_all = False\<rparr>"

definition Has_g :: "Grants \<Rightarrow> Permission \<Rightarrow> bool" where
  "Has_g g p = (if g_all g then True else list_ex (\<lambda>s. Has s p) (g_sets g))"

fun HasAll_g :: "Grants \<Rightarrow> Permission list \<Rightarrow> bool" where
  "HasAll_g g [] = True"
| "HasAll_g g (p # ps) = (if \<not> Has_g g p then False else HasAll_g g ps)"

definition HasAny_g :: "Grants \<Rightarrow> Permission list \<Rightarrow> bool" where
  "HasAny_g g perms = list_ex (Has_g g) perms"

definition Evaluate :: "Grants \<Rightarrow> Permission list \<Rightarrow> (Permission, bool) gomap" where
  "Evaluate g perms = foldl (\<lambda>out p. mput p (Has_g g p) out) [] perms"

definition IsEmpty_g :: "Grants \<Rightarrow> bool" where
  "IsEmpty_g g = (if g_all g then False else list_all IsEmpty (g_sets g))"

subsection \<open>policy.go\<close>

record Role =
  ro_Name :: string
  ro_Description :: string
  ro_Permissions :: "Permission list"
  ro_Inherits :: "string list"

datatype policy_error =
    ErrEmptyRoleName
  | ErrDuplicateRole string
  | ErrUnknownParentRole string string
  | ErrInheritanceCycle "string list"
  | ErrSelfInheritance string

type_synonym roles_map = "(string, Role) gomap"

fun index_roles :: "Role list \<Rightarrow> roles_map \<Rightarrow> policy_error + roles_map" where
  "index_roles [] byName = Inr byName"
| "index_roles (r # rs) byName =
     (if ro_Name r = [] then Inl ErrEmptyRoleName
      else if mget byName (ro_Name r) \<noteq> None then Inl (ErrDuplicateRole (ro_Name r))
      else index_roles rs (mput (ro_Name r) r byName))"

fun check_parents :: "roles_map \<Rightarrow> string \<Rightarrow> string list \<Rightarrow> policy_error option" where
  "check_parents byName name [] = None"
| "check_parents byName name (parent # ps) =
     (if parent = name then Some (ErrSelfInheritance name)
      else if mget byName parent = None then Some (ErrUnknownParentRole name parent)
      else check_parents byName name ps)"

fun check_roles :: "roles_map \<Rightarrow> Role list \<Rightarrow> policy_error option" where
  "check_roles byName [] = None"
| "check_roles byName (r # rs) =
     (case check_parents byName (ro_Name r) (ro_Inherits r) of
        Some err \<Rightarrow> Some err
      | None \<Rightarrow> check_roles byName rs)"

text \<open>\<^verbatim>\<open>byName[name].Inherits\<close>: a name that is not a key gives the zero \<^verbatim>\<open>Role\<close>.\<close>

definition parents_of :: "roles_map \<Rightarrow> string \<Rightarrow> string list" where
  "parents_of byName name = (case mget byName name of None \<Rightarrow> [] | Some r \<Rightarrow> ro_Inherits r)"

definition perms_of :: "roles_map \<Rightarrow> string \<Rightarrow> Permission list" where
  "perms_of byName name = (case mget byName name of None \<Rightarrow> [] | Some r \<Rightarrow> ro_Permissions r)"

text \<open>The states of the walk: absent from the map is unvisited.\<close>

definition visiting :: nat where
  "visiting = 1"

definition visited :: nat where
  "visited = 2"

type_synonym walk_state = "(string, nat) gomap"

text \<open>The loop over the parents, with the recursive call it makes.\<close>

fun walk_parents :: "(string \<Rightarrow> walk_state \<Rightarrow> (policy_error option \<times> walk_state) option) \<Rightarrow>
    string list \<Rightarrow> walk_state \<Rightarrow> (policy_error option \<times> walk_state) option" where
  "walk_parents rec [] st = Some (None, st)"
| "walk_parents rec (parent # ps) st =
     (case rec parent st of
        None \<Rightarrow> None
      | Some (Some err, st') \<Rightarrow> Some (Some err, st')
      | Some (None, st') \<Rightarrow> walk_parents rec ps st')"

primrec walk :: "roles_map \<Rightarrow> nat \<Rightarrow> string list \<Rightarrow> string \<Rightarrow> walk_state \<Rightarrow>
    (policy_error option \<times> walk_state) option" where
  "walk byName 0 path name st = None"
| "walk byName (Suc fuel) path name st =
     (if mget st name = Some visiting then Some (Some (ErrInheritanceCycle (path @ [name])), st)
      else if mget st name = Some visited then Some (None, st)
      else
        (case walk_parents (walk byName fuel (path @ [name])) (parents_of byName name)
                (mput name visiting st) of
           None \<Rightarrow> None
         | Some (Some err, st') \<Rightarrow> Some (Some err, st')
         | Some (None, st') \<Rightarrow> Some (None, mput name visited st')))"

definition detectCycles :: "roles_map \<Rightarrow> policy_error option option" where
  "detectCycles byName =
     map_option fst (walk_parents (walk byName (length byName + 2) []) (sort (mkeys byName)) [])"

definition ValidateRoles :: "Role list \<Rightarrow> policy_error option option" where
  "ValidateRoles roles =
     (case index_roles roles [] of
        Inl err \<Rightarrow> Some (Some err)
      | Inr byName \<Rightarrow>
          (case check_roles byName roles of
             Some err \<Rightarrow> Some (Some err)
           | None \<Rightarrow> detectCycles byName))"

type_synonym expanded = "(string, PermissionSet option) gomap"

fun resolve_parents :: "(string \<Rightarrow> expanded \<Rightarrow> (PermissionSet option \<times> expanded) option) \<Rightarrow> string \<Rightarrow>
    string list \<Rightarrow> PermissionSet option \<Rightarrow> expanded \<Rightarrow> (PermissionSet option \<times> expanded) option" where
  "resolve_parents rec name [] acc ex = Some (acc, ex)"
| "resolve_parents rec name (parent # ps) acc ex =
     (case rec parent ex of
        None \<Rightarrow> None
      | Some (got, ex') \<Rightarrow>
          (let acc' = Union_ps acc [got] in resolve_parents rec name ps acc' (mput name acc' ex')))"

primrec resolve :: "roles_map \<Rightarrow> nat \<Rightarrow> string \<Rightarrow> expanded \<Rightarrow> (PermissionSet option \<times> expanded) option" where
  "resolve byName 0 name ex = None"
| "resolve byName (Suc fuel) name ex =
     (case mget ex name of
        Some got \<Rightarrow> Some (got, ex)
      | None \<Rightarrow>
          (let acc = NewPermissionSet (perms_of byName name)
           in resolve_parents (resolve byName fuel) name (parents_of byName name) acc (mput name acc ex)))"

fun resolve_all :: "roles_map \<Rightarrow> nat \<Rightarrow> string list \<Rightarrow> expanded \<Rightarrow> expanded option" where
  "resolve_all byName fuel [] ex = Some ex"
| "resolve_all byName fuel (name # names) ex =
     (case resolve byName fuel name ex of
        None \<Rightarrow> None
      | Some (got, ex') \<Rightarrow> resolve_all byName fuel names ex')"

definition by_name :: "Role list \<Rightarrow> roles_map" where
  "by_name roles = foldl (\<lambda>m r. mput (ro_Name r) r m) [] roles"

definition ExpandInheritance :: "Role list \<Rightarrow> (policy_error + expanded) option" where
  "ExpandInheritance roles =
     (case ValidateRoles roles of
        None \<Rightarrow> None
      | Some (Some err) \<Rightarrow> Some (Inl err)
      | Some None \<Rightarrow>
          (let byName = by_name roles
           in map_option Inr (resolve_all byName (length byName + 2) (map ro_Name roles) [])))"

subsection \<open>Sets of permissions\<close>

definition granted :: "PermissionSet option \<Rightarrow> Permission set" where
  "granted s = {p. Has s p}"

text \<open>What the constructors build: a map without the empty permission.\<close>

definition wf_ps :: "PermissionSet option \<Rightarrow> bool" where
  "wf_ps s \<longleftrightarrow> is_map (safe s) \<and> [] \<notin> set (mkeys (safe s))"

lemma granted_None [simp]: "granted None = {}"
  by (simp add: granted_def Has_def)

lemma granted_safe: "granted s = set (mkeys (safe s)) - {[]}"
  by (auto simp: granted_def Has_def safe_def set_mkeys split: option.splits)

lemma granted_wf: "wf_ps s \<Longrightarrow> granted s = set (mkeys (safe s))"
  by (auto simp: granted_safe wf_ps_def)

lemma foldl_new:
  "set (mkeys (foldl (\<lambda>m p. if p \<noteq> [] then mput p () m else m) m ps)) = set (mkeys m) \<union> (set ps - {[]})"
  "is_map m \<Longrightarrow> is_map (foldl (\<lambda>m p. if p \<noteq> [] then mput p () m else m) m ps)"
  by (induction ps arbitrary: m) auto

lemma granted_New [simp]: "granted (NewPermissionSet ps) = set ps - {[]}"
  by (auto simp: granted_safe NewPermissionSet_def safe_def foldl_new)

lemma wf_New [simp]: "wf_ps (NewPermissionSet ps)"
  by (auto simp: wf_ps_def NewPermissionSet_def safe_def foldl_new)

lemma mkeys_Cons [simp]: "mkeys (x # m) = fst x # mkeys m"
  by (simp add: mkeys_def)

lemma copy_map_keys:
  "set (mkeys (copy_map dst src)) = set (mkeys dst) \<union> set (mkeys src)"
  "is_map dst \<Longrightarrow> is_map (copy_map dst src)"
  unfolding copy_map_def by (induction src arbitrary: dst) (auto simp: mkeys_Cons)

lemma foldl_copy:
  "set (mkeys (foldl (\<lambda>m other. copy_map m (safe other)) m others)) =
     set (mkeys m) \<union> (\<Union>other \<in> set others. set (mkeys (safe other)))"
  "is_map m \<Longrightarrow> is_map (foldl (\<lambda>m other. copy_map m (safe other)) m others)"
  by (induction others arbitrary: m) (auto simp: copy_map_keys)

lemma granted_Union [simp]: "granted (Union_ps s others) = granted s \<union> (\<Union>other \<in> set others. granted other)"
proof -
  have "safe (Union_ps s others) = foldl (\<lambda>m other. copy_map m (safe other)) (copy_map [] (safe s)) others"
    by (simp add: safe_def Union_ps_def)
  then show ?thesis
    by (auto simp: granted_safe foldl_copy copy_map_keys)
qed

lemma wf_Union [simp]: "wf_ps s \<Longrightarrow> list_all wf_ps others \<Longrightarrow> wf_ps (Union_ps s others)"
  by (auto simp: wf_ps_def Union_ps_def safe_def [of "Some _"] foldl_copy copy_map_keys list_all_iff)

lemma Len_wf: "wf_ps s \<Longrightarrow> Len s = card (granted s)"
  by (cases s) (auto simp: Len_def granted_wf wf_ps_def safe_def length_is_map)

lemma finite_granted [simp]: "finite (granted s)"
  by (simp add: granted_safe)

lemma IsSubsetOf_iff: "wf_ps s \<Longrightarrow> IsSubsetOf s t \<longleftrightarrow> granted s \<subseteq> granted t"
  by (auto simp: IsSubsetOf_def list_all_iff granted_wf) (auto simp: granted_def)

lemma Equal_ps_iff: "wf_ps s \<Longrightarrow> wf_ps t \<Longrightarrow> Equal_ps s t \<longleftrightarrow> granted s = granted t"
  using card_seteq [OF finite_granted, of "granted s" t] by (auto simp: Equal_ps_def IsSubsetOf_iff Len_wf)

lemma Has_g_New: "Has_g (NewGrants sets) p \<longleftrightarrow> (\<exists>s \<in> set sets. Has s p)"
proof -
  have "\<not> IsEmpty s \<and> s \<noteq> None" if "Has s p" for s
    using that by (auto simp: IsEmpty_def Len_def Has_def split: option.splits if_splits)
  then show ?thesis
    by (auto simp: Has_g_def NewGrants_def Let_def list_ex_iff filter_empty_conv)
qed

subsection \<open>Walking the inheritance graph\<close>

definition inherits :: "roles_map \<Rightarrow> (string \<times> string) set" where
  "inherits byName = {(a, b). b \<in> set (parents_of byName a)}"

definition on_path :: "walk_state \<Rightarrow> string set" where
  "on_path st = {n. mget st n = Some visiting}"

definition finished :: "walk_state \<Rightarrow> string set" where
  "finished st = {n. mget st n = Some visited}"

text \<open>The finished names are closed under inheritance and on no cycle.\<close>

definition good :: "(string \<times> string) set \<Rightarrow> walk_state \<Rightarrow> bool" where
  "good R st \<longleftrightarrow> (\<forall>a \<in> finished st. \<forall>b. (a, b) \<in> R \<longrightarrow> b \<in> finished st) \<and> (\<forall>a \<in> finished st. (a, a) \<notin> R\<^sup>+)"

definition walk_pre :: "(string \<times> string) set \<Rightarrow> string list \<Rightarrow> walk_state \<Rightarrow> bool" where
  "walk_pre R path st \<longleftrightarrow> on_path st = set path \<and> successively (\<lambda>a b. (a, b) \<in> R) path \<and> good R st"

text \<open>A chain of inheritance that comes back to a role already on it.\<close>

definition cycle_path :: "(string \<times> string) set \<Rightarrow> string list \<Rightarrow> bool" where
  "cycle_path R p \<longleftrightarrow> successively (\<lambda>a b. (a, b) \<in> R) p \<and> p \<noteq> [] \<and> last p \<in> set (butlast p)"

definition walk_spec :: "(string \<times> string) set \<Rightarrow> string set \<Rightarrow> walk_state \<Rightarrow>
    (policy_error option \<times> walk_state) option \<Rightarrow> bool" where
  "walk_spec R names st r =
     (case r of
        None \<Rightarrow> True
      | Some (Some err, st') \<Rightarrow> \<exists>p. err = ErrInheritanceCycle p \<and> cycle_path R p
      | Some (None, st') \<Rightarrow> on_path st' = on_path st \<and> finished st \<subseteq> finished st' \<and> names \<subseteq> finished st' \<and> good R st')"

lemma visiting_neq_visited [simp]: "visiting \<noteq> visited" "visited \<noteq> visiting"
  by (simp_all add: visiting_def visited_def)

lemma good_closed:
  assumes "good R st" and "a \<in> finished st" and "(a, b) \<in> R\<^sup>*"
  shows "b \<in> finished st"
  using assms(3,1,2) by (induction rule: rtrancl_induct) (auto simp: good_def)

lemma walk_parents_spec:
  assumes "\<And>p st. p \<in> set ps \<Longrightarrow> walk_pre R path st \<Longrightarrow> walk_spec R {p} st (rec p st)"
    and "walk_pre R path st"
  shows "walk_spec R (set ps) st (walk_parents rec ps st)"
  using assms
proof (induction ps arbitrary: st)
  case Nil
  then show ?case by (simp add: walk_spec_def walk_pre_def)
next
  case (Cons p ps)
  have sp: "walk_spec R {p} st (rec p st)" using Cons.prems by simp
  show ?case
  proof (cases "\<exists>st'. rec p st = Some (None, st')")
    case True
    then obtain st' where r: "rec p st = Some (None, st')" by blast
    with sp have st': "on_path st' = on_path st" "finished st \<subseteq> finished st'" "p \<in> finished st'" "good R st'"
      by (auto simp: walk_spec_def)
    with Cons.prems(2) have "walk_pre R path st'" by (simp add: walk_pre_def)
    with Cons.IH Cons.prems(1) have "walk_spec R (set ps) st' (walk_parents rec ps st')" by simp
    with r st' show ?thesis by (auto simp: walk_spec_def split: option.splits)
  next
    case False
    with sp show ?thesis by (auto simp: walk_spec_def split: option.splits)
  qed
qed

lemma successively_reach:
  "successively (\<lambda>a b. (a, b) \<in> R) path \<Longrightarrow> c \<in> set path \<Longrightarrow> (c, last path) \<in> R\<^sup>*"
proof (induction path arbitrary: c)
  case (Cons x zs)
  show ?case
  proof (cases zs)
    case (Cons y ys)
    with Cons.prems have "(x, y) \<in> R" "successively (\<lambda>a b. (a, b) \<in> R) zs" by simp_all
    moreover from this Cons.IH [of y] Cons.IH [of c] Cons have "(y, last zs) \<in> R\<^sup>*"
      "c \<in> set zs \<Longrightarrow> (c, last zs) \<in> R\<^sup>*" by auto
    ultimately show ?thesis
      using Cons.prems Cons by (auto intro: converse_rtrancl_into_rtrancl)
  qed (use Cons.prems in auto)
qed simp

lemma cycle_path_cyclic:
  assumes "cycle_path R p"
  shows "\<not> acyclic R"
proof -
  let ?path = "butlast p" and ?c = "last p"
  have "p = ?path @ [?c]" "?c \<in> set ?path" using assms by (auto simp: cycle_path_def)
  then have "successively (\<lambda>a b. (a, b) \<in> R) ?path" "(last ?path, ?c) \<in> R"
    using assms successively_append_iff [of "\<lambda>a b. (a, b) \<in> R" ?path "[?c]"] by (auto simp: cycle_path_def)
  with successively_reach [of R ?path ?c] \<open>?c \<in> set ?path\<close> have "(?c, ?c) \<in> R\<^sup>+"
    by (auto intro: rtrancl_into_trancl1)
  then show ?thesis by (auto simp: acyclic_def)
qed

lemma walk_meets_spec:
  assumes "walk_pre (inherits byName) path st" and "path = [] \<or> (last path, name) \<in> inherits byName"
  shows "walk_spec (inherits byName) {name} st (walk byName fuel path name st)"
  using assms
proof (induction fuel arbitrary: path name st)
  case 0
  then show ?case by (simp add: walk_spec_def)
next
  case (Suc fuel)
  let ?R = "inherits byName"
  consider (cycle) "mget st name = Some visiting" | (old) "mget st name = Some visited"
    | (new) "mget st name \<noteq> Some visiting" "mget st name \<noteq> Some visited" by blast
  then show ?case
  proof cases
    case cycle
    with Suc.prems have "name \<in> set path" "path \<noteq> []" by (auto simp: walk_pre_def on_path_def)
    with Suc.prems have "cycle_path ?R (path @ [name])"
      by (auto simp: walk_pre_def cycle_path_def successively_append_iff)
    with cycle show ?thesis by (simp add: walk_spec_def)
  next
    case old
    with Suc.prems show ?thesis by (simp add: walk_spec_def walk_pre_def finished_def)
  next
    case new
    let ?st1 = "mput name visiting st"
    have path1: "on_path ?st1 = insert name (on_path st)" "finished ?st1 = finished st"
      using new by (auto simp: on_path_def finished_def)
    then have "walk_pre ?R (path @ [name]) ?st1"
      using Suc.prems by (auto simp: walk_pre_def good_def successively_append_iff)
    then have sp: "walk_spec ?R (set (parents_of byName name)) ?st1
        (walk_parents (walk byName fuel (path @ [name])) (parents_of byName name) ?st1)"
      by (rule walk_parents_spec [rotated]) (rule Suc.IH, auto simp: inherits_def)
    show ?thesis
    proof (cases "\<exists>st2. walk_parents (walk byName fuel (path @ [name])) (parents_of byName name) ?st1 = Some (None, st2)")
      case True
      then obtain st2 where r: "walk_parents (walk byName fuel (path @ [name])) (parents_of byName name) ?st1 = Some (None, st2)"
        by blast
      with sp have st2: "on_path st2 = insert name (on_path st)" "finished st \<subseteq> finished st2"
        "set (parents_of byName name) \<subseteq> finished st2" "good ?R st2"
        by (auto simp: walk_spec_def path1)
      have fin: "on_path (mput name visited st2) = on_path st" "finished (mput name visited st2) = insert name (finished st2)"
        using st2(1) new by (auto simp: on_path_def finished_def)
      have "name \<in> on_path st2" by (simp add: st2(1))
      then have "name \<notin> finished st2" by (simp add: on_path_def finished_def)
      then have acyc: "(name, name) \<notin> ?R\<^sup>+"
        using st2(3) good_closed [OF st2(4)] by (auto simp: inherits_def dest!: tranclD)
      have "good ?R (mput name visited st2)"
        using st2(3,4) acyc by (auto simp: good_def fin inherits_def)
      with r new st2(2) fin show ?thesis by (auto simp: walk_spec_def)
    next
      case False
      with sp new show ?thesis by (auto simp: walk_spec_def split: option.splits)
    qed
  qed
qed

text \<open>Enough fuel: one more than the names not on the path.\<close>

lemma walk_parents_total:
  assumes "\<And>p st. on_path st = P \<Longrightarrow> \<exists>r st'. rec p st = Some (r, st') \<and> (r = None \<longrightarrow> on_path st' = P)"
    and "on_path st = P"
  shows "\<exists>r st'. walk_parents rec ps st = Some (r, st') \<and> (r = None \<longrightarrow> on_path st' = P)"
  using assms(2)
proof (induction ps arbitrary: st)
  case (Cons p ps)
  obtain r st' where r: "rec p st = Some (r, st')" "r = None \<longrightarrow> on_path st' = P"
    using assms(1) [OF Cons.prems] by blast
  with Cons.IH [of st'] show ?case by (cases r) auto
qed auto

lemma walk_total:
  assumes "card (set (mkeys byName) - on_path st) < fuel"
  shows "\<exists>r st'. walk byName fuel path name st = Some (r, st') \<and> (r = None \<longrightarrow> on_path st' = on_path st)"
  using assms
proof (induction fuel arbitrary: path name st)
  case (Suc fuel)
  show ?case
  proof (cases "mget st name = Some visiting \<or> mget st name = Some visited")
    case True
    then show ?thesis by auto
  next
    case False
    let ?st1 = "mput name visiting st"
    have p1: "on_path ?st1 = insert name (on_path st)" by (auto simp: on_path_def)
    have "\<exists>r st2. walk_parents (walk byName fuel (path @ [name])) (parents_of byName name) ?st1 = Some (r, st2) \<and>
        (r = None \<longrightarrow> on_path st2 = insert name (on_path st))"
    proof (cases "name \<in> set (mkeys byName)")
      case True
      have "card (set (mkeys byName) - insert name (on_path st)) < card (set (mkeys byName) - on_path st)"
        using True False by (intro psubset_card_mono) (auto simp: on_path_def)
      with Suc.prems have "card (set (mkeys byName) - insert name (on_path st)) < fuel" by simp
      then have step: "\<exists>r st'. walk byName fuel (path @ [name]) p st2 = Some (r, st') \<and>
          (r = None \<longrightarrow> on_path st' = insert name (on_path st))"
        if "on_path st2 = insert name (on_path st)" for p st2
        using Suc.IH [of st2 "path @ [name]" p] that by simp
      show ?thesis by (rule walk_parents_total [OF step p1])
    next
      case undef: False
      then have "parents_of byName name = []" by (simp add: parents_of_def mget_eq_None_iff [symmetric])
      then show ?thesis by (simp add: p1)
    qed
    then obtain r st2 where r: "walk_parents (walk byName fuel (path @ [name])) (parents_of byName name) ?st1 =
        Some (r, st2)" "r = None \<longrightarrow> on_path st2 = insert name (on_path st)" by blast
    have "on_path (mput name visited st2) = on_path st" if "on_path st2 = insert name (on_path st)"
      using that False by (auto simp: on_path_def)
    with r False show ?thesis by (cases r) auto
  qed
qed simp

lemma detectCycles_spec:
  assumes "is_map byName"
  shows "\<exists>r. detectCycles byName = Some r \<and> (r = None \<longleftrightarrow> acyclic (inherits byName)) \<and>
    (\<forall>err. r = Some err \<longrightarrow> (\<exists>p. err = ErrInheritanceCycle p \<and> cycle_path (inherits byName) p))"
proof -
  let ?R = "inherits byName" and ?f = "walk byName (length byName + 2) []"
  have init: "on_path [] = {}" "finished [] = {}" by (auto simp: on_path_def finished_def)
  have "\<exists>r st'. walk_parents ?f (sort (mkeys byName)) [] = Some (r, st') \<and> (r = None \<longrightarrow> on_path st' = {})"
  proof (rule walk_parents_total)
    fix p st assume "on_path st = {}"
    then show "\<exists>r st'. ?f p st = Some (r, st') \<and> (r = None \<longrightarrow> on_path st' = {})"
      using walk_total [of byName st "length byName + 2" "[]" p] length_is_map [OF assms] by simp
  qed (rule init)
  then obtain r st' where r: "walk_parents ?f (sort (mkeys byName)) [] = Some (r, st')" by blast
  have "walk_pre ?R [] []" by (simp add: walk_pre_def init good_def)
  then have sp: "walk_spec ?R (set (sort (mkeys byName))) [] (walk_parents ?f (sort (mkeys byName)) [])"
    by (rule walk_parents_spec [rotated]) (rule walk_meets_spec, simp_all)
  have "(r = None \<longleftrightarrow> acyclic ?R) \<and> (\<forall>err. r = Some err \<longrightarrow> (\<exists>p. err = ErrInheritanceCycle p \<and> cycle_path ?R p))"
  proof (cases r)
    case None
    with r sp have fin: "set (mkeys byName) \<subseteq> finished st'" "good ?R st'" by (auto simp: walk_spec_def)
    have "a \<in> set (mkeys byName)" if "(a, b) \<in> ?R" for a b
      using that by (auto simp: inherits_def parents_of_def mget_eq_None_iff split: option.splits)
        (metis mget_eq_None_iff option.distinct(1))
    then have "(a, a) \<notin> ?R\<^sup>+" for a
      using fin by (metis good_def subsetD tranclD)
    with None show ?thesis by (simp add: acyclic_def)
  next
    case (Some err)
    with r sp show ?thesis by (auto simp: walk_spec_def dest: cycle_path_cyclic)
  qed
  with r show ?thesis by (simp add: detectCycles_def)
qed

subsection \<open>Expanding inheritance\<close>

text \<open>The permissions of every role a name reaches.\<close>

definition effective :: "roles_map \<Rightarrow> string \<Rightarrow> Permission set" where
  "effective byName name = (\<Union>a \<in> {a. (name, a) \<in> (inherits byName)\<^sup>*}. set (perms_of byName a) - {[]})"

lemma effective_unfold:
  "effective byName name =
     (set (perms_of byName name) - {[]}) \<union> (\<Union>p \<in> set (parents_of byName name). effective byName p)"
proof -
  have "(name, a) \<in> (inherits byName)\<^sup>* \<longleftrightarrow>
      a = name \<or> (\<exists>p \<in> set (parents_of byName name). (p, a) \<in> (inherits byName)\<^sup>*)" for a
    by (auto simp: inherits_def elim: converse_rtranclE intro: converse_rtrancl_into_rtrancl)
  then show ?thesis by (auto simp: effective_def)
qed

text \<open>An entry that is present holds the whole effective set.\<close>

definition full_at :: "roles_map \<Rightarrow> expanded \<Rightarrow> string \<Rightarrow> bool" where
  "full_at byName ex a = (case mget ex a of None \<Rightarrow> True | Some s \<Rightarrow> wf_ps s \<and> granted s = effective byName a)"

definition extends_full :: "roles_map \<Rightarrow> string set \<Rightarrow> expanded \<Rightarrow> expanded \<Rightarrow> bool" where
  "extends_full byName except ex ex' \<longleftrightarrow>
     (\<forall>a. a \<notin> except \<longrightarrow>
        (mget ex a \<noteq> None \<longrightarrow> mget ex' a = mget ex a) \<and> (mget ex a = None \<longrightarrow> full_at byName ex' a))"

definition resolved :: "roles_map \<Rightarrow> string \<Rightarrow> expanded \<Rightarrow> (PermissionSet option \<times> expanded) option \<Rightarrow> bool" where
  "resolved byName name ex r =
     (case r of
        None \<Rightarrow> True
      | Some (got, ex') \<Rightarrow>
          mget ex' name = Some got \<and> wf_ps got \<and> granted got = effective byName name \<and>
          extends_full byName {} ex ex')"

lemma extends_full_at: "extends_full byName X ex ex' \<Longrightarrow> a \<notin> X \<Longrightarrow> full_at byName ex a \<Longrightarrow> full_at byName ex' a"
  by (cases "mget ex a") (auto simp: extends_full_def full_at_def)

lemma extends_full_trans:
  assumes "extends_full byName {} ex ex'" and "extends_full byName {name} (mput name x ex') ex''"
  shows "extends_full byName {name} ex ex''"
  unfolding extends_full_def
proof (intro allI impI)
  fix a assume a: "a \<notin> {name}"
  show "(mget ex a \<noteq> None \<longrightarrow> mget ex'' a = mget ex a) \<and> (mget ex a = None \<longrightarrow> full_at byName ex'' a)"
  proof (cases "mget ex a")
    case None
    with assms(1) have "full_at byName ex' a" by (simp add: extends_full_def)
    with a have "full_at byName (mput name x ex') a" by (simp add: full_at_def)
    with extends_full_at [OF assms(2) a] None show ?thesis by simp
  next
    case (Some s)
    with assms(1) have "mget ex' a = Some s" by (simp add: extends_full_def)
    with assms(2) a Some show ?thesis by (simp add: extends_full_def)
  qed
qed

lemma extends_full_fresh:
  assumes "extends_full byName {name} (mput name x ex) ex'" and "mget ex name = None" and "full_at byName ex' name"
  shows "extends_full byName {} ex ex'"
  unfolding extends_full_def
proof (intro allI impI)
  fix a
  show "(mget ex a \<noteq> None \<longrightarrow> mget ex' a = mget ex a) \<and> (mget ex a = None \<longrightarrow> full_at byName ex' a)"
    using assms by (cases "a = name") (simp_all add: extends_full_def)
qed

lemma resolve_parents_spec:
  assumes "\<And>p ex. p \<in> set ps \<Longrightarrow> (\<And>a. (p, a) \<in> (inherits byName)\<^sup>* \<Longrightarrow> full_at byName ex a) \<Longrightarrow>
      resolved byName p ex (rec p ex)"
    and "\<And>p a. p \<in> set ps \<Longrightarrow> (p, a) \<in> (inherits byName)\<^sup>* \<Longrightarrow> a \<noteq> name \<and> full_at byName ex a"
    and "wf_ps acc" and "mget ex name = Some acc"
    and "resolve_parents rec name ps acc ex = Some (got, ex')"
  shows "mget ex' name = Some got \<and> wf_ps got \<and>
    granted got = granted acc \<union> (\<Union>p \<in> set ps. effective byName p) \<and> extends_full byName {name} ex ex'"
  using assms
proof (induction ps arbitrary: acc ex)
  case Nil
  then show ?case by (auto simp: extends_full_def full_at_def)
next
  case (Cons p ps)
  obtain g ex1 where r: "rec p ex = Some (g, ex1)"
    using Cons.prems(5) by (cases "rec p ex") auto
  have rp: "resolved byName p ex (rec p ex)"
    by (rule Cons.prems(1)) (use Cons.prems(2) [of p] in auto)
  with r have g: "wf_ps g" "granted g = effective byName p" "extends_full byName {} ex ex1"
    by (auto simp: resolved_def)
  let ?acc = "Union_ps acc [g]" and ?ex = "mput name (Union_ps acc [g]) ex1"
  have run: "resolve_parents rec name ps ?acc ?ex = Some (got, ex')" using Cons.prems(5) r by (simp add: Let_def)
  have "full_at byName ?ex a \<and> a \<noteq> name" if "q \<in> set ps" "(q, a) \<in> (inherits byName)\<^sup>*" for q a
    using Cons.prems(2) [of q a] that extends_full_at [OF g(3), of a] by (auto simp: full_at_def)
  with Cons.IH [OF Cons.prems(1) _ _ _ run] Cons.prems(3) g
  have "mget ex' name = Some got \<and> wf_ps got \<and>
      granted got = granted ?acc \<union> (\<Union>p \<in> set ps. effective byName p) \<and> extends_full byName {name} ?ex ex'"
    by auto
  with extends_full_trans [OF g(3)] g(2) show ?case by auto
qed

lemma resolve_spec:
  assumes "acyclic (inherits byName)" and "\<And>a. (name, a) \<in> (inherits byName)\<^sup>* \<Longrightarrow> full_at byName ex a"
  shows "resolved byName name ex (resolve byName fuel name ex)"
  using assms(2)
proof (induction fuel arbitrary: name ex)
  case 0
  then show ?case by (simp add: resolved_def)
next
  case (Suc fuel)
  show ?case
  proof (cases "mget ex name")
    case (Some got)
    with Suc.prems [of name] show ?thesis by (auto simp: resolved_def full_at_def extends_full_def)
  next
    case None
    let ?acc = "NewPermissionSet (perms_of byName name)"
    let ?ex = "mput name ?acc ex"
    have fresh: "a \<noteq> name \<and> full_at byName ?ex a"
      if "p \<in> set (parents_of byName name)" "(p, a) \<in> (inherits byName)\<^sup>*" for p a
    proof -
      from that have e: "(name, p) \<in> inherits byName" by (simp add: inherits_def)
      with that have "(name, a) \<in> (inherits byName)\<^sup>+" by (simp add: rtrancl_into_trancl2)
      with assms(1) have "a \<noteq> name" by (auto simp: acyclic_def)
      moreover from e that have "full_at byName ex a" by (intro Suc.prems) (rule converse_rtrancl_into_rtrancl)
      ultimately show ?thesis by (simp add: full_at_def)
    qed
    show ?thesis
    proof (cases "resolve_parents (resolve byName fuel) name (parents_of byName name) ?acc ?ex")
      case none: None
      with None show ?thesis by (simp add: resolved_def)
    next
      case (Some r)
      obtain got ex' where r: "r = (got, ex')" by fastforce
      have "mget ex' name = Some got \<and> wf_ps got \<and> granted got = effective byName name \<and>
          extends_full byName {name} ?ex ex'"
        using resolve_parents_spec [OF Suc.IH fresh _ _ Some [unfolded r]] effective_unfold [of byName name]
        by simp
      moreover from this have "extends_full byName {} ex ex'"
        by (intro extends_full_fresh [OF _ None, where x = ?acc]) (simp_all add: full_at_def)
      ultimately show ?thesis using None Some r by (simp add: resolved_def)
    qed
  qed
qed

text \<open>Enough fuel: one more than the names not yet expanded.\<close>

lemma resolve_parents_total:
  assumes "\<And>p ex. N \<subseteq> set (mkeys ex) \<Longrightarrow> \<exists>got ex'. rec p ex = Some (got, ex') \<and> set (mkeys ex) \<subseteq> set (mkeys ex')"
    and "N \<subseteq> set (mkeys ex)"
  shows "\<exists>got ex'. resolve_parents rec name ps acc ex = Some (got, ex') \<and> set (mkeys ex) \<subseteq> set (mkeys ex')"
  using assms(2)
proof (induction ps arbitrary: acc ex)
  case (Cons p ps)
  obtain got ex' where r: "rec p ex = Some (got, ex')" "set (mkeys ex) \<subseteq> set (mkeys ex')"
    using assms(1) [OF Cons.prems] by blast
  let ?ex = "mput name (Union_ps acc [got]) ex'"
  have "N \<subseteq> set (mkeys ?ex)" using Cons.prems r(2) by auto
  then obtain got2 ex2 where r2: "resolve_parents rec name ps (Union_ps acc [got]) ?ex = Some (got2, ex2)"
    "set (mkeys ?ex) \<subseteq> set (mkeys ex2)" using Cons.IH by blast
  then have "set (mkeys ex) \<subseteq> set (mkeys ex2)" using r(2) by auto
  with r(1) r2(1) show ?case by (simp add: Let_def)
qed auto

lemma resolve_total:
  assumes "card (set (mkeys byName) - set (mkeys ex)) < fuel"
  shows "\<exists>got ex'. resolve byName fuel name ex = Some (got, ex') \<and> set (mkeys ex) \<subseteq> set (mkeys ex')"
  using assms
proof (induction fuel arbitrary: name ex)
  case (Suc fuel)
  show ?case
  proof (cases "mget ex name")
    case None
    let ?acc = "NewPermissionSet (perms_of byName name)"
    let ?ex = "mput name ?acc ex"
    have "\<exists>got ex'. resolve_parents (resolve byName fuel) name (parents_of byName name) ?acc ?ex = Some (got, ex') \<and>
        set (mkeys ?ex) \<subseteq> set (mkeys ex')"
    proof (cases "name \<in> set (mkeys byName)")
      case True
      have sub: "\<exists>got ex'. resolve byName fuel p e = Some (got, ex') \<and> set (mkeys e) \<subseteq> set (mkeys ex')"
        if "set (mkeys ?ex) \<subseteq> set (mkeys e)" for p e
      proof (rule Suc.IH)
        have "card (set (mkeys byName) - set (mkeys e)) < card (set (mkeys byName) - set (mkeys ex))"
          using True None that by (intro psubset_card_mono) (auto simp: mget_eq_None_iff)
        with Suc.prems show "card (set (mkeys byName) - set (mkeys e)) < fuel" by simp
      qed
      show ?thesis by (rule resolve_parents_total [where N = "set (mkeys ?ex)"]) (rule sub, simp_all)
    next
      case False
      then have "parents_of byName name = []" by (simp add: parents_of_def mget_eq_None_iff [symmetric])
      then show ?thesis by auto
    qed
    with None show ?thesis by (auto simp: Let_def)
  qed auto
qed simp

lemma resolve_all_spec:
  assumes "acyclic (inherits byName)" and "is_map byName" and "\<And>a. full_at byName ex a"
  shows "\<exists>ex'. resolve_all byName (length byName + 2) names ex = Some ex' \<and> (\<forall>a. full_at byName ex' a) \<and>
    set names \<union> set (mkeys ex) \<subseteq> set (mkeys ex')"
  using assms(3)
proof (induction names arbitrary: ex)
  case (Cons name names)
  have "card (set (mkeys byName) - set (mkeys ex)) \<le> card (set (mkeys byName))"
    by (intro card_mono) auto
  then obtain got ex1 where r: "resolve byName (length byName + 2) name ex = Some (got, ex1)"
    "set (mkeys ex) \<subseteq> set (mkeys ex1)"
    using resolve_total [of byName ex "length byName + 2" name] length_is_map [OF assms(2)] by auto
  have "resolved byName name ex (Some (got, ex1))"
    using resolve_spec [OF assms(1) Cons.prems, of name "length byName + 2"] r(1) by simp
  then have ex1: "mget ex1 name = Some got" "extends_full byName {} ex ex1"
    by (auto simp: resolved_def)
  have "\<And>a. full_at byName ex1 a" using extends_full_at [OF ex1(2)] Cons.prems by simp
  then obtain ex2 where r2: "resolve_all byName (length byName + 2) names ex1 = Some ex2"
    "\<forall>a. full_at byName ex2 a" "set names \<union> set (mkeys ex1) \<subseteq> set (mkeys ex2)" using Cons.IH by blast
  have "name \<in> set (mkeys ex1)" using ex1(1) mget_eq_None_iff [of ex1 name] by auto
  with r(2) r2(3) have "set (name # names) \<union> set (mkeys ex) \<subseteq> set (mkeys ex2)" by auto
  with r(1) r2(1,2) show ?case by simp
qed auto

text \<open>Expansion stays within a set of names closed under inheritance.\<close>

lemma resolve_parents_keys:
  assumes "\<And>p ex got ex'. p \<in> N \<Longrightarrow> set (mkeys ex) \<subseteq> N \<Longrightarrow> rec p ex = Some (got, ex') \<Longrightarrow> set (mkeys ex') \<subseteq> N"
    and "name \<in> N" and "set ps \<subseteq> N" and "set (mkeys ex) \<subseteq> N"
    and "resolve_parents rec name ps acc ex = Some (got, ex')"
  shows "set (mkeys ex') \<subseteq> N"
  using assms(3-)
proof (induction ps arbitrary: acc ex)
  case (Cons p ps)
  obtain g ex1 where r: "rec p ex = Some (g, ex1)"
    using Cons.prems(3) by (cases "rec p ex") auto
  have "set (mkeys ex1) \<subseteq> N" using assms(1) [OF _ Cons.prems(2) r] Cons.prems(1) by simp
  with assms(2) have "set (mkeys (mput name (Union_ps acc [g]) ex1)) \<subseteq> N" by simp
  with Cons.prems(1,3) r show ?case by (intro Cons.IH) (auto simp: Let_def)
qed simp

lemma resolve_keys:
  assumes "\<And>a. a \<in> N \<Longrightarrow> set (parents_of byName a) \<subseteq> N"
  shows "name \<in> N \<Longrightarrow> set (mkeys ex) \<subseteq> N \<Longrightarrow> resolve byName fuel name ex = Some (got, ex') \<Longrightarrow> set (mkeys ex') \<subseteq> N"
proof (induction fuel arbitrary: name ex got ex')
  case (Suc fuel)
  show ?case
  proof (cases "mget ex name")
    case None
    let ?acc = "NewPermissionSet (perms_of byName name)"
    have run: "resolve_parents (resolve byName fuel) name (parents_of byName name) ?acc (mput name ?acc ex) =
        Some (got, ex')" using Suc.prems(3) None by (simp add: Let_def)
    have keys: "set (mkeys (mput name ?acc ex)) \<subseteq> N" using Suc.prems(1,2) by simp
    show ?thesis
      by (rule resolve_parents_keys [OF _ Suc.prems(1) assms [OF Suc.prems(1)] keys run]) (rule Suc.IH)
  qed (use Suc.prems in auto)
qed simp

lemma resolve_all_keys:
  assumes "\<And>a. a \<in> N \<Longrightarrow> set (parents_of byName a) \<subseteq> N"
  shows "set names \<subseteq> N \<Longrightarrow> set (mkeys ex) \<subseteq> N \<Longrightarrow> resolve_all byName fuel names ex = Some ex' \<Longrightarrow> set (mkeys ex') \<subseteq> N"
proof (induction names arbitrary: ex)
  case (Cons name names)
  obtain got ex1 where r: "resolve byName fuel name ex = Some (got, ex1)"
    using Cons.prems(3) by (cases "resolve byName fuel name ex") auto
  have "set (mkeys ex1) \<subseteq> N"
    by (rule resolve_keys [OF assms _ Cons.prems(2) r]) (use Cons.prems(1) in auto)
  with Cons.prems r show ?case by (intro Cons.IH) auto
qed simp

subsection \<open>Well-formed policies\<close>

definition well_formed_policy :: "Role list \<Rightarrow> bool" where
  "well_formed_policy roles \<longleftrightarrow>
     distinct (map ro_Name roles) \<and> [] \<notin> set (map ro_Name roles) \<and>
     (\<forall>r \<in> set roles. ro_Name r \<notin> set (ro_Inherits r) \<and> set (ro_Inherits r) \<subseteq> set (map ro_Name roles)) \<and>
     acyclic (inherits (by_name roles))"

lemma by_name_fold:
  "distinct (map ro_Name rs) \<Longrightarrow> is_map m \<Longrightarrow> set (map ro_Name rs) \<inter> set (mkeys m) = {} \<Longrightarrow>
     is_map (foldl (\<lambda>m r. mput (ro_Name r) r m) m rs) \<and>
     set (mkeys (foldl (\<lambda>m r. mput (ro_Name r) r m) m rs)) = set (mkeys m) \<union> set (map ro_Name rs) \<and>
     (\<forall>r \<in> set rs. mget (foldl (\<lambda>m r. mput (ro_Name r) r m) m rs) (ro_Name r) = Some r) \<and>
     (\<forall>k. k \<notin> set (map ro_Name rs) \<longrightarrow> mget (foldl (\<lambda>m r. mput (ro_Name r) r m) m rs) k = mget m k)"
proof (induction rs arbitrary: m)
  case (Cons r rs)
  then have "is_map (mput (ro_Name r) r m)" "set (map ro_Name rs) \<inter> set (mkeys (mput (ro_Name r) r m)) = {}"
    by auto
  with Cons.IH [of "mput (ro_Name r) r m"] Cons.prems show ?case by auto
qed simp

text \<open>What an error says of the policy.\<close>

definition policy_fault :: "Role list \<Rightarrow> policy_error \<Rightarrow> bool" where
  "policy_fault roles err =
     (case err of
        ErrEmptyRoleName \<Rightarrow> [] \<in> set (map ro_Name roles)
      | ErrDuplicateRole n \<Rightarrow> 2 \<le> count_list (map ro_Name roles) n
      | ErrUnknownParentRole n p \<Rightarrow> (\<exists>r \<in> set roles. ro_Name r = n \<and> p \<in> set (ro_Inherits r)) \<and> p \<notin> set (map ro_Name roles)
      | ErrSelfInheritance n \<Rightarrow> \<exists>r \<in> set roles. ro_Name r = n \<and> n \<in> set (ro_Inherits r)
      | ErrInheritanceCycle p \<Rightarrow> cycle_path (inherits (by_name roles)) p)"

lemma count_list_distinct: "distinct xs \<Longrightarrow> count_list xs x \<le> 1"
  by (induction xs) (auto simp: count_list_0_iff)

lemma policy_fault_not_well_formed: "policy_fault roles err \<Longrightarrow> \<not> well_formed_policy roles"
proof (cases err)
  case (ErrDuplicateRole n)
  assume "policy_fault roles err"
  with ErrDuplicateRole show ?thesis
    using count_list_distinct [of "map ro_Name roles" n] by (auto simp: policy_fault_def well_formed_policy_def)
next
  case (ErrInheritanceCycle p)
  assume "policy_fault roles err"
  with ErrInheritanceCycle show ?thesis
    using cycle_path_cyclic by (auto simp: policy_fault_def well_formed_policy_def)
qed (auto simp: policy_fault_def well_formed_policy_def)

lemma index_roles_spec:
  "set (mkeys m) = set (map ro_Name before) \<Longrightarrow>
    (case index_roles rs m of
       Inl err \<Rightarrow> err = ErrEmptyRoleName \<and> [] \<in> set (map ro_Name rs) \<or>
         (\<exists>n. err = ErrDuplicateRole n \<and> 2 \<le> count_list (map ro_Name (before @ rs)) n)
     | Inr byName \<Rightarrow> byName = foldl (\<lambda>m r. mput (ro_Name r) r m) m rs \<and> distinct (map ro_Name rs) \<and>
         [] \<notin> set (map ro_Name rs) \<and> set (map ro_Name rs) \<inter> set (mkeys m) = {})"
proof (induction rs arbitrary: m before)
  case (Cons r rs)
  consider (empty) "ro_Name r = []" | (dup) "ro_Name r \<noteq> []" "ro_Name r \<in> set (mkeys m)"
    | (new) "ro_Name r \<noteq> []" "ro_Name r \<notin> set (mkeys m)" by blast
  then show ?case
  proof cases
    case dup
    then have "count_list (map ro_Name before) (ro_Name r) \<noteq> 0" using Cons.prems by (simp add: count_list_0_iff)
    then have "2 \<le> count_list (map ro_Name (before @ r # rs)) (ro_Name r)" by simp
    with dup show ?thesis by (simp add: set_mkeys)
  next
    case new
    then have "mget m (ro_Name r) = None" by (simp add: mget_eq_None_iff)
    with new Cons.IH [of "mput (ro_Name r) r m" "before @ [r]"] Cons.prems show ?thesis
      by (auto split: sum.splits)
  qed simp
qed simp

lemma check_parents_spec:
  "case check_parents byName name ps of
     None \<Rightarrow> name \<notin> set ps \<and> set ps \<subseteq> set (mkeys byName)
   | Some err \<Rightarrow> err = ErrSelfInheritance name \<and> name \<in> set ps \<or>
       (\<exists>p \<in> set ps. err = ErrUnknownParentRole name p \<and> p \<notin> set (mkeys byName))"
  by (induction ps) (auto simp: mget_eq_None_iff split: option.splits)

lemma check_roles_spec:
  "case check_roles byName rs of
     None \<Rightarrow> \<forall>r \<in> set rs. ro_Name r \<notin> set (ro_Inherits r) \<and> set (ro_Inherits r) \<subseteq> set (mkeys byName)
   | Some err \<Rightarrow> \<exists>r \<in> set rs. err = ErrSelfInheritance (ro_Name r) \<and> ro_Name r \<in> set (ro_Inherits r) \<or>
       (\<exists>p \<in> set (ro_Inherits r). err = ErrUnknownParentRole (ro_Name r) p \<and> p \<notin> set (mkeys byName))"
proof (induction rs)
  case (Cons r rs)
  then show ?case
    using check_parents_spec [where byName = byName and name = "ro_Name r" and ps = "ro_Inherits r"] by (auto split: option.splits)
qed simp

lemma by_name_spec:
  assumes "distinct (map ro_Name roles)"
  shows "is_map (by_name roles)" "set (mkeys (by_name roles)) = set (map ro_Name roles)"
    "\<And>r. r \<in> set roles \<Longrightarrow> mget (by_name roles) (ro_Name r) = Some r"
  using by_name_fold [of roles "[]"] assms by (auto simp: by_name_def)

lemma ValidateRoles_spec:
  "\<exists>r. ValidateRoles roles = Some r \<and>
     (case r of None \<Rightarrow> well_formed_policy roles | Some err \<Rightarrow> policy_fault roles err)"
proof (cases "index_roles roles []")
  case (Inl err)
  with index_roles_spec [of "[]" "[]" roles] show ?thesis by (auto simp: ValidateRoles_def policy_fault_def)
next
  case (Inr byName)
  with index_roles_spec [of "[]" "[]" roles]
  have i: "byName = by_name roles" "distinct (map ro_Name roles)" "[] \<notin> set (map ro_Name roles)"
    by (auto simp: by_name_def)
  note b = by_name_spec [OF i(2)]
  obtain r where r: "detectCycles (by_name roles) = Some r" "r = None \<longleftrightarrow> acyclic (inherits (by_name roles))"
      "\<And>err. r = Some err \<Longrightarrow> \<exists>p. err = ErrInheritanceCycle p \<and> cycle_path (inherits (by_name roles)) p"
    using detectCycles_spec [OF b(1)] by blast
  show ?thesis
  proof (cases "check_roles (by_name roles) roles")
    case None
    with check_roles_spec [where byName = "by_name roles" and rs = roles] b(2)
    have c: "\<forall>r \<in> set roles. ro_Name r \<notin> set (ro_Inherits r) \<and> set (ro_Inherits r) \<subseteq> set (map ro_Name roles)" by simp
    have "ValidateRoles roles = Some r" using Inr i(1) None r(1) by (simp add: ValidateRoles_def)
    moreover have "case r of None \<Rightarrow> well_formed_policy roles | Some err \<Rightarrow> policy_fault roles err"
      using r(2,3) i(2,3) c by (cases r) (auto simp: well_formed_policy_def policy_fault_def)
    ultimately show ?thesis by blast
  next
    case (Some err)
    with check_roles_spec [where byName = "by_name roles" and rs = roles] b(2) have "policy_fault roles err"
      by (auto simp: policy_fault_def)
    with Inr i(1) Some show ?thesis by (simp add: ValidateRoles_def)
  qed
qed

subsection \<open>Properties\<close>

lemma HasAll_iff: "HasAll s ps \<longleftrightarrow> set ps \<subseteq> granted s"
  by (induction ps) (auto simp: granted_def)

lemma HasAny_iff: "HasAny s ps \<longleftrightarrow> set ps \<inter> granted s \<noteq> {}"
  by (auto simp: HasAny_def list_ex_iff granted_def)

lemma Slice_wf: "wf_ps s \<Longrightarrow> sorted (Slice s) \<and> distinct (Slice s) \<and> set (Slice s) = granted s"
  by (cases s) (auto simp: Slice_def granted_wf wf_ps_def safe_def distinct_mkeys)

lemma HasAll_g_iff: "HasAll_g g ps \<longleftrightarrow> (\<forall>p \<in> set ps. Has_g g p)"
  by (induction ps) auto

lemma Evaluate_get: "mget (Evaluate g perms) p = (if p \<in> set perms then Some (Has_g g p) else None)"
proof -
  have "mget (foldl (\<lambda>out p. mput p (Has_g g p) out) m perms) p =
      (if p \<in> set perms then Some (Has_g g p) else mget m p)" for m
    by (induction perms arbitrary: m) auto
  then show ?thesis by (simp add: Evaluate_def)
qed

lemma wf_IsEmpty: "wf_ps s \<Longrightarrow> IsEmpty s \<longleftrightarrow> granted s = {}"
  by (simp add: IsEmpty_def Len_wf)

lemma IsEmpty_g_New: "list_all wf_ps sets \<Longrightarrow> IsEmpty_g (NewGrants sets) \<longleftrightarrow> (\<forall>p. \<not> Has_g (NewGrants sets) p)"
proof -
  assume wf: "list_all wf_ps sets"
  have "IsEmpty_g (NewGrants sets) \<longleftrightarrow> (\<forall>s \<in> set sets. IsEmpty s)"
    by (auto simp: IsEmpty_g_def NewGrants_def Let_def list_all_iff filter_empty_conv IsEmpty_def [of None] Len_def)
  also have "\<dots> \<longleftrightarrow> (\<forall>s \<in> set sets. \<forall>p. \<not> Has s p)"
    using wf by (simp add: list_all_iff wf_IsEmpty granted_def)
  finally show ?thesis by (auto simp: Has_g_New)
qed

text \<open>A permission set behaves as the finite set of permissions it holds: containment, size, union
  and equality are the set operations, and the sorted listing holds every permission once and builds
  an equal set again.
\<close>

theorem permission_set_algebra:
  assumes "wf_ps s" and "wf_ps t"
  shows "(HasAll s ps \<longleftrightarrow> set ps \<subseteq> granted s) \<and> (HasAny s ps \<longleftrightarrow> set ps \<inter> granted s \<noteq> {}) \<and>
    Len s = card (granted s) \<and> (IsEmpty s \<longleftrightarrow> granted s = {}) \<and>
    (IsSubsetOf s t \<longleftrightarrow> granted s \<subseteq> granted t) \<and> (Equal_ps s t \<longleftrightarrow> granted s = granted t) \<and>
    wf_ps (Union_ps s [t]) \<and> granted (Union_ps s [t]) = granted s \<union> granted t \<and>
    sorted (Slice s) \<and> distinct (Slice s) \<and> set (Slice s) = granted s \<and>
    Equal_ps (NewPermissionSet (Slice s)) s"
proof -
  note slice = Slice_wf [OF assms(1)]
  have "granted s - {[]} = granted s" by (auto simp: granted_safe)
  then have "Equal_ps (NewPermissionSet (Slice s)) s"
    unfolding Equal_ps_iff [OF wf_New assms(1)] granted_New using slice by simp
  with assms slice show ?thesis
    by (simp add: HasAll_iff HasAny_iff Len_wf wf_IsEmpty IsSubsetOf_iff Equal_ps_iff)
qed

theorem permission_set_algebra_witness:
  "Slice (NewPermissionSet [''b'', ''a'', [], ''b'']) = [''a'', ''b''] \<and>
   Equal_ps (NewPermissionSet (Slice (NewPermissionSet [''b'', ''a'', [], ''b'']))) (NewPermissionSet [''b'', ''a'', [], ''b'']) \<and>
   granted (Union_ps (NewPermissionSet [''b'', ''a'', [], ''b'']) [NewPermissionSet [''c'']]) = {''a'', ''b'', ''c''}"
proof -
  have "Slice (NewPermissionSet [''b'', ''a'', [], ''b'']) = [''a'', ''b'']" by code_simp
  with permission_set_algebra [of "NewPermissionSet [''b'', ''a'', [], ''b'']" "NewPermissionSet [''c'']" "[]"]
  show ?thesis by auto
qed

text \<open>Grants built from permission sets allow exactly what one of the sets holds. Checking several
  permissions, evaluating a list of them and testing for emptiness agree with the single check; the
  two constant grants allow everything and nothing.
\<close>

theorem grants_decide:
  assumes "list_all wf_ps sets"
  shows "(Has_g (NewGrants sets) p \<longleftrightarrow> p \<in> (\<Union>s \<in> set sets. granted s)) \<and>
    (HasAll_g (NewGrants sets) ps \<longleftrightarrow> set ps \<subseteq> (\<Union>s \<in> set sets. granted s)) \<and>
    (HasAny_g (NewGrants sets) ps \<longleftrightarrow> set ps \<inter> (\<Union>s \<in> set sets. granted s) \<noteq> {}) \<and>
    mget (Evaluate (NewGrants sets) ps) p = (if p \<in> set ps then Some (p \<in> (\<Union>s \<in> set sets. granted s)) else None) \<and>
    (IsEmpty_g (NewGrants sets) \<longleftrightarrow> (\<Union>s \<in> set sets. granted s) = {}) \<and>
    Has_g AllowAll p \<and> \<not> IsEmpty_g AllowAll \<and> \<not> Has_g DenyAll p \<and> IsEmpty_g DenyAll"
proof -
  have has: "Has_g (NewGrants sets) q \<longleftrightarrow> q \<in> (\<Union>s \<in> set sets. granted s)" for q
    by (simp add: Has_g_New granted_def)
  have "HasAny_g (NewGrants sets) ps \<longleftrightarrow> set ps \<inter> (\<Union>s \<in> set sets. granted s) \<noteq> {}"
    unfolding HasAny_g_def list_ex_iff has by blast
  moreover have "HasAll_g (NewGrants sets) ps \<longleftrightarrow> set ps \<subseteq> (\<Union>s \<in> set sets. granted s)"
    unfolding HasAll_g_iff has by blast
  moreover have "IsEmpty_g (NewGrants sets) \<longleftrightarrow> (\<Union>s \<in> set sets. granted s) = {}"
    unfolding IsEmpty_g_New [OF assms] has by blast
  moreover have "Has_g AllowAll p \<and> \<not> IsEmpty_g AllowAll \<and> \<not> Has_g DenyAll p \<and> IsEmpty_g DenyAll"
    by (simp add: AllowAll_def DenyAll_def Has_g_def IsEmpty_g_def)
  ultimately show ?thesis by (simp only: has Evaluate_get simp_thms)
qed

theorem grants_decide_witness:
  "Has_g (NewGrants [NewPermissionSet [''a''], None, NewPermissionSet [''b'']]) ''b'' \<and>
   mget (Evaluate (NewGrants [NewPermissionSet [''a''], None, NewPermissionSet [''b'']]) [''a'', ''c'']) ''c'' = Some False"
  using grants_decide [of "[NewPermissionSet [''a''], None, NewPermissionSet [''b'']]" "''b''" "[]"]
    grants_decide [of "[NewPermissionSet [''a''], None, NewPermissionSet [''b'']]" "''c''" "[''a'', ''c'']"]
  by (simp add: wf_ps_def [of None] safe_def)

text \<open>C40. Validating a policy always returns. It accepts exactly the well-formed policies: every role
  named, no name twice, every parent defined, no role its own parent and no cycle of inheritance. An
  error tells the truth about the policy: in particular the path of a cycle error is a chain of
  inheritance that comes back to a role already on it.
\<close>

theorem ValidateRoles_diagnoses:
  "\<exists>r. ValidateRoles roles = Some r \<and> (r = None \<longleftrightarrow> well_formed_policy roles) \<and>
     (case r of None \<Rightarrow> True | Some err \<Rightarrow> policy_fault roles err)"
proof -
  obtain r where r: "ValidateRoles roles = Some r"
    "case r of None \<Rightarrow> well_formed_policy roles | Some err \<Rightarrow> policy_fault roles err"
    using ValidateRoles_spec by blast
  then show ?thesis
    using policy_fault_not_well_formed by (intro exI [of _ r]) (auto split: option.splits)
qed

lemma parents_by_name:
  assumes "well_formed_policy roles" and "a \<in> set (map ro_Name roles)"
  shows "set (parents_of (by_name roles) a) \<subseteq> set (map ro_Name roles)"
proof -
  from assms(2) obtain r where "r \<in> set roles" "a = ro_Name r" by auto
  with assms(1) by_name_spec(3) [of roles r] show ?thesis by (simp add: well_formed_policy_def parents_of_def)
qed

lemma ExpandInheritance_well_formed:
  assumes "well_formed_policy roles"
  shows "\<exists>ex. ExpandInheritance roles = Some (Inr ex) \<and> set (mkeys ex) = set (map ro_Name roles) \<and>
    (\<forall>a. full_at (by_name roles) ex a)"
proof -
  let ?b = "by_name roles"
  have wf: "distinct (map ro_Name roles)" "acyclic (inherits ?b)" using assms by (simp_all add: well_formed_policy_def)
  have "ValidateRoles roles = Some None"
  proof -
    obtain r where r: "ValidateRoles roles = Some r"
      "case r of None \<Rightarrow> well_formed_policy roles | Some err \<Rightarrow> policy_fault roles err"
      using ValidateRoles_spec by blast
    with policy_fault_not_well_formed assms show ?thesis by (cases r) auto
  qed
  moreover obtain ex where ex: "resolve_all ?b (length ?b + 2) (map ro_Name roles) [] = Some ex"
      "\<forall>a. full_at ?b ex a" "set (map ro_Name roles) \<union> set (mkeys ([] :: expanded)) \<subseteq> set (mkeys ex)"
    using resolve_all_spec [OF wf(2) by_name_spec(1) [OF wf(1)], of "[]" "map ro_Name roles"]
    by (auto simp: full_at_def)
  moreover have "set (mkeys ex) \<subseteq> set (map ro_Name roles)"
    by (rule resolve_all_keys [OF parents_by_name [OF assms] _ _ ex(1)]) simp_all
  ultimately show ?thesis by (auto simp: ExpandInheritance_def Let_def)
qed

lemma ExpandInheritance_ill_formed:
  "\<not> well_formed_policy roles \<Longrightarrow> \<exists>err. ExpandInheritance roles = Some (Inl err) \<and> policy_fault roles err"
  using ValidateRoles_spec [of roles] by (auto simp: ExpandInheritance_def split: option.splits)

lemma ExpandInheritance_ok_iff: "(\<exists>ex. ExpandInheritance roles = Some (Inr ex)) \<longleftrightarrow> well_formed_policy roles"
  using ExpandInheritance_ill_formed [of roles] ExpandInheritance_well_formed [of roles] by fastforce

text \<open>C9. Expanding inheritance always returns. On a well-formed policy the result has an entry for each
  role and no other, and the entry holds exactly the permissions of the roles reachable through
  inheritance; any other policy is rejected with a true error and expands to nothing.
\<close>

theorem ExpandInheritance_closure:
  "if well_formed_policy roles
   then \<exists>ex. ExpandInheritance roles = Some (Inr ex) \<and>
     (\<forall>n. map_option granted (mget ex n) =
        (if n \<in> set (map ro_Name roles) then Some (effective (by_name roles) n) else None))
   else \<exists>err. ExpandInheritance roles = Some (Inl err) \<and> policy_fault roles err"
proof (cases "well_formed_policy roles")
  case True
  then obtain ex where ex: "ExpandInheritance roles = Some (Inr ex)" "set (mkeys ex) = set (map ro_Name roles)"
    "\<forall>a. full_at (by_name roles) ex a" using ExpandInheritance_well_formed by blast
  have "map_option granted (mget ex n) = (if n \<in> set (map ro_Name roles) then Some (effective (by_name roles) n) else None)" for n
    using spec [OF ex(3), of n] mget_eq_None_iff [of ex n] ex(2)
    by (cases "mget ex n") (simp_all add: full_at_def)
  with True ex(1) show ?thesis by simp
next
  case False
  with ExpandInheritance_ill_formed show ?thesis by simp
qed

end
