(* ===== verification/PolicyStatic.thy ===== *)
theory PolicyStatic
  imports Authorization
begin

text \<open>
  \<^verbatim>\<open>authorization/static/static.go\<close>: a policy resolver over roles fixed at construction.

  The memo of unions is a map of the state (a \<^verbatim>\<open>sync.Map\<close> of the code); an answer comes back with
  the state after it. What is logged at construction is not modelled.
\<close>

subsection \<open>Keys\<close>

definition NUL :: char where
  "NUL = CHR 0x00"

datatype role_key_error = ErrNULInRole string

definition memoKey :: "string list \<Rightarrow> role_key_error + string" where
  "memoKey roles =
     (let sorted = sort roles
      in case find (\<lambda>name. NUL \<in> set name) sorted of
           Some name \<Rightarrow> Inl (ErrNULInRole name)
         | None \<Rightarrow> Inr (join NUL sorted))"

subsection \<open>The resolver\<close>

record StaticResolver =
  sr_expanded :: expanded
  sr_memo :: "(string, PermissionSet option) gomap"
  sr_roles :: "Role list"

definition NewResolver_static :: "Role list \<Rightarrow> (policy_error + StaticResolver) option" where
  "NewResolver_static roles =
     (case ExpandInheritance roles of
        None \<Rightarrow> None
      | Some (Inl err) \<Rightarrow> Some (Inl err)
      | Some (Inr ex) \<Rightarrow> Some (Inr \<lparr>sr_expanded = ex, sr_memo = [], sr_roles = roles\<rparr>))"

text \<open>The loop over the asked names: those the policy knows, with their sets.\<close>

fun known_roles :: "expanded \<Rightarrow> string list \<Rightarrow> string list \<times> PermissionSet option list" where
  "known_roles ex [] = ([], [])"
| "known_roles ex (name # names) =
     (case mget ex name of
        None \<Rightarrow> known_roles ex names
      | Some s \<Rightarrow> (case known_roles ex names of (known, sets) \<Rightarrow> (name # known, s # sets)))"

definition permissionsForRoles :: "string list \<Rightarrow> StaticResolver \<Rightarrow> PermissionSet option \<times> StaticResolver" where
  "permissionsForRoles roles r =
     (case roles of
        [] \<Rightarrow> (NewPermissionSet [], r)
      | [name] \<Rightarrow>
          (case mget (sr_expanded r) name of
             Some s \<Rightarrow> (s, r)
           | None \<Rightarrow> (NewPermissionSet [], r))
      | _ \<Rightarrow>
          (case known_roles (sr_expanded r) roles of (known, sets) \<Rightarrow>
             (case memoKey known of
                Inl err \<Rightarrow> (Union_ps (NewPermissionSet []) sets, r)
              | Inr key \<Rightarrow>
                  (case mget (sr_memo r) key of
                     Some s \<Rightarrow> (s, r)
                   | None \<Rightarrow>
                       (let un = Union_ps (NewPermissionSet []) sets
                        in (un, r\<lparr>sr_memo := mput key un (sr_memo r)\<rparr>))))))"

definition PermissionsForRoles_static ::
    "string list \<Rightarrow> StaticResolver \<Rightarrow> (role_key_error + PermissionSet option) \<times> StaticResolver" where
  "PermissionsForRoles_static roles r = (case permissionsForRoles roles r of (s, r') \<Rightarrow> (Inr s, r'))"

definition Roles_static :: "StaticResolver \<Rightarrow> Role list" where
  "Roles_static r = map (\<lambda>clone. clone\<lparr>ro_Permissions := ro_Permissions clone, ro_Inherits := ro_Inherits clone\<rparr>) (sr_roles r)"

text \<open>A resolver after a sequence of questions.\<close>

definition after_calls :: "string list list \<Rightarrow> StaticResolver \<Rightarrow> StaticResolver" where
  "after_calls calls r = foldl (\<lambda>r roles. snd (permissionsForRoles roles r)) r calls"

subsection \<open>Keys do not collide\<close>

lemma memoKey_Inr:
  "memoKey roles = Inr key \<longleftrightarrow> (\<forall>name \<in> set roles. NUL \<notin> set name) \<and> key = join NUL (sort roles)"
proof (cases "find (\<lambda>name. NUL \<in> set name) (sort roles)")
  case None
  then have "\<forall>name \<in> set roles. NUL \<notin> set name" by (simp add: find_None_iff)
  with None show ?thesis by (auto simp: memoKey_def)
next
  case (Some name)
  then have "name \<in> set (sort roles) \<and> NUL \<in> set name" by (metis find_Some_iff nth_mem)
  with Some show ?thesis by (auto simp: memoKey_def)
qed

lemma sort_eq_Nil: "sort xs = [] \<longleftrightarrow> xs = []"
  by (metis length_0_conv length_sort)

lemma memoKey_inj:
  assumes "memoKey xs = Inr key" "memoKey ys = Inr key" "[] \<notin> set xs" "[] \<notin> set ys"
  shows "sort xs = sort ys"
proof (cases "xs = [] \<or> ys = []")
  case True
  with assms show ?thesis
    using join_eq_Nil [of "sort xs" NUL] join_eq_Nil [of "sort ys" NUL] by (auto simp: memoKey_Inr sort_eq_Nil)
next
  case False
  with assms show ?thesis
    using join_inj [of "sort xs" "sort ys" NUL] by (auto simp: memoKey_Inr sort_eq_Nil)
qed

lemma sort_eq_set: "sort xs = sort ys \<Longrightarrow> set xs = set ys"
  by (metis set_sort)

subsection \<open>The memo\<close>

abbreviation set_of :: "expanded \<Rightarrow> string \<Rightarrow> Permission set" where
  "set_of ex n \<equiv> (case mget ex n of None \<Rightarrow> {} | Some s \<Rightarrow> granted s)"

lemma known_roles_spec:
  "known_roles ex names = (known, sets) \<Longrightarrow>
     known = filter (\<lambda>n. mget ex n \<noteq> None) names \<and> (\<Union>s \<in> set sets. granted s) = (\<Union>n \<in> set names. set_of ex n)"
  by (induction names arbitrary: known sets) (auto split: option.splits prod.splits)

definition memo_ok :: "StaticResolver \<Rightarrow> bool" where
  "memo_ok r \<longleftrightarrow> [] \<notin> set (mkeys (sr_expanded r)) \<and> is_map (sr_memo r) \<and>
     (\<forall>key s. mget (sr_memo r) key = Some s \<longrightarrow>
        (\<exists>names. [] \<notin> set names \<and> memoKey names = Inr key \<and> granted s = (\<Union>n \<in> set names. set_of (sr_expanded r) n)))"

lemma set_of_known: "(\<Union>n \<in> set (filter (\<lambda>n. mget ex n \<noteq> None) names). set_of ex n) = (\<Union>n \<in> set names. set_of ex n)"
  by (auto split: option.splits)

lemma memo_ok_put:
  assumes "memo_ok r" "[] \<notin> set known" "memoKey known = Inr key"
    and "granted un = (\<Union>n \<in> set known. set_of (sr_expanded r) n)"
  shows "memo_ok (r\<lparr>sr_memo := mput key un (sr_memo r)\<rparr>)"
proof -
  have "\<exists>names. [] \<notin> set names \<and> memoKey names = Inr k \<and> granted s = (\<Union>n \<in> set names. set_of (sr_expanded r) n)"
    if "mget (mput key un (sr_memo r)) k = Some s" for k s
  proof (cases "k = key")
    case True
    with that assms(2-4) show ?thesis by (intro exI [of _ known]) simp
  next
    case False
    with that assms(1) show ?thesis by (simp add: memo_ok_def)
  qed
  with assms(1) show ?thesis by (simp add: memo_ok_def)
qed

lemma permissionsForRoles_many:
  assumes "memo_ok r" and "2 \<le> length roles"
  shows "granted (fst (permissionsForRoles roles r)) = (\<Union>n \<in> set roles. set_of (sr_expanded r) n) \<and>
    memo_ok (snd (permissionsForRoles roles r)) \<and> sr_expanded (snd (permissionsForRoles roles r)) = sr_expanded r"
proof -
  let ?ex = "sr_expanded r"
  obtain known sets where k: "known_roles ?ex roles = (known, sets)" by fastforce
  note ks = known_roles_spec [OF k]
  have nn: "[] \<notin> set known" using ks assms(1) mget_eq_None_iff [of ?ex "[]"] by (auto simp: memo_ok_def)
  have all: "(\<Union>n \<in> set known. set_of ?ex n) = (\<Union>n \<in> set roles. set_of ?ex n)" using ks set_of_known by simp
  obtain a b cs where roles: "roles = a # b # cs"
    using assms(2) by (cases roles; cases "tl roles") auto
  have eq: "permissionsForRoles roles r =
      (case memoKey known of
         Inl err \<Rightarrow> (Union_ps (NewPermissionSet []) sets, r)
       | Inr key \<Rightarrow> (case mget (sr_memo r) key of Some s \<Rightarrow> (s, r)
           | None \<Rightarrow> (Union_ps (NewPermissionSet []) sets, r\<lparr>sr_memo := mput key (Union_ps (NewPermissionSet []) sets) (sr_memo r)\<rparr>)))"
    using k unfolding permissionsForRoles_def roles Let_def by (simp del: known_roles.simps)
  have u: "granted (Union_ps (NewPermissionSet []) sets) = (\<Union>n \<in> set roles. set_of ?ex n)" using ks by simp
  show ?thesis
  proof (cases "memoKey known")
    case (Inl err)
    with eq u assms(1) show ?thesis by simp
  next
    case (Inr key)
    show ?thesis
    proof (cases "mget (sr_memo r) key")
      case None
      have "memo_ok (r\<lparr>sr_memo := mput key (Union_ps (NewPermissionSet []) sets) (sr_memo r)\<rparr>)"
        by (rule memo_ok_put [OF assms(1) nn Inr]) (simp only: u all)
      with None Inr eq u show ?thesis by simp
    next
      case (Some s)
      with assms(1) obtain names where "[] \<notin> set names" "memoKey names = Inr key"
        "granted s = (\<Union>n \<in> set names. set_of ?ex n)" unfolding memo_ok_def by blast
      with memoKey_inj [OF _ Inr] nn sort_eq_set all have "granted s = (\<Union>n \<in> set roles. set_of ?ex n)" by metis
      with Some Inr eq assms(1) show ?thesis by simp
    qed
  qed
qed

lemma permissionsForRoles_spec:
  assumes "memo_ok r"
  shows "granted (fst (permissionsForRoles roles r)) = (\<Union>n \<in> set roles. set_of (sr_expanded r) n) \<and>
    memo_ok (snd (permissionsForRoles roles r)) \<and> sr_expanded (snd (permissionsForRoles roles r)) = sr_expanded r"
proof (cases "2 \<le> length roles")
  case False
  with assms show ?thesis
    by (cases roles; cases "tl roles") (auto simp: permissionsForRoles_def split: option.split)
qed (rule permissionsForRoles_many [OF assms])

lemma after_calls_spec:
  "memo_ok r \<Longrightarrow> memo_ok (after_calls calls r) \<and> sr_expanded (after_calls calls r) = sr_expanded r"
  unfolding after_calls_def by (induction calls arbitrary: r) (simp_all add: permissionsForRoles_spec)

subsection \<open>Properties\<close>

lemma NewResolver_static_ok:
  assumes "NewResolver_static roles = Some (Inr r)"
  shows "memo_ok r \<and> sr_memo r = [] \<and> sr_roles r = roles \<and> set (mkeys (sr_expanded r)) = set (map ro_Name roles) \<and>
    (\<forall>n. set_of (sr_expanded r) n = (if n \<in> set (map ro_Name roles) then effective (by_name roles) n else {}))"
proof -
  obtain ex where ex: "ExpandInheritance roles = Some (Inr ex)" "r = \<lparr>sr_expanded = ex, sr_memo = [], sr_roles = roles\<rparr>"
    using assms by (auto simp: NewResolver_static_def split: option.splits sum.splits)
  then have wf: "well_formed_policy roles"
    using ExpandInheritance_ok_iff by blast
  obtain ex' where ex': "ExpandInheritance roles = Some (Inr ex')" "set (mkeys ex') = set (map ro_Name roles)"
    "\<forall>a. full_at (by_name roles) ex' a" using ExpandInheritance_well_formed [OF wf] by blast
  then have e: "ex' = ex" using ex(1) by simp
  have "set_of ex n = (if n \<in> set (map ro_Name roles) then effective (by_name roles) n else {})" for n
    using spec [OF ex'(3), of n] ex'(2) mget_eq_None_iff [of ex n] unfolding e
    by (cases "mget ex n") (simp_all add: full_at_def)
  with ex ex'(2) wf e show ?thesis by (simp add: memo_ok_def well_formed_policy_def)
qed

text \<open>A static resolver exists exactly for a well-formed policy. Whatever was asked before, so
  whatever the memo holds, it answers a list of roles with exactly the union of the effective
  permissions of the roles of the list that the policy defines, and names it does not define add
  nothing.\<close>

theorem static_resolver_answers:
  "(\<exists>res. NewResolver_static roles = Some res \<and> (isl res \<longleftrightarrow> \<not> well_formed_policy roles)) \<and>
   (\<forall>r. NewResolver_static roles = Some (Inr r) \<longrightarrow>
      granted (fst (permissionsForRoles asked (after_calls calls r))) =
        (\<Union>n \<in> set asked \<inter> set (map ro_Name roles). effective (by_name roles) n))"
proof (intro conjI allI impI)
  show "\<exists>res. NewResolver_static roles = Some res \<and> (isl res \<longleftrightarrow> \<not> well_formed_policy roles)"
  proof (cases "well_formed_policy roles")
    case True
    then obtain ex where "ExpandInheritance roles = Some (Inr ex)" using ExpandInheritance_well_formed by blast
    with True show ?thesis by (simp add: NewResolver_static_def)
  next
    case False
    then obtain err where "ExpandInheritance roles = Some (Inl err)" using ExpandInheritance_ill_formed by blast
    with False show ?thesis by (simp add: NewResolver_static_def)
  qed
next
  fix r assume "NewResolver_static roles = Some (Inr r)"
  note r = NewResolver_static_ok [OF this]
  have "granted (fst (permissionsForRoles asked (after_calls calls r))) = (\<Union>n \<in> set asked. set_of (sr_expanded r) n)"
    using after_calls_spec [of r calls] permissionsForRoles_spec [of "after_calls calls r" asked] r by simp
  also have "\<dots> = (\<Union>n \<in> set asked \<inter> set (map ro_Name roles). effective (by_name roles) n)"
    using r by (auto split: if_splits)
  finally show "granted (fst (permissionsForRoles asked (after_calls calls r))) =
      (\<Union>n \<in> set asked \<inter> set (map ro_Name roles). effective (by_name roles) n)" .
qed

theorem static_resolver_answers_witness:
  "\<exists>r. NewResolver_static [\<lparr>ro_Name = ''b'', ro_Description = [], ro_Permissions = [''p''], ro_Inherits = []\<rparr>,
        \<lparr>ro_Name = ''a'', ro_Description = [], ro_Permissions = [''q''], ro_Inherits = [''b'']\<rparr>] = Some (Inr r) \<and>
      granted (fst (permissionsForRoles [''x'', ''b''] (after_calls [[''a'', ''b'']] r))) = {''p''}"
proof -
  let ?roles = "[\<lparr>ro_Name = ''b'', ro_Description = [], ro_Permissions = [''p''], ro_Inherits = []\<rparr>,
        \<lparr>ro_Name = ''a'', ro_Description = [], ro_Permissions = [''q''], ro_Inherits = [''b'']\<rparr>]"
  have "map_option isl (NewResolver_static ?roles) = Some False" by code_simp
  then obtain r where r: "NewResolver_static ?roles = Some (Inr r)"
    by (cases "NewResolver_static ?roles"; cases "the (NewResolver_static ?roles)") auto
  have "effective (by_name ?roles) ''b'' = {''p''}"
    by (simp add: effective_unfold [of _ "''b''"] perms_of_def parents_of_def by_name_def)
  with r static_resolver_answers [of ?roles "[''x'', ''b'']" "[[''a'', ''b'']]"] show ?thesis by simp
qed

subsection \<open>The size of the memo\<close>

lemma sort_replicate: "sort (replicate n a) = replicate n a"
  by (simp add: sorted_sort_id)

definition repeat_key :: "string \<Rightarrow> nat \<Rightarrow> string" where
  "repeat_key a i = join NUL (replicate (i + 2) a)"

lemma repeat_key_inj: "NUL \<notin> set a \<Longrightarrow> inj (repeat_key a)"
proof (rule injI)
  fix i j assume "NUL \<notin> set a" "repeat_key a i = repeat_key a j"
  then have "replicate (i + 2) a = replicate (j + 2) a"
    using join_inj [of "replicate (i + 2) a" "replicate (j + 2) a" NUL] by (simp add: repeat_key_def)
  then have "length (replicate (i + 2) a) = length (replicate (j + 2) a)" by (rule arg_cong)
  then show "i = j" by simp
qed

lemma known_replicate:
  "mget ex a = Some s \<Longrightarrow> known_roles ex (replicate n a) = (replicate n a, replicate n s)"
  by (induction n) simp_all

lemma ask_repeated:
  assumes "mget (sr_expanded r) a = Some s" and "NUL \<notin> set a"
  shows "set (mkeys (sr_memo (snd (permissionsForRoles (replicate (i + 2) a) r)))) = insert (repeat_key a i) (set (mkeys (sr_memo r)))"
proof -
  have eq: "replicate (i + 2) a = a # a # replicate i a" by simp
  have k: "known_roles (sr_expanded r) (a # a # replicate i a) = (replicate (i + 2) a, replicate (i + 2) s)"
    using known_replicate [OF assms(1), of "i + 2"] by simp
  have "memoKey (replicate (i + 2) a) = Inr (repeat_key a i)"
    unfolding memoKey_Inr repeat_key_def sort_replicate using assms(2) by simp
  then show ?thesis
    using mget_eq_None_iff [of "sr_memo r" "repeat_key a i"]
    unfolding permissionsForRoles_def eq Let_def using k by (auto simp del: known_roles.simps split: option.split)
qed

text \<open>The memo is not bounded by the roles of the policy: asking for one known role repeated two,
  three, four times and so on adds an entry with every question, because repeated names stay in
  the key.\<close>

theorem static_memo_grows:
  assumes "NewResolver_static roles = Some (Inr r)" and "a \<in> set (map ro_Name roles)" and "NUL \<notin> set a"
  shows "length (sr_memo (after_calls (map (\<lambda>i. replicate (i + 2) a) [0..<n]) r)) = n"
proof -
  note r = NewResolver_static_ok [OF assms(1)]
  obtain s where s: "mget (sr_expanded r) a = Some s"
    using r assms(2) mget_eq_None_iff [of "sr_expanded r" a] by auto
  let ?after = "\<lambda>n. after_calls (map (\<lambda>i. replicate (i + 2) a) [0..<n]) r"
  have inv: "memo_ok (?after n) \<and> sr_expanded (?after n) = sr_expanded r" for n
    using after_calls_spec r by blast
  have step: "?after (Suc n) = snd (permissionsForRoles (replicate (n + 2) a) (?after n))" for n
    by (simp add: after_calls_def)
  have "set (mkeys (sr_memo (?after n))) = repeat_key a ` {0..<n}"
  proof (induction n)
    case 0
    then show ?case using r by (simp add: after_calls_def)
  next
    case (Suc n)
    have "set (mkeys (sr_memo (?after (Suc n)))) = insert (repeat_key a n) (set (mkeys (sr_memo (?after n))))"
      unfolding step by (rule ask_repeated [OF _ assms(3)]) (use inv s in simp)
    with Suc show ?case by (simp add: atLeast0_lessThan_Suc)
  qed
  moreover have "length (sr_memo (?after n)) = card (set (mkeys (sr_memo (?after n))))"
    using inv [of n] by (intro length_is_map) (simp add: memo_ok_def)
  moreover have "card (repeat_key a ` {0..<n}) = n"
    using repeat_key_inj [OF assms(3)] by (simp add: card_image inj_on_subset)
  ultimately show ?thesis by simp
qed

theorem static_memo_grows_witness:
  "\<exists>r. NewResolver_static [\<lparr>ro_Name = ''b'', ro_Description = [], ro_Permissions = [], ro_Inherits = []\<rparr>] = Some (Inr r) \<and>
      length (sr_memo (after_calls (map (\<lambda>i. replicate (i + 2) ''b'') [0..<1000]) r)) = 1000"
proof -
  let ?roles = "[\<lparr>ro_Name = ''b'', ro_Description = [], ro_Permissions = [], ro_Inherits = []\<rparr>]"
  have "map_option isl (NewResolver_static ?roles) = Some False" by code_simp
  then obtain r where r: "NewResolver_static ?roles = Some (Inr r)"
    by (cases "NewResolver_static ?roles"; cases "the (NewResolver_static ?roles)") auto
  then show ?thesis using static_memo_grows [OF r, of "''b''" 1000] by (simp add: NUL_def)
qed

end
