(* ===== verification/PolicyCached.thy ===== *)
theory PolicyCached
  imports PolicyStatic CacheMemory
begin

text \<open>
  \<^verbatim>\<open>authorization/cached/cached.go\<close>: a policy resolver that keeps the answers of another one in a
  cache, under a key made of a format version, a generation and the sorted role names.

  The inner resolver is a parameter of each question, so that a policy may change between two of
  them; the cache is a record of the three operations the code calls, each of which may fail. The
  locale \<open>policy_cache\<close> is a cache that keeps the contract of \<open>cache_contract\<close> and starts empty; the
  in-memory cache is one. Logs and span attributes are not modelled, the two fault counters are.
\<close>

subsection \<open>cached.go\<close>

definition keyFormatVersion :: string where
  "keyFormatVersion = ''authzv1''"

definition DefaultTTL_cached :: duration where
  "DefaultTTL_cached = 5 * Minute"

record 's CachedResolver =
  cr_cache :: 's
  cr_generation :: u64
  cr_ttl :: duration
  cr_readFaults :: nat
  cr_writeFaults :: nat

record 's policy_env =
  pe_get :: "string \<Rightarrow> 's \<Rightarrow> (cache_error + PermissionSet option) \<times> 's"
  pe_set :: "string \<Rightarrow> PermissionSet option \<Rightarrow> WriteOption list \<Rightarrow> 's \<Rightarrow> cache_error option \<times> 's"
  pe_delete :: "string \<Rightarrow> 's \<Rightarrow> cache_error option \<times> 's"

datatype 'e policy_failure =
    ErrNilInputParameter string
  | ErrKey role_key_error
  | ErrInner 'e
  | ErrCache cache_error

type_synonym 'e inner_resolver = "string list \<Rightarrow> 'e + PermissionSet option"

definition WithTTL_cached :: "duration \<Rightarrow> 's CachedResolver \<Rightarrow> 's CachedResolver" where
  "WithTTL_cached ttl r = (if ttl > 0 then r\<lparr>cr_ttl := ttl\<rparr> else r)"

definition NewResolver_cached :: "'i option \<Rightarrow> 's option \<Rightarrow> ('s CachedResolver \<Rightarrow> 's CachedResolver) option list \<Rightarrow>
    'e policy_failure + 's CachedResolver" where
  "NewResolver_cached inner c opts =
     (case inner of
        None \<Rightarrow> Inl (ErrNilInputParameter ''inner policy resolver'')
      | Some _ \<Rightarrow>
          (case c of
             None \<Rightarrow> Inl (ErrNilInputParameter ''cache'')
           | Some c \<Rightarrow>
               Inr (foldl (\<lambda>r opt. case opt of None \<Rightarrow> r | Some f \<Rightarrow> f r)
                 \<lparr>cr_cache = c, cr_generation = 0, cr_ttl = DefaultTTL_cached, cr_readFaults = 0, cr_writeFaults = 0\<rparr> opts)))"

definition key_cached :: "string list \<Rightarrow> 's CachedResolver \<Rightarrow> role_key_error + string" where
  "key_cached roles r =
     (let sorted = sort roles
      in case find (\<lambda>name. NUL \<in> set name) sorted of
           Some name \<Rightarrow> Inl (ErrNULInRole name)
         | None \<Rightarrow> Inr (keyFormatVersion @ '':'' @ decimal (unat (cr_generation r)) @ '':'' @ join NUL sorted))"

definition PermissionsForRoles_cached :: "'s policy_env \<Rightarrow> 'e inner_resolver \<Rightarrow> string list \<Rightarrow> 's CachedResolver \<Rightarrow>
    ('e policy_failure + PermissionSet option) \<times> 's CachedResolver" where
  "PermissionsForRoles_cached env inner roles r =
     (if roles = [] then (Inr (NewPermissionSet []), r)
      else
        (case key_cached roles r of
           Inl err \<Rightarrow> (Inl (ErrKey err), r)
         | Inr key \<Rightarrow>
             (case pe_get env key (cr_cache r) of (got, c1) \<Rightarrow>
                (case got of
                   Inr (Some s) \<Rightarrow> (Inr (Some s), r\<lparr>cr_cache := c1\<rparr>)
                 | _ \<Rightarrow>
                     (let r1 = (case got of
                                  Inl err \<Rightarrow> if err \<noteq> ErrNotFound then r\<lparr>cr_cache := c1, cr_readFaults := cr_readFaults r + 1\<rparr>
                                             else r\<lparr>cr_cache := c1\<rparr>
                                | Inr _ \<Rightarrow> r\<lparr>cr_cache := c1\<rparr>)
                      in case inner roles of
                           Inl err \<Rightarrow> (Inl (ErrInner err), r1)
                         | Inr s \<Rightarrow>
                             (case pe_set env key s [WithExpiry (cr_ttl r)] c1 of (err, c2) \<Rightarrow>
                                (Inr s, r1\<lparr>cr_cache := c2,
                                           cr_writeFaults := cr_writeFaults r + (if err \<noteq> None then 1 else 0)\<rparr>)))))))"

definition Roles_cached :: "(unit \<Rightarrow> 'e + Role list) \<Rightarrow> 'e + Role list" where
  "Roles_cached inner = inner ()"

definition Invalidate :: "'s policy_env \<Rightarrow> string list \<Rightarrow> 's CachedResolver \<Rightarrow> 'e policy_failure option \<times> 's CachedResolver" where
  "Invalidate env roles r =
     (if roles = [] then (None, r)
      else
        (case key_cached roles r of
           Inl err \<Rightarrow> (Some (ErrKey err), r)
         | Inr key \<Rightarrow>
             (case pe_delete env key (cr_cache r) of (err, c1) \<Rightarrow>
                (map_option ErrCache err, r\<lparr>cr_cache := c1\<rparr>))))"

definition InvalidateAll :: "'s CachedResolver \<Rightarrow> 's CachedResolver" where
  "InvalidateAll r = r\<lparr>cr_generation := cr_generation r + 1\<rparr>"

subsection \<open>Sequences of operations\<close>

datatype 'e policy_op =
    OpResolve gotime "'e inner_resolver" "string list"
  | OpInvalidate gotime "string list"
  | OpInvalidateAll

text \<open>The newest operation first.\<close>

primrec policy_run :: "(gotime \<Rightarrow> 's policy_env) \<Rightarrow> 's CachedResolver \<Rightarrow> 'e policy_op list \<Rightarrow> 's CachedResolver" where
  "policy_run env r [] = r"
| "policy_run env r (x # xs) =
     (case x of
        OpResolve t inner roles \<Rightarrow> snd (PermissionsForRoles_cached (env t) inner roles (policy_run env r xs))
      | OpInvalidate t roles \<Rightarrow>
          snd (Invalidate (env t) roles (policy_run env r xs) :: 'e policy_failure option \<times> 's CachedResolver)
      | OpInvalidateAll \<Rightarrow> InvalidateAll (policy_run env r xs))"

text \<open>The clock after the operations, and that it never went back.\<close>

primrec ops_now :: "'e policy_op list \<Rightarrow> gotime" where
  "ops_now [] = 0"
| "ops_now (x # xs) =
     (case x of OpResolve t _ _ \<Rightarrow> t | OpInvalidate t _ \<Rightarrow> t | OpInvalidateAll \<Rightarrow> ops_now xs)"

primrec ops_ordered :: "'e policy_op list \<Rightarrow> bool" where
  "ops_ordered [] = True"
| "ops_ordered (x # xs) = (ops_now xs \<le> ops_now (x # xs) \<and> ops_ordered xs)"

text \<open>
  The answers for a role list that are still good: what the inner resolver gave for these roles in
  some order, less than the lifetime ago, with no invalidation of these roles or of everything since.
\<close>

primrec justified :: "duration \<Rightarrow> gotime \<Rightarrow> string list \<Rightarrow> 'e policy_op list \<Rightarrow> PermissionSet option set" where
  "justified ttl now roles [] = {}"
| "justified ttl now roles (x # xs) =
     (case x of
        OpResolve t inner rs \<Rightarrow>
          (if sort rs = sort roles \<and> now < t + ttl then {s. inner rs = Inr s} else {}) \<union> justified ttl now roles xs
      | OpInvalidate t rs \<Rightarrow> if sort rs = sort roles then {} else justified ttl now roles xs
      | OpInvalidateAll \<Rightarrow> {})"

definition bumps :: "'e policy_op list \<Rightarrow> nat" where
  "bumps xs = length (filter (\<lambda>x. x = OpInvalidateAll) xs)"

subsection \<open>Keys\<close>

definition key_text :: "nat \<Rightarrow> string list \<Rightarrow> string" where
  "key_text g roles = keyFormatVersion @ '':'' @ decimal g @ '':'' @ join NUL (sort roles)"

lemma key_cached_eq:
  "key_cached roles r =
     (case find (\<lambda>name. NUL \<in> set name) (sort roles) of
        Some name \<Rightarrow> Inl (ErrNULInRole name)
      | None \<Rightarrow> Inr (key_text (unat (cr_generation r)) roles))"
  unfolding key_cached_def key_text_def Let_def by (rule refl)

definition no_NUL :: "string list \<Rightarrow> bool" where
  "no_NUL roles \<longleftrightarrow> (\<forall>name \<in> set roles. NUL \<notin> set name)"

lemma key_cached_Inr:
  "key_cached roles r = Inr key \<longleftrightarrow> no_NUL roles \<and> key = key_text (unat (cr_generation r)) roles"
proof (cases "find (\<lambda>name. NUL \<in> set name) (sort roles)")
  case None
  then have "no_NUL roles" by (simp add: find_None_iff no_NUL_def)
  with None show ?thesis by (auto simp: key_cached_eq)
next
  case (Some name)
  then have "name \<in> set (sort roles) \<and> NUL \<in> set name" by (metis find_Some_iff nth_mem)
  with Some show ?thesis by (auto simp: key_cached_eq no_NUL_def)
qed

lemma key_text_inj:
  assumes "no_NUL xs" "no_NUL ys" "xs \<noteq> []" "ys \<noteq> []"
  shows "key_text g xs = key_text h ys \<longleftrightarrow> g = h \<and> sort xs = sort ys"
proof -
  have colon: "CHR '':'' \<notin> set (decimal n)" for n by (rule decimal_no_char) simp
  have "key_text g xs = key_text h ys \<longleftrightarrow> g = h \<and> join NUL (sort xs) = join NUL (sort ys)"
    using append_sep_cancel [OF colon colon] by (simp add: key_text_def)
  with assms show ?thesis
    using join_inj [of "sort xs" "sort ys" NUL] by (simp add: no_NUL_def sort_eq_Nil)
qed

text \<open>An entry found under a key of the current generation is a good answer for the roles of the key.\<close>

definition accounted :: "duration \<Rightarrow> gotime \<Rightarrow> string \<Rightarrow> PermissionSet option \<Rightarrow> 'e policy_op list \<Rightarrow> bool" where
  "accounted ttl t k s xs \<longleftrightarrow>
     (\<exists>g rs. k = key_text g rs \<and> rs \<noteq> [] \<and> no_NUL rs \<and> g \<le> bumps xs \<and> (g = bumps xs \<longrightarrow> s \<in> justified ttl t rs xs))"

lemma accounted_mono:
  "accounted ttl t k s xs \<Longrightarrow> bumps ys = bumps xs \<Longrightarrow>
   (\<And>rs. rs \<noteq> [] \<Longrightarrow> no_NUL rs \<Longrightarrow> k = key_text (bumps xs) rs \<Longrightarrow> justified ttl t rs xs \<subseteq> justified ttl t rs ys) \<Longrightarrow>
   accounted ttl t k s ys"
proof -
  assume acc: "accounted ttl t k s xs" and b: "bumps ys = bumps xs"
    and sub: "\<And>rs. rs \<noteq> [] \<Longrightarrow> no_NUL rs \<Longrightarrow> k = key_text (bumps xs) rs \<Longrightarrow> justified ttl t rs xs \<subseteq> justified ttl t rs ys"
  obtain g rs where g: "k = key_text g rs" "rs \<noteq> []" "no_NUL rs" "g \<le> bumps xs" "g = bumps xs \<longrightarrow> s \<in> justified ttl t rs xs"
    using acc unfolding accounted_def by (elim exE conjE) (rule that)
  with sub [of rs] b show ?thesis unfolding accounted_def by (intro exI [of _ g] exI [of _ rs]) auto
qed

lemma justified_sort: "sort rs = sort rs' \<Longrightarrow> justified ttl t rs xs = justified ttl t rs' xs"
  by (induction xs) (auto split: policy_op.split)

lemma accounted_current:
  assumes "roles \<noteq> []" "no_NUL roles" and "accounted ttl t (key_text (bumps xs) roles) s xs"
  shows "s \<in> justified ttl t roles xs"
proof -
  from assms(3) obtain g rs where g: "key_text (bumps xs) roles = key_text g rs" "rs \<noteq> []" "no_NUL rs"
    "g = bumps xs \<longrightarrow> s \<in> justified ttl t rs xs" unfolding accounted_def by blast
  with assms(1,2) have "bumps xs = g \<and> sort roles = sort rs" by (simp add: key_text_inj)
  with g(4) justified_sort [of roles rs ttl t xs] show ?thesis by simp
qed

subsection \<open>A cache that keeps its contract\<close>

locale policy_cache = cache_contract get put del live ok
  for get :: "gotime \<Rightarrow> string \<Rightarrow> 's \<Rightarrow> (cache_error + PermissionSet option) \<times> 's"
    and put :: "gotime \<Rightarrow> string \<Rightarrow> PermissionSet option \<Rightarrow> duration \<Rightarrow> 's \<Rightarrow> 's"
    and del :: "gotime \<Rightarrow> string \<Rightarrow> 's \<Rightarrow> 's"
    and live :: "gotime \<Rightarrow> 's \<Rightarrow> string \<Rightarrow> PermissionSet option option"
    and ok :: "'s \<Rightarrow> bool" +
  fixes env :: "gotime \<Rightarrow> 's policy_env"
  assumes env_get: "pe_get (env t) = get t"
    and env_set: "pe_set (env t) k v [WithExpiry d] c = (None, put t k v d c)"
    and env_delete: "pe_delete (env t) k c = (None, del t k c)"
begin

lemma resolve_step:
  assumes "ok (cr_cache r)" "0 \<le> t" "0 < cr_ttl r" "roles \<noteq> []" "no_NUL roles"
  shows "\<exists>c stored. PermissionsForRoles_cached (env t) inner roles r =
      (case live t (cr_cache r) (key_text (unat (cr_generation r)) roles) of
         Some (Some s) \<Rightarrow> Inr (Some s)
       | _ \<Rightarrow> map_sum ErrInner id (inner roles), r\<lparr>cr_cache := c\<rparr>) \<and> ok c \<and>
    (case stored of None \<Rightarrow> True | Some s \<Rightarrow> inner roles = Inr s) \<and>
    (\<forall>t' k'. t \<le> t' \<longrightarrow> live t' c k' =
       (if k' = key_text (unat (cr_generation r)) roles \<and> stored \<noteq> None
        then (if t' < t + cr_ttl r then stored else None) else live t' (cr_cache r) k'))"
proof -
  let ?key = "key_text (unat (cr_generation r)) roles"
  obtain got c1 where g: "get t ?key (cr_cache r) = (got, c1)" by fastforce
  have got: "got = (case live t (cr_cache r) ?key of None \<Rightarrow> Inl ErrNotFound | Some v \<Rightarrow> Inr v)"
    using get_result [OF assms(1), of t ?key] g by simp
  have c1: "ok c1" "\<And>t' k'. t \<le> t' \<Longrightarrow> live t' c1 k' = live t' (cr_cache r) k'"
    using get_ok [OF assms(1), of t ?key] get_live [OF assms(1), of t _ ?key] g by auto
  have key: "key_cached roles r = Inr ?key" using assms(5) by (simp add: key_cached_Inr)
  note unfold = PermissionsForRoles_cached_def key env_get g
  show ?thesis
  proof (cases "\<exists>s. live t (cr_cache r) ?key = Some (Some s)")
    case True
    then obtain s where s: "live t (cr_cache r) ?key = Some (Some s)" by blast
    with got c1 assms(4) show ?thesis
      by (intro exI [of _ c1] exI [of _ None]) (simp add: unfold)
  next
    case False
    then have miss: "live t (cr_cache r) ?key = None \<or> live t (cr_cache r) ?key = Some None"
      by (cases "live t (cr_cache r) ?key"; cases "the (live t (cr_cache r) ?key)") auto
    show ?thesis
    proof (cases "inner roles")
      case (Inl err)
      with miss got c1 assms(4) show ?thesis
        by (intro exI [of _ c1] exI [of _ None]) (auto simp: unfold)
    next
      case (Inr s)
      have "live t' (put t ?key s (cr_ttl r) c1) k' =
          (if k' = ?key then (if t' < t + cr_ttl r then Some s else None) else live t' (cr_cache r) k')"
        if "t \<le> t'" for t' k'
        using put_live [OF c1(1) assms(2,3) that] c1(2) [OF that] by simp
      with Inr miss got c1 assms(4) show ?thesis
        by (intro exI [of _ "put t ?key s (cr_ttl r) c1"] exI [of _ "Some s"])
          (auto simp: unfold env_set put_ok)
    qed
  qed
qed

definition policy_inv :: "duration \<Rightarrow> 'e policy_op list \<Rightarrow> 's CachedResolver \<Rightarrow> bool" where
  "policy_inv ttl xs r \<longleftrightarrow> ok (cr_cache r) \<and> cr_ttl r = ttl \<and> unat (cr_generation r) = bumps xs \<and>
     (\<forall>t k s. ops_now xs \<le> t \<longrightarrow> live t (cr_cache r) k = Some s \<longrightarrow> accounted ttl t k s xs)"

lemma policy_inv_state:
  "policy_inv ttl xs r \<Longrightarrow> ok (cr_cache r) \<and> cr_ttl r = ttl \<and> unat (cr_generation r) = bumps xs"
  by (simp add: policy_inv_def)

lemma policy_inv_live:
  "policy_inv ttl xs r \<Longrightarrow> ops_now xs \<le> t \<Longrightarrow> live t (cr_cache r) k = Some s \<Longrightarrow> accounted ttl t k s xs"
  by (simp add: policy_inv_def)

lemma policy_inv_step:
  assumes inv: "policy_inv ttl xs r" and b: "bumps (x # xs) = bumps xs" and le: "ops_now xs \<le> ops_now (x # xs)" and "ok c"
    and live: "\<And>t k s. ops_now (x # xs) \<le> t \<Longrightarrow> live t c k = Some s \<Longrightarrow>
      accounted ttl t k s (x # xs) \<or> live t (cr_cache r) k = Some s \<and>
        (\<forall>rs. rs \<noteq> [] \<longrightarrow> no_NUL rs \<longrightarrow> k = key_text (bumps xs) rs \<longrightarrow> justified ttl t rs xs \<subseteq> justified ttl t rs (x # xs))"
  shows "policy_inv ttl (x # xs) (r\<lparr>cr_cache := c\<rparr>)"
proof -
  have "accounted ttl t k s (x # xs)" if "ops_now (x # xs) \<le> t" "live t c k = Some s" for t k s
    using live [OF that] policy_inv_live [OF inv order_trans [OF le that(1)], of k s]
      accounted_mono [of ttl t k s xs "x # xs"] b by blast
  with policy_inv_state [OF inv] b assms(4) show ?thesis by (simp add: policy_inv_def)
qed

lemma inv_resolve:
  assumes inv: "policy_inv ttl xs r" and t: "ops_now xs \<le> t" "0 \<le> t" and "0 < ttl"
  shows "policy_inv ttl (OpResolve t inner roles # xs) (snd (PermissionsForRoles_cached (env t) inner roles r))"
proof (cases "roles = [] \<or> \<not> no_NUL roles")
  case True
  have "snd (PermissionsForRoles_cached (env t) inner roles r) = r\<lparr>cr_cache := cr_cache r\<rparr>"
  proof (cases "key_cached roles r")
    case (Inr key)
    with True show ?thesis by (auto simp: PermissionsForRoles_cached_def key_cached_Inr)
  qed (simp add: PermissionsForRoles_cached_def)
  then show ?thesis
    using t policy_inv_state [OF inv] by (simp only:) (rule policy_inv_step [OF inv], auto simp: bumps_def)
next
  case False
  note r = policy_inv_state [OF inv]
  let ?key = "key_text (bumps xs) roles"
  obtain c stored where c: "snd (PermissionsForRoles_cached (env t) inner roles r) = r\<lparr>cr_cache := c\<rparr>" "ok c"
      and stored: "case stored of None \<Rightarrow> True | Some s \<Rightarrow> inner roles = Inr s"
      and live: "\<And>t' k'. t \<le> t' \<Longrightarrow> live t' c k' =
         (if k' = ?key \<and> stored \<noteq> None then (if t' < t + ttl then stored else None) else live t' (cr_cache r) k')"
    using resolve_step [of r t roles inner] r t(2) assms(4) False by auto
  have new: "accounted ttl t' k s (OpResolve t inner roles # xs)"
    if "t \<le> t'" "live t' c k = Some s" "k = ?key \<and> stored \<noteq> None" for t' k s
  proof -
    from that live [OF that(1), of k] stored have "t' < t + ttl" "inner roles = Inr s" by (auto split: if_splits)
    with that(3) False show ?thesis
      unfolding accounted_def by (intro exI [of _ "bumps xs"] exI [of _ roles]) (simp add: bumps_def)
  qed
  show ?thesis
    unfolding c(1)
    by (rule policy_inv_step [OF inv]) (use t(1) c(2) new live in \<open>auto simp: bumps_def split: if_splits\<close>)
qed

lemma inv_invalidate:
  assumes inv: "policy_inv ttl xs r" and t: "ops_now xs \<le> t"
  shows "policy_inv ttl (OpInvalidate t roles # xs)
    (snd (Invalidate (env t) roles r :: 'e policy_failure option \<times> 's CachedResolver))"
proof (cases "roles = [] \<or> \<not> no_NUL roles")
  case True
  have "snd (Invalidate (env t) roles r :: 'e policy_failure option \<times> 's CachedResolver) = r\<lparr>cr_cache := cr_cache r\<rparr>"
  proof (cases "key_cached roles r")
    case (Inr key)
    with True show ?thesis by (auto simp: Invalidate_def key_cached_Inr)
  qed (simp add: Invalidate_def)
  moreover have "sort roles \<noteq> sort rs" if "rs \<noteq> []" "no_NUL rs" for rs
    using that True sort_eq_set [of roles rs] by (auto simp: no_NUL_def sort_eq_Nil)
  ultimately show ?thesis
    using t policy_inv_state [OF inv] by (simp only:) (rule policy_inv_step [OF inv], auto simp: bumps_def)
next
  case False
  note r = policy_inv_state [OF inv]
  let ?key = "key_text (bumps xs) roles" and ?c = "del t (key_text (bumps xs) roles) (cr_cache r)"
  have run: "snd (Invalidate (env t) roles r :: 'e policy_failure option \<times> 's CachedResolver) = r\<lparr>cr_cache := ?c\<rparr>"
    using False r key_cached_Inr [of roles r ?key] by (simp add: Invalidate_def env_delete)
  have other: "sort roles \<noteq> sort rs" if "rs \<noteq> []" "no_NUL rs" "key_text (bumps xs) rs \<noteq> ?key" for rs
    using that False key_text_inj [of rs roles] by auto
  have "live t' (cr_cache r) k = Some s \<and> k \<noteq> ?key" if "live t' ?c k = Some s" for t' k s
    using that by (simp add: del_live r split: if_splits)
  with other r t show ?thesis
    unfolding run by (intro policy_inv_step [OF inv]) (auto simp: bumps_def del_ok)
qed

lemma inv_invalidate_all:
  assumes inv: "policy_inv ttl xs r" and "bumps (OpInvalidateAll # xs) < 2 ^ 64"
  shows "policy_inv ttl (OpInvalidateAll # xs) (InvalidateAll r)"
proof -
  have b: "bumps (OpInvalidateAll # xs) = bumps xs + 1" by (simp add: bumps_def)
  with assms have "unat (cr_generation r + 1) = bumps xs + 1"
    by (simp add: policy_inv_def unat_plus_if')
  moreover have "accounted ttl t k s (OpInvalidateAll # xs)" if "accounted ttl t k s xs" for t k s
    using that b by (fastforce simp: accounted_def)
  ultimately show ?thesis using inv b by (simp add: policy_inv_def InvalidateAll_def)
qed

lemma policy_run_inv:
  assumes "ok (cr_cache r)" "cr_ttl r = ttl" "cr_generation r = 0" "0 < ttl" "\<And>t k. live t (cr_cache r) k = None"
    and "ops_ordered xs" "bumps xs < 2 ^ 64"
  shows "policy_inv ttl xs (policy_run env r xs) \<and> 0 \<le> ops_now xs"
  using assms(6,7)
proof (induction xs)
  case Nil
  then show ?case using assms(1-5) by (simp add: policy_inv_def bumps_def)
next
  case (Cons x xs)
  then have IH: "policy_inv ttl xs (policy_run env r xs)" "0 \<le> ops_now xs" "ops_now xs \<le> ops_now (x # xs)"
    by (auto simp: bumps_def split: if_splits)
  then show ?case
    using inv_resolve [OF IH(1)] inv_invalidate [OF IH(1)] inv_invalidate_all [OF IH(1)] assms(4) Cons.prems(2)
    by (cases x) auto
qed

lemma policy_answers:
  fixes inner :: "'e inner_resolver"
  assumes "ok (cr_cache r)" "cr_generation r = 0" "0 < cr_ttl r" "\<And>t k. live t (cr_cache r) k = None"
    and "ops_ordered xs" "bumps xs < 2 ^ 64" "ops_now xs \<le> t" "roles \<noteq> []" "no_NUL roles"
  defines "answer \<equiv> fst (PermissionsForRoles_cached (env t) inner roles (policy_run env r xs))"
  shows "(\<exists>s \<in> justified (cr_ttl r) t roles xs. answer = Inr s) \<or> answer = map_sum ErrInner id (inner roles)"
proof -
  let ?r = "policy_run env r xs" and ?key = "key_text (bumps xs) roles"
  have inv: "policy_inv (cr_ttl r) xs ?r" "0 \<le> ops_now xs" using policy_run_inv assms(1-6) by auto
  note st = policy_inv_state [OF inv(1)]
  have a: "answer = (case live t (cr_cache ?r) ?key of Some (Some s) \<Rightarrow> Inr (Some s)
      | _ \<Rightarrow> map_sum ErrInner id (inner roles))"
    using resolve_step [of ?r t roles inner] st inv(2) assms(3,7,8,9) unfolding answer_def by auto
  show ?thesis
  proof (cases "\<exists>s. live t (cr_cache ?r) ?key = Some (Some s)")
    case True
    then obtain s where s: "live t (cr_cache ?r) ?key = Some (Some s)" by blast
    then have "accounted (cr_ttl r) t ?key (Some s) xs" using policy_inv_live inv(1) assms(7) by blast
    with assms(8,9) have "Some s \<in> justified (cr_ttl r) t roles xs" by (rule accounted_current)
    with s a show ?thesis by auto
  next
    case False
    with a show ?thesis by (auto split: option.split)
  qed
qed

end

subsection \<open>Over the in-memory cache\<close>

definition mem_policy_env :: "gotime \<Rightarrow> PermissionSet option cache policy_env" where
  "mem_policy_env t =
     \<lparr>pe_get = Get (\<lambda>_. t) None False,
      pe_set = \<lambda>k v opts c. (None, Set t k v opts c),
      pe_delete = \<lambda>k c. (None, Delete k c)\<rparr>"

interpretation mp: policy_cache
  where get = "\<lambda>t. Get (\<lambda>_. t) None False"
    and put = "\<lambda>t k v d. Set t k v [WithExpiry d]"
    and del = "\<lambda>t. Delete"
    and live = live
    and ok = "\<lambda>c. c_index c = None"
    and env = mem_policy_env
  by unfold_locales (simp_all add: mem_policy_env_def)

lemma new_memory_cache:
  assumes "NewInMemoryCache d [] = Inr (c :: 'v cache)"
  shows "c_index c = None \<and> live t c k = None"
  using assms by (auto simp: NewInMemoryCache_def Let_def newEvictionIndex_def live_def)

lemma new_cached_resolver:
  assumes "NewResolver_cached (Some i) (Some c) [Some (WithTTL_cached ttl)] = Inr r"
  shows "cr_cache r = c \<and> cr_generation r = 0 \<and> cr_ttl r = (if 0 < ttl then ttl else DefaultTTL_cached) \<and> 0 < cr_ttl r"
  using assms
  by (auto simp: NewResolver_cached_def WithTTL_cached_def DefaultTTL_cached_def Minute_def Second_def
      Millisecond_def)

text \<open>C11. However questions about roles, invalidations and changes of the policy follow one another, what
  the resolver answers is what the inner resolver answers now, or what it answered less than the
  lifetime ago for the same roles with no invalidation of them, or of everything, in between.\<close>

theorem cached_policy_staleness:
  assumes "NewInMemoryCache d [] = Inr c" and "NewResolver_cached (Some i) (Some c) [Some (WithTTL_cached ttl)] = Inr r"
    and "ops_ordered xs" and "bumps xs < 2 ^ 64" and "ops_now xs \<le> t" and "roles \<noteq> []" and "no_NUL roles"
  shows "(\<exists>s \<in> justified (if 0 < ttl then ttl else DefaultTTL_cached) t roles xs.
      fst (PermissionsForRoles_cached (mem_policy_env t) inner roles (policy_run mem_policy_env r xs)) = Inr s) \<or>
    fst (PermissionsForRoles_cached (mem_policy_env t) inner roles (policy_run mem_policy_env r xs)) =
      map_sum ErrInner id (inner roles)"
  using mp.policy_answers [of r xs t roles inner] new_memory_cache [OF assms(1)] new_cached_resolver [OF assms(2)] assms(3-)
  by simp

theorem cached_policy_staleness_witness:
  "let c = projr (NewInMemoryCache 0 []);
       r = projr (NewResolver_cached (Some ()) (Some c) [Some (WithTTL_cached 10)] :: unit policy_failure + _);
       old = (\<lambda>_. Inr (NewPermissionSet [''p''])); new = (\<lambda>_. Inr (NewPermissionSet [])) :: unit inner_resolver
   in fst (PermissionsForRoles_cached (mem_policy_env 5) new [''b'', ''a'']
        (policy_run mem_policy_env r [OpInvalidateAll, OpResolve 1 old [''a'', ''b'']])) = Inr (NewPermissionSet [])"
proof -
  define c :: "PermissionSet option cache" where "c = projr (NewInMemoryCache 0 [])"
  define r where "r = projr (NewResolver_cached (Some ()) (Some c) [Some (WithTTL_cached 10)] :: unit policy_failure + _)"
  have c: "NewInMemoryCache 0 [] = Inr c" by (simp add: c_def NewInMemoryCache_def Let_def)
  have r: "(NewResolver_cached (Some ()) (Some c) [Some (WithTTL_cached 10)] :: unit policy_failure + _) = Inr r"
    by (simp add: r_def NewResolver_cached_def)
  show ?thesis
    using cached_policy_staleness [OF c r, of "[OpInvalidateAll, OpResolve 1 (\<lambda>_. Inr (NewPermissionSet [''p''])) [''a'', ''b'']]"
        5 "[''b'', ''a'']" "\<lambda>_. Inr (NewPermissionSet [])"]
    by (simp add: bumps_def no_NUL_def NUL_def Let_def c_def [symmetric] r_def [symmetric])
qed

text \<open>C38. A cache that fails does not fail the question: whatever the cache does, when it does not give a
  set for the key the answer is the inner resolver's, failed reads and failed writes are each
  counted once, and an invalidation that fails is reported.\<close>

theorem cached_policy_degrades:
  fixes inner :: "'e inner_resolver"
  assumes "roles \<noteq> []" and "no_NUL roles"
    and "pe_get env (key_text (unat (cr_generation r)) roles) (cr_cache r) = (got, c1)" and "\<nexists>s. got = Inr (Some s)"
  shows "fst (PermissionsForRoles_cached env inner roles r) = map_sum ErrInner id (inner roles) \<and>
    cr_readFaults (snd (PermissionsForRoles_cached env inner roles r)) =
      cr_readFaults r + (case got of Inl err \<Rightarrow> if err = ErrNotFound then 0 else 1 | Inr _ \<Rightarrow> 0) \<and>
    cr_writeFaults (snd (PermissionsForRoles_cached env inner roles r)) =
      cr_writeFaults r + (case inner roles of Inl _ \<Rightarrow> 0 | Inr s \<Rightarrow>
        (if fst (pe_set env (key_text (unat (cr_generation r)) roles) s [WithExpiry (cr_ttl r)] c1) = None then 0 else 1)) \<and>
    fst (Invalidate env roles r :: 'e policy_failure option \<times> _) =
      map_option ErrCache (fst (pe_delete env (key_text (unat (cr_generation r)) roles) (cr_cache r)))"
proof -
  have k: "key_cached roles r = Inr (key_text (unat (cr_generation r)) roles)" using assms(2) by (simp add: key_cached_Inr)
  have "(\<exists>err. got = Inl err) \<or> got = Inr None"
    using assms(4) by (cases got; cases "projr got") auto
  then show ?thesis
    using assms(1,3) by (auto simp: PermissionsForRoles_cached_def Invalidate_def k case_prod_beta split: sum.split)
qed

theorem cached_policy_degrades_witness:
  "let env = \<lparr>pe_get = \<lambda>k c. (Inl ErrUnavailable, c), pe_set = \<lambda>k v opts c. (Some ErrUnavailable, c), pe_delete = \<lambda>k c. (None, c)\<rparr>;
       r = \<lparr>cr_cache = 0 :: nat, cr_generation = 0, cr_ttl = 1, cr_readFaults = 0, cr_writeFaults = 0\<rparr>;
       inner = (\<lambda>_. Inr (NewPermissionSet [''p'']) :: unit + PermissionSet option)
   in fst (PermissionsForRoles_cached env inner [''a''] r) = Inr (NewPermissionSet [''p'']) \<and>
      cr_readFaults (snd (PermissionsForRoles_cached env inner [''a''] r)) = 1"
  using cached_policy_degrades [of "[''a'']"
      "\<lparr>pe_get = \<lambda>k c. (Inl ErrUnavailable, c), pe_set = \<lambda>k v opts c. (Some ErrUnavailable, c), pe_delete = \<lambda>k c. (None, c)\<rparr>"
      "\<lparr>cr_cache = 0 :: nat, cr_generation = 0, cr_ttl = 1, cr_readFaults = 0, cr_writeFaults = 0\<rparr>" "Inl ErrUnavailable" "0 :: nat"
      "\<lambda>_. Inr (NewPermissionSet [''p'']) :: unit + PermissionSet option"]
  by (simp add: no_NUL_def NUL_def Let_def)

end
