(* ===== verification/GoStrings.thy ===== *)
theory GoStrings
  imports Prelude
begin

text \<open>
  The functions of \<^verbatim>\<open>strings\<close>, \<^verbatim>\<open>strconv\<close>, \<^verbatim>\<open>encoding/hex\<close> and \<^verbatim>\<open>encoding/base64\<close> that the packages read and write their
  wire formats with, on strings of bytes, and the round trips between writing and reading.
\<close>

type_synonym u16 = "16 word"
type_synonym u32 = "32 word"

subsection \<open>Trimming\<close>

text \<open>
  The encodings of the white space \<^verbatim>\<open>strings.TrimSpace\<close> removes: it removes runes, and a string starts
  or ends with one of these runes exactly when it starts or ends with its encoding.
\<close>

definition space_encodings :: "string list" where
  "space_encodings = map (map char_of)
     ([[9], [10], [11], [12], [13], [32], [0xC2, 0x85], [0xC2, 0xA0], [0xE1, 0x9A, 0x80]] @
      map (\<lambda>n. [0xE2, 0x80, n]) [0x80, 0x81, 0x82, 0x83, 0x84, 0x85, 0x86, 0x87, 0x88, 0x89, 0x8A, 0xA8, 0xA9, 0xAF] @
      [[0xE2, 0x81, 0x9F], [0xE3, 0x80, 0x80 :: nat]])"

function trim_by :: "string list \<Rightarrow> string \<Rightarrow> string" where
  "trim_by es s =
     (case find (\<lambda>e. e \<noteq> [] \<and> take (length e) s = e) es of
        None \<Rightarrow> s
      | Some e \<Rightarrow> trim_by es (drop (length e) s))"
  by pat_completeness auto
termination
proof (relation "measure (\<lambda>(es, s). length s)")
  fix es s e assume "find (\<lambda>e. e \<noteq> [] \<and> take (length e) s = e) es = Some e"
  then have "e \<noteq> []" "take (length e) s = e" by (auto simp: find_Some_iff)
  then show "((es, drop (length e) s), (es, s)) \<in> measure (\<lambda>(es, s). length s)"
    by (cases s) auto
qed simp

declare trim_by.simps [simp del]

definition TrimSpace :: "string \<Rightarrow> string" where
  "TrimSpace s = rev (trim_by (map rev space_encodings) (rev (trim_by space_encodings s)))"

definition visible :: "char \<Rightarrow> bool" where
  "visible c \<longleftrightarrow> 33 \<le> (of_char c :: nat) \<and> of_char c < (127 :: nat)"

lemma spaces_not_visible:
  "list_all (\<lambda>e. e \<noteq> [] \<and> \<not> visible (hd e)) space_encodings"
  "list_all (\<lambda>e. e \<noteq> [] \<and> \<not> visible (hd e)) (map rev space_encodings)"
  by code_simp+

lemma trim_by_visible:
  assumes "list_all (\<lambda>e. e \<noteq> [] \<and> \<not> visible (hd e)) es" and "s = [] \<or> visible (hd s)"
  shows "trim_by es s = s"
proof -
  have "take (length e) s \<noteq> e" if "e \<in> set es" for e
  proof -
    from that assms(1) have "e \<noteq> []" "\<not> visible (hd e)" by (auto simp: list_all_iff)
    with assms(2) show ?thesis by (cases e; cases s) auto
  qed
  then have "find (\<lambda>e. e \<noteq> [] \<and> take (length e) s = e) es = None" by (auto simp: find_None_iff)
  then show ?thesis by (simp add: trim_by.simps [of es s])
qed

lemma TrimSpace_visible: "list_all visible s \<Longrightarrow> TrimSpace s = s"
proof -
  assume v: "list_all visible s"
  then have "s = [] \<or> visible (hd s)" "rev s = [] \<or> visible (hd (rev s))"
    using hd_in_set [of s] last_in_set [of s] unfolding list_all_iff hd_rev rev_is_Nil_conv by blast+
  then show ?thesis
    using trim_by_visible [OF spaces_not_visible(1), of s] trim_by_visible [OF spaces_not_visible(2), of "rev s"]
    by (simp add: TrimSpace_def)
qed

subsection \<open>Cutting\<close>

text \<open>\<^verbatim>\<open>strings.Cut\<close> at the first occurrence of a byte.\<close>

fun cut :: "char \<Rightarrow> string \<Rightarrow> (string \<times> string) option" where
  "cut sep [] = None"
| "cut sep (c # s) = (if c = sep then Some ([], s) else map_option (apfst ((#) c)) (cut sep s))"

lemma cut_append: "sep \<notin> set a \<Longrightarrow> cut sep (a @ sep # b) = Some (a, b)"
  by (induction a) auto

lemma cut_Some: "cut sep s = Some (a, b) \<longleftrightarrow> s = a @ sep # b \<and> sep \<notin> set a"
proof (induction s arbitrary: a)
  case (Cons c s)
  show ?case
  proof (cases "c = sep")
    case False
    have "cut sep (c # s) = Some (a, b) \<longleftrightarrow> (\<exists>a'. a = c # a' \<and> cut sep s = Some (a', b))"
      using False by (auto simp: apfst_def map_prod_def)
    with Cons.IH False show ?thesis by (cases a) auto
  qed (cases a, auto)
qed simp

lemma cut_None: "cut sep s = None \<longleftrightarrow> sep \<notin> set s"
  by (induction s) auto

subsection \<open>Hexadecimal\<close>

definition hex_digit :: "nat \<Rightarrow> char" where
  "hex_digit n = (if n < 10 then char_of (48 + n) else char_of (87 + n))"

definition hex_value :: "char \<Rightarrow> nat option" where
  "hex_value c =
     (let n = of_char c
      in if 48 \<le> n \<and> n \<le> 57 then Some (n - 48)
         else if 97 \<le> n \<and> n \<le> 102 then Some (n - 87)
         else if 65 \<le> n \<and> n \<le> 70 then Some (n - 55)
         else None)"

text \<open>\<^verbatim>\<open>hex.EncodeToString\<close> and \<^verbatim>\<open>hex.DecodeString\<close>.\<close>

fun hex_encode :: "string \<Rightarrow> string" where
  "hex_encode [] = []"
| "hex_encode (c # s) = hex_digit (of_char c div 16) # hex_digit (of_char c mod 16) # hex_encode s"

fun hex_decode :: "string \<Rightarrow> string option" where
  "hex_decode [] = Some []"
| "hex_decode [c] = None"
| "hex_decode (a # b # s) =
     (case (hex_value a, hex_value b, hex_decode s) of
        (Some x, Some y, Some r) \<Rightarrow> Some (char_of (16 * x + y) # r)
      | _ \<Rightarrow> None)"

lemma hex_value_digit: "n < 16 \<Longrightarrow> hex_value (hex_digit n) = Some n"
  by (auto simp: hex_value_def hex_digit_def Let_def)

lemma hex_digit_visible: "n < 16 \<Longrightarrow> visible (hex_digit n) \<and> hex_digit n \<noteq> CHR '','' \<and> hex_digit n \<noteq> CHR ''=''"
proof -
  assume "n < 16"
  then have v: "(of_char (hex_digit n) :: nat) = (if n < 10 then 48 + n else 87 + n)"
    by (simp add: hex_digit_def)
  have "hex_digit n \<noteq> c" if "(of_char c :: nat) = 44 \<or> (of_char c :: nat) = 61" for c
    using that v \<open>n < 16\<close> by (auto split: if_splits)
  from this [of "CHR '',''"] this [of "CHR ''=''"] v \<open>n < 16\<close> show ?thesis by (auto simp: visible_def)
qed

lemma of_char_div_mod: "(of_char c :: nat) div 16 < 16" "(of_char c :: nat) mod 16 < 16"
proof -
  have "(of_char c :: nat) < 16 * 16" by simp
  then show "(of_char c :: nat) div 16 < 16" by (rule less_mult_imp_div_less)
qed simp

lemma hex_decode_encode [simp]: "hex_decode (hex_encode s) = Some s"
proof (induction s)
  case (Cons c s)
  with of_char_div_mod [of c] show ?case by (simp add: hex_value_digit)
qed simp

lemma hex_encode_plain: "c \<in> set (hex_encode s) \<Longrightarrow> visible c \<and> c \<noteq> CHR '','' \<and> c \<noteq> CHR ''=''"
proof (induction s)
  case (Cons d s)
  with hex_digit_visible [OF of_char_div_mod(1) [of d]] hex_digit_visible [OF of_char_div_mod(2) [of d]]
  show ?case by auto
qed simp

subsection \<open>Decimal integers\<close>

text \<open>\<^verbatim>\<open>strconv.FormatInt(n, 10)\<close> and \<^verbatim>\<open>strconv.ParseInt(s, 10, 64)\<close>, with its syntax and range errors.\<close>

definition FormatInt :: "int \<Rightarrow> string" where
  "FormatInt n = (if n < 0 then CHR ''-'' # decimal (nat (- n)) else decimal (nat n))"

definition is_digit :: "char \<Rightarrow> bool" where
  "is_digit c \<longleftrightarrow> 48 \<le> (of_char c :: nat) \<and> of_char c \<le> (57 :: nat)"

definition ParseUint_digits :: "string \<Rightarrow> nat option" where
  "ParseUint_digits s = (if s \<noteq> [] \<and> list_all is_digit s then Some (digits_value s) else None)"

definition ParseInt :: "string \<Rightarrow> int option" where
  "ParseInt s =
     (let neg = (s \<noteq> [] \<and> hd s = CHR ''-'');
          signed = (s \<noteq> [] \<and> (hd s = CHR ''-'' \<or> hd s = CHR ''+''))
      in case ParseUint_digits (if signed then tl s else s) of
           None \<Rightarrow> None
         | Some un \<Rightarrow>
             (if \<not> neg \<and> un \<ge> 2 ^ 63 then None
              else if neg \<and> un > 2 ^ 63 then None
              else Some (if neg then - int un else int un)))"

lemma decimal_not_Nil [simp]: "decimal n \<noteq> []"
  by (subst decimal.simps) simp

lemma decimal_digits: "list_all is_digit (decimal n)"
  using decimal_is_digits by (fastforce simp: list_all_iff is_digit_def)

lemma ParseUint_decimal [simp]: "ParseUint_digits (decimal n) = Some n"
  by (simp add: ParseUint_digits_def decimal_digits)

lemma hd_decimal: "hd (decimal n) \<noteq> CHR ''-'' \<and> hd (decimal n) \<noteq> CHR ''+''"
proof -
  have "is_digit (hd (decimal n))" using decimal_digits [of n] by (simp add: list_all_iff)
  then show ?thesis by (auto simp: is_digit_def)
qed

lemma ParseInt_FormatInt: "- (2 ^ 63) \<le> n \<Longrightarrow> n < 2 ^ 63 \<Longrightarrow> ParseInt (FormatInt n) = Some n"
  using hd_decimal [of "nat n"] by (auto simp: ParseInt_def FormatInt_def Let_def)

lemma FormatInt_inj [simp]: "FormatInt m = FormatInt n \<longleftrightarrow> m = n"
proof
  assume eq: "FormatInt m = FormatInt n"
  show "m = n"
    using eq hd_decimal [of "nat m"] hd_decimal [of "nat n"]
    by (cases "m < 0"; cases "n < 0") (auto simp: FormatInt_def dest: arg_cong [of _ _ hd] decimal_inj [THEN iffD1])
qed simp

lemma FormatInt_plain: "c \<in> set (FormatInt n) \<Longrightarrow> visible c \<and> c \<noteq> CHR '','' \<and> c \<noteq> CHR ''='' \<and> c \<noteq> CHR ''.''"
proof -
  assume "c \<in> set (FormatInt n)"
  then have "c = CHR ''-'' \<or> is_digit c"
    using decimal_digits by (auto simp: FormatInt_def list_all_iff split: if_splits)
  then show ?thesis by (auto simp: visible_def is_digit_def)
qed

text \<open>\<^verbatim>\<open>strconv.ParseUint(s, 10, 64)\<close>, which takes no sign.\<close>

definition ParseUint :: "string \<Rightarrow> u64 option" where
  "ParseUint s =
     (case ParseUint_digits s of
        None \<Rightarrow> None
      | Some n \<Rightarrow> if n \<ge> 2 ^ 64 then None else Some (word_of_nat n))"

lemma ParseUint_decimal_word [simp]: "ParseUint (decimal (unat (w :: u64))) = Some w"
proof -
  have "unat w < 2 ^ 64" using unsigned_less [of w] by simp
  then show ?thesis by (simp add: ParseUint_def)
qed

subsection \<open>Truth values and case\<close>

text \<open>\<^verbatim>\<open>strconv.ParseBool\<close> and \<^verbatim>\<open>strconv.FormatBool\<close>.\<close>

definition ParseBool :: "string \<Rightarrow> bool option" where
  "ParseBool s =
     (if s \<in> set [''1'', ''t'', ''T'', ''true'', ''TRUE'', ''True''] then Some True
      else if s \<in> set [''0'', ''f'', ''F'', ''false'', ''FALSE'', ''False''] then Some False
      else None)"

definition FormatBool :: "bool \<Rightarrow> string" where
  "FormatBool b = (if b then ''true'' else ''false'')"

lemma ParseBool_FormatBool [simp]: "ParseBool (FormatBool b) = Some b"
  by (simp add: ParseBool_def FormatBool_def)

lemma FormatBool_not_Nil [simp]: "FormatBool b \<noteq> []"
  by (simp add: FormatBool_def)

text \<open>
  \<^verbatim>\<open>strings.ToLower\<close> on the letters of ASCII. The only other runes with a lower case in ASCII are the Kelvin
  sign and the dotted capital I, so a comparison of the result with a word that has no \<^verbatim>\<open>k\<close> and no \<^verbatim>\<open>i\<close> comes
  out as it does in Go.
\<close>

definition lower :: "char \<Rightarrow> char" where
  "lower c = (if 65 \<le> (of_char c :: nat) \<and> of_char c \<le> (90 :: nat) then char_of (of_char c + 32 :: nat) else c)"

definition ToLower :: "string \<Rightarrow> string" where
  "ToLower s = map lower s"

text \<open>
  \<^verbatim>\<open>strings.EqualFold(s, t)\<close> for a \<open>t\<close> in ASCII. Folding is wider than lowering: the long s and the Kelvin
  sign fold to \<^verbatim>\<open>s\<close> and \<^verbatim>\<open>k\<close>.
\<close>

definition folds :: "(string \<times> char) list" where
  "folds = [(map char_of [0xC5, 0xBF :: nat], CHR ''s''), (map char_of [0xE2, 0x84, 0xAA :: nat], CHR ''k'')]"

fun EqualFold :: "string \<Rightarrow> string \<Rightarrow> bool" where
  "EqualFold s [] \<longleftrightarrow> s = []"
| "EqualFold s (d # t) \<longleftrightarrow>
     (s \<noteq> [] \<and> lower (hd s) = lower d \<and> EqualFold (tl s) t) \<or>
     (\<exists>(e, l) \<in> set folds. l = lower d \<and> take (length e) s = e \<and> EqualFold (drop (length e) s) t)"

lemma EqualFold_lower: "ToLower s = ToLower t \<Longrightarrow> EqualFold s t"
proof (induction t arbitrary: s)
  case (Cons d t)
  then show ?case by (cases s) (auto simp: ToLower_def)
qed (simp add: ToLower_def)

subsection \<open>Fields\<close>

text \<open>
  \<^verbatim>\<open>strings.Fields\<close>: the runs between white space. A rune of white space is found where its encoding is, since no
  encoding of one begins in the middle of another rune.
\<close>

function fields_from :: "string \<Rightarrow> string \<Rightarrow> string list" where
  "fields_from cur [] = (if cur = [] then [] else [cur])"
| "fields_from cur (c # s) =
     (case find (\<lambda>e. e \<noteq> [] \<and> take (length e) (c # s) = e) space_encodings of
        None \<Rightarrow> fields_from (cur @ [c]) s
      | Some e \<Rightarrow> (if cur = [] then [] else [cur]) @ fields_from [] (drop (length e) (c # s)))"
  by pat_completeness auto
termination
proof (relation "measure (\<lambda>(cur, s). length s)")
  fix c s e assume "find (\<lambda>e. e \<noteq> [] \<and> take (length e) (c # s) = e) space_encodings = Some e"
  then have "e \<noteq> []" by (auto simp: find_Some_iff)
  then show "(([], drop (length e) (c # s)), (cur, c # s)) \<in> measure (\<lambda>(cur, s). length s)" for cur
    by (cases e) auto
qed auto

definition Fields :: "string \<Rightarrow> string list" where
  "Fields s = fields_from [] s"

lemma visible_not_space:
  assumes "visible c"
  shows "find (\<lambda>e. e \<noteq> [] \<and> take (length e) (c # s) = e) space_encodings = None"
proof -
  have "take (length e) (c # s) \<noteq> e" if "e \<in> set space_encodings" for e
  proof -
    from that spaces_not_visible(1) have "e \<noteq> []" "\<not> visible (hd e)" by (auto simp: list_all_iff)
    with assms show ?thesis by (cases e) auto
  qed
  then show ?thesis by (auto simp: find_None_iff)
qed

lemma fields_from_visible: "list_all visible w \<Longrightarrow> fields_from cur (w @ s) = fields_from (cur @ w) s"
  by (induction w arbitrary: cur) (simp_all add: visible_not_space)

lemma find_blank: "find (\<lambda>e. e \<noteq> [] \<and> take (length e) (CHR '' '' # s) = e) space_encodings = Some '' ''"
  by (simp add: space_encodings_def char_of_def bit_0)

text \<open>Words of visible bytes survive being joined with blanks and split again.\<close>

lemma Fields_join: "list_all (\<lambda>w. w \<noteq> [] \<and> list_all visible w) ws \<Longrightarrow> Fields (join CHR '' '' ws) = ws"
proof (induction "CHR '' ''" ws rule: join.induct [case_names Nil One Many])
  case (One x)
  then show ?case using fields_from_visible [of x "[]" "[]"] by (simp add: Fields_def)
next
  case (Many x y xs)
  then show ?case
    using fields_from_visible [of x "[]" "CHR '' '' # join CHR '' '' (y # xs)"] find_blank
    by (simp add: Fields_def)
qed (simp_all add: Fields_def)

subsection \<open>Times in seconds\<close>

text \<open>The seconds from the zero time to the Unix epoch; \<^verbatim>\<open>Unix\<close> gives the whole seconds since that epoch.\<close>

definition unixToInternal :: int where
  "unixToInternal = 62135596800"

definition Unix :: "gotime \<Rightarrow> int" where
  "Unix t = t div Second - unixToInternal"

subsection \<open>Base64\<close>

text \<open>\<^verbatim>\<open>base64.RawURLEncoding.EncodeToString\<close>: six bits per character, without padding.\<close>

definition base64_digit :: "nat \<Rightarrow> char" where
  "base64_digit n = ''ABCDEFGHIJKLMNOPQRSTUVWXYZabcdefghijklmnopqrstuvwxyz0123456789-_'' ! n"

fun base64_encode :: "string \<Rightarrow> string" where
  "base64_encode [] = []"
| "base64_encode [a] = (let n = of_char a in [base64_digit (n div 4), base64_digit (n mod 4 * 16)])"
| "base64_encode [a, b] =
     (let n = of_char a; m = of_char b
      in [base64_digit (n div 4), base64_digit (n mod 4 * 16 + m div 16), base64_digit (m mod 16 * 4)])"
| "base64_encode (a # b # c # s) =
     (let n = of_char a; m = of_char b; k = of_char c
      in [base64_digit (n div 4), base64_digit (n mod 4 * 16 + m div 16), base64_digit (m mod 16 * 4 + k div 64),
          base64_digit (k mod 64)] @ base64_encode s)"

definition is_base64url :: "char \<Rightarrow> bool" where
  "is_base64url c \<longleftrightarrow> c \<in> set ''ABCDEFGHIJKLMNOPQRSTUVWXYZabcdefghijklmnopqrstuvwxyz0123456789-_''"

lemma base64_digit_ok: "n < 64 \<Longrightarrow> is_base64url (base64_digit n)"
  unfolding is_base64url_def base64_digit_def by (rule nth_mem) simp

lemma base64_sextets:
  fixes a b c :: char
  defines "n \<equiv> of_char a :: nat" and "m \<equiv> of_char b :: nat" and "k \<equiv> of_char c :: nat"
  shows "n div 4 < 64" "n mod 4 * 16 < 64" "n mod 4 * 16 + m div 16 < 64" "m mod 16 * 4 < 64"
    "m mod 16 * 4 + k div 64 < 64" "k mod 64 < 64"
proof -
  have "n < 256" "m < 256" "k < 256" by (simp_all add: n_def m_def k_def)
  then have "n div 4 < 64" "m div 16 < 16" "k div 64 < 4" by (simp_all add: less_mult_imp_div_less)
  moreover have "n mod 4 < 4" "m mod 16 < 16" by simp_all
  ultimately show "n div 4 < 64" "n mod 4 * 16 < 64" "n mod 4 * 16 + m div 16 < 64" "m mod 16 * 4 < 64"
    "m mod 16 * 4 + k div 64 < 64" "k mod 64 < 64" by simp_all
qed

lemma base64_encode_chars: "list_all is_base64url (base64_encode s)"
  by (induction s rule: base64_encode.induct) (simp_all add: Let_def base64_digit_ok base64_sextets)

lemma base64_encode_length: "length (base64_encode s) = (4 * length s + 2) div 3"
  by (induction s rule: base64_encode.induct) (simp_all add: Let_def)

end
