(* ===== verification/RequestSigning.thy ===== *)
theory RequestSigning
  imports GoStrings
begin

text \<open>
  \<^verbatim>\<open>cryptography/requestsigning\<close>: signing the body of a request under a keyring and verifying it, with
  the wire format of the signature header, the freshness window, and the key sources.

  The keyed hash is a parameter \<open>hmac\<close>, from a key and a content to a digest: nothing here depends on
  which one it is. Bodies, keys and headers are strings of bytes. A clock is given by its reading at
  the call, a key source by the keyring it answers with, a secret source by its \<^verbatim>\<open>GetSecret\<close>. The
  context of a call is not modelled.
\<close>

subsection \<open>requestsigning.go\<close>

definition SignatureHeader :: string where
  "SignatureHeader = ''X-Platform-Signature''"

definition TimestampHeader :: string where
  "TimestampHeader = ''X-Platform-Timestamp''"

definition SchemeV1 :: string where
  "SchemeV1 = ''v1''"

definition DefaultTolerance :: duration where
  "DefaultTolerance = 5 * Minute"

datatype sig_error =
    ErrInvalidSignature
  | ErrStaleSignature duration
  | ErrNoSigningKey
  | ErrNoVerificationKey
  | ErrNilKeySource

text \<open>What a signer or verifier of requests fails with: one of these, or what reading the body or the keys failed with.\<close>

datatype 'e request_error =
    ErrSig sig_error
  | ErrNilRequest
  | ErrRequestBody 'e
  | ErrKeySource 'e

record Keyring =
  kr_Current :: string
  kr_Previous :: string

definition Keys :: "Keyring \<Rightarrow> string list" where
  "Keys k = filter (\<lambda>key. length key > 0) [kr_Current k, kr_Previous k]"

text \<open>
  A request: its headers, what \<^verbatim>\<open>GetBody\<close> does when there is one (it may fail, and so may reading what
  it returns), and what reading \<^verbatim>\<open>Body\<close> gives, \<^const>\<open>None\<close> for no body.
\<close>

record 'e Request =
  rq_Header :: "(string, string list) gomap"
  rq_GetBody :: "('e + ('e + string)) option"
  rq_Body :: "('e + string) option"

definition Header_Set :: "string \<Rightarrow> string \<Rightarrow> 'e Request \<Rightarrow> 'e Request" where
  "Header_Set k v req = req\<lparr>rq_Header := mput k [v] (rq_Header req)\<rparr>"

definition Header_Get :: "string \<Rightarrow> 'e Request \<Rightarrow> string" where
  "Header_Get k req = (case mget (rq_Header req) k of None \<Rightarrow> [] | Some [] \<Rightarrow> [] | Some (v # _) \<Rightarrow> v)"

text \<open>Reading through \<^verbatim>\<open>GetBody\<close> leaves the request as it was; reading \<^verbatim>\<open>Body\<close> consumes it.\<close>

definition RequestBody :: "'e Request option \<Rightarrow> ('e request_error + string) \<times> 'e Request option" where
  "RequestBody req =
     (case req of
        None \<Rightarrow> (Inl ErrNilRequest, None)
      | Some r \<Rightarrow>
          (case rq_GetBody r of
             Some (Inl err) \<Rightarrow> (Inl (ErrRequestBody err), Some r)
           | Some (Inr body) \<Rightarrow> (map_sum ErrRequestBody id body, Some r)
           | None \<Rightarrow>
               (case rq_Body r of
                  None \<Rightarrow> (Inr [], Some r)
                | Some body \<Rightarrow> (map_sum ErrRequestBody id body, Some (r\<lparr>rq_Body := Some (Inr [])\<rparr>)))))"

subsection \<open>freshness.go and options.go\<close>

record Freshness =
  fr_Clock :: "gotime option"
  fr_At :: gotime
  fr_Tolerance :: duration

text \<open>\<^verbatim>\<open>time.Time.Sub\<close> saturates at the bounds of a 64-bit duration.\<close>

definition time_Sub :: "gotime \<Rightarrow> gotime \<Rightarrow> duration" where
  "time_Sub t u = max (- (2 ^ 63)) (min (2 ^ 63 - 1) (t - u))"

text \<open>\<^verbatim>\<open>time.Unix(sec, 0)\<close> adds the seconds up to the Unix epoch in 64 bits.\<close>

definition wrap64 :: "int \<Rightarrow> int" where
  "wrap64 n = (n + 2 ^ 63) mod 2 ^ 64 - 2 ^ 63"

definition time_Unix :: "int \<Rightarrow> gotime" where
  "time_Unix sec = wrap64 (sec + unixToInternal) * Second"

definition Now :: "gotime \<Rightarrow> Freshness \<Rightarrow> gotime" where
  "Now wall f =
     (if \<not> time_is_zero (fr_At f) then fr_At f
      else case fr_Clock f of Some t \<Rightarrow> t | None \<Rightarrow> wall)"

definition Check :: "gotime \<Rightarrow> Freshness \<Rightarrow> gotime \<Rightarrow> sig_error option" where
  "Check wall f signedAt =
     (let drift = time_Sub (Now wall f) signedAt
      in if drift > fr_Tolerance f \<or> drift < - fr_Tolerance f then Some (ErrStaleSignature drift) else None)"

definition WithClock :: "gotime option \<Rightarrow> Freshness \<Rightarrow> Freshness" where
  "WithClock c cfg = (if c \<noteq> None then cfg\<lparr>fr_Clock := c\<rparr> else cfg)"

definition WithTolerance :: "duration \<Rightarrow> Freshness \<Rightarrow> Freshness" where
  "WithTolerance d cfg = (if d > 0 then cfg\<lparr>fr_Tolerance := d\<rparr> else cfg)"

definition WithVerificationTime :: "gotime \<Rightarrow> Freshness \<Rightarrow> Freshness" where
  "WithVerificationTime t cfg = (if \<not> time_is_zero t then cfg\<lparr>fr_At := t\<rparr> else cfg)"

definition newConfig :: "(Freshness \<Rightarrow> Freshness) option list \<Rightarrow> Freshness" where
  "newConfig opts =
     foldl (\<lambda>cfg opt. case opt of None \<Rightarrow> cfg | Some f \<Rightarrow> f cfg)
       \<lparr>fr_Clock = None, fr_At = 0, fr_Tolerance = DefaultTolerance\<rparr> opts"

subsection \<open>signing.go\<close>

type_synonym keyed_hash = "string \<Rightarrow> string \<Rightarrow> string"

definition signingPayload :: "string \<Rightarrow> int \<Rightarrow> string \<Rightarrow> string" where
  "signingPayload scheme timestamp body = scheme @ ''.'' @ FormatInt timestamp @ ''.'' @ body"

definition Sign :: "keyed_hash \<Rightarrow> Keyring \<Rightarrow> string \<Rightarrow> gotime \<Rightarrow> sig_error + string" where
  "Sign hmac keyring body at =
     (if length (kr_Current keyring) = 0 then Inl ErrNoSigningKey
      else
        (let timestamp = Unix at;
             payload = signingPayload SchemeV1 timestamp body
         in Inr (foldl (\<lambda>sb key. sb @ '',s='' @ hex_encode (hmac key payload))
              (SchemeV1 @ '',t='' @ FormatInt timestamp) (Keys keyring))))"

definition maxSignatureComponents :: nat where
  "maxSignatureComponents = 16"

text \<open>The loop over the components after the scheme, with the timestamp once it was seen.\<close>

fun parse_components :: "string list \<Rightarrow> int option \<Rightarrow> string list \<Rightarrow> sig_error + int option \<times> string list" where
  "parse_components [] timestamp candidates = Inr (timestamp, candidates)"
| "parse_components (part # parts) timestamp candidates =
     (case cut (CHR ''='') (TrimSpace part) of
        None \<Rightarrow> Inl ErrInvalidSignature
      | Some (key, val) \<Rightarrow>
          (if key = ''t'' then
             (if timestamp \<noteq> None then Inl ErrInvalidSignature
              else case ParseInt val of
                     None \<Rightarrow> Inl ErrInvalidSignature
                   | Some t \<Rightarrow> parse_components parts (Some t) candidates)
           else if key = ''s'' then
             (case hex_decode val of
                None \<Rightarrow> Inl ErrInvalidSignature
              | Some mac \<Rightarrow> parse_components parts timestamp (candidates @ [mac]))
           else parse_components parts timestamp candidates))"

definition parseSignature :: "string \<Rightarrow> sig_error + string \<times> int \<times> string list" where
  "parseSignature signature =
     (let parts = split_by ((=) (CHR '','')) signature
      in if length parts < 2 \<or> length parts > maxSignatureComponents then Inl ErrInvalidSignature
         else
           (let scheme = TrimSpace (hd parts)
            in if scheme \<noteq> SchemeV1 then Inl ErrInvalidSignature
               else case parse_components (tl parts) None [] of
                      Inl err \<Rightarrow> Inl err
                    | Inr (None, candidates) \<Rightarrow> Inl ErrInvalidSignature
                    | Inr (Some timestamp, candidates) \<Rightarrow>
                        (if length candidates = 0 then Inl ErrInvalidSignature else Inr (scheme, timestamp, candidates))))"

text \<open>Every key against every candidate, without stopping at a match.\<close>

definition MatchesAny :: "(string \<Rightarrow> string) list \<Rightarrow> string \<Rightarrow> string list \<Rightarrow> bool" where
  "MatchesAny hashers content candidates =
     foldl (\<lambda>matched h. foldl (\<lambda>matched candidate. if h content = candidate then True else matched) matched candidates)
       False hashers"

definition verify :: "keyed_hash \<Rightarrow> gotime \<Rightarrow> Keyring \<Rightarrow> string \<Rightarrow> string \<Rightarrow> Freshness \<Rightarrow> sig_error option" where
  "verify hmac wall keyring body signature cfg =
     (if length (Keys keyring) = 0 then Some ErrNoVerificationKey
      else case parseSignature signature of
             Inl err \<Rightarrow> Some err
           | Inr (scheme, timestamp, candidates) \<Rightarrow>
               (case Check wall cfg (time_Unix timestamp) of
                  Some err \<Rightarrow> Some err
                | None \<Rightarrow>
                    (if \<not> MatchesAny (map hmac (Keys keyring)) (signingPayload scheme timestamp body) candidates
                     then Some ErrInvalidSignature else None)))"

definition Verify :: "keyed_hash \<Rightarrow> gotime \<Rightarrow> Keyring \<Rightarrow> string \<Rightarrow> string \<Rightarrow> (Freshness \<Rightarrow> Freshness) option list \<Rightarrow>
    sig_error option" where
  "Verify hmac wall keyring body signature opts = verify hmac wall keyring body signature (newConfig opts)"

subsection \<open>keys.go\<close>

datatype secret_error = ErrSecretNotFound | ErrSecretStore string

record SecretKeySource =
  sk_currentName :: string
  sk_previousName :: string

definition NewSecretKeySource :: "bool \<Rightarrow> string \<Rightarrow> string \<Rightarrow> SecretKeySource option" where
  "NewSecretKeySource source_given currentName previousName =
     (if \<not> source_given then None
      else if currentName = [] then None
      else Some \<lparr>sk_currentName = currentName, sk_previousName = previousName\<rparr>)"

datatype key_source_error = ErrResolving string secret_error | ErrEmptySecret string

definition Keyring_secret :: "(string \<Rightarrow> secret_error + string) \<Rightarrow> SecretKeySource \<Rightarrow> key_source_error + Keyring" where
  "Keyring_secret GetSecret s =
     (case GetSecret (sk_currentName s) of
        Inl err \<Rightarrow> Inl (ErrResolving (sk_currentName s) err)
      | Inr current \<Rightarrow>
          (if current = [] then Inl (ErrEmptySecret (sk_currentName s))
           else
             (let keyring = \<lparr>kr_Current = current, kr_Previous = []\<rparr>
              in if sk_previousName s = [] then Inr keyring
                 else case GetSecret (sk_previousName s) of
                        Inl err \<Rightarrow> (if err = ErrSecretNotFound then Inr keyring else Inl (ErrResolving (sk_previousName s) err))
                      | Inr previous \<Rightarrow> Inr (keyring\<lparr>kr_Previous := previous\<rparr>))))"

subsection \<open>signer.go and verifier.go\<close>

definition SignRequest :: "keyed_hash \<Rightarrow> gotime \<Rightarrow> 'e + Keyring \<Rightarrow> Freshness \<Rightarrow> 'e Request option \<Rightarrow>
    'e request_error option \<times> 'e Request option" where
  "SignRequest hmac wall keys cfg req =
     (case RequestBody req of
        (Inl err, req1) \<Rightarrow> (Some err, req1)
      | (Inr body, req1) \<Rightarrow>
          (case keys of
             Inl err \<Rightarrow> (Some (ErrKeySource err), req1)
           | Inr keyring \<Rightarrow>
               (let at = Now wall cfg
                in case Sign hmac keyring body at of
                     Inl err \<Rightarrow> (Some (ErrSig err), req1)
                   | Inr signature \<Rightarrow>
                       (None, map_option (Header_Set TimestampHeader (FormatInt (Unix at)))
                                (map_option (Header_Set SignatureHeader signature) req1)))))"

definition VerifyRequest :: "keyed_hash \<Rightarrow> gotime \<Rightarrow> 'e + Keyring \<Rightarrow> Freshness \<Rightarrow> 'e Request option \<Rightarrow>
    'e request_error option \<times> 'e Request option" where
  "VerifyRequest hmac wall keys cfg req =
     (case req of
        None \<Rightarrow> (Some ErrNilRequest, None)
      | Some r \<Rightarrow>
          (let signature = Header_Get SignatureHeader r
           in if signature = [] then (Some (ErrSig ErrInvalidSignature), req)
              else case RequestBody req of
                     (Inl err, req1) \<Rightarrow> (Some err, req1)
                   | (Inr body, req1) \<Rightarrow>
                       (case keys of
                          Inl err \<Rightarrow> (Some (ErrKeySource err), req1)
                        | Inr keyring \<Rightarrow> (map_option ErrSig (verify hmac wall keyring body signature cfg), req1))))"

subsection \<open>What the header says\<close>

lemma foldl_append: "foldl (\<lambda>sb x. sb @ f x) acc xs = acc @ concat (map f xs)"
  by (induction xs arbitrary: acc) auto

definition signature_parts :: "string \<Rightarrow> int \<Rightarrow> string list \<Rightarrow> string list" where
  "signature_parts scheme timestamp macs =
     scheme # (''t='' @ FormatInt timestamp) # map (\<lambda>mac. ''s='' @ hex_encode mac) macs"

lemma join_parts:
  "join (CHR '','') (p # map f xs) = p @ concat (map (\<lambda>x. CHR '','' # f x) xs)"
  by (induction xs arbitrary: p) auto

lemma Sign_eq:
  assumes "kr_Current keyring \<noteq> []"
  shows "Sign hmac keyring body at =
    Inr (join (CHR '','') (signature_parts SchemeV1 (Unix at)
      (map (\<lambda>key. hmac key (signingPayload SchemeV1 (Unix at) body)) (Keys keyring))))"
  using assms
  by (simp add: Sign_def Let_def foldl_append signature_parts_def join_parts [of "_ @ _"] join_parts o_def)

lemma plain_parts:
  assumes "p \<in> set (signature_parts SchemeV1 ts macs)"
  shows "list_all visible p \<and> CHR '','' \<notin> set p"
proof -
  have "list_all visible ''v1'' \<and> list_all visible ''t='' \<and> list_all visible ''s=''" by code_simp
  moreover have "CHR '','' \<notin> set (FormatInt ts) \<and> (\<forall>mac. CHR '','' \<notin> set (hex_encode mac))"
    using FormatInt_plain hex_encode_plain by blast
  ultimately show ?thesis
    using assms FormatInt_plain hex_encode_plain by (auto simp: signature_parts_def SchemeV1_def list_all_iff)
qed

lemma cut_key: "cut (CHR ''='') (''t='' @ v) = Some (''t'', v)" "cut (CHR ''='') (''s='' @ v) = Some (''s'', v)"
  using cut_append [of "CHR ''=''" "''t''" v] cut_append [of "CHR ''=''" "''s''" v] by simp_all

lemma parse_macs:
  assumes "\<And>mac. mac \<in> set macs \<Longrightarrow> TrimSpace (''s='' @ hex_encode mac) = ''s='' @ hex_encode mac"
  shows "parse_components (map (\<lambda>mac. ''s='' @ hex_encode mac) macs) ts cs = Inr (ts, cs @ macs)"
  using assms
proof (induction macs arbitrary: cs)
  case (Cons mac macs)
  then have "TrimSpace (''s='' @ hex_encode mac) = ''s='' @ hex_encode mac" by simp
  with Cons cut_key(2) [of "hex_encode mac"] show ?case by simp
qed simp

lemma parse_signature_parts:
  assumes "- (2 ^ 63) \<le> ts" "ts < 2 ^ 63" "macs \<noteq> []" "length macs \<le> 14"
  shows "(parseSignature (join (CHR '','') (signature_parts SchemeV1 ts macs)) :: sig_error + _) = Inr (SchemeV1, ts, macs)"
proof -
  have parts: "split_by ((=) (CHR '','')) (join (CHR '','') (signature_parts SchemeV1 ts macs)) = signature_parts SchemeV1 ts macs"
    by (rule split_by_join) (use plain_parts in \<open>auto simp: signature_parts_def\<close>)
  have trim: "TrimSpace p = p" if "p \<in> set (signature_parts SchemeV1 ts macs)" for p
    using plain_parts [OF that] TrimSpace_visible by simp
  have "(parse_components (map (\<lambda>mac. ''s='' @ hex_encode mac) macs) (Some ts) [] :: sig_error + _) = Inr (Some ts, macs)"
    using parse_macs [of macs "Some ts" "[]"] trim by (simp add: signature_parts_def)
  then have "(parse_components (tl (signature_parts SchemeV1 ts macs)) None [] :: sig_error + _) = Inr (Some ts, macs)"
    using trim [of "''t='' @ FormatInt ts"] cut_key(1) [of "FormatInt ts"] ParseInt_FormatInt [OF assms(1,2)]
    by (simp add: signature_parts_def)
  moreover have "TrimSpace SchemeV1 = SchemeV1" using trim by (simp add: signature_parts_def)
  moreover have "length (signature_parts SchemeV1 ts macs) \<ge> 2 \<and> length (signature_parts SchemeV1 ts macs) \<le> maxSignatureComponents"
    using assms(4) by (simp add: signature_parts_def maxSignatureComponents_def)
  ultimately show ?thesis
    using parts assms(3) by (simp add: parseSignature_def Let_def signature_parts_def [of SchemeV1] del: parse_components.simps)
qed

lemma MatchesAny_iff: "MatchesAny hashers content candidates \<longleftrightarrow> (\<exists>h \<in> set hashers. h content \<in> set candidates)"
proof -
  have inner: "foldl (\<lambda>matched candidate. if h content = candidate then True else matched) m cs \<longleftrightarrow> m \<or> h content \<in> set cs"
    for h :: "string \<Rightarrow> string" and m cs
    by (induction cs arbitrary: m) auto
  have "foldl (\<lambda>matched h. foldl (\<lambda>matched candidate. if h content = candidate then True else matched) matched candidates) m hashers
      \<longleftrightarrow> m \<or> (\<exists>h \<in> set hashers. h content \<in> set candidates)" for m
    by (induction hashers arbitrary: m) (auto simp: inner)
  then show ?thesis by (simp add: MatchesAny_def)
qed

lemma signingPayload_inj: "signingPayload scheme ts body = signingPayload scheme ts' body' \<longleftrightarrow> ts = ts' \<and> body = body'"
proof -
  have "CHR ''.'' \<notin> set (FormatInt n)" for n using FormatInt_plain by blast
  from append_sep_cancel [OF this this, of ts body ts' body'] show ?thesis by (simp add: signingPayload_def)
qed

subsection \<open>Signing and verifying\<close>

lemma Keys_length: "length (Keys kr) \<le> 2"
  using length_filter_le [of "\<lambda>key. length key > 0" "[kr_Current kr, kr_Previous kr]"] unfolding Keys_def
  by (simp del: filter.simps)

lemma Unix_roundtrip: "0 \<le> t \<Longrightarrow> t div Second < 2 ^ 63 \<Longrightarrow> time_Unix (Unix t) = (t div Second) * Second"
  by (simp add: time_Unix_def Unix_def wrap64_def Second_def Millisecond_def)

lemma verify_signed:
  assumes "kr_Current kr \<noteq> []" "0 \<le> at" "at div Second < 2 ^ 63" "set (Keys kr) \<inter> set (Keys kr') \<noteq> {}"
    and "\<bar>Now wall cfg - (at div Second) * Second\<bar> \<le> fr_Tolerance cfg" "fr_Tolerance cfg < 2 ^ 63"
  shows "\<exists>signature. (Sign hmac kr body at :: sig_error + _) = Inr signature \<and> signature \<noteq> [] \<and>
    (verify hmac wall kr' body signature cfg :: sig_error option) = None"
proof -
  let ?ts = "Unix at"
  let ?payload = "signingPayload SchemeV1 ?ts body"
  let ?macs = "map (\<lambda>key. hmac key ?payload) (Keys kr)"
  let ?sig = "join (CHR '','') (signature_parts SchemeV1 ?ts ?macs)"
  have sec: "0 \<le> at div Second" using assms(2) by (simp add: Second_def Millisecond_def pos_imp_zdiv_nonneg_iff)
  have "(parseSignature ?sig :: sig_error + _) = Inr (SchemeV1, ?ts, ?macs)"
    using assms(3,4) sec Keys_length [of kr] by (intro parse_signature_parts) (auto simp: Unix_def unixToInternal_def)
  moreover have "(Check wall cfg (time_Unix ?ts) :: sig_error option) = None"
    using assms(5,6) by (simp add: Check_def Let_def Unix_roundtrip [OF assms(2,3)] time_Sub_def abs_le_iff)
  moreover obtain key where "key \<in> set (Keys kr)" "key \<in> set (Keys kr')" using assms(4) by blast
  then have "MatchesAny (map hmac (Keys kr')) ?payload ?macs" "Keys kr' \<noteq> []" by (auto simp: MatchesAny_iff)
  ultimately have "(verify hmac wall kr' body ?sig cfg :: sig_error option) = None" by (simp add: verify_def)
  moreover have "?sig \<noteq> []" by (simp add: signature_parts_def SchemeV1_def)
  ultimately show ?thesis using Sign_eq [OF assms(1), of hmac body at] by blast
qed

text \<open>A request signed under one keyring verifies under another whenever the two share a key, so also
  in the middle of a rotation on either side, and the verifier's clock is within its tolerance of the
  signed second. The body read back is the body that was signed, and verifying leaves the request as
  it was.\<close>

theorem signed_request_verifies:
  assumes "rq_GetBody r = Some (Inr (Inr body))" and "kr_Current kr \<noteq> []"
    and "0 \<le> Now wall cfg" and "Now wall cfg div Second < 2 ^ 63" and "set (Keys kr) \<inter> set (Keys kr') \<noteq> {}"
    and "\<bar>Now wall' cfg' - (Now wall cfg div Second) * Second\<bar> \<le> fr_Tolerance cfg'" and "fr_Tolerance cfg' < 2 ^ 63"
  shows "\<exists>req. SignRequest hmac wall (Inr kr) cfg (Some r) = (None, Some req) \<and>
    RequestBody (Some req) = (Inr body, Some req) \<and> VerifyRequest hmac wall' (Inr kr') cfg' (Some req) = (None, Some req)"
proof -
  obtain signature where s: "Sign hmac kr body (Now wall cfg) = Inr signature" "signature \<noteq> []"
    "verify hmac wall' kr' body signature cfg' = None"
    using verify_signed [OF assms(2-7), of hmac body] by blast
  let ?req = "Header_Set TimestampHeader (FormatInt (Unix (Now wall cfg))) (Header_Set SignatureHeader signature r)"
  have "SignRequest hmac wall (Inr kr) cfg (Some r) = (None, Some ?req)"
    using assms(1) s(1) by (simp add: SignRequest_def RequestBody_def Let_def)
  moreover have body: "RequestBody (Some ?req) = (Inr body, Some ?req)"
    using assms(1) by (simp add: RequestBody_def Header_Set_def)
  moreover have "Header_Get SignatureHeader ?req = signature"
    by (simp add: Header_Get_def Header_Set_def SignatureHeader_def TimestampHeader_def)
  then have "VerifyRequest hmac wall' (Inr kr') cfg' (Some ?req) = (None, Some ?req)"
    using s(2,3) body by (simp add: VerifyRequest_def Let_def)
  ultimately show ?thesis by blast
qed

text \<open>The witness rotates: the signer holds a new and an old key, the verifier only the old one.\<close>

theorem signed_request_verifies_witness:
  "let r = \<lparr>rq_Header = [], rq_GetBody = Some (Inr (Inr ''hello'')), rq_Body = None\<rparr> :: unit Request;
       old = \<lparr>kr_Current = ''old'', kr_Previous = []\<rparr>; both = \<lparr>kr_Current = ''new'', kr_Previous = ''old''\<rparr>;
       at = 63000000000 * Second + 7; hmac = (\<lambda>key content. key @ content)
   in \<exists>req. SignRequest hmac at (Inr both) (newConfig []) (Some r) = (None, Some req) \<and>
      VerifyRequest hmac (at + Minute) (Inr old) (newConfig []) (Some req) = (None, Some req)"
proof -
  let ?r = "\<lparr>rq_Header = [], rq_GetBody = Some (Inr (Inr ''hello'')), rq_Body = None\<rparr> :: unit Request"
  let ?old = "\<lparr>kr_Current = ''old'', kr_Previous = []\<rparr>" and ?both = "\<lparr>kr_Current = ''new'', kr_Previous = ''old''\<rparr>"
  let ?at = "63000000000 * Second + 7"
  have now: "Now w (newConfig []) = w" "fr_Tolerance (newConfig []) = 5 * Minute" for w
    by (simp_all add: Now_def newConfig_def DefaultTolerance_def)
  have "\<bar>Now (?at + Minute) (newConfig []) - (Now ?at (newConfig []) div Second) * Second\<bar> \<le> fr_Tolerance (newConfig [])"
    "0 \<le> Now ?at (newConfig [])" "Now ?at (newConfig []) div Second < 2 ^ 63" "fr_Tolerance (newConfig []) < 2 ^ 63"
    unfolding now by (simp_all add: Minute_def Second_def Millisecond_def)
  moreover have "set (Keys ?both) \<inter> set (Keys ?old) \<noteq> {}" by (simp add: Keys_def)
  ultimately have "\<exists>req. SignRequest (\<lambda>key content. key @ content) ?at (Inr ?both) (newConfig []) (Some ?r) = (None, Some req) \<and>
      RequestBody (Some req) = (Inr ''hello'', Some req) \<and>
      VerifyRequest (\<lambda>key content. key @ content) (?at + Minute) (Inr ?old) (newConfig []) (Some req) = (None, Some req)"
    by (intro signed_request_verifies) simp_all
  then show ?thesis unfolding Let_def by blast
qed

lemma parse_components_sound:
  assumes "parse_components parts ts0 cs0 = Inr (Some ts, cs)"
  shows "(ts0 = Some ts \<or> (\<exists>p \<in> set parts. \<exists>v. TrimSpace p = ''t='' @ v \<and> ParseInt v = Some ts)) \<and>
    (\<forall>c \<in> set cs. c \<in> set cs0 \<or> (\<exists>p \<in> set parts. \<exists>v. TrimSpace p = ''s='' @ v \<and> hex_decode v = Some c))"
  using assms
proof (induction parts arbitrary: ts0 cs0)
  case (Cons p parts)
  obtain key v where kv: "cut (CHR ''='') (TrimSpace p) = Some (key, v)"
    using Cons.prems by (cases "cut (CHR ''='') (TrimSpace p)") auto
  then have p: "TrimSpace p = key @ CHR ''='' # v" by (simp add: cut_Some)
  consider (t) t where "key = ''t''" "ParseInt v = Some t" "parse_components parts (Some t) cs0 = Inr (Some ts, cs)"
    | (s) mac where "key = ''s''" "hex_decode v = Some mac" "parse_components parts ts0 (cs0 @ [mac]) = Inr (Some ts, cs)"
    | (other) "parse_components parts ts0 cs0 = Inr (Some ts, cs)"
    using Cons.prems kv by (auto split: if_splits option.splits)
  then show ?case
  proof cases
    case t
    with Cons.IH [OF t(3)] p show ?thesis by auto
  next
    case s
    with Cons.IH [OF s(3)] p show ?thesis by auto
  next
    case other
    with Cons.IH [OF other] show ?thesis by auto
  qed
qed simp

lemma parseSignature_sound:
  assumes "parseSignature signature = Inr (scheme, ts, cs)"
  shows "scheme = SchemeV1 \<and>
    (\<exists>p \<in> set (tl (split_by ((=) (CHR '','')) signature)). \<exists>v. TrimSpace p = ''t='' @ v \<and> ParseInt v = Some ts) \<and>
    (\<forall>c \<in> set cs. \<exists>p \<in> set (tl (split_by ((=) (CHR '','')) signature)). \<exists>v. TrimSpace p = ''s='' @ v \<and> hex_decode v = Some c)"
proof -
  let ?parts = "tl (split_by ((=) (CHR '','')) signature)"
  obtain ts0 cs0 where "parse_components ?parts None [] = Inr (Some ts0, cs0)" "ts0 = ts" "cs0 = cs" "scheme = SchemeV1"
    using assms by (auto simp: parseSignature_def Let_def split: if_splits sum.splits option.splits)
  with parse_components_sound [of ?parts None "[]" ts cs] show ?thesis by simp
qed

text \<open>C13. A request that verifies carries a timestamp within the tolerance of the verifier's clock and
  the digest, under one of the verifier's keys, of that very timestamp and of the body the handler
  will read; no other timestamp or body has the same signed bytes.\<close>

theorem verified_request_was_signed:
  assumes "VerifyRequest hmac wall (Inr kr) cfg (Some r) = (None, req)"
  shows "\<exists>body ts key p v. RequestBody (Some r) = (Inr body, req) \<and> key \<in> set (Keys kr) \<and>
    \<bar>time_Sub (Now wall cfg) (time_Unix ts)\<bar> \<le> fr_Tolerance cfg \<and>
    p \<in> set (split_by ((=) (CHR '','')) (Header_Get SignatureHeader r)) \<and> TrimSpace p = ''s='' @ v \<and>
    hex_decode v = Some (hmac key (signingPayload SchemeV1 ts body)) \<and>
    (\<forall>ts' body'. signingPayload SchemeV1 ts' body' = signingPayload SchemeV1 ts body \<longrightarrow> ts' = ts \<and> body' = body)"
proof -
  let ?sig = "Header_Get SignatureHeader r"
  obtain body where b: "RequestBody (Some r) = (Inr body, req)" "verify hmac wall kr body ?sig cfg = None"
    using assms by (auto simp: VerifyRequest_def Let_def split: if_splits sum.splits prod.splits)
  then obtain scheme ts cs where p: "parseSignature ?sig = Inr (scheme, ts, cs)"
      "Check wall cfg (time_Unix ts) = None" "MatchesAny (map hmac (Keys kr)) (signingPayload scheme ts body) cs"
    by (auto simp: verify_def split: if_splits sum.splits option.splits)
  note sound = parseSignature_sound [OF p(1)]
  from p(3) sound obtain key where key: "key \<in> set (Keys kr)" "hmac key (signingPayload SchemeV1 ts body) \<in> set cs"
    by (auto simp: MatchesAny_iff)
  with sound obtain part v where v: "part \<in> set (tl (split_by ((=) (CHR '','')) ?sig))" "TrimSpace part = ''s='' @ v"
    "hex_decode v = Some (hmac key (signingPayload SchemeV1 ts body))" by blast
  have "part \<in> set (split_by ((=) (CHR '','')) ?sig)" using v(1) by (rule list.set_sel(2) [rotated]) simp
  moreover have "\<bar>time_Sub (Now wall cfg) (time_Unix ts)\<bar> \<le> fr_Tolerance cfg"
    using p(2) by (auto simp: Check_def Let_def split: if_splits)
  ultimately show ?thesis using b(1) key(1) v(2,3) signingPayload_inj by blast
qed

theorem verified_request_was_signed_witness:
  "\<exists>signature ts. VerifyRequest (\<lambda>key content. key @ content) (1000 * Second) (Inr \<lparr>kr_Current = ''k'', kr_Previous = []\<rparr>)
      (newConfig []) (Some \<lparr>rq_Header = [(SignatureHeader, [signature])], rq_GetBody = None, rq_Body = Some (Inr ''a'')\<rparr>) =
      (None, Some (\<lparr>rq_Header = [(SignatureHeader, [signature])], rq_GetBody = None, rq_Body = Some (Inr [])\<rparr> :: unit Request)) \<and>
    \<bar>time_Sub (1000 * Second) (time_Unix ts)\<bar> \<le> 5 * Minute"
proof -
  let ?hmac = "\<lambda>key content. key @ content :: string" and ?kr = "\<lparr>kr_Current = ''k'', kr_Previous = []\<rparr>"
  have now: "Now (1000 * Second) (newConfig []) = 1000 * Second" "fr_Tolerance (newConfig []) = 5 * Minute"
    by (simp_all add: Now_def newConfig_def DefaultTolerance_def)
  obtain signature where sig: "signature \<noteq> []" "verify ?hmac (1000 * Second) ?kr ''a'' signature (newConfig []) = None"
    using verify_signed [of ?kr "1000 * Second" ?kr "1000 * Second" "newConfig []" ?hmac "''a''"]
    unfolding now by (auto simp: Keys_def Minute_def Second_def Millisecond_def)
  let ?req = "\<lambda>body. \<lparr>rq_Header = [(SignatureHeader, [signature])], rq_GetBody = None, rq_Body = Some (Inr body)\<rparr> :: unit Request"
  have "VerifyRequest ?hmac (1000 * Second) (Inr ?kr) (newConfig []) (Some (?req ''a'')) = (None, Some (?req []))"
    using sig by (simp add: VerifyRequest_def RequestBody_def Header_Get_def mget_def Let_def)
  with verified_request_was_signed [OF this] show ?thesis unfolding now by blast
qed

end
