(* ===== verification/EncryptionKeyring.thy ===== *)
theory EncryptionKeyring
  imports Prelude
begin

text \<open>
  \<^verbatim>\<open>cryptography/encryption\<close>: the frame that names the key of a ciphertext (\<^verbatim>\<open>frame.go\<close>) and the keyring
  that encrypts under one key and decrypts under whichever key a ciphertext names (\<^verbatim>\<open>keyring.go\<close>).

  A \<^verbatim>\<open>Cipher\<close> is an interface: a record of its two functions, where sealing also takes the randomness
  of the call. What its documentation promises of an authenticated cipher is stated as two named
  hypotheses, \<open>opens_sealed\<close> and \<open>opens_only_sealed\<close>. Byte strings are strings. The counters of the ring
  are kept per key identifier, as the metric attributes have it.
\<close>

subsection \<open>errors.go and encryptor\_decryptor.go\<close>

type_synonym KeyID = string

datatype enc_error =
    ErrMalformedCiphertext
  | ErrUnknownKeyID KeyID
  | ErrEmptyKeyring
  | ErrNilCipher KeyID
  | ErrNoCurrentKey KeyID
  | ErrEmptyKeyID
  | ErrKeyIDTooLong nat
  | ErrDuplicateKeyID KeyID
  | ErrUnsupportedCiphertextVersion nat

record ('r, 'e) Cipher =
  ci_Seal :: "'r \<Rightarrow> string \<Rightarrow> string \<Rightarrow> 'e + string"
  ci_Open :: "string \<Rightarrow> string \<Rightarrow> 'e + string"

subsection \<open>frame.go\<close>

definition frameVersion :: char where
  "frameVersion = char_of (1 :: nat)"

definition headerOverhead :: nat where
  "headerOverhead = 2"

definition MaxKeyIDLength :: nat where
  "MaxKeyIDLength = 255"

definition encodeHeader :: "KeyID \<Rightarrow> enc_error + string" where
  "encodeHeader id' =
     (if id' = [] then Inl ErrEmptyKeyID
      else if length id' > MaxKeyIDLength then Inl (ErrKeyIDTooLong (length id'))
      else Inr ([frameVersion, char_of (length id')] @ id'))"

definition decodeHeader :: "string \<Rightarrow> enc_error + KeyID \<times> string \<times> string" where
  "decodeHeader ciphertext =
     (if length ciphertext < headerOverhead then Inl ErrMalformedCiphertext
      else if ciphertext ! 0 \<noteq> frameVersion then Inl (ErrUnsupportedCiphertextVersion (of_char (ciphertext ! 0)))
      else
        (let idLen = of_char (ciphertext ! 1);
             finish = headerOverhead + idLen
         in if idLen = 0 then Inl ErrMalformedCiphertext
            else if length ciphertext < finish then Inl ErrMalformedCiphertext
            else Inr (drop headerOverhead (take finish ciphertext), take finish ciphertext, drop finish ciphertext)))"

definition bindHeader :: "string \<Rightarrow> string \<Rightarrow> string" where
  "bindHeader header associatedData = header @ associatedData"

subsection \<open>keyring.go\<close>

record ('r, 'e) RingKey =
  rk_Cipher :: "('r, 'e) Cipher option"
  rk_ID :: KeyID

record ('r, 'e) ringEntry =
  re_cipher :: "('r, 'e) Cipher"
  re_header :: string

record ('r, 'e) Keyring =
  kg_byID :: "(KeyID, ('r, 'e) ringEntry) gomap"
  kg_currentID :: KeyID
  kg_current :: "('r, 'e) ringEntry"
  kg_encryptions :: "KeyID \<Rightarrow> nat"
  kg_decryptions :: "KeyID \<Rightarrow> nat"
  kg_unknown :: "KeyID \<Rightarrow> nat"

fun index_keys :: "('r, 'e) RingKey list \<Rightarrow> (KeyID, ('r, 'e) ringEntry) gomap \<Rightarrow>
    enc_error + (KeyID, ('r, 'e) ringEntry) gomap" where
  "index_keys [] byID = Inr byID"
| "index_keys (k # ks) byID =
     (case rk_Cipher k of
        None \<Rightarrow> Inl (ErrNilCipher (rk_ID k))
      | Some c \<Rightarrow>
          (if mget byID (rk_ID k) \<noteq> None then Inl (ErrDuplicateKeyID (rk_ID k))
           else case encodeHeader (rk_ID k) of
                  Inl err \<Rightarrow> Inl err
                | Inr header \<Rightarrow> index_keys ks (mput (rk_ID k) \<lparr>re_cipher = c, re_header = header\<rparr> byID)))"

definition NewKeyring :: "KeyID \<Rightarrow> ('r, 'e) RingKey list \<Rightarrow> enc_error + ('r, 'e) Keyring" where
  "NewKeyring current ringKeys =
     (if length ringKeys = 0 then Inl ErrEmptyKeyring
      else case index_keys ringKeys [] of
             Inl err \<Rightarrow> Inl err
           | Inr byID \<Rightarrow>
               (case mget byID current of
                  None \<Rightarrow> Inl (ErrNoCurrentKey current)
                | Some entry \<Rightarrow>
                    Inr \<lparr>kg_byID = byID, kg_currentID = current, kg_current = entry,
                         kg_encryptions = (\<lambda>_. 0), kg_decryptions = (\<lambda>_. 0), kg_unknown = (\<lambda>_. 0)\<rparr>))"

definition CurrentKeyID :: "('r, 'e) Keyring \<Rightarrow> KeyID" where
  "CurrentKeyID r = kg_currentID r"

definition KeyIDs :: "('r, 'e) Keyring \<Rightarrow> KeyID list" where
  "KeyIDs r = mkeys (kg_byID r)"

definition bump :: "KeyID \<Rightarrow> (KeyID \<Rightarrow> nat) \<Rightarrow> KeyID \<Rightarrow> nat" where
  "bump k f = f(k := f k + 1)"

definition Encrypt :: "'r \<Rightarrow> string \<Rightarrow> string \<Rightarrow> ('r, 'e) Keyring \<Rightarrow> ('e + string) \<times> ('r, 'e) Keyring" where
  "Encrypt rnd plaintext associatedData r =
     (let header = re_header (kg_current r)
      in case ci_Seal (re_cipher (kg_current r)) rnd plaintext (bindHeader header associatedData) of
           Inl err \<Rightarrow> (Inl err, r)
         | Inr sealed \<Rightarrow> (Inr (header @ sealed), r\<lparr>kg_encryptions := bump (kg_currentID r) (kg_encryptions r)\<rparr>))"

definition Decrypt :: "string \<Rightarrow> string \<Rightarrow> ('r, 'e) Keyring \<Rightarrow> ((enc_error + 'e) + string) \<times> ('r, 'e) Keyring" where
  "Decrypt ciphertext associatedData r =
     (case decodeHeader ciphertext of
        Inl err \<Rightarrow> (Inl (Inl err), r)
      | Inr (keyID, header, body) \<Rightarrow>
          (case mget (kg_byID r) keyID of
             None \<Rightarrow> (Inl (Inl (ErrUnknownKeyID keyID)), r\<lparr>kg_unknown := bump keyID (kg_unknown r)\<rparr>)
           | Some entry \<Rightarrow>
               (case ci_Open (re_cipher entry) body (bindHeader header associatedData) of
                  Inl err \<Rightarrow> (Inl (Inr err), r)
                | Inr plaintext \<Rightarrow> (Inr plaintext, r\<lparr>kg_decryptions := bump keyID (kg_decryptions r)\<rparr>))))"

subsection \<open>What a cipher promises\<close>

definition opens_sealed :: "('r, 'e) Cipher \<Rightarrow> bool" where
  "opens_sealed c \<longleftrightarrow> (\<forall>rnd pt ad ct. ci_Seal c rnd pt ad = Inr ct \<longrightarrow> ci_Open c ct ad = Inr pt)"

definition opens_only_sealed :: "('r, 'e) Cipher \<Rightarrow> bool" where
  "opens_only_sealed c \<longleftrightarrow> (\<forall>ct ad pt. ci_Open c ct ad = Inr pt \<longrightarrow> (\<exists>rnd. ci_Seal c rnd pt ad = Inr ct))"

subsection \<open>The frame\<close>

lemma encodeHeader_Inr:
  "encodeHeader k = Inr header \<longleftrightarrow> k \<noteq> [] \<and> length k \<le> 255 \<and> header = [frameVersion, char_of (length k)] @ k"
  by (auto simp: encodeHeader_def MaxKeyIDLength_def)

lemma decode_encode:
  assumes "encodeHeader k = Inr header"
  shows "decodeHeader (header @ body) = Inr (k, header, body)"
proof -
  have h: "k \<noteq> []" "length k \<le> 255" "header = frameVersion # char_of (length k) # k"
    using assms by (simp_all add: encodeHeader_Inr)
  then have "(of_char (char_of (length k) :: char) :: nat) = length k" by simp
  with h show ?thesis by (simp add: decodeHeader_def headerOverhead_def Let_def)
qed

lemma decodeHeader_Inr:
  assumes "decodeHeader ct = Inr (k, header, body)"
  shows "encodeHeader k = Inr header \<and> ct = header @ body"
proof -
  let ?n = "of_char (ct ! 1) :: nat"
  have d: "2 \<le> length ct" "ct ! 0 = frameVersion" "?n \<noteq> 0" "2 + ?n \<le> length ct"
    "k = drop 2 (take (2 + ?n) ct)" "header = take (2 + ?n) ct" "body = drop (2 + ?n) ct"
    using assms by (auto simp: decodeHeader_def headerOverhead_def Let_def split: if_splits)
  have len: "length k = ?n" using d(4,5) by simp
  have "?n < 256" by simp
  then have bound: "length k \<le> 255" unfolding len by linarith
  have "header = [frameVersion, char_of (length k)] @ k"
    unfolding len using d by (cases ct; cases "tl ct") auto
  moreover have "k \<noteq> []" using len d(3) by (metis list.size(3))
  moreover have "ct = header @ body" using d(6,7) by simp
  ultimately show ?thesis using bound by (simp add: encodeHeader_Inr)
qed

text \<open>A header tells where it ends: the bytes a cipher authenticates determine key and caller's data.\<close>

lemma bindHeader_inj:
  assumes "encodeHeader k = Inr h" "encodeHeader k' = Inr h'"
  shows "bindHeader h ad = bindHeader h' ad' \<longleftrightarrow> k = k' \<and> ad = ad'"
proof
  assume "bindHeader h ad = bindHeader h' ad'"
  then have "decodeHeader (h @ ad) = decodeHeader (h' @ ad')" by (simp only: bindHeader_def)
  then show "k = k' \<and> ad = ad'" unfolding decode_encode [OF assms(1)] decode_encode [OF assms(2)] by simp
next
  assume "k = k' \<and> ad = ad'"
  then show "bindHeader h ad = bindHeader h' ad'" using assms by simp
qed

subsection \<open>The ring\<close>

definition ring_ok :: "('r, 'e) Keyring \<Rightarrow> bool" where
  "ring_ok r \<longleftrightarrow> mget (kg_byID r) (kg_currentID r) = Some (kg_current r) \<and>
     (\<forall>k e. mget (kg_byID r) k = Some e \<longrightarrow> encodeHeader k = Inr (re_header e))"

lemma index_keys_headers:
  assumes "index_keys ks m = Inr byID" and "\<And>k e. mget m k = Some e \<Longrightarrow> encodeHeader k = Inr (re_header e)"
    and "mget byID k = Some e"
  shows "encodeHeader k = Inr (re_header e)"
  using assms
proof (induction ks arbitrary: m)
  case (Cons x xs)
  then obtain c header where "rk_Cipher x = Some c" and h: "encodeHeader (rk_ID x) = Inr header"
    and run: "index_keys xs (mput (rk_ID x) \<lparr>re_cipher = c, re_header = header\<rparr> m) = Inr byID"
    by (auto split: option.splits if_splits sum.splits)
  show ?case
    by (rule Cons.IH [OF run _ Cons.prems(3)]) (use h Cons.prems(2) in \<open>auto split: if_splits\<close>)
qed simp

lemma NewKeyring_ok: "NewKeyring current ks = Inr r \<Longrightarrow> ring_ok r"
  using index_keys_headers [of ks "[]"]
  by (auto simp: NewKeyring_def ring_ok_def split: if_splits sum.splits option.splits)

lemma counters_keep_ring [simp]:
  "ring_ok (r\<lparr>kg_encryptions := f\<rparr>) = ring_ok r" "ring_ok (r\<lparr>kg_decryptions := f\<rparr>) = ring_ok r"
  "ring_ok (r\<lparr>kg_unknown := f\<rparr>) = ring_ok r"
  by (simp_all add: ring_ok_def)

lemma Encrypt_keeps: "ring_ok r \<Longrightarrow> ring_ok (snd (Encrypt rnd pt ad r))"
  by (simp add: Encrypt_def Let_def split: sum.split)

lemma Decrypt_keeps: "ring_ok r \<Longrightarrow> ring_ok (snd (Decrypt ct ad r))"
  by (simp add: Decrypt_def split: sum.split option.split prod.split)

text \<open>C36. What one ring encrypts, another decrypts to the same plaintext under the same associated data,
  whatever its current key is, as long as it still holds the key the ciphertext names with the same
  cipher: a rotation loses nothing. A ring that dropped the key reports its identifier, and each
  outcome is counted under that identifier.\<close>

theorem rotation_keeps_ciphertexts:
  assumes "NewKeyring cur ks = Inr r" and "NewKeyring cur' ks' = Inr r'" and "Encrypt rnd pt ad r = (Inr ct, r1)"
  shows "(case mget (kg_byID r') (CurrentKeyID r) of
      None \<Rightarrow> Decrypt ct ad r' = (Inl (Inl (ErrUnknownKeyID (CurrentKeyID r))), r'\<lparr>kg_unknown := bump (CurrentKeyID r) (kg_unknown r')\<rparr>)
    | Some e \<Rightarrow> re_cipher e = re_cipher (kg_current r) \<longrightarrow> opens_sealed (re_cipher e) \<longrightarrow>
        Decrypt ct ad r' = (Inr pt, r'\<lparr>kg_decryptions := bump (CurrentKeyID r) (kg_decryptions r')\<rparr>))"
proof -
  let ?k = "kg_currentID r" and ?e = "kg_current r"
  have ok: "ring_ok r" "ring_ok r'" using assms(1,2) NewKeyring_ok by auto
  then have h: "encodeHeader ?k = Inr (re_header ?e)" by (auto simp: ring_ok_def)
  obtain sealed where s: "ci_Seal (re_cipher ?e) rnd pt (bindHeader (re_header ?e) ad) = Inr sealed" "ct = re_header ?e @ sealed"
    using assms(3) by (auto simp: Encrypt_def Let_def split: sum.splits)
  have d: "decodeHeader ct = Inr (?k, re_header ?e, sealed)" using decode_encode [OF h] s(2) by simp
  show ?thesis
  proof (cases "mget (kg_byID r') ?k")
    case None
    with d show ?thesis by (simp add: Decrypt_def CurrentKeyID_def)
  next
    case (Some e)
    have "Decrypt ct ad r' = (Inr pt, r'\<lparr>kg_decryptions := bump ?k (kg_decryptions r')\<rparr>)"
      if "re_cipher e = re_cipher ?e" "opens_sealed (re_cipher e)"
      using that d Some s(1) by (simp add: Decrypt_def opens_sealed_def)
    with Some show ?thesis by (simp add: CurrentKeyID_def)
  qed
qed

text \<open>A cipher that keeps what it sealed in the clear, with a tag: the data it authenticates.\<close>

definition tag_cipher :: "char \<Rightarrow> (unit, unit) Cipher" where
  "tag_cipher c = \<lparr>ci_Seal = \<lambda>_ pt ad. Inr (c # char_of (length ad) # ad @ pt),
     ci_Open = \<lambda>ct ad. if take (length ad + 2) ct = c # char_of (length ad) # ad then Inr (drop (length ad + 2) ct) else Inl ()\<rparr>"

lemma tag_cipher_laws: "opens_sealed (tag_cipher c)" "opens_only_sealed (tag_cipher c)"
proof -
  show "opens_sealed (tag_cipher c)" by (auto simp: opens_sealed_def tag_cipher_def)
  have "c # char_of (length ad) # ad @ drop (length ad + 2) ct = ct"
    if "take (length ad + 2) ct = c # char_of (length ad) # ad" for ct ad
    using that append_take_drop_id [of "length ad + 2" ct] by simp
  then show "opens_only_sealed (tag_cipher c)" by (auto simp: opens_only_sealed_def tag_cipher_def split: if_splits)
qed

theorem rotation_keeps_ciphertexts_witness:
  "\<exists>r r' ct r1 r2. NewKeyring ''a'' [\<lparr>rk_Cipher = Some (tag_cipher (CHR ''x'')), rk_ID = ''a''\<rparr>] = Inr r \<and>
     NewKeyring ''b'' [\<lparr>rk_Cipher = Some (tag_cipher (CHR ''x'')), rk_ID = ''a''\<rparr>,
       \<lparr>rk_Cipher = Some (tag_cipher (CHR ''y'')), rk_ID = ''b''\<rparr>] = Inr r' \<and>
     Encrypt () ''hello'' ''row 7'' r = (Inr ct, r1) \<and> Decrypt ct ''row 7'' r' = (Inr ''hello'', r2)"
proof -
  let ?k = "\<lparr>rk_Cipher = Some (tag_cipher (CHR ''x'')), rk_ID = ''a''\<rparr>"
    and ?k' = "\<lparr>rk_Cipher = Some (tag_cipher (CHR ''y'')), rk_ID = ''b''\<rparr>"
  obtain r where r: "NewKeyring ''a'' [?k] = Inr r" "CurrentKeyID r = ''a''" "re_cipher (kg_current r) = tag_cipher (CHR ''x'')"
    by (simp add: NewKeyring_def encodeHeader_def MaxKeyIDLength_def CurrentKeyID_def)
  obtain r' e where r': "NewKeyring ''b'' [?k, ?k'] = Inr r'" "mget (kg_byID r') ''a'' = Some e" "re_cipher e = tag_cipher (CHR ''x'')"
    by (simp add: NewKeyring_def encodeHeader_def MaxKeyIDLength_def)
  obtain ct r1 where e: "Encrypt () ''hello'' ''row 7'' r = (Inr ct, r1)"
    using r(3) by (simp add: Encrypt_def tag_cipher_def Let_def)
  have "Decrypt ct ''row 7'' r' = (Inr ''hello'', r'\<lparr>kg_decryptions := bump ''a'' (kg_decryptions r')\<rparr>)"
    using rotation_keeps_ciphertexts [OF r(1) r'(1) e] r r' tag_cipher_laws(1) by simp
  with r(1) r'(1) e show ?thesis by blast
qed



end
