(* ===== verification/Batching.thy ===== *)
theory Batching
  imports Prelude "HOL-Library.Multiset" "HOL-Library.List_Lexorder" "HOL-Library.Char_ord"
begin

text \<open>
  \<^verbatim>\<open>batching\<close>: the \<^verbatim>\<open>Buffer\<close> that coalesces keys and writes them in the background (\<^verbatim>\<open>buffer.go\<close>), and
  the \<^verbatim>\<open>GroupCommit\<close> that merges concurrent submissions into one write and answers each of them
  (\<^verbatim>\<open>groupcommit.go\<close>, with the accumulators of \<^verbatim>\<open>batching.go\<close>).

  Everything the code does under its mutex is one function on the state; the goroutines that
  interleave are step relations over these functions. A write is the parameter of its step: what the
  write function returns. A channel that is closed is a boolean, the wake channel, which holds one
  token, too. The order in which Go ranges over a map is that of the association list, and no
  property depends on it. Metrics, spans and the timeouts of the contexts are left out.
\<close>

subsection \<open>Sorting with a comparison function\<close>

text \<open>\<^verbatim>\<open>slices.SortStableFunc\<close>, and \<^verbatim>\<open>slices.SortFunc\<close>, which leaves the order of equal elements open.\<close>

type_synonym 'a compare = "'a \<Rightarrow> 'a \<Rightarrow> int"

fun insert_by :: "'a compare \<Rightarrow> 'a \<Rightarrow> 'a list \<Rightarrow> 'a list" where
  "insert_by cmp x [] = [x]"
| "insert_by cmp x (y # ys) = (if cmp x y \<le> 0 then x # y # ys else y # insert_by cmp x ys)"

definition sort_by :: "'a compare \<Rightarrow> 'a list \<Rightarrow> 'a list" where
  "sort_by cmp xs = foldr (insert_by cmp) xs []"

definition ordered :: "'a compare option \<Rightarrow> 'a list \<Rightarrow> 'a list" where
  "ordered order xs = (case order of None \<Rightarrow> xs | Some cmp \<Rightarrow> sort_by cmp xs)"

lemma mset_insert_by [simp]: "mset (insert_by cmp x ys) = add_mset x (mset ys)"
  by (induction ys) auto

lemma mset_sort_by [simp]: "mset (sort_by cmp xs) = mset xs"
  unfolding sort_by_def by (induction xs) auto

lemma mset_ordered [simp]: "mset (ordered order xs) = mset xs"
  by (simp add: ordered_def split: option.split)

lemma set_ordered [simp]: "set (ordered order xs) = set xs"
  by (metis mset_eq_setD mset_ordered)

lemma distinct_ordered [simp]: "distinct (ordered order xs) = distinct xs"
  by (metis mset_eq_imp_distinct_iff mset_ordered)

lemma length_ordered [simp]: "length (ordered order xs) = length xs"
  by (metis mset_ordered size_mset)

subsection \<open>options.go, and what the options resolve to\<close>

definition DefaultFlushTimeout :: duration where
  "DefaultFlushTimeout = 10 * Second"

definition DefaultFlushInterval :: duration where
  "DefaultFlushInterval = 5 * Second"

definition DefaultMaxPending :: int where
  "DefaultMaxPending = 1024"

text \<open>
  The functions of \<^verbatim>\<open>WithMerge\<close> and \<^verbatim>\<open>WithOrder\<close> are kept in fields of type \<^verbatim>\<open>any\<close>: not set, set for the
  item type of the batcher, or set for another type.
\<close>

datatype 'f any_func = NotSet | ForItems 'f | ForOtherType

record ('t, 'k) batch_options =
  bo_newAccumulator :: "(('t \<Rightarrow> 'k) \<times> ('t \<Rightarrow> 't \<Rightarrow> 't) option) any_func"
  bo_order :: "'t compare any_func"
  bo_flushTimeout :: duration
  bo_flushInterval :: duration
  bo_maxPending :: int

type_synonym ('t, 'k) batch_option = "(('t, 'k) batch_options \<Rightarrow> ('t, 'k) batch_options) option"

definition newOptions :: "('t, 'k) batch_option list \<Rightarrow> ('t, 'k) batch_options" where
  "newOptions opts =
     foldl (\<lambda>o' opt. case opt of None \<Rightarrow> o' | Some f \<Rightarrow> f o')
       \<lparr>bo_newAccumulator = NotSet, bo_order = NotSet, bo_flushTimeout = DefaultFlushTimeout,
        bo_flushInterval = DefaultFlushInterval, bo_maxPending = DefaultMaxPending\<rparr> opts"

definition WithMerge :: "('t \<Rightarrow> 'k) option \<Rightarrow> ('t \<Rightarrow> 't \<Rightarrow> 't) option \<Rightarrow> ('t, 'k) batch_options \<Rightarrow> ('t, 'k) batch_options" where
  "WithMerge key merge o' = (case key of None \<Rightarrow> o' | Some k \<Rightarrow> o'\<lparr>bo_newAccumulator := ForItems (k, merge)\<rparr>)"

definition WithOrder :: "'t compare option \<Rightarrow> ('t, 'k) batch_options \<Rightarrow> ('t, 'k) batch_options" where
  "WithOrder compare o' = (case compare of None \<Rightarrow> o' | Some c \<Rightarrow> o'\<lparr>bo_order := ForItems c\<rparr>)"

definition WithFlushTimeout :: "duration \<Rightarrow> ('t, 'k) batch_options \<Rightarrow> ('t, 'k) batch_options" where
  "WithFlushTimeout d o' = (if d > 0 then o'\<lparr>bo_flushTimeout := d\<rparr> else o')"

definition WithFlushInterval :: "duration \<Rightarrow> ('t, 'k) batch_options \<Rightarrow> ('t, 'k) batch_options" where
  "WithFlushInterval d o' = (if d > 0 then o'\<lparr>bo_flushInterval := d\<rparr> else o')"

definition WithMaxPending :: "int \<Rightarrow> ('t, 'k) batch_options \<Rightarrow> ('t, 'k) batch_options" where
  "WithMaxPending n o' = (if n > 0 then o'\<lparr>bo_maxPending := n\<rparr> else o')"

datatype batch_error = ErrNilWriteFunc | ErrItemTypeMismatch

record ('t, 'k) batchShape =
  sh_merge :: "(('t \<Rightarrow> 'k) \<times> ('t \<Rightarrow> 't \<Rightarrow> 't) option) option"
  sh_order :: "'t compare option"

definition resolveOrdering :: "('t, 'k) batch_options \<Rightarrow> batch_error + ('t, 'k) batchShape" where
  "resolveOrdering o' =
     (let shape = \<lparr>sh_merge = None, sh_order = None\<rparr>
      in case bo_order o' of
           NotSet \<Rightarrow> Inr shape
         | ForOtherType \<Rightarrow> Inl ErrItemTypeMismatch
         | ForItems order \<Rightarrow> Inr (shape\<lparr>sh_order := Some order\<rparr>))"

definition resolveShape :: "('t, 'k) batch_options \<Rightarrow> batch_error + ('t, 'k) batchShape" where
  "resolveShape o' =
     (case resolveOrdering o' of
        Inl err \<Rightarrow> Inl err
      | Inr shape \<Rightarrow>
          (case bo_newAccumulator o' of
             NotSet \<Rightarrow> Inr shape
           | ForOtherType \<Rightarrow> Inl ErrItemTypeMismatch
           | ForItems km \<Rightarrow> Inr (shape\<lparr>sh_merge := Some km\<rparr>)))"

subsection \<open>buffer.go\<close>

record 'k Buffer =
  bf_order :: "'k compare option"
  bf_pending :: "('k, unit) gomap"
  bf_flushing :: "('k, unit) gomap option"
  bf_wake :: bool
  bf_flushInterval :: duration
  bf_flushTimeout :: duration
  bf_maxPending :: int
  bf_closed :: bool
  bf_dropped :: u64

text \<open>The first argument says whether a write function was given.\<close>

definition NewBuffer :: "bool \<Rightarrow> ('k, 'm) batch_option list \<Rightarrow> batch_error + 'k Buffer" where
  "NewBuffer write opts =
     (if \<not> write then Inl ErrNilWriteFunc
      else
        (let o' = newOptions opts
         in case resolveOrdering o' of
              Inl err \<Rightarrow> Inl err
            | Inr shape \<Rightarrow>
                Inr \<lparr>bf_order = sh_order shape, bf_pending = [], bf_flushing = None, bf_wake = False,
                     bf_flushInterval = bo_flushInterval o', bf_flushTimeout = bo_flushTimeout o',
                     bf_maxPending = bo_maxPending o', bf_closed = False, bf_dropped = 0\<rparr>))"

definition nudge :: "'k Buffer \<Rightarrow> 'k Buffer" where
  "nudge b = b\<lparr>bf_wake := True\<rparr>"

definition Add :: "'k list \<Rightarrow> 'k Buffer \<Rightarrow> 'k Buffer" where
  "Add keys b =
     (if length keys = 0 then b
      else if bf_closed b then b\<lparr>bf_dropped := bf_dropped b + of_nat (length keys)\<rparr>
      else
        (let b1 = b\<lparr>bf_pending := foldl (\<lambda>m k. mput k () m) (bf_pending b) keys\<rparr>;
             full = (int (length (bf_pending b1)) \<ge> bf_maxPending b1)
         in if full then nudge b1 else b1))"

definition flushingAny :: "'k list \<Rightarrow> 'k Buffer \<Rightarrow> bool" where
  "flushingAny keys b =
     (case bf_flushing b of None \<Rightarrow> False | Some fl \<Rightarrow> if length fl = 0 then False else list_ex (\<lambda>k. mget fl k \<noteq> None) keys)"

fun take_each :: "'k list \<Rightarrow> ('k, unit) gomap \<Rightarrow> 'k list \<times> ('k, unit) gomap" where
  "take_each [] m = ([], m)"
| "take_each (k # ks) m =
     (if mget m k \<noteq> None then (case take_each ks (mdel k m) of (taken, m') \<Rightarrow> (k # taken, m'))
      else take_each ks m)"

definition takeLocked :: "'k list \<Rightarrow> 'k Buffer \<Rightarrow> 'k list \<times> 'k Buffer" where
  "takeLocked keys b =
     (case take_each keys (bf_pending b) of (taken, m) \<Rightarrow>
        (if length taken = 0 then [] else ordered (bf_order b) taken, b\<lparr>bf_pending := m\<rparr>))"

text \<open>One round of \<^verbatim>\<open>Take\<close>: \<^const>\<open>None\<close> when it has to wait for the flush in flight.\<close>

definition Take_round :: "'k list \<Rightarrow> 'k Buffer \<Rightarrow> ('k list \<times> 'k Buffer) option" where
  "Take_round keys b =
     (if length keys = 0 then Some ([], b)
      else if \<not> flushingAny keys b then Some (takeLocked keys b)
      else None)"

definition Pending :: "'k Buffer \<Rightarrow> nat" where
  "Pending b = length (bf_pending b)"

definition Dropped :: "'k Buffer \<Rightarrow> u64" where
  "Dropped b = bf_dropped b"

definition takeForFlush :: "'k Buffer \<Rightarrow> 'k list \<times> 'k Buffer" where
  "takeForFlush b =
     (if length (bf_pending b) = 0 then ([], b)
      else (ordered (bf_order b) (mkeys (bf_pending b)), b\<lparr>bf_flushing := Some (bf_pending b), bf_pending := []\<rparr>))"

definition finishFlush :: "'k Buffer \<Rightarrow> 'k Buffer" where
  "finishFlush b = b\<lparr>bf_flushing := None\<rparr>"

subsection \<open>The goroutines of a buffer\<close>

text \<open>
  What happened to the keys, newest first: accepted by \<^verbatim>\<open>Add\<close>, handed to the write function by a
  flush, given back by \<^verbatim>\<open>Take\<close>.
\<close>

datatype 'k buffer_event = Added "'k list" | Flushed "'k list" | Taken "'k list"

datatype flusher = Running | Stopped

record 'k buffer_sys =
  bs_buffer :: "'k Buffer"
  bs_flusher :: flusher
  bs_events :: "'k buffer_event list"

text \<open>
  The steps: callers of \<^verbatim>\<open>Add\<close> and \<^verbatim>\<open>Take\<close> at any time; \<^verbatim>\<open>run\<close>, which starts a flush on a tick or a
  token and finishes it before it looks again; \<^verbatim>\<open>Close\<close>, which waits for \<^verbatim>\<open>run\<close> to return, marks the
  buffer closed, and flushes once more. Several calls of \<^verbatim>\<open>Close\<close> may be flushing at the same time.
\<close>

inductive buffer_step :: "'k buffer_sys \<Rightarrow> 'k buffer_sys \<Rightarrow> bool" where
  do_add: "buffer_step s (s\<lparr>bs_buffer := Add keys (bs_buffer s),
      bs_events := (if bf_closed (bs_buffer s) then bs_events s else Added keys # bs_events s)\<rparr>)"
| do_take: "Take_round keys (bs_buffer s) = Some (taken, b) \<Longrightarrow>
    buffer_step s (s\<lparr>bs_buffer := b, bs_events := Taken taken # bs_events s\<rparr>)"
| do_flush: "bs_flusher s = Running \<and> bf_flushing (bs_buffer s) = None \<or> bf_closed (bs_buffer s) \<Longrightarrow>
    takeForFlush (bs_buffer s) = (keys, b) \<Longrightarrow> keys \<noteq> [] \<Longrightarrow>
    buffer_step s (s\<lparr>bs_buffer := b, bs_events := Flushed keys # bs_events s\<rparr>)"
| do_finish: "bf_flushing (bs_buffer s) \<noteq> None \<Longrightarrow> buffer_step s (s\<lparr>bs_buffer := finishFlush (bs_buffer s)\<rparr>)"
| do_wake: "bs_flusher s = Running \<Longrightarrow> bf_flushing (bs_buffer s) = None \<Longrightarrow>
    buffer_step s (s\<lparr>bs_buffer := (bs_buffer s)\<lparr>bf_wake := False\<rparr>\<rparr>)"
| do_stop: "bs_flusher s = Running \<Longrightarrow> bf_flushing (bs_buffer s) = None \<Longrightarrow> buffer_step s (s\<lparr>bs_flusher := Stopped\<rparr>)"
| do_close: "bs_flusher s = Stopped \<Longrightarrow> buffer_step s (s\<lparr>bs_buffer := (bs_buffer s)\<lparr>bf_closed := True\<rparr>\<rparr>)"

inductive buffer_run :: "'k buffer_sys \<Rightarrow> 'k buffer_sys \<Rightarrow> bool" where
  start: "buffer_run s s"
| more_steps: "buffer_run s t \<Longrightarrow> buffer_step t u \<Longrightarrow> buffer_run s u"

definition buffer_sys_of :: "'k Buffer \<Rightarrow> 'k buffer_sys" where
  "buffer_sys_of b = \<lparr>bs_buffer = b, bs_flusher = Running, bs_events = []\<rparr>"

text \<open>Since a key was last added, a flush or a \<^verbatim>\<open>Take\<close> has carried it away.\<close>

fun settled :: "'k \<Rightarrow> 'k buffer_event list \<Rightarrow> bool" where
  "settled k [] = True"
| "settled k (Added ks # es) = (k \<notin> set ks \<and> settled k es)"
| "settled k (Flushed ks # es) = (k \<in> set ks \<or> settled k es)"
| "settled k (Taken ks # es) = (k \<in> set ks \<or> settled k es)"

subsection \<open>Every key is accounted for\<close>

lemma foldl_mput_unit:
  "set (mkeys (foldl (\<lambda>m k. mput k () m) m ks)) = set (mkeys m) \<union> set ks"
  "is_map m \<Longrightarrow> is_map (foldl (\<lambda>m k. mput k () m) m ks)"
  by (induction ks arbitrary: m) auto

lemma Add_fields [simp]:
  "bf_order (Add keys b) = bf_order b" "bf_flushing (Add keys b) = bf_flushing b" "bf_closed (Add keys b) = bf_closed b"
  "bf_maxPending (Add keys b) = bf_maxPending b"
  by (simp_all add: Add_def nudge_def Let_def)

lemma Add_pending:
  "bf_pending (Add keys b) = (if bf_closed b then bf_pending b else foldl (\<lambda>m k. mput k () m) (bf_pending b) keys)"
  by (simp add: Add_def nudge_def Let_def)

lemma take_each_spec:
  "take_each ks m = (taken, m') \<Longrightarrow> is_map m \<Longrightarrow>
     is_map m' \<and> set (mkeys m') = set (mkeys m) - set ks \<and> set taken = set ks \<inter> set (mkeys m) \<and> distinct taken"
proof (induction ks arbitrary: m taken)
  case (Cons k ks)
  show ?case
  proof (cases "mget m k = None")
    case True
    with Cons show ?thesis by (fastforce simp: mget_eq_None_iff)
  next
    case False
    then obtain taken' where t: "take_each ks (mdel k m) = (taken', m')" "taken = k # taken'"
      using Cons.prems(1) by (auto split: prod.splits)
    from Cons.IH [OF t(1)] Cons.prems(2) have IH: "is_map m'" "set (mkeys m') = set (mkeys m) - {k} - set ks"
      "set taken' = set ks \<inter> (set (mkeys m) - {k})" "distinct taken'" by auto
    moreover have "k \<in> set (mkeys m)" using False by (simp add: mget_eq_None_iff)
    ultimately show ?thesis using t(2) by auto
  qed
qed simp

lemma takeLocked_spec:
  assumes "takeLocked keys b = (taken, b')" and "is_map (bf_pending b)"
  shows "\<exists>m. b' = b\<lparr>bf_pending := m\<rparr> \<and> is_map m \<and> set (mkeys m) = set (mkeys (bf_pending b)) - set keys \<and>
    set taken = set keys \<inter> set (mkeys (bf_pending b)) \<and> distinct taken"
proof -
  obtain t m where t: "take_each keys (bf_pending b) = (t, m)" by fastforce
  with take_each_spec [OF t assms(2)] assms(1) show ?thesis
    by (auto simp: takeLocked_def split: if_splits)
qed

definition buffer_inv :: "'k buffer_sys \<Rightarrow> bool" where
  "buffer_inv s \<longleftrightarrow> is_map (bf_pending (bs_buffer s)) \<and>
     (\<forall>k. k \<in> set (mkeys (bf_pending (bs_buffer s))) \<longleftrightarrow> \<not> settled k (bs_events s)) \<and>
     (bf_closed (bs_buffer s) \<longrightarrow> bs_flusher s = Stopped \<and> (bf_flushing (bs_buffer s) \<noteq> None \<longrightarrow> bf_pending (bs_buffer s) = [])) \<and>
     (bs_flusher s = Stopped \<and> \<not> bf_closed (bs_buffer s) \<longrightarrow> bf_flushing (bs_buffer s) = None)"

lemma buffer_step_inv:
  assumes "buffer_step s t" and inv: "buffer_inv s"
  shows "buffer_inv t"
  using assms(1)
proof cases
  case (do_add keys)
  have "k \<in> set (mkeys (bf_pending (bs_buffer t))) \<longleftrightarrow> \<not> settled k (bs_events t)" for k
    using inv by (cases "bf_closed (bs_buffer s)") (auto simp: do_add buffer_inv_def Add_pending foldl_mput_unit)
  with inv show ?thesis
    by (simp add: do_add buffer_inv_def Add_pending foldl_mput_unit(2))
next
  case (do_take keys taken b)
  have m: "is_map (bf_pending (bs_buffer s))" using inv by (simp add: buffer_inv_def)
  show ?thesis
  proof (cases "keys = []")
    case True
    with do_take inv show ?thesis by (simp add: Take_round_def buffer_inv_def)
  next
    case False
    with do_take have t: "takeLocked keys (bs_buffer s) = (taken, b)"
      by (auto simp: Take_round_def split: if_splits)
    obtain m where m': "b = (bs_buffer s)\<lparr>bf_pending := m\<rparr>" "is_map m"
      "set (mkeys m) = set (mkeys (bf_pending (bs_buffer s))) - set keys"
      "set taken = set keys \<inter> set (mkeys (bf_pending (bs_buffer s)))"
      using takeLocked_spec [OF t m] by blast
    have "bf_pending (bs_buffer s) = [] \<Longrightarrow> m = []" using m'(3) by (simp add: mkeys_def)
    moreover have "k \<in> set (mkeys m) \<longleftrightarrow> \<not> settled k (Taken taken # bs_events s)" for k
      using inv m'(3,4) by (auto simp: buffer_inv_def)
    ultimately show ?thesis using inv m'(1,2) by (simp add: do_take buffer_inv_def)
  qed
next
  case (do_flush keys b)
  then have f: "bf_pending (bs_buffer s) \<noteq> []" "keys = ordered (bf_order (bs_buffer s)) (mkeys (bf_pending (bs_buffer s)))"
    "b = (bs_buffer s)\<lparr>bf_flushing := Some (bf_pending (bs_buffer s)), bf_pending := []\<rparr>"
    by (auto simp: takeForFlush_def split: if_splits)
  have "settled k (Flushed keys # bs_events s)" for k using inv f(2) by (auto simp: buffer_inv_def)
  with inv f(3) do_flush(2) show ?thesis by (auto simp: do_flush(1) buffer_inv_def)
qed (use inv in \<open>auto simp: buffer_inv_def finishFlush_def\<close>)

lemma buffer_run_inv: "buffer_run s t \<Longrightarrow> buffer_inv s \<Longrightarrow> buffer_inv t"
  by (induction rule: buffer_run.induct) (auto intro: buffer_step_inv)

lemma new_buffer_inv: "NewBuffer write opts = Inr b \<Longrightarrow> buffer_inv (buffer_sys_of b)"
  by (auto simp: buffer_inv_def buffer_sys_of_def NewBuffer_def Let_def split: if_splits sum.splits)

text \<open>C29. However callers, the flusher and closing interleave, a key waits in the buffer exactly when it was
  added and no flush or \<^verbatim>\<open>Take\<close> has carried it away since. A flush hands the write function every
  waiting key once; a \<^verbatim>\<open>Take\<close> that returns gives back exactly the waiting ones among its keys, and
  leaves none of its keys waiting or in flight.\<close>

theorem buffer_accounts_for_keys:
  assumes "NewBuffer write opts = Inr b0" and "buffer_run (buffer_sys_of b0) s"
  shows "(k \<in> set (mkeys (bf_pending (bs_buffer s))) \<longleftrightarrow> \<not> settled k (bs_events s)) \<and>
    (case takeForFlush (bs_buffer s) of (keys, b) \<Rightarrow>
       distinct keys \<and> set keys = set (mkeys (bf_pending (bs_buffer s))) \<and> bf_pending b = []) \<and>
    (case Take_round (q # qs) (bs_buffer s) of
       None \<Rightarrow> flushingAny (q # qs) (bs_buffer s)
     | Some (taken, b) \<Rightarrow> distinct taken \<and> set taken = set (q # qs) \<inter> set (mkeys (bf_pending (bs_buffer s))) \<and>
         set (q # qs) \<inter> set (mkeys (bf_pending b)) = {} \<and> \<not> flushingAny (q # qs) b)"
proof -
  have inv: "buffer_inv s" using buffer_run_inv [OF assms(2)] new_buffer_inv [OF assms(1)] by blast
  then have m: "is_map (bf_pending (bs_buffer s))" by (simp add: buffer_inv_def)
  have "case takeForFlush (bs_buffer s) of (keys, b) \<Rightarrow>
       distinct keys \<and> set keys = set (mkeys (bf_pending (bs_buffer s))) \<and> bf_pending b = []"
    using m by (auto simp: takeForFlush_def distinct_mkeys)
  moreover have "case Take_round (q # qs) (bs_buffer s) of
       None \<Rightarrow> flushingAny (q # qs) (bs_buffer s)
     | Some (taken, b) \<Rightarrow> distinct taken \<and> set taken = set (q # qs) \<inter> set (mkeys (bf_pending (bs_buffer s))) \<and>
         set (q # qs) \<inter> set (mkeys (bf_pending b)) = {} \<and> \<not> flushingAny (q # qs) b"
  proof (cases "flushingAny (q # qs) (bs_buffer s)")
    case True
    then show ?thesis by (simp add: Take_round_def)
  next
    case False
    obtain taken b where t: "takeLocked (q # qs) (bs_buffer s) = (taken, b)" by fastforce
    with False have r: "Take_round (q # qs) (bs_buffer s) = Some (taken, b)" by (simp add: Take_round_def)
    from takeLocked_spec [OF t m] obtain p where "b = (bs_buffer s)\<lparr>bf_pending := p\<rparr>"
      "set (mkeys p) = set (mkeys (bf_pending (bs_buffer s))) - set (q # qs)"
      "set taken = set (q # qs) \<inter> set (mkeys (bf_pending (bs_buffer s)))" "distinct taken" by blast
    with r False show ?thesis by (auto simp: flushingAny_def)
  qed
  ultimately show ?thesis using inv by (simp add: buffer_inv_def)
qed

theorem buffer_accounts_for_keys_witness:
  "\<exists>b s. NewBuffer True ([] :: (string, unit) batch_option list) = Inr b \<and> buffer_run (buffer_sys_of b) s \<and>
     ''a'' \<in> set (mkeys (bf_pending (bs_buffer s))) \<and> \<not> settled ''a'' (bs_events s)"
proof -
  obtain b where b: "NewBuffer True ([] :: (string, unit) batch_option list) = Inr b" "\<not> bf_closed b"
    by (simp add: NewBuffer_def newOptions_def resolveOrdering_def Let_def)
  let ?s = "(buffer_sys_of b)\<lparr>bs_buffer := Add [''a''] b, bs_events := [Added [''a'']]\<rparr>"
  have "buffer_step (buffer_sys_of b) ?s"
    using do_add [of "buffer_sys_of b" "[''a'']"] b(2) by (simp add: buffer_sys_of_def)
  then have run: "buffer_run (buffer_sys_of b) ?s" by (blast intro: buffer_run.intros)
  have "\<not> settled ''a'' (bs_events ?s)" by simp
  with buffer_accounts_for_keys [OF b(1) run, of "''a''" "''a''" "[]"] run b(1) show ?thesis by blast
qed

subsection \<open>batching.go: accumulators\<close>

text \<open>
  How a batch gathers items: in a list, or in a map by key with a merge function. Building one is
  given the key and merge functions of \<^verbatim>\<open>WithMerge\<close>, \<^const>\<open>None\<close> when it was not used.
\<close>

datatype ('t, 'k) accumulator = SliceAcc "'t list" | KeyedAcc "('k, 't) gomap"

definition newAccumulator :: "('t, 'k) batchShape \<Rightarrow> ('t, 'k) accumulator" where
  "newAccumulator sh = (case sh_merge sh of None \<Rightarrow> SliceAcc [] | Some _ \<Rightarrow> KeyedAcc [])"

definition keyed_add :: "('t \<Rightarrow> 'k) \<Rightarrow> ('t \<Rightarrow> 't \<Rightarrow> 't) option \<Rightarrow> ('k, 't) gomap \<Rightarrow> 't \<Rightarrow> ('k, 't) gomap" where
  "keyed_add key merge items x =
     (case (mget items (key x), merge) of
        (Some existing, Some f) \<Rightarrow> mput (key x) (f existing x) items
      | _ \<Rightarrow> mput (key x) x items)"

definition acc_add :: "('t, 'k) batchShape \<Rightarrow> 't list \<Rightarrow> ('t, 'k) accumulator \<Rightarrow> ('t, 'k) accumulator" where
  "acc_add sh xs a =
     (case a of
        SliceAcc items \<Rightarrow> SliceAcc (items @ xs)
      | KeyedAcc items \<Rightarrow>
          (case sh_merge sh of
             None \<Rightarrow> KeyedAcc items
           | Some (key, merge) \<Rightarrow> KeyedAcc (foldl (keyed_add key merge) items xs)))"

definition acc_collect :: "('t, 'k :: linorder) accumulator \<Rightarrow> 't list" where
  "acc_collect a =
     (case a of
        SliceAcc items \<Rightarrow> items
      | KeyedAcc items \<Rightarrow> map (\<lambda>k. the (mget items k)) (sort (mkeys items)))"

definition acc_len :: "('t, 'k) accumulator \<Rightarrow> nat" where
  "acc_len a = (case a of SliceAcc items \<Rightarrow> length items | KeyedAcc items \<Rightarrow> length items)"

subsection \<open>groupcommit.go\<close>

text \<open>A batch with the result its waiters read: \<^const>\<open>None\<close> until its \<^verbatim>\<open>done\<close> channel is closed.\<close>

datatype 'e group_error = ErrClosed | ErrWrite 'e

record ('t, 'k, 'e) groupBatch =
  gb_items :: "('t, 'k) accumulator"
  gb_result :: "'e group_error option option"

record ('t, 'k, 'e) GroupCommit =
  gc_shape :: "('t, 'k) batchShape"
  gc_batches :: "('t, 'k, 'e) groupBatch list"
  gc_open :: "nat option"
  gc_wake :: bool
  gc_flushTimeout :: duration
  gc_closed :: bool

definition NewGroupCommit :: "bool \<Rightarrow> ('t, 'k) batch_option list \<Rightarrow> batch_error + ('t, 'k, 'e) GroupCommit" where
  "NewGroupCommit write opts =
     (if \<not> write then Inl ErrNilWriteFunc
      else
        (let o' = newOptions opts
         in case resolveShape o' of
              Inl err \<Rightarrow> Inl err
            | Inr shape \<Rightarrow>
                Inr \<lparr>gc_shape = shape, gc_batches = [], gc_open = None, gc_wake = False,
                     gc_flushTimeout = bo_flushTimeout o', gc_closed = False\<rparr>))"

definition closedBatch :: "('t, 'k, 'e) groupBatch" where
  "closedBatch = \<lparr>gb_items = SliceAcc [], gb_result = Some (Some ErrClosed)\<rparr>"

text \<open>\<^verbatim>\<open>join\<close>: the position of the batch the items ride, and the state after.\<close>

definition join_batch :: "'t list \<Rightarrow> ('t, 'k, 'e) GroupCommit \<Rightarrow> nat \<times> ('t, 'k, 'e) GroupCommit" where
  "join_batch items g =
     (if gc_closed g then (length (gc_batches g), g\<lparr>gc_batches := gc_batches g @ [closedBatch]\<rparr>)
      else
        (let g1 = (case gc_open g of
                     None \<Rightarrow> g\<lparr>gc_batches := gc_batches g @ [\<lparr>gb_items = newAccumulator (gc_shape g), gb_result = None\<rparr>],
                               gc_open := Some (length (gc_batches g))\<rparr>
                   | Some _ \<Rightarrow> g);
             i = the (gc_open g1);
             b = gc_batches g1 ! i
         in (i, g1\<lparr>gc_batches := (gc_batches g1)[i := b\<lparr>gb_items := acc_add (gc_shape g) items (gb_items b)\<rparr>],
                   gc_wake := True\<rparr>)))"

definition take_open :: "('t, 'k, 'e) GroupCommit \<Rightarrow> nat option \<times> ('t, 'k, 'e) GroupCommit" where
  "take_open g = (gc_open g, g\<lparr>gc_open := None\<rparr>)"

text \<open>\<^verbatim>\<open>commit\<close>: what is written, \<^const>\<open>None\<close> when there is nothing to write.\<close>

definition commit_items :: "nat \<Rightarrow> ('t, 'k :: linorder, 'e) GroupCommit \<Rightarrow> 't list option" where
  "commit_items i g =
     (let items = ordered (sh_order (gc_shape g)) (acc_collect (gb_items (gc_batches g ! i)))
      in if length items = 0 then None else Some items)"

text \<open>The end of \<^verbatim>\<open>flush\<close> and of \<^verbatim>\<open>Close\<close>: the result, then \<^verbatim>\<open>done\<close>.\<close>

definition finish_batch :: "nat \<Rightarrow> 'e group_error option \<Rightarrow> ('t, 'k, 'e) GroupCommit \<Rightarrow> ('t, 'k, 'e) GroupCommit" where
  "finish_batch i err g = g\<lparr>gc_batches := (gc_batches g)[i := (gc_batches g ! i)\<lparr>gb_result := Some err\<rparr>]\<rparr>"

definition close_gc :: "('t, 'k, 'e) GroupCommit \<Rightarrow> nat option \<times> ('t, 'k, 'e) GroupCommit" where
  "close_gc g = (gc_open g, g\<lparr>gc_closed := True, gc_open := None\<rparr>)"

text \<open>What \<^verbatim>\<open>Submit\<close> returns once its batch has a result.\<close>

definition submit_result :: "nat \<Rightarrow> ('t, 'k, 'e) GroupCommit \<Rightarrow> 'e group_error option option" where
  "submit_result i g = gb_result (gc_batches g ! i)"

definition Pending_gc :: "('t, 'k, 'e) GroupCommit \<Rightarrow> nat" where
  "Pending_gc g = (case gc_open g of None \<Rightarrow> 0 | Some i \<Rightarrow> acc_len (gb_items (gc_batches g ! i)))"

subsection \<open>The goroutines of a group commit\<close>

text \<open>
  The batches being written, the writes done with their outcome, and who rides which batch with what.
  The flusher is \<^verbatim>\<open>woken\<close> between taking the token and swapping the batch out.
\<close>

record ('t, 'k, 'e) group_sys =
  gy_gc :: "('t, 'k, 'e) GroupCommit"
  gy_woken :: bool
  gy_writing :: "nat set"
  gy_writes :: "('t list \<times> 'e option) list"
  gy_riders :: "(nat \<times> 't list) list"
  gy_running :: bool

inductive group_step :: "('t, 'k :: linorder, 'e) group_sys \<Rightarrow> ('t, 'k, 'e) group_sys \<Rightarrow> bool" where
  g_submit: "items \<noteq> [] \<Longrightarrow> join_batch items (gy_gc s) = (i, g) \<Longrightarrow>
    group_step s (s\<lparr>gy_gc := g, gy_riders := gy_riders s @ [(i, items)]\<rparr>)"
| g_wake: "gy_running s \<Longrightarrow> \<not> gy_woken s \<Longrightarrow> gy_writing s = {} \<Longrightarrow> gc_wake (gy_gc s) \<Longrightarrow>
    group_step s (s\<lparr>gy_woken := True, gy_gc := (gy_gc s)\<lparr>gc_wake := False\<rparr>\<rparr>)"
| g_take: "gy_running s \<Longrightarrow> gy_woken s \<Longrightarrow> take_open (gy_gc s) = (b, g) \<Longrightarrow>
    group_step s (s\<lparr>gy_woken := False, gy_gc := g, gy_writing := set_option b\<rparr>)"
| g_write: "i \<in> gy_writing s \<Longrightarrow> commit_items i (gy_gc s) = Some items \<Longrightarrow>
    group_step s (s\<lparr>gy_gc := finish_batch i (map_option ErrWrite err) (gy_gc s), gy_writing := gy_writing s - {i},
      gy_writes := (items, err) # gy_writes s\<rparr>)"
| g_nothing: "i \<in> gy_writing s \<Longrightarrow> commit_items i (gy_gc s) = None \<Longrightarrow>
    group_step s (s\<lparr>gy_gc := finish_batch i None (gy_gc s), gy_writing := gy_writing s - {i}\<rparr>)"
| g_stop: "gy_running s \<Longrightarrow> \<not> gy_woken s \<Longrightarrow> gy_writing s = {} \<Longrightarrow> group_step s (s\<lparr>gy_running := False\<rparr>)"
| g_close: "\<not> gy_running s \<Longrightarrow> close_gc (gy_gc s) = (b, g) \<Longrightarrow>
    group_step s (s\<lparr>gy_gc := g, gy_writing := gy_writing s \<union> set_option b\<rparr>)"

inductive group_run :: "('t, 'k :: linorder, 'e) group_sys \<Rightarrow> ('t, 'k, 'e) group_sys \<Rightarrow> bool" where
  g_start: "group_run s s"
| g_more: "group_run s t \<Longrightarrow> group_step t u \<Longrightarrow> group_run s u"

definition group_sys_of :: "('t, 'k, 'e) GroupCommit \<Rightarrow> ('t, 'k, 'e) group_sys" where
  "group_sys_of g = \<lparr>gy_gc = g, gy_woken = False, gy_writing = {}, gy_writes = [], gy_riders = [], gy_running = True\<rparr>"

subsection \<open>What a batch writes\<close>

text \<open>The items of a batch by themselves: as they came, or one per key, folded in the order they came.\<close>

fun fold_items :: "('t \<Rightarrow> 't \<Rightarrow> 't) option \<Rightarrow> 't list \<Rightarrow> 't option" where
  "fold_items merge [] = None"
| "fold_items merge (x # xs) = Some (foldl (case merge of None \<Rightarrow> (\<lambda>existing incoming. incoming) | Some f \<Rightarrow> f) x xs)"

definition merged_items :: "('t, 'k :: linorder) batchShape \<Rightarrow> 't list \<Rightarrow> 't list" where
  "merged_items sh xs =
     (case sh_merge sh of
        None \<Rightarrow> xs
      | Some (key, merge) \<Rightarrow>
          map (\<lambda>k. the (fold_items merge (filter (\<lambda>x. key x = k) xs))) (sort (remdups (map key xs))))"

lemma fold_items_snoc:
  "fold_items merge (xs @ [x]) =
     Some (case fold_items merge xs of None \<Rightarrow> x | Some e \<Rightarrow> (case merge of None \<Rightarrow> x | Some f \<Rightarrow> f e x))"
  by (cases xs) (auto split: option.split)

lemma keyed_add_get:
  "mget (keyed_add key merge m x) k =
     (if k = key x then Some (case mget m k of None \<Rightarrow> x | Some e \<Rightarrow> (case merge of None \<Rightarrow> x | Some f \<Rightarrow> f e x)) else mget m k)"
  by (auto simp: keyed_add_def split: option.split)

lemma keyed_add_map: "is_map m \<Longrightarrow> is_map (keyed_add key merge m x)"
  by (auto simp: keyed_add_def split: option.split)

lemma keyed_fold_get: "mget (foldl (keyed_add key merge) [] xs) k = fold_items merge (filter (\<lambda>x. key x = k) xs)"
proof (induction xs rule: rev_induct)
  case (snoc x xs)
  then show ?case by (auto simp: keyed_add_get fold_items_snoc)
qed simp

lemma keyed_fold_map: "is_map (foldl (keyed_add key merge) [] xs)"
  by (induction xs rule: rev_induct) (auto simp: keyed_add_map)

lemma keyed_fold_keys: "set (mkeys (foldl (keyed_add key merge) [] xs)) = set (map key xs)"
proof -
  have "fold_items merge (filter (\<lambda>x. key x = k) xs) \<noteq> None \<longleftrightarrow> k \<in> set (map key xs)" for k
    by (cases "filter (\<lambda>x. key x = k) xs") (auto simp: filter_empty_conv filter_eq_Cons_iff)
  then show ?thesis by (simp add: set_mkeys keyed_fold_get)
qed

lemma collect_merged: "acc_collect (acc_add sh xs (newAccumulator sh)) = merged_items sh xs"
proof (cases "sh_merge sh")
  case None
  then show ?thesis by (simp add: acc_collect_def acc_add_def newAccumulator_def merged_items_def)
next
  case (Some km)
  obtain key merge where km: "km = (key, merge)" by (rule prod.exhaust)
  have "sort (mkeys (foldl (keyed_add key merge) [] xs)) = sort (remdups (map key xs))"
    by (rule sorted_distinct_set_unique)
      (use keyed_fold_keys [of key merge xs] keyed_fold_map [of key merge xs] in \<open>auto simp: distinct_mkeys\<close>)
  with Some km show ?thesis
    by (simp add: acc_collect_def acc_add_def newAccumulator_def merged_items_def keyed_fold_get)
qed

lemma acc_add_append: "acc_add sh (xs @ ys) a = acc_add sh ys (acc_add sh xs a)"
  by (auto simp: acc_add_def split: accumulator.split option.split)

lemma acc_add_Nil: "acc_add sh [] (newAccumulator sh) = newAccumulator sh"
  by (auto simp: acc_add_def newAccumulator_def split: option.split)

lemma merged_items_Nil: "merged_items sh xs = [] \<longleftrightarrow> xs = []"
proof (cases "sh_merge sh")
  case (Some km)
  have "sort (remdups (map (fst km) xs)) = [] \<longleftrightarrow> xs = []"
    by (metis length_0_conv length_sort map_is_Nil_conv remdups_eq_nil_iff)
  with Some show ?thesis by (cases km) (simp add: merged_items_def)
qed (simp add: merged_items_def)

subsection \<open>Every submission is answered by a write\<close>

definition subs :: "(nat \<times> 't list) list \<Rightarrow> nat \<Rightarrow> 't list" where
  "subs riders i = concat (map snd (filter (\<lambda>r. fst r = i) riders))"

definition written :: "('t, 'k :: linorder) batchShape \<Rightarrow> 't list \<Rightarrow> 't list" where
  "written sh xs = ordered (sh_order sh) (merged_items sh xs)"

definition batch_ok :: "bool \<Rightarrow> ('t, 'k :: linorder) batchShape \<Rightarrow> 't list \<Rightarrow> ('t list \<times> 'e option) list \<Rightarrow>
    ('t, 'k, 'e) groupBatch \<Rightarrow> bool" where
  "batch_ok closed sh xs writes b \<longleftrightarrow>
     closed \<and> gb_result b = Some (Some ErrClosed) \<or>
     gb_items b = acc_add sh xs (newAccumulator sh) \<and> xs \<noteq> [] \<and>
       (case gb_result b of
          None \<Rightarrow> True
        | Some None \<Rightarrow> (written sh xs, None) \<in> set writes
        | Some (Some ErrClosed) \<Rightarrow> False
        | Some (Some (ErrWrite e)) \<Rightarrow> (written sh xs, Some e) \<in> set writes)"

definition group_inv :: "('t, 'k :: linorder) batchShape \<Rightarrow> ('t, 'k, 'e) group_sys \<Rightarrow> bool" where
  "group_inv sh s \<longleftrightarrow> gc_shape (gy_gc s) = sh \<and>
     (\<forall>i < length (gc_batches (gy_gc s)). batch_ok (gc_closed (gy_gc s)) sh (subs (gy_riders s) i) (gy_writes s) (gc_batches (gy_gc s) ! i) \<and>
        (gb_result (gc_batches (gy_gc s) ! i) = None \<longleftrightarrow> gc_open (gy_gc s) = Some i \<or> i \<in> gy_writing s)) \<and>
     (\<forall>i. gc_open (gy_gc s) = Some i \<or> i \<in> gy_writing s \<longrightarrow> i < length (gc_batches (gy_gc s))) \<and>
     (\<forall>i. gc_open (gy_gc s) = Some i \<longrightarrow> i \<notin> gy_writing s) \<and>
     (\<forall>i items. (i, items) \<in> set (gy_riders s) \<longrightarrow> i < length (gc_batches (gy_gc s))) \<and>
     (gy_running s \<and> gc_open (gy_gc s) \<noteq> None \<longrightarrow> gc_wake (gy_gc s) \<or> gy_woken s) \<and>
     (gc_closed (gy_gc s) \<longrightarrow> gc_open (gy_gc s) = None \<and> \<not> gy_running s) \<and>
     (gy_woken s \<longrightarrow> gy_running s \<and> gy_writing s = {})"

lemma subs_snoc: "subs (riders @ [(j, xs)]) i = (if i = j then subs riders i @ xs else subs riders i)"
  by (simp add: subs_def)

lemma subs_fresh: "(\<And>i items. (i, items) \<in> set riders \<Longrightarrow> i < n) \<Longrightarrow> subs riders n = []"
  by (force simp: subs_def filter_empty_conv)

lemma rider_in_subs: "(i, items) \<in> set riders \<Longrightarrow> mset items \<subseteq># mset (subs riders i)"
  by (induction riders) (auto simp: subs_def intro: subset_mset.add_increasing)

lemma batch_ok_writes: "batch_ok c sh xs ws b \<Longrightarrow> set ws \<subseteq> set ws' \<Longrightarrow> batch_ok c sh xs ws' b"
  by (auto simp: batch_ok_def split: option.splits group_error.splits)

lemma batch_ok_close: "batch_ok c sh xs ws b \<Longrightarrow> batch_ok True sh xs ws b"
  by (auto simp: batch_ok_def)

lemma group_invD:
  assumes "group_inv sh s"
  shows "gc_shape (gy_gc s) = sh"
    and "\<And>i. i < length (gc_batches (gy_gc s)) \<Longrightarrow> batch_ok (gc_closed (gy_gc s)) sh (subs (gy_riders s) i) (gy_writes s) (gc_batches (gy_gc s) ! i)"
    and "\<And>i. i < length (gc_batches (gy_gc s)) \<Longrightarrow>
        gb_result (gc_batches (gy_gc s) ! i) = None \<longleftrightarrow> gc_open (gy_gc s) = Some i \<or> i \<in> gy_writing s"
    and "\<And>i. gc_open (gy_gc s) = Some i \<Longrightarrow> i < length (gc_batches (gy_gc s)) \<and> i \<notin> gy_writing s"
    and "\<And>i. i \<in> gy_writing s \<Longrightarrow> i < length (gc_batches (gy_gc s))"
    and "\<And>i items. (i, items) \<in> set (gy_riders s) \<Longrightarrow> i < length (gc_batches (gy_gc s))"
  using assms unfolding group_inv_def by blast+

text \<open>Batches stand side by side: a step that appends or changes one leaves the others as they are.\<close>

lemma inv_append_batch:
  assumes inv: "group_inv sh s" and "items \<noteq> []" and "gc_open (gy_gc s) = None"
    and "b = closedBatch \<and> op = None \<and> gc_closed (gy_gc s) \<or>
      gb_items b = acc_add sh items (newAccumulator sh) \<and> gb_result b = None \<and> op = Some (length (gc_batches (gy_gc s))) \<and> w \<and>
        \<not> gc_closed (gy_gc s)"
  shows "group_inv sh (s\<lparr>gy_gc := (gy_gc s)\<lparr>gc_batches := gc_batches (gy_gc s) @ [b], gc_open := op, gc_wake := w\<rparr>,
    gy_riders := gy_riders s @ [(length (gc_batches (gy_gc s)), items)]\<rparr>)"
proof -
  let ?bs = "gc_batches (gy_gc s)" and ?n = "length (gc_batches (gy_gc s))"
  note d = group_invD [OF inv]
  have fresh: "subs (gy_riders s) ?n = []" using d(6) by (rule subs_fresh)
  have old: "batch_ok (gc_closed (gy_gc s)) sh (subs (gy_riders s @ [(?n, items)]) i) (gy_writes s) ((?bs @ [b]) ! i) \<and>
      (gb_result ((?bs @ [b]) ! i) = None \<longleftrightarrow> op = Some i \<or> i \<in> gy_writing s)" if "i < Suc ?n" for i
  proof (cases "i = ?n")
    case True
    have "?n \<notin> gy_writing s" using d(5) by blast
    with True assms(2,4) fresh show ?thesis
      by (auto simp: subs_snoc batch_ok_def closedBatch_def)
  next
    case False
    with that d(2) [of i] d(3) [of i] assms(3,4) show ?thesis by (auto simp: subs_snoc nth_append)
  qed
  have "op = Some i \<or> i \<in> gy_writing s \<Longrightarrow> i < Suc ?n" "op = Some i \<Longrightarrow> i \<notin> gy_writing s" for i
    using d(5) [of i] assms(4) by auto
  moreover have "i < Suc ?n" if "(i, its) \<in> set (gy_riders s @ [(?n, items)])" for i its
    using that d(6) [of i its] by auto
  ultimately show ?thesis
    using inv assms(3,4) old unfolding group_inv_def by auto
qed

lemma inv_open_batch:
  assumes inv: "group_inv sh s" and o: "gc_open (gy_gc s) = Some i"
  defines "b \<equiv> gc_batches (gy_gc s) ! i"
  shows "group_inv sh (s\<lparr>gy_gc := (gy_gc s)\<lparr>gc_batches := (gc_batches (gy_gc s))[i := b\<lparr>gb_items := acc_add sh items (gb_items b)\<rparr>],
      gc_wake := True\<rparr>, gy_riders := gy_riders s @ [(i, items)]\<rparr>)"
proof -
  let ?bs = "gc_batches (gy_gc s)" and ?b = "b\<lparr>gb_items := acc_add sh items (gb_items b)\<rparr>"
  note d = group_invD [OF inv]
  have i: "i < length ?bs" "gb_result b = None" using d(4) [OF o] d(3) [of i] o by (auto simp: b_def)
  have "batch_ok (gc_closed (gy_gc s)) sh (subs (gy_riders s) i @ items) (gy_writes s) ?b"
    using d(2) [OF i(1)] i(2) by (simp add: batch_ok_def b_def [symmetric] acc_add_append)
  then have "batch_ok (gc_closed (gy_gc s)) sh (subs (gy_riders s @ [(i, items)]) j) (gy_writes s) (?bs[i := ?b] ! j) \<and>
      (gb_result (?bs[i := ?b] ! j) = None \<longleftrightarrow> gc_open (gy_gc s) = Some j \<or> j \<in> gy_writing s)" if "j < length ?bs" for j
    using that d(2,3) [of j] i o by (cases "j = i") (auto simp: subs_snoc nth_list_update)
  with inv i o show ?thesis unfolding group_inv_def by auto
qed

lemma inv_submit:
  assumes inv: "group_inv sh s" and "items \<noteq> []" and j: "join_batch items (gy_gc s) = (i, g)"
  shows "group_inv sh (s\<lparr>gy_gc := g, gy_riders := gy_riders s @ [(i, items)]\<rparr>)"
proof (cases "gc_closed (gy_gc s)")
  case True
  then have o: "gc_open (gy_gc s) = None" using inv by (simp add: group_inv_def)
  have g: "i = length (gc_batches (gy_gc s))" "g = (gy_gc s)\<lparr>gc_batches := gc_batches (gy_gc s) @ [closedBatch], gc_open := None, gc_wake := gc_wake (gy_gc s)\<rparr>"
    using j True o by (auto simp: join_batch_def)
  show ?thesis unfolding g by (rule inv_append_batch [OF inv assms(2) o]) (use True in simp)
next
  case open': False
  note sh = group_invD(1) [OF inv]
  show ?thesis
  proof (cases "gc_open (gy_gc s)")
    case None
    let ?b = "\<lparr>gb_items = acc_add sh items (newAccumulator sh), gb_result = None\<rparr>"
    have g: "i = length (gc_batches (gy_gc s))" "g = (gy_gc s)\<lparr>gc_batches := gc_batches (gy_gc s) @ [?b],
        gc_open := Some (length (gc_batches (gy_gc s))), gc_wake := True\<rparr>"
      using j open' None sh by (auto simp: join_batch_def Let_def list_update_append)
    show ?thesis unfolding g by (rule inv_append_batch [OF inv assms(2) None]) (use open' in simp)
  next
    case (Some k)
    with j open' sh have "i = k" "g = (gy_gc s)\<lparr>gc_batches := (gc_batches (gy_gc s))[k := (gc_batches (gy_gc s) ! k)\<lparr>gb_items :=
        acc_add sh items (gb_items (gc_batches (gy_gc s) ! k))\<rparr>], gc_wake := True\<rparr>"
      by (auto simp: join_batch_def Let_def)
    with inv_open_batch [OF inv Some, of items] show ?thesis by simp
  qed
qed

lemma inv_finish:
  assumes inv: "group_inv sh s" and i: "i \<in> gy_writing s"
    and res: "written sh (subs (gy_riders s) i) \<noteq> [] \<and> ws = (written sh (subs (gy_riders s) i), e) # gy_writes s"
  shows "group_inv sh (s\<lparr>gy_gc := finish_batch i (map_option ErrWrite e) (gy_gc s), gy_writing := gy_writing s - {i}, gy_writes := ws\<rparr>)"
proof -
  let ?bs = "gc_batches (gy_gc s)" and ?b = "(gc_batches (gy_gc s) ! i)\<lparr>gb_result := Some (map_option ErrWrite e)\<rparr>"
  note d = group_invD [OF inv]
  have l: "i < length ?bs" "gb_result (?bs ! i) = None" using d(5) [OF i] d(3) [of i] i by auto
  then have "batch_ok (gc_closed (gy_gc s)) sh (subs (gy_riders s) i) ws ?b"
    using d(2) [OF l(1)] res by (cases e) (auto simp: batch_ok_def)
  moreover have "batch_ok (gc_closed (gy_gc s)) sh (subs (gy_riders s) j) ws (?bs ! j)" if "j < length ?bs" for j
    by (rule batch_ok_writes [OF d(2) [OF that]]) (use res in auto)
  ultimately have "batch_ok (gc_closed (gy_gc s)) sh (subs (gy_riders s) j) ws (?bs[i := ?b] ! j) \<and>
      (gb_result (?bs[i := ?b] ! j) = None \<longleftrightarrow> gc_open (gy_gc s) = Some j \<or> j \<in> gy_writing s - {i})" if "j < length ?bs" for j
    using that d(3) [of j] l i d(4) [of i] by (cases "j = i") (auto simp: nth_list_update)
  with inv show ?thesis unfolding group_inv_def finish_batch_def by auto
qed

lemma commit_items_eq:
  assumes inv: "group_inv sh s" and i: "i \<in> gy_writing s"
  shows "commit_items i (gy_gc s) = Some (written sh (subs (gy_riders s) i)) \<and> written sh (subs (gy_riders s) i) \<noteq> []"
proof -
  note d = group_invD [OF inv]
  have l: "i < length (gc_batches (gy_gc s))" "gb_result (gc_batches (gy_gc s) ! i) = None" using d(5) [OF i] d(3) [of i] i by auto
  with d(2) [of i] have "gb_items (gc_batches (gy_gc s) ! i) = acc_add sh (subs (gy_riders s) i) (newAccumulator sh)"
    "subs (gy_riders s) i \<noteq> []" by (auto simp: batch_ok_def)
  moreover from this(2) have "written sh (subs (gy_riders s) i) \<noteq> []"
    by (metis length_0_conv length_ordered merged_items_Nil written_def)
  ultimately show ?thesis using d(1) by (simp add: commit_items_def Let_def collect_merged written_def)
qed

lemma group_step_inv:
  assumes "group_step s t" and inv: "group_inv sh s"
  shows "group_inv sh t"
  using assms(1)
proof cases
  case (g_submit items i g)
  with inv_submit [OF inv] show ?thesis by simp
next
  case (g_take b g)
  then have w: "gy_writing s = {}" using inv by (simp add: group_inv_def)
  from g_take have g: "b = gc_open (gy_gc s)" "g = (gy_gc s)\<lparr>gc_open := None\<rparr>" by (auto simp: take_open_def)
  show ?thesis using inv w unfolding group_inv_def by (cases b) (auto simp: g_take(1) g(2) g(1) [symmetric])
next
  case (g_write i items err)
  with inv_finish [OF inv g_write(2), of _ err] commit_items_eq [OF inv g_write(2)] show ?thesis by simp
next
  case (g_nothing i)
  with commit_items_eq [OF inv g_nothing(2)] show ?thesis by simp
next
  case (g_close b g)
  then have g: "b = gc_open (gy_gc s)" "g = (gy_gc s)\<lparr>gc_closed := True, gc_open := None\<rparr>" by (auto simp: close_gc_def)
  show ?thesis using inv g_close(2) unfolding group_inv_def
    by (cases b) (auto simp: g_close(1) g(2) g(1) [symmetric] intro: batch_ok_close)
qed (use inv in \<open>auto simp: group_inv_def\<close>)

lemma group_run_inv: "group_run s t \<Longrightarrow> group_inv sh s \<Longrightarrow> group_inv sh t"
  by (induction rule: group_run.induct) (auto intro: group_step_inv)

lemma new_group_inv: "NewGroupCommit write opts = Inr g \<Longrightarrow> group_inv (gc_shape g) (group_sys_of g)"
  by (auto simp: group_inv_def group_sys_of_def NewGroupCommit_def Let_def split: if_splits sum.splits)

text \<open>C18. However submissions, the flusher and closing interleave, a submission that is told all went well
  rode a batch that one successful write wrote whole: the items of all who rode it, folded per key
  and in order. One that is told of an error had its batch refused by the write with that error. One
  that has no answer yet is in the batch being written or in the open one, and for that one the
  flusher has been woken.\<close>

theorem group_commit_read_your_write:
  assumes "NewGroupCommit write opts = Inr g" and "resolveShape (newOptions opts) = Inr sh"
    and "group_run (group_sys_of g) s" and "(i, items) \<in> set (gy_riders s)"
  shows "mset items \<subseteq># mset (subs (gy_riders s) i) \<and>
    (case submit_result i (gy_gc s) of
       None \<Rightarrow> i \<in> gy_writing s \<or> gc_open (gy_gc s) = Some i \<and> (gy_running s \<longrightarrow> gc_wake (gy_gc s) \<or> gy_woken s)
     | Some None \<Rightarrow> (written sh (subs (gy_riders s) i), None) \<in> set (gy_writes s)
     | Some (Some ErrClosed) \<Rightarrow> gc_closed (gy_gc s)
     | Some (Some (ErrWrite e)) \<Rightarrow> (written sh (subs (gy_riders s) i), Some e) \<in> set (gy_writes s))"
proof -
  have "gc_shape g = sh" using assms(1,2) by (auto simp: NewGroupCommit_def Let_def split: if_splits)
  then have inv: "group_inv sh s" using group_run_inv [OF assms(3)] new_group_inv [OF assms(1)] by simp
  note d = group_invD [OF inv]
  have i: "i < length (gc_batches (gy_gc s))" using d(6) assms(4) by blast
  have "mset items \<subseteq># mset (subs (gy_riders s) i)" using assms(4) by (rule rider_in_subs)
  moreover have "gy_running s \<and> gc_open (gy_gc s) \<noteq> None \<longrightarrow> gc_wake (gy_gc s) \<or> gy_woken s"
    using inv by (simp add: group_inv_def)
  ultimately show ?thesis
    using d(2,3) [OF i] by (auto simp: submit_result_def batch_ok_def split: option.splits group_error.splits)
qed

theorem group_commit_read_your_write_witness:
  "\<exists>g (s :: (nat, nat, unit) group_sys). NewGroupCommit True [] = Inr g \<and> group_run (group_sys_of g) s \<and>
     submit_result 0 (gy_gc s) = Some None \<and> ([1, 2], None) \<in> set (gy_writes s)"
proof -
  let ?sh = "\<lparr>sh_merge = None, sh_order = None\<rparr> :: (nat, nat) batchShape"
  let ?gc = "\<lambda>res op wake. \<lparr>gc_shape = ?sh, gc_batches = [\<lparr>gb_items = SliceAcc [1, 2], gb_result = res\<rparr>], gc_open = op, gc_wake = wake,
      gc_flushTimeout = DefaultFlushTimeout, gc_closed = False\<rparr> :: (nat, nat, unit) GroupCommit"
  let ?s = "\<lambda>g woken w ws. \<lparr>gy_gc = g, gy_woken = woken, gy_writing = w, gy_writes = ws, gy_riders = [(0, [1, 2])], gy_running = True\<rparr>"
  let ?init = "\<lparr>gc_shape = ?sh, gc_batches = [], gc_open = None, gc_wake = False, gc_flushTimeout = DefaultFlushTimeout,
      gc_closed = False\<rparr> :: (nat, nat, unit) GroupCommit"
  have new: "NewGroupCommit True [] = Inr ?init" "resolveShape (newOptions ([] :: (nat, nat) batch_option list)) = Inr ?sh"
    by (simp_all add: NewGroupCommit_def newOptions_def resolveShape_def resolveOrdering_def Let_def)
  have "group_step (group_sys_of ?init) (?s (?gc None (Some 0) True) False {} [])"
    using g_submit [of "[1, 2]" "group_sys_of ?init" 0 "?gc None (Some 0) True"]
    by (simp add: group_sys_of_def join_batch_def Let_def newAccumulator_def acc_add_def)
  moreover have "group_step (?s (?gc None (Some 0) True) False {} []) (?s (?gc None (Some 0) False) True {} [])"
    using g_wake [of "?s (?gc None (Some 0) True) False {} []"] by simp
  moreover have "group_step (?s (?gc None (Some 0) False) True {} []) (?s (?gc None None False) False {0} [])"
    using g_take [of "?s (?gc None (Some 0) False) True {} []" "Some 0" "?gc None None False"] by (simp add: take_open_def)
  moreover have "group_step (?s (?gc None None False) False {0} []) (?s (?gc (Some None) None False) False {} [([1, 2], None)])"
    using g_write [of 0 "?s (?gc None None False) False {0} []" "[1, 2]" None]
    by (simp add: commit_items_def acc_collect_def ordered_def finish_batch_def)
  ultimately have run: "group_run (group_sys_of ?init) (?s (?gc (Some None) None False) False {} [([1, 2], None)])"
    by (meson group_run.intros)
  from group_commit_read_your_write [OF new run, of 0 "[1, 2]"] run new(1) show ?thesis
    by (intro exI [of _ ?init] exI [of _ "?s (?gc (Some None) None False) False {} [([1, 2], None)]"])
      (simp add: submit_result_def written_def merged_items_def ordered_def subs_def)
qed

end
