(* ===== verification/Filtering.thy ===== *)
theory Filtering
  imports GoStrings
begin

text \<open>
  The package \<^verbatim>\<open>filtering\<close>: the filter a list query carries (\<^verbatim>\<open>query_filter.go\<close>), its parameters for a
  database driver and the page that answers it (\<^verbatim>\<open>sql.go\<close>, with the constructors of \<^verbatim>\<open>database/nullable\<close>
  it calls).

  A pointer field is an option. The ceiling \<^verbatim>\<open>MaxQueryFilterLimit\<close> is a variable of the package, so it is an
  argument \<open>maxLimit\<close> of what reads it; \<open>MaxQueryFilterLimit\<close> is the value it starts with. The textual form
  of a time in RFC 3339 is a pair of arguments, \<open>parseTime\<close> and \<open>formatTime\<close>. A joined error is the list of
  what was joined, so the empty list is \<^verbatim>\<open>nil\<close>.
\<close>

subsection \<open>Constants\<close>

definition sortAscendingString :: string where "sortAscendingString = ''asc''"
definition sortDescendingString :: string where "sortDescendingString = ''desc''"
definition MaxQueryFilterLimit :: u16 where "MaxQueryFilterLimit = 250"
definition DefaultQueryFilterLimit :: u16 where "DefaultQueryFilterLimit = 50"
definition QueryKeyLimit :: string where "QueryKeyLimit = ''limit''"
definition QueryKeyCursor :: string where "QueryKeyCursor = ''cursor''"
definition QueryKeyCreatedBefore :: string where "QueryKeyCreatedBefore = ''createdBefore''"
definition QueryKeyCreatedAfter :: string where "QueryKeyCreatedAfter = ''createdAfter''"
definition QueryKeyUpdatedBefore :: string where "QueryKeyUpdatedBefore = ''updatedBefore''"
definition QueryKeyUpdatedAfter :: string where "QueryKeyUpdatedAfter = ''updatedAfter''"
definition QueryKeyIncludeArchived :: string where "QueryKeyIncludeArchived = ''includeArchived''"
definition QueryKeySortBy :: string where "QueryKeySortBy = ''sortBy''"

lemmas QueryKey_defs = QueryKeyLimit_def QueryKeyCursor_def QueryKeyCreatedBefore_def QueryKeyCreatedAfter_def
  QueryKeyUpdatedBefore_def QueryKeyUpdatedAfter_def QueryKeyIncludeArchived_def QueryKeySortBy_def

lemmas sort_strings = sortAscendingString_def sortDescendingString_def

subsection \<open>The filter and the page\<close>

record QueryFilter =
  qf_SortBy :: "string option"
  qf_CreatedAfter :: "gotime option"
  qf_CreatedBefore :: "gotime option"
  qf_UpdatedAfter :: "gotime option"
  qf_UpdatedBefore :: "gotime option"
  qf_MaxResponseSize :: "u16 option"
  qf_IncludeArchived :: "bool option"
  qf_Cursor :: "string option"

definition zero_filter :: QueryFilter where
  "zero_filter = \<lparr>qf_SortBy = None, qf_CreatedAfter = None, qf_CreatedBefore = None, qf_UpdatedAfter = None,
     qf_UpdatedBefore = None, qf_MaxResponseSize = None, qf_IncludeArchived = None, qf_Cursor = None\<rparr>"

record Pagination =
  pg_AppliedQueryFilter :: "QueryFilter option"
  pg_Cursor :: string
  pg_PreviousCursor :: string
  pg_FilteredCount :: u64
  pg_TotalCount :: u64
  pg_MaxResponseSize :: u16
  pg_CountsKnown :: bool

record 't QueryFilteredResult =
  qr_Data :: "'t list"
  qr_Pagination :: Pagination

datatype filter_error = ErrUnrecognizedInputValue string string

definition DefaultQueryFilter :: QueryFilter where
  "DefaultQueryFilter = zero_filter\<lparr>qf_MaxResponseSize := Some DefaultQueryFilterLimit,
     qf_SortBy := Some sortAscendingString\<rparr>"

definition ClampResponseSize :: "u16 \<Rightarrow> u64 \<Rightarrow> u16" where
  "ClampResponseSize maxLimit n = ucast (min n (ucast maxLimit))"

subsection \<open>Reading and writing query parameters\<close>

text \<open>\<^verbatim>\<open>url.Values\<close> with its \<^verbatim>\<open>Get\<close> and \<^verbatim>\<open>Set\<close>.\<close>

type_synonym url_values = "(string, string list) gomap"

definition params_Get :: "url_values \<Rightarrow> string \<Rightarrow> string" where
  "params_Get params key = (case mget params key of Some (v # vs) \<Rightarrow> v | _ \<Rightarrow> [])"

definition params_Set :: "string \<Rightarrow> string \<Rightarrow> url_values \<Rightarrow> url_values" where
  "params_Set key v params = mput key [v] params"

definition parse_time :: "(string \<Rightarrow> gotime option) \<Rightarrow> url_values \<Rightarrow> string \<Rightarrow> gotime option \<Rightarrow>
    filter_error list \<times> gotime option" where
  "parse_time parseTime params key into =
     (let raw = params_Get params key
      in if raw = [] then ([], into)
         else case parseTime raw of
                None \<Rightarrow> ([ErrUnrecognizedInputValue key raw], into)
              | Some t \<Rightarrow> ([], Some t))"

definition FromParams :: "(string \<Rightarrow> gotime option) \<Rightarrow> u16 \<Rightarrow> url_values \<Rightarrow> QueryFilter \<Rightarrow>
    filter_error list \<times> QueryFilter" where
  "FromParams parseTime maxLimit params qf =
     (let cursor = params_Get params QueryKeyCursor;
          qf1 = (if cursor \<noteq> [] then qf\<lparr>qf_Cursor := Some cursor\<rparr> else qf);
          raw = params_Get params QueryKeyLimit;
          (e2, qf2) =
            (if raw = [] then ([], qf1)
             else case ParseUint raw of
                    None \<Rightarrow> ([ErrUnrecognizedInputValue QueryKeyLimit raw], qf1)
                  | Some i \<Rightarrow> ([], qf1\<lparr>qf_MaxResponseSize := Some (ClampResponseSize maxLimit i)\<rparr>));
          (e3, cb) = parse_time parseTime params QueryKeyCreatedBefore (qf_CreatedBefore qf2);
          (e4, ca) = parse_time parseTime params QueryKeyCreatedAfter (qf_CreatedAfter qf2);
          (e5, ub) = parse_time parseTime params QueryKeyUpdatedBefore (qf_UpdatedBefore qf2);
          (e6, ua) = parse_time parseTime params QueryKeyUpdatedAfter (qf_UpdatedAfter qf2);
          qf6 = qf2\<lparr>qf_CreatedBefore := cb, qf_CreatedAfter := ca, qf_UpdatedBefore := ub, qf_UpdatedAfter := ua\<rparr>;
          raw = params_Get params QueryKeyIncludeArchived;
          (e7, qf7) =
            (if raw = [] then ([], qf6)
             else case ParseBool raw of
                    None \<Rightarrow> ([ErrUnrecognizedInputValue QueryKeyIncludeArchived raw], qf6)
                  | Some i \<Rightarrow> ([], qf6\<lparr>qf_IncludeArchived := Some i\<rparr>));
          raw = params_Get params QueryKeySortBy;
          (e8, qf8) =
            (if raw = [] then ([], qf7)
             else if ToLower raw = sortAscendingString then ([], qf7\<lparr>qf_SortBy := Some sortAscendingString\<rparr>)
             else if ToLower raw = sortDescendingString then ([], qf7\<lparr>qf_SortBy := Some sortDescendingString\<rparr>)
             else ([ErrUnrecognizedInputValue QueryKeySortBy raw], qf7))
      in (e2 @ e3 @ e4 @ e5 @ e6 @ e7 @ e8, qf8))"

definition Normalize :: "u16 \<Rightarrow> QueryFilter option \<Rightarrow> filter_error list \<times> QueryFilter option" where
  "Normalize maxLimit f =
     (case f of
        None \<Rightarrow> ([], None)
      | Some qf \<Rightarrow>
          (let n = (case qf_MaxResponseSize qf of
                         None \<Rightarrow> DefaultQueryFilterLimit
                       | Some m \<Rightarrow> if m = 0 then DefaultQueryFilterLimit else ClampResponseSize maxLimit (ucast m));
               qf1 = qf\<lparr>qf_MaxResponseSize := Some n\<rparr>
           in case qf_SortBy qf1 of
                None \<Rightarrow> ([], Some (qf1\<lparr>qf_SortBy := Some sortAscendingString\<rparr>))
              | Some raw \<Rightarrow>
                  (if ToLower raw = sortAscendingString then ([], Some (qf1\<lparr>qf_SortBy := Some sortAscendingString\<rparr>))
                   else if ToLower raw = sortDescendingString
                   then ([], Some (qf1\<lparr>qf_SortBy := Some sortDescendingString\<rparr>))
                   else ([ErrUnrecognizedInputValue QueryKeySortBy raw],
                         Some (qf1\<lparr>qf_SortBy := Some sortAscendingString\<rparr>)))))"

definition SortsDescending :: "QueryFilter option \<Rightarrow> bool" where
  "SortsDescending f =
     (case f of
        None \<Rightarrow> False
      | Some qf \<Rightarrow> (case qf_SortBy qf of None \<Rightarrow> False | Some s \<Rightarrow> EqualFold s sortDescendingString))"

definition SetCursor :: "string option \<Rightarrow> QueryFilter \<Rightarrow> QueryFilter" where
  "SetCursor cursor qf = (case cursor of None \<Rightarrow> qf | Some c \<Rightarrow> qf\<lparr>qf_Cursor := Some c\<rparr>)"

definition SetMaxResponseSize :: "u16 \<Rightarrow> u64 \<Rightarrow> QueryFilter \<Rightarrow> QueryFilter" where
  "SetMaxResponseSize maxLimit n qf = qf\<lparr>qf_MaxResponseSize := Some (ClampResponseSize maxLimit n)\<rparr>"

definition set_some :: "string \<Rightarrow> string option \<Rightarrow> url_values \<Rightarrow> url_values" where
  "set_some key v params = (case v of None \<Rightarrow> params | Some s \<Rightarrow> params_Set key s params)"

definition values_of :: "(gotime \<Rightarrow> string) \<Rightarrow> QueryFilter \<Rightarrow> url_values" where
  "values_of formatTime qf =
     (let v = [];
          v = set_some QueryKeyCursor (qf_Cursor qf) v;
          v = set_some QueryKeyLimit (map_option (\<lambda>n. decimal (unat n)) (qf_MaxResponseSize qf)) v;
          v = set_some QueryKeySortBy (qf_SortBy qf) v;
          v = set_some QueryKeyCreatedBefore (map_option formatTime (qf_CreatedBefore qf)) v;
          v = set_some QueryKeyCreatedAfter (map_option formatTime (qf_CreatedAfter qf)) v;
          v = set_some QueryKeyUpdatedBefore (map_option formatTime (qf_UpdatedBefore qf)) v;
          v = set_some QueryKeyUpdatedAfter (map_option formatTime (qf_UpdatedAfter qf)) v
      in set_some QueryKeyIncludeArchived (map_option FormatBool (qf_IncludeArchived qf)) v)"

definition ToValues :: "(gotime \<Rightarrow> string) \<Rightarrow> QueryFilter option \<Rightarrow> url_values" where
  "ToValues formatTime f =
     (case f of None \<Rightarrow> values_of formatTime DefaultQueryFilter | Some qf \<Rightarrow> values_of formatTime qf)"

definition ToPagination :: "QueryFilter option \<Rightarrow> Pagination" where
  "ToPagination f =
     (let qf = (case f of None \<Rightarrow> DefaultQueryFilter | Some qf \<Rightarrow> qf)
      in \<lparr>pg_AppliedQueryFilter = None,
          pg_Cursor = (case qf_Cursor qf of None \<Rightarrow> [] | Some c \<Rightarrow> c),
          pg_PreviousCursor = [], pg_FilteredCount = 0, pg_TotalCount = 0,
          pg_MaxResponseSize = (case qf_MaxResponseSize qf of None \<Rightarrow> 0 | Some n \<Rightarrow> n),
          pg_CountsKnown = False\<rparr>)"

text \<open>The request is its query parameters. The answer joins the errors of parsing and of normalizing.\<close>

definition ExtractQueryFilterFromRequest :: "(string \<Rightarrow> gotime option) \<Rightarrow> u16 \<Rightarrow> url_values \<Rightarrow>
    filter_error list \<times> QueryFilter option" where
  "ExtractQueryFilterFromRequest parseTime maxLimit query =
     (case FromParams parseTime maxLimit query DefaultQueryFilter of (errs, qf) \<Rightarrow>
        case Normalize maxLimit (Some qf) of (errs', qf') \<Rightarrow> (errs @ errs', qf'))"

definition Counts :: "Pagination option \<Rightarrow> u64 \<times> u64 \<times> bool" where
  "Counts p =
     (case p of
        None \<Rightarrow> (0, 0, False)
      | Some x \<Rightarrow> if \<not> pg_CountsKnown x then (0, 0, False) else (pg_FilteredCount x, pg_TotalCount x, True))"

definition newQueryFilteredResult :: "'t list \<Rightarrow> u64 \<Rightarrow> u64 \<Rightarrow> bool \<Rightarrow> ('t \<Rightarrow> string) \<Rightarrow> QueryFilter option \<Rightarrow>
    't QueryFilteredResult" where
  "newQueryFilteredResult data filteredCount totalCount countsKnown idExtractor qfilter =
     (let x = (ToPagination qfilter)
            \<lparr>pg_FilteredCount := filteredCount, pg_TotalCount := totalCount, pg_CountsKnown := countsKnown,
             pg_AppliedQueryFilter := qfilter\<rparr>;
          x = (case qfilter of
                 None \<Rightarrow> x
               | Some f \<Rightarrow> (case qf_Cursor f of None \<Rightarrow> x | Some c \<Rightarrow> x\<lparr>pg_PreviousCursor := c\<rparr>));
          x = (if length data > 0 then x\<lparr>pg_Cursor := idExtractor (data ! (length data - 1))\<rparr>
               else x\<lparr>pg_Cursor := []\<rparr>)
      in \<lparr>qr_Data = data, qr_Pagination = x\<rparr>)"

definition NewQueryFilteredResult :: "'t list \<Rightarrow> u64 \<Rightarrow> u64 \<Rightarrow> ('t \<Rightarrow> string) \<Rightarrow> QueryFilter option \<Rightarrow>
    't QueryFilteredResult" where
  "NewQueryFilteredResult data filteredCount totalCount idExtractor qfilter =
     newQueryFilteredResult data filteredCount totalCount True idExtractor qfilter"

definition NewQueryFilteredResultWithoutCounts :: "'t list \<Rightarrow> ('t \<Rightarrow> string) \<Rightarrow> QueryFilter option \<Rightarrow>
    't QueryFilteredResult" where
  "NewQueryFilteredResultWithoutCounts data idExtractor qfilter =
     newQueryFilteredResult data 0 0 False idExtractor qfilter"

subsection \<open>sql.go\<close>

record 'a nullv =
  nv_value :: 'a
  nv_Valid :: bool

definition NullTimeFromTimePointer :: "gotime option \<Rightarrow> gotime nullv" where
  "NullTimeFromTimePointer t =
     (case t of None \<Rightarrow> \<lparr>nv_value = 0, nv_Valid = False\<rparr> | Some x \<Rightarrow> \<lparr>nv_value = x, nv_Valid = True\<rparr>)"

definition NullStringFromStringPointer :: "string option \<Rightarrow> string nullv" where
  "NullStringFromStringPointer s =
     (case s of None \<Rightarrow> \<lparr>nv_value = [], nv_Valid = False\<rparr> | Some x \<Rightarrow> \<lparr>nv_value = x, nv_Valid = True\<rparr>)"

definition NullInt32FromUint16 :: "u16 \<Rightarrow> u32 nullv" where
  "NullInt32FromUint16 i = \<lparr>nv_value = ucast i, nv_Valid = True\<rparr>"

definition NullBoolFromBoolPointer :: "bool option \<Rightarrow> bool nullv" where
  "NullBoolFromBoolPointer b =
     (case b of None \<Rightarrow> \<lparr>nv_value = False, nv_Valid = False\<rparr> | Some x \<Rightarrow> \<lparr>nv_value = x, nv_Valid = True\<rparr>)"

record SQLArgs =
  sa_CreatedAfter :: "gotime nullv"
  sa_CreatedBefore :: "gotime nullv"
  sa_UpdatedAfter :: "gotime nullv"
  sa_UpdatedBefore :: "gotime nullv"
  sa_Cursor :: "string nullv"
  sa_ResultLimit :: "u32 nullv"
  sa_IncludeArchived :: "bool nullv"

definition boundResponseSize :: "u16 \<Rightarrow> u16 option \<Rightarrow> u16" where
  "boundResponseSize maxLimit n =
     (case n of None \<Rightarrow> DefaultQueryFilterLimit | Some m \<Rightarrow> ClampResponseSize maxLimit (ucast m))"

definition ToSQLArgs :: "u16 \<Rightarrow> QueryFilter option \<Rightarrow> SQLArgs" where
  "ToSQLArgs maxLimit f =
     (let qfilter = (case f of None \<Rightarrow> DefaultQueryFilter | Some qf \<Rightarrow> qf)
      in \<lparr>sa_CreatedAfter = NullTimeFromTimePointer (qf_CreatedAfter qfilter),
          sa_CreatedBefore = NullTimeFromTimePointer (qf_CreatedBefore qfilter),
          sa_UpdatedAfter = NullTimeFromTimePointer (qf_UpdatedAfter qfilter),
          sa_UpdatedBefore = NullTimeFromTimePointer (qf_UpdatedBefore qfilter),
          sa_Cursor = NullStringFromStringPointer (qf_Cursor qfilter),
          sa_ResultLimit = NullInt32FromUint16 (boundResponseSize maxLimit (qf_MaxResponseSize qfilter)),
          sa_IncludeArchived = NullBoolFromBoolPointer (qf_IncludeArchived qfilter)\<rparr>)"

text \<open>A count is an \<^verbatim>\<open>int64\<close>: a word read with its sign.\<close>

definition countFromRow :: "u64 \<Rightarrow> u64" where
  "countFromRow count = (if sint count < 0 then 0 else count)"

definition Drain :: "'r list \<Rightarrow> ('r \<Rightarrow> 't) \<Rightarrow> ('r \<Rightarrow> u64 \<times> u64) option \<Rightarrow> ('t \<Rightarrow> string) \<Rightarrow> QueryFilter option \<Rightarrow>
    't QueryFilteredResult" where
  "Drain rows convert counts id' qfilter =
     (let data = foldl (\<lambda>data row. data @ [convert row]) [] rows
      in case counts of
           None \<Rightarrow> NewQueryFilteredResultWithoutCounts data id' qfilter
         | Some count \<Rightarrow>
             (if length rows = 0 then NewQueryFilteredResultWithoutCounts data id' qfilter
              else (case count (rows ! 0) of (filtered, tot) \<Rightarrow>
                      NewQueryFilteredResult data (countFromRow filtered) (countFromRow tot) id' qfilter)))"

subsection \<open>The ceiling\<close>

lemma unat_u16: "unat (n :: u16) < 65536"
  proof -
  have "unat n < 2 ^ LENGTH(16)" by (rule unsigned_less)
  then show ?thesis by simp
qed

lemma unat_ucast_u16 [simp]:
  "unat (ucast (n :: u16) :: u64) = unat n" "unat (ucast (n :: u16) :: u32) = unat n"
  using unat_u16 [of n] by (simp_all add: unsigned_ucast_eq take_bit_nat_eq_self)

lemma unat_ClampResponseSize [simp]: "unat (ClampResponseSize maxLimit n) = min (unat n) (unat maxLimit)"
proof -
  have "unat (min n (ucast maxLimit)) = min (unat n) (unat maxLimit)"
    by (simp add: min_def word_le_nat_alt)
  then show ?thesis
    using unat_u16 [of maxLimit] by (simp add: ClampResponseSize_def unsigned_ucast_eq take_bit_nat_eq_self)
qed

lemma Clamp_le_max: "ClampResponseSize maxLimit n \<le> maxLimit"
  by (simp add: word_le_nat_alt)

lemma Clamp_id: "n \<le> maxLimit \<Longrightarrow> ClampResponseSize maxLimit (ucast n) = n"
  by (rule word_unat_eq_iff [THEN iffD2]) (simp add: word_le_nat_alt)

subsection \<open>Parameters\<close>

lemma params_Get_Nil [simp]: "params_Get [] k = []"
  by (simp add: params_Get_def)

lemma params_Get_set_some [simp]:
  "params_Get (set_some k v p) k' = (if k' = k \<and> v \<noteq> None then the v else params_Get p k')"
  by (cases v) (simp_all add: set_some_def params_Set_def params_Get_def)

lemma params_of_filter:
  "params_Get (values_of fmt qf) QueryKeyCursor = (case qf_Cursor qf of None \<Rightarrow> [] | Some c \<Rightarrow> c)"
  "params_Get (values_of fmt qf) QueryKeyLimit = (case qf_MaxResponseSize qf of None \<Rightarrow> [] | Some n \<Rightarrow> decimal (unat n))"
  "params_Get (values_of fmt qf) QueryKeySortBy = (case qf_SortBy qf of None \<Rightarrow> [] | Some c \<Rightarrow> c)"
  "params_Get (values_of fmt qf) QueryKeyCreatedBefore = (case qf_CreatedBefore qf of None \<Rightarrow> [] | Some t \<Rightarrow> fmt t)"
  "params_Get (values_of fmt qf) QueryKeyCreatedAfter = (case qf_CreatedAfter qf of None \<Rightarrow> [] | Some t \<Rightarrow> fmt t)"
  "params_Get (values_of fmt qf) QueryKeyUpdatedBefore = (case qf_UpdatedBefore qf of None \<Rightarrow> [] | Some t \<Rightarrow> fmt t)"
  "params_Get (values_of fmt qf) QueryKeyUpdatedAfter = (case qf_UpdatedAfter qf of None \<Rightarrow> [] | Some t \<Rightarrow> fmt t)"
  "params_Get (values_of fmt qf) QueryKeyIncludeArchived = (case qf_IncludeArchived qf of None \<Rightarrow> [] | Some b \<Rightarrow> FormatBool b)"
  by (simp_all add: values_of_def Let_def QueryKey_defs split: option.splits)

text \<open>The times a filter holds, and a pair of functions that writes and reads them back.\<close>

definition filter_times :: "QueryFilter \<Rightarrow> gotime set" where
  "filter_times qf = set_option (qf_CreatedAfter qf) \<union> set_option (qf_CreatedBefore qf) \<union>
     set_option (qf_UpdatedAfter qf) \<union> set_option (qf_UpdatedBefore qf)"

definition time_text :: "(string \<Rightarrow> gotime option) \<Rightarrow> (gotime \<Rightarrow> string) \<Rightarrow> gotime \<Rightarrow> bool" where
  "time_text parseTime formatTime t \<longleftrightarrow> formatTime t \<noteq> [] \<and> parseTime (formatTime t) = Some t"

text \<open>A field that was set, else the one before.\<close>

definition over :: "'a option \<Rightarrow> 'a option \<Rightarrow> 'a option" where
  "over x y = (if x = None then y else x)"

lemma over_simps [simp]: "over None y = y" "over (Some v) y = Some v" "over x None = x"
  by (simp_all add: over_def)

lemma parse_time_written:
  assumes "params_Get params key = (case t of None \<Rightarrow> [] | Some x \<Rightarrow> fmt x)" and "\<forall>x \<in> set_option t. time_text parse fmt x"
  shows "parse_time parse params key into = ([], over t into)"
  using assms by (cases t) (auto simp: parse_time_def time_text_def over_def)

lemma ParseUint_decimal_16 [simp]: "ParseUint (decimal (unat (n :: u16))) = Some (ucast n)"
  using ParseUint_decimal_word [of "ucast n"] by simp

text \<open>What reading back a written filter gives over any starting point, for every filter.\<close>

definition overlay :: "u16 \<Rightarrow> QueryFilter \<Rightarrow> QueryFilter \<Rightarrow> QueryFilter" where
  "overlay maxLimit qf q0 =
     \<lparr>qf_SortBy = (case qf_SortBy qf of
                    None \<Rightarrow> qf_SortBy q0
                  | Some s \<Rightarrow> if ToLower s \<in> {sortAscendingString, sortDescendingString} then Some (ToLower s) else qf_SortBy q0),
      qf_CreatedAfter = over (qf_CreatedAfter qf) (qf_CreatedAfter q0),
      qf_CreatedBefore = over (qf_CreatedBefore qf) (qf_CreatedBefore q0),
      qf_UpdatedAfter = over (qf_UpdatedAfter qf) (qf_UpdatedAfter q0),
      qf_UpdatedBefore = over (qf_UpdatedBefore qf) (qf_UpdatedBefore q0),
      qf_MaxResponseSize = (case qf_MaxResponseSize qf of
                              None \<Rightarrow> qf_MaxResponseSize q0
                            | Some n \<Rightarrow> Some (ClampResponseSize maxLimit (ucast n))),
      qf_IncludeArchived = over (qf_IncludeArchived qf) (qf_IncludeArchived q0),
      qf_Cursor = (if qf_Cursor qf \<in> {None, Some []} then qf_Cursor q0 else qf_Cursor qf)\<rparr>"

definition sort_errors :: "string option \<Rightarrow> filter_error list" where
  "sort_errors s =
     (case s of
        None \<Rightarrow> []
      | Some raw \<Rightarrow>
          if raw = [] \<or> ToLower raw \<in> {sortAscendingString, sortDescendingString} then []
          else [ErrUnrecognizedInputValue QueryKeySortBy raw])"

lemma lower_sort_strings [simp]:
  "ToLower sortAscendingString = sortAscendingString" "ToLower sortDescendingString = sortDescendingString"
  "sortAscendingString \<noteq> sortDescendingString" "sortDescendingString \<noteq> sortAscendingString"
  "sortAscendingString \<noteq> []" "sortDescendingString \<noteq> []" "[] \<noteq> sortAscendingString" "[] \<noteq> sortDescendingString"
  "ToLower [] = []"
  by (simp_all add: sort_strings ToLower_def lower_def)

lemma FromParams_written:
  assumes "\<forall>t \<in> filter_times qf. time_text parseTime formatTime t"
  shows "FromParams parseTime maxLimit (values_of formatTime qf) q0 = (sort_errors (qf_SortBy qf), overlay maxLimit qf q0)"
proof -
  let ?p = "values_of formatTime qf"
  have times:
    "parse_time parseTime ?p QueryKeyCreatedBefore i = ([], over (qf_CreatedBefore qf) i)"
    "parse_time parseTime ?p QueryKeyCreatedAfter i = ([], over (qf_CreatedAfter qf) i)"
    "parse_time parseTime ?p QueryKeyUpdatedBefore i = ([], over (qf_UpdatedBefore qf) i)"
    "parse_time parseTime ?p QueryKeyUpdatedAfter i = ([], over (qf_UpdatedAfter qf) i)"
    for i
    using assms
    by (rule_tac parse_time_written [where fmt = formatTime]; simp add: params_of_filter filter_times_def)+
  show ?thesis
    by (cases "qf_MaxResponseSize qf"; cases "qf_IncludeArchived qf"; cases "qf_SortBy qf"; cases "qf_Cursor qf")
      (auto simp: FromParams_def Let_def times params_of_filter overlay_def sort_errors_def)
qed

definition valid_filter :: "u16 \<Rightarrow> QueryFilter \<Rightarrow> bool" where
  "valid_filter maxLimit qf \<longleftrightarrow>
     qf_Cursor qf \<noteq> Some [] \<and> (\<forall>n \<in> set_option (qf_MaxResponseSize qf). n \<le> maxLimit) \<and>
     qf_SortBy qf \<in> {None, Some sortAscendingString, Some sortDescendingString}"

lemma overlay_zero: "valid_filter maxLimit qf \<Longrightarrow> overlay maxLimit qf zero_filter = qf"
  by (cases qf) (auto simp: overlay_def zero_filter_def valid_filter_def Clamp_id split: option.splits)

lemma sort_errors_valid: "valid_filter maxLimit qf \<Longrightarrow> sort_errors (qf_SortBy qf) = []"
  by (auto simp: sort_errors_def valid_filter_def)

lemma default_limit_pos [simp]: "DefaultQueryFilterLimit \<noteq> 0"
  by (simp add: DefaultQueryFilterLimit_def)

lemma overlay_default:
  "valid_filter maxLimit qf \<Longrightarrow> overlay maxLimit qf DefaultQueryFilter =
     qf\<lparr>qf_SortBy := (case qf_SortBy qf of None \<Rightarrow> Some sortAscendingString | Some s \<Rightarrow> Some s),
        qf_MaxResponseSize := (case qf_MaxResponseSize qf of None \<Rightarrow> Some DefaultQueryFilterLimit | Some n \<Rightarrow> Some n)\<rparr>"
  by (cases qf) (auto simp: overlay_def DefaultQueryFilter_def zero_filter_def valid_filter_def Clamp_id
    split: option.splits)

lemma Normalize_overlay_default:
  assumes "valid_filter maxLimit qf" and "DefaultQueryFilterLimit \<le> maxLimit"
  shows "Normalize maxLimit (Some (overlay maxLimit qf DefaultQueryFilter)) = Normalize maxLimit (Some qf)"
  unfolding overlay_default [OF assms(1)]
  by (cases "qf_SortBy qf"; cases "qf_MaxResponseSize qf")
    (simp_all add: Normalize_def Let_def Clamp_id [OF assms(2)])

text \<open>
  C37. A filter survives its own query parameters. Reading back what \<^verbatim>\<open>ToValues\<close> wrote over any filter overrides
  exactly the fields that were set, reports exactly an unknown sort direction, and gives the very filter back
  when its page size is within the ceiling, its cursor is not empty and its direction is one of the two. What a
  handler extracts from such a request is the normalized filter, under any ceiling that admits the default page.
\<close>

theorem filter_survives_its_parameters:
  assumes "\<forall>t \<in> filter_times qf. time_text parseTime formatTime t"
  shows "FromParams parseTime maxLimit (ToValues formatTime (Some qf)) q0
           = (sort_errors (qf_SortBy qf), overlay maxLimit qf q0) \<and>
         (valid_filter maxLimit qf \<longrightarrow>
            FromParams parseTime maxLimit (ToValues formatTime (Some qf)) zero_filter = ([], qf) \<and>
            (DefaultQueryFilterLimit \<le> maxLimit \<longrightarrow>
               ExtractQueryFilterFromRequest parseTime maxLimit (ToValues formatTime (Some qf)) =
                 Normalize maxLimit (Some qf)))"
proof -
  note w = FromParams_written [OF assms]
  have "ExtractQueryFilterFromRequest parseTime maxLimit (values_of formatTime qf) = Normalize maxLimit (Some qf)"
    if "valid_filter maxLimit qf" "DefaultQueryFilterLimit \<le> maxLimit"
    using Normalize_overlay_default [OF that] sort_errors_valid [OF that(1)]
    by (simp add: ExtractQueryFilterFromRequest_def w split: prod.splits)
  then show ?thesis
    using sort_errors_valid [of maxLimit qf] overlay_zero [of maxLimit qf] by (simp add: ToValues_def w)
qed

definition sample_filter :: QueryFilter where
  "sample_filter = zero_filter\<lparr>qf_SortBy := Some sortDescendingString, qf_CreatedAfter := Some 7,
     qf_MaxResponseSize := Some 20, qf_IncludeArchived := Some True, qf_Cursor := Some ''row9''\<rparr>"

theorem filter_survives_its_parameters_witness:
  "FromParams ParseInt MaxQueryFilterLimit (ToValues FormatInt (Some sample_filter)) zero_filter = ([], sample_filter)"
proof -
  have "\<forall>t \<in> filter_times sample_filter. time_text ParseInt FormatInt t"
    using FormatInt_inj [of 7 8] ParseInt_FormatInt [of 7]
    by (simp add: sample_filter_def zero_filter_def filter_times_def time_text_def) (simp add: FormatInt_def)
  moreover have "valid_filter MaxQueryFilterLimit sample_filter"
    by (simp add: valid_filter_def sample_filter_def zero_filter_def MaxQueryFilterLimit_def)
  ultimately show ?thesis using filter_survives_its_parameters by blast
qed

subsection \<open>Bounds of a page\<close>

lemma params_Get_single [simp]: "params_Get [(k, [v])] k' = (if k' = k then v else [])"
  by (simp add: params_Get_def mget_def)

lemma FromParams_limit:
  "FromParams parseTime maxLimit [(QueryKeyLimit, [decimal (unat n)])] qf = ([], SetMaxResponseSize maxLimit n qf)"
proof -
  let ?p = "[(QueryKeyLimit, [decimal (unat n)])]"
  have "params_Get ?p QueryKeyCursor = []" "params_Get ?p QueryKeyCreatedBefore = []"
    "params_Get ?p QueryKeyCreatedAfter = []" "params_Get ?p QueryKeyUpdatedBefore = []"
    "params_Get ?p QueryKeyUpdatedAfter = []" "params_Get ?p QueryKeyIncludeArchived = []"
    "params_Get ?p QueryKeySortBy = []" "params_Get ?p QueryKeyLimit = decimal (unat n)"
    by (simp_all add: QueryKey_defs)
  then show ?thesis
    by (simp add: FromParams_def parse_time_def SetMaxResponseSize_def Let_def del: params_Get_single)
qed

definition normalized_size :: "u16 \<Rightarrow> u16 option \<Rightarrow> u16" where
  "normalized_size maxLimit sz =
     (if sz \<in> {None, Some 0} then DefaultQueryFilterLimit else ClampResponseSize maxLimit (ucast (the sz)))"

definition normalized_sort :: "string option \<Rightarrow> string" where
  "normalized_sort s =
     (if (\<exists>raw \<in> set_option s. ToLower raw = sortDescendingString) then sortDescendingString else sortAscendingString)"

lemma Normalize_result:
  "snd (Normalize maxLimit (Some qf)) =
     Some (qf\<lparr>qf_MaxResponseSize := Some (normalized_size maxLimit (qf_MaxResponseSize qf)),
              qf_SortBy := Some (normalized_sort (qf_SortBy qf))\<rparr>)"
  by (cases "qf_MaxResponseSize qf"; cases "qf_SortBy qf")
    (auto simp: Normalize_def Let_def normalized_size_def normalized_sort_def)

lemma normalized_size_bounds:
  assumes "DefaultQueryFilterLimit \<le> maxLimit"
  shows "0 < normalized_size maxLimit sz" "normalized_size maxLimit sz \<le> maxLimit"
    "normalized_size maxLimit (Some (normalized_size maxLimit sz)) = normalized_size maxLimit sz"
proof -
  have "0 < unat maxLimit" "unat (the sz) > 0 \<or> sz \<in> {None, Some 0}"
    using assms by (cases sz; auto simp: word_le_nat_alt DefaultQueryFilterLimit_def unat_gt_0)+
  moreover have "0 < unat DefaultQueryFilterLimit" by (simp add: DefaultQueryFilterLimit_def)
  ultimately show pos: "0 < normalized_size maxLimit sz"
    by (auto simp: normalized_size_def word_less_nat_alt)
  show le: "normalized_size maxLimit sz \<le> maxLimit"
    using assms Clamp_le_max by (auto simp: normalized_size_def)
  show "normalized_size maxLimit (Some (normalized_size maxLimit sz)) = normalized_size maxLimit sz"
    using pos by (subst normalized_size_def) (simp add: Clamp_id [OF le])
qed

lemma normalized_sort_idem [simp]: "normalized_sort (Some (normalized_sort s)) = normalized_sort s"
  by (simp add: normalized_sort_def)

lemma sint_u16: "sint (ucast (n :: u16) :: u32) = int (unat n)"
proof -
  have "uint (ucast n :: u32) = int (unat (ucast n :: u32))" by (rule uint_nat)
  also have "\<dots> = int (unat n)" by (simp only: unat_ucast_u16)
  finally have "uint (ucast n :: u32) = int (unat n)" .
  moreover have p: "(2 :: int) ^ 31 = 2147483648" by simp
  then have "int (unat n) < 2 ^ 31" using unat_u16 [of n] by linarith
  then have "signed_take_bit 31 (int (unat n)) = int (unat n)" using p by (intro signed_take_bit_int_eq_self) linarith+
  ultimately show ?thesis by (simp only: sint_uint) simp
qed

lemma result_limit:
  "sa_ResultLimit (ToSQLArgs maxLimit (Some qf)) =
     \<lparr>nv_value = ucast (boundResponseSize maxLimit (qf_MaxResponseSize qf)), nv_Valid = True\<rparr>"
  by (simp add: ToSQLArgs_def NullInt32FromUint16_def)

lemma boundResponseSize_bounded: "DefaultQueryFilterLimit \<le> maxLimit \<Longrightarrow> boundResponseSize maxLimit sz \<le> maxLimit"
  using Clamp_le_max by (auto simp: boundResponseSize_def split: option.splits)

lemma boundResponseSize_normalized:
  assumes "sz \<noteq> Some 0" and "DefaultQueryFilterLimit \<le> maxLimit"
  shows "boundResponseSize maxLimit (Some (normalized_size maxLimit sz)) = boundResponseSize maxLimit sz"
  using Clamp_id [OF normalized_size_bounds(2) [OF assms(2), of sz]] assms(1)
  by (cases sz) (simp_all add: boundResponseSize_def, simp_all add: normalized_size_def)

text \<open>
  C30. Under a ceiling that admits the default page, no page is larger than the ceiling, whichever way its size
  arrives. A size given as a number or as the text of one is the smaller of it and the ceiling and never wraps.
  Normalizing a filter gives a page of at least one row and at most the ceiling, and normalizing it again changes
  and reports nothing. The limit bound to a statement is always present, not negative and at most the ceiling, and
  is the same before and after normalizing unless zero rows were asked for.
\<close>

theorem page_size_bounded:
  assumes "DefaultQueryFilterLimit \<le> maxLimit"
  shows "FromParams parseTime maxLimit [(QueryKeyLimit, [decimal (unat n)])] qf = ([], SetMaxResponseSize maxLimit n qf) \<and>
    map_option unat (qf_MaxResponseSize (SetMaxResponseSize maxLimit n qf)) = Some (min (unat n) (unat maxLimit)) \<and>
    (\<exists>qn m. snd (Normalize maxLimit (Some qf)) = Some qn \<and> qf_MaxResponseSize qn = Some m \<and> 0 < m \<and> m \<le> maxLimit \<and>
       Normalize maxLimit (Some qn) = ([], Some qn)) \<and>
    nv_Valid (sa_ResultLimit (ToSQLArgs maxLimit (Some qf))) \<and>
    sint (nv_value (sa_ResultLimit (ToSQLArgs maxLimit (Some qf)))) \<in> {0..uint maxLimit} \<and>
    (qf_MaxResponseSize qf \<noteq> Some 0 \<longrightarrow>
       sa_ResultLimit (ToSQLArgs maxLimit (snd (Normalize maxLimit (Some qf)))) = sa_ResultLimit (ToSQLArgs maxLimit (Some qf)))"
proof -
  let ?m = "normalized_size maxLimit (qf_MaxResponseSize qf)"
  let ?qn = "qf\<lparr>qf_MaxResponseSize := Some ?m, qf_SortBy := Some (normalized_sort (qf_SortBy qf))\<rparr>"
  note b = normalized_size_bounds [OF assms, of "qf_MaxResponseSize qf"]
  have "fst (Normalize maxLimit (Some ?qn)) = []"
    by (simp add: Normalize_def Let_def normalized_sort_def)
  moreover have "snd (Normalize maxLimit (Some ?qn)) = Some ?qn"
    by (simp add: Normalize_result b(3))
  ultimately have idem: "Normalize maxLimit (Some ?qn) = ([], Some ?qn)" by (simp add: prod_eq_iff)
  have "sint (nv_value (sa_ResultLimit (ToSQLArgs maxLimit (Some qf)))) \<in> {0..uint maxLimit}"
    using boundResponseSize_bounded [OF assms] by (simp add: result_limit sint_u16 word_le_def)
  with b idem show ?thesis
    by (auto simp: FromParams_limit SetMaxResponseSize_def Normalize_result result_limit boundResponseSize_normalized assms)
qed

theorem page_size_bounded_witness:
  "FromParams ParseInt MaxQueryFilterLimit [(QueryKeyLimit, [decimal (unat (70000 :: u64))])] sample_filter
     = ([], SetMaxResponseSize MaxQueryFilterLimit 70000 sample_filter) \<and>
   qf_MaxResponseSize (SetMaxResponseSize MaxQueryFilterLimit 70000 sample_filter) = Some 250"
  using page_size_bounded [of MaxQueryFilterLimit ParseInt 70000 sample_filter]
  by (auto simp: MaxQueryFilterLimit_def DefaultQueryFilterLimit_def SetMaxResponseSize_def
    intro: word_unat_eq_iff [THEN iffD2])

text \<open>
  A ceiling below the default page is not applied to an absent size: normalizing such a filter gives the default,
  which is over the ceiling, normalizing it again gives the ceiling, and the statement is bound to the default.
\<close>

lemma default_page_over_ceiling:
  assumes "maxLimit < DefaultQueryFilterLimit" and "qf_MaxResponseSize qf = None" and "0 < maxLimit"
  shows "\<exists>q1 q2. snd (Normalize maxLimit (Some qf)) = Some q1 \<and> qf_MaxResponseSize q1 = Some DefaultQueryFilterLimit \<and>
           snd (Normalize maxLimit (Some q1)) = Some q2 \<and> qf_MaxResponseSize q2 = Some maxLimit \<and>
           nv_value (sa_ResultLimit (ToSQLArgs maxLimit (Some qf))) = ucast DefaultQueryFilterLimit"
proof -
  have "ClampResponseSize maxLimit (ucast DefaultQueryFilterLimit) = maxLimit"
    using assms(1) by (intro word_unat_eq_iff [THEN iffD2]) (simp add: word_less_nat_alt min_def)
  then show ?thesis
    using assms(2) by (simp add: Normalize_result normalized_size_def result_limit boundResponseSize_def)
qed

text \<open>
  The direction \<^verbatim>\<open>SortsDescending\<close> reads is the one normalizing leaves, but on a filter that was not normalized it
  is wider: a direction spelled with a long s is reported as unknown and listed in ascending order by the one, and
  sorts in descending order by the other.
\<close>

lemma SortsDescending_normalized:
  "SortsDescending (snd (Normalize maxLimit (Some qf))) \<longleftrightarrow>
     (\<exists>raw \<in> set_option (qf_SortBy qf). ToLower raw = sortDescendingString)"
proof -
  have "\<not> EqualFold sortAscendingString sortDescendingString" "EqualFold sortDescendingString sortDescendingString"
    by (simp_all add: sort_strings lower_def folds_def)
  then show ?thesis by (simp add: SortsDescending_def Normalize_result normalized_sort_def)
qed

lemma SortsDescending_long_s:
  assumes "qf_SortBy qf = Some (''de'' @ map char_of [0xC5, 0xBF :: nat] @ ''c'')"
  shows "SortsDescending (Some qf) \<and> fst (Normalize maxLimit (Some qf)) \<noteq> [] \<and>
    \<not> SortsDescending (snd (Normalize maxLimit (Some qf)))"
proof -
  have "EqualFold (''de'' @ map char_of [0xC5, 0xBF :: nat] @ ''c'') sortDescendingString"
    by (simp add: sort_strings lower_def folds_def)
  moreover have "ToLower (''de'' @ map char_of [0xC5, 0xBF :: nat] @ ''c'') \<notin> {sortAscendingString, sortDescendingString}"
    by (simp add: sort_strings ToLower_def lower_def)
  ultimately show ?thesis
    using assms by (simp add: SortsDescending_normalized) (simp add: SortsDescending_def Normalize_def Let_def)
qed

subsection \<open>The page\<close>

lemma newQueryFilteredResult_page:
  "newQueryFilteredResult data fc tc known ident f =
     \<lparr>qr_Data = data,
      qr_Pagination =
        \<lparr>pg_AppliedQueryFilter = f, pg_Cursor = (if data = [] then [] else ident (last data)),
         pg_PreviousCursor = (case f of None \<Rightarrow> [] | Some qf \<Rightarrow> (case qf_Cursor qf of None \<Rightarrow> [] | Some c \<Rightarrow> c)),
         pg_FilteredCount = fc, pg_TotalCount = tc,
         pg_MaxResponseSize =
           (case f of None \<Rightarrow> DefaultQueryFilterLimit | Some qf \<Rightarrow> (case qf_MaxResponseSize qf of None \<Rightarrow> 0 | Some n \<Rightarrow> n)),
         pg_CountsKnown = known\<rparr>\<rparr>"
  by (simp add: newQueryFilteredResult_def ToPagination_def Let_def DefaultQueryFilter_def zero_filter_def last_conv_nth
    split: option.split)

lemma countFromRow_nonneg: "uint (countFromRow c) = max 0 (sint c)"
proof (cases "sint c < 0")
  case False
  have "uint c = take_bit 64 (sint c)" by (simp add: uint_sint)
  also have "\<dots> = sint c" using False sint_lt [of c] by (simp add: take_bit_int_eq_self)
  finally show ?thesis using False by (simp add: countFromRow_def)
qed (simp add: countFromRow_def)

text \<open>
  What a filtered read answers with. The page holds the converted rows in order. Its cursor is the identifier
  of the last of them, and empty when there are none; the cursor that reached the page and the filter it answers
  are echoed. Its counts are known exactly when the statement carries counts and a
  row came back to carry them: then they are those of the first row, with a negative number read as zero, and
  otherwise they read as zero and unknown.
\<close>

theorem Drain_reports_page:
  "qr_Data (Drain rows convert counts ident f) = map convert rows \<and>
   (let page = qr_Pagination (Drain rows convert counts ident f)
    in pg_Cursor page = (if rows = [] then [] else ident (convert (last rows))) \<and>
       pg_AppliedQueryFilter page = f \<and>
       pg_PreviousCursor page = (case f of None \<Rightarrow> [] | Some qf \<Rightarrow> (case qf_Cursor qf of None \<Rightarrow> [] | Some c \<Rightarrow> c)) \<and>
       (case Counts (Some page) of (filtered, tot, known) \<Rightarrow>
          (known, uint filtered, uint tot) =
            (case counts of
               None \<Rightarrow> (False, 0, 0)
             | Some count \<Rightarrow>
                 if rows = [] then (False, 0, 0)
                 else (True, max 0 (sint (fst (count (hd rows)))), max 0 (sint (snd (count (hd rows))))))))"
proof (cases "counts = None \<or> rows = []")
  case True
  then show ?thesis
    by (cases counts) (auto simp: Drain_def NewQueryFilteredResultWithoutCounts_def newQueryFilteredResult_page
      foldl_append_map Counts_def last_map Let_def)
next
  case False
  then obtain count where "counts = Some count" "rows \<noteq> []" by auto
  then show ?thesis
    by (cases "count (hd rows)") (simp add: Drain_def NewQueryFilteredResult_def newQueryFilteredResult_page
      foldl_append_map Counts_def last_map Let_def hd_conv_nth [symmetric] countFromRow_nonneg)
qed

end
