(* ===== verification/FilteringGrpc.thy ===== *)
theory FilteringGrpc
  imports Filtering
begin

text \<open>
  The package \<^verbatim>\<open>filtering/grpc\<close>: conversions between the filter and page of \<^verbatim>\<open>filtering\<close> and their protobuf
  messages, and the decision on archived rows (\<^verbatim>\<open>converters.go\<close>).

  The timestamp message belongs to the protobuf library: its validity check, its reading, its text and its
  construction are the arguments gathered in \<open>timestamp_api\<close>.
\<close>

record 'ts timestamp_api =
  ts_CheckValid :: "'ts \<Rightarrow> bool"
  ts_AsTime :: "'ts \<Rightarrow> gotime"
  ts_String :: "'ts \<Rightarrow> string"
  ts_New :: "gotime \<Rightarrow> 'ts"

record 'ts pb_QueryFilter =
  pb_SortBy :: "string option"
  pb_CreatedAfter :: "'ts option"
  pb_CreatedBefore :: "'ts option"
  pb_UpdatedAfter :: "'ts option"
  pb_UpdatedBefore :: "'ts option"
  pb_MaxResponseSize :: "u32 option"
  pb_IncludeArchived :: "bool option"
  pb_Cursor :: "string option"

record 'ts pb_Pagination =
  pp_AppliedQueryFilter :: "'ts pb_QueryFilter option"
  pp_Cursor :: string
  pp_PreviousCursor :: string
  pp_FilteredCount :: u64
  pp_TotalCount :: u64
  pp_MaxResponseSize :: u32
  pp_CountsKnown :: bool

definition fieldCreatedAfter :: string where "fieldCreatedAfter = ''created_after''"
definition fieldCreatedBefore :: string where "fieldCreatedBefore = ''created_before''"
definition fieldUpdatedAfter :: string where "fieldUpdatedAfter = ''updated_after''"
definition fieldUpdatedBefore :: string where "fieldUpdatedBefore = ''updated_before''"

record ArchiveDecision =
  ad_allowed :: bool

definition ArchivedAllowed :: ArchiveDecision where
  "ArchivedAllowed = \<lparr>ad_allowed = True\<rparr>"

definition ArchivedDenied :: ArchiveDecision where
  "ArchivedDenied = \<lparr>ad_allowed = False\<rparr>"

definition ArchivedIf :: "bool \<Rightarrow> ArchiveDecision" where
  "ArchivedIf allowed = \<lparr>ad_allowed = allowed\<rparr>"

definition readTime :: "'ts timestamp_api \<Rightarrow> string \<Rightarrow> 'ts option \<Rightarrow> filter_error list \<times> gotime option" where
  "readTime api field ts =
     (case ts of
        None \<Rightarrow> ([], None)
      | Some t \<Rightarrow>
          if \<not> ts_CheckValid api t then ([ErrUnrecognizedInputValue field (ts_String api t)], None)
          else ([], Some (ts_AsTime api t)))"

definition fromProto :: "'ts timestamp_api \<Rightarrow> u16 \<Rightarrow> 'ts pb_QueryFilter \<Rightarrow> filter_error list \<times> QueryFilter" where
  "fromProto api maxLimit msg =
     (let (e1, ca) = readTime api fieldCreatedAfter (pb_CreatedAfter msg);
          (e2, cb) = readTime api fieldCreatedBefore (pb_CreatedBefore msg);
          (e3, ua) = readTime api fieldUpdatedAfter (pb_UpdatedAfter msg);
          (e4, ub) = readTime api fieldUpdatedBefore (pb_UpdatedBefore msg);
          qf = \<lparr>qf_SortBy = pb_SortBy msg, qf_CreatedAfter = ca, qf_CreatedBefore = cb, qf_UpdatedAfter = ua,
                qf_UpdatedBefore = ub, qf_MaxResponseSize = None, qf_IncludeArchived = pb_IncludeArchived msg,
                qf_Cursor = pb_Cursor msg\<rparr>
      in (e1 @ e2 @ e3 @ e4,
          (case pb_MaxResponseSize msg of
             None \<Rightarrow> qf
           | Some n \<Rightarrow> SetMaxResponseSize maxLimit (ucast n) qf)))"

definition QueryFilterFromProto :: "'ts timestamp_api \<Rightarrow> u16 \<Rightarrow> 'ts pb_QueryFilter option \<Rightarrow> ArchiveDecision \<Rightarrow>
    QueryFilter option \<times> bool \<times> filter_error list" where
  "QueryFilterFromProto api maxLimit m archived =
     (case m of
        None \<Rightarrow> (Some DefaultQueryFilter, False, [])
      | Some msg \<Rightarrow>
          (case fromProto api maxLimit msg of (err, qf) \<Rightarrow>
             let (cleared, qf') =
                   (case qf_IncludeArchived qf of
                      None \<Rightarrow> (False, qf)
                    | Some b \<Rightarrow> if \<not> ad_allowed archived then (b, qf\<lparr>qf_IncludeArchived := None\<rparr>) else (False, qf));
                 (err', qf'') = Normalize maxLimit (Some qf')
             in (qf'', cleared, err @ err')))"

definition FromProto :: "'ts timestamp_api \<Rightarrow> u16 \<Rightarrow> 'ts pb_QueryFilter option \<Rightarrow> QueryFilter option \<times> filter_error list" where
  "FromProto api maxLimit m = (case QueryFilterFromProto api maxLimit m ArchivedAllowed of (qf, _, err) \<Rightarrow> (qf, err))"

definition ToProto :: "'ts timestamp_api \<Rightarrow> QueryFilter option \<Rightarrow> 'ts pb_QueryFilter option" where
  "ToProto api f =
     (case f of
        None \<Rightarrow> None
      | Some qf \<Rightarrow>
          Some \<lparr>pb_SortBy = qf_SortBy qf,
                pb_CreatedAfter = map_option (ts_New api) (qf_CreatedAfter qf),
                pb_CreatedBefore = map_option (ts_New api) (qf_CreatedBefore qf),
                pb_UpdatedAfter = map_option (ts_New api) (qf_UpdatedAfter qf),
                pb_UpdatedBefore = map_option (ts_New api) (qf_UpdatedBefore qf),
                pb_MaxResponseSize = map_option ucast (qf_MaxResponseSize qf),
                pb_IncludeArchived = qf_IncludeArchived qf,
                pb_Cursor = qf_Cursor qf\<rparr>)"

definition PaginationFromProto :: "'ts timestamp_api \<Rightarrow> u16 \<Rightarrow> 'ts pb_Pagination option \<Rightarrow> Pagination \<times> filter_error list" where
  "PaginationFromProto api maxLimit m =
     (case m of
        None \<Rightarrow>
          (\<lparr>pg_AppliedQueryFilter = None, pg_Cursor = [], pg_PreviousCursor = [], pg_FilteredCount = 0,
            pg_TotalCount = 0, pg_MaxResponseSize = 0, pg_CountsKnown = False\<rparr>, [])
      | Some msg \<Rightarrow>
          (let out = \<lparr>pg_AppliedQueryFilter = None, pg_Cursor = pp_Cursor msg, pg_PreviousCursor = pp_PreviousCursor msg,
                      pg_FilteredCount = pp_FilteredCount msg, pg_TotalCount = pp_TotalCount msg,
                      pg_MaxResponseSize = ClampResponseSize maxLimit (ucast (pp_MaxResponseSize msg)),
                      pg_CountsKnown = pp_CountsKnown msg\<rparr>
           in case pp_AppliedQueryFilter msg of
                None \<Rightarrow> (out, [])
              | Some applied \<Rightarrow>
                  (case fromProto api maxLimit applied of (err, qf) \<Rightarrow> (out\<lparr>pg_AppliedQueryFilter := Some qf\<rparr>, err))))"

definition PaginationToProto :: "'ts timestamp_api \<Rightarrow> Pagination \<Rightarrow> 'ts pb_Pagination" where
  "PaginationToProto api p =
     \<lparr>pp_AppliedQueryFilter = ToProto api (pg_AppliedQueryFilter p), pp_Cursor = pg_Cursor p,
      pp_PreviousCursor = pg_PreviousCursor p, pp_FilteredCount = pg_FilteredCount p, pp_TotalCount = pg_TotalCount p,
      pp_MaxResponseSize = ucast (pg_MaxResponseSize p), pp_CountsKnown = pg_CountsKnown p\<rparr>"

subsection \<open>Round trips\<close>

text \<open>What the protobuf library documents of a timestamp built from a time in its range.\<close>

definition timestamp_ok :: "'ts timestamp_api \<Rightarrow> gotime \<Rightarrow> bool" where
  "timestamp_ok api t \<longleftrightarrow> ts_CheckValid api (ts_New api t) \<and> ts_AsTime api (ts_New api t) = t"

lemma readTime_New: "\<forall>x \<in> set_option t. timestamp_ok api x \<Longrightarrow> readTime api field (map_option (ts_New api) t) = ([], t)"
  by (cases t) (auto simp: readTime_def timestamp_ok_def)

lemma unat_ucast_u32 [simp]: "unat (ucast (n :: u32) :: u64) = unat n"
proof -
  have "unat n < 2 ^ LENGTH(32)" by (rule unsigned_less)
  then show ?thesis by (simp add: unsigned_ucast_eq take_bit_nat_eq_self)
qed

lemma ucast_via_32 [simp]: "(ucast (ucast (n :: u16) :: u32) :: u64) = ucast n"
  by (rule word_unat_eq_iff [THEN iffD2]) (simp only: unat_ucast_u32 unat_ucast_u16)

text \<open>What crossing the wire does to a filter: its page size is clamped and nothing else changes.\<close>

definition clamped :: "u16 \<Rightarrow> QueryFilter \<Rightarrow> QueryFilter" where
  "clamped maxLimit qf = qf\<lparr>qf_MaxResponseSize := map_option (\<lambda>n. ClampResponseSize maxLimit (ucast n)) (qf_MaxResponseSize qf)\<rparr>"

lemma fromProto_ToProto:
  assumes "\<forall>t \<in> filter_times qf. timestamp_ok api t"
  shows "fromProto api maxLimit (the (ToProto api (Some qf))) = ([], clamped maxLimit qf)"
proof -
  have "readTime api f (map_option (ts_New api) (qf_CreatedAfter qf)) = ([], qf_CreatedAfter qf)"
    "readTime api f (map_option (ts_New api) (qf_CreatedBefore qf)) = ([], qf_CreatedBefore qf)"
    "readTime api f (map_option (ts_New api) (qf_UpdatedAfter qf)) = ([], qf_UpdatedAfter qf)"
    "readTime api f (map_option (ts_New api) (qf_UpdatedBefore qf)) = ([], qf_UpdatedBefore qf)" for f
    using assms by (auto intro!: readTime_New simp: filter_times_def simp del: option.map)
  then show ?thesis
    by (cases "qf_MaxResponseSize qf") (simp_all add: fromProto_def ToProto_def clamped_def SetMaxResponseSize_def Let_def)
qed

lemma clamped_id: "\<forall>n \<in> set_option (qf_MaxResponseSize qf). n \<le> maxLimit \<Longrightarrow> clamped maxLimit qf = qf"
  by (cases "qf_MaxResponseSize qf") (auto simp: clamped_def Clamp_id)

text \<open>
  A filter and a page cross the wire. A filter whose times are in the range of a timestamp comes back as it
  was but for a page size above the ceiling, which is clamped; a page comes back whole with its applied filter, its
  cursors and its counts, known or not. The absence of a filter stays absence.
\<close>

theorem filter_crosses_the_wire:
  assumes "\<forall>qf \<in> set_option (pg_AppliedQueryFilter p). \<forall>t \<in> filter_times qf. timestamp_ok api t"
  shows "PaginationFromProto api maxLimit (Some (PaginationToProto api p)) =
           (p\<lparr>pg_AppliedQueryFilter := map_option (clamped maxLimit) (pg_AppliedQueryFilter p),
              pg_MaxResponseSize := ClampResponseSize maxLimit (ucast (pg_MaxResponseSize p))\<rparr>, []) \<and>
         FromProto api maxLimit (ToProto api (pg_AppliedQueryFilter p)) =
           (case pg_AppliedQueryFilter p of
              None \<Rightarrow> (Some DefaultQueryFilter, [])
            | Some qf \<Rightarrow> (case Normalize maxLimit (Some (clamped maxLimit qf)) of (err, qf') \<Rightarrow> (qf', err)))"
proof (cases "pg_AppliedQueryFilter p")
  case None
  then show ?thesis
    by (cases p) (simp add: PaginationFromProto_def PaginationToProto_def ToProto_def FromProto_def
      QueryFilterFromProto_def)
next
  case (Some qf)
  then have rt: "fromProto api maxLimit (the (ToProto api (Some qf))) = ([], clamped maxLimit qf)"
    using assms by (intro fromProto_ToProto) simp
  obtain msg where msg: "ToProto api (Some qf) = Some msg" by (simp add: ToProto_def)
  with rt Some show ?thesis
    by (cases p; cases "qf_IncludeArchived (clamped maxLimit qf)")
      (simp_all add: PaginationFromProto_def PaginationToProto_def FromProto_def QueryFilterFromProto_def
        ArchivedAllowed_def Let_def split: prod.split)
qed

definition seconds_api :: "int timestamp_api" where
  "seconds_api = \<lparr>ts_CheckValid = (\<lambda>s. 0 \<le> s), ts_AsTime = (\<lambda>s. s), ts_String = FormatInt, ts_New = (\<lambda>t. t)\<rparr>"

definition sample_page :: Pagination where
  "sample_page = \<lparr>pg_AppliedQueryFilter = Some sample_filter, pg_Cursor = ''r2'', pg_PreviousCursor = ''r1'',
     pg_FilteredCount = 2, pg_TotalCount = 5, pg_MaxResponseSize = 20, pg_CountsKnown = True\<rparr>"

theorem filter_crosses_the_wire_witness:
  "PaginationFromProto seconds_api MaxQueryFilterLimit (Some (PaginationToProto seconds_api sample_page)) = (sample_page, [])"
proof -
  have ok: "\<forall>qf \<in> set_option (pg_AppliedQueryFilter sample_page). \<forall>t \<in> filter_times qf. timestamp_ok seconds_api t"
    by (simp add: sample_page_def sample_filter_def zero_filter_def filter_times_def timestamp_ok_def seconds_api_def)
  have "clamped MaxQueryFilterLimit sample_filter = sample_filter"
    by (rule clamped_id) (simp add: sample_filter_def zero_filter_def MaxQueryFilterLimit_def)
  moreover have "ClampResponseSize MaxQueryFilterLimit (ucast (20 :: u16)) = 20"
    by (rule Clamp_id) (simp add: MaxQueryFilterLimit_def)
  ultimately show ?thesis
    using filter_crosses_the_wire [OF ok, of MaxQueryFilterLimit] by (simp add: sample_page_def)
qed

subsection \<open>Archived rows\<close>

lemma Normalize_archived:
  "\<exists>qn. snd (Normalize maxLimit (Some qf)) = Some qn \<and> qf_IncludeArchived qn = qf_IncludeArchived qf"
  by (simp add: Normalize_result)

lemma fromProto_archived: "qf_IncludeArchived (snd (fromProto api maxLimit msg)) = pb_IncludeArchived msg"
  by (simp add: fromProto_def SetMaxResponseSize_def Let_def split: prod.split option.split)

lemma Normalize_drop_archived:
  "Normalize maxLimit (Some (qf\<lparr>qf_IncludeArchived := b\<rparr>)) =
     (case Normalize maxLimit (Some qf) of (e, q) \<Rightarrow> (e, map_option (\<lambda>f. f\<lparr>qf_IncludeArchived := b\<rparr>) q))"
  by (cases "qf_SortBy qf") (simp_all add: Normalize_def Let_def)

text \<open>
  C31. The decision on archived rows holds for every message. Decoding under \<^verbatim>\<open>ArchivedDenied\<close> never yields a filter
  that mentions archived rows, and otherwise yields the filter and the errors that \<^verbatim>\<open>ArchivedAllowed\<close> yields, which
  carries the field as it was sent; a clearing is reported exactly when the decision denied a request for archived
  rows. Whatever the message and the decision, the page size of the filter is at most the larger of the ceiling and
  the default page, so a size of 32 bits never wraps on its way to 16.
\<close>

theorem archive_decision_holds:
  "\<exists>qd qa cleared err.
     QueryFilterFromProto api maxLimit (Some msg) ArchivedDenied = (Some qd, cleared, err) \<and>
     QueryFilterFromProto api maxLimit (Some msg) ArchivedAllowed = (Some qa, False, err) \<and>
     qf_IncludeArchived qd = None \<and> qd = qa\<lparr>qf_IncludeArchived := None\<rparr> \<and>
     qf_IncludeArchived qa = pb_IncludeArchived msg \<and>
     (cleared \<longleftrightarrow> pb_IncludeArchived msg = Some True) \<and>
     map_option unat (qf_MaxResponseSize qa) =
       Some (case pb_MaxResponseSize msg of
               None \<Rightarrow> unat DefaultQueryFilterLimit
             | Some n \<Rightarrow> if min (unat n) (unat maxLimit) = 0 then unat DefaultQueryFilterLimit
                         else min (unat n) (unat maxLimit))"
proof -
  obtain err qf where fp: "fromProto api maxLimit msg = (err, qf)" by fastforce
  obtain err' qn where n: "Normalize maxLimit (Some qf) = (err', Some qn)"
    using Normalize_archived [of maxLimit qf] by (metis prod.collapse)
  have arch: "qf_IncludeArchived qf = pb_IncludeArchived msg" using fromProto_archived [of api maxLimit msg] fp by simp
  have archn: "qf_IncludeArchived qn = pb_IncludeArchived msg" using Normalize_archived [of maxLimit qf] n arch by simp
  have size: "qf_MaxResponseSize qf = map_option (\<lambda>n. ClampResponseSize maxLimit (ucast n)) (pb_MaxResponseSize msg)"
    using arg_cong [OF fp, of "\<lambda>r. qf_MaxResponseSize (snd r)"]
    by (cases "pb_MaxResponseSize msg") (auto simp: fromProto_def SetMaxResponseSize_def Let_def split: prod.splits)
  have clamp0: "ClampResponseSize maxLimit m = 0 \<longleftrightarrow> min (unat m) (unat maxLimit) = 0" for m
    by (metis unat_ClampResponseSize unat_eq_zero)
  have sizen: "qf_MaxResponseSize qn = Some (normalized_size maxLimit (qf_MaxResponseSize qf))"
    using Normalize_result [of maxLimit qf] n by simp
  show ?thesis
    using archn size sizen
    by (cases "pb_IncludeArchived msg"; cases "pb_MaxResponseSize msg")
      (auto simp: QueryFilterFromProto_def fp n arch ArchivedDenied_def ArchivedAllowed_def Normalize_drop_archived
        normalized_size_def clamp0 min_def)
qed

end
