(* ===== verification/RateLimiting.thy ===== *)
theory RateLimiting
  imports Prelude
begin

text \<open>
  The package \<^verbatim>\<open>ratelimiting\<close>: the in-memory limiter with a token bucket per key (\<^verbatim>\<open>ratelimiting.go\<close>), its idle
  sweep and its bound (\<^verbatim>\<open>eviction.go\<close>), the retry hint (\<^verbatim>\<open>retry.go\<close>) and its options (\<^verbatim>\<open>options.go\<close>).

  The bucket is \<^verbatim>\<open>golang.org/x/time/rate\<close>'s: its operations are the arguments gathered in \<open>bucket_api\<close>. The
  arithmetic on floating point numbers is an argument as well, in \<open>float_api\<close>. Every method is one step on the
  state; the order of the association list is the order in which \<^verbatim>\<open>sync.Map\<close> is scanned. Both the limiter's clock
  and the bucket's own are the argument \<open>now\<close>.
\<close>

record 'f float_api =
  fl_le0 :: "'f \<Rightarrow> bool"
  fl_IsNaN :: "'f \<Rightarrow> bool"
  fl_IsInf :: "'f \<Rightarrow> bool"
  fl_one :: 'f
  fl_one_minus :: "'f \<Rightarrow> 'f"
  fl_window :: "int \<Rightarrow> 'f \<Rightarrow> duration"
  fl_wait :: "'f \<Rightarrow> 'f \<Rightarrow> duration"

record ('b, 'f) bucket_api =
  bk_New :: "'f \<Rightarrow> int \<Rightarrow> 'b"
  bk_Allow :: "gotime \<Rightarrow> 'b \<Rightarrow> bool \<times> 'b"
  bk_Burst :: "'b \<Rightarrow> int"
  bk_Limit :: "'b \<Rightarrow> 'f"
  bk_Tokens :: "gotime \<Rightarrow> 'b \<Rightarrow> 'f"

subsection \<open>eviction.go and options.go\<close>

definition DefaultMaxLimiters :: int where
  "DefaultMaxLimiters = 100000"

definition minSweepInterval :: duration where
  "minSweepInterval = 100 * Millisecond"

definition capacityHeadroomDivisor :: int where
  "capacityHeadroomDivisor = 16"

record rl_options =
  ro_maxLimiters :: int

definition newOptions_rl :: "(rl_options \<Rightarrow> rl_options) option list \<Rightarrow> rl_options" where
  "newOptions_rl opts =
     foldl (\<lambda>cfg opt. case opt of None \<Rightarrow> cfg | Some f \<Rightarrow> f cfg) \<lparr>ro_maxLimiters = DefaultMaxLimiters\<rparr> opts"

definition WithMaxLimiters :: "int \<Rightarrow> rl_options \<Rightarrow> rl_options" where
  "WithMaxLimiters n cfg = cfg\<lparr>ro_maxLimiters := n\<rparr>"

record 'b limiterEntry =
  en_limiter :: 'b
  en_lastSeen :: gotime

definition touch :: "gotime \<Rightarrow> 'b limiterEntry \<Rightarrow> 'b limiterEntry" where
  "touch now e = e\<lparr>en_lastSeen := now\<rparr>"

definition newLimiterEntry :: "'b \<Rightarrow> gotime \<Rightarrow> 'b limiterEntry" where
  "newLimiterEntry limiter now = touch now \<lparr>en_limiter = limiter, en_lastSeen = 0\<rparr>"

definition idleFor :: "gotime \<Rightarrow> 'b limiterEntry \<Rightarrow> duration" where
  "idleFor now e = now - en_lastSeen e"

definition limiterWindow :: "'f float_api \<Rightarrow> 'f \<Rightarrow> int \<Rightarrow> duration" where
  "limiterWindow fl requestsPerSec burstSize =
     (let burst = max burstSize 1;
          perSec = (if fl_le0 fl requestsPerSec \<or> fl_IsNaN fl requestsPerSec then fl_one fl else requestsPerSec)
      in if fl_IsInf fl perSec then 1 else max (fl_window fl burst perSec) 1)"

record ('b, 'f) InMemoryRateLimiter =
  rl_allowed :: nat
  rl_rejected :: nat
  rl_idleEvicted :: int
  rl_capacityEvicted :: int
  rl_limitersGauge :: int
  rl_stopped :: bool
  rl_limiters :: "(string, 'b limiterEntry) gomap"
  rl_tracked :: int
  rl_requestsPerSec :: 'f
  rl_burstSize :: int
  rl_maxLimiters :: int
  rl_idleTTL :: duration
  rl_sweepInterval :: duration

definition NewInMemoryRateLimiter :: "'f float_api \<Rightarrow> 'f \<Rightarrow> int \<Rightarrow> (rl_options \<Rightarrow> rl_options) option list \<Rightarrow>
    ('b, 'f) InMemoryRateLimiter" where
  "NewInMemoryRateLimiter fl requestsPerSec burstSize opts =
     (let cfg = newOptions_rl opts; window = limiterWindow fl requestsPerSec burstSize
      in \<lparr>rl_allowed = 0, rl_rejected = 0, rl_idleEvicted = 0, rl_capacityEvicted = 0, rl_limitersGauge = 0,
          rl_stopped = False, rl_limiters = [], rl_tracked = 0,
          rl_requestsPerSec = requestsPerSec, rl_burstSize = burstSize, rl_maxLimiters = ro_maxLimiters cfg,
          rl_idleTTL = 2 * window, rl_sweepInterval = max window minSweepInterval\<rparr>)"

text \<open>\<^verbatim>\<open>sync.Map.CompareAndDelete\<close>, with the decrement of \<^verbatim>\<open>tracked\<close> and the local count that follow it.\<close>

definition compareAndDelete :: "string \<times> 'b limiterEntry \<Rightarrow> ('b, 'f) InMemoryRateLimiter \<times> int \<Rightarrow>
    ('b, 'f) InMemoryRateLimiter \<times> int" where
  "compareAndDelete ke s =
     (if mget (rl_limiters (fst s)) (fst ke) = Some (snd ke)
      then ((fst s)\<lparr>rl_limiters := mdel (fst ke) (rl_limiters (fst s)), rl_tracked := rl_tracked (fst s) - 1\<rparr>, snd s + 1)
      else s)"

definition sweep_rl :: "gotime \<Rightarrow> ('b, 'f) InMemoryRateLimiter \<Rightarrow> ('b, 'f) InMemoryRateLimiter" where
  "sweep_rl now r =
     (case foldl (\<lambda>s ke. if idleFor now (snd ke) < rl_idleTTL r then s else compareAndDelete ke s) (r, 0) (rl_limiters r) of
        (r1, evicted) \<Rightarrow>
          (let r2 = (if evicted > 0 then r1\<lparr>rl_idleEvicted := rl_idleEvicted r1 + evicted\<rparr> else r1)
           in r2\<lparr>rl_limitersGauge := rl_tracked r2\<rparr>))"

text \<open>One turn of the sweeper's loop: nothing happens once the limiter is stopped.\<close>

definition sweepEvery_rl :: "gotime \<Rightarrow> ('b, 'f) InMemoryRateLimiter \<Rightarrow> ('b, 'f) InMemoryRateLimiter" where
  "sweepEvery_rl now r = (if rl_stopped r then r else sweep_rl now r)"

definition overBound :: "('b, 'f) InMemoryRateLimiter \<Rightarrow> bool" where
  "overBound r \<longleftrightarrow> rl_maxLimiters r > 0 \<and> rl_tracked r > rl_maxLimiters r"

definition evictOverflow_rl :: "gotime \<Rightarrow> ('b, 'f) InMemoryRateLimiter \<Rightarrow> ('b, 'f) InMemoryRateLimiter" where
  "evictOverflow_rl now r =
     (if \<not> overBound r then r
      else
        (let r1 = sweep_rl now r;
             target = max (rl_maxLimiters r1 - rl_maxLimiters r1 div capacityHeadroomDivisor) 1;
             over = rl_tracked r1 - target
         in if over \<le> 0 then r1
            else
              (let candidates = sort_key (\<lambda>ke. en_lastSeen (snd ke)) (rl_limiters r1)
               in case foldl (\<lambda>s ke. if snd s \<ge> over then s else compareAndDelete ke s) (r1, 0) candidates of
                    (r2, evicted) \<Rightarrow>
                      (let r3 = (if evicted > 0 then r2\<lparr>rl_capacityEvicted := rl_capacityEvicted r2 + evicted\<rparr> else r2)
                       in r3\<lparr>rl_limitersGauge := rl_tracked r3\<rparr>))))"

subsection \<open>ratelimiting.go\<close>

definition lookup_rl :: "string \<Rightarrow> ('b, 'f) InMemoryRateLimiter \<Rightarrow> 'b limiterEntry option" where
  "lookup_rl key r = mget (rl_limiters r) key"

text \<open>
  The bucket handed out is a pointer: what is drawn from it later is seen through the map as long as its entry
  is there.
\<close>

definition getOrCreateLimiter :: "('b, 'f) bucket_api \<Rightarrow> gotime \<Rightarrow> string \<Rightarrow> ('b, 'f) InMemoryRateLimiter \<Rightarrow>
    'b \<times> ('b, 'f) InMemoryRateLimiter" where
  "getOrCreateLimiter api now key r =
     (case lookup_rl key r of
        Some e \<Rightarrow> (en_limiter e, r\<lparr>rl_limiters := mput key (touch now e) (rl_limiters r)\<rparr>)
      | None \<Rightarrow>
          (let fresh = newLimiterEntry (bk_New api (rl_requestsPerSec r) (rl_burstSize r)) now;
               r1 = r\<lparr>rl_limiters := mput key fresh (rl_limiters r), rl_tracked := rl_tracked r + 1\<rparr>
           in (en_limiter fresh, evictOverflow_rl now r1)))"

definition store_bucket :: "string \<Rightarrow> 'b \<Rightarrow> ('b, 'f) InMemoryRateLimiter \<Rightarrow> ('b, 'f) InMemoryRateLimiter" where
  "store_bucket key b r =
     (case lookup_rl key r of
        None \<Rightarrow> r
      | Some e \<Rightarrow> r\<lparr>rl_limiters := mput key (e\<lparr>en_limiter := b\<rparr>) (rl_limiters r)\<rparr>)"

definition Allow :: "('b, 'f) bucket_api \<Rightarrow> gotime \<Rightarrow> string \<Rightarrow> ('b, 'f) InMemoryRateLimiter \<Rightarrow>
    bool \<times> ('b, 'f) InMemoryRateLimiter" where
  "Allow api now key r =
     (case getOrCreateLimiter api now key r of (limiter, r1) \<Rightarrow>
        (case bk_Allow api now limiter of (allowed, limiter') \<Rightarrow>
           let r2 = store_bucket key limiter' r1
           in (allowed,
               if allowed then r2\<lparr>rl_allowed := rl_allowed r2 + 1\<rparr> else r2\<lparr>rl_rejected := rl_rejected r2 + 1\<rparr>)))"

definition RetryAfter :: "'f float_api \<Rightarrow> ('b, 'f) bucket_api \<Rightarrow> gotime \<Rightarrow> string \<Rightarrow> ('b, 'f) InMemoryRateLimiter \<Rightarrow>
    duration \<times> bool" where
  "RetryAfter fl api now key r =
     (case lookup_rl key r of
        None \<Rightarrow> (0, False)
      | Some e \<Rightarrow>
          (let limiter = en_limiter e; limit = bk_Limit api limiter
           in if bk_Burst api limiter < 1 then (0, False)
              else if fl_le0 fl limit then (0, False)
              else
                (let deficit = fl_one_minus fl (bk_Tokens api now limiter)
                 in if fl_le0 fl deficit \<or> fl_IsInf fl limit then (0, True)
                    else (fl_wait fl deficit limit, True))))"

definition Close_rl :: "('b, 'f) InMemoryRateLimiter \<Rightarrow> ('b, 'f) InMemoryRateLimiter" where
  "Close_rl r = r\<lparr>rl_stopped := True, rl_limiters := [], rl_tracked := 0\<rparr>"

subsection \<open>retry.go\<close>

text \<open>A limiter that implements \<^verbatim>\<open>RetryHinter\<close> is the function that answers for it.\<close>

definition RetryAfterFor :: "(string \<Rightarrow> duration \<times> bool) option \<Rightarrow> string \<Rightarrow> duration \<times> bool" where
  "RetryAfterFor limiter key =
     (case limiter of
        None \<Rightarrow> (0, False)
      | Some hint \<Rightarrow>
          (case hint key of (delay, known) \<Rightarrow> if \<not> known \<or> delay < 0 then (0, False) else (delay, True)))"

subsection \<open>Histories of a limiter\<close>

datatype rl_op = AllowAt gotime string | SweepAt gotime | CloseAt

fun rl_step :: "('b, 'f) bucket_api \<Rightarrow> rl_op \<Rightarrow> ('b, 'f) InMemoryRateLimiter \<Rightarrow> bool list \<times> ('b, 'f) InMemoryRateLimiter" where
  "rl_step api (AllowAt now key) r = (case Allow api now key r of (ok, r') \<Rightarrow> ([ok], r'))"
| "rl_step api (SweepAt now) r = ([], sweepEvery_rl now r)"
| "rl_step api CloseAt r = ([], Close_rl r)"

fun rl_run :: "('b, 'f) bucket_api \<Rightarrow> rl_op list \<Rightarrow> ('b, 'f) InMemoryRateLimiter \<Rightarrow> bool list \<times> ('b, 'f) InMemoryRateLimiter" where
  "rl_run api [] r = ([], r)"
| "rl_run api (x # xs) r =
     (case rl_step api x r of (d, r1) \<Rightarrow> case rl_run api xs r1 of (ds, r2) \<Rightarrow> (d @ ds, r2))"

subsection \<open>What a pass deletes\<close>

lemma mdel_filter: "mdel k m = filter (\<lambda>ke. fst ke \<noteq> k) m"
  unfolding mdel_def AList.delete_eq by (rule filter_cong) auto

lemma foldl_if_filter: "foldl (\<lambda>s x. if P x then s else f x s) s xs = foldl (\<lambda>s x. f x s) s (filter (\<lambda>x. \<not> P x) xs)"
  by (induction xs arbitrary: s) simp_all

definition without :: "('k \<times> 'v) list \<Rightarrow> ('k, 'v) gomap \<Rightarrow> ('k, 'v) gomap" where
  "without es m = filter (\<lambda>ke. fst ke \<notin> fst ` set es) m"

lemma without_simps [simp]:
  "without [] m = m" "without es (mdel k m) = filter (\<lambda>ke. fst ke \<noteq> k \<and> fst ke \<notin> fst ` set es) m"
  by (simp_all add: without_def mdel_filter conj_commute)

lemma others_kept:
  assumes "distinct (map fst (ke # es))" and "\<forall>x \<in> set (ke # es). mget m (fst x) = Some (snd x)"
  shows "\<forall>x \<in> set es. mget (mdel (fst ke) m) (fst x) = Some (snd x)"
  using assms by (auto simp: image_iff)

lemma foldl_compareAndDelete:
  assumes "distinct (map fst es)" and "\<forall>ke \<in> set es. mget (rl_limiters r) (fst ke) = Some (snd ke)"
  shows "foldl (\<lambda>s ke. compareAndDelete ke s) (r, n) es =
    (r\<lparr>rl_limiters := without es (rl_limiters r), rl_tracked := rl_tracked r - int (length es)\<rparr>, n + int (length es))"
  using assms
proof (induction es arbitrary: r n)
  case (Cons ke es)
  let ?r = "r\<lparr>rl_limiters := mdel (fst ke) (rl_limiters r), rl_tracked := rl_tracked r - 1\<rparr>"
  have "compareAndDelete ke (r, n) = (?r, n + 1)" using Cons.prems(2) by (simp add: compareAndDelete_def)
  moreover have "\<forall>ke' \<in> set es. mget (rl_limiters ?r) (fst ke') = Some (snd ke')"
    using others_kept [OF Cons.prems(1,2)] by simp
  moreover have "without es (mdel (fst ke) (rl_limiters r)) = without (ke # es) (rl_limiters r)"
    by (simp add: without_def mdel_filter conj_commute)
  ultimately show ?case using Cons.IH [of ?r "n + 1"] Cons.prems(1) by (simp del: without_simps)
qed simp

lemma foldl_stop:
  assumes "distinct (map fst es)" and "\<forall>ke \<in> set es. mget (rl_limiters r) (fst ke) = Some (snd ke)" and "n \<le> over"
  shows "foldl (\<lambda>s ke. if snd s \<ge> over then s else compareAndDelete ke s) (r, n) es =
    foldl (\<lambda>s ke. compareAndDelete ke s) (r, n) (take (nat (over - n)) es)"
  using assms
proof (induction es arbitrary: r n)
  case (Cons ke es)
  let ?r = "r\<lparr>rl_limiters := mdel (fst ke) (rl_limiters r), rl_tracked := rl_tracked r - 1\<rparr>"
  have stay: "foldl (\<lambda>s ke. if snd s \<ge> over then s else compareAndDelete ke s) (r, over) xs = (r, over)" for xs
    by (induction xs) simp_all
  show ?case
  proof (cases "n = over")
    case False
    with Cons.prems(3) have n: "nat (over - n) = Suc (nat (over - (n + 1)))" "n < over" by auto
    have c: "compareAndDelete ke (r, n) = (?r, n + 1)" using Cons.prems(2) by (simp add: compareAndDelete_def)
    have "\<forall>ke' \<in> set es. mget (rl_limiters ?r) (fst ke') = Some (snd ke')"
      using others_kept [OF Cons.prems(1,2)] by simp
    with Cons.IH [of ?r "n + 1"] Cons.prems(1) n c show ?thesis by simp
  qed (simp add: stay)
qed simp

lemma is_map_get: "is_map m \<Longrightarrow> \<forall>ke \<in> set m. mget m (fst ke) = Some (snd ke)"
  by (auto simp: mget_Some_in_set)

lemma is_map_filter [simp]: "is_map m \<Longrightarrow> is_map (filter P m)"
  by (simp add: is_map_def distinct_map_filter)

lemma without_own:
  assumes "is_map m" and "set es \<subseteq> set m"
  shows "without es m = filter (\<lambda>ke. ke \<notin> set es) m"
proof -
  have "fst ke \<in> fst ` set es \<longleftrightarrow> ke \<in> set es" if "ke \<in> set m" for ke
    using assms that by (auto simp: is_map_def) (metis eq_key_imp_eq_value prod.collapse subsetD)
  then show ?thesis unfolding without_def by (intro filter_cong) auto
qed

text \<open>A sweep keeps exactly the entries that have not been idle for the time to live.\<close>

definition live_entries :: "gotime \<Rightarrow> ('b, 'f) InMemoryRateLimiter \<Rightarrow> (string, 'b limiterEntry) gomap" where
  "live_entries now r = filter (\<lambda>ke. idleFor now (snd ke) < rl_idleTTL r) (rl_limiters r)"

lemma sweep_rl_result:
  assumes "is_map (rl_limiters r)"
    and "dead = int (length (rl_limiters r)) - int (length (live_entries now r))"
  shows "sweep_rl now r = r\<lparr>rl_limiters := live_entries now r, rl_tracked := rl_tracked r - dead,
    rl_idleEvicted := rl_idleEvicted r + dead, rl_limitersGauge := rl_tracked r - dead\<rparr>"
proof -
  let ?d = "filter (\<lambda>ke. \<not> idleFor now (snd ke) < rl_idleTTL r) (rl_limiters r)"
  have dm: "distinct (map fst ?d)" using assms(1) by (simp add: is_map_def distinct_map_filter)
  have dg: "\<forall>ke \<in> set ?d. mget (rl_limiters r) (fst ke) = Some (snd ke)" using is_map_get [OF assms(1)] by simp
  have l: "int (length ?d) = dead"
    using sum_length_filter_compl [of "\<lambda>ke. idleFor now (snd ke) < rl_idleTTL r" "rl_limiters r"]
    by (simp add: assms(2) live_entries_def)
  have w: "without ?d (rl_limiters r) = live_entries now r"
    using without_own [OF assms(1), of ?d] by (auto simp: live_entries_def intro: filter_cong)
  have "foldl (\<lambda>s ke. if idleFor now (snd ke) < rl_idleTTL r then s else compareAndDelete ke s) (r, 0) (rl_limiters r)
     = (r\<lparr>rl_limiters := live_entries now r, rl_tracked := rl_tracked r - dead\<rparr>, dead)"
    using foldl_compareAndDelete [OF dm dg, of 0] by (simp only: foldl_if_filter w l) simp
  moreover have "dead \<ge> 0" using l by simp
  ultimately show ?thesis by (simp add: sweep_rl_def Let_def)
qed

definition rl_ok :: "('b, 'f) InMemoryRateLimiter \<Rightarrow> bool" where
  "rl_ok r \<longleftrightarrow> is_map (rl_limiters r) \<and> rl_tracked r = int (length (rl_limiters r))"

lemma sweep_rl_ok [simp]: "rl_ok r \<Longrightarrow> rl_ok (sweep_rl now r)"
  by (simp add: rl_ok_def sweep_rl_result live_entries_def)

lemma sweep_rl_limiters: "rl_ok r \<Longrightarrow> rl_limiters (sweep_rl now r) = live_entries now r"
  by (simp add: rl_ok_def sweep_rl_result)

text \<open>The entries a capacity pass drops after the sweep: the first \<open>over\<close> of them from the oldest on.\<close>

definition oldest :: "nat \<Rightarrow> (string, 'b limiterEntry) gomap \<Rightarrow> (string \<times> 'b limiterEntry) list" where
  "oldest n m = take n (sort_key (\<lambda>ke. en_lastSeen (snd ke)) m)"

lemma capacity_pass:
  assumes "rl_ok r" and "0 \<le> over" and "over \<le> rl_tracked r"
  shows "foldl (\<lambda>s ke. if snd s \<ge> over then s else compareAndDelete ke s) (r, 0)
           (sort_key (\<lambda>ke. en_lastSeen (snd ke)) (rl_limiters r)) =
         (r\<lparr>rl_limiters := filter (\<lambda>ke. ke \<notin> set (oldest (nat over) (rl_limiters r))) (rl_limiters r),
            rl_tracked := rl_tracked r - over\<rparr>, over)"
proof -
  let ?c = "sort_key (\<lambda>ke. en_lastSeen (snd ke)) (rl_limiters r)"
  let ?o = "oldest (nat over) (rl_limiters r)"
  have m: "is_map (rl_limiters r)" and t: "rl_tracked r = int (length (rl_limiters r))"
    using assms(1) by (auto simp: rl_ok_def)
  have c: "distinct (map fst ?c)" "\<forall>ke \<in> set ?c. mget (rl_limiters r) (fst ke) = Some (snd ke)"
    using m is_map_get [OF m] by (auto simp: is_map_def distinct_map)
  have sub: "set ?o \<subseteq> set (rl_limiters r)" by (metis oldest_def set_sort set_take_subset)
  have o1: "distinct (map fst ?o)" using c(1) unfolding oldest_def by (metis distinct_take take_map)
  have o2: "\<forall>ke \<in> set ?o. mget (rl_limiters r) (fst ke) = Some (snd ke)" using sub is_map_get [OF m] by blast
  have l: "int (length ?o) = over" using assms(2,3) t by (simp add: oldest_def)
  from foldl_stop [OF c assms(2)] foldl_compareAndDelete [OF o1 o2, of 0] show ?thesis
    using without_own [OF m sub] l by (simp add: oldest_def [symmetric])
qed

lemma length_without_sub:
  assumes "is_map m" and "set es \<subseteq> set m" and "distinct es"
  shows "length (filter (\<lambda>ke. ke \<notin> set es) m) + length es = length m"
proof -
  have d: "distinct m" using assms(1) by (simp add: is_map_def distinct_map)
  have "set (filter (\<lambda>ke. ke \<notin> set es) m) \<union> set es = set m" "set (filter (\<lambda>ke. ke \<notin> set es) m) \<inter> set es = {}"
    using assms(2) by auto
  then show ?thesis
    using d assms(3) card_Un_disjoint [of "set (filter (\<lambda>ke. ke \<notin> set es) m)" "set es"]
    by (metis List.finite_set distinct_card distinct_filter)
qed

lemma oldest_props:
  assumes "is_map m"
  shows "set (oldest n m) \<subseteq> set m" "distinct (oldest n m)" "length (oldest n m) = min n (length m)"
    "x \<in> set (oldest n m) \<Longrightarrow> y \<in> set m - set (oldest n m) \<Longrightarrow> en_lastSeen (snd x) \<le> en_lastSeen (snd y)"
proof -
  let ?s = "sort_key (\<lambda>ke. en_lastSeen (snd ke)) m"
  show "set (oldest n m) \<subseteq> set m" by (metis oldest_def set_sort set_take_subset)
  have "distinct m" using assms by (simp add: is_map_def distinct_map)
  then show "distinct (oldest n m)" by (simp add: oldest_def)
  show "length (oldest n m) = min n (length m)" by (simp add: oldest_def min.commute)
  assume x: "x \<in> set (oldest n m)" and y: "y \<in> set m - set (oldest n m)"
  have "sorted (map (\<lambda>ke. en_lastSeen (snd ke)) (take n ?s @ drop n ?s))" by simp
  moreover have "set ?s = set (take n ?s) \<union> set (drop n ?s)"
    by (metis append_take_drop_id set_append)
  then have "y \<in> set (drop n ?s)" using y by (auto simp: oldest_def)
  ultimately show "en_lastSeen (snd x) \<le> en_lastSeen (snd y)"
    using x unfolding map_append sorted_append oldest_def by auto
qed

definition bound_target :: "int \<Rightarrow> int" where
  "bound_target n = max (n - n div capacityHeadroomDivisor) 1"

lemma bound_target_le: "0 < n \<Longrightarrow> 1 \<le> bound_target n \<and> bound_target n \<le> n"
  unfolding bound_target_def capacityHeadroomDivisor_def by linarith

definition kept_entries :: "gotime \<Rightarrow> ('b, 'f) InMemoryRateLimiter \<Rightarrow> (string, 'b limiterEntry) gomap" where
  "kept_entries now r =
     (let m = live_entries now r
      in filter (\<lambda>ke. ke \<notin> set (oldest (nat (int (length m) - bound_target (rl_maxLimiters r))) m)) m)"

lemma kept_entries_props:
  assumes "is_map (rl_limiters r)" and "0 < rl_maxLimiters r"
  shows "is_map (kept_entries now r)"
    "int (length (kept_entries now r)) = min (int (length (live_entries now r))) (bound_target (rl_maxLimiters r))"
    "x \<in> set (live_entries now r) - set (kept_entries now r) \<Longrightarrow> y \<in> set (kept_entries now r) \<Longrightarrow>
       en_lastSeen (snd x) \<le> en_lastSeen (snd y)"
proof -
  let ?m = "live_entries now r"
  let ?n = "nat (int (length ?m) - bound_target (rl_maxLimiters r))"
  have m: "is_map ?m" using assms(1) by (simp add: live_entries_def)
  show "is_map (kept_entries now r)" using m by (simp add: kept_entries_def Let_def)
  show "int (length (kept_entries now r)) = min (int (length ?m)) (bound_target (rl_maxLimiters r))"
    using length_without_sub [OF m oldest_props(1,2) [OF m], of ?n] oldest_props(3) [OF m, of ?n]
      bound_target_le [OF assms(2)]
    by (simp add: kept_entries_def Let_def) linarith
  show "en_lastSeen (snd x) \<le> en_lastSeen (snd y)"
    if "x \<in> set ?m - set (kept_entries now r)" "y \<in> set (kept_entries now r)"
    using oldest_props(4) [OF m, of x ?n y] that by (simp add: kept_entries_def Let_def)
qed

lemma evictOverflow_rl_result:
  assumes "rl_ok r" and "overBound r"
  shows "rl_ok (evictOverflow_rl now r)" "rl_limiters (evictOverflow_rl now r) = kept_entries now r"
proof -
  let ?r1 = "sweep_rl now r"
  let ?over = "rl_tracked ?r1 - bound_target (rl_maxLimiters r)"
  have ok1: "rl_ok ?r1" and m1: "rl_limiters ?r1 = live_entries now r" and mx: "rl_maxLimiters ?r1 = rl_maxLimiters r"
    using assms(1) by (auto simp: sweep_rl_limiters) (simp add: rl_ok_def sweep_rl_result)
  have t1: "rl_tracked ?r1 = int (length (live_entries now r))" using ok1 m1 by (simp add: rl_ok_def)
  have pos: "0 < rl_maxLimiters r" using assms(2) by (simp add: overBound_def)
  have im: "is_map (rl_limiters r)" using assms(1) by (simp add: rl_ok_def)
  note kp = kept_entries_props [OF im pos, where now = now]
  show "rl_limiters (evictOverflow_rl now r) = kept_entries now r" "rl_ok (evictOverflow_rl now r)"
  proof -
    have both: "rl_limiters (evictOverflow_rl now r) = kept_entries now r \<and>
      rl_tracked (evictOverflow_rl now r) = int (length (kept_entries now r))"
    proof (cases "?over \<le> 0")
      case True
      then have "evictOverflow_rl now r = ?r1"
        using assms(2) by (simp add: evictOverflow_rl_def Let_def mx bound_target_def)
      moreover have "kept_entries now r = live_entries now r"
        using True t1 by (simp add: kept_entries_def Let_def oldest_def)
      ultimately show ?thesis using m1 t1 by simp
    next
      case False
      then have over: "0 \<le> ?over" "?over \<le> rl_tracked ?r1" using bound_target_le [OF pos] by auto
      have "rl_limiters (evictOverflow_rl now r) = kept_entries now r"
        "rl_tracked (evictOverflow_rl now r) = rl_tracked ?r1 - ?over"
        using False assms(2) capacity_pass [OF ok1 over]
        by (simp_all add: evictOverflow_rl_def Let_def mx m1 t1 bound_target_def kept_entries_def)
      with False t1 kp(2) show ?thesis by simp
    qed
    then show "rl_limiters (evictOverflow_rl now r) = kept_entries now r" "rl_ok (evictOverflow_rl now r)"
      using kp(1) by (simp_all add: rl_ok_def)
  qed
qed

subsection \<open>The bound\<close>

text \<open>What no pass changes.\<close>

definition rl_fixed :: "('b, 'f) InMemoryRateLimiter \<Rightarrow> nat \<times> nat \<times> bool \<times> 'f \<times> int \<times> int \<times> duration" where
  "rl_fixed r = (rl_allowed r, rl_rejected r, rl_stopped r, rl_requestsPerSec r, rl_burstSize r, rl_maxLimiters r, rl_idleTTL r)"

lemma foldl_fixed:
  assumes "\<And>s x. rl_fixed (fst (f s x)) = rl_fixed (fst s)"
  shows "rl_fixed (fst (foldl f s xs)) = rl_fixed (fst s)"
  by (induction xs arbitrary: s) (simp_all add: assms)

lemma compareAndDelete_fixed: "rl_fixed (fst (compareAndDelete ke s)) = rl_fixed (fst s)"
  by (simp add: compareAndDelete_def rl_fixed_def)

lemma rl_fixed_upd [simp]:
  "rl_fixed (r\<lparr>rl_idleEvicted := a\<rparr>) = rl_fixed r" "rl_fixed (r\<lparr>rl_capacityEvicted := a\<rparr>) = rl_fixed r"
  "rl_fixed (r\<lparr>rl_limitersGauge := a\<rparr>) = rl_fixed r" "rl_fixed (r\<lparr>rl_limiters := m\<rparr>) = rl_fixed r"
  "rl_fixed (r\<lparr>rl_tracked := a\<rparr>) = rl_fixed r"
  by (simp_all add: rl_fixed_def)

lemma sweep_rl_fixed [simp]: "rl_fixed (sweep_rl now r) = rl_fixed r"
proof -
  let ?f = "\<lambda>s ke. if idleFor now (snd ke) < rl_idleTTL r then s else compareAndDelete ke s"
  have "rl_fixed (fst (foldl ?f (r, 0) (rl_limiters r))) = rl_fixed (fst (r, 0 :: int))"
    by (rule foldl_fixed) (simp add: compareAndDelete_fixed)
  then show ?thesis by (auto simp: sweep_rl_def Let_def split: prod.split)
qed

lemma capacity_fold_fixed:
  "foldl (\<lambda>s ke. if snd s \<ge> over then s else compareAndDelete ke s) (r, 0) xs = (r', n) \<Longrightarrow> rl_fixed r' = rl_fixed r"
  using foldl_fixed [of "\<lambda>s ke. if snd s \<ge> over then s else compareAndDelete ke s" "(r, 0)" xs]
  by (simp add: compareAndDelete_fixed)

lemma evictOverflow_rl_fixed [simp]: "rl_fixed (evictOverflow_rl now r) = rl_fixed r"
  by (auto simp: evictOverflow_rl_def Let_def dest: capacity_fold_fixed split: prod.split)

lemma store_bucket_fixed [simp]: "rl_fixed (store_bucket key b r) = rl_fixed r"
  by (simp add: store_bucket_def split: option.split)

lemma getOrCreateLimiter_fixed [simp]: "rl_fixed (snd (getOrCreateLimiter api now key r)) = rl_fixed r"
  by (simp add: getOrCreateLimiter_def Let_def split: option.split)

definition within_bound :: "('b, 'f) InMemoryRateLimiter \<Rightarrow> bool" where
  "within_bound r \<longleftrightarrow> rl_ok r \<and> (rl_maxLimiters r > 0 \<longrightarrow> int (length (rl_limiters r)) \<le> rl_maxLimiters r)"

lemma rl_fixed_max: "rl_fixed r = rl_fixed r' \<Longrightarrow> rl_maxLimiters r = rl_maxLimiters r'"
  by (simp add: rl_fixed_def)

lemma evictOverflow_within: "rl_ok r \<Longrightarrow> within_bound (evictOverflow_rl now r)"
proof (cases "overBound r")
  case True
  assume ok: "rl_ok r"
  have pos: "0 < rl_maxLimiters r" and im: "is_map (rl_limiters r)"
    using True ok by (auto simp: overBound_def rl_ok_def)
  have "int (length (kept_entries now r)) \<le> rl_maxLimiters r"
    using kept_entries_props(2) [OF im pos, of now] bound_target_le [OF pos] by linarith
  then show ?thesis
    using evictOverflow_rl_result [OF ok True, of now] rl_fixed_max [OF evictOverflow_rl_fixed, of now r]
    by (simp add: within_bound_def)
next
  case False
  assume "rl_ok r"
  with False show ?thesis by (auto simp: evictOverflow_rl_def within_bound_def overBound_def rl_ok_def)
qed

lemma length_mput: "is_map m \<Longrightarrow> length (mput k v m) = (if mget m k = None then Suc (length m) else length m)"
proof -
  assume m: "is_map m"
  have "length (mput k v m) = card (insert k (set (mkeys m)))" using length_is_map [OF is_map_mput [OF m]] by simp
  then show ?thesis using m by (simp add: length_is_map card_insert_if mget_eq_None_iff insert_absorb)
qed

lemma store_bucket_within: "within_bound r \<Longrightarrow> within_bound (store_bucket key b r)"
  by (auto simp: within_bound_def rl_ok_def store_bucket_def lookup_rl_def length_mput split: option.split)

lemma getOrCreateLimiter_within:
  "within_bound r \<Longrightarrow> within_bound (snd (getOrCreateLimiter api now key r))"
proof (cases "lookup_rl key r")
  case None
  assume "within_bound r"
  then have "rl_ok (r\<lparr>rl_limiters := mput key e (rl_limiters r), rl_tracked := rl_tracked r + 1\<rparr>)" for e
    using None by (simp add: within_bound_def rl_ok_def lookup_rl_def length_mput)
  with None show ?thesis by (simp add: getOrCreateLimiter_def Let_def evictOverflow_within)
next
  case (Some e)
  assume "within_bound r"
  with Some show ?thesis
    by (auto simp: getOrCreateLimiter_def within_bound_def rl_ok_def lookup_rl_def length_mput)
qed

lemma within_bound_counters [simp]:
  "within_bound (r\<lparr>rl_allowed := a\<rparr>) = within_bound r" "within_bound (r\<lparr>rl_rejected := a\<rparr>) = within_bound r"
  by (simp_all add: within_bound_def rl_ok_def)

lemma Allow_within: "within_bound r \<Longrightarrow> within_bound (snd (Allow api now key r))"
  using store_bucket_within [OF getOrCreateLimiter_within [of r api now key]]
  by (auto simp: Allow_def Let_def split: prod.split)

lemma Allow_counts:
  "rl_allowed (snd (Allow api now key r)) = rl_allowed r + (if fst (Allow api now key r) then 1 else 0)"
  "rl_rejected (snd (Allow api now key r)) = rl_rejected r + (if fst (Allow api now key r) then 0 else 1)"
proof -
  obtain limiter r1 where g: "getOrCreateLimiter api now key r = (limiter, r1)" by fastforce
  obtain ok l' where b: "bk_Allow api now limiter = (ok, l')" by fastforce
  have "rl_fixed (store_bucket key l' r1) = rl_fixed r" using getOrCreateLimiter_fixed [of api now key r] g by simp
  then show "rl_allowed (snd (Allow api now key r)) = rl_allowed r + (if fst (Allow api now key r) then 1 else 0)"
    "rl_rejected (snd (Allow api now key r)) = rl_rejected r + (if fst (Allow api now key r) then 0 else 1)"
    using g b by (auto simp: Allow_def Let_def rl_fixed_def)
qed

lemma sweepEvery_within: "within_bound r \<Longrightarrow> within_bound (sweepEvery_rl now r)"
proof -
  assume w: "within_bound r"
  then have "int (length (live_entries now r)) \<le> int (length (rl_limiters r))" by (simp add: live_entries_def)
  with w show ?thesis
    using rl_fixed_max [OF sweep_rl_fixed, of now r]
    by (auto simp: sweepEvery_rl_def within_bound_def sweep_rl_limiters)
qed

lemma rl_run_within:
  assumes "within_bound r"
  shows "within_bound (snd (rl_run api ops r)) \<and>
    rl_allowed (snd (rl_run api ops r)) = rl_allowed r + length (filter (\<lambda>d. d) (fst (rl_run api ops r))) \<and>
    rl_rejected (snd (rl_run api ops r)) = rl_rejected r + length (filter (\<lambda>d. \<not> d) (fst (rl_run api ops r)))"
  using assms
proof (induction ops arbitrary: r)
  case (Cons x ops)
  obtain d r1 where s: "rl_step api x r = (d, r1)" by fastforce
  have "within_bound r1 \<and> rl_allowed r1 = rl_allowed r + length (filter (\<lambda>d. d) d) \<and>
     rl_rejected r1 = rl_rejected r + length (filter (\<lambda>d. \<not> d) d)"
  proof (cases x)
    case (AllowAt now key)
    then show ?thesis
      using s Allow_within [OF Cons.prems, of api now key] Allow_counts [of api now key r]
      by (cases "Allow api now key r") auto
  next
    case (SweepAt now)
    then have "r1 = sweepEvery_rl now r" "d = []" using s by auto
    then show ?thesis
      using sweepEvery_within [OF Cons.prems, of now] sweep_rl_fixed [of now r]
      by (auto simp: sweepEvery_rl_def rl_fixed_def)
  next
    case CloseAt
    then show ?thesis using s Cons.prems by (auto simp: Close_rl_def within_bound_def rl_ok_def)
  qed
  with Cons.IH [of r1] s show ?case by (cases "rl_run api ops r1") simp
qed simp


text \<open>
  A pass over a full map drops the idle buckets and then the least recently seen, down to the bound less its
  headroom: no live bucket is dropped that was consulted later than one that is kept.
\<close>

lemma overflow_evicts_oldest:
  assumes "rl_ok r" and "overBound r"
  shows "rl_limiters (evictOverflow_rl now r) = kept_entries now r \<and>
    int (length (kept_entries now r)) = min (int (length (live_entries now r))) (bound_target (rl_maxLimiters r)) \<and>
    (\<forall>x \<in> set (live_entries now r) - set (kept_entries now r). \<forall>y \<in> set (kept_entries now r).
       en_lastSeen (snd x) \<le> en_lastSeen (snd y))"
proof -
  have "is_map (rl_limiters r)" "0 < rl_maxLimiters r" using assms by (auto simp: rl_ok_def overBound_def)
  from kept_entries_props(2,3) [OF this] evictOverflow_rl_result(2) [OF assms] show ?thesis by blast
qed

subsection \<open>Sweeping changes no decision\<close>

text \<open>
  The states of a bucket, with the time it was last drawn from: fresh and drawn from, or drawn from again later. What
  the library documents of it is that a bucket left alone for the time it takes to fill up answers as a fresh one.
\<close>

inductive used :: "('b, 'f) bucket_api \<Rightarrow> 'f \<Rightarrow> int \<Rightarrow> gotime \<Rightarrow> 'b \<Rightarrow> bool"
  for api perSec burst where
  used_fresh: "used api perSec burst t (snd (bk_Allow api t (bk_New api perSec burst)))"
| used_again: "used api perSec burst t b \<Longrightarrow> t \<le> t' \<Longrightarrow> used api perSec burst t' (snd (bk_Allow api t' b))"

definition refills :: "('b, 'f) bucket_api \<Rightarrow> 'f \<Rightarrow> int \<Rightarrow> duration \<Rightarrow> bool" where
  "refills api perSec burst window \<longleftrightarrow>
     (\<forall>t t' b. used api perSec burst t b \<longrightarrow> t + window \<le> t' \<longrightarrow>
        bk_Allow api t' b = bk_Allow api t' (bk_New api perSec burst))"

text \<open>The reference: one bucket per key, for ever.\<close>

fun reference :: "('b, 'f) bucket_api \<Rightarrow> 'f \<Rightarrow> int \<Rightarrow> rl_op list \<Rightarrow> (string \<Rightarrow> 'b option) \<Rightarrow> bool list" where
  "reference api perSec burst [] m = []"
| "reference api perSec burst (AllowAt now key # ops) m =
     (case bk_Allow api now (case m key of None \<Rightarrow> bk_New api perSec burst | Some b \<Rightarrow> b) of
        (ok, b) \<Rightarrow> ok # reference api perSec burst ops (m(key \<mapsto> b)))"
| "reference api perSec burst (_ # ops) m = reference api perSec burst ops m"

fun op_time :: "rl_op \<Rightarrow> gotime option" where
  "op_time (AllowAt t key) = Some t"
| "op_time (SweepAt t) = Some t"
| "op_time CloseAt = None"

fun op_key :: "rl_op \<Rightarrow> string option" where
  "op_key (AllowAt t key) = Some key"
| "op_key _ = None"

text \<open>A history that does not close the limiter, and whose clock does not run backwards.\<close>

fun timed :: "gotime \<Rightarrow> rl_op list \<Rightarrow> bool" where
  "timed t [] \<longleftrightarrow> True"
| "timed t (x # xs) \<longleftrightarrow> (case op_time x of None \<Rightarrow> False | Some t' \<Rightarrow> t \<le> t' \<and> timed t' xs)"

text \<open>
  How the swept map stands to the reference at time \<open>t\<close>: a key it holds has the bucket of the reference, and a key
  it lacks has none there or one that has filled up since.
\<close>

definition key_same :: "('b, 'f) bucket_api \<Rightarrow> 'f \<Rightarrow> int \<Rightarrow> duration \<Rightarrow> gotime \<Rightarrow> 'b limiterEntry option \<Rightarrow> 'b option \<Rightarrow> bool" where
  "key_same api perSec burst window t entry ref \<longleftrightarrow>
     (case entry of
        Some e \<Rightarrow> ref = Some (en_limiter e) \<and> en_lastSeen e \<le> t \<and> used api perSec burst (en_lastSeen e) (en_limiter e)
      | None \<Rightarrow> (\<forall>b. ref = Some b \<longrightarrow> (\<exists>t0. used api perSec burst t0 b \<and> t0 + window \<le> t)))"

definition same_answers :: "('b, 'f) bucket_api \<Rightarrow> duration \<Rightarrow> gotime \<Rightarrow> ('b, 'f) InMemoryRateLimiter \<Rightarrow> (string \<Rightarrow> 'b option) \<Rightarrow> bool" where
  "same_answers api window t r m \<longleftrightarrow>
     (\<forall>key. key_same api (rl_requestsPerSec r) (rl_burstSize r) window t (lookup_rl key r) (m key))"

lemma key_same_later: "key_same api ps bs window t entry ref \<Longrightarrow> t \<le> t' \<Longrightarrow> key_same api ps bs window t' entry ref"
  by (cases entry) (auto simp: key_same_def, meson order_trans)

lemma key_same_dropped:
  "key_same api ps bs window t (Some e) ref \<Longrightarrow> en_lastSeen e + window \<le> t \<Longrightarrow> key_same api ps bs window t None ref"
  by (auto simp: key_same_def)

lemma key_same_draw:
  assumes "key_same api ps bs window t entry ref" and "t \<le> now" and "refills api ps bs window"
    and "bk_Allow api now (case ref of None \<Rightarrow> bk_New api ps bs | Some b \<Rightarrow> b) = (ok, b)"
  shows "bk_Allow api now (case entry of None \<Rightarrow> bk_New api ps bs | Some e \<Rightarrow> en_limiter e) = (ok, b)"
    "used api ps bs now b"
proof -
  show d: "bk_Allow api now (case entry of None \<Rightarrow> bk_New api ps bs | Some e \<Rightarrow> en_limiter e) = (ok, b)"
  proof (cases entry; cases ref)
    fix b0 assume n: "entry = None" "ref = Some b0"
    with assms(1) obtain t0 where "used api ps bs t0 b0" "t0 + window \<le> t" by (auto simp: key_same_def)
    with n assms(2-4) show ?thesis by (simp add: refills_def)
  qed (use assms(1,4) in \<open>auto simp: key_same_def\<close>)
  show "used api ps bs now b"
  proof (cases entry)
    case None
    with d used_fresh [of api ps bs now] show ?thesis by simp
  next
    case (Some e)
    with assms(1,2) have "used api ps bs (en_lastSeen e) (en_limiter e)" "en_lastSeen e \<le> now" by (auto simp: key_same_def)
    with d Some used_again [of api ps bs "en_lastSeen e" "en_limiter e" now] show ?thesis by simp
  qed
qed

lemma mget_filter_value:
  "is_map m \<Longrightarrow> mget (filter (\<lambda>ke. P (snd ke)) m) k =
     (case mget m k of None \<Rightarrow> None | Some v \<Rightarrow> if P v then Some v else None)"
  by (induction m) (auto simp: mget_def is_map_def map_of_eq_None_iff split: option.splits dest: map_of_SomeD)

lemma lookup_sweep:
  "rl_ok r \<Longrightarrow> lookup_rl k (sweep_rl now r) =
     (case lookup_rl k r of None \<Rightarrow> None | Some e \<Rightarrow> if idleFor now e < rl_idleTTL r then Some e else None)"
  using mget_filter_value [of "rl_limiters r" "\<lambda>e. idleFor now e < rl_idleTTL r" k]
  by (simp add: lookup_rl_def sweep_rl_limiters live_entries_def) (simp add: rl_ok_def)

definition bucket_for :: "('b, 'f) bucket_api \<Rightarrow> string \<Rightarrow> ('b, 'f) InMemoryRateLimiter \<Rightarrow> 'b" where
  "bucket_for api key r =
     (case lookup_rl key r of None \<Rightarrow> bk_New api (rl_requestsPerSec r) (rl_burstSize r) | Some e \<Rightarrow> en_limiter e)"

lemma Allow_in_room:
  assumes "rl_ok r" and "rl_maxLimiters r \<le> 0 \<or> lookup_rl key r \<noteq> None \<or> int (length (rl_limiters r)) < rl_maxLimiters r"
    and "bk_Allow api now (bucket_for api key r) = (ok, b)"
  shows "fst (Allow api now key r) = ok"
    "lookup_rl k (snd (Allow api now key r)) =
       (if k = key then Some \<lparr>en_limiter = b, en_lastSeen = now\<rparr> else lookup_rl k r)"
proof -
  let ?e = "case lookup_rl key r of
      None \<Rightarrow> newLimiterEntry (bk_New api (rl_requestsPerSec r) (rl_burstSize r)) now | Some e \<Rightarrow> touch now e"
  have e: "en_limiter ?e = bucket_for api key r" "?e\<lparr>en_limiter := b\<rparr> = \<lparr>en_limiter = b, en_lastSeen = now\<rparr>"
    by (cases "lookup_rl key r", auto simp: newLimiterEntry_def touch_def bucket_for_def)+
  obtain r1 where g: "getOrCreateLimiter api now key r = (bucket_for api key r, r1)"
    and l: "rl_limiters r1 = mput key ?e (rl_limiters r)"
  proof (cases "lookup_rl key r")
    case None
    then have "\<not> overBound (r\<lparr>rl_limiters := x, rl_tracked := rl_tracked r + 1\<rparr>)" for x
      using assms(1,2) by (auto simp: overBound_def rl_ok_def)
    with None e(1) show ?thesis
      by (intro that) (auto simp: getOrCreateLimiter_def evictOverflow_rl_def Let_def bucket_for_def newLimiterEntry_def touch_def)
  next
    case (Some e)
    then show ?thesis by (intro that) (auto simp: getOrCreateLimiter_def bucket_for_def)
  qed
  have s: "rl_limiters (store_bucket key b r1) = mput key \<lparr>en_limiter = b, en_lastSeen = now\<rparr> (rl_limiters r1)"
    using l e(2) by (simp add: store_bucket_def lookup_rl_def)
  from g assms(3) show "fst (Allow api now key r) = ok" by (simp add: Allow_def Let_def)
  from g assms(3) s l
  show "lookup_rl k (snd (Allow api now key r)) =
       (if k = key then Some \<lparr>en_limiter = b, en_lastSeen = now\<rparr> else lookup_rl k r)"
    by (simp add: Allow_def Let_def lookup_rl_def)
qed

lemma Allow_fixed:
  "rl_maxLimiters (snd (Allow api now key r)) = rl_maxLimiters r" "rl_idleTTL (snd (Allow api now key r)) = rl_idleTTL r"
  "rl_requestsPerSec (snd (Allow api now key r)) = rl_requestsPerSec r" "rl_burstSize (snd (Allow api now key r)) = rl_burstSize r"
  "rl_stopped (snd (Allow api now key r)) = rl_stopped r"
proof -
  obtain limiter r1 where g: "getOrCreateLimiter api now key r = (limiter, r1)" by fastforce
  obtain ok l' where b: "bk_Allow api now limiter = (ok, l')" by fastforce
  have "rl_fixed (store_bucket key l' r1) = rl_fixed r" using getOrCreateLimiter_fixed [of api now key r] g by simp
  then show "rl_maxLimiters (snd (Allow api now key r)) = rl_maxLimiters r" "rl_idleTTL (snd (Allow api now key r)) = rl_idleTTL r"
    "rl_requestsPerSec (snd (Allow api now key r)) = rl_requestsPerSec r" "rl_burstSize (snd (Allow api now key r)) = rl_burstSize r"
    "rl_stopped (snd (Allow api now key r)) = rl_stopped r"
    using g b by (auto simp: Allow_def Let_def rl_fixed_def)
qed

lemma sweep_fixed:
  "rl_maxLimiters (sweep_rl now r) = rl_maxLimiters r" "rl_idleTTL (sweep_rl now r) = rl_idleTTL r"
  "rl_requestsPerSec (sweep_rl now r) = rl_requestsPerSec r" "rl_burstSize (sweep_rl now r) = rl_burstSize r"
  "rl_stopped (sweep_rl now r) = rl_stopped r"
  using sweep_rl_fixed [of now r] by (auto simp: rl_fixed_def)

lemma same_answers_sweep:
  assumes "rl_ok r" and "same_answers api window t r m" and "t \<le> now" and "window \<le> rl_idleTTL r"
  shows "same_answers api window now (sweep_rl now r) m"
  unfolding same_answers_def
proof
  fix key
  have "key_same api (rl_requestsPerSec r) (rl_burstSize r) window now (lookup_rl key r) (m key)"
    using assms(2,3) unfolding same_answers_def by (blast intro: key_same_later)
  moreover have "en_lastSeen e + window \<le> now" if "\<not> idleFor now e < rl_idleTTL r" for e :: "'a limiterEntry"
    using that assms(4) by (simp add: idleFor_def)
  ultimately show "key_same api (rl_requestsPerSec (sweep_rl now r)) (rl_burstSize (sweep_rl now r)) window now
      (lookup_rl key (sweep_rl now r)) (m key)"
    by (cases "lookup_rl key r") (auto simp: lookup_sweep [OF assms(1)] sweep_fixed intro: key_same_dropped)
qed

lemma same_answers_Allow:
  assumes "rl_ok r" and "same_answers api window t r m" and "t \<le> now"
    and "refills api (rl_requestsPerSec r) (rl_burstSize r) window"
    and "rl_maxLimiters r \<le> 0 \<or> lookup_rl key r \<noteq> None \<or> int (length (rl_limiters r)) < rl_maxLimiters r"
    and "bk_Allow api now (case m key of None \<Rightarrow> bk_New api (rl_requestsPerSec r) (rl_burstSize r) | Some b \<Rightarrow> b) = (ok, b)"
  shows "fst (Allow api now key r) = ok" "same_answers api window now (snd (Allow api now key r)) (m(key \<mapsto> b))"
proof -
  have k: "key_same api (rl_requestsPerSec r) (rl_burstSize r) window t (lookup_rl k r) (m k)" for k
    using assms(2) by (simp add: same_answers_def)
  note d = key_same_draw [OF k [of key] assms(3,4,6), folded bucket_for_def]
  note room = Allow_in_room [OF assms(1,5) d(1)]
  show "fst (Allow api now key r) = ok" by (rule room(1))
  show "same_answers api window now (snd (Allow api now key r)) (m(key \<mapsto> b))"
    using key_same_later [OF k assms(3)] d(2) by (simp add: same_answers_def room(2) Allow_fixed) (simp add: key_same_def)
qed

text \<open>The map holds only keys that were asked for, so it has room as long as they are fewer than the bound.\<close>

definition room_for :: "string set \<Rightarrow> ('b, 'f) InMemoryRateLimiter \<Rightarrow> bool" where
  "room_for K r \<longleftrightarrow> set (mkeys (rl_limiters r)) \<subseteq> K \<and> finite K \<and> (rl_maxLimiters r \<le> 0 \<or> int (card K) \<le> rl_maxLimiters r)"

lemma room_for_Allow:
  assumes "rl_ok r" and "room_for K r" and "key \<in> K"
  shows "rl_maxLimiters r \<le> 0 \<or> lookup_rl key r \<noteq> None \<or> int (length (rl_limiters r)) < rl_maxLimiters r"
proof -
  have "card (set (mkeys (rl_limiters r))) < card K" if "lookup_rl key r = None"
    using assms(2,3) that by (intro psubset_card_mono) (auto simp: room_for_def lookup_rl_def mget_eq_None_iff)
  moreover have "length (rl_limiters r) = card (set (mkeys (rl_limiters r)))"
    using assms(1) by (simp add: rl_ok_def length_is_map)
  moreover have "rl_maxLimiters r \<le> 0 \<or> int (card K) \<le> rl_maxLimiters r" using assms(2) by (simp add: room_for_def)
  ultimately show ?thesis by (cases "lookup_rl key r = None") auto
qed

lemma lookup_keys: "set (mkeys (rl_limiters r)) = {k. lookup_rl k r \<noteq> None}"
  by (simp add: lookup_rl_def set_mkeys)

lemma room_for_sweep: "rl_ok r \<Longrightarrow> room_for K r \<Longrightarrow> room_for K (sweep_rl now r)"
  by (auto simp: room_for_def lookup_keys lookup_sweep sweep_fixed split: option.splits if_splits)

lemma room_for_asked:
  assumes "rl_ok r" and "room_for K r" and "key \<in> K"
  shows "room_for K (snd (Allow api now key r))"
proof -
  obtain ok b where d: "bk_Allow api now (bucket_for api key r) = (ok, b)" by fastforce
  from Allow_in_room(2) [OF assms(1) room_for_Allow [OF assms] d] assms(2,3) show ?thesis
    by (auto simp: room_for_def lookup_keys Allow_fixed split: if_splits)
qed

lemma swept_run:
  assumes "within_bound r" and "\<not> rl_stopped r" and "same_answers api window t r m" and "room_for K r"
    and "refills api (rl_requestsPerSec r) (rl_burstSize r) window" and "window \<le> rl_idleTTL r"
    and "timed t ops" and "\<forall>x \<in> set ops. \<forall>key. op_key x = Some key \<longrightarrow> key \<in> K"
  shows "fst (rl_run api ops r) = reference api (rl_requestsPerSec r) (rl_burstSize r) ops m"
  using assms
proof (induction ops arbitrary: r t m)
  case (Cons x ops)
  have ok: "rl_ok r" using Cons.prems(1) by (simp add: within_bound_def)
  show ?case
  proof (cases x)
    case (AllowAt now key)
    obtain d b where d: "bk_Allow api now (case m key of None \<Rightarrow> bk_New api (rl_requestsPerSec r) (rl_burstSize r) | Some b \<Rightarrow> b) = (d, b)"
      by fastforce
    have key: "key \<in> K" "t \<le> now" "timed now ops" using Cons.prems(7,8) AllowAt by auto
    note room = room_for_Allow [OF ok Cons.prems(4) key(1)]
    note sa = same_answers_Allow [OF ok Cons.prems(3) key(2) Cons.prems(5) room d]
    have "fst (rl_run api ops (snd (Allow api now key r))) =
      reference api (rl_requestsPerSec r) (rl_burstSize r) ops (m(key \<mapsto> b))"
      using Cons.IH [OF Allow_within [OF Cons.prems(1)] _ sa(2) room_for_asked [OF ok Cons.prems(4) key(1)]]
        Cons.prems(2,5,6,8) key(3) by (simp add: Allow_fixed fun_upd_def)
    with d sa(1) AllowAt show ?thesis
      by (cases "Allow api now key r"; cases "rl_run api ops (snd (Allow api now key r))") simp
  next
    case (SweepAt now)
    have now: "t \<le> now" "timed now ops" using Cons.prems(7) SweepAt by auto
    have s: "sweepEvery_rl now r = sweep_rl now r" using Cons.prems(2) by (simp add: sweepEvery_rl_def)
    have "fst (rl_run api ops (sweep_rl now r)) = reference api (rl_requestsPerSec r) (rl_burstSize r) ops m"
      using Cons.IH [OF sweepEvery_within [OF Cons.prems(1), of now, unfolded s] _
        same_answers_sweep [OF ok Cons.prems(3) now(1) Cons.prems(6)] room_for_sweep [OF ok Cons.prems(4)]]
        Cons.prems(2,5,6,8) now(2) by (simp add: sweep_fixed)
    with SweepAt s show ?thesis by (cases "rl_run api ops (sweep_rl now r)") simp
  next
    case CloseAt
    with Cons.prems(7) show ?thesis by simp
  qed
qed simp


subsection \<open>A token bucket\<close>

text \<open>
  A bucket over whole numbers for the concrete instances below: the tokens in units of a nanosecond's worth, the time
  of the last draw, the rate per second and the burst.
\<close>

definition token_api :: "(int \<times> gotime option \<times> int \<times> int, int) bucket_api" where
  "token_api = \<lparr>bk_New = (\<lambda>ps bs. (bs * Second, None, ps, bs)),
     bk_Allow = (\<lambda>now (tok, seen, ps, bs).
       let tok' = (case seen of None \<Rightarrow> tok | Some t \<Rightarrow> min (bs * Second) (tok + (now - t) * ps))
       in (Second \<le> tok', if Second \<le> tok' then tok' - Second else tok', Some now, ps, bs)),
     bk_Burst = (\<lambda>(tok, seen, ps, bs). bs), bk_Limit = (\<lambda>(tok, seen, ps, bs). ps),
     bk_Tokens = (\<lambda>now (tok, seen, ps, bs). tok div Second)\<rparr>"

definition int_float :: "int float_api" where
  "int_float = \<lparr>fl_le0 = (\<lambda>x. x \<le> 0), fl_IsNaN = (\<lambda>_. False), fl_IsInf = (\<lambda>_. False), fl_one = 1,
     fl_one_minus = (\<lambda>x. 1 - x), fl_window = (\<lambda>burst perSec. burst * Second div perSec),
     fl_wait = (\<lambda>d l. d * Second div l)\<rparr>"

lemma Second_pos [simp]: "0 < Second" "0 \<le> Second"
  by (simp_all add: Second_def Millisecond_def)

lemma token_used: "used token_api 1 2 t b \<Longrightarrow> \<exists>tok. b = (tok, Some t, 1, 2) \<and> 0 \<le> tok"
proof (induction rule: used.induct)
  case (used_fresh t)
  then show ?case by (simp add: token_api_def Let_def)
next
  case (used_again t b t')
  then obtain tok where "b = (tok, Some t, 1, 2)" "0 \<le> tok" by blast
  with used_again.hyps(2) show ?case by (simp add: token_api_def Let_def)
qed

lemma token_window: "limiterWindow int_float 1 2 = 2 * Second"
  by (simp add: limiterWindow_def int_float_def Second_def Millisecond_def)

lemma token_refills: "refills token_api 1 2 (limiterWindow int_float 1 2)"
  unfolding refills_def token_window
proof (intro allI impI)
  fix t t' b assume u: "used token_api 1 2 t b" and l: "t + 2 * Second \<le> t'"
  then obtain tok where "b = (tok, Some t, 1, 2)" "0 \<le> tok" using token_used by blast
  with l show "bk_Allow token_api t' b = bk_Allow token_api t' (bk_New token_api 1 2)"
    by (simp add: token_api_def Let_def min_def)
qed



end
