(* ===== verification/JobsPool.thy ===== *)
theory JobsPool
  imports LockScoped "HOL-Library.Multiset"
begin

text \<open>
  The worker pool of the package \<^verbatim>\<open>jobs\<close> (\<^verbatim>\<open>pool.go\<close>, with \<^verbatim>\<open>panics.go\<close>, \<^verbatim>\<open>deadletter.go\<close> and the pool half
  of \<^verbatim>\<open>config.go\<close>): a consumed message is handed to a worker, runs under the retry policy and ends handled,
  dead-lettered or dropped; closing the pool drains it.

  Processing one message is a function on the counters and on the world \<^typ>\<open>'w\<close> the handler acts on. The goroutines
  (the consumer's handler, the workers, \<^verbatim>\<open>Run\<close> and \<^verbatim>\<open>Close\<close>) are a step relation in which a worker's processing
  of a message is the step that ends it. A context is the deadline the handler is given; that the pool's own context
  is done is read from the world.
\<close>

subsection \<open>Configuration and errors\<close>

definition DefaultConcurrency :: nat where
  "DefaultConcurrency = 8"

record PoolConfig =
  pc_Topic :: string
  pc_Retry :: Config
  pc_Concurrency :: int
  pc_HandlerTimeout :: duration

definition EnsureDefaults_pool :: "PoolConfig \<Rightarrow> PoolConfig" where
  "EnsureDefaults_pool cfg =
     (let c = (if pc_Concurrency cfg \<le> 0 then cfg\<lparr>pc_Concurrency := int DefaultConcurrency\<rparr> else cfg)
      in c\<lparr>pc_Retry := EnsureDefaults (pc_Retry c)\<rparr>)"

datatype 'e job_error = HandlerError 'e | ErrHandlerPanicked

record DeadLetter =
  dl_FailedAt :: gotime
  dl_Topic :: string
  dl_Error :: string
  dl_Payload :: string
  dl_Attempts :: nat

text \<open>
  What a pool runs on: the handler, which may panic, the dead-letter function if there is one, with whether it
  failed, the text of an error, and the parts of the retry policy.
\<close>

record ('w, 'e) pool_env =
  pe_handler :: "duration option \<Rightarrow> string \<Rightarrow> 'w \<Rightarrow> 'e job_error retry_error outcome \<times> 'w"
  pe_deadLtr :: "(DeadLetter \<Rightarrow> 'w \<Rightarrow> bool \<times> 'w) option"
  pe_ErrorText :: "'e job_error retry_error \<Rightarrow> string"
  pe_now :: "'w \<Rightarrow> gotime"
  pe_floats :: floats
  pe_rand :: "'w rand"
  pe_ctxDone :: "'w \<Rightarrow> bool"
  pe_sleep :: "duration \<Rightarrow> 'w \<Rightarrow> bool \<times> 'w"

record 'w pool_state =
  ps_world :: 'w
  ps_attempts :: nat
  ps_received :: nat
  ps_processed :: nat
  ps_failed :: nat
  ps_deadLettered :: nat
  ps_dropped :: nat
  ps_panics :: nat
  ps_deadLetterFailures :: nat
  ps_inFlight :: int

subsection \<open>One message\<close>

text \<open>\<^verbatim>\<open>panicking.Contain\<close> and \<^verbatim>\<open>containedPanic\<close>: a panic is counted and becomes the package's error.\<close>

definition invoke_handler :: "('w, 'e) pool_env \<Rightarrow> PoolConfig \<Rightarrow> string \<Rightarrow> 'w pool_state \<Rightarrow> 'e job_error retry_error option \<times> 'w pool_state" where
  "invoke_handler env cfg payload st =
     (case pe_handler env (if pc_HandlerTimeout cfg > 0 then Some (pc_HandlerTimeout cfg) else None) payload (ps_world st) of
        (out, w) \<Rightarrow>
        let st1 = st\<lparr>ps_world := w\<rparr>
        in case out of
             Returned err \<Rightarrow> (err, st1)
           | Panicked \<Rightarrow> (Some (OpError ErrHandlerPanicked), st1\<lparr>ps_panics := ps_panics st1 + 1\<rparr>))"

definition attempt_handler :: "('w, 'e) pool_env \<Rightarrow> PoolConfig \<Rightarrow> string \<Rightarrow> 'w pool_state \<Rightarrow> 'e job_error retry_error option \<times> 'w pool_state" where
  "attempt_handler env cfg payload st =
     (case invoke_handler env cfg payload (st\<lparr>ps_attempts := ps_attempts st + 1\<rparr>) of (attemptErr, st1) \<Rightarrow>
        (attemptErr, case attemptErr of None \<Rightarrow> st1 | Some _ \<Rightarrow> st1\<lparr>ps_failed := ps_failed st1 + 1\<rparr>))"

definition pool_retry_env :: "('w, 'e) pool_env \<Rightarrow> PoolConfig \<Rightarrow> string \<Rightarrow> ('w pool_state, 'e job_error) retry_env" where
  "pool_retry_env env cfg payload =
     \<lparr>re_floats = pe_floats env,
      re_rand = (\<lambda>st. case pe_rand env (ps_world st) of (mul, w) \<Rightarrow> (mul, st\<lparr>ps_world := w\<rparr>)),
      re_operation = attempt_handler env cfg payload,
      re_ctxDone = (\<lambda>st. pe_ctxDone env (ps_world st)),
      re_sleep = (\<lambda>d st. case pe_sleep env d (ps_world st) of (ok, w) \<Rightarrow> (ok, st\<lparr>ps_world := w\<rparr>))\<rparr>"

definition retire :: "('w, 'e) pool_env \<Rightarrow> PoolConfig \<Rightarrow> string \<Rightarrow> nat \<Rightarrow> 'e job_error retry_error \<Rightarrow> 'w pool_state \<Rightarrow> 'w pool_state" where
  "retire env cfg payload attempts cause st =
     (case pe_deadLtr env of
        None \<Rightarrow> st\<lparr>ps_dropped := ps_dropped st + 1\<rparr>
      | Some deadLtr \<Rightarrow>
          (let msg = \<lparr>dl_FailedAt = pe_now env (ps_world st), dl_Topic = pc_Topic cfg, dl_Error = pe_ErrorText env cause,
                      dl_Payload = payload, dl_Attempts = attempts\<rparr>
           in case deadLtr msg (ps_world st) of (failed, w) \<Rightarrow>
                let st1 = st\<lparr>ps_world := w\<rparr>
                in if failed then st1\<lparr>ps_deadLetterFailures := ps_deadLetterFailures st1 + 1\<rparr>
                   else st1\<lparr>ps_deadLettered := ps_deadLettered st1 + 1\<rparr>))"

definition process :: "('w, 'e) pool_env \<Rightarrow> PoolConfig \<Rightarrow> string \<Rightarrow> 'w pool_state \<Rightarrow> 'w pool_state" where
  "process env cfg payload st =
     (let st0 = st\<lparr>ps_inFlight := ps_inFlight st + 1, ps_attempts := 0\<rparr>
      in case Execute (pool_retry_env env cfg payload) (pc_Retry cfg)
                \<lparr>rs_world = st0, rs_attempts = 0, rs_exhaustions = 0\<rparr> of
           (err, rs) \<Rightarrow>
             (let st1 = rs_world rs;
                  st2 = (case err of
                           None \<Rightarrow> st1\<lparr>ps_processed := ps_processed st1 + 1\<rparr>
                         | Some cause \<Rightarrow> retire env cfg payload (ps_attempts st1) cause st1)
              in st2\<lparr>ps_inFlight := ps_inFlight st2 - 1\<rparr>))"

text \<open>What the attempts on a message change of the counters.\<close>

definition attempts_log :: "'w pool_state \<Rightarrow> 'w pool_state \<times> 'e job_error retry_error option list \<Rightarrow> bool" where
  "attempts_log st x \<longleftrightarrow>
     (case x of (st', rs) \<Rightarrow>
        ps_attempts st' = ps_attempts st + length rs \<and>
        ps_failed st' = ps_failed st + length (filter (\<lambda>r. r \<noteq> None) rs) \<and>
        ps_panics st \<le> ps_panics st' \<and> ps_panics st' + ps_failed st \<le> ps_panics st + ps_failed st' \<and>
        ps_received st' = ps_received st \<and> ps_processed st' = ps_processed st \<and>
        ps_deadLettered st' = ps_deadLettered st \<and> ps_dropped st' = ps_dropped st \<and>
        ps_deadLetterFailures st' = ps_deadLetterFailures st \<and> ps_inFlight st' = ps_inFlight st)"

lemma attempts_log_operation:
  assumes "attempts_log st x"
  shows "attempts_log st (snd (re_operation (logged (pool_retry_env env cfg payload)) x))"
    "attempts_log st (snd (re_rand (logged (pool_retry_env env cfg payload)) x))"
    "attempts_log st (snd (re_sleep (logged (pool_retry_env env cfg payload)) d x))"
proof -
  obtain st' rs where x: "x = (st', rs)" by fastforce
  show "attempts_log st (snd (re_rand (logged (pool_retry_env env cfg payload)) x))"
    "attempts_log st (snd (re_sleep (logged (pool_retry_env env cfg payload)) d x))"
    using assms by (simp_all add: x logged_def pool_retry_env_def attempts_log_def split: prod.split)
  show "attempts_log st (snd (re_operation (logged (pool_retry_env env cfg payload)) x))"
    using assms
    by (cases "fst (pe_handler env (if pc_HandlerTimeout cfg > 0 then Some (pc_HandlerTimeout cfg) else None) payload (ps_world st'))")
      (auto simp: x logged_def pool_retry_env_def attempts_log_def attempt_handler_def invoke_handler_def Let_def
        split: option.split prod.split)
qed

lemma Execute_attempts:
  fixes st :: "'w pool_state" and env :: "('w, 'e) pool_env"
  assumes "Execute (pool_retry_env env cfg payload) rcfg \<lparr>rs_world = st, rs_attempts = 0, rs_exhaustions = 0\<rparr> = (err, rs)"
  shows "\<exists>log :: 'e job_error retry_error option list. attempts_log st (rs_world rs, log) \<and> length log \<le> cfg_MaxAttempts (EnsureDefaults rcfg) \<and>
    list_all retryable (butlast log) \<and> (err = None \<longleftrightarrow> log \<noteq> [] \<and> last log = None)"
proof -
  let ?env = "pool_retry_env env cfg payload"
  let ?s = "\<lparr>rs_world = (st, []), rs_attempts = 0, rs_exhaustions = 0\<rparr>
    :: ('w pool_state \<times> 'e job_error retry_error option list) retry_state"
  obtain res lst where run: "Execute (logged ?env) rcfg ?s = (res, lst)" by fastforce
  have "unlog ?s = \<lparr>rs_world = st, rs_attempts = 0, rs_exhaustions = 0\<rparr>" by (simp add: unlog_def)
  then have eq: "err = res" "rs = unlog lst"
    using execute_loop_unlog [of ?env "EnsureDefaults rcfg" 0 0 None ?s] run assms by (simp_all add: Execute_def)
  obtain log ex w' where log: "Execute ?env rcfg \<lparr>rs_world = st, rs_attempts = 0, rs_exhaustions = 0\<rparr> =
      ((if ex then Exhausted (length log) (last log) else if log = [] then Some CtxError else last log), w')"
    "length log \<le> cfg_MaxAttempts (EnsureDefaults rcfg)" "list_all retryable (butlast log)"
    "ex \<longrightarrow> length log = cfg_MaxAttempts (EnsureDefaults rcfg) \<and> retryable (last log)"
    "snd (rs_world lst) = log"
    using Execute_log [of ?env rcfg st 0 0] run by auto
  have "attempts_log st (rs_world lst)"
  proof (rule execute_loop_invariant [OF run [unfolded Execute_def Let_def]])
    show "attempts_log st (rs_world ?s)" by (simp add: attempts_log_def)
  qed (auto intro: attempts_log_operation)
  then have "attempts_log st (rs_world rs, log)" using log(5) by (simp add: eq unlog_def prod_eq_iff attempts_log_def split: prod.splits)
  moreover have "err = None \<longleftrightarrow> log \<noteq> [] \<and> last log = None"
    using log(1,4) assms EnsureDefaults_valid(1) [of rcfg]
    by (auto simp: Exhausted_def retryable_def split: option.splits if_splits)
  ultimately show ?thesis using log(2,3) by (intro exI [of _ log]) simp
qed

subsection \<open>The pool and its goroutines\<close>

text \<open>
  A worker waits, holds a message, or has returned. \<open>pp_stop\<close>, \<open>pp_noMoreWork\<close> and \<open>pp_done\<close> say that the channel is
  closed, \<open>pp_consumed\<close> that \<^verbatim>\<open>Consume\<close> has returned and its errors are drained. \<open>pp_accepted\<close>, \<open>pp_refused\<close> and
  \<open>pp_finished\<close> keep the payloads in the order of those events.
\<close>

datatype worker_state = Waiting | Holding string | Retired

record 'w Pool =
  pp_cfg :: PoolConfig
  pp_counters :: "'w pool_state"
  pp_workers :: "worker_state list"
  pp_stop :: bool
  pp_consumed :: bool
  pp_noMoreWork :: bool
  pp_done :: bool
  pp_accepted :: "string list"
  pp_refused :: "string list"
  pp_finished :: "string list"

text \<open>The pool at the start of \<^verbatim>\<open>Run\<close>, with its workers started.\<close>

definition start_pool :: "PoolConfig \<Rightarrow> 'w \<Rightarrow> 'w Pool" where
  "start_pool cfg w =
     (let c = EnsureDefaults_pool cfg
      in \<lparr>pp_cfg = c,
          pp_counters = \<lparr>ps_world = w, ps_attempts = 0, ps_received = 0, ps_processed = 0, ps_failed = 0,
            ps_deadLettered = 0, ps_dropped = 0, ps_panics = 0, ps_deadLetterFailures = 0, ps_inFlight = 0\<rparr>,
          pp_workers = replicate (nat (pc_Concurrency c)) Waiting,
          pp_stop = False, pp_consumed = False, pp_noMoreWork = False, pp_done = False,
          pp_accepted = [], pp_refused = [], pp_finished = []\<rparr>)"

text \<open>
  \<open>submit_handed\<close> and \<open>submit_refused\<close> are the two branches of the select in \<^verbatim>\<open>submit\<close>, which the consumer may call
  even after \<^verbatim>\<open>Consume\<close> returned; \<open>worker_done\<close> and \<open>worker_retired\<close> are the loop of \<^verbatim>\<open>worker\<close>; the rest is the
  shutdown in \<^verbatim>\<open>Run\<close> after \<^verbatim>\<open>Close\<close>.
\<close>

inductive pool_drain :: "('w, 'e) pool_env \<Rightarrow> 'w Pool \<Rightarrow> 'w Pool \<Rightarrow> bool" for env where
  worker_done: "i < length (pp_workers p) \<Longrightarrow> pp_workers p ! i = Holding m \<Longrightarrow>
    pool_drain env p (p\<lparr>pp_workers := (pp_workers p)[i := Waiting],
      pp_counters := process env (pp_cfg p) m (pp_counters p), pp_finished := pp_finished p @ [m]\<rparr>)"
| worker_retired: "pp_noMoreWork p \<Longrightarrow> i < length (pp_workers p) \<Longrightarrow> pp_workers p ! i = Waiting \<Longrightarrow>
    pool_drain env p (p\<lparr>pp_workers := (pp_workers p)[i := Retired]\<rparr>)"
| consumer_stopped: "pp_stop p \<Longrightarrow> \<not> pp_consumed p \<Longrightarrow> pool_drain env p (p\<lparr>pp_consumed := True\<rparr>)"
| no_more_work: "pp_consumed p \<Longrightarrow> \<not> pp_noMoreWork p \<Longrightarrow> pool_drain env p (p\<lparr>pp_noMoreWork := True\<rparr>)"
| all_retired: "pp_noMoreWork p \<Longrightarrow> \<not> pp_done p \<Longrightarrow> list_all (\<lambda>w. w = Retired) (pp_workers p) \<Longrightarrow>
    pool_drain env p (p\<lparr>pp_done := True\<rparr>)"

inductive pool_step :: "('w, 'e) pool_env \<Rightarrow> 'w Pool \<Rightarrow> 'w Pool \<Rightarrow> bool" for env where
  submit_handed: "i < length (pp_workers p) \<Longrightarrow> pp_workers p ! i = Waiting \<Longrightarrow>
    pool_step env p (p\<lparr>pp_workers := (pp_workers p)[i := Holding m], pp_accepted := pp_accepted p @ [m],
      pp_counters := (pp_counters p)\<lparr>ps_received := ps_received (pp_counters p) + 1\<rparr>\<rparr>)"
| submit_refused: "pp_stop p \<Longrightarrow>
    pool_step env p (p\<lparr>pp_refused := pp_refused p @ [m],
      pp_counters := (pp_counters p)\<lparr>ps_received := ps_received (pp_counters p) + 1\<rparr>\<rparr>)"
| close_pool: "pool_step env p (p\<lparr>pp_stop := True\<rparr>)"
| drain: "pool_drain env p p' \<Longrightarrow> pool_step env p p'"

inductive pool_run :: "('w, 'e) pool_env \<Rightarrow> 'w Pool \<Rightarrow> 'w Pool \<Rightarrow> bool" for env where
  run_start: "pool_run env p p"
| run_step: "pool_run env p p' \<Longrightarrow> pool_step env p' p'' \<Longrightarrow> pool_run env p p''"

subsection \<open>One message ends once\<close>

definition ended :: "'w pool_state \<Rightarrow> nat" where
  "ended st = ps_processed st + ps_deadLettered st + ps_dropped st + ps_deadLetterFailures st"

lemma process_outcome:
  fixes env :: "('w, 'e) pool_env"
  shows "\<exists>log :: 'e job_error retry_error option list. let st' = process env cfg payload st; handled = (log \<noteq> [] \<and> last log = None) in
     length log \<le> cfg_MaxAttempts (EnsureDefaults (pc_Retry cfg)) \<and> list_all retryable (butlast log) \<and>
     ps_attempts st' = length log \<and>
     ps_failed st' = ps_failed st + length (filter (\<lambda>r. r \<noteq> None) log) \<and>
     ps_panics st' \<le> ps_panics st + length log \<and>
     ended st' = ended st + 1 \<and> ps_inFlight st' = ps_inFlight st \<and> ps_received st' = ps_received st \<and>
     ps_processed st' = ps_processed st + (if handled then 1 else 0) \<and>
     ps_dropped st' = ps_dropped st + (if \<not> handled \<and> pe_deadLtr env = None then 1 else 0)"
proof -
  let ?st0 = "st\<lparr>ps_inFlight := ps_inFlight st + 1, ps_attempts := 0\<rparr>"
  obtain err rs where run: "Execute (pool_retry_env env cfg payload) (pc_Retry cfg)
      \<lparr>rs_world = ?st0, rs_attempts = 0, rs_exhaustions = 0\<rparr> = (err, rs)" by fastforce
  obtain log :: "'e job_error retry_error option list" where log: "attempts_log ?st0 (rs_world rs, log)"
    "length log \<le> cfg_MaxAttempts (EnsureDefaults (pc_Retry cfg))" "list_all retryable (butlast log)"
    "err = None \<longleftrightarrow> log \<noteq> [] \<and> last log = None" using Execute_attempts [OF run] by blast
  have pr: "process env cfg payload st =
    (let st2 = (case err of None \<Rightarrow> (rs_world rs)\<lparr>ps_processed := ps_processed (rs_world rs) + 1\<rparr>
                | Some cause \<Rightarrow> retire env cfg payload (ps_attempts (rs_world rs)) cause (rs_world rs))
     in st2\<lparr>ps_inFlight := ps_inFlight st2 - 1\<rparr>)"
    using run by (simp add: process_def Let_def)
  have pan: "ps_panics (rs_world rs) \<le> ps_panics st + length log"
    by (rule order_trans [of _ "ps_panics st + length (filter (\<lambda>r. r \<noteq> None) log)"])
      (use log(1) in \<open>auto simp: attempts_log_def\<close>)
  show ?thesis
  proof (cases err)
    case None
    then show ?thesis
      using log pan by (intro exI [of _ log]) (simp add: pr Let_def attempts_log_def ended_def)
  next
    case (Some cause)
    then show ?thesis
      using log pan by (intro exI [of _ log], cases "pe_deadLtr env")
        (auto simp: pr Let_def attempts_log_def ended_def retire_def split: prod.split)
  qed
qed

text \<open>
  A message ends in exactly one way. Whatever the handler does, panics included, processing a message runs it at
  most as often as the retry configuration allows, runs it again only after a failure that may be retried, counts
  every failed attempt, and raises exactly one of the counters processed, dead-lettered, dropped and dead-letter
  failure: processed exactly when the last attempt succeeded, dropped exactly when it did not and there is no
  dead-letter function. The in-flight gauge is back where it was.
\<close>

theorem message_ends_once:
  fixes env :: "('w, 'e) pool_env"
  shows "\<exists>log :: 'e job_error retry_error option list. let st' = process env cfg payload st; handled = (log \<noteq> [] \<and> last log = None) in
     length log \<le> cfg_MaxAttempts (EnsureDefaults (pc_Retry cfg)) \<and> list_all retryable (butlast log) \<and>
     ps_attempts st' = length log \<and>
     ps_failed st' = ps_failed st + length (filter (\<lambda>r. r \<noteq> None) log) \<and>
     ps_panics st' \<le> ps_panics st + length log \<and>
     ended st' = ended st + 1 \<and> ps_inFlight st' = ps_inFlight st \<and> ps_received st' = ps_received st \<and>
     ps_processed st' = ps_processed st + (if handled then 1 else 0) \<and>
     ps_dropped st' = ps_dropped st + (if \<not> handled \<and> pe_deadLtr env = None then 1 else 0)"
  by (rule process_outcome)

lemma process_counters:
  "ended (process env cfg m st) = ended st + 1" "ps_inFlight (process env cfg m st) = ps_inFlight st"
  "ps_received (process env cfg m st) = ps_received st"
  using process_outcome [of env cfg m st] unfolding Let_def by blast+

subsection \<open>Draining\<close>

fun in_hand :: "worker_state \<Rightarrow> string multiset" where
  "in_hand (Holding m) = {#m#}"
| "in_hand _ = {#}"

definition held_messages :: "worker_state list \<Rightarrow> string multiset" where
  "held_messages ws = sum_list (map in_hand ws)"

lemma held_messages_update:
  "i < length ws \<Longrightarrow> held_messages (ws[i := w]) + in_hand (ws ! i) = held_messages ws + in_hand w"
proof (induction ws arbitrary: i)
  case (Cons x ws)
  then show ?case by (cases i) (auto simp: held_messages_def)
qed simp

lemma held_messages_size: "size (held_messages ws) \<le> length ws"
proof (induction ws)
  case (Cons x ws)
  then show ?case by (cases x) (simp_all add: held_messages_def)
qed (simp add: held_messages_def)

lemma held_messages_retired: "list_all (\<lambda>w. w = Retired) ws \<Longrightarrow> held_messages ws = {#}"
  by (induction ws) (auto simp: held_messages_def)

definition pool_inv :: "nat \<Rightarrow> 'w Pool \<Rightarrow> bool" where
  "pool_inv n p \<longleftrightarrow>
     mset (pp_accepted p) = mset (pp_finished p) + held_messages (pp_workers p) \<and>
     ended (pp_counters p) = length (pp_finished p) \<and>
     ps_received (pp_counters p) = length (pp_accepted p) + length (pp_refused p) \<and>
     ps_inFlight (pp_counters p) = 0 \<and> length (pp_workers p) = n \<and>
     (pp_done p \<longrightarrow> list_all (\<lambda>w. w = Retired) (pp_workers p)) \<and>
     (pp_refused p \<noteq> [] \<longrightarrow> pp_stop p)"

lemma retired_stays: "i < length ws \<Longrightarrow> list_all (\<lambda>w. w = Retired) ws \<Longrightarrow> ws ! i = Retired"
  by (simp add: list_all_length)

lemma pool_drain_inv:
  assumes "pool_drain env p p'" and "pool_inv n p"
  shows "pool_inv n p'"
  using assms(1)
proof cases
  case (worker_done i m)
  have "held_messages (pp_workers p) = held_messages ((pp_workers p)[i := Waiting]) + {#m#}"
    using held_messages_update [OF worker_done(2), of Waiting] worker_done(3) by simp
  moreover have "\<not> pp_done p" using retired_stays [OF worker_done(2)] worker_done(3) assms(2) by (auto simp: pool_inv_def)
  ultimately show ?thesis
    using assms(2) by (simp add: worker_done(1) pool_inv_def process_counters)
next
  case (worker_retired i)
  have "held_messages ((pp_workers p)[i := Retired]) = held_messages (pp_workers p)"
    using held_messages_update [OF worker_retired(3), of Retired] worker_retired(4) by simp
  moreover have "\<not> pp_done p" using retired_stays [OF worker_retired(3)] worker_retired(4) assms(2) by (auto simp: pool_inv_def)
  ultimately show ?thesis using assms(2) by (simp add: worker_retired(1) pool_inv_def)
qed (use assms(2) in \<open>auto simp: pool_inv_def\<close>)

lemma pool_step_inv:
  assumes "pool_step env p p'" and "pool_inv n p"
  shows "pool_inv n p'"
  using assms(1)
proof cases
  case (submit_handed i m)
  have "held_messages ((pp_workers p)[i := Holding m]) = held_messages (pp_workers p) + {#m#}"
    using held_messages_update [OF submit_handed(2), of "Holding m"] submit_handed(3) by simp
  moreover have "\<not> pp_done p" using retired_stays [OF submit_handed(2)] submit_handed(3) assms(2) by (auto simp: pool_inv_def)
  ultimately show ?thesis using assms(2) by (simp add: submit_handed(1) pool_inv_def ended_def)
next
  case drain
  then show ?thesis using assms(2) by (rule pool_drain_inv)
qed (use assms(2) in \<open>auto simp: pool_inv_def ended_def\<close>)

lemma start_pool_inv: "pool_inv (nat (pc_Concurrency (EnsureDefaults_pool cfg))) (start_pool cfg w)"
proof -
  have "held_messages (replicate k Waiting) = {#}" for k by (induction k) (auto simp: held_messages_def)
  then show ?thesis by (simp add: start_pool_def pool_inv_def Let_def ended_def)
qed

lemma pool_run_inv: "pool_run env p p' \<Longrightarrow> pool_inv n p \<Longrightarrow> pool_inv n p'"
  by (induction rule: pool_run.induct) (auto intro: pool_step_inv)

fun worker_weight :: "worker_state \<Rightarrow> nat" where
  "worker_weight (Holding m) = 2"
| "worker_weight Waiting = 1"
| "worker_weight Retired = 0"

definition drain_measure :: "'w Pool \<Rightarrow> nat" where
  "drain_measure p = sum_list (map worker_weight (pp_workers p)) + of_bool (\<not> pp_consumed p) +
     of_bool (\<not> pp_noMoreWork p) + of_bool (\<not> pp_done p)"

lemma worker_weight_update:
  "i < length ws \<Longrightarrow> sum_list (map worker_weight (ws[i := w])) + worker_weight (ws ! i) =
     sum_list (map worker_weight ws) + worker_weight w"
proof (induction ws arbitrary: i)
  case (Cons x ws)
  then show ?case by (cases i) auto
qed simp

lemma pool_drain_decreases: "pool_drain env p p' \<Longrightarrow> drain_measure p' < drain_measure p"
proof (induction rule: pool_drain.induct)
  case (worker_done i p m)
  then show ?case using worker_weight_update [OF worker_done(1), of Waiting] by (simp add: drain_measure_def)
next
  case (worker_retired p i)
  then show ?case using worker_weight_update [OF worker_retired(2), of Retired] by (simp add: drain_measure_def)
qed (simp_all add: drain_measure_def)

lemma pool_drain_enabled:
  assumes "pp_stop p" and "\<not> pp_done p"
  shows "\<exists>p'. pool_drain env p p'"
proof (cases "pp_consumed p \<and> pp_noMoreWork p")
  case False
  then show ?thesis using assms(1) consumer_stopped no_more_work by blast
next
  case True
  show ?thesis
  proof (cases "list_all (\<lambda>w. w = Retired) (pp_workers p)")
    case False
    then obtain i where i: "i < length (pp_workers p)" "pp_workers p ! i \<noteq> Retired" by (auto simp: list_all_length)
    then show ?thesis using True worker_done worker_retired by (cases "pp_workers p ! i") blast+
  qed (use True assms(2) all_retired in blast)
qed

text \<open>
  C22. Closing a pool drains it. In every interleaving of the consumer, the workers and the shutdown, each message that
  was handed over is finished or in the hands of a worker, no more are in hand than there are workers, and every
  call of the consumer is counted and was either accepted or, after the stop signal, refused. Once \<^verbatim>\<open>Close\<close> has been
  called a step of the shutdown is always possible until the pool is done and every such step brings it closer, and
  when it is done every accepted message has ended in exactly one way.
\<close>

theorem pool_drains:
  assumes "pool_run env (start_pool cfg w) p"
  shows "mset (pp_accepted p) = mset (pp_finished p) + held_messages (pp_workers p) \<and>
    int (size (held_messages (pp_workers p))) \<le> pc_Concurrency (EnsureDefaults_pool cfg) \<and>
    ps_received (pp_counters p) = length (pp_accepted p) + length (pp_refused p) \<and>
    (pp_refused p \<noteq> [] \<longrightarrow> pp_stop p) \<and>
    (pp_stop p \<and> \<not> pp_done p \<longrightarrow> (\<exists>p'. pool_drain env p p')) \<and>
    (\<forall>p'. pool_drain env p p' \<longrightarrow> drain_measure p' < drain_measure p) \<and>
    (pp_done p \<longrightarrow> mset (pp_accepted p) = mset (pp_finished p) \<and> ended (pp_counters p) = length (pp_accepted p))"
proof -
  have inv: "pool_inv (nat (pc_Concurrency (EnsureDefaults_pool cfg))) p"
    using pool_run_inv [OF assms start_pool_inv] .
  have pos: "0 < pc_Concurrency (EnsureDefaults_pool cfg)"
    by (simp add: EnsureDefaults_pool_def DefaultConcurrency_def Let_def)
  have fin: "mset (pp_accepted p) = mset (pp_finished p) \<and> ended (pp_counters p) = length (pp_accepted p)" if "pp_done p"
    using that inv held_messages_retired [of "pp_workers p"] by (auto simp: pool_inv_def dest: mset_eq_length)
  have "int (size (held_messages (pp_workers p))) \<le> pc_Concurrency (EnsureDefaults_pool cfg)"
    using held_messages_size [of "pp_workers p"] inv pos by (simp add: pool_inv_def)
  then show ?thesis
    using inv fin pool_drain_enabled [of p env] pool_drain_decreases [of env p] by (simp add: pool_inv_def)
qed

definition quiet_env :: "(nat, string) pool_env" where
  "quiet_env = \<lparr>pe_handler = (\<lambda>timeout payload w. (Returned None, w)), pe_deadLtr = None, pe_ErrorText = (\<lambda>_. ''error''),
     pe_now = int, pe_floats = \<lparr>f64 = real_of_int, fpow = (\<lambda>d m n. real_of_int d)\<rparr>, pe_rand = (\<lambda>w. (\<lambda>d. d, w)),
     pe_ctxDone = (\<lambda>_. False), pe_sleep = (\<lambda>d w. (True, w))\<rparr>"

definition one_worker :: PoolConfig where
  "one_worker = \<lparr>pc_Topic = ''t'', pc_Retry = \<lparr>cfg_MaxAttempts = 1, cfg_InitialDelay = 1, cfg_MaxDelay = 1,
     cfg_Multiplier = 2, cfg_UseJitter = False\<rparr>, pc_Concurrency = 1, pc_HandlerTimeout = 0\<rparr>"

theorem pool_drains_witness:
  "\<exists>p. pool_run quiet_env (start_pool one_worker 0) p \<and> pp_accepted p = [''m''] \<and> pp_done p \<and>
     mset (pp_accepted p) = mset (pp_finished p) \<and> ended (pp_counters p) = 1"
proof -
  let ?p0 = "start_pool one_worker 0 :: nat Pool"
  let ?p1 = "?p0\<lparr>pp_workers := (pp_workers ?p0)[0 := Holding ''m''], pp_accepted := pp_accepted ?p0 @ [''m''],
      pp_counters := (pp_counters ?p0)\<lparr>ps_received := ps_received (pp_counters ?p0) + 1\<rparr>\<rparr>"
  let ?p2 = "?p1\<lparr>pp_workers := (pp_workers ?p1)[0 := Waiting],
      pp_counters := process quiet_env (pp_cfg ?p1) ''m'' (pp_counters ?p1), pp_finished := pp_finished ?p1 @ [''m'']\<rparr>"
  let ?p3 = "?p2\<lparr>pp_stop := True\<rparr>"
  let ?p4 = "?p3\<lparr>pp_consumed := True\<rparr>"
  let ?p5 = "?p4\<lparr>pp_noMoreWork := True\<rparr>"
  let ?p6 = "?p5\<lparr>pp_workers := (pp_workers ?p5)[0 := Retired]\<rparr>"
  let ?p7 = "?p6\<lparr>pp_done := True\<rparr>"
  have ws: "pp_workers ?p0 = [Waiting]"
    by (simp add: start_pool_def EnsureDefaults_pool_def one_worker_def Let_def numeral_eq_Suc)
  have fl: "\<not> pp_consumed ?p0" "\<not> pp_noMoreWork ?p0" "\<not> pp_done ?p0" "pp_accepted ?p0 = []"
    by (simp_all add: start_pool_def Let_def)
  have "pool_step quiet_env ?p0 ?p1" by (rule submit_handed) (simp_all add: ws)
  moreover have "pool_step quiet_env ?p1 ?p2" by (rule drain, rule worker_done) (simp_all add: ws)
  moreover have "pool_step quiet_env ?p2 ?p3" by (rule close_pool)
  moreover have "pool_step quiet_env ?p3 ?p4" by (rule drain, rule consumer_stopped) (simp_all add: fl)
  moreover have "pool_step quiet_env ?p4 ?p5" by (rule drain, rule no_more_work) (simp_all add: fl)
  moreover have "pool_step quiet_env ?p5 ?p6" by (rule drain, rule worker_retired) (simp_all add: ws)
  moreover have "pool_step quiet_env ?p6 ?p7" by (rule drain, rule all_retired) (simp_all add: ws fl)
  ultimately have run: "pool_run quiet_env ?p0 ?p7" by (meson run_start run_step)
  have "pp_accepted ?p7 = [''m'']" "pp_done ?p7" by (simp_all add: fl)
  with pool_drains [OF run] run show ?thesis by (intro exI [of _ ?p7]) simp
qed

end
