(* ===== verification/JobsScheduler.thy ===== *)
theory JobsScheduler
  imports LockScoped GoStrings
begin

text \<open>
  The scheduler of the package \<^verbatim>\<open>jobs\<close>: cron expressions and their zones (\<^verbatim>\<open>cron.go\<close>), the registration of jobs and
  one run of a job under its lease (\<^verbatim>\<open>scheduler.go\<close>, the scheduler half of \<^verbatim>\<open>config.go\<close>, \<^verbatim>\<open>panics.go\<close>).

  The parser of cron expressions and the fire times of a parsed one belong to \<^verbatim>\<open>robfig/cron\<close>: they are the arguments
  gathered in \<open>cron_api\<close>, over a type \<^typ>\<open>'s\<close> of parsed fields and \<^typ>\<open>'l\<close> of zones. A tick is a function on the
  counters and the world \<^typ>\<open>'w\<close>, for any locker; the waiting between ticks is not modelled. A fleet of replicas
  that share the in-memory locker is a step relation in which a run begins and ends separately.
\<close>

subsection \<open>cron.go\<close>

datatype ('s, 'l) cron_parsed = SpecSchedule 's 'l | OtherSchedule 's

record ('s, 'l) cron_api =
  ca_ParseStandard :: "string \<Rightarrow> ('s, 'l) cron_parsed option"
  ca_Next :: "('s, 'l) cron_parsed \<Rightarrow> gotime \<Rightarrow> gotime"
  ca_LocationName :: "'l \<Rightarrow> string"

definition cronTZPrefix :: string where "cronTZPrefix = ''CRON_TZ=''"

definition cronTZPrefixes :: "string list" where "cronTZPrefixes = [cronTZPrefix, ''TZ='']"

datatype cron_error = EmptySpec | TimezoneOnly string | ParserError string | NilLocation

record ('s, 'l) cronSchedule =
  cs_Schedule :: "('s, 'l) cron_parsed"
  cs_loc :: "'l option"
  cs_spec :: string
  cs_pinned :: bool

definition cron_String :: "('s, 'l) cron_api \<Rightarrow> ('s, 'l) cronSchedule \<Rightarrow> string" where
  "cron_String api c =
     (case cs_loc c of
        None \<Rightarrow> cs_spec c
      | Some loc \<Rightarrow> cronTZPrefix @ ca_LocationName api loc @ '' '' @ cs_spec c)"

definition relocate :: "'l option \<Rightarrow> bool \<Rightarrow> ('s, 'l) cronSchedule \<Rightarrow> ('s, 'l) cronSchedule" where
  "relocate loc pin c =
     (case loc of
        None \<Rightarrow> c
      | Some l \<Rightarrow>
          if cs_pinned c then c
          else (case cs_Schedule c of
                  OtherSchedule _ \<Rightarrow> c
                | SpecSchedule s _ \<Rightarrow>
                    \<lparr>cs_Schedule = SpecSchedule s l, cs_loc = Some l, cs_spec = cs_spec c, cs_pinned = pin\<rparr>))"

definition hasTimezone :: "string \<Rightarrow> bool" where
  "hasTimezone spec \<longleftrightarrow> list_ex (\<lambda>p. take (length p) spec = p) cronTZPrefixes"

definition splitTimezone :: "string \<Rightarrow> string option" where
  "splitTimezone spec =
     (if \<not> hasTimezone spec then Some spec
      else (case GoStrings.cut CHR '' '' spec of None \<Rightarrow> None | Some (_, rest) \<Rightarrow> Some (TrimSpace rest)))"

definition parseCron :: "('s, 'l) cron_api \<Rightarrow> string \<Rightarrow> cron_error + ('s, 'l) cronSchedule" where
  "parseCron api spec =
     (let trimmed = TrimSpace spec
      in if trimmed = [] then Inl EmptySpec
         else case splitTimezone trimmed of
                None \<Rightarrow> Inl (TimezoneOnly spec)
              | Some flds \<Rightarrow>
                  (let pinned = hasTimezone trimmed;
                       located = (if \<not> pinned then cronTZPrefix @ ''UTC '' @ trimmed else trimmed)
                   in case ca_ParseStandard api located of
                        None \<Rightarrow> Inl (ParserError spec)
                      | Some schedule \<Rightarrow>
                          Inr \<lparr>cs_Schedule = schedule,
                               cs_loc = (case schedule of SpecSchedule _ l \<Rightarrow> Some l | OtherSchedule _ \<Rightarrow> None),
                               cs_spec = flds, cs_pinned = pinned\<rparr>))"

definition CronIn :: "('s, 'l) cron_api \<Rightarrow> 'l option \<Rightarrow> string \<Rightarrow> cron_error + ('s, 'l) cronSchedule" where
  "CronIn api loc spec =
     (if loc = None then Inl NilLocation
      else case parseCron api spec of
             Inl err \<Rightarrow> Inl err
           | Inr schedule \<Rightarrow> Inr (relocate loc True schedule))"

subsection \<open>Jobs and their registration\<close>

datatype ('s, 'l) schedule = CronSched "('s, 'l) cronSchedule" | CustomSched "gotime \<Rightarrow> gotime"

fun Next :: "('s, 'l) cron_api \<Rightarrow> ('s, 'l) schedule \<Rightarrow> gotime \<Rightarrow> gotime" where
  "Next api (CronSched c) t = ca_Next api (cs_Schedule c) t"
| "Next api (CustomSched f) t = f t"

record ('w, 'e, 's, 'l) Job =
  jb_Run :: "(duration option \<Rightarrow> 'w \<Rightarrow> 'e outcome \<times> 'w) option"
  jb_Schedule :: "('s, 'l) schedule option"
  jb_Name :: string
  jb_Interval :: duration
  jb_Timeout :: duration
  jb_LeaseTTL :: duration
  jb_RunOnStart :: bool

datatype invalid_job = EmptyName | NoFunction | BothCadences | NoCadence | NeverFires

definition validate_job :: "('s, 'l) cron_api \<Rightarrow> gotime \<Rightarrow> ('w, 'e, 's, 'l) Job \<Rightarrow> invalid_job option" where
  "validate_job api now j =
     (if jb_Name j = [] then Some EmptyName
      else if jb_Run j = None then Some NoFunction
      else if jb_Schedule j \<noteq> None \<and> jb_Interval j > 0 then Some BothCadences
      else if jb_Schedule j = None \<and> jb_Interval j \<le> 0 then Some NoCadence
      else (case jb_Schedule j of
              None \<Rightarrow> None
            | Some sched \<Rightarrow> if time_is_zero (Next api sched now) then Some NeverFires else None))"

text \<open>\<^verbatim>\<open>Job.window\<close>: how long a calendar job has before it is next due.\<close>

definition window_of :: "('s, 'l) cron_api \<Rightarrow> ('s, 'l) schedule \<Rightarrow> gotime \<Rightarrow> duration" where
  "window_of api sched t = (let next = Next api sched t in if time_is_zero next then 0 else next - t)"

definition DefaultLockKeyPrefix :: string where "DefaultLockKeyPrefix = ''jobs.scheduler.''"
definition DefaultLeaseTTL :: duration where "DefaultLeaseTTL = Minute"
definition DefaultTimezone :: string where "DefaultTimezone = ''UTC''"

record SchedulerConfig =
  sg_LockKeyPrefix :: string
  sg_Timezone :: string
  sg_DefaultLeaseTTL :: duration
  sg_DefaultTimeout :: duration

definition EnsureDefaults_sched :: "SchedulerConfig \<Rightarrow> SchedulerConfig" where
  "EnsureDefaults_sched cfg =
     (let c1 = (if sg_LockKeyPrefix cfg = [] then cfg\<lparr>sg_LockKeyPrefix := DefaultLockKeyPrefix\<rparr> else cfg);
          c2 = (if sg_DefaultLeaseTTL c1 \<le> 0 then c1\<lparr>sg_DefaultLeaseTTL := DefaultLeaseTTL\<rparr> else c1)
      in if sg_Timezone c2 = [] then c2\<lparr>sg_Timezone := DefaultTimezone\<rparr> else c2)"

record ('w, 'e, 's, 'l) Scheduler =
  sd_cfg :: SchedulerConfig
  sd_location :: 'l
  sd_jobs :: "(string, ('w, 'e, 's, 'l) Job) gomap"
  sd_running :: bool

datatype sched_error =
    ErrNilSchedulerConfig | ErrNilLocker | ErrLoadLocation string
  | ErrSchedulerRunning | ErrInvalidJob invalid_job | ErrDuplicateJob string

text \<open>
  The arguments: a configuration unless it is nil, whether a locker was given, and \<^verbatim>\<open>time.LoadLocation\<close>. The
  bounds that the configuration is validated against are not modelled.
\<close>

definition NewScheduler :: "(string \<Rightarrow> 'l option) \<Rightarrow> SchedulerConfig option \<Rightarrow> bool \<Rightarrow>
    sched_error + ('w, 'e, 's, 'l) Scheduler" where
  "NewScheduler load cfg hasLocker =
     (case cfg of
        None \<Rightarrow> Inl ErrNilSchedulerConfig
      | Some c0 \<Rightarrow>
          if \<not> hasLocker then Inl ErrNilLocker
          else
            (let c = EnsureDefaults_sched c0
             in case load (sg_Timezone c) of
                  None \<Rightarrow> Inl (ErrLoadLocation (sg_Timezone c))
                | Some loc \<Rightarrow> Inr \<lparr>sd_cfg = c, sd_location = loc, sd_jobs = [], sd_running = False\<rparr>))"

definition settle_zone :: "'l \<Rightarrow> ('w, 'e, 's, 'l) Job \<Rightarrow> ('w, 'e, 's, 'l) Job" where
  "settle_zone loc j =
     (case jb_Schedule j of
        Some (CronSched c) \<Rightarrow> j\<lparr>jb_Schedule := Some (CronSched (relocate (Some loc) False c))\<rparr>
      | _ \<Rightarrow> j)"

fun stage_jobs :: "('s, 'l) cron_api \<Rightarrow> gotime \<Rightarrow> ('w, 'e, 's, 'l) Scheduler \<Rightarrow> ('w, 'e, 's, 'l) Job list \<Rightarrow>
    (string, ('w, 'e, 's, 'l) Job) gomap \<Rightarrow> sched_error + (string, ('w, 'e, 's, 'l) Job) gomap" where
  "stage_jobs api now s [] staged = Inr staged"
| "stage_jobs api now s (j # js) staged =
     (let job = settle_zone (sd_location s) j
      in case validate_job api now job of
           Some bad \<Rightarrow> Inl (ErrInvalidJob bad)
         | None \<Rightarrow>
             (if mget (sd_jobs s) (jb_Name job) \<noteq> None then Inl (ErrDuplicateJob (jb_Name job))
              else if mget staged (jb_Name job) \<noteq> None then Inl (ErrDuplicateJob (jb_Name job))
              else stage_jobs api now s js (mput (jb_Name job) job staged)))"

definition Register :: "('s, 'l) cron_api \<Rightarrow> gotime \<Rightarrow> ('w, 'e, 's, 'l) Job list \<Rightarrow> ('w, 'e, 's, 'l) Scheduler \<Rightarrow>
    sched_error option \<times> ('w, 'e, 's, 'l) Scheduler" where
  "Register api now jobs s =
     (if sd_running s then (Some ErrSchedulerRunning, s)
      else case stage_jobs api now s jobs [] of
             Inl err \<Rightarrow> (Some err, s)
           | Inr staged \<Rightarrow> (None, s\<lparr>sd_jobs := foldl (\<lambda>m (k, j). mput k j m) (sd_jobs s) staged\<rparr>))"

subsection \<open>One tick\<close>

record ('w, 'h) sched_env =
  se_acquire :: "string \<Rightarrow> duration \<Rightarrow> 'w \<Rightarrow> (lock_error + 'h) \<times> 'w"
  se_release :: "'h \<Rightarrow> 'w \<Rightarrow> lock_error option \<times> 'w"
  se_now :: "'w \<Rightarrow> gotime"

record 'w sched_state =
  ss_world :: 'w
  ss_runs :: nat
  ss_failures :: nat
  ss_skipped :: nat
  ss_panics :: nat
  ss_lockErrors :: nat
  ss_leasesExpired :: nat
  ss_overruns :: nat

text \<open>The error of a run: the job's own, or that it panicked.\<close>

datatype 'e run_error = JobError 'e | ErrJobPanicked

text \<open>The deadline a run's context carries: the job's own, else the scheduler's, if it is positive.\<close>

definition run_timeout :: "('w, 'e, 's, 'l) Scheduler \<Rightarrow> ('w, 'e, 's, 'l) Job \<Rightarrow> duration option" where
  "run_timeout s job =
     (let timeout = (if jb_Timeout job \<le> 0 then sg_DefaultTimeout (sd_cfg s) else jb_Timeout job)
      in if timeout > 0 then Some timeout else None)"

definition invoke_job :: "('w, 'e, 's, 'l) Scheduler \<Rightarrow> ('w, 'e, 's, 'l) Job \<Rightarrow> 'w sched_state \<Rightarrow>
    'e run_error option \<times> 'w sched_state" where
  "invoke_job s job st =
     (case the (jb_Run job) (run_timeout s job) (ss_world st) of (out, w) \<Rightarrow>
        let st1 = st\<lparr>ss_world := w\<rparr>
        in case out of
             Returned err \<Rightarrow> (map_option JobError err, st1)
           | Panicked \<Rightarrow> (Some ErrJobPanicked, st1\<lparr>ss_panics := ss_panics st1 + 1\<rparr>))"

definition execute_job :: "('w, 'h) sched_env \<Rightarrow> ('w, 'e, 's, 'l) Scheduler \<Rightarrow> ('w, 'e, 's, 'l) Job \<Rightarrow> duration \<Rightarrow>
    'w sched_state \<Rightarrow> 'w sched_state" where
  "execute_job env s job window st =
     (let st1 = st\<lparr>ss_runs := ss_runs st + 1\<rparr>;
          startTime = se_now env (ss_world st1)
      in case invoke_job s job st1 of (err, st2) \<Rightarrow>
           (let elapsed = se_now env (ss_world st2) - startTime;
                st3 = (if window > 0 \<and> elapsed > window then st2\<lparr>ss_overruns := ss_overruns st2 + 1\<rparr> else st2)
            in if err \<noteq> None then st3\<lparr>ss_failures := ss_failures st3 + 1\<rparr> else st3))"

definition lease_key :: "('w, 'e, 's, 'l) Scheduler \<Rightarrow> ('w, 'e, 's, 'l) Job \<Rightarrow> string" where
  "lease_key s job = sg_LockKeyPrefix (sd_cfg s) @ jb_Name job"

definition lease_ttl :: "('w, 'e, 's, 'l) Scheduler \<Rightarrow> ('w, 'e, 's, 'l) Job \<Rightarrow> duration" where
  "lease_ttl s job = (if jb_LeaseTTL job \<le> 0 then sg_DefaultLeaseTTL (sd_cfg s) else jb_LeaseTTL job)"

definition release_lease :: "('w, 'h) sched_env \<Rightarrow> 'h \<Rightarrow> 'w sched_state \<Rightarrow> 'w sched_state" where
  "release_lease env lock st =
     (case se_release env lock (ss_world st) of (releaseErr, w) \<Rightarrow>
        let st1 = st\<lparr>ss_world := w\<rparr>
        in case releaseErr of
             None \<Rightarrow> st1
           | Some err \<Rightarrow>
               if err = ErrLockNotHeld then st1\<lparr>ss_leasesExpired := ss_leasesExpired st1 + 1\<rparr>
               else st1\<lparr>ss_lockErrors := ss_lockErrors st1 + 1\<rparr>)"

definition tick_job :: "('w, 'h) sched_env \<Rightarrow> ('w, 'e, 's, 'l) Scheduler \<Rightarrow> ('w, 'e, 's, 'l) Job \<Rightarrow> duration \<Rightarrow>
    'w sched_state \<Rightarrow> 'w sched_state" where
  "tick_job env s job window st =
     (case se_acquire env (lease_key s job) (lease_ttl s job) (ss_world st) of
        (Inl err, w) \<Rightarrow>
          (let st1 = st\<lparr>ss_world := w\<rparr>
           in if err = ErrLockNotAcquired then st1\<lparr>ss_skipped := ss_skipped st1 + 1\<rparr>
              else st1\<lparr>ss_lockErrors := ss_lockErrors st1 + 1\<rparr>)
      | (Inr lock, w) \<Rightarrow> release_lease env lock (execute_job env s job window (st\<lparr>ss_world := w\<rparr>)))"

subsection \<open>Zones\<close>

text \<open>
  Which zone a schedule is read in: the prefix of the expression wins over \<^verbatim>\<open>CronIn\<close>, which wins over the zone of
  the scheduler it is registered with, and a plain delay has none.
\<close>

lemma parseCron_pinned: "parseCron api spec = Inr c \<Longrightarrow> cs_pinned c \<longleftrightarrow> hasTimezone (TrimSpace spec)"
  by (auto simp: parseCron_def Let_def split: if_splits option.splits)

lemma relocate_cases:
  "relocate (Some l) pin c =
     (case cs_Schedule c of
        SpecSchedule s _ \<Rightarrow>
          if cs_pinned c then c else \<lparr>cs_Schedule = SpecSchedule s l, cs_loc = Some l, cs_spec = cs_spec c, cs_pinned = pin\<rparr>
      | OtherSchedule _ \<Rightarrow> c)"
  by (cases "cs_Schedule c") (simp_all add: relocate_def)

lemma cron_zone_precedence:
  assumes "parseCron api spec = Inr c"
  shows "hasTimezone (TrimSpace spec) \<Longrightarrow> relocate loc pin c = c"
    and "CronIn api (Some l) spec = Inr c' \<Longrightarrow> cs_Schedule c = SpecSchedule f l0 \<Longrightarrow> relocate loc pin c' = c'"
    and "CronIn api (Some l) spec = Inr c' \<Longrightarrow> cs_Schedule c = SpecSchedule f l0 \<Longrightarrow>
      cs_Schedule c' = SpecSchedule f (if hasTimezone (TrimSpace spec) then l0 else l)"
  using parseCron_pinned [OF assms] assms
  by (auto simp: CronIn_def relocate_def split: option.splits if_splits cron_parsed.splits)

subsection \<open>Registration\<close>

lemma settle_zone_name [simp]: "jb_Name (settle_zone loc j) = jb_Name j"
  by (simp add: settle_zone_def split: option.split schedule.split)

definition acceptable :: "('s, 'l) cron_api \<Rightarrow> gotime \<Rightarrow> ('w, 'e, 's, 'l) Scheduler \<Rightarrow> ('w, 'e, 's, 'l) Job list \<Rightarrow> bool" where
  "acceptable api now s jobs \<longleftrightarrow>
     (\<forall>j \<in> set jobs. validate_job api now (settle_zone (sd_location s) j) = None \<and> mget (sd_jobs s) (jb_Name j) = None) \<and>
     distinct (map jb_Name jobs)"

lemma stage_jobs_ok:
  "(\<exists>m. stage_jobs api now s jobs staged = Inr m) \<longleftrightarrow>
     acceptable api now s jobs \<and> (\<forall>j \<in> set jobs. mget staged (jb_Name j) = None)"
proof (induction api now s jobs staged rule: stage_jobs.induct)
  case (2 api now s j js staged)
  let ?job = "settle_zone (sd_location s) j"
  show ?case
  proof (cases "validate_job api now ?job = None \<and> mget (sd_jobs s) (jb_Name j) = None \<and> mget staged (jb_Name j) = None")
    case True
    then have "stage_jobs api now s (j # js) staged = stage_jobs api now s js (mput (jb_Name j) ?job staged)" by (simp add: Let_def)
    moreover have "(\<exists>m. stage_jobs api now s js (mput (jb_Name j) ?job staged) = Inr m) \<longleftrightarrow>
        acceptable api now s js \<and> (\<forall>j' \<in> set js. mget (mput (jb_Name j) ?job staged) (jb_Name j') = None)"
      using 2 [OF refl] True by simp
    moreover have "acceptable api now s (j # js) \<longleftrightarrow> acceptable api now s js \<and> jb_Name j \<notin> jb_Name ` set js"
      using True by (auto simp: acceptable_def)
    moreover have "(\<forall>j' \<in> set js. mget (mput (jb_Name j) ?job staged) (jb_Name j') = None) \<longleftrightarrow>
        (\<forall>j' \<in> set js. mget staged (jb_Name j') = None) \<and> jb_Name j \<notin> jb_Name ` set js"
      by (auto simp: image_iff)
    ultimately show ?thesis using True by auto
  qed (auto simp: acceptable_def Let_def split: option.splits)
qed (simp add: acceptable_def)

lemma stage_jobs_map:
  "stage_jobs api now s jobs staged = Inr m \<Longrightarrow> is_map staged \<Longrightarrow> is_map m \<and>
     (\<forall>k. mget m k = (case find (\<lambda>j. jb_Name j = k) jobs of
                        None \<Rightarrow> mget staged k | Some j \<Rightarrow> Some (settle_zone (sd_location s) j)))"
proof (induction api now s jobs staged rule: stage_jobs.induct)
  case (2 api now s j js staged)
  let ?job = "settle_zone (sd_location s) j"
  from 2(2) have v: "validate_job api now ?job = None" "mget (sd_jobs s) (jb_Name ?job) = None" "mget staged (jb_Name ?job) = None"
    and st: "stage_jobs api now s js (mput (jb_Name ?job) ?job staged) = Inr m"
    by (auto simp: Let_def split: option.splits if_splits)
  from stage_jobs_ok [of api now s js "mput (jb_Name ?job) ?job staged"] st
  have n: "\<forall>j' \<in> set js. jb_Name j' \<noteq> jb_Name j" by auto
  have "find (\<lambda>j'. jb_Name j' = jb_Name j) js = None" using n by (auto simp: find_None_iff)
  with 2(1) [OF refl v(1)] v st 2(3) show ?case by (auto split: option.split)
qed simp

lemma copy_map:
  "is_map m \<Longrightarrow> mget (foldl (\<lambda>m (k, j). mput k j m) m0 m) k = (case mget m k of None \<Rightarrow> mget m0 k | Some j \<Rightarrow> Some j)"
proof (induction m arbitrary: m0)
  case (Cons a m)
  obtain k' j where a: "a = (k', j)" by fastforce
  have "is_map m" "mget m k' = None" using Cons.prems by (auto simp: a is_map_def mget_def map_of_eq_None_iff)
  with Cons.IH show ?case by (auto simp: a mget_def [of "(k', j) # m"] simp flip: mget_def split: option.split)
qed simp

text \<open>
  Registration is all or nothing. It succeeds exactly when the scheduler is not running, every job, with its zone
  settled, is valid, and no name is taken or used twice. Then every job is registered under its name with its zone
  settled and every earlier job is as it was; otherwise the scheduler is unchanged.
\<close>

theorem Register_all_or_nothing:
  "(fst (Register api now jobs s) = None \<longleftrightarrow> \<not> sd_running s \<and> acceptable api now s jobs) \<and>
   snd (Register api now jobs s) =
     (if fst (Register api now jobs s) = None then s\<lparr>sd_jobs := sd_jobs (snd (Register api now jobs s))\<rparr> else s) \<and>
   (\<forall>k. mget (sd_jobs (snd (Register api now jobs s))) k =
      (case find (\<lambda>j. jb_Name j = k) (if fst (Register api now jobs s) = None then jobs else []) of
         None \<Rightarrow> mget (sd_jobs s) k
       | Some j \<Rightarrow> Some (settle_zone (sd_location s) j)))"
proof (cases "stage_jobs api now s jobs []")
  case (Inl err)
  with stage_jobs_ok [of api now s jobs "[]"] show ?thesis by (auto simp: Register_def)
next
  case (Inr m)
  with stage_jobs_ok [of api now s jobs "[]"] have ok: "acceptable api now s jobs" by auto
  from stage_jobs_map [OF Inr] have m: "is_map m" "\<And>k. mget m k =
      map_option (settle_zone (sd_location s)) (find (\<lambda>j. jb_Name j = k) jobs)" by (auto split: option.split)
  from Inr ok show ?thesis
    by (auto simp: Register_def copy_map [OF m(1)] m(2) split: option.split)
qed

subsection \<open>What a tick does\<close>

text \<open>
  What a tick does, for any locker and any job. A contended lease skips the run and counts it; any other failure
  to acquire is counted and nothing runs. Otherwise the job runs exactly once, with its deadline, on the world the
  acquisition left, and
  the lease is released exactly once on the world the run left, even after a panic; the run counts as failed when the
  job returned an error or panicked, an expired lease is told apart from other failures to release, and every other
  counter keeps its value.
\<close>

theorem tick_runs_under_lease:
  assumes "jb_Run job = Some run"
    and "se_acquire env (lease_key s job) (lease_ttl s job) (ss_world st) = (acquired, w1)"
    and "run (run_timeout s job) w1 = (out, w2)"
  shows "case acquired of
      Inl err \<Rightarrow> tick_job env s job window st =
        st\<lparr>ss_world := w1, ss_skipped := ss_skipped st + of_bool (err = ErrLockNotAcquired),
           ss_lockErrors := ss_lockErrors st + of_bool (err \<noteq> ErrLockNotAcquired)\<rparr>
    | Inr lock \<Rightarrow>
        (case se_release env lock w2 of (released, w3) \<Rightarrow>
           tick_job env s job window st =
             st\<lparr>ss_world := w3, ss_runs := ss_runs st + 1, ss_failures := ss_failures st + of_bool (out \<noteq> Returned None),
                ss_panics := ss_panics st + of_bool (out = Panicked),
                ss_lockErrors := ss_lockErrors st + of_bool (released \<notin> {None, Some ErrLockNotHeld}),
                ss_leasesExpired := ss_leasesExpired st + of_bool (released = Some ErrLockNotHeld),
                ss_overruns := ss_overruns st + of_bool (0 < window \<and> window < se_now env w2 - se_now env w1)\<rparr>)"
proof (cases acquired)
  case (Inl err)
  with assms(2) show ?thesis by (simp add: tick_job_def Let_def)
next
  case (Inr lock)
  obtain released w3 where r: "se_release env lock w2 = (released, w3)" by fastforce
  have e: "execute_job env s job window (st\<lparr>ss_world := w1\<rparr>) =
      st\<lparr>ss_world := w2, ss_runs := ss_runs st + 1, ss_failures := ss_failures st + of_bool (out \<noteq> Returned None),
         ss_panics := ss_panics st + of_bool (out = Panicked),
         ss_overruns := ss_overruns st + of_bool (0 < window \<and> window < se_now env w2 - se_now env w1)\<rparr>"
    using assms(1,3) by (cases out) (auto simp: execute_job_def invoke_job_def Let_def split: option.split)
  show ?thesis
    using Inr assms(2) r by (cases released) (auto simp: tick_job_def e release_lease_def Let_def)
qed

subsection \<open>A fleet of replicas\<close>

text \<open>
  Any number of replicas, each with its scheduler, share one in-memory locker. A run in progress is known by its
  replica, its job, the token of its lease and the lease's deadline. A run begins with the acquisition of a tick and
  ends, at any later time, with its release; in between anything else may happen, and time passes.
\<close>

record job_run =
  jr_replica :: nat
  jr_job :: string
  jr_key :: string
  jr_token :: string
  jr_deadline :: gotime

record fleet =
  fl_locks :: lock_system
  fl_running :: "job_run set"

definition start_fleet :: "gotime \<Rightarrow> fleet" where
  "start_fleet t = \<lparr>fl_locks = init_locks t, fl_running = {}\<rparr>"

definition run_lock :: "job_run \<Rightarrow> lock" where
  "run_lock r = \<lparr>lk_key = jr_key r, lk_token = jr_token r, lk_ttl = 0\<rparr>"

inductive fleet_step :: "(nat \<Rightarrow> ('w, 'e, 's, 'l) Scheduler) \<Rightarrow> fleet \<Rightarrow> fleet \<Rightarrow> bool" for scheds where
  time_passes: "ls_now (fl_locks f) \<le> t \<Longrightarrow> fleet_step scheds f (f\<lparr>fl_locks := (fl_locks f)\<lparr>ls_now := t\<rparr>\<rparr>)"
| run_begins: "mget (sd_jobs (scheds i)) name = Some job \<Longrightarrow> token \<notin> ls_issued (fl_locks f) \<Longrightarrow>
    Acquire (ls_now (fl_locks f)) token (lease_key (scheds i) job) (lease_ttl (scheds i) job) (ls_locker (fl_locks f)) = (Inr h, l) \<Longrightarrow>
    fleet_step scheds f
      \<lparr>fl_locks = (fl_locks f)\<lparr>ls_locker := l, ls_issued := insert token (ls_issued (fl_locks f)),
         ls_leases := insert (lease_key (scheds i) job, token, ls_now (fl_locks f) + lease_ttl (scheds i) job) (ls_leases (fl_locks f))\<rparr>,
       fl_running = insert \<lparr>jr_replica = i, jr_job = jb_Name job, jr_key = lease_key (scheds i) job, jr_token = token,
         jr_deadline = ls_now (fl_locks f) + lease_ttl (scheds i) job\<rparr> (fl_running f)\<rparr>"
| run_skipped: "mget (sd_jobs (scheds i)) name = Some job \<Longrightarrow>
    Acquire (ls_now (fl_locks f)) token (lease_key (scheds i) job) (lease_ttl (scheds i) job) (ls_locker (fl_locks f)) = (Inl err, l) \<Longrightarrow>
    fleet_step scheds f (f\<lparr>fl_locks := (fl_locks f)\<lparr>ls_locker := l\<rparr>\<rparr>)"
| run_ends: "r \<in> fl_running f \<Longrightarrow>
    Release (ls_now (fl_locks f)) (run_lock r) (ls_locker (fl_locks f)) = (None, l) \<Longrightarrow>
    fleet_step scheds f
      \<lparr>fl_locks = (fl_locks f)\<lparr>ls_locker := l,
         ls_leases := {x \<in> ls_leases (fl_locks f). \<not> (fst x = jr_key r \<and> fst (snd x) = jr_token r)}\<rparr>,
       fl_running = fl_running f - {r}\<rparr>"
| run_outlived_lease: "r \<in> fl_running f \<Longrightarrow>
    Release (ls_now (fl_locks f)) (run_lock r) (ls_locker (fl_locks f)) = (Some err, l) \<Longrightarrow>
    fleet_step scheds f \<lparr>fl_locks = (fl_locks f)\<lparr>ls_locker := l\<rparr>, fl_running = fl_running f - {r}\<rparr>"

inductive fleet_run :: "(nat \<Rightarrow> ('w, 'e, 's, 'l) Scheduler) \<Rightarrow> gotime \<Rightarrow> fleet \<Rightarrow> bool" for scheds t where
  fleet_start: "fleet_run scheds t (start_fleet t)"
| fleet_next: "fleet_run scheds t f \<Longrightarrow> fleet_step scheds f f' \<Longrightarrow> fleet_run scheds t f'"

definition fleet_inv :: "(nat \<Rightarrow> ('w, 'e, 's, 'l) Scheduler) \<Rightarrow> gotime \<Rightarrow> fleet \<Rightarrow> bool" where
  "fleet_inv scheds t f \<longleftrightarrow> lock_run t (fl_locks f) \<and>
     (\<forall>r \<in> fl_running f. (jr_key r, jr_token r, jr_deadline r) \<in> ls_leases (fl_locks f) \<and>
        jr_token r \<in> ls_issued (fl_locks f) \<and> jr_key r = sg_LockKeyPrefix (sd_cfg (scheds (jr_replica r))) @ jr_job r) \<and>
     inj_on jr_token (fl_running f)"

lemma fleet_step_inv:
  assumes "fleet_step scheds f f'" and "fleet_inv scheds t f"
  shows "fleet_inv scheds t f'"
  using assms(1)
proof cases
  case (time_passes t')
  have "lock_step (fl_locks f) ((fl_locks f)\<lparr>ls_now := t'\<rparr>)" by (rule lock_step.tick) (rule time_passes)
  with assms(2) show ?thesis by (auto simp: time_passes(1) fleet_inv_def intro: lock_run.step)
next
  case (run_begins i name job token h l)
  have "lock_run t (fl_locks f')"
    using assms(2) lock_step.granted [OF run_begins(3,4)] by (auto simp: run_begins(1) fleet_inv_def intro: lock_run.step)
  with assms(2) run_begins(3) show ?thesis
    by (auto simp: run_begins(1) fleet_inv_def lease_key_def inj_on_def)
next
  case (run_skipped i name job token err l)
  have "lock_step (fl_locks f) ((fl_locks f)\<lparr>ls_locker := l\<rparr>)" by (rule lock_step.refused) (rule run_skipped)
  with assms(2) show ?thesis by (auto simp: run_skipped(1) fleet_inv_def intro: lock_run.step)
next
  case (run_ends r l)
  have "lock_run t (fl_locks f')"
    using assms(2) lock_step.released [OF run_ends(3)]
    by (auto simp: run_ends(1) fleet_inv_def run_lock_def intro: lock_run.step)
  moreover have "jr_token r' \<noteq> jr_token r" if "r' \<in> fl_running f" "r' \<noteq> r" for r'
    using assms(2) run_ends(2) that by (auto simp: fleet_inv_def dest: inj_onD)
  ultimately show ?thesis
    using assms(2) by (auto simp: run_ends(1) fleet_inv_def intro: inj_on_subset)
next
  case (run_outlived_lease r err l)
  have "lock_step (fl_locks f) ((fl_locks f)\<lparr>ls_locker := l\<rparr>)" by (rule lock_step.not_released) (rule run_outlived_lease)
  with assms(2) show ?thesis
    by (auto simp: run_outlived_lease(1) fleet_inv_def intro: lock_run.step inj_on_subset)
qed

lemma fleet_run_inv: "fleet_run scheds t f \<Longrightarrow> fleet_inv scheds t f"
proof (induction rule: fleet_run.induct)
  case fleet_start
  then show ?case by (auto simp: start_fleet_def fleet_inv_def intro: lock_run.start)
qed (rule fleet_step_inv)


definition sample_job :: "(nat, string, nat, nat) Job" where
  "sample_job = \<lparr>jb_Run = Some (\<lambda>timeout w. (Panicked, w + 1)), jb_Schedule = None, jb_Name = ''sweep'', jb_Interval = Minute,
     jb_Timeout = 0, jb_LeaseTTL = 10, jb_RunOnStart = False\<rparr>"

definition sample_scheduler :: "(nat, string, nat, nat) Scheduler" where
  "sample_scheduler = \<lparr>sd_cfg = \<lparr>sg_LockKeyPrefix = ''p.'', sg_Timezone = ''UTC'', sg_DefaultLeaseTTL = Minute,
       sg_DefaultTimeout = 0\<rparr>,
     sd_location = 0, sd_jobs = [(''sweep'', sample_job)], sd_running = True\<rparr>"

theorem tick_runs_under_lease_witness:
  "ss_world (tick_job \<lparr>se_acquire = (\<lambda>k ttl w. (Inr k, w + 1)), se_release = (\<lambda>h w. (Some ErrLockNotHeld, w + 1)), se_now = int\<rparr>
     sample_scheduler sample_job Minute
     \<lparr>ss_world = 0, ss_runs = 0, ss_failures = 0, ss_skipped = 0, ss_panics = 0, ss_lockErrors = 0, ss_leasesExpired = 0,
      ss_overruns = 0\<rparr>) = (3 :: nat)"
  using tick_runs_under_lease [of sample_job "\<lambda>timeout w. (Panicked, w + 1)"
    "\<lparr>se_acquire = (\<lambda>k ttl w. (Inr k, w + 1)), se_release = (\<lambda>h w. (Some ErrLockNotHeld, w + 1)), se_now = int\<rparr>"
    sample_scheduler "\<lparr>ss_world = 0, ss_runs = 0, ss_failures = 0, ss_skipped = 0, ss_panics = 0, ss_lockErrors = 0,
      ss_leasesExpired = 0, ss_overruns = 0\<rparr>" _ 1 Panicked 2 Minute]
  by (simp add: sample_job_def)


end
