(* ===== verification/Bitmask.thy ===== *)
theory Bitmask
  imports GoStrings
begin

text \<open>
  The package \<^verbatim>\<open>bitmask\<close> (\<^verbatim>\<open>bitmask.go\<close>): immutable sets of flags held in an unsigned integer.

  The type parameter of the source ranges over the unsigned types of 8, 16, 32 and 64 bits and is the length of a word
  here; where the source converts to \<^verbatim>\<open>uint64\<close> the conversion is written out, and it loses nothing as long as the
  length is at most 64. \<open>flags\<close> is the set of bit positions a mask stands for: every operation of the package is shown to be
  the operation on sets it is named after, and both renderings of a mask to be exact.
\<close>

unbundle bit_operations_syntax

subsection \<open>bitmask.go\<close>

record 'w Bitmask =
  bm_value :: 'w

definition New_bm :: "'a :: len word list \<Rightarrow> 'a word Bitmask" where
  "New_bm fs = \<lparr>bm_value = foldl (\<lambda>v f. v OR f) 0 fs\<rparr>"

definition FromValue :: "'a :: len word \<Rightarrow> 'a word Bitmask" where
  "FromValue v = \<lparr>bm_value = v\<rparr>"

definition Value_bm :: "'a :: len word Bitmask \<Rightarrow> 'a word" where
  "Value_bm b = bm_value b"

definition Set_bm :: "'a :: len word Bitmask \<Rightarrow> 'a word list \<Rightarrow> 'a word Bitmask" where
  "Set_bm b fs = \<lparr>bm_value = foldl (\<lambda>v f. v OR f) (bm_value b) fs\<rparr>"

definition Clear_bm :: "'a :: len word Bitmask \<Rightarrow> 'a word list \<Rightarrow> 'a word Bitmask" where
  "Clear_bm b fs = \<lparr>bm_value = foldl (\<lambda>v f. v AND NOT f) (bm_value b) fs\<rparr>"

definition Toggle_bm :: "'a :: len word Bitmask \<Rightarrow> 'a word list \<Rightarrow> 'a word Bitmask" where
  "Toggle_bm b fs = \<lparr>bm_value = foldl (\<lambda>v f. v XOR f) (bm_value b) fs\<rparr>"

definition Has_bm :: "'a :: len word Bitmask \<Rightarrow> 'a word \<Rightarrow> bool" where
  "Has_bm b flag \<longleftrightarrow> flag \<noteq> 0 \<and> bm_value b AND flag = flag"

definition HasAll :: "'a :: len word Bitmask \<Rightarrow> 'a word list \<Rightarrow> bool" where
  "HasAll b fs \<longleftrightarrow> (let combined = foldl (\<lambda>v f. v OR f) 0 fs in combined \<noteq> 0 \<and> bm_value b AND combined = combined)"

definition HasAny :: "'a :: len word Bitmask \<Rightarrow> 'a word list \<Rightarrow> bool" where
  "HasAny b fs \<longleftrightarrow> (let combined = foldl (\<lambda>v f. v OR f) 0 fs in bm_value b AND combined \<noteq> 0)"

definition IsEmpty_bm :: "'a :: len word Bitmask \<Rightarrow> bool" where
  "IsEmpty_bm b \<longleftrightarrow> bm_value b = 0"

text \<open>\<^verbatim>\<open>bits.OnesCount64\<close>.\<close>

definition OnesCount64 :: "u64 \<Rightarrow> nat" where
  "OnesCount64 w = length (filter (bit w) [0..<64])"

definition Count_bm :: "'a :: len word Bitmask \<Rightarrow> nat" where
  "Count_bm b = OnesCount64 (ucast (bm_value b))"

definition Union_bm :: "'a :: len word Bitmask \<Rightarrow> 'a word Bitmask \<Rightarrow> 'a word Bitmask" where
  "Union_bm b other = \<lparr>bm_value = bm_value b OR bm_value other\<rparr>"

definition Intersect :: "'a :: len word Bitmask \<Rightarrow> 'a word Bitmask \<Rightarrow> 'a word Bitmask" where
  "Intersect b other = \<lparr>bm_value = bm_value b AND bm_value other\<rparr>"

definition Difference :: "'a :: len word Bitmask \<Rightarrow> 'a word Bitmask \<Rightarrow> 'a word Bitmask" where
  "Difference b other = \<lparr>bm_value = bm_value b AND NOT (bm_value other)\<rparr>"

text \<open>\<^verbatim>\<open>fmt.Sprintf("%0*b", width, n)\<close>: the binary digits, padded with zeros on the left to the width.\<close>

fun binary :: "nat \<Rightarrow> string" where
  "binary n = (if n < 2 then [char_of (48 + n)] else binary (n div 2) @ [char_of (48 + n mod 2)])"

declare binary.simps [simp del]

definition Sprintf_0b :: "nat \<Rightarrow> nat \<Rightarrow> string" where
  "Sprintf_0b width n = replicate (width - length (binary n)) CHR ''0'' @ binary n"

text \<open>The number of bits of the type, as the source computes it: \<^verbatim>\<open>bits.OnesCount64(uint64(^T(0)))\<close>.\<close>

definition type_width :: "'a :: len itself \<Rightarrow> nat" where
  "type_width T = OnesCount64 (ucast (NOT 0 :: 'a word))"

definition String_bm :: "'a :: len word Bitmask \<Rightarrow> string" where
  "String_bm b = Sprintf_0b (type_width TYPE('a)) (unat (ucast (bm_value b) :: u64))"

definition MarshalJSON_bm :: "'a :: len word Bitmask \<Rightarrow> string" where
  "MarshalJSON_bm b = decimal (unat (ucast (bm_value b) :: u64))"

text \<open>\<^verbatim>\<open>strconv.ParseUint(s, 10, bitSize)\<close> for a size of at most 64: no sign, and nothing beyond the size.\<close>

definition ParseUint_sized :: "string \<Rightarrow> nat \<Rightarrow> u64 option" where
  "ParseUint_sized s bitSize =
     (case ParseUint_digits s of
        None \<Rightarrow> None
      | Some n \<Rightarrow> if n \<ge> 2 ^ bitSize then None else Some (word_of_nat n))"

datatype bitmask_error = InvalidJSONValue

definition UnmarshalJSON_bm :: "string \<Rightarrow> 'a :: len word Bitmask \<Rightarrow> bitmask_error option \<times> 'a word Bitmask" where
  "UnmarshalJSON_bm data b =
     (case ParseUint_sized data (type_width TYPE('a)) of
        None \<Rightarrow> (Some InvalidJSONValue, b)
      | Some v \<Rightarrow> (None, b\<lparr>bm_value := ucast v\<rparr>))"

subsection \<open>Masks as sets of flags\<close>

definition bits_of :: "'a :: len word \<Rightarrow> nat set" where
  "bits_of w = {i. bit w i}"

definition flags :: "'a :: len word Bitmask \<Rightarrow> nat set" where
  "flags b = bits_of (bm_value b)"

named_theorems bits_simps \<open>the bits of a word built by bitwise operations\<close>

lemma in_bits_of: "i \<in> bits_of w \<longleftrightarrow> bit w i"
  by (simp add: bits_of_def)

lemma bits_of_ops [bits_simps]:
  "bits_of (0 :: 'a :: len word) = {}"
  "bits_of (v OR w) = bits_of v \<union> bits_of w"
  "bits_of (v AND w) = bits_of v \<inter> bits_of w"
  for v w :: "'a :: len word"
  by (auto simp: bits_of_def bit_simps)

lemma bits_of_andnot: "bits_of (v AND NOT w) = bits_of v - bits_of w"
  by (auto simp: bits_of_def bit_simps dest: bit_imp_le_length)

lemma bits_of_inject: "v = w \<longleftrightarrow> bits_of v = bits_of w"
  by (auto simp: bits_of_def set_eq_iff intro: bit_eqI)

lemma bits_of_fold_or [bits_simps]: "bits_of (foldl (\<lambda>v f. v OR f) v fs) = bits_of v \<union> (\<Union>f \<in> set fs. bits_of f)"
  by (induction fs arbitrary: v) (auto simp: bits_simps)

lemma bits_of_fold_andnot: "bits_of (foldl (\<lambda>v f. v AND NOT f) v fs) = bits_of v - (\<Union>f \<in> set fs. bits_of f)"
  by (induction fs arbitrary: v) (auto simp: bits_of_andnot)

lemma bit_fold_xor: "bit (foldl (\<lambda>v f. v XOR f) v fs) i \<longleftrightarrow> bit v i \<noteq> odd (length (filter (\<lambda>f. bit f i) fs))"
  for v :: "'a :: len word"
  by (induction fs arbitrary: v) (auto simp: bit_simps)

lemma subset_iff_and: "v AND w = w \<longleftrightarrow> bits_of w \<subseteq> bits_of v"
  by (subst bits_of_inject) (auto simp: bits_simps)

lemma nonzero_iff_bits: "w \<noteq> 0 \<longleftrightarrow> bits_of w \<noteq> {}"
  by (subst bits_of_inject) (simp add: bits_simps)

lemma bits_of_filter: "bits_of w = set (filter (bit w) [0..<LENGTH('a)])" for w :: "'a :: len word"
  using bit_imp_le_length [of w] by (auto simp: bits_of_def)

lemma OnesCount64_card: "OnesCount64 w = card (bits_of w)"
proof -
  have "bits_of w = set (filter (bit w) [0..<64])" using bits_of_filter [of w] by simp
  then show ?thesis by (simp only: OnesCount64_def) (simp add: distinct_card del: set_filter)
qed

lemma bits_of_ucast: "LENGTH('a) \<le> 64 \<Longrightarrow> bits_of (ucast w :: u64) = bits_of (w :: 'a :: len word)"
  by (auto simp: bits_of_def bit_simps dest: bit_imp_le_length)

lemma unat_ucast_u64: "LENGTH('a) \<le> 64 \<Longrightarrow> unat (ucast w :: u64) = unat (w :: 'a :: len word)"
proof -
  assume "LENGTH('a) \<le> 64"
  then have "(2 :: nat) ^ LENGTH('a) \<le> 2 ^ 64" by (rule power_increasing) simp
  moreover have "unat w < 2 ^ LENGTH('a)" by (rule unsigned_less)
  ultimately have "unat w < 2 ^ 64" by linarith
  then show ?thesis by (simp add: unsigned_ucast_eq take_bit_nat_eq_self)
qed

lemma take_bit_nat_less_u64: "LENGTH('a :: len) \<le> 64 \<Longrightarrow> n < 2 ^ LENGTH('a) \<Longrightarrow> take_bit 64 n = (n :: nat)"
  by (rule take_bit_nat_eq_self) (meson less_le_trans one_le_numeral power_increasing)

lemma ucast_down_up: "LENGTH('a) \<le> 64 \<Longrightarrow> ucast (ucast w :: u64) = (w :: 'a :: len word)"
  by (rule word_unat_eq_iff [THEN iffD2]) (simp add: unat_ucast_u64 unsigned_ucast_eq [of "ucast w :: u64"] take_bit_nat_eq_self unsigned_less)

lemma type_width_LENGTH: "LENGTH('a) \<le> 64 \<Longrightarrow> type_width TYPE('a :: len) = LENGTH('a)"
proof -
  have "bits_of (NOT 0 :: 'a word) = {..<LENGTH('a)}" by (auto simp: bits_of_def bit_simps)
  then show "LENGTH('a) \<le> 64 \<Longrightarrow> ?thesis" by (simp add: type_width_def OnesCount64_card bits_of_ucast)
qed

lemma flags_toggle: "flags (Toggle_bm b fs) = {i. (i \<in> flags b) \<noteq> odd (length (filter (\<lambda>f. i \<in> bits_of f) fs))}"
  by (simp add: flags_def Toggle_bm_def bits_of_def bit_fold_xor)

subsection \<open>Renderings\<close>

definition bit_char :: "'b :: semiring_bit_operations \<Rightarrow> nat \<Rightarrow> char" where
  "bit_char n i = (if bit n i then CHR ''1'' else CHR ''0'')"

lemma Sprintf_0b_Suc:
  assumes "0 < w"
  shows "Sprintf_0b (Suc w) n = Sprintf_0b w (n div 2) @ [char_of (48 + n mod 2)]"
proof (cases "n < 2")
  case True
  then have "binary n = [char_of (48 + n mod 2)]" "binary (n div 2) = ''0''"
    by (subst binary.simps, simp add: char_of_def bit_0)+
  with assms show ?thesis by (cases w) (simp_all add: Sprintf_0b_def replicate_append_same)
next
  case False
  then show ?thesis by (simp add: Sprintf_0b_def binary.simps [of n])
qed

lemma Sprintf_0b_bits: "0 < w \<Longrightarrow> n < 2 ^ w \<Longrightarrow> Sprintf_0b w n = map (bit_char n) (rev [0..<w])"
proof (induction w arbitrary: n)
  case (Suc w)
  have digit: "char_of (48 + n mod 2) = bit_char n 0" by (cases "even n") (simp_all add: bit_char_def bit_0 odd_iff_mod_2_eq_one char_of_def)
  show ?case
  proof (cases "w = 0")
    case True
    with Suc.prems have "n < 2" by simp
    then have "Sprintf_0b (Suc 0) n = [char_of (48 + n mod 2)]" by (simp add: Sprintf_0b_def binary.simps [of n])
    with True digit show ?thesis by simp
  next
    case False
    have shift: "map (bit_char (n div 2)) (rev [0..<w]) = map (bit_char n) (map Suc (rev [0..<w]))"
      by (simp add: bit_char_def bit_Suc)
    have "rev [0..<Suc w] = map Suc (rev [0..<w]) @ [0]"
      by (simp add: upt_conv_Cons rev_map [symmetric] map_Suc_upt del: upt_Suc)
    moreover have "Sprintf_0b w (n div 2) = map (bit_char (n div 2)) (rev [0..<w])"
      using Suc.prems False by (intro Suc.IH) auto
    ultimately show ?thesis using Sprintf_0b_Suc [of w n] False by (simp only: shift digit map_append) simp
  qed
qed simp

lemma String_bm_bits:
  fixes b :: "'a :: len word Bitmask"
  assumes "LENGTH('a) \<le> 64"
  shows "String_bm b = map (bit_char (bm_value b)) (rev [0..<LENGTH('a)])"
proof -
  have "unat (bm_value b) < 2 ^ LENGTH('a)" by (rule unsigned_less)
  then have "String_bm b = map (bit_char (unat (bm_value b))) (rev [0..<LENGTH('a)])"
    using assms by (simp add: String_bm_def type_width_LENGTH unat_ucast_u64 Sprintf_0b_bits)
  then show ?thesis by (simp add: bit_char_def bit_unsigned_iff)
qed

lemma UnmarshalJSON_bm_accepts:
  fixes b :: "'a :: len word Bitmask"
  assumes "LENGTH('a) \<le> 64"
  shows "UnmarshalJSON_bm data b =
    (if data \<noteq> [] \<and> list_all is_digit data \<and> digits_value data < 2 ^ LENGTH('a)
     then (None, FromValue (word_of_nat (digits_value data))) else (Some InvalidJSONValue, b))"
proof -
  have "digits_value data < 2 ^ LENGTH('a) \<Longrightarrow> (ucast (word_of_nat (digits_value data) :: u64) :: 'a word) = word_of_nat (digits_value data)"
    using assms by (intro word_unat_eq_iff [THEN iffD2]) (simp add: unsigned_of_nat unsigned_ucast_eq take_bit_nat_less_u64)
  with assms show ?thesis
    by (cases b) (auto simp: UnmarshalJSON_bm_def ParseUint_sized_def ParseUint_digits_def type_width_LENGTH FromValue_def)
qed

lemma UnmarshalJSON_bm_MarshalJSON:
  fixes b :: "'a :: len word Bitmask"
  assumes "LENGTH('a) \<le> 64"
  shows "UnmarshalJSON_bm (MarshalJSON_bm b) b' = (None, b)"
proof -
  have "unat (bm_value b) < 2 ^ LENGTH('a)" by (rule unsigned_less)
  then have "\<not> 2 ^ LENGTH('a) \<le> unat (bm_value b)" by (simp only: not_le)
  with assms show ?thesis
    by (cases b; cases b') (simp add: MarshalJSON_bm_def UnmarshalJSON_bm_def ParseUint_sized_def unat_ucast_u64 type_width_LENGTH ucast_down_up)
qed

text \<open>A mask is the set of the positions of its bits: setting, clearing, union, intersection and difference are
  those of sets, toggling flips the positions named an odd number of times, the queries are inclusion, overlap and
  emptiness of what they are asked about, and two masks with the same positions are the same value.\<close>

theorem bitmask_is_flag_set:
  fixes b c :: "'a :: len word Bitmask"
  shows "flags (New_bm fs) = (\<Union>f \<in> set fs. bits_of f) \<and>
    flags (Set_bm b fs) = flags b \<union> (\<Union>f \<in> set fs. bits_of f) \<and>
    flags (Clear_bm b fs) = flags b - (\<Union>f \<in> set fs. bits_of f) \<and>
    flags (Toggle_bm b fs) = {i. (i \<in> flags b) \<noteq> odd (length (filter (\<lambda>f. i \<in> bits_of f) fs))} \<and>
    flags (Union_bm b c) = flags b \<union> flags c \<and> flags (Intersect b c) = flags b \<inter> flags c \<and>
    flags (Difference b c) = flags b - flags c \<and>
    (Has_bm b f \<longleftrightarrow> bits_of f \<noteq> {} \<and> bits_of f \<subseteq> flags b) \<and>
    (HasAll b fs \<longleftrightarrow> (\<Union>f \<in> set fs. bits_of f) \<noteq> {} \<and> (\<Union>f \<in> set fs. bits_of f) \<subseteq> flags b) \<and>
    (HasAny b fs \<longleftrightarrow> (\<Union>f \<in> set fs. bits_of f) \<inter> flags b \<noteq> {}) \<and>
    (IsEmpty_bm b \<longleftrightarrow> flags b = {}) \<and> (b = c \<longleftrightarrow> flags b = flags c)"
proof (intro conjI)
  show "flags (Toggle_bm b fs) = {i. (i \<in> flags b) \<noteq> odd (length (filter (\<lambda>f. i \<in> bits_of f) fs))}"
    by (rule flags_toggle)
  show "HasAll b fs \<longleftrightarrow> (\<Union>f \<in> set fs. bits_of f) \<noteq> {} \<and> (\<Union>f \<in> set fs. bits_of f) \<subseteq> flags b"
    by (simp only: HasAll_def Let_def nonzero_iff_bits subset_iff_and flags_def) (simp add: bits_simps)
  show "HasAny b fs \<longleftrightarrow> (\<Union>f \<in> set fs. bits_of f) \<inter> flags b \<noteq> {}"
    by (simp only: HasAny_def Let_def nonzero_iff_bits flags_def) (auto simp add: bits_simps)
  show "Has_bm b f \<longleftrightarrow> bits_of f \<noteq> {} \<and> bits_of f \<subseteq> flags b"
    by (simp only: Has_bm_def nonzero_iff_bits subset_iff_and flags_def)
  show "IsEmpty_bm b \<longleftrightarrow> flags b = {}"
    using nonzero_iff_bits [of "bm_value b"] by (auto simp: IsEmpty_bm_def flags_def)
  show "flags (Difference b c) = flags b - flags c"
    by (simp only: flags_def Difference_def Bitmask.simps bits_of_andnot)
  show "b = c \<longleftrightarrow> flags b = flags c"
    by (cases b; cases c) (simp add: flags_def flip: bits_of_inject)
qed (simp_all add: flags_def New_bm_def Set_bm_def Clear_bm_def Union_bm_def Intersect_def
  bits_of_fold_andnot bits_of_fold_or bits_of_ops(1,2,3))

text \<open>On the types the package admits, of at most 64 bits, a mask counts its flags, prints one digit per bit with the
  highest first, survives its JSON rendering whatever the receiver held before, and any text but a decimal number that
  fits the type is refused with the receiver unchanged.\<close>

theorem bitmask_renderings:
  fixes b b' :: "'a :: len word Bitmask"
  assumes "LENGTH('a) \<le> 64"
  shows "Count_bm b = card (flags b) \<and>
    String_bm b = map (\<lambda>i. if i \<in> flags b then CHR ''1'' else CHR ''0'') (rev [0..<LENGTH('a)]) \<and>
    UnmarshalJSON_bm (MarshalJSON_bm b) b' = (None, b) \<and>
    UnmarshalJSON_bm data b' =
      (if data \<noteq> [] \<and> list_all is_digit data \<and> digits_value data < 2 ^ LENGTH('a)
       then (None, FromValue (word_of_nat (digits_value data))) else (Some InvalidJSONValue, b'))"
proof (intro conjI)
  show "Count_bm b = card (flags b)"
    using assms by (simp add: Count_bm_def OnesCount64_card bits_of_ucast flags_def)
  show "String_bm b = map (\<lambda>i. if i \<in> flags b then CHR ''1'' else CHR ''0'') (rev [0..<LENGTH('a)])"
    using String_bm_bits [OF assms, of b] by (simp add: flags_def in_bits_of bit_char_def)
qed (rule UnmarshalJSON_bm_MarshalJSON [OF assms] UnmarshalJSON_bm_accepts [OF assms])+

theorem bitmask_renderings_witness:
  "Count_bm (New_bm [1, 4 :: 8 word]) = 2 \<and> String_bm (New_bm [1, 4 :: 8 word]) = ''00000101'' \<and>
   UnmarshalJSON_bm (MarshalJSON_bm (New_bm [1, 4 :: 8 word])) (New_bm [] :: 8 word Bitmask) = (None, New_bm [1, 4]) \<and>
   fst (UnmarshalJSON_bm ''256'' (New_bm [] :: 8 word Bitmask)) = Some InvalidJSONValue"
proof -
  have "flags (New_bm [1, 4 :: 8 word]) = {0, 2}"
    unfolding flags_def bits_of_filter by code_simp
  then show ?thesis
    using bitmask_renderings [of "New_bm [1, 4 :: 8 word]" "New_bm []" "''256''"]
    by (simp add: upt_rec is_digit_def digits_value_def)
qed

end
