(* ===== verification/OAuthTypes.thy ===== *)
theory OAuthTypes
  imports GoStrings
begin

text \<open>
  The data of the authorization server (\<^verbatim>\<open>authentication/oauth2server\<close>): its records (\<^verbatim>\<open>types.go\<close>), errors
  (\<^verbatim>\<open>errors.go\<close>, \<^verbatim>\<open>protocolerror.go\<close>), the parameters and scopes of a request (\<^verbatim>\<open>keys.go\<close>), credentials and proof keys
  (\<^verbatim>\<open>credentials.go\<close>), and the rules a registration and an issuer have to satisfy (\<^verbatim>\<open>policy.go\<close>, \<^verbatim>\<open>metadata.go\<close>).

  Records are values: the stores hand out copies, so the \<^verbatim>\<open>Clone\<close> methods are the identity here. The digest of SHA-256
  and the parser of URLs are the arguments gathered in \<open>oauth_env\<close>.
\<close>

subsection \<open>types.go\<close>

definition GrantTypeAuthorizationCode :: string where "GrantTypeAuthorizationCode = ''authorization_code''"
definition GrantTypeRefreshToken :: string where "GrantTypeRefreshToken = ''refresh_token''"
definition ResponseTypeCode :: string where "ResponseTypeCode = ''code''"
definition AuthMethodNone :: string where "AuthMethodNone = ''none''"
definition AuthMethodClientSecret :: string where "AuthMethodClientSecret = ''client_secret_post''"
definition AuthMethodClientBasic :: string where "AuthMethodClientBasic = ''client_secret_basic''"
definition CodeChallengeMethodS256 :: string where "CodeChallengeMethodS256 = ''S256''"
definition TokenTypeBearer :: string where "TokenTypeBearer = ''Bearer''"

record Subject =
  su_Claims :: "(string, string) gomap"
  su_ID :: string

record Client =
  cl_CreatedAt :: gotime
  cl_ExpiresAt :: gotime
  cl_ID :: string
  cl_SecretHash :: string
  cl_Name :: string
  cl_TokenEndpointAuthMethod :: string
  cl_RedirectURIs :: "string list"
  cl_GrantTypes :: "string list"
  cl_ResponseTypes :: "string list"
  cl_Scopes :: "string list"

definition Public :: "Client \<Rightarrow> bool" where
  "Public c \<longleftrightarrow> cl_SecretHash c = []"

record AuthorizationCode =
  ac_IssuedAt :: gotime
  ac_ExpiresAt :: gotime
  ac_RedeemedAt :: gotime
  ac_Hash :: string
  ac_ClientID :: string
  ac_FamilyID :: string
  ac_RedirectURI :: string
  ac_CodeChallenge :: string
  ac_Nonce :: string
  ac_Subject :: Subject
  ac_Scopes :: "string list"
  ac_Resources :: "string list"

record AccessToken =
  at_IssuedAt :: gotime
  at_ExpiresAt :: gotime
  at_RevokedAt :: gotime
  at_Hash :: string
  at_ClientID :: string
  at_FamilyID :: string
  at_Subject :: Subject
  at_Scopes :: "string list"
  at_Audience :: "string list"

definition Active :: "AccessToken \<Rightarrow> gotime \<Rightarrow> bool" where
  "Active t now \<longleftrightarrow> time_is_zero (at_RevokedAt t) \<and> now < at_ExpiresAt t"

fun HasScopes :: "string list \<Rightarrow> string list \<Rightarrow> bool" where
  "HasScopes held [] = True"
| "HasScopes held (scope # required) = (if scope \<notin> set held then False else HasScopes held required)"

record RefreshToken =
  rt_IssuedAt :: gotime
  rt_ExpiresAt :: gotime
  rt_RedeemedAt :: gotime
  rt_RevokedAt :: gotime
  rt_Hash :: string
  rt_ClientID :: string
  rt_FamilyID :: string
  rt_Subject :: Subject
  rt_Scopes :: "string list"
  rt_Audience :: "string list"
  rt_Resources :: "string list"

subsection \<open>errors.go and protocolerror.go\<close>

text \<open>What a store reports; \<open>StoreFailure\<close> is any other failure of a backend.\<close>

datatype store_error =
  ErrNotFound | ErrExpired | ErrAlreadyRedeemed | ErrRecordExists | ErrClientExists | ErrEmptyIdentifier | ErrNilRecord
| StoreFailure string

text \<open>\<^verbatim>\<open>errors.Is(err, ErrNotFound)\<close>: expired and redeemed records wrap it.\<close>

definition is_not_found :: "store_error \<Rightarrow> bool" where
  "is_not_found e \<longleftrightarrow> e \<in> {ErrNotFound, ErrExpired, ErrAlreadyRedeemed}"

datatype registration_error =
  ErrClientNameTooLong | ErrUnsupportedAuthMethod string | ErrNoRedirectURI | ErrTooManyRedirectURIs
| ErrRedirectURINotAbsolute | ErrRedirectURIInsecure | ErrRedirectURIHasFragment | ErrRedirectURITooLong nat
| ErrRegistrationRejected | NilRegistration | PolicyFailure string

text \<open>\<^verbatim>\<open>errors.Is(err, ErrRegistrationRejected)\<close>.\<close>

definition is_rejection :: "registration_error \<Rightarrow> bool" where
  "is_rejection e \<longleftrightarrow> (case e of NilRegistration \<Rightarrow> False | PolicyFailure _ \<Rightarrow> False | _ \<Rightarrow> True)"

text \<open>The causes of a protocol error, which are recorded and never sent.\<close>

datatype oauth_cause =
  MalformedForm | EmptyInput | ErrUnknownClient string | StoreCause store_error | ErrInvalidRedirectURI
| ErrUnsupportedResponseType string | ErrUnsupportedGrantType string | ErrPKCERequired | ErrPKCEVerificationFailed
| ErrInvalidScope | ErrInvalidResource string | MintFailed | ErrLoginFailed | AuthenticatorFailure
| ResolverFailure | ErrClientAuthenticationFailed | ErrCodeClientMismatch | ErrRedirectURIMismatch
| ErrRegistrationNotServed | BodyFailure | RegistrationCause registration_error

record protocolError =
  pe_status :: nat
  pe_code :: string
  pe_description :: string
  pe_cause :: oauth_cause

definition newProtocolError :: "nat \<Rightarrow> string \<Rightarrow> string \<Rightarrow> oauth_cause \<Rightarrow> protocolError" where
  "newProtocolError status code description cause =
     \<lparr>pe_status = status, pe_code = code, pe_description = description, pe_cause = cause\<rparr>"

definition ErrorCodeInvalidRequest :: string where "ErrorCodeInvalidRequest = ''invalid_request''"
definition ErrorCodeInvalidClient :: string where "ErrorCodeInvalidClient = ''invalid_client''"
definition ErrorCodeInvalidGrant :: string where "ErrorCodeInvalidGrant = ''invalid_grant''"
definition ErrorCodeUnauthorizedClient :: string where "ErrorCodeUnauthorizedClient = ''unauthorized_client''"
definition ErrorCodeUnsupportedGrantType :: string where "ErrorCodeUnsupportedGrantType = ''unsupported_grant_type''"
definition ErrorCodeUnsupportedResponseType :: string where "ErrorCodeUnsupportedResponseType = ''unsupported_response_type''"
definition ErrorCodeInvalidScope :: string where "ErrorCodeInvalidScope = ''invalid_scope''"
definition ErrorCodeServerError :: string where "ErrorCodeServerError = ''server_error''"
definition ErrorCodeInvalidTarget :: string where "ErrorCodeInvalidTarget = ''invalid_target''"
definition ErrorCodeInvalidToken :: string where "ErrorCodeInvalidToken = ''invalid_token''"
definition ErrorCodeInsufficientScope :: string where "ErrorCodeInsufficientScope = ''insufficient_scope''"
definition ErrorCodeInvalidRedirectURI :: string where "ErrorCodeInvalidRedirectURI = ''invalid_redirect_uri''"
definition ErrorCodeInvalidClientMetadata :: string where "ErrorCodeInvalidClientMetadata = ''invalid_client_metadata''"

definition StatusBadRequest :: nat where "StatusBadRequest = 400"
definition StatusUnauthorized :: nat where "StatusUnauthorized = 401"
definition StatusForbidden :: nat where "StatusForbidden = 403"
definition StatusNotFound :: nat where "StatusNotFound = 404"
definition StatusInternalServerError :: nat where "StatusInternalServerError = 500"

subsection \<open>keys.go\<close>

fun keep_first :: "string list \<Rightarrow> string list \<Rightarrow> string list" where
  "keep_first out [] = out"
| "keep_first out (f # fs) = keep_first (if f \<notin> set out then out @ [f] else out) fs"

definition splitScopes :: "string \<Rightarrow> string list" where
  "splitScopes scope = keep_first [] (Fields scope)"

definition joinScopes :: "string list \<Rightarrow> string" where
  "joinScopes scopes = join CHR '' '' scopes"

subsection \<open>What the server takes from elsewhere\<close>

record parsed_url =
  pu_Scheme :: string
  pu_Host :: string
  pu_Hostname :: string
  pu_RawQuery :: string
  pu_Fragment :: string
  pu_RawFragment :: string
  pu_String :: string

text \<open>
  The digest, the parser of URLs with its result's rendering, the text of an error, the whole seconds of a duration,
  which the source takes from floating point, and \<^verbatim>\<open>strconv.Quote\<close>, whose escapes follow Unicode's tables.
\<close>

record oauth_env =
  oe_sha256 :: "string \<Rightarrow> string"
  oe_url_Parse :: "string \<Rightarrow> parsed_url option"
  oe_Error :: "registration_error \<Rightarrow> string"
  oe_Seconds :: "duration \<Rightarrow> int"
  oe_Quote :: "string \<Rightarrow> string"

subsection \<open>credentials.go\<close>

definition Hash :: "oauth_env \<Rightarrow> string \<Rightarrow> string" where
  "Hash env credential = hex_encode (oe_sha256 env credential)"

definition equalHash :: "string \<Rightarrow> string \<Rightarrow> bool" where
  "equalHash a b \<longleftrightarrow> a = b"

definition S256Challenge :: "oauth_env \<Rightarrow> string \<Rightarrow> string" where
  "S256Challenge env verifier = base64_encode (oe_sha256 env verifier)"

definition VerifyPKCE :: "oauth_env \<Rightarrow> string \<Rightarrow> string \<Rightarrow> bool" where
  "VerifyPKCE env verifier challenge \<longleftrightarrow>
     (if verifier = [] \<or> challenge = [] then False else equalHash (S256Challenge env verifier) challenge)"

definition MinCodeVerifierLength :: nat where "MinCodeVerifierLength = 43"
definition MaxCodeVerifierLength :: nat where "MaxCodeVerifierLength = 128"

definition alphanumeric :: "char \<Rightarrow> bool" where
  "alphanumeric c \<longleftrightarrow>
     (let n = of_char c :: nat in 65 \<le> n \<and> n \<le> 90 \<or> 97 \<le> n \<and> n \<le> 122 \<or> 48 \<le> n \<and> n \<le> 57)"

definition validCodeVerifier :: "string \<Rightarrow> bool" where
  "validCodeVerifier v \<longleftrightarrow>
     (if length v < MinCodeVerifierLength \<or> length v > MaxCodeVerifierLength then False
      else list_all (\<lambda>c. alphanumeric c \<or> c \<in> set ''-._~'') v)"

definition validCodeChallenge :: "string \<Rightarrow> bool" where
  "validCodeChallenge c \<longleftrightarrow>
     (if length c \<noteq> 43 then False else list_all (\<lambda>ch. alphanumeric ch \<or> ch \<in> set ''-_'') c)"

subsection \<open>policy.go and metadata.go\<close>

definition MaxRedirectURIs :: nat where "MaxRedirectURIs = 16"
definition MaxRedirectURILength :: nat where "MaxRedirectURILength = 2048"
definition MaxClientNameLength :: nat where "MaxClientNameLength = 256"

record RegistrationRequest =
  rr_ClientName :: string
  rr_TokenEndpointAuthMethod :: string
  rr_Scope :: string
  rr_RedirectURIs :: "string list"
  rr_GrantTypes :: "string list"
  rr_ResponseTypes :: "string list"

definition loopbackHost :: "string \<Rightarrow> bool" where
  "loopbackHost host \<longleftrightarrow> host = ''localhost'' \<or> host = ''127.0.0.1'' \<or> host = ''::1''"

definition privateUseScheme :: "string \<Rightarrow> bool" where
  "privateUseScheme scheme \<longleftrightarrow> CHR ''.'' \<in> set scheme"

definition ValidateRedirectURI :: "oauth_env \<Rightarrow> string \<Rightarrow> registration_error option" where
  "ValidateRedirectURI env raw =
     (if raw = [] then Some ErrRedirectURINotAbsolute
      else if length raw > MaxRedirectURILength then Some (ErrRedirectURITooLong (length raw))
      else (case oe_url_Parse env raw of
              None \<Rightarrow> Some ErrRedirectURINotAbsolute
            | Some parsed \<Rightarrow>
                if pu_Fragment parsed \<noteq> [] \<or> pu_RawFragment parsed \<noteq> [] then Some ErrRedirectURIHasFragment
                else if pu_Scheme parsed = [] then Some ErrRedirectURINotAbsolute
                else if pu_Scheme parsed = ''https''
                then (if pu_Host parsed = [] then Some ErrRedirectURINotAbsolute else None)
                else if pu_Scheme parsed = ''http''
                then (if \<not> loopbackHost (pu_Hostname parsed) then Some ErrRedirectURIInsecure else None)
                else if privateUseScheme (pu_Scheme parsed) then None
                else Some ErrRedirectURIInsecure))"

fun first_error :: "('a \<Rightarrow> 'e option) \<Rightarrow> 'a list \<Rightarrow> 'e option" where
  "first_error f [] = None"
| "first_error f (x # xs) = (case f x of Some e \<Rightarrow> Some e | None \<Rightarrow> first_error f xs)"

definition defaultRegistrationPolicy :: "oauth_env \<Rightarrow> RegistrationRequest option \<Rightarrow> registration_error option" where
  "defaultRegistrationPolicy env request =
     (case request of
        None \<Rightarrow> Some NilRegistration
      | Some req \<Rightarrow>
          if length (rr_ClientName req) > MaxClientNameLength then Some ErrClientNameTooLong
          else if rr_TokenEndpointAuthMethod req \<notin> set [[], AuthMethodNone, AuthMethodClientSecret, AuthMethodClientBasic]
          then Some (ErrUnsupportedAuthMethod (rr_TokenEndpointAuthMethod req))
          else if rr_RedirectURIs req = [] then Some ErrNoRedirectURI
          else if length (rr_RedirectURIs req) > MaxRedirectURIs then Some ErrTooManyRedirectURIs
          else first_error (ValidateRedirectURI env) (rr_RedirectURIs req))"

datatype issuer_error = ErrEmptyIssuer | ErrInvalidIssuer

definition TrimSuffix_slash :: "string \<Rightarrow> string" where
  "TrimSuffix_slash s = (if s \<noteq> [] \<and> last s = CHR ''/'' then butlast s else s)"

definition normalizeIssuer :: "oauth_env \<Rightarrow> string \<Rightarrow> issuer_error + string" where
  "normalizeIssuer env issuer =
     (if TrimSpace issuer = [] then Inl ErrEmptyIssuer
      else (case oe_url_Parse env issuer of
              None \<Rightarrow> Inl ErrInvalidIssuer
            | Some parsed \<Rightarrow>
                if pu_RawQuery parsed \<noteq> [] \<or> pu_Fragment parsed \<noteq> [] \<or> pu_Host parsed = [] then Inl ErrInvalidIssuer
                else if pu_Scheme parsed = ''https'' then Inr (TrimSuffix_slash (pu_String parsed))
                else if pu_Scheme parsed = ''http''
                then (if \<not> loopbackHost (pu_Hostname parsed) then Inl ErrInvalidIssuer
                      else Inr (TrimSuffix_slash (pu_String parsed)))
                else Inl ErrInvalidIssuer))"

subsection \<open>Facts about scopes and proof keys\<close>

lemma HasScopes_iff: "HasScopes held required \<longleftrightarrow> set required \<subseteq> set held"
  by (induction required) auto

lemma keep_first_set: "set (keep_first out fs) = set out \<union> set fs"
  by (induction fs arbitrary: out) auto

lemma keep_first_distinct: "distinct out \<Longrightarrow> distinct (keep_first out fs)"
  by (induction fs arbitrary: out) auto

lemma keep_first_id: "distinct (out @ fs) \<Longrightarrow> keep_first out fs = out @ fs"
  by (induction fs arbitrary: out) auto

lemma splitScopes_joinScopes:
  assumes "distinct scopes" and "list_all (\<lambda>w. w \<noteq> [] \<and> list_all visible w) scopes"
  shows "splitScopes (joinScopes scopes) = scopes"
  using assms by (simp add: splitScopes_def joinScopes_def Fields_join keep_first_id)

lemma is_base64url_alphanumeric: "is_base64url c \<Longrightarrow> alphanumeric c \<or> c \<in> set ''-_''"
proof -
  have "list_all (\<lambda>c. alphanumeric c \<or> c \<in> set ''-_'') ''ABCDEFGHIJKLMNOPQRSTUVWXYZabcdefghijklmnopqrstuvwxyz0123456789-_''"
    by code_simp
  then show "is_base64url c \<Longrightarrow> ?thesis" unfolding list_all_iff is_base64url_def by blast
qed

text \<open>A digest of 32 bytes, as SHA-256 gives, encodes to a challenge that is accepted and that its verifier meets.\<close>

lemma S256Challenge_valid: "length (oe_sha256 env v) = 32 \<Longrightarrow> validCodeChallenge (S256Challenge env v)"
  using base64_encode_chars [of "oe_sha256 env v"] is_base64url_alphanumeric
  by (auto simp: validCodeChallenge_def S256Challenge_def base64_encode_length list_all_iff)

lemma VerifyPKCE_S256Challenge:
  assumes "length (oe_sha256 env v) = 32" and "v \<noteq> []"
  shows "VerifyPKCE env v (S256Challenge env v)"
proof -
  have "S256Challenge env v \<noteq> []" using base64_encode_length [of "oe_sha256 env v"] assms by (auto simp: S256Challenge_def)
  then show ?thesis using assms by (simp add: VerifyPKCE_def equalHash_def)
qed

lemma VerifyPKCE_iff: "VerifyPKCE env v ch \<longleftrightarrow> v \<noteq> [] \<and> ch \<noteq> [] \<and> S256Challenge env v = ch"
  by (auto simp: VerifyPKCE_def equalHash_def)

lemma first_error_None: "first_error f xs = None \<longleftrightarrow> list_all (\<lambda>x. f x = None) xs"
  by (induction xs) (auto split: option.splits)

lemma is_not_found_simps [simp]:
  "is_not_found ErrNotFound" "is_not_found ErrExpired" "is_not_found ErrAlreadyRedeemed" "\<not> is_not_found (StoreFailure s)"
  "\<not> is_not_found ErrRecordExists" "\<not> is_not_found ErrClientExists" "\<not> is_not_found ErrEmptyIdentifier" "\<not> is_not_found ErrNilRecord"
  by (simp_all add: is_not_found_def)

end
