(* ===== verification/OAuthStore.thy ===== *)
theory OAuthStore
  imports OAuthTypes
begin

text \<open>
  Where the authorization server keeps its records: the interface \<^verbatim>\<open>Store\<close> (\<^verbatim>\<open>store.go\<close>) and the store in memory
  (\<^verbatim>\<open>memory/memory.go\<close>).

  An operation takes the time the store's clock shows. What the interface promises is stated over a ledger of four
  partial functions: \<open>contract\<close> relates a call with its answer to the ledger before and after, and the locale
  \<open>oauth_store\<close> asks a store to meet it. A store may fail any call with an error of its own, which changes nothing.
\<close>

subsection \<open>store.go\<close>

text \<open>What a consuming method returns: the record, or an error with the record of a replay.\<close>

datatype 'r consumed = Consumed 'r | Refused store_error "'r option"

record 's store_ops =
  so_CreateClient :: "gotime \<Rightarrow> Client option \<Rightarrow> 's \<Rightarrow> store_error option \<times> 's"
  so_GetClient :: "gotime \<Rightarrow> string \<Rightarrow> 's \<Rightarrow> (store_error + Client) \<times> 's"
  so_DeleteClient :: "gotime \<Rightarrow> string \<Rightarrow> 's \<Rightarrow> store_error option \<times> 's"
  so_CreateAuthorizationCode :: "gotime \<Rightarrow> AuthorizationCode option \<Rightarrow> 's \<Rightarrow> store_error option \<times> 's"
  so_ConsumeAuthorizationCode :: "gotime \<Rightarrow> string \<Rightarrow> 's \<Rightarrow> AuthorizationCode consumed \<times> 's"
  so_CreateAccessToken :: "gotime \<Rightarrow> AccessToken option \<Rightarrow> 's \<Rightarrow> store_error option \<times> 's"
  so_GetAccessToken :: "gotime \<Rightarrow> string \<Rightarrow> 's \<Rightarrow> (store_error + AccessToken) \<times> 's"
  so_RevokeAccessToken :: "gotime \<Rightarrow> string \<Rightarrow> 's \<Rightarrow> store_error option \<times> 's"
  so_CreateRefreshToken :: "gotime \<Rightarrow> RefreshToken option \<Rightarrow> 's \<Rightarrow> store_error option \<times> 's"
  so_ConsumeRefreshToken :: "gotime \<Rightarrow> string \<Rightarrow> 's \<Rightarrow> RefreshToken consumed \<times> 's"
  so_GetRefreshToken :: "gotime \<Rightarrow> string \<Rightarrow> 's \<Rightarrow> (store_error + RefreshToken) \<times> 's"
  so_RevokeRefreshToken :: "gotime \<Rightarrow> string \<Rightarrow> 's \<Rightarrow> store_error option \<times> 's"
  so_RevokeFamily :: "gotime \<Rightarrow> string \<Rightarrow> 's \<Rightarrow> (store_error + nat) \<times> 's"
  so_Sweep :: "gotime \<Rightarrow> 's \<Rightarrow> (store_error + nat) \<times> 's"

subsection \<open>memory/memory.go\<close>

record mem_store =
  ms_clients :: "(string, Client) gomap"
  ms_codes :: "(string, AuthorizationCode) gomap"
  ms_access :: "(string, AccessToken) gomap"
  ms_refresh :: "(string, RefreshToken) gomap"

definition NewStore :: mem_store where
  "NewStore = \<lparr>ms_clients = [], ms_codes = [], ms_access = [], ms_refresh = []\<rparr>"

text \<open>\<^verbatim>\<open>clock.Now().UTC().Truncate(time.Microsecond)\<close>.\<close>

definition store_now :: "gotime \<Rightarrow> gotime" where
  "store_now t = t - t mod 1000"

definition CreateClient_mem :: "gotime \<Rightarrow> Client option \<Rightarrow> mem_store \<Rightarrow> store_error option \<times> mem_store" where
  "CreateClient_mem t record s =
     (case record of
        None \<Rightarrow> (Some ErrNilRecord, s)
      | Some client \<Rightarrow>
          if cl_ID client = [] then (Some ErrEmptyIdentifier, s)
          else if mget (ms_clients s) (cl_ID client) \<noteq> None then (Some ErrClientExists, s)
          else (None, s\<lparr>ms_clients := mput (cl_ID client) client (ms_clients s)\<rparr>))"

definition GetClient_mem :: "gotime \<Rightarrow> string \<Rightarrow> mem_store \<Rightarrow> (store_error + Client) \<times> mem_store" where
  "GetClient_mem t clientID s =
     (if clientID = [] then (Inl ErrEmptyIdentifier, s)
      else (case mget (ms_clients s) clientID of
              None \<Rightarrow> (Inl ErrNotFound, s)
            | Some client \<Rightarrow>
                if \<not> time_is_zero (cl_ExpiresAt client) \<and> \<not> store_now t < cl_ExpiresAt client then (Inl ErrExpired, s)
                else (Inr client, s)))"

definition DeleteClient_mem :: "gotime \<Rightarrow> string \<Rightarrow> mem_store \<Rightarrow> store_error option \<times> mem_store" where
  "DeleteClient_mem t clientID s =
     (if clientID = [] then (Some ErrEmptyIdentifier, s)
      else (None, s\<lparr>ms_clients := mdel clientID (ms_clients s)\<rparr>))"

definition CreateAuthorizationCode_mem :: "gotime \<Rightarrow> AuthorizationCode option \<Rightarrow> mem_store \<Rightarrow> store_error option \<times> mem_store" where
  "CreateAuthorizationCode_mem t record s =
     (case record of
        None \<Rightarrow> (Some ErrNilRecord, s)
      | Some code \<Rightarrow>
          if ac_Hash code = [] then (Some ErrEmptyIdentifier, s)
          else if mget (ms_codes s) (ac_Hash code) \<noteq> None then (Some ErrRecordExists, s)
          else (None, s\<lparr>ms_codes := mput (ac_Hash code) code (ms_codes s)\<rparr>))"

definition ConsumeAuthorizationCode_mem :: "gotime \<Rightarrow> string \<Rightarrow> mem_store \<Rightarrow> AuthorizationCode consumed \<times> mem_store" where
  "ConsumeAuthorizationCode_mem t hash s =
     (if hash = [] then (Refused ErrEmptyIdentifier None, s)
      else (case mget (ms_codes s) hash of
              None \<Rightarrow> (Refused ErrNotFound None, s)
            | Some code \<Rightarrow>
                if \<not> time_is_zero (ac_RedeemedAt code) then (Refused ErrAlreadyRedeemed (Some code), s)
                else if \<not> store_now t < ac_ExpiresAt code then (Refused ErrExpired None, s)
                else (let code' = code\<lparr>ac_RedeemedAt := store_now t\<rparr>
                      in (Consumed code', s\<lparr>ms_codes := mput hash code' (ms_codes s)\<rparr>))))"

definition CreateAccessToken_mem :: "gotime \<Rightarrow> AccessToken option \<Rightarrow> mem_store \<Rightarrow> store_error option \<times> mem_store" where
  "CreateAccessToken_mem t record s =
     (case record of
        None \<Rightarrow> (Some ErrNilRecord, s)
      | Some token \<Rightarrow>
          if at_Hash token = [] then (Some ErrEmptyIdentifier, s)
          else if mget (ms_access s) (at_Hash token) \<noteq> None then (Some ErrRecordExists, s)
          else (None, s\<lparr>ms_access := mput (at_Hash token) token (ms_access s)\<rparr>))"

definition GetAccessToken_mem :: "gotime \<Rightarrow> string \<Rightarrow> mem_store \<Rightarrow> (store_error + AccessToken) \<times> mem_store" where
  "GetAccessToken_mem t hash s =
     (if hash = [] then (Inl ErrEmptyIdentifier, s)
      else (case mget (ms_access s) hash of
              None \<Rightarrow> (Inl ErrNotFound, s)
            | Some token \<Rightarrow> if \<not> Active token (store_now t) then (Inl ErrExpired, s) else (Inr token, s)))"

definition RevokeAccessToken_mem :: "gotime \<Rightarrow> string \<Rightarrow> mem_store \<Rightarrow> store_error option \<times> mem_store" where
  "RevokeAccessToken_mem t hash s =
     (if hash = [] then (Some ErrEmptyIdentifier, s)
      else (case mget (ms_access s) hash of
              None \<Rightarrow> (None, s)
            | Some token \<Rightarrow>
                if time_is_zero (at_RevokedAt token)
                then (None, s\<lparr>ms_access := mput hash (token\<lparr>at_RevokedAt := store_now t\<rparr>) (ms_access s)\<rparr>)
                else (None, s)))"

definition CreateRefreshToken_mem :: "gotime \<Rightarrow> RefreshToken option \<Rightarrow> mem_store \<Rightarrow> store_error option \<times> mem_store" where
  "CreateRefreshToken_mem t record s =
     (case record of
        None \<Rightarrow> (Some ErrNilRecord, s)
      | Some token \<Rightarrow>
          if rt_Hash token = [] then (Some ErrEmptyIdentifier, s)
          else if mget (ms_refresh s) (rt_Hash token) \<noteq> None then (Some ErrRecordExists, s)
          else (None, s\<lparr>ms_refresh := mput (rt_Hash token) token (ms_refresh s)\<rparr>))"

definition ConsumeRefreshToken_mem :: "gotime \<Rightarrow> string \<Rightarrow> mem_store \<Rightarrow> RefreshToken consumed \<times> mem_store" where
  "ConsumeRefreshToken_mem t hash s =
     (if hash = [] then (Refused ErrEmptyIdentifier None, s)
      else (case mget (ms_refresh s) hash of
              None \<Rightarrow> (Refused ErrNotFound None, s)
            | Some token \<Rightarrow>
                if \<not> time_is_zero (rt_RedeemedAt token) then (Refused ErrAlreadyRedeemed (Some token), s)
                else if \<not> time_is_zero (rt_RevokedAt token) \<or> \<not> store_now t < rt_ExpiresAt token then (Refused ErrExpired None, s)
                else (let token' = token\<lparr>rt_RedeemedAt := store_now t\<rparr>
                      in (Consumed token', s\<lparr>ms_refresh := mput hash token' (ms_refresh s)\<rparr>))))"

definition GetRefreshToken_mem :: "gotime \<Rightarrow> string \<Rightarrow> mem_store \<Rightarrow> (store_error + RefreshToken) \<times> mem_store" where
  "GetRefreshToken_mem t hash s =
     (if hash = [] then (Inl ErrEmptyIdentifier, s)
      else (case mget (ms_refresh s) hash of
              None \<Rightarrow> (Inl ErrNotFound, s)
            | Some token \<Rightarrow>
                if \<not> time_is_zero (rt_RevokedAt token) \<or> \<not> store_now t < rt_ExpiresAt token then (Inl ErrExpired, s)
                else (Inr token, s)))"

definition RevokeRefreshToken_mem :: "gotime \<Rightarrow> string \<Rightarrow> mem_store \<Rightarrow> store_error option \<times> mem_store" where
  "RevokeRefreshToken_mem t hash s =
     (if hash = [] then (Some ErrEmptyIdentifier, s)
      else (case mget (ms_refresh s) hash of
              None \<Rightarrow> (None, s)
            | Some token \<Rightarrow>
                if time_is_zero (rt_RevokedAt token)
                then (None, s\<lparr>ms_refresh := mput hash (token\<lparr>rt_RevokedAt := store_now t\<rparr>) (ms_refresh s)\<rparr>)
                else (None, s)))"

text \<open>The bodies of the two loops of \<^verbatim>\<open>RevokeFamily\<close>: what happens to one token.\<close>

definition in_family_access :: "string \<Rightarrow> AccessToken \<Rightarrow> bool" where
  "in_family_access familyID token \<longleftrightarrow> at_FamilyID token = familyID \<and> time_is_zero (at_RevokedAt token)"

definition revoke_access :: "string \<Rightarrow> gotime \<Rightarrow> AccessToken \<Rightarrow> AccessToken" where
  "revoke_access familyID now token = (if in_family_access familyID token then token\<lparr>at_RevokedAt := now\<rparr> else token)"

definition in_family_refresh :: "string \<Rightarrow> RefreshToken \<Rightarrow> bool" where
  "in_family_refresh familyID token \<longleftrightarrow> rt_FamilyID token = familyID \<and> time_is_zero (rt_RevokedAt token)"

definition revoke_refresh :: "string \<Rightarrow> gotime \<Rightarrow> RefreshToken \<Rightarrow> RefreshToken" where
  "revoke_refresh familyID now token = (if in_family_refresh familyID token then token\<lparr>rt_RevokedAt := now\<rparr> else token)"

definition RevokeFamily_mem :: "gotime \<Rightarrow> string \<Rightarrow> mem_store \<Rightarrow> (store_error + nat) \<times> mem_store" where
  "RevokeFamily_mem t familyID s =
     (if familyID = [] then (Inl ErrEmptyIdentifier, s)
      else (let now = store_now t;
                revoked = length (filter (\<lambda>(k, token). in_family_access familyID token) (ms_access s))
                        + length (filter (\<lambda>(k, token). in_family_refresh familyID token) (ms_refresh s))
            in (Inr revoked,
                s\<lparr>ms_access := map (\<lambda>(k, token). (k, revoke_access familyID now token)) (ms_access s),
                  ms_refresh := map (\<lambda>(k, token). (k, revoke_refresh familyID now token)) (ms_refresh s)\<rparr>)))"

definition client_dead :: "gotime \<Rightarrow> Client \<Rightarrow> bool" where
  "client_dead now c \<longleftrightarrow> \<not> time_is_zero (cl_ExpiresAt c) \<and> \<not> now < cl_ExpiresAt c"

definition Sweep_mem :: "gotime \<Rightarrow> mem_store \<Rightarrow> (store_error + nat) \<times> mem_store" where
  "Sweep_mem t s =
     (let now = store_now t;
          codes = filter (\<lambda>(k, c). now < ac_ExpiresAt c) (ms_codes s);
          access = filter (\<lambda>(k, c). now < at_ExpiresAt c) (ms_access s);
          refresh = filter (\<lambda>(k, c). now < rt_ExpiresAt c) (ms_refresh s);
          clients = filter (\<lambda>(k, c). \<not> client_dead now c) (ms_clients s);
          swept = (length (ms_codes s) - length codes) + (length (ms_access s) - length access)
                + (length (ms_refresh s) - length refresh) + (length (ms_clients s) - length clients)
      in (Inr swept, \<lparr>ms_clients = clients, ms_codes = codes, ms_access = access, ms_refresh = refresh\<rparr>))"

definition mem_ops :: "mem_store store_ops" where
  "mem_ops =
     \<lparr>so_CreateClient = CreateClient_mem, so_GetClient = GetClient_mem, so_DeleteClient = DeleteClient_mem,
      so_CreateAuthorizationCode = CreateAuthorizationCode_mem, so_ConsumeAuthorizationCode = ConsumeAuthorizationCode_mem,
      so_CreateAccessToken = CreateAccessToken_mem, so_GetAccessToken = GetAccessToken_mem,
      so_RevokeAccessToken = RevokeAccessToken_mem, so_CreateRefreshToken = CreateRefreshToken_mem,
      so_ConsumeRefreshToken = ConsumeRefreshToken_mem, so_GetRefreshToken = GetRefreshToken_mem,
      so_RevokeRefreshToken = RevokeRefreshToken_mem, so_RevokeFamily = RevokeFamily_mem, so_Sweep = Sweep_mem\<rparr>"

subsection \<open>The contract of a store\<close>

text \<open>A call to a store with its answer, and what a store does on it: nothing is left if the answer is another one.\<close>

datatype store_event =
  EvCreateClient Client "store_error option"
| EvGetClient string "store_error + Client"
| EvDeleteClient string "store_error option"
| EvCreateCode AuthorizationCode "store_error option"
| EvConsumeCode string "AuthorizationCode consumed"
| EvCreateAccess AccessToken "store_error option"
| EvGetAccess string "store_error + AccessToken"
| EvRevokeAccess string "store_error option"
| EvCreateRefresh RefreshToken "store_error option"
| EvConsumeRefresh string "RefreshToken consumed"
| EvGetRefresh string "store_error + RefreshToken"
| EvRevokeRefresh string "store_error option"
| EvRevokeFamily string "store_error + nat"
| EvSweep "store_error + nat"

definition answered :: "'r \<Rightarrow> 'r \<times> 's \<Rightarrow> 's option" where
  "answered r x = (if fst x = r then Some (snd x) else None)"

fun store_step :: "'s store_ops \<Rightarrow> gotime \<Rightarrow> store_event \<Rightarrow> 's \<Rightarrow> 's option" where
  "store_step ops t (EvCreateClient c r) s = answered r (so_CreateClient ops t (Some c) s)"
| "store_step ops t (EvGetClient k r) s = answered r (so_GetClient ops t k s)"
| "store_step ops t (EvDeleteClient k r) s = answered r (so_DeleteClient ops t k s)"
| "store_step ops t (EvCreateCode c r) s = answered r (so_CreateAuthorizationCode ops t (Some c) s)"
| "store_step ops t (EvConsumeCode k cr) s = answered cr (so_ConsumeAuthorizationCode ops t k s)"
| "store_step ops t (EvCreateAccess a r) s = answered r (so_CreateAccessToken ops t (Some a) s)"
| "store_step ops t (EvGetAccess k ar) s = answered ar (so_GetAccessToken ops t k s)"
| "store_step ops t (EvRevokeAccess k r) s = answered r (so_RevokeAccessToken ops t k s)"
| "store_step ops t (EvCreateRefresh f r) s = answered r (so_CreateRefreshToken ops t (Some f) s)"
| "store_step ops t (EvConsumeRefresh k fr) s = answered fr (so_ConsumeRefreshToken ops t k s)"
| "store_step ops t (EvGetRefresh k fr') s = answered fr' (so_GetRefreshToken ops t k s)"
| "store_step ops t (EvRevokeRefresh k r) s = answered r (so_RevokeRefreshToken ops t k s)"
| "store_step ops t (EvRevokeFamily k n) s = answered n (so_RevokeFamily ops t k s)"
| "store_step ops t (EvSweep n) s = answered n (so_Sweep ops t s)"

record ledger =
  lg_clients :: "string \<Rightarrow> Client option"
  lg_codes :: "string \<Rightarrow> AuthorizationCode option"
  lg_access :: "string \<Rightarrow> AccessToken option"
  lg_refresh :: "string \<Rightarrow> RefreshToken option"

definition only_if :: "('v \<Rightarrow> bool) \<Rightarrow> (string \<Rightarrow> 'v option) \<Rightarrow> string \<Rightarrow> 'v option" where
  "only_if P m k = (case m k of None \<Rightarrow> None | Some v \<Rightarrow> if P v then Some v else None)"

definition revoked_family :: "string \<Rightarrow> gotime \<Rightarrow> ledger \<Rightarrow> ledger" where
  "revoked_family f now l =
     l\<lparr>lg_access := (\<lambda>k. map_option (revoke_access f now) (lg_access l k)),
       lg_refresh := (\<lambda>k. map_option (revoke_refresh f now) (lg_refresh l k))\<rparr>"

text \<open>
  What \<^verbatim>\<open>store.go\<close> promises. Creating never overwrites; consuming checks and marks at once, and reports a replay with its
  record; an answer that a record is absent or dead is true; a failure changes nothing.
\<close>

fun contract :: "gotime \<Rightarrow> store_event \<Rightarrow> ledger \<Rightarrow> ledger \<Rightarrow> bool" where
  "contract t (EvCreateClient c r) l l' \<longleftrightarrow>
     (case r of None \<Rightarrow> lg_clients l (cl_ID c) = None \<and> l' = l\<lparr>lg_clients := (lg_clients l)(cl_ID c \<mapsto> c)\<rparr> | Some e \<Rightarrow> l' = l)"
| "contract t (EvGetClient k r) l l' \<longleftrightarrow>
     l' = l \<and>
     (case r of
        Inr c \<Rightarrow> lg_clients l k = Some c \<and> \<not> client_dead (store_now t) c
      | Inl e \<Rightarrow> (e = ErrNotFound \<longrightarrow> lg_clients l k = None) \<and>
                  (e = ErrExpired \<longrightarrow> (\<exists>c. lg_clients l k = Some c \<and> client_dead (store_now t) c)))"
| "contract t (EvDeleteClient k r) l l' \<longleftrightarrow>
     (case r of None \<Rightarrow> l' = l\<lparr>lg_clients := (lg_clients l)(k := None)\<rparr> | Some e \<Rightarrow> l' = l)"
| "contract t (EvCreateCode c r) l l' \<longleftrightarrow>
     (case r of None \<Rightarrow> lg_codes l (ac_Hash c) = None \<and> l' = l\<lparr>lg_codes := (lg_codes l)(ac_Hash c \<mapsto> c)\<rparr> | Some e \<Rightarrow> l' = l)"
| "contract t (EvConsumeCode k cr) l l' \<longleftrightarrow>
     (case cr of
        Consumed c' \<Rightarrow>
          (\<exists>c. lg_codes l k = Some c \<and> time_is_zero (ac_RedeemedAt c) \<and> store_now t < ac_ExpiresAt c \<and>
               c' = c\<lparr>ac_RedeemedAt := store_now t\<rparr> \<and> l' = l\<lparr>lg_codes := (lg_codes l)(k \<mapsto> c')\<rparr>)
      | Refused e ro \<Rightarrow>
          l' = l \<and> (e = ErrNotFound \<longrightarrow> lg_codes l k = None) \<and>
          (e = ErrAlreadyRedeemed \<longrightarrow> (\<exists>c. ro = Some c \<and> lg_codes l k = Some c \<and> \<not> time_is_zero (ac_RedeemedAt c))))"
| "contract t (EvCreateAccess a r) l l' \<longleftrightarrow>
     (case r of None \<Rightarrow> lg_access l (at_Hash a) = None \<and> l' = l\<lparr>lg_access := (lg_access l)(at_Hash a \<mapsto> a)\<rparr> | Some e \<Rightarrow> l' = l)"
| "contract t (EvGetAccess k ar) l l' \<longleftrightarrow>
     l' = l \<and>
     (case ar of
        Inr a \<Rightarrow> lg_access l k = Some a \<and> Active a (store_now t)
      | Inl e \<Rightarrow> (e = ErrNotFound \<longrightarrow> lg_access l k = None) \<and>
                  (e = ErrExpired \<longrightarrow> (\<exists>a. lg_access l k = Some a \<and> \<not> Active a (store_now t))))"
| "contract t (EvRevokeAccess k r) l l' \<longleftrightarrow>
     (case r of
        None \<Rightarrow> l' = l\<lparr>lg_access := (lg_access l)(k := map_option (\<lambda>a. if time_is_zero (at_RevokedAt a) then a\<lparr>at_RevokedAt := store_now t\<rparr> else a) (lg_access l k))\<rparr>
      | Some e \<Rightarrow> l' = l)"
| "contract t (EvCreateRefresh f r) l l' \<longleftrightarrow>
     (case r of None \<Rightarrow> lg_refresh l (rt_Hash f) = None \<and> l' = l\<lparr>lg_refresh := (lg_refresh l)(rt_Hash f \<mapsto> f)\<rparr> | Some e \<Rightarrow> l' = l)"
| "contract t (EvConsumeRefresh k fr) l l' \<longleftrightarrow>
     (case fr of
        Consumed f' \<Rightarrow>
          (\<exists>f. lg_refresh l k = Some f \<and> time_is_zero (rt_RedeemedAt f) \<and> time_is_zero (rt_RevokedAt f) \<and> store_now t < rt_ExpiresAt f \<and>
               f' = f\<lparr>rt_RedeemedAt := store_now t\<rparr> \<and> l' = l\<lparr>lg_refresh := (lg_refresh l)(k \<mapsto> f')\<rparr>)
      | Refused e ro \<Rightarrow>
          l' = l \<and> (e = ErrNotFound \<longrightarrow> lg_refresh l k = None) \<and>
          (e = ErrAlreadyRedeemed \<longrightarrow> (\<exists>f. ro = Some f \<and> lg_refresh l k = Some f \<and> \<not> time_is_zero (rt_RedeemedAt f))))"
| "contract t (EvGetRefresh k fr') l l' \<longleftrightarrow>
     l' = l \<and>
     (case fr' of
        Inr f \<Rightarrow> lg_refresh l k = Some f \<and> time_is_zero (rt_RevokedAt f) \<and> store_now t < rt_ExpiresAt f
      | Inl e \<Rightarrow> (e = ErrNotFound \<longrightarrow> lg_refresh l k = None))"
| "contract t (EvRevokeRefresh k r) l l' \<longleftrightarrow>
     (case r of
        None \<Rightarrow> l' = l\<lparr>lg_refresh := (lg_refresh l)(k := map_option (\<lambda>f. if time_is_zero (rt_RevokedAt f) then f\<lparr>rt_RevokedAt := store_now t\<rparr> else f) (lg_refresh l k))\<rparr>
      | Some e \<Rightarrow> l' = l)"
| "contract t (EvRevokeFamily k n) l l' \<longleftrightarrow>
     (case n of
        Inr c \<Rightarrow> k \<noteq> [] \<and> l' = revoked_family k (store_now t) l \<and>
          (0 < c \<longleftrightarrow> (\<exists>h a. lg_access l h = Some a \<and> in_family_access k a) \<or> (\<exists>h f. lg_refresh l h = Some f \<and> in_family_refresh k f))
      | Inl e \<Rightarrow> l' = l)"
| "contract t (EvSweep n) l l' \<longleftrightarrow>
     (case n of
        Inr c \<Rightarrow> l' = \<lparr>lg_clients = only_if (\<lambda>c. \<not> client_dead (store_now t) c) (lg_clients l),
                       lg_codes = only_if (\<lambda>c. store_now t < ac_ExpiresAt c) (lg_codes l),
                       lg_access = only_if (\<lambda>a. store_now t < at_ExpiresAt a) (lg_access l),
                       lg_refresh = only_if (\<lambda>f. store_now t < rt_ExpiresAt f) (lg_refresh l)\<rparr>
      | Inl e \<Rightarrow> l' = l)"

locale oauth_store =
  fixes ops :: "'s store_ops" and view :: "'s \<Rightarrow> ledger" and ok :: "'s \<Rightarrow> bool"
  assumes step_ok: "ok s \<Longrightarrow> store_step ops t e s = Some s' \<Longrightarrow> ok s'"
    and step_contract: "ok s \<Longrightarrow> store_step ops t e s = Some s' \<Longrightarrow> contract t e (view s) (view s')"

subsection \<open>The store in memory meets the contract\<close>

definition mem_view :: "mem_store \<Rightarrow> ledger" where
  "mem_view s = \<lparr>lg_clients = mget (ms_clients s), lg_codes = mget (ms_codes s), lg_access = mget (ms_access s), lg_refresh = mget (ms_refresh s)\<rparr>"

definition mem_ok :: "mem_store \<Rightarrow> bool" where
  "mem_ok s \<longleftrightarrow> is_map (ms_clients s) \<and> is_map (ms_codes s) \<and> is_map (ms_access s) \<and> is_map (ms_refresh s)"

lemma mget_filter_val: "is_map m \<Longrightarrow> mget (filter (\<lambda>(k, v). P v) m) = only_if P (mget m)"
proof
  fix k
  assume "is_map m"
  then show "mget (filter (\<lambda>(k, v). P v) m) k = only_if P (mget m) k"
    by (induction m) (auto simp: only_if_def is_map_def mget_def map_of_eq_None_iff image_iff split: option.splits)
qed

lemma mget_map_val: "mget (map (\<lambda>(k, v). (k, f v)) m) k = map_option f (mget m k)"
  by (induction m) (auto simp: mget_def)

lemma is_map_map_val: "is_map (map (\<lambda>(k, v). (k, f v)) m) \<longleftrightarrow> is_map m"
  by (simp add: is_map_def comp_def case_prod_beta)

lemma is_map_filter_val: "is_map m \<Longrightarrow> is_map (filter P m)"
  by (simp add: is_map_def distinct_map_filter)

lemma length_filter_pos: "is_map m \<Longrightarrow> 0 < length (filter (\<lambda>(k, v). P v) m) \<longleftrightarrow> (\<exists>k v. mget m k = Some v \<and> P v)"
  by (auto simp: mget_Some_in_set filter_empty_conv)

lemma mget_fun_upd: "mget (mput k v m) = (mget m)(k \<mapsto> v)" "mget (mdel k m) = (mget m)(k := None)"
  by auto

lemmas mem_op_defs = CreateClient_mem_def GetClient_mem_def DeleteClient_mem_def CreateAuthorizationCode_mem_def
  ConsumeAuthorizationCode_mem_def CreateAccessToken_mem_def GetAccessToken_mem_def RevokeAccessToken_mem_def
  CreateRefreshToken_mem_def ConsumeRefreshToken_mem_def GetRefreshToken_mem_def RevokeRefreshToken_mem_def

lemmas mem_ops_simps = mem_ops_def store_ops.simps

lemma mem_family_contract:
  assumes "mem_ok s" and "store_step mem_ops t (EvRevokeFamily k n) s = Some s'"
  shows "contract t (EvRevokeFamily k n) (mem_view s) (mem_view s')"
proof (cases n)
  case (Inr c)
  with assms(2) have "k \<noteq> []" and c: "c = length (filter (\<lambda>(h, a). in_family_access k a) (ms_access s)) + length (filter (\<lambda>(h, f). in_family_refresh k f) (ms_refresh s))"
    and s': "mem_view s' = revoked_family k (store_now t) (mem_view s)"
    by (auto simp: mem_ops_def answered_def RevokeFamily_mem_def Let_def mem_view_def revoked_family_def mget_map_val fun_eq_iff split: if_splits)
  have "0 < c \<longleftrightarrow> 0 < length (filter (\<lambda>(h, a). in_family_access k a) (ms_access s)) \<or> 0 < length (filter (\<lambda>(h, f). in_family_refresh k f) (ms_refresh s))"
    unfolding c by arith
  then have "0 < c \<longleftrightarrow> (\<exists>h a. mget (ms_access s) h = Some a \<and> in_family_access k a) \<or> (\<exists>h f. mget (ms_refresh s) h = Some f \<and> in_family_refresh k f)"
    using assms(1) by (simp only: length_filter_pos mem_ok_def)
  with \<open>k \<noteq> []\<close> s' Inr show ?thesis by (simp add: mem_view_def)
qed (use assms(2) in \<open>auto simp: mem_ops_def answered_def RevokeFamily_mem_def Let_def split: if_splits\<close>)

lemma mem_sweep_contract:
  assumes "mem_ok s" and "store_step mem_ops t (EvSweep n) s = Some s'"
  shows "contract t (EvSweep n) (mem_view s) (mem_view s')"
  using assms by (auto simp: mem_ops_def answered_def Sweep_mem_def Let_def mem_view_def mem_ok_def mget_filter_val split: if_splits)

lemma mem_step_contract:
  assumes "mem_ok s" and "store_step mem_ops t e s = Some s'"
  shows "contract t e (mem_view s) (mem_view s')"
proof (cases e)
  case (EvRevokeFamily k n)
  with mem_family_contract assms show ?thesis by blast
next
  case (EvSweep n)
  with mem_sweep_contract assms show ?thesis by blast
qed (use assms(2) in \<open>auto simp: mem_ops_def answered_def mem_view_def mem_op_defs Let_def client_dead_def mget_fun_upd fun_upd_idem split: option.splits if_splits\<close>)

lemma mem_step_ok:
  assumes "mem_ok s" and "store_step mem_ops t e s = Some s'"
  shows "mem_ok s'"
  using assms
  by (cases e) (auto simp: mem_ops_def answered_def mem_ok_def mem_op_defs RevokeFamily_mem_def Sweep_mem_def Let_def
    is_map_map_val is_map_filter_val split: option.splits if_splits)

interpretation mst: oauth_store mem_ops mem_view mem_ok
  using mem_step_ok mem_step_contract by unfold_locales

lemma NewStore_ok [simp]: "mem_ok NewStore"
  by (simp add: mem_ok_def NewStore_def)

end
