(* ===== verification/OAuthServer.thy ===== *)
theory OAuthServer
  imports OAuthStore
begin

text \<open>
  The endpoints of the authorization server (\<^verbatim>\<open>server.go\<close>, \<^verbatim>\<open>options.go\<close>, \<^verbatim>\<open>authorize.go\<close>, \<^verbatim>\<open>token.go\<close>, \<^verbatim>\<open>register.go\<close>,
  \<^verbatim>\<open>revoke.go\<close>).

  A handler is a \<open>prog\<close>: a tree whose nodes are the calls it makes (to the store, to the source of credentials, to the
  clock, to the deployment's seams, to a counter), each with a continuation for its answer, and whose leaves are the
  responses. One call is one atomic step, since every method of a store runs under one lock or in one statement; a request is
  as many steps as it makes calls, so that requests served at the same time interleave between them. \<open>feed\<close> takes a
  handler one call further. Form parsing, HTTP Basic decoding and JSON decoding belong to \<^verbatim>\<open>net/http\<close> and \<^verbatim>\<open>encoding/json\<close>:
  a request carries their results.
\<close>

subsection \<open>Programs\<close>

text \<open>
  What the deployment's seams answer. An authenticator's failure either wraps \<^verbatim>\<open>ErrLoginFailed\<close>, perhaps as a
  \<^verbatim>\<open>LoginError\<close> with a message, or is another error.
\<close>

datatype auth_error = LoginFailed "string option" | OtherAuthError

type_synonym auth_answer = "Subject option \<times> auth_error option"

datatype metric = CodesIssued | TokensIssued | ClientsRegistered | ReuseDetected | Revocations | AudienceRejections

datatype 'a prog =
  Ret 'a
| CreateClient Client "store_error option \<Rightarrow> 'a prog"
| GetClient string "store_error + Client \<Rightarrow> 'a prog"
| CreateAuthorizationCode AuthorizationCode "store_error option \<Rightarrow> 'a prog"
| ConsumeAuthorizationCode string "AuthorizationCode consumed \<Rightarrow> 'a prog"
| CreateAccessToken AccessToken "store_error option \<Rightarrow> 'a prog"
| GetAccessToken string "store_error + AccessToken \<Rightarrow> 'a prog"
| RevokeAccessToken string "store_error option \<Rightarrow> 'a prog"
| CreateRefreshToken RefreshToken "store_error option \<Rightarrow> 'a prog"
| ConsumeRefreshToken string "RefreshToken consumed \<Rightarrow> 'a prog"
| GetRefreshToken string "store_error + RefreshToken \<Rightarrow> 'a prog"
| RevokeFamily string "store_error + nat \<Rightarrow> 'a prog"
| MintValue "string option \<Rightarrow> 'a prog"
| NewFamilyID "string \<Rightarrow> 'a prog"
| ReadClock "gotime \<Rightarrow> 'a prog"
| ResolveSubject "unit + Subject option \<Rightarrow> 'a prog"
| AuthenticateSubject "auth_answer \<Rightarrow> 'a prog"
| Observe Subject string "'a prog"
| Count metric nat "'a prog"

primrec bind_prog :: "'a prog \<Rightarrow> ('a \<Rightarrow> 'b prog) \<Rightarrow> 'b prog" where
  "bind_prog (Ret a) g = g a"
| "bind_prog (CreateClient c k) g = CreateClient c (\<lambda>r. bind_prog (k r) g)"
| "bind_prog (GetClient c k) g = GetClient c (\<lambda>r. bind_prog (k r) g)"
| "bind_prog (CreateAuthorizationCode c k) g = CreateAuthorizationCode c (\<lambda>r. bind_prog (k r) g)"
| "bind_prog (ConsumeAuthorizationCode c k) g = ConsumeAuthorizationCode c (\<lambda>r. bind_prog (k r) g)"
| "bind_prog (CreateAccessToken c k) g = CreateAccessToken c (\<lambda>r. bind_prog (k r) g)"
| "bind_prog (GetAccessToken c k) g = GetAccessToken c (\<lambda>r. bind_prog (k r) g)"
| "bind_prog (RevokeAccessToken c k) g = RevokeAccessToken c (\<lambda>r. bind_prog (k r) g)"
| "bind_prog (CreateRefreshToken c k) g = CreateRefreshToken c (\<lambda>r. bind_prog (k r) g)"
| "bind_prog (ConsumeRefreshToken c k) g = ConsumeRefreshToken c (\<lambda>r. bind_prog (k r) g)"
| "bind_prog (GetRefreshToken c k) g = GetRefreshToken c (\<lambda>r. bind_prog (k r) g)"
| "bind_prog (RevokeFamily c k) g = RevokeFamily c (\<lambda>r. bind_prog (k r) g)"
| "bind_prog (MintValue k) g = MintValue (\<lambda>r. bind_prog (k r) g)"
| "bind_prog (NewFamilyID k) g = NewFamilyID (\<lambda>r. bind_prog (k r) g)"
| "bind_prog (ReadClock k) g = ReadClock (\<lambda>r. bind_prog (k r) g)"
| "bind_prog (ResolveSubject k) g = ResolveSubject (\<lambda>r. bind_prog (k r) g)"
| "bind_prog (AuthenticateSubject k) g = AuthenticateSubject (\<lambda>r. bind_prog (k r) g)"
| "bind_prog (Observe su f p) g = Observe su f (bind_prog p g)"
| "bind_prog (Count m n p) g = Count m n (bind_prog p g)"

text \<open>A call that was made, with its answer.\<close>

datatype event =
  Store store_event
| EvMint "string option"
| EvNewFamily string
| EvClock gotime
| EvResolve "unit + Subject option"
| EvAuthenticate auth_answer
| EvObserve Subject string
| EvCount metric nat

fun feed :: "'a prog \<Rightarrow> event \<Rightarrow> 'a prog option" where
  "feed (Ret a) e = None"
| "feed (CreateClient c k) e = (case e of Store (EvCreateClient c' r) \<Rightarrow> if c' = c then Some (k r) else None | _ \<Rightarrow> None)"
| "feed (GetClient c k) e = (case e of Store (EvGetClient c' r) \<Rightarrow> if c' = c then Some (k r) else None | _ \<Rightarrow> None)"
| "feed (CreateAuthorizationCode c k) e = (case e of Store (EvCreateCode c' r) \<Rightarrow> if c' = c then Some (k r) else None | _ \<Rightarrow> None)"
| "feed (ConsumeAuthorizationCode c k) e = (case e of Store (EvConsumeCode c' r) \<Rightarrow> if c' = c then Some (k r) else None | _ \<Rightarrow> None)"
| "feed (CreateAccessToken c k) e = (case e of Store (EvCreateAccess c' r) \<Rightarrow> if c' = c then Some (k r) else None | _ \<Rightarrow> None)"
| "feed (GetAccessToken c k) e = (case e of Store (EvGetAccess c' r) \<Rightarrow> if c' = c then Some (k r) else None | _ \<Rightarrow> None)"
| "feed (RevokeAccessToken c k) e = (case e of Store (EvRevokeAccess c' r) \<Rightarrow> if c' = c then Some (k r) else None | _ \<Rightarrow> None)"
| "feed (CreateRefreshToken c k) e = (case e of Store (EvCreateRefresh c' r) \<Rightarrow> if c' = c then Some (k r) else None | _ \<Rightarrow> None)"
| "feed (ConsumeRefreshToken c k) e = (case e of Store (EvConsumeRefresh c' r) \<Rightarrow> if c' = c then Some (k r) else None | _ \<Rightarrow> None)"
| "feed (GetRefreshToken c k) e = (case e of Store (EvGetRefresh c' r) \<Rightarrow> if c' = c then Some (k r) else None | _ \<Rightarrow> None)"
| "feed (RevokeFamily c k) e = (case e of Store (EvRevokeFamily c' r) \<Rightarrow> if c' = c then Some (k r) else None | _ \<Rightarrow> None)"
| "feed (MintValue k) e = (case e of EvMint r \<Rightarrow> Some (k r) | _ \<Rightarrow> None)"
| "feed (NewFamilyID k) e = (case e of EvNewFamily r \<Rightarrow> Some (k r) | _ \<Rightarrow> None)"
| "feed (ReadClock k) e = (case e of EvClock r \<Rightarrow> Some (k r) | _ \<Rightarrow> None)"
| "feed (ResolveSubject k) e = (case e of EvResolve r \<Rightarrow> Some (k r) | _ \<Rightarrow> None)"
| "feed (AuthenticateSubject k) e = (case e of EvAuthenticate r \<Rightarrow> Some (k r) | _ \<Rightarrow> None)"
| "feed (Observe su f p) e = (case e of EvObserve su' f' \<Rightarrow> if su' = su \<and> f' = f then Some p else None | _ \<Rightarrow> None)"
| "feed (Count m n p) e = (case e of EvCount m' n' \<Rightarrow> if m' = m \<and> n' = n then Some p else None | _ \<Rightarrow> None)"

subsection \<open>server.go and options.go\<close>

record Server =
  srv_policy :: "RegistrationRequest option \<Rightarrow> registration_error option"
  srv_resolver :: bool
  srv_revocationObserver :: bool
  srv_issuer :: string
  srv_serviceDocumentation :: string
  srv_scopes :: "string list"
  srv_resources :: "string list"
  srv_codeTTL :: duration
  srv_accessTTL :: duration
  srv_refreshTTL :: duration
  srv_registrationTTL :: duration
  srv_detectRefreshReuse :: bool
  srv_dynamicRegistration :: bool

definition DefaultAuthorizationCodeTTL :: duration where "DefaultAuthorizationCodeTTL = Minute"
definition DefaultAccessTokenTTL :: duration where "DefaultAccessTokenTTL = 15 * Minute"
definition DefaultRefreshTokenTTL :: duration where "DefaultRefreshTokenTTL = 7 * 24 * Hour"
definition DefaultClientRegistrationTTL :: duration where "DefaultClientRegistrationTTL = 90 * 24 * Hour"

definition default_server :: "oauth_env \<Rightarrow> Server" where
  "default_server env =
     \<lparr>srv_policy = defaultRegistrationPolicy env, srv_resolver = False, srv_revocationObserver = False, srv_issuer = [],
      srv_serviceDocumentation = [], srv_scopes = [], srv_resources = [], srv_codeTTL = DefaultAuthorizationCodeTTL,
      srv_accessTTL = DefaultAccessTokenTTL, srv_refreshTTL = DefaultRefreshTokenTTL,
      srv_registrationTTL = DefaultClientRegistrationTTL, srv_detectRefreshReuse = True, srv_dynamicRegistration = True\<rparr>"

type_synonym server_option = "Server \<Rightarrow> Server"

definition WithAuthorizationCodeTTL :: "duration \<Rightarrow> server_option" where
  "WithAuthorizationCodeTTL ttl s = (if ttl > 0 then s\<lparr>srv_codeTTL := ttl\<rparr> else s)"

definition WithAccessTokenTTL :: "duration \<Rightarrow> server_option" where
  "WithAccessTokenTTL ttl s = (if ttl > 0 then s\<lparr>srv_accessTTL := ttl\<rparr> else s)"

definition WithRefreshTokenTTL :: "duration \<Rightarrow> server_option" where
  "WithRefreshTokenTTL ttl s = (if ttl > 0 then s\<lparr>srv_refreshTTL := ttl\<rparr> else s)"

definition WithClientRegistrationTTL :: "duration \<Rightarrow> server_option" where
  "WithClientRegistrationTTL ttl s = s\<lparr>srv_registrationTTL := max 0 ttl\<rparr>"

definition WithRefreshReuseDetection :: "bool \<Rightarrow> server_option" where
  "WithRefreshReuseDetection detect s = s\<lparr>srv_detectRefreshReuse := detect\<rparr>"

definition WithScopes :: "string list \<Rightarrow> server_option" where
  "WithScopes scopes s = s\<lparr>srv_scopes := srv_scopes s @ scopes\<rparr>"

definition WithResources :: "string list \<Rightarrow> server_option" where
  "WithResources resources s = s\<lparr>srv_resources := srv_resources s @ resources\<rparr>"

definition WithServiceDocumentation :: "string \<Rightarrow> server_option" where
  "WithServiceDocumentation url s = s\<lparr>srv_serviceDocumentation := url\<rparr>"

definition WithSubjectResolver :: "bool \<Rightarrow> server_option" where
  "WithSubjectResolver given s = (if given then s\<lparr>srv_resolver := True\<rparr> else s)"

definition WithRegistrationPolicy :: "(RegistrationRequest option \<Rightarrow> registration_error option) option \<Rightarrow> server_option" where
  "WithRegistrationPolicy policy s = (case policy of Some p \<Rightarrow> s\<lparr>srv_policy := p\<rparr> | None \<Rightarrow> s)"

definition WithDynamicRegistration :: "bool \<Rightarrow> server_option" where
  "WithDynamicRegistration serve s = s\<lparr>srv_dynamicRegistration := serve\<rparr>"

definition WithRevocationObserver :: "bool \<Rightarrow> server_option" where
  "WithRevocationObserver given s = (if given then s\<lparr>srv_revocationObserver := True\<rparr> else s)"

definition newServerOptions :: "oauth_env \<Rightarrow> server_option option list \<Rightarrow> Server" where
  "newServerOptions env opts = foldl (\<lambda>s opt. case opt of Some f \<Rightarrow> f s | None \<Rightarrow> s) (default_server env) opts"

datatype server_error = IssuerError issuer_error | ErrNilStore | ErrNilAuthenticator

text \<open>\<^verbatim>\<open>NewServer\<close>; whether a store and an authenticator were given is a flag each.\<close>

definition NewServer :: "oauth_env \<Rightarrow> string \<Rightarrow> bool \<Rightarrow> bool \<Rightarrow> server_option option list \<Rightarrow> server_error + Server" where
  "NewServer env issuer store authenticator opts =
     (case normalizeIssuer env issuer of
        Inl e \<Rightarrow> Inl (IssuerError e)
      | Inr normalized \<Rightarrow>
          if \<not> store then Inl ErrNilStore
          else if \<not> authenticator then Inl ErrNilAuthenticator
          else Inr ((newServerOptions env opts)\<lparr>srv_issuer := normalized\<rparr>))"

record TokenResponse =
  tr_AccessToken :: string
  tr_TokenType :: string
  tr_RefreshToken :: string
  tr_Scope :: string
  tr_ExpiresIn :: int

text \<open>\<^verbatim>\<open>s.now()\<close>, and \<^verbatim>\<open>mintCredential\<close> with the digest of what it minted.\<close>

definition read_now :: "(gotime \<Rightarrow> 'a prog) \<Rightarrow> 'a prog" where
  "read_now k = ReadClock (\<lambda>t. k (store_now t))"

definition mintCredential :: "oauth_env \<Rightarrow> ((string \<times> string) option \<Rightarrow> 'a prog) \<Rightarrow> 'a prog" where
  "mintCredential env k = MintValue (\<lambda>r. k (case r of None \<Rightarrow> None | Some value \<Rightarrow> Some (value, Hash env value)))"

text \<open>An access token and a refresh token of one family, the access token first.\<close>

datatype issue_error = IssueMint | IssueStore store_error

definition issueTokenPair :: "oauth_env \<Rightarrow> Server \<Rightarrow> string \<Rightarrow> string \<Rightarrow> Subject \<Rightarrow> string list \<Rightarrow> string list \<Rightarrow> string list
    \<Rightarrow> (issue_error + TokenResponse) prog" where
  "issueTokenPair env srv clientID familyID subject scopes audience resources =
     read_now (\<lambda>now.
       mintCredential env (\<lambda>minted. case minted of
         None \<Rightarrow> Ret (Inl IssueMint)
       | Some (accessValue, accessHash) \<Rightarrow>
           CreateAccessToken
             \<lparr>at_IssuedAt = now, at_ExpiresAt = now + srv_accessTTL srv, at_RevokedAt = 0, at_Hash = accessHash,
              at_ClientID = clientID, at_FamilyID = familyID, at_Subject = subject, at_Scopes = scopes, at_Audience = audience\<rparr>
             (\<lambda>err. case err of
               Some e \<Rightarrow> Ret (Inl (IssueStore e))
             | None \<Rightarrow>
                 mintCredential env (\<lambda>minted'. case minted' of
                   None \<Rightarrow> Ret (Inl IssueMint)
                 | Some (refreshValue, refreshHash) \<Rightarrow>
                     CreateRefreshToken
                       \<lparr>rt_IssuedAt = now, rt_ExpiresAt = now + srv_refreshTTL srv, rt_RedeemedAt = 0, rt_RevokedAt = 0,
                        rt_Hash = refreshHash, rt_ClientID = clientID, rt_FamilyID = familyID, rt_Subject = subject,
                        rt_Scopes = scopes, rt_Audience = audience, rt_Resources = resources\<rparr>
                       (\<lambda>err'. case err' of
                         Some e \<Rightarrow> Ret (Inl (IssueStore e))
                       | None \<Rightarrow>
                           Count TokensIssued 1
                             (Ret (Inr \<lparr>tr_AccessToken = accessValue, tr_TokenType = TokenTypeBearer, tr_RefreshToken = refreshValue,
                                        tr_Scope = joinScopes scopes, tr_ExpiresIn = oe_Seconds env (srv_accessTTL srv)\<rparr>)))))))"

text \<open>\<^verbatim>\<open>Server.Authenticate\<close>: the record behind a bearer token.\<close>

definition Authenticate_srv :: "oauth_env \<Rightarrow> string \<Rightarrow> (store_error + AccessToken) prog" where
  "Authenticate_srv env bearer =
     (if bearer = [] then Ret (Inl ErrEmptyIdentifier)
      else GetAccessToken (Hash env bearer) (\<lambda>r. Ret r))"

subsection \<open>Requests and responses\<close>

datatype body = MalformedBody | BodyTooLarge | Decoded RegistrationRequest

record http_request =
  rq_Method :: string
  rq_Form :: "(string, string list) gomap option"
  rq_BasicAuth :: "(string \<times> string) option"
  rq_RequestURI :: string
  rq_Body :: body

definition form_values :: "http_request \<Rightarrow> string \<Rightarrow> string list" where
  "form_values req k = (case rq_Form req of None \<Rightarrow> [] | Some form \<Rightarrow> (case mget form k of None \<Rightarrow> [] | Some vs \<Rightarrow> vs))"

definition Form_Get :: "http_request \<Rightarrow> string \<Rightarrow> string" where
  "Form_Get req k = (case form_values req k of [] \<Rightarrow> [] | v # vs \<Rightarrow> v)"

record LoginView =
  lv_Action :: string
  lv_Error :: string
  lv_ClientName :: string
  lv_Scopes :: "string list"

record RegistrationResponse =
  rp_ClientID :: string
  rp_ClientSecret :: string
  rp_ClientName :: string
  rp_Scope :: string
  rp_TokenEndpointAuthMethod :: string
  rp_RedirectURIs :: "string list"
  rp_GrantTypes :: "string list"
  rp_ResponseTypes :: "string list"
  rp_ClientIDIssuedAt :: int
  rp_ClientSecretExpiresAt :: int

text \<open>
  \<open>FoundAt uri params\<close> is the redirection to a URI with parameters merged into its query; an error in JSON says whether it
  carries the challenge to authenticate.
\<close>

datatype response =
  FaultText nat string string
| FoundAt string "(string \<times> string) list"
| BadRedirect
| LoginPage LoginView
| ErrorJSON nat string string bool
| TokenJSON TokenResponse
| ClientJSON RegistrationResponse
| EmptyOK

definition writeProtocolError :: "protocolError \<Rightarrow> response" where
  "writeProtocolError err = ErrorJSON (pe_status err) (pe_code err) (pe_description err) (pe_status err = StatusUnauthorized)"

definition writeAuthorizeFault :: "protocolError \<Rightarrow> response" where
  "writeAuthorizeFault perr = FaultText (pe_status perr) (pe_code perr) (pe_description perr)"

subsection \<open>authorize.go\<close>

record authorizeRequest =
  ar_client :: Client
  ar_redirectURI :: string
  ar_state :: string
  ar_nonce :: string
  ar_codeChallenge :: string
  ar_scopes :: "string list"
  ar_resources :: "string list"

definition clientAllows :: "string list \<Rightarrow> string \<Rightarrow> bool" where
  "clientAllows registered want \<longleftrightarrow> registered = [] \<or> want \<in> set registered"

definition checkScopes :: "Server \<Rightarrow> Client \<Rightarrow> string list \<Rightarrow> oauth_cause option" where
  "checkScopes srv client requested =
     first_error (\<lambda>scope.
       if cl_Scopes client \<noteq> [] \<and> scope \<notin> set (cl_Scopes client) then Some ErrInvalidScope
       else if srv_scopes srv \<noteq> [] \<and> scope \<notin> set (srv_scopes srv) then Some ErrInvalidScope
       else None) requested"

definition checkResources :: "Server \<Rightarrow> string list \<Rightarrow> oauth_cause option" where
  "checkResources srv requested =
     (if srv_resources srv = [] then None
      else first_error (\<lambda>resource. if resource \<notin> set (srv_resources srv) then Some (ErrInvalidResource resource) else None) requested)"

definition DefaultLoginFailureMessage :: string where
  "DefaultLoginFailureMessage = ''Sign-in failed. Check your details and try again.''"

definition loginMessage :: "auth_error \<Rightarrow> string" where
  "loginMessage err = (case err of LoginFailed (Some m) \<Rightarrow> if m \<noteq> [] then m else DefaultLoginFailureMessage | _ \<Rightarrow> DefaultLoginFailureMessage)"

definition redirect :: "oauth_env \<Rightarrow> string \<Rightarrow> (string \<times> string) list \<Rightarrow> response" where
  "redirect env redirectURI params = (case oe_url_Parse env redirectURI of None \<Rightarrow> BadRedirect | Some _ \<Rightarrow> FoundAt redirectURI params)"

definition redirectError :: "oauth_env \<Rightarrow> Server \<Rightarrow> authorizeRequest \<Rightarrow> protocolError \<Rightarrow> response" where
  "redirectError env srv authorized perr =
     redirect env (ar_redirectURI authorized)
       ([(''error'', pe_code perr)]
        @ (if pe_description perr \<noteq> [] then [(''error_description'', pe_description perr)] else [])
        @ (if ar_state authorized \<noteq> [] then [(''state'', ar_state authorized)] else [])
        @ [(''iss'', srv_issuer srv)])"

definition renderLogin :: "http_request \<Rightarrow> authorizeRequest \<Rightarrow> string \<Rightarrow> response" where
  "renderLogin req authorized message =
     LoginPage \<lparr>lv_Action = rq_RequestURI req, lv_Error = message,
                lv_ClientName = (if cl_Name (ar_client authorized) = [] then cl_ID (ar_client authorized) else cl_Name (ar_client authorized)),
                lv_Scopes = ar_scopes authorized\<rparr>"

definition resolveAuthorizeRequest :: "http_request \<Rightarrow> (protocolError + authorizeRequest) prog" where
  "resolveAuthorizeRequest req =
     (let clientID = Form_Get req ''client_id''
      in if clientID = []
         then Ret (Inl (newProtocolError StatusBadRequest ErrorCodeInvalidRequest ''client_id is required'' EmptyInput))
         else GetClient clientID (\<lambda>r. case r of
           Inl err \<Rightarrow>
             if is_not_found err
             then Ret (Inl (newProtocolError StatusBadRequest ErrorCodeInvalidClient ''unknown or expired client_id'' (ErrUnknownClient clientID)))
             else Ret (Inl (newProtocolError StatusInternalServerError ErrorCodeServerError ''could not read the client registration'' (StoreCause err)))
         | Inr client \<Rightarrow>
             (let redirectURI = Form_Get req ''redirect_uri''
              in if redirectURI = []
                 then Ret (Inl (newProtocolError StatusBadRequest ErrorCodeInvalidRequest ''redirect_uri is required'' EmptyInput))
                 else if redirectURI \<notin> set (cl_RedirectURIs client)
                 then Ret (Inl (newProtocolError StatusBadRequest ErrorCodeInvalidRequest ''redirect_uri is not registered for this client'' ErrInvalidRedirectURI))
                 else Ret (Inr \<lparr>ar_client = client, ar_redirectURI = redirectURI, ar_state = Form_Get req ''state'',
                                ar_nonce = Form_Get req ''nonce'', ar_codeChallenge = Form_Get req ''code_challenge'',
                                ar_scopes = splitScopes (Form_Get req ''scope''), ar_resources = form_values req ''resource''\<rparr>))))"

definition validateAuthorizeRequest :: "Server \<Rightarrow> http_request \<Rightarrow> authorizeRequest \<Rightarrow> protocolError option" where
  "validateAuthorizeRequest srv req authorized =
     (if Form_Get req ''response_type'' \<noteq> ResponseTypeCode
      then Some (newProtocolError StatusBadRequest ErrorCodeUnsupportedResponseType ''only the code response_type is supported'' (ErrUnsupportedResponseType (Form_Get req ''response_type'')))
      else if \<not> clientAllows (cl_GrantTypes (ar_client authorized)) GrantTypeAuthorizationCode
      then Some (newProtocolError StatusBadRequest ErrorCodeUnauthorizedClient ''this client is not registered for the authorization_code grant'' (ErrUnsupportedGrantType GrantTypeAuthorizationCode))
      else if ar_codeChallenge authorized = []
      then Some (newProtocolError StatusBadRequest ErrorCodeInvalidRequest ''code_challenge is required'' ErrPKCERequired)
      else if Form_Get req ''code_challenge_method'' \<noteq> CodeChallengeMethodS256
      then Some (newProtocolError StatusBadRequest ErrorCodeInvalidRequest ''code_challenge_method must be S256'' ErrPKCERequired)
      else if \<not> validCodeChallenge (ar_codeChallenge authorized)
      then Some (newProtocolError StatusBadRequest ErrorCodeInvalidRequest ''code_challenge is not a base64url-encoded S256 digest'' ErrPKCERequired)
      else (case checkScopes srv (ar_client authorized) (ar_scopes authorized) of
              Some err \<Rightarrow> Some (newProtocolError StatusBadRequest ErrorCodeInvalidScope ''requested scope is not available to this client'' err)
            | None \<Rightarrow>
                (case checkResources srv (ar_resources authorized) of
                   Some err \<Rightarrow> Some (newProtocolError StatusBadRequest ErrorCodeInvalidTarget ''requested resource is not served by this authorization server'' err)
                 | None \<Rightarrow> None)))"

definition resolveSubject :: "Server \<Rightarrow> (protocolError + Subject option) prog" where
  "resolveSubject srv =
     (if \<not> srv_resolver srv then Ret (Inr None)
      else ResolveSubject (\<lambda>r. case r of
        Inl _ \<Rightarrow> Ret (Inl (newProtocolError StatusInternalServerError ErrorCodeServerError ''could not resolve the resource owner'' ResolverFailure))
      | Inr None \<Rightarrow> Ret (Inr None)
      | Inr (Some subject) \<Rightarrow>
          if su_ID subject = []
          then Ret (Inl (newProtocolError StatusInternalServerError ErrorCodeServerError ''could not resolve the resource owner'' ErrLoginFailed))
          else Ret (Inr (Some subject))))"

definition issueCode :: "oauth_env \<Rightarrow> Server \<Rightarrow> authorizeRequest \<Rightarrow> Subject \<Rightarrow> response prog" where
  "issueCode env srv authorized subject =
     mintCredential env (\<lambda>minted. case minted of
       None \<Rightarrow> Ret (redirectError env srv authorized (newProtocolError StatusInternalServerError ErrorCodeServerError ''could not issue an authorization code'' MintFailed))
     | Some (value, digest) \<Rightarrow>
         read_now (\<lambda>now. NewFamilyID (\<lambda>family.
           CreateAuthorizationCode
             \<lparr>ac_IssuedAt = now, ac_ExpiresAt = now + srv_codeTTL srv, ac_RedeemedAt = 0, ac_Hash = digest,
              ac_ClientID = cl_ID (ar_client authorized), ac_FamilyID = family, ac_RedirectURI = ar_redirectURI authorized,
              ac_CodeChallenge = ar_codeChallenge authorized, ac_Nonce = ar_nonce authorized, ac_Subject = subject,
              ac_Scopes = ar_scopes authorized, ac_Resources = ar_resources authorized\<rparr>
             (\<lambda>err. case err of
               Some e \<Rightarrow> Ret (redirectError env srv authorized (newProtocolError StatusInternalServerError ErrorCodeServerError ''could not issue an authorization code'' (StoreCause e)))
             | None \<Rightarrow>
                 Count CodesIssued 1
                   (Ret (redirect env (ar_redirectURI authorized)
                      ([(''code'', value)] @ (if ar_state authorized \<noteq> [] then [(''state'', ar_state authorized)] else [])
                       @ [(''iss'', srv_issuer srv)])))))))"

text \<open>What the answer of the authenticator amounts to: no subject or one without an identifier is a failed login.\<close>

definition login_result :: "auth_answer \<Rightarrow> auth_error + Subject" where
  "login_result answer =
     (case answer of
        (_, Some err) \<Rightarrow> Inl err
      | (None, None) \<Rightarrow> Inl (LoginFailed None)
      | (Some subject, None) \<Rightarrow> if su_ID subject = [] then Inl (LoginFailed None) else Inr subject)"

text \<open>The two ways a subject is found: the resolver first, then the form of a POST.\<close>

definition authenticate_owner :: "oauth_env \<Rightarrow> Server \<Rightarrow> http_request \<Rightarrow> authorizeRequest \<Rightarrow> response prog" where
  "authenticate_owner env srv req authorized =
     AuthenticateSubject (\<lambda>answer. case login_result answer of
       Inl (LoginFailed m) \<Rightarrow> Ret (renderLogin req authorized (loginMessage (LoginFailed m)))
     | Inl OtherAuthError \<Rightarrow>
         Ret (redirectError env srv authorized (newProtocolError StatusInternalServerError ErrorCodeServerError ''could not authenticate the resource owner'' AuthenticatorFailure))
     | Inr subject \<Rightarrow> issueCode env srv authorized subject)"

definition authorize_owner :: "oauth_env \<Rightarrow> Server \<Rightarrow> http_request \<Rightarrow> authorizeRequest \<Rightarrow> response prog" where
  "authorize_owner env srv req authorized =
     bind_prog (resolveSubject srv) (\<lambda>r. case r of
       Inl perr \<Rightarrow> Ret (redirectError env srv authorized perr)
     | Inr (Some subject) \<Rightarrow> issueCode env srv authorized subject
     | Inr None \<Rightarrow>
         if rq_Method req \<noteq> ''POST'' then Ret (renderLogin req authorized [])
         else authenticate_owner env srv req authorized)"

definition AuthorizeHandler :: "oauth_env \<Rightarrow> Server \<Rightarrow> http_request \<Rightarrow> response prog" where
  "AuthorizeHandler env srv req =
     (if rq_Form req = None
      then Ret (writeAuthorizeFault (newProtocolError StatusBadRequest ErrorCodeInvalidRequest ''malformed request'' MalformedForm))
      else bind_prog (resolveAuthorizeRequest req) (\<lambda>r. case r of
        Inl perr \<Rightarrow> Ret (writeAuthorizeFault perr)
      | Inr authorized \<Rightarrow>
          (case validateAuthorizeRequest srv req authorized of
             Some perr \<Rightarrow> Ret (redirectError env srv authorized perr)
           | None \<Rightarrow> authorize_owner env srv req authorized)))"

subsection \<open>token.go\<close>

definition authenticateClient :: "oauth_env \<Rightarrow> http_request \<Rightarrow> (protocolError + Client) prog" where
  "authenticateClient env req =
     (case (case rq_BasicAuth req of
              Some (u, p) \<Rightarrow> (u, p)
            | None \<Rightarrow> (Form_Get req ''client_id'', Form_Get req ''client_secret'')) of
        (clientID, secret) \<Rightarrow>
          if clientID = []
          then Ret (Inl (newProtocolError StatusUnauthorized ErrorCodeInvalidClient ''client authentication is required'' ErrClientAuthenticationFailed))
          else GetClient clientID (\<lambda>r. case r of
            Inl err \<Rightarrow>
              if is_not_found err
              then Ret (Inl (newProtocolError StatusUnauthorized ErrorCodeInvalidClient ''client authentication failed'' (ErrUnknownClient clientID)))
              else Ret (Inl (newProtocolError StatusInternalServerError ErrorCodeServerError ''could not read the client registration'' (StoreCause err)))
          | Inr client \<Rightarrow>
              if Public client
              then (if secret \<noteq> []
                    then Ret (Inl (newProtocolError StatusUnauthorized ErrorCodeInvalidClient ''client authentication failed'' ErrClientAuthenticationFailed))
                    else Ret (Inr client))
              else if secret = [] \<or> \<not> equalHash (cl_SecretHash client) (Hash env secret)
              then Ret (Inl (newProtocolError StatusUnauthorized ErrorCodeInvalidClient ''client authentication failed'' ErrClientAuthenticationFailed))
              else Ret (Inr client)))"

definition revokeFamily :: "string \<Rightarrow> nat prog" where
  "revokeFamily familyID =
     (if familyID = [] then Ret 0
      else RevokeFamily familyID (\<lambda>r. case r of Inl _ \<Rightarrow> Ret 0 | Inr revoked \<Rightarrow> Count Revocations revoked (Ret revoked)))"

definition handleCodeReplay :: "AuthorizationCode option \<Rightarrow> unit prog" where
  "handleCodeReplay code =
     (case code of
        None \<Rightarrow> Ret ()
      | Some c \<Rightarrow> Count ReuseDetected 1 (bind_prog (revokeFamily (ac_FamilyID c)) (\<lambda>_. Ret ())))"

definition codeRedemptionError :: "AuthorizationCode option \<Rightarrow> store_error \<Rightarrow> protocolError prog" where
  "codeRedemptionError code err =
     (if err = ErrAlreadyRedeemed
      then bind_prog (handleCodeReplay code) (\<lambda>_.
        Ret (newProtocolError StatusBadRequest ErrorCodeInvalidGrant ''authorization code has already been redeemed'' (StoreCause err)))
      else if is_not_found err
      then Ret (newProtocolError StatusBadRequest ErrorCodeInvalidGrant ''authorization code is invalid or expired'' (StoreCause err))
      else Ret (newProtocolError StatusInternalServerError ErrorCodeServerError ''could not redeem the authorization code'' (StoreCause err)))"

text \<open>How the failure to issue a pair is reported.\<close>

definition issue_failed :: "issue_error \<Rightarrow> protocolError" where
  "issue_failed e =
     newProtocolError StatusInternalServerError ErrorCodeServerError ''could not issue tokens''
       (case e of IssueMint \<Rightarrow> MintFailed | IssueStore se \<Rightarrow> StoreCause se)"

definition audienceFor :: "string list \<Rightarrow> string list" where
  "audienceFor resources = resources"

definition grantAuthorizationCode :: "oauth_env \<Rightarrow> Server \<Rightarrow> http_request \<Rightarrow> Client \<Rightarrow> (protocolError + TokenResponse) prog" where
  "grantAuthorizationCode env srv req client =
     (if \<not> clientAllows (cl_GrantTypes client) GrantTypeAuthorizationCode
      then Ret (Inl (newProtocolError StatusBadRequest ErrorCodeUnauthorizedClient ''this client is not registered for the authorization_code grant'' (ErrUnsupportedGrantType GrantTypeAuthorizationCode)))
      else if Form_Get req ''code'' = []
      then Ret (Inl (newProtocolError StatusBadRequest ErrorCodeInvalidRequest ''code is required'' EmptyInput))
      else if \<not> validCodeVerifier (Form_Get req ''code_verifier'')
      then Ret (Inl (newProtocolError StatusBadRequest ErrorCodeInvalidRequest ''code_verifier is required and must be 43 to 128 unreserved characters'' ErrPKCERequired))
      else ConsumeAuthorizationCode (Hash env (Form_Get req ''code'')) (\<lambda>r. case r of
        Refused err record \<Rightarrow> bind_prog (codeRedemptionError record err) (\<lambda>perr. Ret (Inl perr))
      | Consumed code \<Rightarrow>
          if ac_ClientID code \<noteq> cl_ID client
          then Ret (Inl (newProtocolError StatusBadRequest ErrorCodeInvalidGrant ''authorization code was issued to a different client'' ErrCodeClientMismatch))
          else if Form_Get req ''redirect_uri'' \<noteq> ac_RedirectURI code
          then Ret (Inl (newProtocolError StatusBadRequest ErrorCodeInvalidGrant ''redirect_uri does not match the authorization request'' ErrRedirectURIMismatch))
          else if \<not> VerifyPKCE env (Form_Get req ''code_verifier'') (ac_CodeChallenge code)
          then Ret (Inl (newProtocolError StatusBadRequest ErrorCodeInvalidGrant ''code_verifier does not match the code_challenge'' ErrPKCEVerificationFailed))
          else bind_prog (if ac_FamilyID code = [] then NewFamilyID (\<lambda>f. Ret f) else Ret (ac_FamilyID code)) (\<lambda>family.
                 bind_prog (issueTokenPair env srv (cl_ID client) family (ac_Subject code) (ac_Scopes code)
                              (audienceFor (ac_Resources code)) (ac_Resources code)) (\<lambda>response. case response of
                   Inl e \<Rightarrow> Ret (Inl (issue_failed e))
                 | Inr tr \<Rightarrow> Ret (Inr tr)))))"

definition refreshRotationError :: "Server \<Rightarrow> RefreshToken option \<Rightarrow> store_error \<Rightarrow> protocolError prog" where
  "refreshRotationError srv previous err =
     (if err = ErrAlreadyRedeemed
      then Count ReuseDetected 1
             (bind_prog (case previous of Some p \<Rightarrow> (if srv_detectRefreshReuse srv then revokeFamily (rt_FamilyID p) else Ret 0) | None \<Rightarrow> Ret 0) (\<lambda>_.
                Ret (newProtocolError StatusBadRequest ErrorCodeInvalidGrant ''refresh token has already been used'' (StoreCause err))))
      else if is_not_found err
      then Ret (newProtocolError StatusBadRequest ErrorCodeInvalidGrant ''refresh token is invalid, expired, or revoked'' (StoreCause err))
      else Ret (newProtocolError StatusInternalServerError ErrorCodeServerError ''could not rotate the refresh token'' (StoreCause err)))"

fun subsetOf :: "string list \<Rightarrow> string list \<Rightarrow> bool" where
  "subsetOf [] b = True"
| "subsetOf (item # a) b = (if item \<notin> set b then False else subsetOf a b)"

definition grantRefreshToken :: "oauth_env \<Rightarrow> Server \<Rightarrow> http_request \<Rightarrow> Client \<Rightarrow> (protocolError + TokenResponse) prog" where
  "grantRefreshToken env srv req client =
     (if \<not> clientAllows (cl_GrantTypes client) GrantTypeRefreshToken
      then Ret (Inl (newProtocolError StatusBadRequest ErrorCodeUnauthorizedClient ''this client is not registered for the refresh_token grant'' (ErrUnsupportedGrantType GrantTypeRefreshToken)))
      else if Form_Get req ''refresh_token'' = []
      then Ret (Inl (newProtocolError StatusBadRequest ErrorCodeInvalidRequest ''refresh_token is required'' EmptyInput))
      else ConsumeRefreshToken (Hash env (Form_Get req ''refresh_token'')) (\<lambda>r. case r of
        Refused err record \<Rightarrow> bind_prog (refreshRotationError srv record err) (\<lambda>perr. Ret (Inl perr))
      | Consumed previous \<Rightarrow>
          if rt_ClientID previous \<noteq> cl_ID client
          then bind_prog (revokeFamily (rt_FamilyID previous)) (\<lambda>_.
                 Ret (Inl (newProtocolError StatusBadRequest ErrorCodeInvalidGrant ''refresh token was issued to a different client'' ErrCodeClientMismatch)))
          else (let requested = splitScopes (Form_Get req ''scope'')
                in if requested \<noteq> [] \<and> \<not> subsetOf requested (rt_Scopes previous)
                   then Ret (Inl (newProtocolError StatusBadRequest ErrorCodeInvalidScope ''refresh cannot widen the granted scope'' ErrInvalidScope))
                   else bind_prog (issueTokenPair env srv (cl_ID client) (rt_FamilyID previous) (rt_Subject previous)
                                    (if requested \<noteq> [] then requested else rt_Scopes previous) (rt_Audience previous) (rt_Resources previous))
                          (\<lambda>response. case response of
                             Inl e \<Rightarrow> Ret (Inl (issue_failed e))
                           | Inr tr \<Rightarrow> Ret (Inr tr)))))"

definition TokenHandler :: "oauth_env \<Rightarrow> Server \<Rightarrow> http_request \<Rightarrow> response prog" where
  "TokenHandler env srv req =
     (if rq_Form req = None
      then Ret (writeProtocolError (newProtocolError StatusBadRequest ErrorCodeInvalidRequest ''malformed request'' MalformedForm))
      else bind_prog (authenticateClient env req) (\<lambda>r. case r of
        Inl perr \<Rightarrow> Ret (writeProtocolError perr)
      | Inr client \<Rightarrow>
          (let grantType = Form_Get req ''grant_type''
           in bind_prog
                (if grantType = GrantTypeAuthorizationCode then grantAuthorizationCode env srv req client
                 else if grantType = GrantTypeRefreshToken then grantRefreshToken env srv req client
                 else Ret (Inl (newProtocolError StatusBadRequest ErrorCodeUnsupportedGrantType ''unsupported grant_type'' (ErrUnsupportedGrantType grantType))))
                (\<lambda>r'. case r' of Inl perr \<Rightarrow> Ret (writeProtocolError perr) | Inr response \<Rightarrow> Ret (TokenJSON response)))))"

subsection \<open>revoke.go\<close>

definition observeRevocation :: "Server \<Rightarrow> Subject \<Rightarrow> string \<Rightarrow> 'a prog \<Rightarrow> 'a prog" where
  "observeRevocation srv subject familyID k = (if \<not> srv_revocationObserver srv then k else Observe subject familyID k)"

datatype token_kind = HintAccessToken | HintRefreshToken

definition revokeOne :: "Server \<Rightarrow> Client \<Rightarrow> string \<Rightarrow> token_kind \<Rightarrow> bool prog" where
  "revokeOne srv client digest kind =
     (if kind = HintRefreshToken
      then GetRefreshToken digest (\<lambda>r. case r of
        Inl _ \<Rightarrow> Ret False
      | Inr token \<Rightarrow>
          if rt_ClientID token \<noteq> cl_ID client then Ret False
          else bind_prog (revokeFamily (rt_FamilyID token)) (\<lambda>n.
                 if n > 0 then observeRevocation srv (rt_Subject token) (rt_FamilyID token) (Ret True) else Ret True))
      else GetAccessToken digest (\<lambda>r. case r of
        Inl _ \<Rightarrow> Ret False
      | Inr token \<Rightarrow>
          if at_ClientID token \<noteq> cl_ID client then Ret False
          else RevokeAccessToken digest (\<lambda>err. case err of
            Some _ \<Rightarrow> Ret True
          | None \<Rightarrow> Count Revocations 1 (observeRevocation srv (at_Subject token) (at_FamilyID token) (Ret True)))))"

fun revoke_kinds :: "Server \<Rightarrow> Client \<Rightarrow> string \<Rightarrow> token_kind list \<Rightarrow> unit prog" where
  "revoke_kinds srv client digest [] = Ret ()"
| "revoke_kinds srv client digest (kind # kinds) =
     bind_prog (revokeOne srv client digest kind) (\<lambda>found. if found then Ret () else revoke_kinds srv client digest kinds)"

definition revoke_token :: "Server \<Rightarrow> Client \<Rightarrow> string \<Rightarrow> string \<Rightarrow> unit prog" where
  "revoke_token srv client digest hint =
     revoke_kinds srv client digest
       (if hint = ''refresh_token'' then [HintRefreshToken, HintAccessToken] else [HintAccessToken, HintRefreshToken])"

definition RevokeHandler :: "oauth_env \<Rightarrow> Server \<Rightarrow> http_request \<Rightarrow> response prog" where
  "RevokeHandler env srv req =
     (if rq_Form req = None
      then Ret (writeProtocolError (newProtocolError StatusBadRequest ErrorCodeInvalidRequest ''malformed request'' MalformedForm))
      else bind_prog (authenticateClient env req) (\<lambda>r. case r of
        Inl perr \<Rightarrow> Ret (writeProtocolError perr)
      | Inr client \<Rightarrow>
          if Form_Get req ''token'' = []
          then Ret (writeProtocolError (newProtocolError StatusBadRequest ErrorCodeInvalidRequest ''token is required'' (StoreCause ErrEmptyIdentifier)))
          else bind_prog (revoke_token srv client (Hash env (Form_Get req ''token'')) (Form_Get req ''token_type_hint'')) (\<lambda>_. Ret EmptyOK)))"

subsection \<open>register.go\<close>

definition narrowGrantTypes :: "string list \<Rightarrow> string list" where
  "narrowGrantTypes requested =
     (if requested = [] then [GrantTypeAuthorizationCode, GrantTypeRefreshToken]
      else (let granted = filter (\<lambda>want. want \<in> set requested) [GrantTypeAuthorizationCode, GrantTypeRefreshToken]
            in if granted = [] then [GrantTypeAuthorizationCode] else granted))"

definition narrowScopes :: "Server \<Rightarrow> string \<Rightarrow> string list" where
  "narrowScopes srv scope =
     (let requested = splitScopes scope
      in if srv_scopes srv = [] then requested else filter (\<lambda>want. want \<in> set (srv_scopes srv)) requested)"

definition secretExpiry :: "Client \<Rightarrow> int" where
  "secretExpiry client = (if cl_SecretHash client = [] \<or> time_is_zero (cl_ExpiresAt client) then 0 else Unix (cl_ExpiresAt client))"

definition registrationError :: "oauth_env \<Rightarrow> registration_error \<Rightarrow> protocolError" where
  "registrationError env err =
     (if \<not> is_rejection err
      then newProtocolError StatusInternalServerError ErrorCodeServerError ''could not evaluate the registration'' (RegistrationCause err)
      else newProtocolError StatusBadRequest
             (if (case err of ErrRedirectURINotAbsolute \<Rightarrow> True | ErrRedirectURIInsecure \<Rightarrow> True | ErrRedirectURIHasFragment \<Rightarrow> True
                  | ErrRedirectURITooLong _ \<Rightarrow> True | ErrNoRedirectURI \<Rightarrow> True | ErrTooManyRedirectURIs \<Rightarrow> True | _ \<Rightarrow> False)
              then ErrorCodeInvalidRedirectURI else ErrorCodeInvalidClientMetadata)
             (oe_Error env err) (RegistrationCause err))"

text \<open>Storing the client and reporting it, once its credentials are minted.\<close>

definition store_client :: "Client \<Rightarrow> string \<Rightarrow> (protocolError + RegistrationResponse) prog" where
  "store_client client secret =
     CreateClient client (\<lambda>err. case err of
       Some e \<Rightarrow> Ret (Inl (newProtocolError StatusInternalServerError ErrorCodeServerError ''could not store the registration'' (StoreCause e)))
     | None \<Rightarrow>
         Ret (Inr \<lparr>rp_ClientID = cl_ID client, rp_ClientSecret = secret, rp_ClientName = cl_Name client,
                   rp_Scope = joinScopes (cl_Scopes client), rp_TokenEndpointAuthMethod = cl_TokenEndpointAuthMethod client,
                   rp_RedirectURIs = cl_RedirectURIs client, rp_GrantTypes = cl_GrantTypes client, rp_ResponseTypes = cl_ResponseTypes client,
                   rp_ClientIDIssuedAt = Unix (cl_CreatedAt client), rp_ClientSecretExpiresAt = secretExpiry client\<rparr>))"

definition register :: "oauth_env \<Rightarrow> Server \<Rightarrow> RegistrationRequest \<Rightarrow> (protocolError + RegistrationResponse) prog" where
  "register env srv request =
     mintCredential env (\<lambda>minted. case minted of
       None \<Rightarrow> Ret (Inl (newProtocolError StatusInternalServerError ErrorCodeServerError ''could not mint a client identifier'' MintFailed))
     | Some (clientID, _) \<Rightarrow>
         (let authMethod = (if rr_TokenEndpointAuthMethod request = [] then AuthMethodClientBasic else rr_TokenEndpointAuthMethod request)
          in read_now (\<lambda>now.
               (let client = \<lparr>cl_CreatedAt = now, cl_ExpiresAt = (if srv_registrationTTL srv > 0 then now + srv_registrationTTL srv else 0),
                              cl_ID = clientID, cl_SecretHash = [], cl_Name = rr_ClientName request,
                              cl_TokenEndpointAuthMethod = authMethod, cl_RedirectURIs = rr_RedirectURIs request,
                              cl_GrantTypes = narrowGrantTypes (rr_GrantTypes request), cl_ResponseTypes = [ResponseTypeCode],
                              cl_Scopes = narrowScopes srv (rr_Scope request)\<rparr>
                in if authMethod \<noteq> AuthMethodNone
                   then mintCredential env (\<lambda>minted'. case minted' of
                          None \<Rightarrow> Ret (Inl (newProtocolError StatusInternalServerError ErrorCodeServerError ''could not mint a client secret'' MintFailed))
                        | Some (secret, digest) \<Rightarrow> store_client (client\<lparr>cl_SecretHash := digest\<rparr>) secret)
                   else store_client client []))))"

definition registerHandler :: "oauth_env \<Rightarrow> Server \<Rightarrow> http_request \<Rightarrow> response prog" where
  "registerHandler env srv req =
     (if \<not> srv_dynamicRegistration srv
      then Ret (writeProtocolError (newProtocolError StatusNotFound ErrorCodeInvalidRequest ''this authorization server does not serve dynamic client registration'' ErrRegistrationNotServed))
      else (case rq_Body req of
              MalformedBody \<Rightarrow> Ret (writeProtocolError (newProtocolError StatusBadRequest ErrorCodeInvalidClientMetadata ''malformed registration request'' BodyFailure))
            | BodyTooLarge \<Rightarrow> Ret (writeProtocolError (newProtocolError StatusBadRequest ErrorCodeInvalidClientMetadata ''registration request is too large'' BodyFailure))
            | Decoded request \<Rightarrow>
                (case srv_policy srv (Some request) of
                   Some err \<Rightarrow> Ret (writeProtocolError (registrationError env err))
                 | None \<Rightarrow>
                     bind_prog (register env srv request) (\<lambda>r. case r of
                       Inl perr \<Rightarrow> Ret (writeProtocolError perr)
                     | Inr response \<Rightarrow> Count ClientsRegistered 1 (Ret (ClientJSON response))))))"

end
