(* ===== verification/OAuthRuns.thy ===== *)
theory OAuthRuns
  imports OAuthServer
begin

text \<open>
  Requests served at the same time by the authorization server.

  A thread serves one request; it keeps its program and the calls it has made. The world is a store and any number of
  threads, and a step is a request arriving, one call of one thread, or the upkeep of the store. Two things are taken from the
  deployment as premises of a call: a minted credential has a digest no earlier one had, and an identifier of a family is
  new and not empty. Nothing is assumed about the requests.

  \<open>guard\<close> says what every call of a handler rests on, given the calls the same thread made before: it is established
  from the programs alone, whatever the answers are, and holds under every interleaving.
\<close>

subsection \<open>Reasoning about a program\<close>

text \<open>
  Every call the program can make satisfies \<open>G\<close>, given the calls before it, and every response satisfies \<open>Q\<close>, whatever the
  calls are answered.
\<close>

primrec safe :: "(event list \<Rightarrow> event \<Rightarrow> bool) \<Rightarrow> (event list \<Rightarrow> 'a \<Rightarrow> bool) \<Rightarrow> event list \<Rightarrow> 'a prog \<Rightarrow> bool" where
  "safe G Q es (Ret a) = Q es a"
| "safe G Q es (CreateClient c k) = (\<forall>r. G es (Store (EvCreateClient c r)) \<and> safe G Q (es @ [Store (EvCreateClient c r)]) (k r))"
| "safe G Q es (GetClient c k) = (\<forall>r. G es (Store (EvGetClient c r)) \<and> safe G Q (es @ [Store (EvGetClient c r)]) (k r))"
| "safe G Q es (CreateAuthorizationCode c k) = (\<forall>r. G es (Store (EvCreateCode c r)) \<and> safe G Q (es @ [Store (EvCreateCode c r)]) (k r))"
| "safe G Q es (ConsumeAuthorizationCode c k) = (\<forall>r. G es (Store (EvConsumeCode c r)) \<and> safe G Q (es @ [Store (EvConsumeCode c r)]) (k r))"
| "safe G Q es (CreateAccessToken c k) = (\<forall>r. G es (Store (EvCreateAccess c r)) \<and> safe G Q (es @ [Store (EvCreateAccess c r)]) (k r))"
| "safe G Q es (GetAccessToken c k) = (\<forall>r. G es (Store (EvGetAccess c r)) \<and> safe G Q (es @ [Store (EvGetAccess c r)]) (k r))"
| "safe G Q es (RevokeAccessToken c k) = (\<forall>r. G es (Store (EvRevokeAccess c r)) \<and> safe G Q (es @ [Store (EvRevokeAccess c r)]) (k r))"
| "safe G Q es (CreateRefreshToken c k) = (\<forall>r. G es (Store (EvCreateRefresh c r)) \<and> safe G Q (es @ [Store (EvCreateRefresh c r)]) (k r))"
| "safe G Q es (ConsumeRefreshToken c k) = (\<forall>r. G es (Store (EvConsumeRefresh c r)) \<and> safe G Q (es @ [Store (EvConsumeRefresh c r)]) (k r))"
| "safe G Q es (GetRefreshToken c k) = (\<forall>r. G es (Store (EvGetRefresh c r)) \<and> safe G Q (es @ [Store (EvGetRefresh c r)]) (k r))"
| "safe G Q es (RevokeFamily c k) = (\<forall>r. G es (Store (EvRevokeFamily c r)) \<and> safe G Q (es @ [Store (EvRevokeFamily c r)]) (k r))"
| "safe G Q es (MintValue k) = (\<forall>r. G es (EvMint r) \<and> safe G Q (es @ [EvMint r]) (k r))"
| "safe G Q es (NewFamilyID k) = (\<forall>r. G es (EvNewFamily r) \<and> safe G Q (es @ [EvNewFamily r]) (k r))"
| "safe G Q es (ReadClock k) = (\<forall>r. G es (EvClock r) \<and> safe G Q (es @ [EvClock r]) (k r))"
| "safe G Q es (ResolveSubject k) = (\<forall>r. G es (EvResolve r) \<and> safe G Q (es @ [EvResolve r]) (k r))"
| "safe G Q es (AuthenticateSubject k) = (\<forall>r. G es (EvAuthenticate r) \<and> safe G Q (es @ [EvAuthenticate r]) (k r))"
| "safe G Q es (Observe su f p) = (G es (EvObserve su f) \<and> safe G Q (es @ [EvObserve su f]) p)"
| "safe G Q es (Count m n p) = (G es (EvCount m n) \<and> safe G Q (es @ [EvCount m n]) p)"

lemma safe_bind:
  assumes "safe G Q es p" and "\<And>es' a. Q es' a \<Longrightarrow> safe G R es' (g a)"
  shows "safe G R es (bind_prog p g)"
  using assms(1) by (induction p arbitrary: es) (simp_all add: assms(2))

lemma safe_mono:
  assumes "safe G Q es p" and "\<And>es' a. Q es' a \<Longrightarrow> R es' a"
  shows "safe G R es p"
  using assms(1) by (induction p arbitrary: es) (simp_all add: assms(2))

lemma safe_feed: "safe G Q es p \<Longrightarrow> feed p e = Some p' \<Longrightarrow> G es e \<and> safe G Q (es @ [e]) p'"
  by (cases p) (auto split: event.splits store_event.splits if_splits)

text \<open>The program after some calls.\<close>

fun after :: "'a prog \<Rightarrow> event list \<Rightarrow> 'a prog option" where
  "after p [] = Some p"
| "after p (e # es) = (case feed p e of None \<Rightarrow> None | Some p' \<Rightarrow> after p' es)"

lemma after_append: "after p (es @ es') = (case after p es of None \<Rightarrow> None | Some p' \<Rightarrow> after p' es')"
  by (induction es arbitrary: p) (auto split: option.splits)

lemma safe_after:
  assumes "after p es = Some p'" and "safe G Q es0 p"
  shows "safe G Q (es0 @ es) p' \<and> (\<forall>k < length es. G (es0 @ take k es) (es ! k))"
  using assms
proof (induction es arbitrary: p es0)
  case (Cons e es)
  then obtain p1 where p1: "feed p e = Some p1" "after p1 es = Some p'" by (auto split: option.splits)
  with safe_feed [OF Cons.prems(2)] have "G es0 e" "safe G Q (es0 @ [e]) p1" by auto
  with Cons.IH [OF p1(2), of "es0 @ [e]"] show ?case by (auto simp: less_Suc_eq_0_disj)
qed simp

lemma safe_after_ret: "after p es = Some (Ret a) \<Longrightarrow> safe G Q [] p \<Longrightarrow> Q es a"
  using safe_after [of p es "Ret a" G Q "[]"] by simp

text \<open>No token can be created any more.\<close>

definition issues_no_token :: "event list \<Rightarrow> event \<Rightarrow> bool" where
  "issues_no_token es e \<longleftrightarrow> (case e of Store (EvCreateAccess _ _) \<Rightarrow> False | Store (EvCreateRefresh _ _) \<Rightarrow> False | _ \<Rightarrow> True)"

definition silent :: "'a prog \<Rightarrow> bool" where
  "silent p \<longleftrightarrow> safe issues_no_token (\<lambda>_ _. True) [] p"

lemma safe_any_log: "safe (\<lambda>_. G) (\<lambda>_. Q) es p \<Longrightarrow> safe (\<lambda>_. G) (\<lambda>_. Q) es' p"
  by (induction p arbitrary: es es') (simp_all, (metis rangeI)+)

lemma silent_feed:
  assumes "silent p" and "feed p e = Some p'"
  shows "issues_no_token es e \<and> silent p'"
proof -
  obtain G where G: "issues_no_token = (\<lambda>_. G)" by (auto simp: issues_no_token_def fun_eq_iff)
  have "issues_no_token [] e" "safe (\<lambda>_. G) (\<lambda>_ _. True) [e] p'"
    using safe_feed [of issues_no_token _ "[]" p e p'] assms by (auto simp: silent_def G)
  then show ?thesis using safe_any_log [of G "\<lambda>_. True" "[e]" p' "[]"] by (simp add: silent_def G)
qed

lemma silent_bind:
  assumes "silent p" and "\<And>a. silent (g a)"
  shows "silent (bind_prog p g)"
proof -
  obtain G where G: "issues_no_token = (\<lambda>_. G)" by (auto simp: issues_no_token_def fun_eq_iff)
  show ?thesis
    unfolding silent_def
  proof (rule safe_bind)
    show "safe issues_no_token (\<lambda>_ _. True) [] p" using assms(1) by (simp add: silent_def)
    show "safe issues_no_token (\<lambda>_ _. True) es' (g a)" for es' a
      using assms(2) [of a] safe_any_log [of G "\<lambda>_. True" "[]" "g a" es'] by (simp add: silent_def G)
  qed
qed

subsection \<open>What a thread has in hand\<close>

text \<open>The terms a token is issued on: to whom, in which family, for whom, for what.\<close>

record terms =
  tm_client :: string
  tm_family :: string
  tm_subject :: Subject
  tm_scopes :: "string list"
  tm_audience :: "string list"

definition code_terms :: "AuthorizationCode \<Rightarrow> terms" where
  "code_terms c = \<lparr>tm_client = ac_ClientID c, tm_family = ac_FamilyID c, tm_subject = ac_Subject c, tm_scopes = ac_Scopes c, tm_audience = ac_Resources c\<rparr>"

definition access_terms :: "AccessToken \<Rightarrow> terms" where
  "access_terms a = \<lparr>tm_client = at_ClientID a, tm_family = at_FamilyID a, tm_subject = at_Subject a, tm_scopes = at_Scopes a, tm_audience = at_Audience a\<rparr>"

definition refresh_terms :: "RefreshToken \<Rightarrow> terms" where
  "refresh_terms f = \<lparr>tm_client = rt_ClientID f, tm_family = rt_FamilyID f, tm_subject = rt_Subject f, tm_scopes = rt_Scopes f, tm_audience = rt_Audience f\<rparr>"

text \<open>The same but for fewer scopes; a code without a family gets one when it is redeemed.\<close>

definition within :: "terms \<Rightarrow> terms \<Rightarrow> bool" where
  "within g h \<longleftrightarrow> tm_client h = tm_client g \<and> (tm_family g \<noteq> [] \<longrightarrow> tm_family h = tm_family g) \<and>
     tm_subject h = tm_subject g \<and> set (tm_scopes h) \<subseteq> set (tm_scopes g) \<and> tm_audience h = tm_audience g"

fun redeems :: "event \<Rightarrow> terms option" where
  "redeems (Store (EvConsumeCode h (Consumed c))) = Some (code_terms c)"
| "redeems (Store (EvConsumeRefresh h (Consumed f))) = Some (refresh_terms f)"
| "redeems _ = None"

fun redeemed :: "event list \<Rightarrow> terms option" where
  "redeemed [] = None"
| "redeemed (e # es) = (case redeems e of Some g \<Rightarrow> Some g | None \<Rightarrow> redeemed es)"

lemma redeemed_append [simp]: "redeemed (es @ es') = (case redeemed es of None \<Rightarrow> redeemed es' | Some g \<Rightarrow> Some g)"
  by (induction es) (auto split: option.splits)

lemma redeemed_None_iff: "redeemed es = None \<longleftrightarrow> (\<forall>e \<in> set es. redeems e = None)"
  by (induction es) (auto split: option.splits)

lemma redeemed_Some: "redeemed es = Some g \<Longrightarrow> \<exists>e \<in> set es. redeems e = Some g"
  by (induction es) (auto split: option.splits)

fun consumes :: "event \<Rightarrow> bool" where
  "consumes (Store (EvConsumeCode h r)) = True"
| "consumes (Store (EvConsumeRefresh h r)) = True"
| "consumes _ = False"

fun creates_code :: "event \<Rightarrow> bool" where
  "creates_code (Store (EvCreateCode c r)) = True"
| "creates_code _ = False"

fun creates_access :: "event \<Rightarrow> bool" where
  "creates_access (Store (EvCreateAccess a r)) = True"
| "creates_access _ = False"

fun creates_refresh :: "event \<Rightarrow> bool" where
  "creates_refresh (Store (EvCreateRefresh f r)) = True"
| "creates_refresh _ = False"

definition minted :: "oauth_env \<Rightarrow> event list \<Rightarrow> string \<Rightarrow> bool" where
  "minted env es d \<longleftrightarrow> (\<exists>v. EvMint (Some v) \<in> set es \<and> Hash env v = d)"

text \<open>The subject of a code is one the deployment's resolver or authenticator vouched for, with an identifier.\<close>

definition vouched :: "event list \<Rightarrow> Subject \<Rightarrow> bool" where
  "vouched es su \<longleftrightarrow> su_ID su \<noteq> [] \<and> (EvResolve (Inr (Some su)) \<in> set es \<or> EvAuthenticate (Some su, None) \<in> set es)"

definition scopes_granted :: "string list \<Rightarrow> string list \<Rightarrow> bool" where
  "scopes_granted allowed requested \<longleftrightarrow> allowed \<noteq> [] \<longrightarrow> set requested \<subseteq> set allowed"

text \<open>
  What a code rests on: a client read from the store, one of its registered URIs byte for byte, a challenge of the shape of an
  S256 digest, scopes and resources the client and the server allow, a subject that was vouched for, a fresh
  digest and a fresh family.
\<close>

definition code_granted :: "oauth_env \<Rightarrow> Server \<Rightarrow> event list \<Rightarrow> AuthorizationCode \<Rightarrow> bool" where
  "code_granted env srv es c \<longleftrightarrow>
     (\<exists>k client. Store (EvGetClient k (Inr client)) \<in> set es \<and> ac_ClientID c = cl_ID client \<and>
        ac_RedirectURI c \<in> set (cl_RedirectURIs client) \<and> clientAllows (cl_GrantTypes client) GrantTypeAuthorizationCode \<and>
        scopes_granted (cl_Scopes client) (ac_Scopes c)) \<and>
     scopes_granted (srv_scopes srv) (ac_Scopes c) \<and> scopes_granted (srv_resources srv) (ac_Resources c) \<and>
     validCodeChallenge (ac_CodeChallenge c) \<and> vouched es (ac_Subject c) \<and> minted env es (ac_Hash c) \<and>
     EvNewFamily (ac_FamilyID c) \<in> set es \<and> time_is_zero (ac_RedeemedAt c)"

text \<open>The client of a token was read from the store and is public or proved its secret.\<close>

definition authenticated :: "oauth_env \<Rightarrow> event list \<Rightarrow> string \<Rightarrow> bool" where
  "authenticated env es clientID \<longleftrightarrow>
     (\<exists>k client. Store (EvGetClient k (Inr client)) \<in> set es \<and> cl_ID client = clientID \<and>
        (Public client \<or> (\<exists>secret. secret \<noteq> [] \<and> cl_SecretHash client = Hash env secret)))"

text \<open>A code that is turned into tokens meets the verifier and the URI of the request that redeems it.\<close>

definition proof_shown :: "oauth_env \<Rightarrow> event list \<Rightarrow> bool" where
  "proof_shown env es \<longleftrightarrow>
     (\<forall>h c. Store (EvConsumeCode h (Consumed c)) \<in> set es \<longrightarrow>
        (\<exists>value verifier. h = Hash env value \<and> validCodeVerifier verifier \<and> VerifyPKCE env verifier (ac_CodeChallenge c)))"

definition token_granted :: "oauth_env \<Rightarrow> event list \<Rightarrow> terms \<Rightarrow> bool" where
  "token_granted env es tm \<longleftrightarrow>
     (\<exists>g. redeemed es = Some g \<and> within g tm) \<and> authenticated env es (tm_client tm) \<and> proof_shown env es"

text \<open>A family that a thread may revoke is one it learned from the store: from a replay, a token that moved or a token of its client.\<close>

definition family_known :: "event list \<Rightarrow> string \<Rightarrow> bool" where
  "family_known es f \<longleftrightarrow> f \<noteq> [] \<and>
     ((\<exists>h c. Store (EvConsumeCode h (Refused ErrAlreadyRedeemed (Some c))) \<in> set es \<and> ac_FamilyID c = f) \<or>
      (\<exists>h t. Store (EvConsumeRefresh h (Refused ErrAlreadyRedeemed (Some t))) \<in> set es \<and> rt_FamilyID t = f) \<or>
      (\<exists>h t. Store (EvConsumeRefresh h (Consumed t)) \<in> set es \<and> rt_FamilyID t = f) \<or>
      (\<exists>h t. Store (EvGetRefresh h (Inr t)) \<in> set es \<and> rt_FamilyID t = f))"

fun guard :: "oauth_env \<Rightarrow> Server \<Rightarrow> event list \<Rightarrow> event \<Rightarrow> bool" where
  "guard env srv es (Store (EvCreateCode c r)) = (code_granted env srv es c \<and> \<not> list_ex creates_code es)"
| "guard env srv es (Store (EvConsumeCode h r)) = (\<not> list_ex consumes es)"
| "guard env srv es (Store (EvConsumeRefresh h r)) = (\<not> list_ex consumes es)"
| "guard env srv es (Store (EvCreateAccess a r)) =
     (token_granted env es (access_terms a) \<and> minted env es (at_Hash a) \<and> time_is_zero (at_RevokedAt a) \<and> \<not> list_ex creates_access es)"
| "guard env srv es (Store (EvCreateRefresh f r)) =
     (token_granted env es (refresh_terms f) \<and> minted env es (rt_Hash f) \<and> time_is_zero (rt_RevokedAt f) \<and>
      time_is_zero (rt_RedeemedAt f) \<and> \<not> list_ex creates_refresh es)"
| "guard env srv es (Store (EvRevokeFamily f r)) = family_known es f"
| "guard env srv es (Store (EvSweep r)) = False"
| "guard env srv es (Store (EvDeleteClient k r)) = False"
| "guard env srv es (Store (EvRevokeRefresh k r)) = False"
| "guard env srv es _ = True"

end
