(* ===== verification/OAuthGuards.thy ===== *)
theory OAuthGuards
  imports OAuthRuns
begin

text \<open>
  Every call the handlers of the authorization server make satisfies its guard, for every request and whatever the calls are
  answered; and what their responses rest on.
\<close>

subsection \<open>Guards along a program\<close>

named_theorems guard_simps \<open>how the guards grow along a log\<close>

lemma minted_simps [guard_simps]:
  "minted env (es @ es') d \<longleftrightarrow> minted env es d \<or> minted env es' d"
  "minted env (e # es) d \<longleftrightarrow> (\<exists>v. e = EvMint (Some v) \<and> Hash env v = d) \<or> minted env es d"
  "\<not> minted env [] d"
  by (auto simp: minted_def)

lemma authenticated_append: "authenticated env es c \<Longrightarrow> authenticated env (es @ es') c"
  by (auto simp: authenticated_def)

lemma redeems_consumes: "redeems e \<noteq> None \<Longrightarrow> consumes e"
  by (cases e rule: redeems.cases) auto

lemma proof_shown_append: "proof_shown env (es @ es') \<longleftrightarrow> proof_shown env es \<and> proof_shown env es'"
  by (auto simp: proof_shown_def)

lemma proof_shown_other: "list_all (\<lambda>e. redeems e = None) es \<Longrightarrow> proof_shown env es"
  by (auto simp: proof_shown_def list_all_iff)

lemma token_granted_append [guard_simps]:
  "token_granted env es tm \<Longrightarrow> list_all (\<lambda>e. redeems e = None) es' \<Longrightarrow> token_granted env (es @ es') tm"
  by (auto simp: token_granted_def proof_shown_append proof_shown_other authenticated_append)

lemma no_consume: "\<not> list_ex consumes es \<Longrightarrow> redeemed es = None \<and> list_all (\<lambda>e. redeems e = None) es"
  unfolding redeemed_None_iff list_all_iff list_ex_iff using redeems_consumes by blast

lemma family_known_intros:
  "Store (EvConsumeCode h (Refused ErrAlreadyRedeemed (Some c))) \<in> set es \<Longrightarrow> ac_FamilyID c \<noteq> [] \<Longrightarrow> family_known es (ac_FamilyID c)"
  "Store (EvConsumeRefresh h (Refused ErrAlreadyRedeemed (Some t))) \<in> set es \<Longrightarrow> rt_FamilyID t \<noteq> [] \<Longrightarrow> family_known es (rt_FamilyID t)"
  "Store (EvConsumeRefresh h (Consumed t)) \<in> set es \<Longrightarrow> rt_FamilyID t \<noteq> [] \<Longrightarrow> family_known es (rt_FamilyID t)"
  "Store (EvGetRefresh h (Inr t)) \<in> set es \<Longrightarrow> rt_FamilyID t \<noteq> [] \<Longrightarrow> family_known es (rt_FamilyID t)"
  by (auto simp: family_known_def)

text \<open>A log in which no credential was consumed and nothing was created.\<close>

definition idle :: "event list \<Rightarrow> bool" where
  "idle es \<longleftrightarrow> \<not> list_ex consumes es \<and> \<not> list_ex creates_code es \<and> \<not> list_ex creates_access es \<and> \<not> list_ex creates_refresh es"

lemma idle_append [simp]: "idle (es @ es') \<longleftrightarrow> idle es \<and> idle es'"
  by (auto simp: idle_def)

lemma idle_Nil [simp]: "idle []"
  by (simp add: idle_def)

subsection \<open>The token endpoint\<close>

lemma safe_issueTokenPair:
  assumes "token_granted env es \<lparr>tm_client = c, tm_family = f, tm_subject = su, tm_scopes = sc, tm_audience = au\<rparr>"
    and "\<not> list_ex creates_access es" and "\<not> list_ex creates_refresh es"
  shows "safe (guard env srv) (\<lambda>_ _. True) es (issueTokenPair env srv c f su sc au re)"
  using assms
  by (simp add: issueTokenPair_def read_now_def mintCredential_def access_terms_def refresh_terms_def guard_simps split: option.split)

lemma safe_authenticateClient:
  "safe (guard env srv) (\<lambda>es' r. idle es' \<and> (case r of Inr client \<Rightarrow> authenticated env es' (cl_ID client) | Inl _ \<Rightarrow> True))
     [] (authenticateClient env req)"
  by (auto simp: authenticateClient_def authenticated_def equalHash_def idle_def split: prod.splits option.splits sum.splits)

lemma safe_revokeFamily: "(f \<noteq> [] \<Longrightarrow> family_known es f) \<Longrightarrow> safe (guard env srv) (\<lambda>_ _. True) es (revokeFamily f)"
  by (simp add: revokeFamily_def split: sum.split)

lemma safe_codeRedemptionError:
  assumes "Store (EvConsumeCode h (Refused err ro)) \<in> set es"
  shows "safe (guard env srv) (\<lambda>_ _. True) es (codeRedemptionError ro err)"
proof -
  have "safe (guard env srv) (\<lambda>_ _. True) es (handleCodeReplay ro)" if "err = ErrAlreadyRedeemed"
    using assms that
    by (auto simp: handleCodeReplay_def intro!: safe_bind [OF safe_revokeFamily] family_known_intros(1) split: option.split)
  then show ?thesis by (auto simp: codeRedemptionError_def intro!: safe_bind)
qed

lemma safe_refreshRotationError:
  assumes "Store (EvConsumeRefresh h (Refused err ro)) \<in> set es"
  shows "safe (guard env srv) (\<lambda>_ _. True) es (refreshRotationError srv ro err)"
  using assms
  by (auto simp: refreshRotationError_def intro!: safe_bind [OF safe_revokeFamily] family_known_intros(2) split: option.split)

lemma subsetOf_iff: "subsetOf a b \<longleftrightarrow> set a \<subseteq> set b"
  by (induction a) auto

lemma idle_consumed:
  assumes "idle es" and "consumes e"
  shows "\<not> list_ex creates_access (es @ [e])" "\<not> list_ex creates_refresh (es @ [e])" "redeemed (es @ [e]) = redeems e"
  using assms no_consume [of es] by (auto simp: idle_def elim: consumes.elims split: option.split)

lemma safe_grantAuthorizationCode:
  assumes es: "idle es" "authenticated env es (cl_ID client)"
  shows "safe (guard env srv) (\<lambda>_ _. True) es (grantAuthorizationCode env srv req client)"
proof -
  let ?presented = "Form_Get req ''code''" and ?verifier = "Form_Get req ''code_verifier''"
  have issue: "safe (guard env srv) (\<lambda>_ _. True) es2 (bind_prog (issueTokenPair env srv (cl_ID client) f (ac_Subject c) (ac_Scopes c)
      (audienceFor (ac_Resources c)) (ac_Resources c)) (\<lambda>response. case response of Inl e \<Rightarrow> Ret (Inl (issue_failed e)) | Inr tr \<Rightarrow> Ret (Inr tr)))"
    if "validCodeVerifier ?verifier" "ac_ClientID c = cl_ID client" "VerifyPKCE env ?verifier (ac_CodeChallenge c)"
      and es2: "es2 = es @ [Store (EvConsumeCode (Hash env ?presented) (Consumed c))] \<and> f = ac_FamilyID c \<or>
        (\<exists>r. es2 = es @ [Store (EvConsumeCode (Hash env ?presented) (Consumed c)), EvNewFamily r]) \<and> ac_FamilyID c = []" for es2 f c
  proof (rule safe_bind [OF safe_issueTokenPair])
    let ?e = "Store (EvConsumeCode (Hash env ?presented) (Consumed c))"
    let ?tm = "\<lparr>tm_client = cl_ID client, tm_family = f, tm_subject = ac_Subject c, tm_scopes = ac_Scopes c, tm_audience = audienceFor (ac_Resources c)\<rparr>"
    note e = idle_consumed [OF es(1), of ?e]
    have "proof_shown env (es @ [?e])"
      using no_consume [of es] proof_shown_other [of es env] es(1) that(1,3) by (auto simp: proof_shown_append idle_def) (auto simp: proof_shown_def)
    moreover have "within (code_terms c) ?tm" using that(2) es2 by (auto simp: within_def code_terms_def audienceFor_def)
    ultimately have "token_granted env (es @ [?e]) ?tm"
      using e es(2) by (auto simp: token_granted_def authenticated_append)
    then show "token_granted env es2 ?tm"
      using es2 token_granted_append [of env "es @ [?e]" ?tm "[EvNewFamily _]"] by auto
    show "\<not> list_ex creates_access es2" "\<not> list_ex creates_refresh es2" using e es2 by auto
  qed (auto split: sum.split)
  show ?thesis
    using es(1)
    by (auto simp: grantAuthorizationCode_def idle_def intro!: issue safe_bind [OF safe_codeRedemptionError] split: consumed.split)
qed

lemma safe_grantRefreshToken:
  assumes es: "idle es" "authenticated env es (cl_ID client)"
  shows "safe (guard env srv) (\<lambda>_ _. True) es (grantRefreshToken env srv req client)"
proof -
  let ?h = "Hash env (Form_Get req ''refresh_token'')"
  have issue: "safe (guard env srv) (\<lambda>_ _. True) (es @ [Store (EvConsumeRefresh ?h (Consumed p))]) (bind_prog (issueTokenPair env srv (cl_ID client) (rt_FamilyID p) (rt_Subject p) sc
      (rt_Audience p) (rt_Resources p)) (\<lambda>response. case response of Inl e \<Rightarrow> Ret (Inl (issue_failed e)) | Inr tr \<Rightarrow> Ret (Inr tr)))"
    if "rt_ClientID p = cl_ID client" "set sc \<subseteq> set (rt_Scopes p)" for p sc
  proof (rule safe_bind [OF safe_issueTokenPair])
    let ?e = "Store (EvConsumeRefresh ?h (Consumed p))"
    note e = idle_consumed [OF es(1), of ?e]
    show "\<not> list_ex creates_access (es @ [?e])" "\<not> list_ex creates_refresh (es @ [?e])" using e by auto
    have "proof_shown env (es @ [?e])" using no_consume [of es] proof_shown_other [of es env] es(1) by (auto simp: proof_shown_append idle_def) (auto simp: proof_shown_def)
    moreover have "within (refresh_terms p) \<lparr>tm_client = cl_ID client, tm_family = rt_FamilyID p, tm_subject = rt_Subject p, tm_scopes = sc, tm_audience = rt_Audience p\<rparr>"
      using that by (auto simp: within_def refresh_terms_def)
    ultimately show "token_granted env (es @ [?e]) \<lparr>tm_client = cl_ID client, tm_family = rt_FamilyID p, tm_subject = rt_Subject p, tm_scopes = sc, tm_audience = rt_Audience p\<rparr>"
      using e es(2) by (auto simp: token_granted_def authenticated_append)
  qed (auto split: sum.split)
  show ?thesis
    using es(1)
    by (auto simp: grantRefreshToken_def idle_def Let_def subsetOf_iff
      intro!: issue family_known_intros(3) safe_bind [OF safe_refreshRotationError] safe_bind [OF safe_revokeFamily] split: consumed.split)
qed

lemma safe_TokenHandler: "safe (guard env srv) (\<lambda>_ _. True) [] (TokenHandler env srv req)"
  by (auto simp: TokenHandler_def Let_def intro!: safe_bind [OF safe_authenticateClient] safe_bind [OF safe_grantAuthorizationCode]
    safe_bind [OF safe_grantRefreshToken] split: sum.splits)


subsection \<open>The other endpoints\<close>

text \<open>What an authorization request has been checked for, and what its response may be.\<close>

definition request_checked :: "Server \<Rightarrow> event list \<Rightarrow> authorizeRequest \<Rightarrow> bool" where
  "request_checked srv es ar \<longleftrightarrow>
     (\<exists>k. Store (EvGetClient k (Inr (ar_client ar))) \<in> set es) \<and> ar_redirectURI ar \<in> set (cl_RedirectURIs (ar_client ar))"

definition request_valid :: "Server \<Rightarrow> authorizeRequest \<Rightarrow> bool" where
  "request_valid srv ar \<longleftrightarrow>
     clientAllows (cl_GrantTypes (ar_client ar)) GrantTypeAuthorizationCode \<and> validCodeChallenge (ar_codeChallenge ar) \<and>
     scopes_granted (cl_Scopes (ar_client ar)) (ar_scopes ar) \<and> scopes_granted (srv_scopes srv) (ar_scopes ar) \<and>
     scopes_granted (srv_resources srv) (ar_resources ar)"

text \<open>
  A browser is only sent to a URI registered by the client that was read, and only with a code that was stored for a subject
  that was vouched for.
\<close>

definition redirect_safe :: "oauth_env \<Rightarrow> event list \<Rightarrow> response \<Rightarrow> bool" where
  "redirect_safe env es resp \<longleftrightarrow>
     (case resp of
        FoundAt uri params \<Rightarrow>
          (\<exists>k client. Store (EvGetClient k (Inr client)) \<in> set es \<and> uri \<in> set (cl_RedirectURIs client) \<and>
             (\<forall>value. (''code'', value) \<in> set params \<longrightarrow>
                (\<exists>c. Store (EvCreateCode c None) \<in> set es \<and> ac_Hash c = Hash env value \<and> ac_ClientID c = cl_ID client \<and>
                     ac_RedirectURI c = uri \<and> vouched es (ac_Subject c))))
      | TokenJSON _ \<Rightarrow> False | ClientJSON _ \<Rightarrow> False | EmptyOK \<Rightarrow> False | ErrorJSON _ _ _ _ \<Rightarrow> False
      | _ \<Rightarrow> True)"

lemma redirect_safe_page [simp]: "redirect_safe env es (renderLogin req ar m)" "redirect_safe env es (writeAuthorizeFault perr)"
  by (simp_all add: redirect_safe_def renderLogin_def writeAuthorizeFault_def)

lemma safe_resolveAuthorizeRequest:
  "safe (guard env srv) (\<lambda>es' r. idle es' \<and> (case r of Inr ar \<Rightarrow> request_checked srv es' ar | Inl _ \<Rightarrow> True)) [] (resolveAuthorizeRequest req)"
  by (auto simp: resolveAuthorizeRequest_def Let_def request_checked_def idle_def split: sum.splits)

lemma checkScopes_None: "checkScopes srv client sc = None \<longleftrightarrow> scopes_granted (cl_Scopes client) sc \<and> scopes_granted (srv_scopes srv) sc"
  by (auto simp: checkScopes_def first_error_None scopes_granted_def list_all_iff split: if_splits)

lemma checkResources_None: "checkResources srv rs = None \<longleftrightarrow> scopes_granted (srv_resources srv) rs"
  by (auto simp: checkResources_def first_error_None scopes_granted_def list_all_iff split: if_splits)

lemma validateAuthorizeRequest_None: "validateAuthorizeRequest srv req ar = None \<Longrightarrow> request_valid srv ar"
  by (auto simp: validateAuthorizeRequest_def request_valid_def checkScopes_None checkResources_None split: if_splits option.splits)

lemma redirectError_safe: "request_checked srv es ar \<Longrightarrow> redirect_safe env es (redirectError env srv ar perr)"
  by (auto simp: redirectError_def redirect_def redirect_safe_def request_checked_def split: option.splits if_splits)

lemma vouched_append: "vouched es su \<Longrightarrow> vouched (es @ es') su"
  by (auto simp: vouched_def)

lemma request_checked_append: "request_checked srv es ar \<Longrightarrow> request_checked srv (es @ es') ar"
  by (auto simp: request_checked_def)

lemma code_issued_safe:
  assumes "request_checked srv es ar" and "vouched es su" and "\<not> list_ex creates_code es" and "request_valid srv ar"
  shows "safe (guard env srv) (redirect_safe env) es (issueCode env srv ar su)"
proof -
  obtain k where k: "Store (EvGetClient k (Inr (ar_client ar))) \<in> set es" "ar_redirectURI ar \<in> set (cl_RedirectURIs (ar_client ar))"
    using assms(1) by (auto simp: request_checked_def)
  let ?log = "\<lambda>v t f. es @ [EvMint (Some v), EvClock t, EvNewFamily f]"
  let ?code = "\<lambda>v t f. \<lparr>ac_IssuedAt = store_now t, ac_ExpiresAt = store_now t + srv_codeTTL srv, ac_RedeemedAt = 0, ac_Hash = Hash env v,
              ac_ClientID = cl_ID (ar_client ar), ac_FamilyID = f, ac_RedirectURI = ar_redirectURI ar,
              ac_CodeChallenge = ar_codeChallenge ar, ac_Nonce = ar_nonce ar, ac_Subject = su,
              ac_Scopes = ar_scopes ar, ac_Resources = ar_resources ar\<rparr>"
  have "code_granted env srv (?log v t f) (?code v t f)" for v t f
    using k assms(2,4) by (auto simp: code_granted_def request_valid_def vouched_append minted_simps)
  moreover have "redirect_safe env (?log v t f @ [Store (EvCreateCode (?code v t f) None), EvCount CodesIssued 1])
      (redirect env (ar_redirectURI ar) ([(''code'', v)] @ (if ar_state ar \<noteq> [] then [(''state'', ar_state ar)] else []) @ [(''iss'', srv_issuer srv)]))" for v t f
    using k vouched_append [OF assms(2)]
    by (auto simp: redirect_def redirect_safe_def split: option.splits intro!: exI [of _ k] exI [of _ "ar_client ar"] exI [of _ "?code v t f"])
  ultimately show ?thesis
    using assms(3) redirectError_safe [OF request_checked_append [OF assms(1)]]
    by (auto simp: issueCode_def mintCredential_def read_now_def split: option.split)
qed

lemma safe_resolveSubject:
  assumes "request_checked srv es ar" and "idle es"
  shows "safe (guard env srv) (\<lambda>es' r. request_checked srv es' ar \<and> idle es' \<and> (case r of Inr (Some su) \<Rightarrow> vouched es' su | _ \<Rightarrow> True)) es (resolveSubject srv)"
  using assms by (auto simp: resolveSubject_def vouched_def request_checked_append idle_def split: sum.splits option.splits)

lemma login_result_vouched: "login_result answer = Inr su \<Longrightarrow> vouched (es @ [EvAuthenticate answer]) su"
  by (cases answer) (auto simp: login_result_def vouched_def split: option.splits if_splits)

lemma safe_authenticate_owner:
  assumes "request_checked srv es ar" and "idle es" and "request_valid srv ar"
  shows "safe (guard env srv) (redirect_safe env) es (authenticate_owner env srv req ar)"
  using assms
  by (auto simp: authenticate_owner_def idle_def intro!: redirectError_safe request_checked_append code_issued_safe login_result_vouched
    split: sum.splits auth_error.splits)

lemma safe_authorize_owner:
  assumes "request_checked srv es ar" and "idle es" and "request_valid srv ar"
  shows "safe (guard env srv) (redirect_safe env) es (authorize_owner env srv req ar)"
  unfolding authorize_owner_def
proof (rule safe_bind [OF safe_resolveSubject [OF assms(1,2)]])
  fix es' and r :: "protocolError + Subject option"
  assume "request_checked srv es' ar \<and> idle es' \<and> (case r of Inr (Some su) \<Rightarrow> vouched es' su | _ \<Rightarrow> True)"
  then show "safe (guard env srv) (redirect_safe env) es' (case r of
      Inl perr \<Rightarrow> Ret (redirectError env srv ar perr)
    | Inr None \<Rightarrow> if rq_Method req \<noteq> ''POST'' then Ret (renderLogin req ar []) else authenticate_owner env srv req ar
    | Inr (Some subject) \<Rightarrow> issueCode env srv ar subject)"
    using assms(3) by (auto simp: redirectError_safe safe_authenticate_owner intro!: code_issued_safe split: sum.split option.split) (auto simp: idle_def)
qed

lemma safe_AuthorizeHandler: "safe (guard env srv) (redirect_safe env) [] (AuthorizeHandler env srv req)"
  by (auto simp: AuthorizeHandler_def intro!: safe_bind [OF safe_resolveAuthorizeRequest] redirectError_safe safe_authorize_owner
    validateAuthorizeRequest_None split: sum.splits option.splits)

lemma safe_revokeOne:
  assumes "idle es"
  shows "safe (guard env srv) (\<lambda>es' _. idle es') es (revokeOne srv client digest kind)"
proof (cases kind)
  case HintRefreshToken
  have "safe (guard env srv) (\<lambda>es' _. idle es') es0 (revokeFamily (rt_FamilyID t))"
    if "idle es0" "Store (EvGetRefresh digest (Inr t)) \<in> set es0" for es0 t
    using that family_known_intros(4) [OF that(2)] by (auto simp: revokeFamily_def idle_def split: sum.split)
  with assms HintRefreshToken show ?thesis
    by (auto simp: revokeOne_def observeRevocation_def idle_def split: sum.split intro!: safe_bind [where Q = "\<lambda>es' _. idle es'"])
qed (use assms in \<open>auto simp: revokeOne_def observeRevocation_def idle_def split: sum.split option.split\<close>)

lemma safe_revoke_kinds: "idle es \<Longrightarrow> safe (guard env srv) (\<lambda>es' _. idle es') es (revoke_kinds srv client digest kinds)"
  by (induction kinds arbitrary: es) (auto intro!: safe_bind [OF safe_revokeOne])

lemma safe_RevokeHandler: "safe (guard env srv) (\<lambda>_ _. True) [] (RevokeHandler env srv req)"
  by (auto simp: RevokeHandler_def revoke_token_def simp del: revoke_kinds.simps
    intro!: safe_bind [OF safe_authenticateClient] safe_bind [OF safe_revoke_kinds] split: sum.splits)

text \<open>A trace that ends in a response, seen from its first call.\<close>

lemma revoke_only_ok:
  "safe (\<lambda>_ _. True) (\<lambda>_ resp. resp = EmptyOK) es (bind_prog p (\<lambda>_. Ret EmptyOK))"
  by (rule safe_bind [where Q = "\<lambda>_ _. True"]) (induction p arbitrary: es; simp)+

lemma safe_registerHandler: "safe (guard env srv) (\<lambda>_ _. True) [] (registerHandler env srv req)"
proof -
  have "safe (guard env srv) (\<lambda>_ _. True) [] (register env srv request)" for request
    by (auto simp: register_def store_client_def mintCredential_def read_now_def Let_def split: option.split)
  then show ?thesis
    by (auto simp: registerHandler_def intro!: safe_bind split: body.split option.split sum.split)
qed

end
