(* ===== verification/OAuthWorld.thy ===== *)
theory OAuthWorld
  imports OAuthGuards
begin

text \<open>
  The world of an authorization server: its store and the requests it is serving, and what holds of every history of it.

  The logs of the threads and the ledger behind the store are related by an invariant: a record of the ledger was created by a
  logged call, a record that is not redeemed has not been consumed by anybody, and what was consumed was
  created before. With the guards of the calls this gives every token a root: a code that was granted and redeemed once.
\<close>

subsection \<open>Steps\<close>

datatype endpoint = Authorize http_request | Token http_request | Revoke http_request | Register http_request

fun serve :: "oauth_env \<Rightarrow> Server \<Rightarrow> endpoint \<Rightarrow> response prog" where
  "serve env srv (Authorize req) = AuthorizeHandler env srv req"
| "serve env srv (Token req) = TokenHandler env srv req"
| "serve env srv (Revoke req) = RevokeHandler env srv req"
| "serve env srv (Register req) = registerHandler env srv req"

record thread =
  th_prog :: "response prog"
  th_log :: "event list"

record 's world =
  wd_store :: 's
  wd_threads :: "thread list"

definition log_of :: "'s world \<Rightarrow> nat \<Rightarrow> event list" where
  "log_of w i = (if i < length (wd_threads w) then th_log (wd_threads w ! i) else [])"

text \<open>What a call does to the store, if it can be answered as the event says when the clock shows \<open>t\<close>.\<close>

definition performs :: "'s store_ops \<Rightarrow> gotime \<Rightarrow> event \<Rightarrow> 's \<Rightarrow> 's option" where
  "performs ops t e s =
     (case e of Store se \<Rightarrow> store_step ops t se s | EvClock t' \<Rightarrow> if t' = t then Some s else None | _ \<Rightarrow> Some s)"

definition fresh :: "oauth_env \<Rightarrow> thread list \<Rightarrow> event \<Rightarrow> bool" where
  "fresh env ths e \<longleftrightarrow>
     (case e of
        EvMint (Some v) \<Rightarrow> list_all (\<lambda>th. \<not> minted env (th_log th) (Hash env v)) ths
      | EvNewFamily f \<Rightarrow> f \<noteq> [] \<and> list_all (\<lambda>th. EvNewFamily f \<notin> set (th_log th)) ths
      | _ \<Rightarrow> True)"

fun upkeep :: "store_event \<Rightarrow> bool" where
  "upkeep (EvSweep r) = True"
| "upkeep (EvCreateClient c r) = True"
| "upkeep (EvDeleteClient k r) = True"
| "upkeep (EvRevokeRefresh k r) = True"
| "upkeep _ = False"

text \<open>The clock shows a time after the first microsecond of Go's calendar.\<close>

inductive thread_call :: "oauth_env \<Rightarrow> 's store_ops \<Rightarrow> nat \<Rightarrow> event \<Rightarrow> 's world \<Rightarrow> 's world \<Rightarrow> bool" for env ops where
  "i < length (wd_threads w) \<Longrightarrow> feed (th_prog (wd_threads w ! i)) e = Some p \<Longrightarrow> 1000 \<le> t \<Longrightarrow>
   performs ops t e (wd_store w) = Some s \<Longrightarrow> fresh env (wd_threads w) e \<Longrightarrow>
   thread_call env ops i e w
     \<lparr>wd_store = s, wd_threads = (wd_threads w)[i := \<lparr>th_prog = p, th_log = th_log (wd_threads w ! i) @ [e]\<rparr>]\<rparr>"

inductive world_step :: "oauth_env \<Rightarrow> Server \<Rightarrow> 's store_ops \<Rightarrow> 's world \<Rightarrow> 's world \<Rightarrow> bool" for env srv ops where
  arrive: "world_step env srv ops w (w\<lparr>wd_threads := wd_threads w @ [\<lparr>th_prog = serve env srv ep, th_log = []\<rparr>]\<rparr>)"
| call: "thread_call env ops i e w w' \<Longrightarrow> world_step env srv ops w w'"
| keep: "upkeep se \<Longrightarrow> 1000 \<le> t \<Longrightarrow> store_step ops t se (wd_store w) = Some s \<Longrightarrow>
    world_step env srv ops w (w\<lparr>wd_store := s\<rparr>)"

inductive world_run :: "oauth_env \<Rightarrow> Server \<Rightarrow> 's store_ops \<Rightarrow> 's world \<Rightarrow> 's world \<Rightarrow> bool" for env srv ops where
  here: "world_run env srv ops w w"
| onwards: "world_run env srv ops w w1 \<Longrightarrow> world_step env srv ops w1 w2 \<Longrightarrow> world_run env srv ops w w2"

definition new_world :: "'s \<Rightarrow> 's world" where
  "new_world s = \<lparr>wd_store = s, wd_threads = []\<rparr>"

lemma run_trans: "world_run env srv ops w w1 \<Longrightarrow> world_run env srv ops w1 w2 \<Longrightarrow> world_run env srv ops w w2"
  by (rotate_tac 1, induction rule: world_run.induct) (auto intro: world_run.intros)

subsection \<open>Logs\<close>

definition guarded :: "oauth_env \<Rightarrow> Server \<Rightarrow> event list \<Rightarrow> bool" where
  "guarded env srv es \<longleftrightarrow> (\<forall>k < length es. guard env srv (take k es) (es ! k))"

lemma guarded_Nil [simp]: "guarded env srv []"
  by (simp add: guarded_def)

lemma guarded_snoc: "guarded env srv (es @ [e]) \<longleftrightarrow> guarded env srv es \<and> guard env srv es e"
  by (auto simp: guarded_def less_Suc_eq nth_append)

lemma guarded_split: "guarded env srv es \<Longrightarrow> e \<in> set es \<Longrightarrow> \<exists>es1 es2. es = es1 @ e # es2 \<and> guard env srv es1 e"
  by (metis append_take_drop_id guarded_def id_take_nth_drop in_set_conv_nth)

definition occurs :: "(nat \<Rightarrow> event list) \<Rightarrow> event \<Rightarrow> bool" where
  "occurs L e \<longleftrightarrow> (\<exists>i. e \<in> set (L i))"

lemma occurs_upd: "occurs (L(i := L i @ [e])) e' \<longleftrightarrow> occurs L e' \<or> e' = e"
  by (auto simp: occurs_def)

text \<open>What a guarded log can contain once at most, and what it contains with it.\<close>

lemma guarded_code_minted:
  assumes "guarded env srv es" and "Store (EvCreateCode c r) \<in> set es"
  shows "minted env es (ac_Hash c) \<and> EvNewFamily (ac_FamilyID c) \<in> set es \<and> list_ex creates_code es"
proof -
  obtain es1 es2 where "es = es1 @ Store (EvCreateCode c r) # es2" "guard env srv es1 (Store (EvCreateCode c r))"
    using guarded_split [OF assms] by blast
  then show ?thesis by (auto simp: code_granted_def minted_simps)
qed

lemma guarded_access_minted:
  assumes "guarded env srv es" and "Store (EvCreateAccess a r) \<in> set es"
  shows "minted env es (at_Hash a) \<and> list_ex creates_access es"
proof -
  obtain es1 es2 where "es = es1 @ Store (EvCreateAccess a r) # es2" "guard env srv es1 (Store (EvCreateAccess a r))"
    using guarded_split [OF assms] by blast
  then show ?thesis by (auto simp: minted_simps)
qed

lemma guarded_refresh_minted:
  assumes "guarded env srv es" and "Store (EvCreateRefresh f r) \<in> set es"
  shows "minted env es (rt_Hash f) \<and> list_ex creates_refresh es"
proof -
  obtain es1 es2 where "es = es1 @ Store (EvCreateRefresh f r) # es2" "guard env srv es1 (Store (EvCreateRefresh f r))"
    using guarded_split [OF assms] by blast
  then show ?thesis by (auto simp: minted_simps)
qed

lemma consumes_once:
  assumes "guarded env srv es" and "consumes e" and "consumes e'" and "e \<in> set es" and "e' \<in> set es"
  shows "e = e'"
  using assms(1,4,5)
proof (induction es rule: rev_induct)
  case (snoc x es)
  have "\<not> list_ex consumes es" if "consumes x"
    using that snoc.prems(1) by (auto simp: guarded_snoc elim: consumes.elims)
  then show ?case
    using snoc assms(2,3) by (auto simp: guarded_snoc list_ex_iff)
qed simp

subsection \<open>The invariant\<close>

definition mints_unique :: "oauth_env \<Rightarrow> (nat \<Rightarrow> event list) \<Rightarrow> bool" where
  "mints_unique env L \<longleftrightarrow> (\<forall>i j d. minted env (L i) d \<longrightarrow> minted env (L j) d \<longrightarrow> i = j)"

definition families_unique :: "(nat \<Rightarrow> event list) \<Rightarrow> bool" where
  "families_unique L \<longleftrightarrow> (\<forall>i j f. EvNewFamily f \<in> set (L i) \<longrightarrow> f \<noteq> [] \<and> (EvNewFamily f \<in> set (L j) \<longrightarrow> i = j))"

definition code_same :: "AuthorizationCode \<Rightarrow> AuthorizationCode \<Rightarrow> bool" where
  "code_same c0 c \<longleftrightarrow> c = c0\<lparr>ac_RedeemedAt := ac_RedeemedAt c\<rparr>"

definition code_created :: "(nat \<Rightarrow> event list) \<Rightarrow> string \<Rightarrow> AuthorizationCode \<Rightarrow> bool" where
  "code_created L h c \<longleftrightarrow> (\<exists>c0. occurs L (Store (EvCreateCode c0 None)) \<and> ac_Hash c0 = h \<and> code_same c0 c)"

definition refresh_created :: "(nat \<Rightarrow> event list) \<Rightarrow> string \<Rightarrow> RefreshToken \<Rightarrow> bool" where
  "refresh_created L h f \<longleftrightarrow> (\<exists>f0. occurs L (Store (EvCreateRefresh f0 None)) \<and> rt_Hash f0 = h \<and> refresh_terms f0 = refresh_terms f)"

definition access_created :: "(nat \<Rightarrow> event list) \<Rightarrow> string \<Rightarrow> AccessToken \<Rightarrow> bool" where
  "access_created L h a \<longleftrightarrow> (\<exists>a0. occurs L (Store (EvCreateAccess a0 None)) \<and> at_Hash a0 = h \<and> access_terms a0 = access_terms a)"

definition code_spent :: "(nat \<Rightarrow> event list) \<Rightarrow> string \<Rightarrow> bool" where
  "code_spent L h \<longleftrightarrow> (\<exists>c. occurs L (Store (EvConsumeCode h (Consumed c))))"

definition refresh_spent :: "(nat \<Rightarrow> event list) \<Rightarrow> string \<Rightarrow> bool" where
  "refresh_spent L h \<longleftrightarrow> (\<exists>f. occurs L (Store (EvConsumeRefresh h (Consumed f))))"

definition codes_logged :: "(nat \<Rightarrow> event list) \<Rightarrow> (string \<Rightarrow> AuthorizationCode option) \<Rightarrow> bool" where
  "codes_logged L m \<longleftrightarrow> (\<forall>h c. m h = Some c \<longrightarrow> code_created L h c \<and> (time_is_zero (ac_RedeemedAt c) \<longleftrightarrow> \<not> code_spent L h))"

definition refresh_logged :: "(nat \<Rightarrow> event list) \<Rightarrow> (string \<Rightarrow> RefreshToken option) \<Rightarrow> bool" where
  "refresh_logged L m \<longleftrightarrow> (\<forall>h f. m h = Some f \<longrightarrow> refresh_created L h f \<and> (time_is_zero (rt_RedeemedAt f) \<longleftrightarrow> \<not> refresh_spent L h))"

definition access_logged :: "(nat \<Rightarrow> event list) \<Rightarrow> (string \<Rightarrow> AccessToken option) \<Rightarrow> bool" where
  "access_logged L m \<longleftrightarrow> (\<forall>h a. m h = Some a \<longrightarrow> access_created L h a)"

definition spending_logged :: "(nat \<Rightarrow> event list) \<Rightarrow> bool" where
  "spending_logged L \<longleftrightarrow>
     (\<forall>h c. occurs L (Store (EvConsumeCode h (Consumed c))) \<longrightarrow> code_created L h c) \<and>
     (\<forall>h f. occurs L (Store (EvConsumeRefresh h (Consumed f))) \<longrightarrow> refresh_created L h f)"

text \<open>Nothing is spent twice.\<close>

definition in_one_log :: "(event \<Rightarrow> bool) \<Rightarrow> (nat \<Rightarrow> event list) \<Rightarrow> bool" where
  "in_one_log P L \<longleftrightarrow> (\<forall>i j x y. P x \<longrightarrow> P y \<longrightarrow> x \<in> set (L i) \<longrightarrow> y \<in> set (L j) \<longrightarrow> i = j)"

fun spends_code :: "string \<Rightarrow> event \<Rightarrow> bool" where
  "spends_code h (Store (EvConsumeCode k (Consumed c))) = (k = h)"
| "spends_code h _ = False"

fun spends_refresh :: "string \<Rightarrow> event \<Rightarrow> bool" where
  "spends_refresh h (Store (EvConsumeRefresh k (Consumed f))) = (k = h)"
| "spends_refresh h _ = False"

definition spent_once :: "(nat \<Rightarrow> event list) \<Rightarrow> bool" where
  "spent_once L \<longleftrightarrow> (\<forall>h. in_one_log (spends_code h) L \<and> in_one_log (spends_refresh h) L)"

lemma in_one_log_step:
  "in_one_log P L \<Longrightarrow> (P e \<Longrightarrow> \<forall>j. \<forall>y \<in> set (L j). \<not> P y) \<Longrightarrow> in_one_log P (L(i := L i @ [e]))"
  by (auto simp: in_one_log_def)

definition world_inv :: "oauth_env \<Rightarrow> Server \<Rightarrow> (nat \<Rightarrow> event list) \<Rightarrow> ledger \<Rightarrow> bool" where
  "world_inv env srv L l \<longleftrightarrow>
     (\<forall>i. guarded env srv (L i)) \<and> mints_unique env L \<and> families_unique L \<and> codes_logged L (lg_codes l) \<and>
     refresh_logged L (lg_refresh l) \<and> access_logged L (lg_access l) \<and> spending_logged L \<and> spent_once L"

definition fresh_in :: "oauth_env \<Rightarrow> (nat \<Rightarrow> event list) \<Rightarrow> event \<Rightarrow> bool" where
  "fresh_in env L e \<longleftrightarrow>
     (\<forall>v i. e = EvMint (Some v) \<longrightarrow> \<not> minted env (L i) (Hash env v)) \<and>
     (\<forall>f i. e = EvNewFamily f \<longrightarrow> f \<noteq> [] \<and> EvNewFamily f \<notin> set (L i))"

lemma mints_unique_step: "mints_unique env L \<Longrightarrow> fresh_in env L e \<Longrightarrow> mints_unique env (L(i := L i @ [e]))"
  by (auto simp: mints_unique_def fresh_in_def minted_simps)

lemma families_unique_step: "families_unique L \<Longrightarrow> fresh_in env L e \<Longrightarrow> families_unique (L(i := L i @ [e]))"
  by (auto simp: families_unique_def fresh_in_def)

lemma created_mono:
  "code_created L h c \<Longrightarrow> code_created (L(i := L i @ [e])) h c"
  "refresh_created L h f \<Longrightarrow> refresh_created (L(i := L i @ [e])) h f"
  "access_created L h a \<Longrightarrow> access_created (L(i := L i @ [e])) h a"
  unfolding code_created_def refresh_created_def access_created_def occurs_upd by blast+

lemma spent_upd:
  "code_spent (L(i := L i @ [e])) h \<longleftrightarrow> code_spent L h \<or> (\<exists>c. e = Store (EvConsumeCode h (Consumed c)))"
  "refresh_spent (L(i := L i @ [e])) h \<longleftrightarrow> refresh_spent L h \<or> (\<exists>f. e = Store (EvConsumeRefresh h (Consumed f)))"
  unfolding code_spent_def refresh_spent_def occurs_upd by blast+

text \<open>A digest that is created again would have been minted twice.\<close>

lemma not_created_twice:
  assumes inv: "world_inv env srv L l" and e: "guard env srv (L i) e"
  shows "e = Store (EvCreateCode c r) \<Longrightarrow> \<not> code_created L (ac_Hash c) c'"
    and "e = Store (EvCreateRefresh f r) \<Longrightarrow> \<not> refresh_created L (rt_Hash f) f'"
proof -
  have g: "guarded env srv (L j)" and u: "minted env (L j) d \<Longrightarrow> minted env (L k) d \<Longrightarrow> j = k" for j k d
    using inv by (auto simp: world_inv_def mints_unique_def)
  show "\<not> code_created L (ac_Hash c) c'" if "e = Store (EvCreateCode c r)"
  proof
    assume "code_created L (ac_Hash c) c'"
    then obtain c0 j where c0: "Store (EvCreateCode c0 None) \<in> set (L j)" "ac_Hash c0 = ac_Hash c" by (auto simp: code_created_def occurs_def)
    with guarded_code_minted [OF g c0(1)] u e that have "i = j" "list_ex creates_code (L j)" by (auto simp: code_granted_def)
    with e that show False by simp
  qed
  show "\<not> refresh_created L (rt_Hash f) f'" if "e = Store (EvCreateRefresh f r)"
  proof
    assume "refresh_created L (rt_Hash f) f'"
    then obtain f0 j where f0: "Store (EvCreateRefresh f0 None) \<in> set (L j)" "rt_Hash f0 = rt_Hash f" by (auto simp: refresh_created_def occurs_def)
    with guarded_refresh_minted [OF g f0(1)] u e that have "i = j" "list_ex creates_refresh (L j)" by auto
    with e that show False by simp
  qed
qed

lemma spent_created:
  assumes "spending_logged L"
  shows "code_spent L h \<Longrightarrow> \<exists>c. code_created L h c" and "refresh_spent L h \<Longrightarrow> \<exists>f. refresh_created L h f"
  using assms unfolding spending_logged_def code_spent_def refresh_spent_def by blast+

lemma store_now_pos: "1000 \<le> t \<Longrightarrow> 0 < store_now t"
  using pos_mod_bound [of 1000 t] by (simp add: store_now_def)

lemma code_same_redeemed: "code_same c0 c \<Longrightarrow> code_same c0 (c\<lparr>ac_RedeemedAt := r\<rparr>)"
  by (cases c0; cases c) (simp add: code_same_def)

lemma code_created_redeemed: "code_created L h c \<Longrightarrow> code_created L h (c\<lparr>ac_RedeemedAt := r\<rparr>)"
  unfolding code_created_def using code_same_redeemed by blast

lemma refresh_terms_marks [simp]:
  "refresh_terms (f\<lparr>rt_RedeemedAt := r\<rparr>) = refresh_terms f" "refresh_terms (f\<lparr>rt_RevokedAt := r\<rparr>) = refresh_terms f"
  "refresh_terms (revoke_refresh k now f) = refresh_terms f" "rt_RedeemedAt (revoke_refresh k now f) = rt_RedeemedAt f"
  by (simp_all add: refresh_terms_def revoke_refresh_def)

lemma access_terms_marks [simp]:
  "access_terms (a\<lparr>at_RevokedAt := r\<rparr>) = access_terms a" "access_terms (revoke_access k now a) = access_terms a"
  by (simp_all add: access_terms_def revoke_access_def)

text \<open>How a call changes each map of the ledger.\<close>

lemma contract_codes:
  assumes "contract t se l l'"
  shows "(\<exists>c. se = EvCreateCode c None \<and> lg_codes l' = (lg_codes l)(ac_Hash c \<mapsto> c)) \<or>
    (\<exists>h c c'. se = EvConsumeCode h (Consumed c') \<and> lg_codes l h = Some c \<and> c' = c\<lparr>ac_RedeemedAt := store_now t\<rparr> \<and> time_is_zero (ac_RedeemedAt c) \<and>
       lg_codes l' = (lg_codes l)(h \<mapsto> c')) \<or>
    (\<forall>c. se \<noteq> EvCreateCode c None) \<and> (\<forall>h c'. se \<noteq> EvConsumeCode h (Consumed c')) \<and> (\<forall>h c. lg_codes l' h = Some c \<longrightarrow> lg_codes l h = Some c)"
  using assms
  by (cases se) (auto simp: revoked_family_def only_if_def split: option.splits sum.splits consumed.splits if_splits)

lemma contract_refresh:
  assumes "contract t se l l'"
  shows "(\<exists>f. se = EvCreateRefresh f None \<and> lg_refresh l' = (lg_refresh l)(rt_Hash f \<mapsto> f)) \<or>
    (\<exists>h f f'. se = EvConsumeRefresh h (Consumed f') \<and> lg_refresh l h = Some f \<and> f' = f\<lparr>rt_RedeemedAt := store_now t\<rparr> \<and> time_is_zero (rt_RedeemedAt f) \<and>
       time_is_zero (rt_RevokedAt f) \<and> lg_refresh l' = (lg_refresh l)(h \<mapsto> f')) \<or>
    (\<forall>f. se \<noteq> EvCreateRefresh f None) \<and> (\<forall>h f'. se \<noteq> EvConsumeRefresh h (Consumed f')) \<and>
      (\<forall>h f. lg_refresh l' h = Some f \<longrightarrow> (\<exists>f0. lg_refresh l h = Some f0 \<and> refresh_terms f = refresh_terms f0 \<and> rt_RedeemedAt f = rt_RedeemedAt f0 \<and>
         (\<not> time_is_zero (rt_RevokedAt f0) \<longrightarrow> rt_RevokedAt f = rt_RevokedAt f0)))"
  using assms
  by (cases se) (auto simp: revoked_family_def only_if_def revoke_refresh_def in_family_refresh_def split: option.splits sum.splits consumed.splits if_splits)

lemma contract_access:
  assumes "contract t se l l'"
  shows "(\<exists>a. se = EvCreateAccess a None \<and> lg_access l' = (lg_access l)(at_Hash a \<mapsto> a)) \<or>
    (\<forall>a. se \<noteq> EvCreateAccess a None) \<and>
      (\<forall>h a. lg_access l' h = Some a \<longrightarrow> (\<exists>a0. lg_access l h = Some a0 \<and> access_terms a = access_terms a0 \<and>
         (\<not> time_is_zero (at_RevokedAt a0) \<longrightarrow> at_RevokedAt a = at_RevokedAt a0)))"
  using assms
  by (cases se) (auto simp: revoked_family_def only_if_def revoke_access_def in_family_access_def split: option.splits sum.splits consumed.splits if_splits)

text \<open>A call that is not one to the store leaves the ledger as it is.\<close>

definition ledger_step :: "gotime \<Rightarrow> event \<Rightarrow> ledger \<Rightarrow> ledger \<Rightarrow> bool" where
  "ledger_step t e l l' \<longleftrightarrow> (case e of Store se \<Rightarrow> contract t se l l' | _ \<Rightarrow> l' = l)"

lemma codes_logged_step:
  assumes inv: "world_inv env srv L l" and "guard env srv (L i) e" and "ledger_step t e l l'" and "1000 \<le> t"
  shows "codes_logged (L(i := L i @ [e])) (lg_codes l')"
proof (cases "\<exists>se. e = Store se")
  case True
  then obtain se where e: "e = Store se" by blast
  note codes = inv [unfolded world_inv_def codes_logged_def]
  from contract_codes [of t se l l'] assms(3) e consider
      (create) c where "se = EvCreateCode c None" "lg_codes l' = (lg_codes l)(ac_Hash c \<mapsto> c)"
    | (consume) h c where "se = EvConsumeCode h (Consumed (c\<lparr>ac_RedeemedAt := store_now t\<rparr>))" "lg_codes l h = Some c" "time_is_zero (ac_RedeemedAt c)"
        "lg_codes l' = (lg_codes l)(h \<mapsto> c\<lparr>ac_RedeemedAt := store_now t\<rparr>)"
    | (keep) "\<forall>c. se \<noteq> EvCreateCode c None" "\<forall>h c'. se \<noteq> EvConsumeCode h (Consumed c')" "\<forall>h c. lg_codes l' h = Some c \<longrightarrow> lg_codes l h = Some c"
    by (auto simp: ledger_step_def)
  then show ?thesis
  proof cases
    case create
    have "\<not> code_spent L (ac_Hash c)"
      using not_created_twice(1) [OF inv assms(2)] spent_created(1) [of L "ac_Hash c"] codes e create(1) by blast
    moreover have "time_is_zero (ac_RedeemedAt c)" using assms(2) e create(1) by (simp add: code_granted_def)
    moreover have "code_created (L(i := L i @ [e])) (ac_Hash c) c"
      using e create(1) by (auto simp: code_created_def occurs_upd code_same_def)
    ultimately show ?thesis
      using codes e create created_mono(1) by (auto simp: codes_logged_def spent_upd)
  next
    case consume
    have "code_created L h (c\<lparr>ac_RedeemedAt := store_now t\<rparr>)"
      using codes consume(2) by (blast intro: code_created_redeemed)
    then show ?thesis
      using codes e consume created_mono(1) store_now_pos [OF assms(4)] by (auto simp: codes_logged_def spent_upd)
  next
    case keep
    then show ?thesis using codes e created_mono(1) by (auto simp: codes_logged_def spent_upd)
  qed
next
  case False
  then have "l' = l" using assms(3) by (auto simp: ledger_step_def split: event.splits)
  then show ?thesis using inv False created_mono(1) by (auto simp: world_inv_def codes_logged_def spent_upd)
qed

lemma refresh_logged_step:
  assumes inv: "world_inv env srv L l" and "guard env srv (L i) e" and "ledger_step t e l l'" and "1000 \<le> t"
  shows "refresh_logged (L(i := L i @ [e])) (lg_refresh l')"
proof (cases "\<exists>se. e = Store se")
  case True
  then obtain se where e: "e = Store se" by blast
  note tokens = inv [unfolded world_inv_def refresh_logged_def]
  from contract_refresh [of t se l l'] assms(3) e consider
      (create) f where "se = EvCreateRefresh f None" "lg_refresh l' = (lg_refresh l)(rt_Hash f \<mapsto> f)"
    | (consume) h f where "se = EvConsumeRefresh h (Consumed (f\<lparr>rt_RedeemedAt := store_now t\<rparr>))" "lg_refresh l h = Some f" "time_is_zero (rt_RedeemedAt f)"
        "lg_refresh l' = (lg_refresh l)(h \<mapsto> f\<lparr>rt_RedeemedAt := store_now t\<rparr>)"
    | (keep) "\<forall>f. se \<noteq> EvCreateRefresh f None" "\<forall>h f'. se \<noteq> EvConsumeRefresh h (Consumed f')"
        "\<forall>h f. lg_refresh l' h = Some f \<longrightarrow> (\<exists>f0. lg_refresh l h = Some f0 \<and> refresh_terms f = refresh_terms f0 \<and> rt_RedeemedAt f = rt_RedeemedAt f0)"
    by (fastforce simp: ledger_step_def)
  then show ?thesis
  proof cases
    case create
    have "\<not> refresh_spent L (rt_Hash f)"
      using not_created_twice(2) [OF inv assms(2)] spent_created(2) [of L "rt_Hash f"] tokens e create(1) by blast
    moreover have "time_is_zero (rt_RedeemedAt f)" using assms(2) e create(1) by simp
    moreover have "refresh_created (L(i := L i @ [e])) (rt_Hash f) f"
      using e create(1) by (auto simp: refresh_created_def occurs_upd)
    ultimately show ?thesis
      using tokens e create created_mono(2) by (auto simp: refresh_logged_def spent_upd)
  next
    case consume
    have "refresh_created L h (f\<lparr>rt_RedeemedAt := store_now t\<rparr>)"
      using tokens consume(2) by (auto simp: refresh_created_def)
    then show ?thesis
      using tokens e consume created_mono(2) store_now_pos [OF assms(4)] by (auto simp: refresh_logged_def spent_upd)
  next
    case keep
    then show ?thesis using tokens e created_mono(2) by (fastforce simp: refresh_logged_def spent_upd refresh_created_def occurs_upd)
  qed
next
  case False
  then have "l' = l" using assms(3) by (auto simp: ledger_step_def split: event.splits)
  then show ?thesis using inv False created_mono(2) by (auto simp: world_inv_def refresh_logged_def spent_upd)
qed

lemma access_logged_step:
  assumes inv: "world_inv env srv L l" and "ledger_step t e l l'"
  shows "access_logged (L(i := L i @ [e])) (lg_access l')"
proof (cases "\<exists>se. e = Store se")
  case True
  then obtain se where e: "e = Store se" by blast
  with contract_access [of t se l l'] assms(2) inv show ?thesis
    by (fastforce simp: ledger_step_def world_inv_def access_logged_def access_created_def occurs_upd split: if_splits)
next
  case False
  then have "l' = l" using assms(2) by (auto simp: ledger_step_def split: event.splits)
  then show ?thesis using inv created_mono(3) by (auto simp: world_inv_def access_logged_def)
qed

lemma spending_step:
  assumes inv: "world_inv env srv L l" and "ledger_step t e l l'"
  shows "spending_logged (L(i := L i @ [e]))"
proof -
  have "code_created L h c" if "e = Store (EvConsumeCode h (Consumed c))" for h c
    using assms that by (auto simp: ledger_step_def world_inv_def codes_logged_def intro!: code_created_redeemed)
  moreover have "refresh_created L h f" if "e = Store (EvConsumeRefresh h (Consumed f))" for h f
    using assms that by (auto simp: ledger_step_def world_inv_def refresh_logged_def refresh_created_def)
  ultimately show ?thesis
    using inv created_mono(1,2) [of L] by (auto simp: world_inv_def spending_logged_def occurs_upd)
qed

lemma spends_spent:
  "spends_code h x \<Longrightarrow> x \<in> set (L j) \<Longrightarrow> code_spent L h" "spends_refresh h x \<Longrightarrow> x \<in> set (L j) \<Longrightarrow> refresh_spent L h"
  by (auto simp: code_spent_def refresh_spent_def occurs_def elim!: spends_code.elims spends_refresh.elims)

lemma spent_once_step:
  assumes inv: "world_inv env srv L l" and "ledger_step t e l l'"
  shows "spent_once (L(i := L i @ [e]))"
proof -
  have "\<not> code_spent L h" if "spends_code h e" for h
    using assms that by (auto simp: ledger_step_def world_inv_def codes_logged_def elim!: spends_code.elims)
  moreover have "\<not> refresh_spent L h" if "spends_refresh h e" for h
    using assms that by (auto simp: ledger_step_def world_inv_def refresh_logged_def elim!: spends_refresh.elims)
  ultimately show ?thesis
    using inv spends_spent unfolding world_inv_def spent_once_def by (blast intro: in_one_log_step)
qed

lemma world_inv_step:
  assumes "world_inv env srv L l" and "guard env srv (L i) e" and "ledger_step t e l l'" and "1000 \<le> t" and "fresh_in env L e"
  shows "world_inv env srv (L(i := L i @ [e])) l'"
  unfolding world_inv_def
  using assms codes_logged_step [OF assms(1-4)] refresh_logged_step [OF assms(1-4)] access_logged_step [OF assms(1,3)]
    spending_step [OF assms(1,3)] spent_once_step [OF assms(1,3)] mints_unique_step [of env L e] families_unique_step [of L env e]
  by (auto simp: world_inv_def guarded_snoc)

subsection \<open>Upkeep\<close>

lemma contract_upkeep:
  assumes "upkeep se" and "contract t se l l'"
  shows "\<forall>h c. lg_codes l' h = Some c \<longrightarrow> lg_codes l h = Some c"
    and "\<forall>h f. lg_refresh l' h = Some f \<longrightarrow> (\<exists>f0. lg_refresh l h = Some f0 \<and> refresh_terms f = refresh_terms f0 \<and>
      rt_RedeemedAt f = rt_RedeemedAt f0 \<and> (\<not> time_is_zero (rt_RevokedAt f0) \<longrightarrow> rt_RevokedAt f = rt_RevokedAt f0))"
    and "\<forall>h a. lg_access l' h = Some a \<longrightarrow> (\<exists>a0. lg_access l h = Some a0 \<and> access_terms a = access_terms a0 \<and>
      (\<not> time_is_zero (at_RevokedAt a0) \<longrightarrow> at_RevokedAt a = at_RevokedAt a0))"
  using assms(1) contract_codes [OF assms(2)] contract_refresh [OF assms(2)] contract_access [OF assms(2)] by auto

lemma world_inv_upkeep:
  assumes "world_inv env srv L l" and "upkeep se" and "contract t se l l'"
  shows "world_inv env srv L l'"
  using assms(1) contract_upkeep [OF assms(2,3)]
  by (fastforce simp: world_inv_def codes_logged_def refresh_logged_def access_logged_def refresh_created_def access_created_def)

subsection \<open>Where tokens come from\<close>

text \<open>A code that was granted and redeemed, on whose terms a token is.\<close>

definition root :: "(nat \<Rightarrow> event list) \<Rightarrow> AuthorizationCode \<Rightarrow> bool" where
  "root L c0 \<longleftrightarrow> occurs L (Store (EvCreateCode c0 None)) \<and> code_spent L (ac_Hash c0)"

definition rooted :: "(nat \<Rightarrow> event list) \<Rightarrow> terms \<Rightarrow> bool" where
  "rooted L tm \<longleftrightarrow> (\<exists>c0. root L c0 \<and> within (code_terms c0) tm)"

definition tokens_rooted :: "(nat \<Rightarrow> event list) \<Rightarrow> bool" where
  "tokens_rooted L \<longleftrightarrow>
     (\<forall>f r. occurs L (Store (EvCreateRefresh f r)) \<longrightarrow> rooted L (refresh_terms f)) \<and>
     (\<forall>a r. occurs L (Store (EvCreateAccess a r)) \<longrightarrow> rooted L (access_terms a))"

lemma within_trans: "within g h \<Longrightarrow> within h k \<Longrightarrow> within g k"
  by (auto simp: within_def)

lemma rooted_mono: "rooted L tm \<Longrightarrow> rooted (L(i := L i @ [e])) tm"
  unfolding rooted_def root_def by (auto simp: occurs_upd spent_upd)

lemma code_same_terms: "code_same c0 c \<Longrightarrow> code_terms c = code_terms c0"
  by (cases c0; cases c) (simp add: code_same_def code_terms_def)

lemma redeemed_rooted:
  assumes inv: "world_inv env srv L l" and "tokens_rooted L" and "redeemed (L i) = Some g"
  shows "rooted L g"
proof -
  from redeemed_Some [OF assms(3)] obtain e where e: "e \<in> set (L i)" "redeems e = Some g" by blast
  from e(2) consider h c where "e = Store (EvConsumeCode h (Consumed c))" "g = code_terms c"
    | h f where "e = Store (EvConsumeRefresh h (Consumed f))" "g = refresh_terms f"
    by (cases e rule: redeems.cases) auto
  then show ?thesis
  proof cases
    case (1 h c)
    with e(1) have "occurs L (Store (EvConsumeCode h (Consumed c)))" by (auto simp: occurs_def)
    then have "code_spent L h" "code_created L h c"
      using inv unfolding code_spent_def world_inv_def spending_logged_def by blast+
    then obtain c0 where "root L c0" "code_terms c = code_terms c0"
      by (auto simp: root_def code_created_def dest: code_same_terms)
    then show ?thesis unfolding 1 rooted_def by (auto simp: within_def)
  next
    case (2 h f)
    with e(1) have "occurs L (Store (EvConsumeRefresh h (Consumed f)))" by (auto simp: occurs_def)
    then have "refresh_created L h f"
      using inv unfolding world_inv_def spending_logged_def by blast
    then show ?thesis using assms(2) unfolding 2 by (auto simp: refresh_created_def tokens_rooted_def)
  qed
qed

lemma tokens_rooted_step:
  assumes inv: "world_inv env srv L l" and "tokens_rooted L" and "guard env srv (L i) e"
  shows "tokens_rooted (L(i := L i @ [e]))"
proof -
  have "rooted L tm" if "token_granted env (L i) tm" for tm
    using that redeemed_rooted [OF assms(1,2)] within_trans by (fastforce simp: token_granted_def rooted_def)
  then show ?thesis
    using assms(2,3) rooted_mono [of L] by (auto simp: tokens_rooted_def occurs_upd)
qed

lemma one_code_per_log:
  assumes "guarded env srv es" and "Store (EvCreateCode c r) \<in> set es" and "Store (EvCreateCode c' r') \<in> set es"
  shows "c = c'"
  using assms
proof (induction es rule: rev_induct)
  case (snoc x es)
  have "\<not> list_ex creates_code es" if "creates_code x"
    using that snoc.prems(1) by (auto simp: guarded_snoc elim: creates_code.elims)
  then show ?case using snoc by (fastforce simp: guarded_snoc list_ex_iff)
qed simp

text \<open>A family belongs to one code.\<close>

lemma one_code_per_family:
  assumes inv: "world_inv env srv L l" and "occurs L (Store (EvCreateCode c r))" and "occurs L (Store (EvCreateCode c' r'))"
    and "ac_FamilyID c = ac_FamilyID c'"
  shows "c = c'"
proof -
  obtain i j where ij: "Store (EvCreateCode c r) \<in> set (L i)" "Store (EvCreateCode c' r') \<in> set (L j)" using assms(2,3) by (auto simp: occurs_def)
  have g: "guarded env srv (L k)" for k using inv by (simp add: world_inv_def)
  have "EvNewFamily (ac_FamilyID c) \<in> set (L i)" "EvNewFamily (ac_FamilyID c) \<in> set (L j)"
    using guarded_code_minted [OF g ij(1)] guarded_code_minted [OF g ij(2)] assms(4) by auto
  then have "i = j" using inv by (auto simp: world_inv_def families_unique_def)
  with one_code_per_log [OF g] ij show ?thesis by blast
qed

lemma root_family_nonempty:
  assumes "world_inv env srv L l" and "root L c0"
  shows "ac_FamilyID c0 \<noteq> []"
proof -
  obtain j where "Store (EvCreateCode c0 None) \<in> set (L j)" using assms(2) by (auto simp: root_def occurs_def)
  then have "EvNewFamily (ac_FamilyID c0) \<in> set (L j)"
    using guarded_code_minted [of env srv "L j"] assms(1) by (auto simp: world_inv_def)
  then show ?thesis using assms(1) by (auto simp: world_inv_def families_unique_def)
qed

lemma rooted_family:
  assumes "world_inv env srv L l" and "rooted L tm"
  shows "tm_family tm \<noteq> [] \<and> (\<exists>c0. root L c0 \<and> ac_FamilyID c0 = tm_family tm)"
proof -
  obtain c0 where c0: "root L c0" "within (code_terms c0) tm" using assms(2) by (auto simp: rooted_def)
  then have "ac_FamilyID c0 \<noteq> []" "ac_FamilyID c0 = tm_family tm"
    using root_family_nonempty [OF assms(1)] by (auto simp: within_def code_terms_def)
  with c0(1) show ?thesis by auto
qed

subsection \<open>Families that are revoked\<close>

text \<open>What a thread learned of a family: the records it was shown were created.\<close>

definition shown_logged :: "(nat \<Rightarrow> event list) \<Rightarrow> bool" where
  "shown_logged L \<longleftrightarrow>
     (\<forall>h c. occurs L (Store (EvConsumeCode h (Refused ErrAlreadyRedeemed (Some c)))) \<longrightarrow> code_created L h c \<and> code_spent L h) \<and>
     (\<forall>h f. occurs L (Store (EvConsumeRefresh h (Refused ErrAlreadyRedeemed (Some f)))) \<longrightarrow> refresh_created L h f) \<and>
     (\<forall>h f. occurs L (Store (EvGetRefresh h (Inr f))) \<longrightarrow> refresh_created L h f)"

lemma shown_step:
  assumes inv: "world_inv env srv L l" and "shown_logged L" and "ledger_step t e l l'"
  shows "shown_logged (L(i := L i @ [e]))"
proof -
  have "code_created L h c \<and> code_spent L h" if "e = Store (EvConsumeCode h (Refused ErrAlreadyRedeemed (Some c)))" for h c
    using inv assms(3) that by (auto simp: ledger_step_def world_inv_def codes_logged_def)
  moreover have "refresh_created L h f" if "e = Store (EvConsumeRefresh h (Refused ErrAlreadyRedeemed (Some f))) \<or> e = Store (EvGetRefresh h (Inr f))" for h f
    using inv assms(3) that by (auto simp: ledger_step_def world_inv_def refresh_logged_def)
  ultimately show ?thesis
    using assms(2) created_mono(1,2) [of L] by (auto simp: shown_logged_def occurs_upd spent_upd)
qed

lemma known_family_root:
  assumes inv: "world_inv env srv L l" and "tokens_rooted L" and "shown_logged L" and "family_known (L i) f"
  shows "\<exists>c0. root L c0 \<and> ac_FamilyID c0 = f"
proof -
  have refresh: "\<exists>c0. root L c0 \<and> ac_FamilyID c0 = rt_FamilyID t" if "refresh_created L h t" for h t
  proof -
    have "rooted L (refresh_terms t)" using that assms(2) by (auto simp: refresh_created_def tokens_rooted_def)
    from rooted_family [OF inv this] show ?thesis by (simp add: refresh_terms_def)
  qed
  have rooted_code: "\<exists>c0. root L c0 \<and> ac_FamilyID c0 = ac_FamilyID c" if made: "code_created L h c" "code_spent L h" for h c
  proof -
    obtain c0 where c0: "occurs L (Store (EvCreateCode c0 None))" "ac_Hash c0 = h" "code_same c0 c"
      using made(1) unfolding code_created_def by blast
    then have "root L c0" using made(2) by (simp add: root_def)
    then show ?thesis using code_same_terms [OF c0(3)] by (auto simp: code_terms_def)
  qed
  have spent: "refresh_created L h t" if "Store (EvConsumeRefresh h (Consumed t)) \<in> set (L i)" for h t
    using that inv unfolding world_inv_def spending_logged_def occurs_def by blast
  note shown = assms(3) [unfolded shown_logged_def occurs_def]
  from assms(4) consider
      (code) h c where "Store (EvConsumeCode h (Refused ErrAlreadyRedeemed (Some c))) \<in> set (L i)" "ac_FamilyID c = f"
    | (moved) h t where "Store (EvConsumeRefresh h (Refused ErrAlreadyRedeemed (Some t))) \<in> set (L i) \<or>
        Store (EvGetRefresh h (Inr t)) \<in> set (L i)" "rt_FamilyID t = f"
    | (taken) h t where "Store (EvConsumeRefresh h (Consumed t)) \<in> set (L i)" "rt_FamilyID t = f"
    unfolding family_known_def by blast
  then show ?thesis
  proof cases
    case (code h c)
    then show ?thesis using shown rooted_code by blast
  next
    case (moved h t)
    then show ?thesis using shown refresh by blast
  next
    case (taken h t)
    then show ?thesis using spent refresh by blast
  qed
qed

definition lapsed :: "string \<Rightarrow> ledger \<Rightarrow> bool" where
  "lapsed f l \<longleftrightarrow>
     (\<forall>h c. lg_codes l h = Some c \<longrightarrow> ac_FamilyID c = f \<longrightarrow> \<not> time_is_zero (ac_RedeemedAt c)) \<and>
     (\<forall>h a. lg_access l h = Some a \<longrightarrow> at_FamilyID a = f \<longrightarrow> \<not> time_is_zero (at_RevokedAt a)) \<and>
     (\<forall>h t. lg_refresh l h = Some t \<longrightarrow> rt_FamilyID t = f \<longrightarrow> \<not> time_is_zero (rt_RevokedAt t))"

lemma terms_family [simp]:
  "tm_family (code_terms c) = ac_FamilyID c" "tm_family (refresh_terms f) = rt_FamilyID f" "tm_family (access_terms a) = at_FamilyID a"
  by (simp_all add: code_terms_def refresh_terms_def access_terms_def)

lemma lapsed_no_redeem:
  assumes "lapsed f l" and "ledger_step t e l l'" and "redeems e = Some g"
  shows "tm_family g \<noteq> f"
  using assms by (cases e rule: redeems.cases) (auto simp: lapsed_def ledger_step_def)

lemma revoke_marks:
  "at_FamilyID (revoke_access f now a) = at_FamilyID a"
  "at_FamilyID a = f \<Longrightarrow> 0 < now \<Longrightarrow> \<not> time_is_zero (at_RevokedAt (revoke_access f now a))"
  "rt_FamilyID (revoke_refresh f now r) = rt_FamilyID r"
  "rt_FamilyID r = f \<Longrightarrow> 0 < now \<Longrightarrow> \<not> time_is_zero (rt_RevokedAt (revoke_refresh f now r))"
  by (simp_all add: revoke_access_def in_family_access_def revoke_refresh_def in_family_refresh_def)

lemma old_access:
  assumes "contract t se l l'" and "lg_access l' h = Some a" and "se \<noteq> EvCreateAccess a None"
  shows "\<exists>a0. lg_access l h = Some a0 \<and> access_terms a = access_terms a0 \<and> (\<not> time_is_zero (at_RevokedAt a0) \<longrightarrow> at_RevokedAt a = at_RevokedAt a0)"
  using contract_access [OF assms(1)] assms(2,3) by (metis fun_upd_apply option.inject)

lemma old_refresh:
  assumes "contract t se l l'" and "lg_refresh l' h = Some f" and "se \<noteq> EvCreateRefresh f None"
  shows "\<exists>f0. lg_refresh l h = Some f0 \<and> refresh_terms f = refresh_terms f0 \<and> (\<not> time_is_zero (rt_RevokedAt f0) \<longrightarrow> rt_RevokedAt f = rt_RevokedAt f0)"
  using contract_refresh [OF assms(1)] assms(2,3)
proof (elim disjE exE conjE)
  fix k r r' assume "lg_refresh l' = (lg_refresh l)(k \<mapsto> r')" "lg_refresh l k = Some r" "r' = r\<lparr>rt_RedeemedAt := store_now t\<rparr>"
  then show ?thesis using assms(2) by (cases "h = k") auto
qed (use assms(2,3) in \<open>metis fun_upd_apply option.inject\<close>)+

text \<open>Revoking a family that a thread learned of, when its code is known to be redeemed.\<close>

lemma revoked_lapsed:
  assumes inv: "world_inv env srv L l" and "tokens_rooted L" and "shown_logged L" and "family_known (L i) f"
    and "contract t (EvRevokeFamily f (Inr n)) l l'" and "1000 \<le> t"
  shows "lapsed f l'"
proof -
  obtain c0 where c0: "root L c0" "ac_FamilyID c0 = f" using known_family_root [OF assms(1-4)] by blast
  have l': "l' = revoked_family f (store_now t) l" using assms(5) by simp
  have "\<not> time_is_zero (ac_RedeemedAt c)" if c: "lg_codes l h = Some c" "ac_FamilyID c = f" for h c
  proof -
    have "code_created L h c" and red: "time_is_zero (ac_RedeemedAt c) \<longleftrightarrow> \<not> code_spent L h"
      using inv c(1) unfolding world_inv_def codes_logged_def by blast+
    then obtain c1 where c1: "occurs L (Store (EvCreateCode c1 None))" "ac_Hash c1 = h" "code_same c1 c"
      unfolding code_created_def by blast
    have "ac_FamilyID c1 = ac_FamilyID c0" using code_same_terms [OF c1(3)] c(2) c0(2) terms_family(1) by metis
    then have "c1 = c0" using one_code_per_family [OF inv c1(1)] c0(1) unfolding root_def by blast
    then show ?thesis using c0(1) c1(2) red by (simp add: root_def)
  qed
  then have "\<forall>h c. lg_codes l' h = Some c \<longrightarrow> ac_FamilyID c = f \<longrightarrow> \<not> time_is_zero (ac_RedeemedAt c)"
    by (simp add: l' revoked_family_def)
  moreover have "\<not> time_is_zero (at_RevokedAt a)" if a: "lg_access l' h = Some a" "at_FamilyID a = f" for h a
  proof -
    obtain a0 where "lg_access l h = Some a0" "a = revoke_access f (store_now t) a0" using a(1) by (auto simp: l' revoked_family_def)
    with a(2) store_now_pos [OF assms(6)] show ?thesis by (simp add: revoke_marks)
  qed
  moreover have "\<not> time_is_zero (rt_RevokedAt a)" if a: "lg_refresh l' h = Some a" "rt_FamilyID a = f" for h a
  proof -
    obtain a0 where "lg_refresh l h = Some a0" "a = revoke_refresh f (store_now t) a0" using a(1) by (auto simp: l' revoked_family_def)
    with a(2) store_now_pos [OF assms(6)] show ?thesis by (simp add: revoke_marks)
  qed
  ultimately show ?thesis unfolding lapsed_def by blast
qed

text \<open>A lapsed family stays so, as long as a thread that holds one of its redeemed credentials issues nothing.\<close>

lemma lapsed_codes_step:
  assumes inv: "world_inv env srv L l" and "guard env srv (L i) (Store se)" and "contract t se l l'" and "1000 \<le> t"
    and c0: "root L c0" "ac_FamilyID c0 = f" and "lapsed f l" and c: "lg_codes l' h = Some c" "ac_FamilyID c = f"
  shows "\<not> time_is_zero (ac_RedeemedAt c)"
proof -
  have g: "guarded env srv (L k)" for k using inv by (simp add: world_inv_def)
  have new: False if "se = EvCreateCode c' r" "ac_FamilyID c' = f" for c' r
  proof -
    obtain j where j: "Store (EvCreateCode c0 None) \<in> set (L j)" using c0(1) by (auto simp: root_def occurs_def)
    from guarded_code_minted [OF g j] have "EvNewFamily f \<in> set (L j)" "list_ex creates_code (L j)" using c0(2) by auto
    moreover have "EvNewFamily f \<in> set (L i)" "\<not> list_ex creates_code (L i)" using assms(2) that by (auto simp: code_granted_def)
    ultimately show False using inv unfolding world_inv_def families_unique_def by blast
  qed
  have old: "\<not> time_is_zero (ac_RedeemedAt c)" if "lg_codes l h' = Some c" for h'
    using \<open>lapsed f l\<close> that c(2) unfolding lapsed_def by blast
  from contract_codes [OF assms(3)] show ?thesis
  proof (elim disjE exE conjE)
    fix c' assume "se = EvCreateCode c' None" "lg_codes l' = (lg_codes l)(ac_Hash c' \<mapsto> c')"
    then show ?thesis using c new [of c' None] old by (cases "h = ac_Hash c'") auto
  next
    fix h' c1 c' assume "lg_codes l' = (lg_codes l)(h' \<mapsto> c')" "c' = c1\<lparr>ac_RedeemedAt := store_now t\<rparr>"
    then show ?thesis using c(1) old store_now_pos [OF assms(4)] by (cases "h = h'") auto
  qed (use c(1) old in blast)
qed

lemma lapsed_tokens_step:
  assumes inv: "world_inv env srv L l" and rooted: "tokens_rooted L" and g: "guard env srv (L i) (Store se)" and "contract t se l l'"
    and "lapsed f l" and "\<forall>g. redeemed (L i) = Some g \<longrightarrow> tm_family g = f \<longrightarrow> issues_no_token [] (Store se)"
  shows "lg_access l' h = Some a \<Longrightarrow> at_FamilyID a = f \<Longrightarrow> \<not> time_is_zero (at_RevokedAt a)"
    and "lg_refresh l' h = Some t' \<Longrightarrow> rt_FamilyID t' = f \<Longrightarrow> \<not> time_is_zero (rt_RevokedAt t')"
proof -
  have held: "issues_no_token [] (Store se)" if tm: "token_granted env (L i) tm" "tm_family tm = f" for tm
  proof -
    obtain g where "redeemed (L i) = Some g" "within g tm" using tm(1) by (auto simp: token_granted_def)
    moreover have "tm_family g \<noteq> []" using rooted_family [OF inv redeemed_rooted [OF inv rooted calculation(1)]] by simp
    ultimately show ?thesis using assms(6) tm(2) by (auto simp: within_def)
  qed
  show "\<not> time_is_zero (at_RevokedAt a)" if a: "lg_access l' h = Some a" "at_FamilyID a = f"
  proof -
    have "se \<noteq> EvCreateAccess a r" for r using held [of "access_terms a"] g a(2) by (auto simp: issues_no_token_def)
    then obtain a0 where "lg_access l h = Some a0" "access_terms a = access_terms a0" "\<not> time_is_zero (at_RevokedAt a0) \<longrightarrow> at_RevokedAt a = at_RevokedAt a0"
      using old_access [OF assms(4) a(1)] by blast
    then show ?thesis using a(2) \<open>lapsed f l\<close> terms_family(3) unfolding lapsed_def by metis
  qed
  show "\<not> time_is_zero (rt_RevokedAt t')" if a: "lg_refresh l' h = Some t'" "rt_FamilyID t' = f"
  proof -
    have "se \<noteq> EvCreateRefresh t' r" for r using held [of "refresh_terms t'"] g a(2) by (auto simp: issues_no_token_def)
    then obtain a0 where "lg_refresh l h = Some a0" "refresh_terms t' = refresh_terms a0" "\<not> time_is_zero (rt_RevokedAt a0) \<longrightarrow> rt_RevokedAt t' = rt_RevokedAt a0"
      using old_refresh [OF assms(4) a(1)] by blast
    then show ?thesis using a(2) \<open>lapsed f l\<close> terms_family(2) unfolding lapsed_def by metis
  qed
qed

lemma lapsed_step:
  assumes inv: "world_inv env srv L l" and "tokens_rooted L" and "guard env srv (L i) e" and step: "ledger_step t e l l'" and "1000 \<le> t"
    and "root L c0" and "ac_FamilyID c0 = f" and "lapsed f l" and "\<forall>g. redeemed (L i) = Some g \<longrightarrow> tm_family g = f \<longrightarrow> issues_no_token [] e"
  shows "lapsed f l'"
proof (cases "\<exists>se. e = Store se")
  case True
  then obtain se where e: "e = Store se" by blast
  have c: "contract t se l l'" using step e by (simp add: ledger_step_def)
  note codes = lapsed_codes_step [OF inv assms(3) [unfolded e] c assms(5-8)]
  note tokens = lapsed_tokens_step [OF inv assms(2) assms(3) [unfolded e] c assms(8) assms(9) [unfolded e]]
  show ?thesis unfolding lapsed_def using codes tokens by blast
next
  case False
  then have "l' = l" using step by (auto simp: ledger_step_def split: event.splits)
  with assms(8) show ?thesis by simp
qed

lemma lapsed_upkeep:
  assumes "upkeep se" and "contract t se l l'" and "lapsed f l"
  shows "lapsed f l'"
proof -
  note up = contract_upkeep [OF assms(1,2)]
  have "\<not> time_is_zero (at_RevokedAt a)" if a: "lg_access l' h = Some a" "at_FamilyID a = f" for h a
  proof -
    obtain a0 where a0: "lg_access l h = Some a0" "access_terms a = access_terms a0"
      "\<not> time_is_zero (at_RevokedAt a0) \<longrightarrow> at_RevokedAt a = at_RevokedAt a0" using up(3) a(1) by blast
    with a(2) have "at_FamilyID a0 = f" using terms_family(3) by metis
    then show ?thesis using a0 assms(3) unfolding lapsed_def by metis
  qed
  moreover have "\<not> time_is_zero (rt_RevokedAt a)" if a: "lg_refresh l' h = Some a" "rt_FamilyID a = f" for h a
  proof -
    obtain a0 where a0: "lg_refresh l h = Some a0" "refresh_terms a = refresh_terms a0"
      "\<not> time_is_zero (rt_RevokedAt a0) \<longrightarrow> rt_RevokedAt a = rt_RevokedAt a0" using up(2) a(1) by blast
    with a(2) have "rt_FamilyID a0 = f" using terms_family(2) by metis
    then show ?thesis using a0 assms(3) unfolding lapsed_def by metis
  qed
  ultimately show ?thesis using up(1) assms(3) unfolding lapsed_def by blast
qed

text \<open>No thread that redeemed a credential of the family can still issue tokens.\<close>

definition settled :: "string \<Rightarrow> thread list \<Rightarrow> bool" where
  "settled f ths \<longleftrightarrow> (\<forall>th \<in> set ths. \<forall>g. redeemed (th_log th) = Some g \<longrightarrow> tm_family g = f \<longrightarrow> silent (th_prog th))"

lemma settled_step:
  assumes "settled f ths" and "i < length ths" and "feed (th_prog (ths ! i)) e = Some p" and "\<And>g. redeems e = Some g \<Longrightarrow> tm_family g \<noteq> f"
  shows "settled f (ths[i := \<lparr>th_prog = p, th_log = th_log (ths ! i) @ [e]\<rparr>])"
proof -
  have "silent p" if "redeemed (th_log (ths ! i) @ [e]) = Some g" "tm_family g = f" for g
  proof -
    have "redeemed (th_log (ths ! i)) = Some g" using that assms(4) by (auto split: option.splits)
    then have "silent (th_prog (ths ! i))" using assms(1) nth_mem [OF assms(2)] that(2) unfolding settled_def by blast
    then show ?thesis using silent_feed assms(3) by blast
  qed
  moreover have "set (ths[i := th]) \<subseteq> insert th (set ths)" for th by (rule set_update_subset_insert)
  ultimately show ?thesis using assms(1) unfolding settled_def by (metis insertE subsetD thread.select_convs)
qed

subsection \<open>Every run of the server on any store that meets the contract\<close>

definition server_inv :: "oauth_env \<Rightarrow> Server \<Rightarrow> ledger \<Rightarrow> 's world \<Rightarrow> bool" where
  "server_inv env srv l w \<longleftrightarrow>
     world_inv env srv (log_of w) l \<and> tokens_rooted (log_of w) \<and> shown_logged (log_of w) \<and>
     (\<forall>th \<in> set (wd_threads w). safe (guard env srv) (\<lambda>_ _. True) (th_log th) (th_prog th))"

lemma log_of_arrive: "log_of (w\<lparr>wd_threads := wd_threads w @ [\<lparr>th_prog = p, th_log = []\<rparr>]\<rparr>) = log_of w"
  by (auto simp: log_of_def fun_eq_iff nth_append)

lemma log_of_store: "log_of (w\<lparr>wd_store := s\<rparr>) = log_of w"
  by (simp add: log_of_def fun_eq_iff)

lemma log_of_call:
  "i < length (wd_threads w) \<Longrightarrow>
   log_of \<lparr>wd_store = s, wd_threads = (wd_threads w)[i := \<lparr>th_prog = p, th_log = th_log (wd_threads w ! i) @ [e]\<rparr>]\<rparr> =
   (log_of w)(i := log_of w i @ [e])"
  by (auto simp: log_of_def fun_eq_iff nth_list_update)

lemma fresh_log: "fresh env (wd_threads w) e \<Longrightarrow> fresh_in env (log_of w) e"
  by (auto simp: fresh_def fresh_in_def log_of_def list_all_iff minted_def split: event.splits option.splits)

lemma safe_serve: "safe (guard env srv) (\<lambda>_ _. True) [] (serve env srv ep)"
  using safe_TokenHandler safe_RevokeHandler safe_registerHandler safe_mono [OF safe_AuthorizeHandler] by (cases ep) auto

lemma safe_thread:
  assumes "server_inv env srv l w" and "i < length (wd_threads w)" and "feed (th_prog (wd_threads w ! i)) e = Some p"
  shows "guard env srv (log_of w i) e \<and> safe (guard env srv) (\<lambda>_ _. True) (log_of w i @ [e]) p"
proof -
  have "safe (guard env srv) (\<lambda>_ _. True) (th_log (wd_threads w ! i)) (th_prog (wd_threads w ! i))"
    using assms(1) nth_mem [OF assms(2)] unfolding server_inv_def by blast
  from safe_feed [OF this assms(3)] show ?thesis using assms(2) by (simp add: log_of_def)
qed

lemma server_inv_new: "lg_codes l = Map.empty \<Longrightarrow> lg_access l = Map.empty \<Longrightarrow> lg_refresh l = Map.empty \<Longrightarrow> server_inv env srv l (new_world s)"
  by (simp add: server_inv_def new_world_def log_of_def world_inv_def mints_unique_def minted_def families_unique_def
    codes_logged_def refresh_logged_def access_logged_def spending_logged_def occurs_def spent_once_def in_one_log_def
    tokens_rooted_def shown_logged_def)

text \<open>A family that is over: its code redeemed, its tokens revoked, and nobody left to issue more.\<close>

definition dead_family :: "('s \<Rightarrow> ledger) \<Rightarrow> string \<Rightarrow> 's world \<Rightarrow> bool" where
  "dead_family view f w \<longleftrightarrow> lapsed f (view (wd_store w)) \<and> settled f (wd_threads w) \<and> (\<exists>c0. root (log_of w) c0 \<and> ac_FamilyID c0 = f)"

context oauth_store
begin

lemma performs_ok: "ok s \<Longrightarrow> performs ops t e s = Some s' \<Longrightarrow> ok s'"
  by (auto simp: performs_def split: event.splits if_splits intro: step_ok)

lemma performs_ledger: "ok s \<Longrightarrow> performs ops t e s = Some s' \<Longrightarrow> ledger_step t e (view s) (view s')"
  by (auto simp: performs_def ledger_step_def split: event.splits if_splits intro: step_contract)

lemma call_inv:
  assumes "thread_call env ops i e w w'" and "ok (wd_store w)" and "server_inv env srv (view (wd_store w)) w"
  shows "ok (wd_store w') \<and> server_inv env srv (view (wd_store w')) w'"
  using assms(1)
proof cases
  case (1 p t s)
  note inv = assms(3) [unfolded server_inv_def]
  have g: "guard env srv (log_of w i) e" and p: "safe (guard env srv) (\<lambda>_ _. True) (log_of w i @ [e]) p"
    using safe_thread [OF assms(3) 1(2,3)] by auto
  have l: "ledger_step t e (view (wd_store w)) (view s)" using performs_ledger assms(2) 1(5) by blast
  have "world_inv env srv ((log_of w)(i := log_of w i @ [e])) (view s)"
    using world_inv_step [of env srv "log_of w"] g l 1(4) fresh_log [OF 1(6)] inv by blast
  moreover have "tokens_rooted ((log_of w)(i := log_of w i @ [e]))" using tokens_rooted_step [of env srv "log_of w"] g inv by blast
  moreover have "shown_logged ((log_of w)(i := log_of w i @ [e]))" using shown_step [of env srv "log_of w"] l inv by blast
  moreover have "set ((wd_threads w)[i := th]) \<subseteq> insert th (set (wd_threads w))" for th by (rule set_update_subset_insert)
  moreover have "safe (guard env srv) (\<lambda>_ _. True) (th_log (wd_threads w ! i) @ [e]) p" using p 1(2) by (simp add: log_of_def)
  ultimately have "server_inv env srv (view s) w'"
    using inv unfolding server_inv_def 1(1) log_of_call [OF 1(2)] by (simp, metis insertE subsetD thread.select_convs)
  then show ?thesis using performs_ok assms(2) 1(1,5) by auto
qed

lemma step_inv:
  assumes "world_step env srv ops w w'" and "ok (wd_store w)" and "server_inv env srv (view (wd_store w)) w"
  shows "ok (wd_store w') \<and> server_inv env srv (view (wd_store w')) w'"
  using assms(1)
proof cases
  case (arrive ep)
  then show ?thesis using assms(2,3) safe_serve by (auto simp: server_inv_def log_of_arrive)
next
  case (call i e)
  then show ?thesis using call_inv assms(2,3) by blast
next
  case (keep se t s)
  then show ?thesis
    using assms(2,3) step_ok step_contract world_inv_upkeep [OF _ keep(2)] by (fastforce simp: server_inv_def log_of_store)
qed

lemma run_inv:
  assumes "world_run env srv ops w w'" and "ok (wd_store w)" and "server_inv env srv (view (wd_store w)) w"
  shows "ok (wd_store w') \<and> server_inv env srv (view (wd_store w')) w'"
  using assms by (induction rule: world_run.induct) (auto dest: step_inv)

lemma call_dead:
  assumes "thread_call env ops i e w w'" and "ok (wd_store w)" and "server_inv env srv (view (wd_store w)) w" and "dead_family view f w"
  shows "dead_family view f w'"
  using assms(1)
proof cases
  case (1 p t s)
  note inv = assms(3) [unfolded server_inv_def] and d = assms(4) [unfolded dead_family_def]
  have g: "guard env srv (log_of w i) e" using safe_thread [OF assms(3) 1(2,3)] by auto
  have l: "ledger_step t e (view (wd_store w)) (view s)" using performs_ledger assms(2) 1(5) by blast
  obtain c0 where c0: "root (log_of w) c0" "ac_FamilyID c0 = f" using d by blast
  have "issues_no_token [] e" if "redeemed (log_of w i) = Some g" "tm_family g = f" for g
    using that d 1(2) silent_feed [OF _ 1(3)] by (auto simp: log_of_def settled_def)
  then have "lapsed f (view s)" using lapsed_step [of env srv "log_of w" _ i] g l 1(4) c0 inv d by blast
  moreover have "settled f (wd_threads w')"
    unfolding 1(1) using settled_step [OF _ 1(2,3)] d lapsed_no_redeem [OF _ l] by simp
  moreover have "root (log_of w') c0"
    unfolding 1(1) log_of_call [OF 1(2)] using c0(1) by (auto simp: root_def occurs_upd spent_upd)
  ultimately show ?thesis unfolding dead_family_def using c0(2) 1(1) by auto
qed

lemma step_dead:
  assumes "world_step env srv ops w w'" and "ok (wd_store w)" and "server_inv env srv (view (wd_store w)) w" and "dead_family view f w"
  shows "dead_family view f w'"
  using assms(1)
proof cases
  case (arrive ep)
  then show ?thesis using assms(4) by (auto simp: dead_family_def log_of_arrive settled_def)
next
  case (call i e)
  then show ?thesis using call_dead assms(2-4) by blast
next
  case (keep se t s)
  then show ?thesis
    using assms(4) lapsed_upkeep [OF keep(2) step_contract [OF assms(2) keep(4)]] by (auto simp: dead_family_def log_of_store)
qed

lemma run_dead:
  assumes "world_run env srv ops w w'" and "ok (wd_store w)" and "server_inv env srv (view (wd_store w)) w" and "dead_family view f w"
  shows "dead_family view f w'"
  using assms
proof (induction rule: world_run.induct)
  case (onwards w w1 w2)
  then show ?case using step_dead run_inv by blast
qed

lemma revoke_dead:
  assumes "thread_call env ops i (Store (EvRevokeFamily f (Inr n))) w w'" and "ok (wd_store w)"
    and "server_inv env srv (view (wd_store w)) w" and "settled f (wd_threads w)"
  shows "dead_family view f w'"
  using assms(1)
proof cases
  case (1 p t s)
  note inv = assms(3) [unfolded server_inv_def]
  have g: "family_known (log_of w i) f" using safe_thread [OF assms(3) 1(2,3)] by simp
  have c: "contract t (EvRevokeFamily f (Inr n)) (view (wd_store w)) (view s)"
    by (rule step_contract [OF assms(2)]) (use 1(5) in \<open>simp add: performs_def\<close>)
  have "lapsed f (view s)" using revoked_lapsed [of env srv "log_of w" _ i] g c 1(4) inv by blast
  moreover have "settled f (wd_threads w')" unfolding 1(1) using settled_step [OF assms(4) 1(2,3)] by simp
  moreover have "\<exists>c0. root (log_of w') c0 \<and> ac_FamilyID c0 = f"
    using known_family_root [of env srv "log_of w" _ i] g inv unfolding 1(1) log_of_call [OF 1(2)] by (fastforce simp: root_def occurs_upd spent_upd)
  ultimately show ?thesis unfolding dead_family_def 1(1) by simp
qed

end

end
