(* ===== verification/OAuthVerifier.thy ===== *)
theory OAuthVerifier
  imports OAuthServer
begin

text \<open>
  The resource server's half (\<^verbatim>\<open>verify.go\<close>, \<^verbatim>\<open>resource.go\<close>, \<^verbatim>\<open>mappers.go\<close>), its discovery document, and the adapters over gRPC
  (\<^verbatim>\<open>grpc/interceptor.go\<close>) and MCP (\<^verbatim>\<open>mcp/mcp.go\<close>).

  \<open>Verify\<close> is a program over the same calls as the endpoints, so that it reads the store they write. What a request is
  answered is the status and the challenge; an admitted request is given the token that was verified. The counters of
  attempts and failures are left out.
\<close>

subsection \<open>resource.go\<close>

record ProtectedResourceMetadata =
  pr_Resource :: string
  pr_ResourceName :: string
  pr_ResourceDocumentation :: string
  pr_AuthorizationServers :: "string list"
  pr_ScopesSupported :: "string list"
  pr_BearerMethodsSupported :: "string list"

type_synonym resource_option = "ProtectedResourceMetadata \<Rightarrow> ProtectedResourceMetadata"

definition WithResourceName :: "string \<Rightarrow> resource_option" where
  "WithResourceName name d = d\<lparr>pr_ResourceName := name\<rparr>"

definition WithResourceDocumentation :: "string \<Rightarrow> resource_option" where
  "WithResourceDocumentation url d = d\<lparr>pr_ResourceDocumentation := url\<rparr>"

definition WithResourceScopes :: "string list \<Rightarrow> resource_option" where
  "WithResourceScopes scopes d = d\<lparr>pr_ScopesSupported := pr_ScopesSupported d @ scopes\<rparr>"

datatype resource_error = ErrEmptyResource | ErrNoAuthorizationServer

definition NewResourceMetadata :: "string \<Rightarrow> string list \<Rightarrow> resource_option option list \<Rightarrow> resource_error + ProtectedResourceMetadata" where
  "NewResourceMetadata resource authorizationServers opts =
     (if TrimSpace resource = [] then Inl ErrEmptyResource
      else if authorizationServers = [] then Inl ErrNoAuthorizationServer
      else Inr (foldl (\<lambda>d opt. case opt of Some f \<Rightarrow> f d | None \<Rightarrow> d)
        \<lparr>pr_Resource = resource, pr_ResourceName = [], pr_ResourceDocumentation = [], pr_AuthorizationServers = authorizationServers,
         pr_ScopesSupported = [], pr_BearerMethodsSupported = [''header'']\<rparr> opts))"

definition PathProtectedResourceMetadata :: string where
  "PathProtectedResourceMetadata = ''/.well-known/oauth-protected-resource''"

definition URL :: "ProtectedResourceMetadata \<Rightarrow> string" where
  "URL m = TrimSuffix_slash (pr_Resource m) @ PathProtectedResourceMetadata"

definition challenge :: "oauth_env \<Rightarrow> ProtectedResourceMetadata \<Rightarrow> string \<Rightarrow> string \<Rightarrow> string list \<Rightarrow> string" where
  "challenge env m errorCode description scopes =
     ''Bearer resource_metadata='' @ oe_Quote env (URL m)
     @ (if errorCode \<noteq> [] then '', error='' @ oe_Quote env errorCode else [])
     @ (if description \<noteq> [] then '', error_description='' @ oe_Quote env description else [])
     @ (if length scopes > 0 then '', scope='' @ oe_Quote env (joinScopes scopes) else [])"

definition Challenge :: "oauth_env \<Rightarrow> ProtectedResourceMetadata \<Rightarrow> string \<Rightarrow> string \<Rightarrow> string" where
  "Challenge env m errorCode description = challenge env m errorCode description []"

definition ScopeChallenge :: "oauth_env \<Rightarrow> ProtectedResourceMetadata \<Rightarrow> string \<Rightarrow> string list \<Rightarrow> string" where
  "ScopeChallenge env m description scopes = challenge env m ErrorCodeInsufficientScope description scopes"

subsection \<open>The document of the authorization server\<close>

record AuthorizationServerMetadata =
  as_Issuer :: string
  as_AuthorizationEndpoint :: string
  as_TokenEndpoint :: string
  as_RegistrationEndpoint :: string
  as_RevocationEndpoint :: string
  as_ServiceDocumentation :: string
  as_ScopesSupported :: "string list"
  as_ResponseTypesSupported :: "string list"
  as_GrantTypesSupported :: "string list"
  as_TokenEndpointAuthMethodsSupported :: "string list"
  as_CodeChallengeMethodsSupported :: "string list"
  as_RevocationEndpointAuthMethodsSupported :: "string list"
  as_AuthorizationResponseIssParameterSupported :: bool

definition PathAuthorizationServerMetadata :: string where "PathAuthorizationServerMetadata = ''/.well-known/oauth-authorization-server''"
definition PathAuthorize :: string where "PathAuthorize = ''/authorize''"
definition PathToken :: string where "PathToken = ''/token''"
definition PathRegister :: string where "PathRegister = ''/register''"
definition PathRevoke :: string where "PathRevoke = ''/revoke''"

definition Metadata_srv :: "Server \<Rightarrow> AuthorizationServerMetadata" where
  "Metadata_srv s =
     (let registrationEndpoint = (if srv_dynamicRegistration s then srv_issuer s @ PathRegister else [])
      in \<lparr>as_Issuer = srv_issuer s, as_AuthorizationEndpoint = srv_issuer s @ PathAuthorize,
          as_TokenEndpoint = srv_issuer s @ PathToken, as_RegistrationEndpoint = registrationEndpoint,
          as_RevocationEndpoint = srv_issuer s @ PathRevoke, as_ServiceDocumentation = srv_serviceDocumentation s,
          as_ScopesSupported = srv_scopes s, as_ResponseTypesSupported = [ResponseTypeCode],
          as_GrantTypesSupported = [GrantTypeAuthorizationCode, GrantTypeRefreshToken],
          as_TokenEndpointAuthMethodsSupported = [AuthMethodNone, AuthMethodClientSecret, AuthMethodClientBasic],
          as_CodeChallengeMethodsSupported = [CodeChallengeMethodS256],
          as_RevocationEndpointAuthMethodsSupported = [AuthMethodNone, AuthMethodClientSecret, AuthMethodClientBasic],
          as_AuthorizationResponseIssParameterSupported = True\<rparr>)"

text \<open>The routes of \<^verbatim>\<open>Handler\<close>, by method and path.\<close>

datatype route = MetadataRoute | AuthorizeRoute | TokenRoute | RevokeRoute | RegisterRoute

definition Handler_srv :: "Server \<Rightarrow> ((string \<times> string) \<times> route) list" where
  "Handler_srv s =
     [((''GET'', PathAuthorizationServerMetadata), MetadataRoute), ((''GET'', PathAuthorize), AuthorizeRoute),
      ((''POST'', PathAuthorize), AuthorizeRoute), ((''POST'', PathToken), TokenRoute), ((''POST'', PathRevoke), RevokeRoute)]
     @ (if srv_dynamicRegistration s then [((''POST'', PathRegister), RegisterRoute)] else [])"

subsection \<open>verify.go\<close>

text \<open>What \<^verbatim>\<open>Verify\<close> refuses with; \<open>TokenFailure\<close> is the error of the lookup.\<close>

datatype verify_error = ErrNoBearerToken | ErrTokenAudienceMismatch | ErrInsufficientScope | ScopeError "string list" | TokenFailure store_error

definition is_insufficient :: "verify_error \<Rightarrow> bool" where
  "is_insufficient err \<longleftrightarrow> (case err of ErrInsufficientScope \<Rightarrow> True | ScopeError _ \<Rightarrow> True | _ \<Rightarrow> False)"

definition is_unusable :: "verify_error \<Rightarrow> bool" where
  "is_unusable err \<longleftrightarrow> (case err of TokenFailure e \<Rightarrow> is_not_found e | _ \<Rightarrow> False)"

datatype verifier_error = ErrNilResourceMetadata | ErrNilTokenAuthenticator

record Verifier =
  vf_metadata :: ProtectedResourceMetadata
  vf_resource :: string

text \<open>\<^verbatim>\<open>NewVerifier\<close>; whether a token authenticator was given is a flag.\<close>

definition NewVerifier :: "ProtectedResourceMetadata option \<Rightarrow> bool \<Rightarrow> verifier_error + Verifier" where
  "NewVerifier metadata tokens =
     (case metadata of
        None \<Rightarrow> Inl ErrNilResourceMetadata
      | Some m \<Rightarrow> if \<not> tokens then Inl ErrNilTokenAuthenticator else Inr \<lparr>vf_metadata = m, vf_resource = pr_Resource m\<rparr>)"

definition Verify :: "oauth_env \<Rightarrow> Verifier \<Rightarrow> string \<Rightarrow> string list \<Rightarrow> (verify_error + AccessToken) prog" where
  "Verify env v bearer requiredScopes =
     (if TrimSpace bearer = [] then Ret (Inl ErrNoBearerToken)
      else bind_prog (Authenticate_srv env bearer) (\<lambda>r. case r of
        Inl err \<Rightarrow> Ret (Inl (TokenFailure err))
      | Inr token \<Rightarrow>
          if vf_resource v \<notin> set (at_Audience token) then Count AudienceRejections 1 (Ret (Inl ErrTokenAudienceMismatch))
          else if \<not> HasScopes (at_Scopes token) requiredScopes then Ret (Inl (ScopeError requiredScopes))
          else Ret (Inr token)))"

definition descriptionNoBearerToken :: string where "descriptionNoBearerToken = ''the request carries no bearer token''"
definition descriptionTokenUnusable :: string where "descriptionTokenUnusable = ''the token is expired, revoked, or unknown''"
definition descriptionAudienceMismatch :: string where "descriptionAudienceMismatch = ''the token was not issued for this resource''"
definition descriptionInsufficient :: string where "descriptionInsufficient = ''the token does not carry the required scope''"

definition challengeFor :: "oauth_env \<Rightarrow> Verifier \<Rightarrow> verify_error \<Rightarrow> nat \<times> string" where
  "challengeFor env v err =
     (if err = ErrNoBearerToken then (StatusUnauthorized, Challenge env (vf_metadata v) [] [])
      else if is_insufficient err
      then (StatusForbidden, ScopeChallenge env (vf_metadata v) descriptionInsufficient (case err of ScopeError required \<Rightarrow> required | _ \<Rightarrow> []))
      else if err = ErrTokenAudienceMismatch
      then (StatusUnauthorized, Challenge env (vf_metadata v) ErrorCodeInvalidToken descriptionAudienceMismatch)
      else if is_unusable err
      then (StatusUnauthorized, Challenge env (vf_metadata v) ErrorCodeInvalidToken descriptionTokenUnusable)
      else (StatusInternalServerError, []))"

text \<open>What the client is answered, or the token the handler underneath finds in its context.\<close>

datatype guard_answer = Challenged nat "string option" | Admitted AccessToken

definition WriteChallenge :: "oauth_env \<Rightarrow> Verifier \<Rightarrow> verify_error \<Rightarrow> guard_answer" where
  "WriteChallenge env v err = (case challengeFor env v err of (status, c) \<Rightarrow> Challenged status (if c \<noteq> [] then Some c else None))"

definition bearerScheme :: string where "bearerScheme = ''bearer''"

definition BearerFromAuthorization :: "string \<Rightarrow> string" where
  "BearerFromAuthorization header =
     (case cut CHR '' '' header of
        None \<Rightarrow> []
      | Some (scheme, credential) \<Rightarrow> if \<not> EqualFold scheme bearerScheme then [] else TrimSpace credential)"

text \<open>\<^verbatim>\<open>Middleware\<close> on a request whose first \<^verbatim>\<open>Authorization\<close> header is \<open>header\<close>, empty when there is none.\<close>

definition Middleware :: "oauth_env \<Rightarrow> Verifier \<Rightarrow> string list \<Rightarrow> string \<Rightarrow> guard_answer prog" where
  "Middleware env v required header =
     bind_prog (Verify env v (BearerFromAuthorization header) required) (\<lambda>r. case r of
       Inl err \<Rightarrow> Ret (WriteChallenge env v err)
     | Inr token \<Rightarrow> Ret (Admitted token))"

subsection \<open>mappers.go\<close>

definition RefusalDescription :: "verify_error option \<Rightarrow> string option" where
  "RefusalDescription error =
     (case error of
        None \<Rightarrow> None
      | Some err \<Rightarrow>
          if err = ErrNoBearerToken then Some descriptionNoBearerToken
          else if is_insufficient err then Some descriptionInsufficient
          else if err = ErrTokenAudienceMismatch then Some descriptionAudienceMismatch
          else if is_unusable err then Some descriptionTokenUnusable
          else None)"

datatype http_code = ErrUserIsNotAuthorized | ErrAuthenticationFailed

definition httpMapper_Map :: "verify_error option \<Rightarrow> (http_code \<times> string) option" where
  "httpMapper_Map error =
     (case RefusalDescription error of
        None \<Rightarrow> None
      | Some msg \<Rightarrow>
          if (case error of Some err \<Rightarrow> is_insufficient err | None \<Rightarrow> False) then Some (ErrUserIsNotAuthorized, msg)
          else Some (ErrAuthenticationFailed, msg))"

datatype grpc_code = PermissionDenied | Unauthenticated | Internal

definition grpcMapper_Map :: "verify_error option \<Rightarrow> grpc_code option" where
  "grpcMapper_Map error =
     (case RefusalDescription error of
        None \<Rightarrow> None
      | Some _ \<Rightarrow> if (case error of Some err \<Rightarrow> is_insufficient err | None \<Rightarrow> False) then Some PermissionDenied else Some Unauthenticated)"

subsection \<open>grpc/interceptor.go\<close>

text \<open>The status an error is answered with: its code and message, the name of the code when there is none.\<close>

definition Refusal :: "verify_error option \<Rightarrow> (grpc_code \<times> string) option" where
  "Refusal error =
     (case error of
        None \<Rightarrow> None
      | Some err \<Rightarrow>
          (let code = (case grpcMapper_Map (Some err) of Some c \<Rightarrow> c | None \<Rightarrow> Internal);
               description = (case RefusalDescription (Some err) of Some d \<Rightarrow> d | None \<Rightarrow> [])
           in Some (code, if description = [] then (case code of PermissionDenied \<Rightarrow> ''PermissionDenied'' | Unauthenticated \<Rightarrow> ''Unauthenticated'' | Internal \<Rightarrow> ''Internal'')
                          else description)))"

definition BearerFromIncoming :: "string list \<Rightarrow> string" where
  "BearerFromIncoming values = (case values of [] \<Rightarrow> [] | value # _ \<Rightarrow> BearerFromAuthorization value)"

definition verify_grpc :: "oauth_env \<Rightarrow> Verifier \<Rightarrow> string list \<Rightarrow> string list \<Rightarrow> ((grpc_code \<times> string) option + AccessToken) prog" where
  "verify_grpc env v required values =
     bind_prog (Verify env v (BearerFromIncoming values) required) (\<lambda>r. case r of
       Inl err \<Rightarrow> Ret (Inl (Refusal (Some err)))
     | Inr token \<Rightarrow> Ret (Inr token))"

subsection \<open>mcp/mcp.go\<close>

record TokenInfo =
  ti_Scopes :: "string list"
  ti_Expiration :: gotime
  ti_UserID :: string
  ti_Extra :: "(string, AccessToken) gomap"

definition ExtraAccessToken :: string where "ExtraAccessToken = ''oauth2server.access_token''"

definition tokenInfo :: "AccessToken \<Rightarrow> TokenInfo" where
  "tokenInfo token =
     \<lparr>ti_Scopes = at_Scopes token, ti_Expiration = at_ExpiresAt token, ti_UserID = su_ID (at_Subject token),
      ti_Extra = [(ExtraAccessToken, token)]\<rparr>"

definition AccessTokenFrom :: "TokenInfo option \<Rightarrow> AccessToken option" where
  "AccessTokenFrom info = (case info of None \<Rightarrow> None | Some i \<Rightarrow> mget (ti_Extra i) ExtraAccessToken)"

definition refused_mcp :: "verify_error \<Rightarrow> bool" where
  "refused_mcp err \<longleftrightarrow> err = ErrNoBearerToken \<or> is_unusable err \<or> err = ErrTokenAudienceMismatch \<or> is_insufficient err"

text \<open>A refusal is the SDK's \<^verbatim>\<open>ErrInvalidToken\<close> joined with the error, which the flag says.\<close>

definition TokenVerifier_mcp :: "oauth_env \<Rightarrow> Verifier \<Rightarrow> string \<Rightarrow> ((bool \<times> verify_error) + TokenInfo) prog" where
  "TokenVerifier_mcp env v bearer =
     bind_prog (Verify env v bearer []) (\<lambda>r. case r of
       Inl err \<Rightarrow> Ret (Inl (refused_mcp err, err))
     | Inr token \<Rightarrow> Ret (Inr (tokenInfo token)))"

subsection \<open>Facts\<close>

text \<open>The three transports agree on which errors are refusals, and on which of them is a denial.\<close>

lemma refusal_iff: "RefusalDescription (Some err) \<noteq> None \<longleftrightarrow> refused_mcp err"
  by (auto simp: RefusalDescription_def refused_mcp_def)

lemma mappers_agree:
  "httpMapper_Map (Some err) = None \<longleftrightarrow> \<not> refused_mcp err"
  "grpcMapper_Map (Some err) = None \<longleftrightarrow> \<not> refused_mcp err"
  "(\<exists>msg. httpMapper_Map (Some err) = Some (ErrUserIsNotAuthorized, msg)) \<longleftrightarrow> is_insufficient err"
  "grpcMapper_Map (Some err) = Some PermissionDenied \<longleftrightarrow> is_insufficient err"
  using refusal_iff [of err]
  by (auto simp: httpMapper_Map_def grpcMapper_Map_def refused_mcp_def is_insufficient_def is_unusable_def RefusalDescription_def split: verify_error.splits)

lemma challengeFor_status:
  "fst (challengeFor env v err) = (if is_insufficient err then 403 else if refused_mcp err then 401 else 500)"
  "snd (challengeFor env v err) = [] \<longleftrightarrow> \<not> refused_mcp err"
  by (auto simp: challengeFor_def refused_mcp_def is_insufficient_def is_unusable_def StatusForbidden_def StatusUnauthorized_def
    StatusInternalServerError_def Challenge_def ScopeChallenge_def challenge_def split: verify_error.splits)

end
