(* ===== verification/OAuthFlows.thy ===== *)
theory OAuthFlows
  imports OAuthWorld OAuthVerifier
begin

text \<open>
  What the clients of the authorization server and its resource servers can rely on, and the traces of a whole flow: a client
  registers, a code is granted, it is redeemed, and the token is verified.
\<close>

subsection \<open>Computing runs\<close>

lemma minted_code [code]: "minted env es d = list_ex (\<lambda>e. case e of EvMint (Some v) \<Rightarrow> Hash env v = d | _ \<Rightarrow> False) es"
proof (induction es)
  case (Cons e es)
  have "minted env (e # es) d \<longleftrightarrow> (case e of EvMint (Some v) \<Rightarrow> Hash env v = d | _ \<Rightarrow> False) \<or> minted env es d"
    by (auto simp: minted_def split: event.split option.split)
  with Cons show ?case by simp
qed (simp add: minted_def)

subsection \<open>Traces\<close>

lemma after_bind: "after p es = Some (Ret a) \<Longrightarrow> after (bind_prog p g) (es @ es') = after (g a) es'"
proof (induction es arbitrary: p)
  case (Cons e es)
  then obtain p1 where "feed p e = Some p1" "after p1 es = Some (Ret a)" by (auto split: option.splits)
  moreover from this have "feed (bind_prog p g) e = Some (bind_prog p1 g)"
    by (cases p) (auto split: event.splits store_event.splits if_splits)
  ultimately show ?case using Cons.IH by simp
qed simp

lemma authenticateClient_shape:
  "(\<exists>e. authenticateClient env req = Ret (Inl e)) \<or> (\<exists>k h. authenticateClient env req = GetClient k h \<and> (\<forall>x. \<exists>y. h x = Ret y))"
proof -
  obtain u p where "(case rq_BasicAuth req of Some (u, p) \<Rightarrow> (u, p) | None \<Rightarrow> (Form_Get req ''client_id'', Form_Get req ''client_secret'')) = (u, p)"
    by (rule prod.exhaust)
  then show ?thesis by (cases "u = []") (auto simp: authenticateClient_def split: sum.split)
qed

fun performs_all :: "'s store_ops \<Rightarrow> gotime \<Rightarrow> event list \<Rightarrow> 's \<Rightarrow> 's option" where
  "performs_all ops t [] s = Some s"
| "performs_all ops t (e # es) s = (case performs ops t e s of None \<Rightarrow> None | Some s' \<Rightarrow> performs_all ops t es s')"

fun fresh_log :: "oauth_env \<Rightarrow> event list list \<Rightarrow> event list \<Rightarrow> event list \<Rightarrow> bool" where
  "fresh_log env logs es [] = True"
| "fresh_log env logs es (e # es') \<longleftrightarrow>
     (case e of
        EvMint (Some v) \<Rightarrow> list_all (\<lambda>l. \<not> minted env l (Hash env v)) (es # logs)
      | EvNewFamily f \<Rightarrow> f \<noteq> [] \<and> list_all (\<lambda>l. EvNewFamily f \<notin> set l) (es # logs)
      | _ \<Rightarrow> True) \<and> fresh_log env logs (es @ [e]) es'"

text \<open>A request that is served by the calls \<open>es\<close>, all at one time.\<close>

definition served :: "oauth_env \<Rightarrow> Server \<Rightarrow> 's store_ops \<Rightarrow> gotime \<Rightarrow> endpoint \<Rightarrow> event list \<Rightarrow> response prog \<Rightarrow> 's world \<Rightarrow> 's world \<Rightarrow> bool" where
  "served env srv ops t ep es p w w' \<longleftrightarrow>
     after (serve env srv ep) es = Some p \<and> performs_all ops t es (wd_store w) = Some (wd_store w') \<and>
     wd_threads w' = wd_threads w @ [\<lparr>th_prog = p, th_log = es\<rparr>] \<and> fresh_log env (map th_log (wd_threads w)) [] es \<and> 1000 \<le> t"

lemma calls_run:
  assumes "after p es' = Some q" and "performs_all ops t es' s = Some s'" and "fresh_log env (map th_log (pre @ post)) es es'" and "1000 \<le> t"
  shows "world_run env srv ops \<lparr>wd_store = s, wd_threads = pre @ \<lparr>th_prog = p, th_log = es\<rparr> # post\<rparr>
    \<lparr>wd_store = s', wd_threads = pre @ \<lparr>th_prog = q, th_log = es @ es'\<rparr> # post\<rparr>"
  using assms
proof (induction es' arbitrary: p s es)
  case (Cons e es')
  let ?w = "\<lparr>wd_store = s, wd_threads = pre @ \<lparr>th_prog = p, th_log = es\<rparr> # post\<rparr>"
  obtain p1 s1 where 1: "feed p e = Some p1" "performs ops t e s = Some s1" "after p1 es' = Some q" "performs_all ops t es' s1 = Some s'"
    using Cons.prems(1,2) by (auto split: option.splits)
  have "fresh env (wd_threads ?w) e" using Cons.prems(3) by (auto simp: fresh_def list_all_iff split: event.splits option.splits)
  then have "thread_call env ops (length pre) e ?w \<lparr>wd_store = s1, wd_threads = pre @ \<lparr>th_prog = p1, th_log = es @ [e]\<rparr> # post\<rparr>"
    using thread_call.intros [of "length pre" ?w e p1 t ops s1 env] 1 Cons.prems(4) by simp
  moreover have "world_run env srv ops \<lparr>wd_store = s1, wd_threads = pre @ \<lparr>th_prog = p1, th_log = es @ [e]\<rparr> # post\<rparr>
      \<lparr>wd_store = s', wd_threads = pre @ \<lparr>th_prog = q, th_log = (es @ [e]) @ es'\<rparr> # post\<rparr>"
    using Cons.IH [OF 1(3,4), of "es @ [e]"] Cons.prems(3,4) unfolding fresh_log.simps by blast
  ultimately show ?case using run_trans world_run.intros world_step.call by (metis append.assoc append_Cons append_Nil)
qed (simp add: world_run.here)

lemma served_run:
  assumes "served env srv ops t ep es p w w'"
  shows "world_run env srv ops w w'"
proof -
  note s = assms [unfolded served_def]
  have "world_step env srv ops w \<lparr>wd_store = wd_store w, wd_threads = wd_threads w @ [\<lparr>th_prog = serve env srv ep, th_log = []\<rparr>]\<rparr>"
    using world_step.arrive [of env srv ops w ep] by (cases w) simp
  moreover have "world_run env srv ops \<lparr>wd_store = wd_store w, wd_threads = wd_threads w @ [\<lparr>th_prog = serve env srv ep, th_log = []\<rparr>]\<rparr> w'"
    using calls_run [of "serve env srv ep" es p ops t "wd_store w" "wd_store w'" env "wd_threads w" "[]" "[]" srv] s by (cases w') simp
  ultimately show ?thesis using run_trans world_run.intros by metis
qed

text \<open>The traces of the requests that succeed.\<close>

definition registered_client :: "Server \<Rightarrow> RegistrationRequest \<Rightarrow> gotime \<Rightarrow> string \<Rightarrow> Client" where
  "registered_client srv request t v =
     \<lparr>cl_CreatedAt = store_now t, cl_ExpiresAt = (if srv_registrationTTL srv > 0 then store_now t + srv_registrationTTL srv else 0),
      cl_ID = v, cl_SecretHash = [], cl_Name = rr_ClientName request, cl_TokenEndpointAuthMethod = AuthMethodNone,
      cl_RedirectURIs = rr_RedirectURIs request, cl_GrantTypes = narrowGrantTypes (rr_GrantTypes request),
      cl_ResponseTypes = [ResponseTypeCode], cl_Scopes = narrowScopes srv (rr_Scope request)\<rparr>"

lemma register_trace:
  assumes "srv_dynamicRegistration srv" and "rq_Body req = Decoded request" and "srv_policy srv (Some request) = None"
    and "rr_TokenEndpointAuthMethod request = AuthMethodNone"
  shows "\<exists>r. after (registerHandler env srv req)
      [EvMint (Some v), EvClock t, Store (EvCreateClient (registered_client srv request t v) None), EvCount ClientsRegistered 1] = Some (Ret (ClientJSON r)) \<and>
      rp_ClientID r = v"
  using assms
  by (simp add: registerHandler_def register_def mintCredential_def read_now_def store_client_def registered_client_def Let_def AuthMethodNone_def)

text \<open>What a request for a code asks, once the client is known, and the code it is granted.\<close>

definition asks :: "http_request \<Rightarrow> Client \<Rightarrow> authorizeRequest" where
  "asks req client =
     \<lparr>ar_client = client, ar_redirectURI = Form_Get req ''redirect_uri'', ar_state = Form_Get req ''state'', ar_nonce = Form_Get req ''nonce'',
      ar_codeChallenge = Form_Get req ''code_challenge'', ar_scopes = splitScopes (Form_Get req ''scope''), ar_resources = form_values req ''resource''\<rparr>"

definition granted_code :: "oauth_env \<Rightarrow> Server \<Rightarrow> http_request \<Rightarrow> Client \<Rightarrow> Subject \<Rightarrow> gotime \<Rightarrow> string \<Rightarrow> string \<Rightarrow> AuthorizationCode" where
  "granted_code env srv req client su t v f =
     \<lparr>ac_IssuedAt = store_now t, ac_ExpiresAt = store_now t + srv_codeTTL srv, ac_RedeemedAt = 0, ac_Hash = Hash env v,
      ac_ClientID = cl_ID client, ac_FamilyID = f, ac_RedirectURI = Form_Get req ''redirect_uri'',
      ac_CodeChallenge = Form_Get req ''code_challenge'', ac_Nonce = Form_Get req ''nonce'', ac_Subject = su,
      ac_Scopes = splitScopes (Form_Get req ''scope''), ac_Resources = form_values req ''resource''\<rparr>"

definition authorize_calls :: "oauth_env \<Rightarrow> Server \<Rightarrow> http_request \<Rightarrow> Client \<Rightarrow> Subject \<Rightarrow> gotime \<Rightarrow> string \<Rightarrow> string \<Rightarrow> event list" where
  "authorize_calls env srv req client su t v f =
     [Store (EvGetClient (Form_Get req ''client_id'') (Inr client)), EvResolve (Inr (Some su)), EvMint (Some v), EvClock t, EvNewFamily f,
      Store (EvCreateCode (granted_code env srv req client su t v f) None), EvCount CodesIssued 1]"

text \<open>A request that asks for a code in order, at a server that can resolve its user.\<close>

definition good_request :: "oauth_env \<Rightarrow> Server \<Rightarrow> http_request \<Rightarrow> Client \<Rightarrow> bool" where
  "good_request env srv req client \<longleftrightarrow>
     rq_Form req \<noteq> None \<and> Form_Get req ''client_id'' \<noteq> [] \<and> Form_Get req ''redirect_uri'' \<noteq> [] \<and>
     Form_Get req ''redirect_uri'' \<in> set (cl_RedirectURIs client) \<and> oe_url_Parse env (Form_Get req ''redirect_uri'') \<noteq> None \<and>
     srv_resolver srv \<and> validateAuthorizeRequest srv req (asks req client) = None"

lemma authorize_trace:
  assumes "good_request env srv req client" and "su_ID su \<noteq> []"
  shows "\<exists>params. after (AuthorizeHandler env srv req) (authorize_calls env srv req client su t v f) =
      Some (Ret (FoundAt (Form_Get req ''redirect_uri'') ((''code'', v) # params)))"
proof -
  note g = assms(1) [unfolded good_request_def]
  obtain u where u: "oe_url_Parse env (Form_Get req ''redirect_uri'') = Some u" using g by blast
  have "after (resolveAuthorizeRequest req) [Store (EvGetClient (Form_Get req ''client_id'') (Inr client))] = Some (Ret (Inr (asks req client)))"
    using g by (simp add: resolveAuthorizeRequest_def Let_def asks_def)
  then have 1: "after (AuthorizeHandler env srv req) ([Store (EvGetClient (Form_Get req ''client_id'') (Inr client))] @ es) = after (authorize_owner env srv req (asks req client)) es" for es
    using g unfolding AuthorizeHandler_def by (subst if_not_P) (simp, subst after_bind, assumption, simp)
  have 2: "after (authorize_owner env srv req (asks req client)) ([EvResolve (Inr (Some su))] @ es) = after (issueCode env srv (asks req client) su) es" for es
    using g assms(2) unfolding authorize_owner_def by (subst after_bind [where a = "Inr (Some su)"]) (simp_all add: resolveSubject_def)
  show ?thesis
    using 1 [of "tl (authorize_calls env srv req client su t v f)"] 2 [of "tl (tl (authorize_calls env srv req client su t v f))"] u
    by (simp add: authorize_calls_def issueCode_def mintCredential_def read_now_def redirect_def granted_code_def asks_def)
qed

text \<open>A request of a public client that redeems a code with its verifier, and the pair it is issued.\<close>

definition redeeming :: "http_request \<Rightarrow> Client \<Rightarrow> bool" where
  "redeeming req client \<longleftrightarrow>
     rq_Form req \<noteq> None \<and> rq_BasicAuth req = None \<and> Form_Get req ''client_id'' = cl_ID client \<and> cl_ID client \<noteq> [] \<and> Form_Get req ''client_secret'' = [] \<and>
     Public client \<and> Form_Get req ''grant_type'' = GrantTypeAuthorizationCode \<and> clientAllows (cl_GrantTypes client) GrantTypeAuthorizationCode \<and>
     Form_Get req ''code'' \<noteq> [] \<and> validCodeVerifier (Form_Get req ''code_verifier'')"

definition meets :: "oauth_env \<Rightarrow> http_request \<Rightarrow> Client \<Rightarrow> AuthorizationCode \<Rightarrow> bool" where
  "meets env req client code \<longleftrightarrow>
     ac_ClientID code = cl_ID client \<and> Form_Get req ''redirect_uri'' = ac_RedirectURI code \<and>
     VerifyPKCE env (Form_Get req ''code_verifier'') (ac_CodeChallenge code) \<and> ac_FamilyID code \<noteq> []"

definition issued_access :: "oauth_env \<Rightarrow> Server \<Rightarrow> AuthorizationCode \<Rightarrow> gotime \<Rightarrow> string \<Rightarrow> AccessToken" where
  "issued_access env srv code t v =
     \<lparr>at_IssuedAt = store_now t, at_ExpiresAt = store_now t + srv_accessTTL srv, at_RevokedAt = 0, at_Hash = Hash env v,
      at_ClientID = ac_ClientID code, at_FamilyID = ac_FamilyID code, at_Subject = ac_Subject code, at_Scopes = ac_Scopes code,
      at_Audience = audienceFor (ac_Resources code)\<rparr>"

definition issued_refresh :: "oauth_env \<Rightarrow> Server \<Rightarrow> AuthorizationCode \<Rightarrow> gotime \<Rightarrow> string \<Rightarrow> RefreshToken" where
  "issued_refresh env srv code t v =
     \<lparr>rt_IssuedAt = store_now t, rt_ExpiresAt = store_now t + srv_refreshTTL srv, rt_RedeemedAt = 0, rt_RevokedAt = 0, rt_Hash = Hash env v,
      rt_ClientID = ac_ClientID code, rt_FamilyID = ac_FamilyID code, rt_Subject = ac_Subject code, rt_Scopes = ac_Scopes code,
      rt_Audience = audienceFor (ac_Resources code), rt_Resources = ac_Resources code\<rparr>"

definition issued_response :: "oauth_env \<Rightarrow> Server \<Rightarrow> AuthorizationCode \<Rightarrow> string \<Rightarrow> string \<Rightarrow> TokenResponse" where
  "issued_response env srv code v v' =
     \<lparr>tr_AccessToken = v, tr_TokenType = TokenTypeBearer, tr_RefreshToken = v', tr_Scope = joinScopes (ac_Scopes code), tr_ExpiresIn = oe_Seconds env (srv_accessTTL srv)\<rparr>"

definition issue_calls :: "oauth_env \<Rightarrow> Server \<Rightarrow> AuthorizationCode \<Rightarrow> gotime \<Rightarrow> string \<Rightarrow> string \<Rightarrow> event list" where
  "issue_calls env srv code t v v' =
     [EvClock t, EvMint (Some v), Store (EvCreateAccess (issued_access env srv code t v) None), EvMint (Some v'),
      Store (EvCreateRefresh (issued_refresh env srv code t v') None), EvCount TokensIssued 1]"

definition redeem_calls :: "oauth_env \<Rightarrow> http_request \<Rightarrow> Client \<Rightarrow> AuthorizationCode consumed \<Rightarrow> event list" where
  "redeem_calls env req client r = [Store (EvGetClient (cl_ID client) (Inr client)), Store (EvConsumeCode (Hash env (Form_Get req ''code'')) r)]"

lemma issue_trace:
  "after (issueTokenPair env srv (ac_ClientID code) (ac_FamilyID code) (ac_Subject code) (ac_Scopes code) (audienceFor (ac_Resources code)) (ac_Resources code))
     (issue_calls env srv code t v v') = Some (Ret (Inr (issued_response env srv code v v')))"
  by (simp add: issueTokenPair_def issue_calls_def read_now_def mintCredential_def issued_access_def issued_refresh_def issued_response_def)

lemma client_trace:
  assumes "redeeming req client"
  shows "after (TokenHandler env srv req) ([Store (EvGetClient (cl_ID client) (Inr client))] @ es) =
    after (bind_prog (grantAuthorizationCode env srv req client) (\<lambda>r'. case r' of Inl perr \<Rightarrow> Ret (writeProtocolError perr) | Inr response \<Rightarrow> Ret (TokenJSON response))) es"
proof -
  note r = assms [unfolded redeeming_def]
  have "after (authenticateClient env req) [Store (EvGetClient (cl_ID client) (Inr client))] = Some (Ret (Inr client))"
    using r by (simp add: authenticateClient_def)
  then show ?thesis using r unfolding TokenHandler_def by (subst if_not_P) (simp, subst after_bind, assumption, simp add: Let_def)
qed

lemma token_trace:
  assumes "redeeming req client" and "meets env req client code"
  shows "after (TokenHandler env srv req) (redeem_calls env req client (Consumed code) @ issue_calls env srv code t v v') =
    Some (Ret (TokenJSON (issued_response env srv code v v')))"
proof -
  note r = assms [unfolded redeeming_def meets_def]
  let ?e = "Store (EvConsumeCode (Hash env (Form_Get req ''code'')) (Consumed code))"
  have "after (grantAuthorizationCode env srv req client) (?e # issue_calls env srv code t v v') =
      after (bind_prog (issueTokenPair env srv (ac_ClientID code) (ac_FamilyID code) (ac_Subject code) (ac_Scopes code) (audienceFor (ac_Resources code)) (ac_Resources code))
        (\<lambda>response. case response of Inl e \<Rightarrow> Ret (Inl (issue_failed e)) | Inr tr \<Rightarrow> Ret (Inr tr))) (issue_calls env srv code t v v' @ [])"
    using r by (simp add: grantAuthorizationCode_def)
  also have "\<dots> = Some (Ret (Inr (issued_response env srv code v v')))"
    by (subst after_bind [OF issue_trace]) simp
  finally have "after (bind_prog (grantAuthorizationCode env srv req client) (\<lambda>r'. case r' of Inl perr \<Rightarrow> Ret (writeProtocolError perr) | Inr response \<Rightarrow> Ret (TokenJSON response)))
      ((?e # issue_calls env srv code t v v') @ []) = Some (Ret (TokenJSON (issued_response env srv code v v')))"
    by (subst after_bind) (assumption, simp)
  then show ?thesis using client_trace [OF assms(1), of env srv "?e # issue_calls env srv code t v v'"] by (simp add: redeem_calls_def)
qed

text \<open>The replay of a code, up to the call that revokes its family.\<close>

lemma replay_trace:
  assumes "redeeming req client" and "ac_FamilyID code \<noteq> []"
  shows "\<exists>k. after (TokenHandler env srv req) (redeem_calls env req client (Refused ErrAlreadyRedeemed (Some code)) @ [EvCount ReuseDetected 1]) =
    Some (RevokeFamily (ac_FamilyID code) k)"
proof -
  let ?e = "Store (EvConsumeCode (Hash env (Form_Get req ''code'')) (Refused ErrAlreadyRedeemed (Some code)))"
  have "\<exists>k. after (bind_prog (grantAuthorizationCode env srv req client) g) [?e, EvCount ReuseDetected 1] = Some (RevokeFamily (ac_FamilyID code) k)"
    for g :: "protocolError + TokenResponse \<Rightarrow> response prog"
    using assms by (simp add: grantAuthorizationCode_def redeeming_def codeRedemptionError_def handleCodeReplay_def revokeFamily_def)
  then show ?thesis using client_trace [OF assms(1), of env srv "[?e, EvCount ReuseDetected 1]"] by (simp add: redeem_calls_def)
qed

subsection \<open>Runs on the store in memory\<close>

definition start :: "mem_store world" where
  "start = new_world NewStore"

lemma start_inv: "mem_ok (wd_store start) \<and> server_inv env srv (mem_view (wd_store start)) start"
  unfolding start_def by (auto simp: new_world_def NewStore_def mem_view_def mget_def fun_eq_iff mem_ok_def is_map_def intro!: server_inv_new [unfolded new_world_def])

lemma reachable_inv:
  assumes "world_run env srv mem_ops start w"
  shows "mem_ok (wd_store w) \<and> server_inv env srv (mem_view (wd_store w)) w"
  using mst.run_inv [OF assms] start_inv by blast

lemma guarded_creation:
  assumes "world_inv env srv (log_of w) l" and "occurs (log_of w) e"
  shows "\<exists>th \<in> set (wd_threads w). \<exists>es es'. th_log th = es @ e # es' \<and> guard env srv es e"
proof -
  obtain i where i: "e \<in> set (log_of w i)" using assms(2) by (auto simp: occurs_def)
  have "guarded env srv (log_of w i)" using assms(1) by (simp add: world_inv_def)
  from guarded_split [OF this i] obtain es es' where "log_of w i = es @ e # es'" "guard env srv es e" by blast
  moreover have "i < length (wd_threads w)" using i by (auto simp: log_of_def split: if_splits)
  ultimately show ?thesis by (metis log_of_def nth_mem)
qed

text \<open>The thread that created a token, and the one that created the code the token goes back to.\<close>

definition provenance :: "oauth_env \<Rightarrow> Server \<Rightarrow> 's world \<Rightarrow> AccessToken \<Rightarrow> bool" where
  "provenance env srv w a \<longleftrightarrow>
     (\<exists>issuer \<in> set (wd_threads w). \<exists>es es' a0.
        th_log issuer = es @ Store (EvCreateAccess a0 None) # es' \<and> access_terms a0 = access_terms a \<and> token_granted env es (access_terms a)) \<and>
     (\<exists>granter \<in> set (wd_threads w). \<exists>es es' c.
        th_log granter = es @ Store (EvCreateCode c None) # es' \<and> code_granted env srv es c \<and>
        within (code_terms c) (access_terms a) \<and> at_FamilyID a = ac_FamilyID c \<and> code_spent (log_of w) (ac_Hash c))"

lemma stored_provenance:
  assumes inv: "server_inv env srv l w" and "lg_access l h = Some a"
  shows "provenance env srv w a"
proof -
  note wi = inv [unfolded server_inv_def]
  obtain a0 where a0: "occurs (log_of w) (Store (EvCreateAccess a0 None))" "access_terms a0 = access_terms a"
    using wi assms(2) unfolding world_inv_def access_logged_def access_created_def by blast
  from guarded_creation [OF _ a0(1)] wi obtain issuer es es' where issuer: "issuer \<in> set (wd_threads w)"
    "th_log issuer = es @ Store (EvCreateAccess a0 None) # es'" "guard env srv es (Store (EvCreateAccess a0 None))" by blast
  have "rooted (log_of w) (access_terms a)" using wi a0 unfolding tokens_rooted_def by metis
  then obtain c where c: "root (log_of w) c" "within (code_terms c) (access_terms a)" by (auto simp: rooted_def)
  then have fam: "at_FamilyID a = ac_FamilyID c" using root_family_nonempty [of env srv "log_of w"] wi by (fastforce simp: within_def)
  from guarded_creation [of env srv w l "Store (EvCreateCode c None)"] wi c(1) obtain granter fs fs' where granter: "granter \<in> set (wd_threads w)"
    "th_log granter = fs @ Store (EvCreateCode c None) # fs'" "guard env srv fs (Store (EvCreateCode c None))" unfolding root_def by blast
  have "\<exists>issuer \<in> set (wd_threads w). \<exists>es es' a0.
      th_log issuer = es @ Store (EvCreateAccess a0 None) # es' \<and> access_terms a0 = access_terms a \<and> token_granted env es (access_terms a)"
    using issuer a0(2) by (intro bexI [of _ issuer] exI [of _ es] exI [of _ es'] exI [of _ a0]) auto
  moreover have "\<exists>granter \<in> set (wd_threads w). \<exists>es es' c.
      th_log granter = es @ Store (EvCreateCode c None) # es' \<and> code_granted env srv es c \<and>
      within (code_terms c) (access_terms a) \<and> at_FamilyID a = ac_FamilyID c \<and> code_spent (log_of w) (ac_Hash c)"
    using granter c fam by (intro bexI [of _ granter] exI [of _ fs] exI [of _ fs'] exI [of _ c]) (auto simp: root_def)
  ultimately show ?thesis unfolding provenance_def by blast
qed

subsection \<open>Counting\<close>

definition times :: "(event \<Rightarrow> bool) \<Rightarrow> 's world \<Rightarrow> nat" where
  "times P w = length (filter P (concat (map th_log (wd_threads w))))"

lemma guarded_one:
  assumes "guarded env srv es" and "\<And>fs e. guard env srv fs e \<Longrightarrow> P e \<Longrightarrow> \<not> list_ex P fs"
  shows "length (filter P es) \<le> 1"
  using assms(1)
proof (induction es rule: rev_induct)
  case (snoc e es)
  have "filter P es = []" if "P e" using snoc.prems assms(2) [of es e] that by (auto simp: guarded_snoc list_ex_iff filter_empty_conv)
  then show ?case using snoc by (auto simp: guarded_snoc)
qed simp

lemma guarded_consumes: "guarded env srv es \<Longrightarrow> length (filter consumes es) \<le> 1"
  by (rule guarded_one) (auto elim: consumes.elims)

lemma filter_weaken: "(\<And>e. P e \<Longrightarrow> Q e) \<Longrightarrow> length (filter P es) \<le> length (filter Q es)"
  by (induction es) (auto simp: le_Suc_eq)

lemma sum_one:
  "(\<And>i. i < length xss \<Longrightarrow> length (filter P (xss ! i)) \<le> 1) \<Longrightarrow>
   (\<And>i j. i < length xss \<Longrightarrow> j < length xss \<Longrightarrow> filter P (xss ! i) \<noteq> [] \<Longrightarrow> filter P (xss ! j) \<noteq> [] \<Longrightarrow> i = j) \<Longrightarrow>
   length (filter P (concat xss)) \<le> 1"
proof (induction xss)
  case (Cons xs xss)
  have IH: "length (filter P (concat xss)) \<le> 1"
  proof (rule Cons.IH)
    show "length (filter P (xss ! i)) \<le> 1" if "i < length xss" for i using Cons.prems(1) [of "Suc i"] that by simp
    show "i = j" if "i < length xss" "j < length xss" "filter P (xss ! i) \<noteq> []" "filter P (xss ! j) \<noteq> []" for i j
      using Cons.prems(2) [of "Suc i" "Suc j"] that by simp
  qed
  have "filter P (concat xss) = []" if "filter P xs \<noteq> []"
  proof -
    have "filter P (xss ! i) = []" if "i < length xss" for i
      using Cons.prems(2) [of 0 "Suc i"] that \<open>filter P xs \<noteq> []\<close> by auto
    then show ?thesis by (simp add: filter_concat) (metis in_set_conv_nth)
  qed
  then show ?case using IH Cons.prems(1) [of 0] by (cases "filter P xs = []") auto
qed simp

lemma spent_times:
  assumes inv: "server_inv env srv l w" and "in_one_log P (log_of w)" and "\<And>e. P e \<Longrightarrow> consumes e"
  shows "times P w \<le> 1"
  unfolding times_def
proof (rule sum_one)
  fix i assume i: "i < length (map th_log (wd_threads w))"
  then have "guarded env srv (map th_log (wd_threads w) ! i)" using inv by (auto simp: server_inv_def world_inv_def log_of_def dest: spec [of _ i])
  from guarded_consumes [OF this] filter_weaken [of P consumes] assms(3)
  show "length (filter P (map th_log (wd_threads w) ! i)) \<le> 1" using le_trans by blast
next
  fix i j assume "i < length (map th_log (wd_threads w))" "j < length (map th_log (wd_threads w))"
    "filter P (map th_log (wd_threads w) ! i) \<noteq> []" "filter P (map th_log (wd_threads w) ! j) \<noteq> []"
  then show "i = j" using assms(2) unfolding in_one_log_def by (fastforce simp: log_of_def filter_empty_conv)
qed

lemma spends_consumes: "spends_code h e \<Longrightarrow> consumes e" "spends_refresh h e \<Longrightarrow> consumes e"
  by (auto elim!: spends_code.elims spends_refresh.elims)

lemma thread_guarded: "server_inv env srv l w \<Longrightarrow> th \<in> set (wd_threads w) \<Longrightarrow> guarded env srv (th_log th)"
  by (auto simp: server_inv_def world_inv_def log_of_def in_set_conv_nth) metis

lemma pair_once:
  assumes "guarded env srv es"
  shows "length (filter creates_access es) \<le> 1 \<and> length (filter creates_refresh es) \<le> 1 \<and> length (filter consumes es) \<le> 1"
proof -
  have "\<not> list_ex creates_access fs" if "guard env srv fs e" "creates_access e" for fs e
    using that by (auto elim!: creates_access.elims)
  moreover have "\<not> list_ex creates_refresh fs" if "guard env srv fs e" "creates_refresh e" for fs e
    using that by (auto elim!: creates_refresh.elims)
  ultimately show ?thesis using guarded_consumes [OF assms] guarded_one [OF assms] by blast
qed

lemma pair_paid:
  assumes "guarded env srv es" and "list_ex creates_access es \<or> list_ex creates_refresh es"
  shows "redeemed es \<noteq> None"
  using assms
proof (induction es rule: rev_induct)
  case (snoc e es)
  have "redeemed es \<noteq> None" if "creates_access e \<or> creates_refresh e"
    using that snoc.prems(1) by (auto simp: guarded_snoc token_granted_def elim!: creates_access.elims creates_refresh.elims)
  then show ?case using snoc by (auto simp: guarded_snoc split: option.splits)
qed simp

subsection \<open>What a resource server sees\<close>

lemma after_Ret: "after (Ret a) es = Some p \<longleftrightarrow> es = [] \<and> p = Ret a"
  by (cases es) auto

lemma feed_GetAccess: "feed (GetAccessToken h k) e = Some p \<longleftrightarrow> (\<exists>r. e = Store (EvGetAccess h r) \<and> p = k r)"
  by (auto split: event.splits store_event.splits if_splits)

lemma after_Count: "after (Count m n (Ret a)) es = Some (Ret b) \<longleftrightarrow> es = [EvCount m n] \<and> b = a"
proof (cases es)
  case (Cons e fs)
  then show ?thesis by (cases e) (auto simp: after_Ret)
qed auto

lemma Verify_ok:
  assumes "after (Verify env v bearer scopes) es = Some (Ret (Inr token))"
  shows "es = [Store (EvGetAccess (Hash env bearer) (Inr token))] \<and> vf_resource v \<in> set (at_Audience token) \<and> set scopes \<subseteq> set (at_Scopes token)"
proof -
  have "TrimSpace bearer \<noteq> []" using assms by (auto simp: Verify_def after_Ret)
  then have "bearer \<noteq> []" by (auto simp: TrimSpace_visible)
  let ?K = "\<lambda>r. case r of Inl err \<Rightarrow> Ret (Inl (TokenFailure err))
      | Inr a \<Rightarrow> if vf_resource v \<notin> set (at_Audience a) then Count AudienceRejections 1 (Ret (Inl ErrTokenAudienceMismatch))
        else if \<not> HasScopes (at_Scopes a) scopes then Ret (Inl (ScopeError scopes)) else Ret (Inr a)"
  have V: "Verify env v bearer scopes = GetAccessToken (Hash env bearer) ?K"
    using \<open>bearer \<noteq> []\<close> \<open>TrimSpace bearer \<noteq> []\<close> by (simp add: Verify_def Authenticate_srv_def)
  obtain e es' p where es: "es = e # es'" "feed (Verify env v bearer scopes) e = Some p" "after p es' = Some (Ret (Inr token))"
    using assms V by (cases es) (auto split: option.splits)
  then obtain r where r: "e = Store (EvGetAccess (Hash env bearer) r)" "p = ?K r" unfolding V feed_GetAccess by blast
  with es(3) show ?thesis
    by (cases r) (auto simp: es(1) after_Ret after_Count HasScopes_iff simp del: after.simps split: if_splits)
qed

end
