(* ===== verification/OAuthProperties.thy ===== *)
theory OAuthProperties
  imports OAuthFlows
begin

text \<open>
  The properties of the authorization server over its store in memory, with the runs that show their hypotheses can hold, and
  two behaviours its comments do not expect.
\<close>

subsection \<open>A deployment to try them on\<close>

text \<open>The digest is a padding to 32 bytes and every URL parses; one client, one user.\<close>

definition sample_env :: oauth_env where
  "sample_env =
     \<lparr>oe_sha256 = (\<lambda>v. take 32 (v @ replicate 32 CHR ''0'')),
      oe_url_Parse = (\<lambda>u. Some \<lparr>pu_Scheme = ''https'', pu_Host = ''a'', pu_Hostname = ''a'', pu_RawQuery = [], pu_Fragment = [], pu_RawFragment = [], pu_String = u\<rparr>),
      oe_Error = (\<lambda>_. ''rejected''), oe_Seconds = (\<lambda>d. d div 1000000000), oe_Quote = (\<lambda>s. s)\<rparr>"

definition sample_server :: Server where
  "sample_server = (default_server sample_env)\<lparr>srv_resolver := True, srv_issuer := ''https://as''\<rparr>"

definition sample_registration :: RegistrationRequest where
  "sample_registration =
     \<lparr>rr_ClientName = ''app'', rr_TokenEndpointAuthMethod = AuthMethodNone, rr_Scope = [], rr_RedirectURIs = [''https://a/cb''], rr_GrantTypes = [], rr_ResponseTypes = []\<rparr>"

definition sample_request :: "(string \<times> string) list \<Rightarrow> http_request" where
  "sample_request form =
     \<lparr>rq_Method = ''POST'', rq_Form = Some (map (\<lambda>(k, v). (k, [v])) form), rq_BasicAuth = None, rq_RequestURI = ''/'', rq_Body = Decoded sample_registration\<rparr>"

definition sample_verifier :: string where
  "sample_verifier = replicate 43 CHR ''v''"

definition sample_authorize :: http_request where
  "sample_authorize = sample_request
     [(''client_id'', ''client''), (''redirect_uri'', ''https://a/cb''), (''response_type'', ''code''), (''scope'', ''read''),
      (''resource'', ''https://api''), (''code_challenge'', S256Challenge sample_env sample_verifier), (''code_challenge_method'', ''S256'')]"

definition sample_token :: http_request where
  "sample_token = sample_request
     [(''client_id'', ''client''), (''grant_type'', ''authorization_code''), (''code'', ''code''), (''redirect_uri'', ''https://a/cb''),
      (''code_verifier'', sample_verifier)]"

definition sample_client :: Client where
  "sample_client = registered_client sample_server sample_registration 2000 ''client''"

definition sample_subject :: Subject where
  "sample_subject = \<lparr>su_Claims = [], su_ID = ''ann''\<rparr>"

definition sample_code :: AuthorizationCode where
  "sample_code = granted_code sample_env sample_server sample_authorize sample_client sample_subject 2000 ''code'' ''family''"

definition sample_redeemed :: AuthorizationCode where
  "sample_redeemed = sample_code\<lparr>ac_RedeemedAt := 2000\<rparr>"

definition sample_access :: AccessToken where
  "sample_access = issued_access sample_env sample_server sample_redeemed 2000 ''access''"

definition sample_refresh :: RefreshToken where
  "sample_refresh = issued_refresh sample_env sample_server sample_redeemed 2000 ''refresh''"

text \<open>The logs of four requests: registering, granting, redeeming, and replaying up to the revocation.\<close>

definition register_log :: "event list" where
  "register_log = [EvMint (Some ''client''), EvClock 2000, Store (EvCreateClient sample_client None), EvCount ClientsRegistered 1]"

definition grant_log :: "event list" where
  "grant_log = authorize_calls sample_env sample_server sample_authorize sample_client sample_subject 2000 ''code'' ''family''"

definition redeem_log :: "event list" where
  "redeem_log = redeem_calls sample_env sample_token sample_client (Consumed sample_redeemed)"

definition issue_log :: "event list" where
  "issue_log = issue_calls sample_env sample_server sample_redeemed 2000 ''access'' ''refresh''"

definition replay_log :: "event list" where
  "replay_log = redeem_calls sample_env sample_token sample_client (Refused ErrAlreadyRedeemed (Some sample_redeemed)) @ [EvCount ReuseDetected 1]"

lemma sample_policy: "srv_policy sample_server (Some sample_registration) = None"
  by code_simp

lemma sample_sha256: "length (oe_sha256 sample_env v) = 32"
  by (simp add: sample_env_def)

lemma sample_form:
  "Form_Get sample_authorize ''client_id'' = ''client''" "Form_Get sample_authorize ''redirect_uri'' = ''https://a/cb''"
  "Form_Get sample_authorize ''response_type'' = ResponseTypeCode" "Form_Get sample_authorize ''code_challenge_method'' = CodeChallengeMethodS256"
  "Form_Get sample_authorize ''code_challenge'' = S256Challenge sample_env sample_verifier"
  "Form_Get sample_authorize ''scope'' = ''read''" "form_values sample_authorize ''resource'' = [''https://api'']"
  "rq_Form sample_authorize \<noteq> None"
  by (simp_all add: Form_Get_def form_values_def sample_authorize_def sample_request_def mget_def ResponseTypeCode_def CodeChallengeMethodS256_def)

lemma sample_scopes: "splitScopes ''read'' = [''read'']"
  using splitScopes_joinScopes [of "[''read'']"] by (simp add: joinScopes_def visible_def)

lemma sample_token_form:
  "Form_Get sample_token ''client_id'' = ''client''" "Form_Get sample_token ''redirect_uri'' = ''https://a/cb''" "Form_Get sample_token ''client_secret'' = []"
  "Form_Get sample_token ''grant_type'' = GrantTypeAuthorizationCode" "Form_Get sample_token ''code'' = ''code''"
  "Form_Get sample_token ''code_verifier'' = sample_verifier" "rq_Form sample_token \<noteq> None" "rq_BasicAuth sample_token = None"
  by (simp_all add: Form_Get_def form_values_def sample_token_def sample_request_def mget_def GrantTypeAuthorizationCode_def)

lemma sample_asked:
  "''https://a/cb'' \<in> set (cl_RedirectURIs sample_client)" "clientAllows (cl_GrantTypes sample_client) GrantTypeAuthorizationCode"
  "checkScopes sample_server sample_client [''read''] = None" "checkResources sample_server [''https://api''] = None"
  "oe_url_Parse sample_env ''https://a/cb'' \<noteq> None" "srv_resolver sample_server" "S256Challenge sample_env sample_verifier \<noteq> []"
  by code_simp+

lemma sample_good: "good_request sample_env sample_server sample_authorize sample_client"
  using sample_asked S256Challenge_valid [OF sample_sha256, of sample_verifier]
  by (simp add: good_request_def sample_form sample_scopes validateAuthorizeRequest_def asks_def)

lemma sample_verifier_valid: "validCodeVerifier sample_verifier" "sample_verifier \<noteq> []"
  by code_simp+

lemma sample_client_fields: "cl_ID sample_client = ''client''" "Public sample_client"
  by (simp_all add: sample_client_def registered_client_def Public_def)

lemma sample_redeeming: "redeeming sample_token sample_client"
  using sample_asked(2) by (simp add: redeeming_def sample_token_form sample_client_fields sample_verifier_valid)

lemma sample_meets: "meets sample_env sample_token sample_client sample_redeemed"
  using VerifyPKCE_S256Challenge [OF sample_sha256 sample_verifier_valid(2)]
  by (simp add: meets_def sample_token_form sample_redeemed_def sample_code_def granted_code_def sample_form sample_client_fields)

text \<open>The digests that matter are different.\<close>

lemma Hash_eq_iff: "Hash env v = Hash env v' \<longleftrightarrow> oe_sha256 env v = oe_sha256 env v'"
  by (metis Hash_def hex_decode_encode option.inject)

lemma Hash_nonempty: "length (oe_sha256 env v) = 32 \<Longrightarrow> Hash env v \<noteq> []"
  by (cases "oe_sha256 env v") (auto simp: Hash_def)

lemma sample_digests:
  "Hash sample_env ''client'' \<noteq> Hash sample_env ''code''" "Hash sample_env ''client'' \<noteq> Hash sample_env ''access''"
  "Hash sample_env ''client'' \<noteq> Hash sample_env ''refresh''" "Hash sample_env ''code'' \<noteq> Hash sample_env ''access''"
  "Hash sample_env ''code'' \<noteq> Hash sample_env ''refresh''" "Hash sample_env ''access'' \<noteq> Hash sample_env ''refresh''"
  "Hash sample_env ''code'' \<noteq> []" "Hash sample_env ''access'' \<noteq> []" "Hash sample_env ''refresh'' \<noteq> []"
  by (simp_all add: Hash_eq_iff Hash_nonempty sample_sha256) (simp_all add: sample_env_def)

lemma sample_times:
  "store_now 2000 = 2000" "\<not> client_dead 2000 sample_client" "2000 < ac_ExpiresAt sample_code" "2000 < at_ExpiresAt sample_access"
  by (simp_all add: store_now_def client_dead_def sample_client_def registered_client_def sample_code_def granted_code_def sample_access_def issued_access_def
    sample_server_def default_server_def DefaultClientRegistrationTTL_def DefaultAuthorizationCodeTTL_def DefaultAccessTokenTTL_def Hour_def Minute_def Second_def Millisecond_def)

subsection \<open>The worlds of the samples\<close>

definition registered_store :: mem_store where
  "registered_store = NewStore\<lparr>ms_clients := [(''client'', sample_client)]\<rparr>"

definition granted_store :: mem_store where
  "granted_store = registered_store\<lparr>ms_codes := [(Hash sample_env ''code'', sample_code)]\<rparr>"

definition redeemed_store :: mem_store where
  "redeemed_store = registered_store\<lparr>ms_codes := [(Hash sample_env ''code'', sample_redeemed)]\<rparr>"

definition issued_store :: mem_store where
  "issued_store = redeemed_store\<lparr>ms_access := [(Hash sample_env ''access'', sample_access)], ms_refresh := [(Hash sample_env ''refresh'', sample_refresh)]\<rparr>"

lemmas sample_store_defs = registered_store_def granted_store_def redeemed_store_def issued_store_def NewStore_def

lemma register_performed: "performs_all mem_ops 2000 register_log NewStore = Some registered_store"
  by (simp add: register_log_def performs_def mem_ops_def answered_def CreateClient_mem_def sample_client_fields sample_store_defs mget_def mput_def)

lemma grant_performed: "performs_all mem_ops 2000 grant_log registered_store = Some granted_store"
  using sample_times(1,2) sample_digests(7)
  by (simp add: grant_log_def authorize_calls_def performs_def mem_ops_def answered_def GetClient_mem_def CreateAuthorizationCode_mem_def
    sample_form sample_store_defs mget_def mput_def client_dead_def sample_code_def [symmetric]) (simp add: sample_code_def granted_code_def)

lemma redeem_performed: "performs_all mem_ops 2000 redeem_log granted_store = Some redeemed_store"
proof -
  have "time_is_zero (ac_RedeemedAt sample_code)" by (simp add: sample_code_def granted_code_def)
  then show ?thesis
    using sample_times sample_digests(7)
    by (simp add: redeem_log_def redeem_calls_def performs_def mem_ops_def answered_def GetClient_mem_def ConsumeAuthorizationCode_mem_def
      sample_client_fields sample_token_form sample_store_defs mget_def mput_def client_dead_def sample_redeemed_def Let_def)
qed

lemma sample_issued:
  "at_Hash sample_access = Hash sample_env ''access''" "rt_Hash sample_refresh = Hash sample_env ''refresh''"
  "at_FamilyID sample_access = ''family''" "rt_FamilyID sample_refresh = ''family''" "at_RevokedAt sample_access = 0" "rt_RevokedAt sample_refresh = 0"
  "ac_FamilyID sample_redeemed = ''family''" "ac_RedeemedAt sample_redeemed = 2000"
  by (simp_all add: sample_access_def issued_access_def sample_refresh_def issued_refresh_def sample_redeemed_def sample_code_def granted_code_def)

lemma issue_performed: "performs_all mem_ops 2000 issue_log redeemed_store = Some issued_store"
  using sample_digests
  by (simp add: issue_log_def issue_calls_def sample_access_def [symmetric] sample_refresh_def [symmetric] performs_def mem_ops_def answered_def
    CreateAccessToken_mem_def CreateRefreshToken_mem_def sample_issued sample_store_defs mget_def mput_def)

text \<open>A replay finds the code redeemed, whether the pair was issued or not.\<close>

lemma replay_performed:
  assumes "ms_clients s = ms_clients registered_store" and "ms_codes s = ms_codes redeemed_store"
  shows "performs_all mem_ops 2000 replay_log s = Some s"
  using sample_times sample_digests(7) assms
  by (simp add: replay_log_def redeem_calls_def performs_def mem_ops_def answered_def GetClient_mem_def ConsumeAuthorizationCode_mem_def
      sample_client_fields sample_token_form sample_store_defs mget_def client_dead_def sample_issued)

text \<open>The threads of the samples.\<close>

definition register_prog :: "response prog" where
  "register_prog = the (after (registerHandler sample_env sample_server (sample_request [])) register_log)"

definition grant_prog :: "response prog" where
  "grant_prog = the (after (AuthorizeHandler sample_env sample_server sample_authorize) grant_log)"

definition redeeming_prog :: "response prog" where
  "redeeming_prog = the (after (TokenHandler sample_env sample_server sample_token) redeem_log)"

definition replaying_prog :: "response prog" where
  "replaying_prog = the (after (TokenHandler sample_env sample_server sample_token) replay_log)"

definition token_reply :: response where
  "token_reply = TokenJSON (issued_response sample_env sample_server sample_redeemed ''access'' ''refresh'')"

lemma sample_traces:
  "\<exists>r. after (registerHandler sample_env sample_server (sample_request [])) register_log = Some (Ret r)"
  "\<exists>r. after (AuthorizeHandler sample_env sample_server sample_authorize) grant_log = Some (Ret r)"
  "after (TokenHandler sample_env sample_server sample_token) redeem_log = Some redeeming_prog"
  "after redeeming_prog issue_log = Some (Ret token_reply)"
  "after (TokenHandler sample_env sample_server sample_token) replay_log = Some replaying_prog"
  "\<exists>k. replaying_prog = RevokeFamily ''family'' k"
proof -
  have t: "after (TokenHandler sample_env sample_server sample_token) (redeem_log @ issue_log) = Some (Ret token_reply)"
    using token_trace [OF sample_redeeming sample_meets] by (simp add: redeem_log_def issue_log_def token_reply_def)
  then show r: "after (TokenHandler sample_env sample_server sample_token) redeem_log = Some redeeming_prog"
    by (auto simp: after_append redeeming_prog_def split: option.splits)
  show "after redeeming_prog issue_log = Some (Ret token_reply)" using t r by (simp add: after_append)
  show "\<exists>r. after (registerHandler sample_env sample_server (sample_request [])) register_log = Some (Ret r)"
    using register_trace [of sample_server "sample_request []" sample_registration sample_env "''client''" 2000] sample_policy
    by (auto simp: register_log_def sample_client_def sample_request_def sample_registration_def sample_server_def default_server_def)
  show "\<exists>r. after (AuthorizeHandler sample_env sample_server sample_authorize) grant_log = Some (Ret r)"
    using authorize_trace [OF sample_good, of sample_subject 2000 "''code''" "''family''"] by (auto simp: grant_log_def sample_subject_def)
  obtain k where k: "after (TokenHandler sample_env sample_server sample_token) replay_log = Some (RevokeFamily ''family'' k)"
    using replay_trace [OF sample_redeeming, of sample_redeemed] sample_issued by (auto simp: replay_log_def)
  then show "after (TokenHandler sample_env sample_server sample_token) replay_log = Some replaying_prog" "\<exists>k. replaying_prog = RevokeFamily ''family'' k"
    by (auto simp: replaying_prog_def)
qed

text \<open>A code is granted; it is redeemed; the pair is issued; the code is presented again.\<close>

definition granted_threads :: "thread list" where
  "granted_threads = [\<lparr>th_prog = register_prog, th_log = register_log\<rparr>, \<lparr>th_prog = grant_prog, th_log = grant_log\<rparr>]"

definition redeemed_world :: "mem_store world" where
  "redeemed_world = \<lparr>wd_store = redeemed_store, wd_threads = granted_threads @ [\<lparr>th_prog = redeeming_prog, th_log = redeem_log\<rparr>]\<rparr>"

definition issued_world :: "mem_store world" where
  "issued_world = \<lparr>wd_store = issued_store, wd_threads = granted_threads @ [\<lparr>th_prog = Ret token_reply, th_log = redeem_log @ issue_log\<rparr>]\<rparr>"

definition replayed_world :: "mem_store world" where
  "replayed_world = \<lparr>wd_store = issued_store, wd_threads = granted_threads @ [\<lparr>th_prog = Ret token_reply, th_log = redeem_log @ issue_log\<rparr>,
     \<lparr>th_prog = replaying_prog, th_log = replay_log\<rparr>]\<rparr>"

lemmas sample_log_defs = register_log_def grant_log_def authorize_calls_def redeem_log_def redeem_calls_def issue_log_def issue_calls_def replay_log_def

lemma sample_minted:
  "minted sample_env register_log d \<longleftrightarrow> d = Hash sample_env ''client''" "minted sample_env grant_log d \<longleftrightarrow> d = Hash sample_env ''code''"
  "\<not> minted sample_env redeem_log d" "\<not> minted sample_env replay_log d"
  by (auto simp: minted_def sample_log_defs)

lemma sample_families:
  "EvNewFamily f \<notin> set register_log" "EvNewFamily f \<notin> set redeem_log" "EvNewFamily f \<notin> set replay_log"
  by (auto simp: sample_log_defs)

lemma granted_run: "world_run sample_env sample_server mem_ops start \<lparr>wd_store = granted_store, wd_threads = granted_threads\<rparr>"
proof -
  let ?w1 = "\<lparr>wd_store = registered_store, wd_threads = [\<lparr>th_prog = register_prog, th_log = register_log\<rparr>]\<rparr>"
  have "served sample_env sample_server mem_ops 2000 (Register (sample_request [])) register_log register_prog start ?w1"
    using sample_traces(1) register_performed
    by (auto simp: served_def start_def new_world_def register_prog_def) (simp add: sample_log_defs minted_def)
  from served_run [OF this] have "world_run sample_env sample_server mem_ops start ?w1" .
  moreover have f: "fresh_log sample_env [register_log] [] grant_log"
    using sample_digests sample_minted(1) sample_families(1) by (simp add: grant_log_def authorize_calls_def minted_simps)
  have "served sample_env sample_server mem_ops 2000 (Authorize sample_authorize) grant_log grant_prog ?w1 \<lparr>wd_store = granted_store, wd_threads = granted_threads\<rparr>"
    using sample_traces(2) grant_performed f by (auto simp: served_def grant_prog_def granted_threads_def)
  from run_trans [OF calculation(1) served_run [OF this]] show ?thesis .
qed

lemma redeemed_run: "world_run sample_env sample_server mem_ops start redeemed_world"
proof -
  have "served sample_env sample_server mem_ops 2000 (Token sample_token) redeem_log redeeming_prog \<lparr>wd_store = granted_store, wd_threads = granted_threads\<rparr> redeemed_world"
    using sample_traces(3) redeem_performed by (simp add: served_def redeemed_world_def) (simp add: redeem_log_def redeem_calls_def)
  then show ?thesis using granted_run served_run run_trans by blast
qed

lemma issue_fresh:
  assumes "\<And>l. l \<in> set logs \<Longrightarrow> l \<in> {register_log, grant_log, replay_log @ es}" and "\<And>d. \<not> minted sample_env es d"
  shows "fresh_log sample_env logs redeem_log issue_log"
proof -
  have "\<not> minted sample_env l (Hash sample_env v)" if "l \<in> set logs" "v \<in> {''access'', ''refresh''}" for l v
    using assms(1) [OF that(1)] that(2) assms(2) sample_digests by (auto simp: sample_minted minted_simps)
  moreover have "\<not> minted sample_env (redeem_log @ [EvClock 2000]) (Hash sample_env ''access'')" by (simp add: minted_simps sample_minted)
  moreover have "\<not> minted sample_env (redeem_log @ [EvClock 2000, EvMint (Some ''access''), Store (EvCreateAccess a None)]) (Hash sample_env ''refresh'')" for a
    using sample_digests by (simp add: minted_simps sample_minted)
  ultimately show ?thesis by (auto simp: issue_log_def issue_calls_def list_all_iff)
qed

lemma issued_run: "world_run sample_env sample_server mem_ops start issued_world"
  using calls_run [OF sample_traces(4) issue_performed issue_fresh, of granted_threads "[]" "[]" sample_server] redeemed_run run_trans
  by (fastforce simp: redeemed_world_def issued_world_def granted_threads_def minted_simps)

lemma replayed_run: "world_run sample_env sample_server mem_ops start replayed_world"
proof -
  have "served sample_env sample_server mem_ops 2000 (Token sample_token) replay_log replaying_prog issued_world replayed_world"
    using sample_traces(5) replay_performed [of issued_store]
    by (simp add: served_def issued_world_def replayed_world_def sample_store_defs) (simp add: replay_log_def redeem_calls_def)
  then show ?thesis using issued_run served_run run_trans by blast
qed

lemma revocation_performed:
  "performs mem_ops 2000 (Store (EvRevokeFamily ''family'' (Inr 2))) issued_store \<noteq> None"
  by (simp add: performs_def mem_ops_def answered_def RevokeFamily_mem_def Let_def in_family_access_def in_family_refresh_def sample_issued sample_store_defs)

text \<open>A resource server for the sample, and its verification of the token.\<close>

definition sample_resource :: Verifier where
  "sample_resource =
     \<lparr>vf_metadata = \<lparr>pr_Resource = ''https://api'', pr_ResourceName = [], pr_ResourceDocumentation = [], pr_AuthorizationServers = [''https://as''],
        pr_ScopesSupported = [], pr_BearerMethodsSupported = [''header'']\<rparr>, vf_resource = ''https://api''\<rparr>"

lemma sample_verified:
  "after (Verify sample_env sample_resource ''access'' [''read'']) [Store (EvGetAccess (Hash sample_env ''access'') (Inr sample_access))] = Some (Ret (Inr sample_access))"
  "performs_all mem_ops 2000 [Store (EvGetAccess (Hash sample_env ''access'') (Inr sample_access))] issued_store = Some issued_store"
proof -
  have "TrimSpace ''access'' = ''access''" by (simp add: TrimSpace_visible visible_def)
  moreover have "''https://api'' \<in> set (at_Audience sample_access)" "at_Scopes sample_access = [''read'']"
    by (simp_all add: sample_access_def issued_access_def sample_redeemed_def sample_code_def granted_code_def sample_form sample_scopes audienceFor_def)
  ultimately show "after (Verify sample_env sample_resource ''access'' [''read'']) [Store (EvGetAccess (Hash sample_env ''access'') (Inr sample_access))] = Some (Ret (Inr sample_access))"
    by (simp add: Verify_def Authenticate_srv_def sample_resource_def)
  show "performs_all mem_ops 2000 [Store (EvGetAccess (Hash sample_env ''access'') (Inr sample_access))] issued_store = Some issued_store"
    using sample_times sample_digests
    by (simp add: performs_def mem_ops_def answered_def GetAccessToken_mem_def sample_store_defs mget_def Active_def sample_issued)
qed

lemma sample_settled: "settled ''family'' (wd_threads replayed_world)"
proof -
  have "redeemed register_log = None" "redeemed grant_log = None" "redeemed replay_log = None"
    by (simp_all add: sample_log_defs)
  then show ?thesis by (simp add: settled_def replayed_world_def granted_threads_def silent_def)
qed

subsection \<open>Where a token comes from\<close>

text \<open>C2. Whatever requests the authorization server has served, and however their calls to the store interleaved: when a
  resource server's verifier admits a bearer credential, the token is live, names the verifier's resource in its audience and
  holds every required scope; it was created by a request whose client was public or proved its secret and which redeemed a
  code with a verifier that meets its challenge, or a refresh token; and it goes back to a code that was granted for a
  registered redirect URI, to a subject the deployment vouched for, within the scopes, for the same client, family and
  resources, and that has been redeemed.\<close>

theorem verified_token_provenance:
  assumes "world_run env srv mem_ops start w" and "after (Verify env v bearer scopes) es = Some (Ret (Inr token))"
    and "performs_all mem_ops t es (wd_store w) = Some s"
  shows "Active token (store_now t) \<and> vf_resource v \<in> set (at_Audience token) \<and> set scopes \<subseteq> set (at_Scopes token) \<and>
    provenance env srv w token"
proof -
  note v = Verify_ok [OF assms(2)]
  have ok: "mem_ok (wd_store w)" and inv: "server_inv env srv (mem_view (wd_store w)) w" using reachable_inv [OF assms(1)] by auto
  have "store_step mem_ops t (EvGetAccess (Hash env bearer) (Inr token)) (wd_store w) = Some s"
    using assms(3) v by (simp add: performs_def split: option.splits)
  from mst.step_contract [OF ok this] have "lg_access (mem_view (wd_store w)) (Hash env bearer) = Some token" "Active token (store_now t)"
    by simp_all
  with stored_provenance [OF inv] v show ?thesis by blast
qed

lemma verified_token_provenance_witness:
  "Active sample_access (store_now 2000) \<and> provenance sample_env sample_server issued_world sample_access"
proof -
  have "performs_all mem_ops 2000 [Store (EvGetAccess (Hash sample_env ''access'') (Inr sample_access))] (wd_store issued_world) = Some issued_store"
    using sample_verified(2) by (simp add: issued_world_def)
  from verified_token_provenance [OF issued_run sample_verified(1) this] show ?thesis by blast
qed

text \<open>C3. A credential is spent once. In every run, over all requests together, the redemption of an authorization code succeeds
  at most once, and so does the rotation of a refresh token; and a request issues at most one access token and one refresh
  token, and only after it spent a credential.\<close>

theorem credentials_single_use:
  assumes "world_run env srv mem_ops start w"
  shows "(\<forall>h. times (spends_code h) w \<le> 1 \<and> times (spends_refresh h) w \<le> 1) \<and>
    (\<forall>th \<in> set (wd_threads w).
       length (filter creates_access (th_log th)) \<le> 1 \<and> length (filter creates_refresh (th_log th)) \<le> 1 \<and> length (filter consumes (th_log th)) \<le> 1 \<and>
       (list_ex creates_access (th_log th) \<or> list_ex creates_refresh (th_log th) \<longrightarrow> redeemed (th_log th) \<noteq> None))"
proof -
  have inv: "server_inv env srv (mem_view (wd_store w)) w" using reachable_inv [OF assms] by simp
  have "in_one_log (spends_code h) (log_of w)" "in_one_log (spends_refresh h) (log_of w)" for h
    using inv unfolding server_inv_def world_inv_def spent_once_def by blast+
  then have "times (spends_code h) w \<le> 1 \<and> times (spends_refresh h) w \<le> 1" for h
    using spent_times [OF inv] spends_consumes by blast
  moreover note thread_guarded [OF inv]
  ultimately show ?thesis using pair_once pair_paid by blast
qed

lemma credentials_single_use_witness:
  "times (spends_code (Hash sample_env ''code'')) replayed_world \<le> 1 \<and> length (wd_threads replayed_world) = 4"
proof -
  have "times (spends_code (Hash sample_env ''code'')) replayed_world \<le> 1" using credentials_single_use [OF replayed_run] by blast
  then show ?thesis by (simp add: replayed_world_def granted_threads_def)
qed

text \<open>C5. A family that is revoked stays revoked. When a request revokes a family, after a replayed code or refresh token or at
  the revocation endpoint, and no other request that spent a credential of the family is still about to issue tokens, then in
  every later state of the store every token of the family is revoked and its code redeemed, and no verifier admits any of them.\<close>

theorem revoked_family_stays_dead:
  assumes "world_run env srv mem_ops start w" and "thread_call env mem_ops i (Store (EvRevokeFamily f (Inr n))) w w1"
    and "settled f (wd_threads w)" and "world_run env srv mem_ops w1 w2"
  shows "lapsed f (mem_view (wd_store w2)) \<and>
    (\<forall>t h a s. GetAccessToken_mem t h (wd_store w2) = (Inr a, s) \<longrightarrow> at_FamilyID a \<noteq> f)"
proof -
  have ok: "mem_ok (wd_store w)" and inv: "server_inv env srv (mem_view (wd_store w)) w" using reachable_inv [OF assms(1)] by auto
  have d: "dead_family mem_view f w1" by (rule mst.revoke_dead [OF assms(2) ok inv assms(3)])
  have "mem_ok (wd_store w1) \<and> server_inv env srv (mem_view (wd_store w1)) w1" by (rule mst.call_inv [OF assms(2) ok inv])
  then have l: "lapsed f (mem_view (wd_store w2))" using mst.run_dead [OF assms(4) _ _ d] by (simp add: dead_family_def)
  moreover have "at_FamilyID a \<noteq> f" if "GetAccessToken_mem t h (wd_store w2) = (Inr a, s)" for t h a s
    using that l by (auto simp: GetAccessToken_mem_def lapsed_def mem_view_def Active_def split: if_splits option.splits)
  ultimately show ?thesis by blast
qed

lemma revoked_family_stays_dead_witness:
  "\<exists>w1. thread_call sample_env mem_ops 3 (Store (EvRevokeFamily ''family'' (Inr 2))) replayed_world w1 \<and> lapsed ''family'' (mem_view (wd_store w1))"
proof -
  obtain k where k: "replaying_prog = RevokeFamily ''family'' k" using sample_traces(6) by blast
  obtain s where s: "performs mem_ops 2000 (Store (EvRevokeFamily ''family'' (Inr 2))) issued_store = Some s" using revocation_performed by blast
  have fed: "feed replaying_prog (Store (EvRevokeFamily ''family'' (Inr 2))) = Some (k (Inr 2))" by (simp add: k)
  define w1 where "w1 = \<lparr>wd_store = s, wd_threads = (wd_threads replayed_world)[3 := \<lparr>th_prog = k (Inr 2), th_log = replay_log @ [Store (EvRevokeFamily ''family'' (Inr 2))]\<rparr>]\<rparr>"
  have "thread_call sample_env mem_ops 3 (Store (EvRevokeFamily ''family'' (Inr 2))) replayed_world w1"
    using thread_call.intros [of 3 replayed_world "Store (EvRevokeFamily ''family'' (Inr 2))" "k (Inr 2)" 2000 mem_ops s sample_env] s fed
    by (simp add: w1_def replayed_world_def granted_threads_def fresh_def)
  then show ?thesis
    using revoked_family_stays_dead [OF replayed_run _ sample_settled world_run.here] by blast
qed

text \<open>C6. The authorization endpoint redirects a browser only to a URI that is registered, byte for byte, for the client it read
  from the store; and it hands out a code only where it stored that code, for that client and that URI, for a subject with an
  identifier that the deployment's resolver or authenticator vouched for in the same request.\<close>

theorem authorize_redirects_safely:
  assumes "after (AuthorizeHandler env srv req) es = Some (Ret resp)"
  shows "redirect_safe env es resp"
  using safe_after_ret [OF assms safe_AuthorizeHandler] .

lemma authorize_redirects_safely_witness:
  "\<exists>resp. after (AuthorizeHandler sample_env sample_server sample_authorize) grant_log = Some (Ret resp) \<and> redirect_safe sample_env grant_log resp"
  using sample_traces(2) authorize_redirects_safely by blast

text \<open>The revocation endpoint tells a client nothing about a token. Two runs of the handler on one request, in which the client
  is found the same way, give the same response, whatever the store holds under the presented token: unknown, expired, revoked,
  another client's, of one kind or the other.\<close>

theorem revoke_discloses_nothing:
  assumes "after (RevokeHandler env srv req) es = Some (Ret resp)" and "after (RevokeHandler env srv req) es' = Some (Ret resp')"
    and "take 1 es = take 1 es'"
  shows "resp = resp'"
proof -
  have ok: "r = EmptyOK" if "after (bind_prog q (\<lambda>_. Ret EmptyOK)) fs = Some (Ret r)" for q :: "unit prog" and fs r
    using safe_after_ret [OF that revoke_only_ok] .
  consider a where "RevokeHandler env srv req = Ret a"
    | k g where "RevokeHandler env srv req = GetClient k g" "\<And>x. (\<exists>a. g x = Ret a) \<or> (\<exists>q :: unit prog. g x = bind_prog q (\<lambda>_. Ret EmptyOK))"
  proof (cases "rq_Form req = None")
    case False
    let ?g = "\<lambda>r. case r of Inl perr \<Rightarrow> Ret (writeProtocolError perr) | Inr client \<Rightarrow>
          if Form_Get req ''token'' = []
          then Ret (writeProtocolError (newProtocolError StatusBadRequest ErrorCodeInvalidRequest ''token is required'' (StoreCause ErrEmptyIdentifier)))
          else bind_prog (revoke_token srv client (Hash env (Form_Get req ''token'')) (Form_Get req ''token_type_hint'')) (\<lambda>_. Ret EmptyOK)"
    have H: "RevokeHandler env srv req = bind_prog (authenticateClient env req) ?g" by (simp only: RevokeHandler_def False if_False)
    have R: "(\<exists>a. ?g x = Ret a) \<or> (\<exists>q :: unit prog. ?g x = bind_prog q (\<lambda>_. Ret EmptyOK))" for x by (cases x) auto
    from authenticateClient_shape [of env req] show ?thesis
    proof (elim disjE exE conjE)
      fix e assume "authenticateClient env req = Ret (Inl e)"
      then show ?thesis using that(1) unfolding H by simp
    next
      fix k h assume h: "authenticateClient env req = GetClient k h" "\<forall>x. \<exists>y. h x = Ret y"
      have "(\<exists>a. bind_prog (h x) ?g = Ret a) \<or> (\<exists>q :: unit prog. bind_prog (h x) ?g = bind_prog q (\<lambda>_. Ret EmptyOK))" for x
      proof -
        obtain y where y: "h x = Ret y" using h(2) by blast
        show ?thesis unfolding y bind_prog.simps by (rule R)
      qed
      then show ?thesis using that(2) [of k "\<lambda>x. bind_prog (h x) ?g"] h(1) unfolding H by (simp only: bind_prog.simps)
    qed
  qed (use that in \<open>simp add: RevokeHandler_def\<close>)
  then show ?thesis
  proof cases
    case (1 a)
    then show ?thesis using assms(1,2) by (simp add: after_Ret)
  next
    case (2 k g)
    obtain e fs e' fs' where es: "es = e # fs" "es' = e' # fs'" using assms(1,2) 2(1) by (cases es; cases es') auto
    with assms(3) have "e' = e" by simp
    moreover obtain x where x: "feed (GetClient k g) e = Some (g x)" using assms(1) es(1) 2(1) by (auto split: event.splits store_event.splits if_splits)
    ultimately have f: "after (g x) fs = Some (Ret resp)" "after (g x) fs' = Some (Ret resp')" using assms(1,2) es 2(1) by simp_all
    from 2(2) [of x] show ?thesis
    proof (elim disjE exE)
      fix q :: "unit prog" assume "g x = bind_prog q (\<lambda>_. Ret EmptyOK)"
      then show ?thesis using ok [of q] f by metis
    qed (use f in \<open>simp add: after_Ret\<close>)
  qed
qed

lemma sample_revocations:
  assumes "found \<in> {Inl ErrNotFound, Inr sample_access}"
  shows "\<exists>es. after (RevokeHandler sample_env sample_server (sample_request [(''client_id'', ''client''), (''token'', ''access'')]))
    (Store (EvGetClient ''client'' (Inr sample_client)) # Store (EvGetAccess (Hash sample_env ''access'') found) # es) = Some (Ret EmptyOK)"
proof -
  let ?req = "sample_request [(''client_id'', ''client''), (''token'', ''access'')]"
  have form: "Form_Get ?req ''client_id'' = ''client''" "Form_Get ?req ''token'' = ''access''" "Form_Get ?req ''client_secret'' = []"
    "Form_Get ?req ''token_type_hint'' = []" "rq_Form ?req \<noteq> None" "rq_BasicAuth ?req = None"
    by (simp_all add: Form_Get_def form_values_def sample_request_def mget_def)
  have R: "RevokeHandler sample_env sample_server ?req = bind_prog (authenticateClient sample_env ?req) (\<lambda>r. case r of
        Inl perr \<Rightarrow> Ret (writeProtocolError perr)
      | Inr client \<Rightarrow> bind_prog (revoke_token sample_server client (Hash sample_env ''access'') []) (\<lambda>_. Ret EmptyOK))"
    by (simp add: RevokeHandler_def form del: revoke_kinds.simps)
  have A: "after (authenticateClient sample_env ?req) [Store (EvGetClient ''client'' (Inr sample_client))] = Some (Ret (Inr sample_client))"
    by (simp add: authenticateClient_def form sample_client_fields)
  have c: "at_ClientID sample_access = cl_ID sample_client"
    by (simp add: sample_access_def issued_access_def sample_redeemed_def sample_code_def granted_code_def)
  have o: "\<not> srv_revocationObserver sample_server" by (simp add: sample_server_def default_server_def)
  have "\<exists>es. after (bind_prog (revoke_token sample_server sample_client (Hash sample_env ''access'') []) (\<lambda>_. Ret EmptyOK))
      (Store (EvGetAccess (Hash sample_env ''access'') found) # es) = Some (Ret EmptyOK)"
    using assms
  proof (elim insertE emptyE)
    assume "found = Inl ErrNotFound"
    then show ?thesis
      by (intro exI [of _ "[Store (EvGetRefresh (Hash sample_env ''access'') (Inl ErrNotFound))]"]) (simp add: revoke_token_def revokeOne_def)
  next
    assume "found = Inr sample_access"
    then show ?thesis
      using c o by (intro exI [of _ "[Store (EvRevokeAccess (Hash sample_env ''access'') None), EvCount Revocations 1]"])
        (simp add: revoke_token_def revokeOne_def observeRevocation_def)
  qed
  then obtain es where "after (bind_prog (revoke_token sample_server sample_client (Hash sample_env ''access'') []) (\<lambda>_. Ret EmptyOK))
      (Store (EvGetAccess (Hash sample_env ''access'') found) # es) = Some (Ret EmptyOK)" by blast
  moreover have "after (bind_prog (authenticateClient sample_env ?req) g) (Store (EvGetClient ''client'' (Inr sample_client)) # fs) = after (g (Inr sample_client)) fs"
    for g :: "protocolError + Client \<Rightarrow> response prog" and fs using after_bind [OF A] by simp
  ultimately show ?thesis unfolding R by (intro exI [of _ es]) (simp del: after.simps)
qed

lemma revoke_discloses_nothing_witness:
  "\<exists>es es' resp resp'. after (RevokeHandler sample_env sample_server (sample_request [(''client_id'', ''client''), (''token'', ''access'')])) es = Some (Ret resp) \<and>
     after (RevokeHandler sample_env sample_server (sample_request [(''client_id'', ''client''), (''token'', ''access'')])) es' = Some (Ret resp') \<and>
     es ! 1 \<noteq> es' ! 1 \<and> resp = resp'"
proof -
  let ?e = "Store (EvGetClient ''client'' (Inr sample_client))" and ?f = "\<lambda>found. Store (EvGetAccess (Hash sample_env ''access'') found)"
  obtain fs fs' where
    f: "after (RevokeHandler sample_env sample_server (sample_request [(''client_id'', ''client''), (''token'', ''access'')])) (?e # ?f (Inl ErrNotFound) # fs) = Some (Ret EmptyOK)"
      "after (RevokeHandler sample_env sample_server (sample_request [(''client_id'', ''client''), (''token'', ''access'')])) (?e # ?f (Inr sample_access) # fs') = Some (Ret EmptyOK)"
    using sample_revocations [of "Inl ErrNotFound"] sample_revocations [of "Inr sample_access"] by auto
  show ?thesis
    by (intro exI conjI, rule f(1), rule f(2), simp, rule revoke_discloses_nothing [OF f], simp)
qed

text \<open>The transports refuse alike. For every error of the verifier, the status of the HTTP middleware, the code of the gRPC
  interceptor, the code of the HTTP error mapper and the verdict of the MCP adapter agree: a missing scope is a denial (403,
  PermissionDenied), every other refusal asks for a better credential (401, Unauthenticated), and a store that failed is the server's
  fault (500, Internal) and carries no challenge.\<close>

theorem transports_agree:
  "(fst (challengeFor env v err) = 403 \<longleftrightarrow> map_option fst (Refusal (Some err)) = Some PermissionDenied) \<and>
   (fst (challengeFor env v err) = 401 \<longleftrightarrow> map_option fst (Refusal (Some err)) = Some Unauthenticated) \<and>
   (fst (challengeFor env v err) = 500 \<longleftrightarrow> map_option fst (Refusal (Some err)) = Some Internal) \<and>
   (fst (challengeFor env v err) = 403 \<longleftrightarrow> map_option fst (httpMapper_Map (Some err)) = Some ErrUserIsNotAuthorized) \<and>
   (fst (challengeFor env v err) = 401 \<longleftrightarrow> map_option fst (httpMapper_Map (Some err)) = Some ErrAuthenticationFailed) \<and>
   (fst (challengeFor env v err) = 500 \<longleftrightarrow> \<not> refused_mcp err) \<and>
   (fst (challengeFor env v err) = 500 \<longleftrightarrow> WriteChallenge env v err = Challenged 500 None)"
proof (cases "is_insufficient err")
  case True
  then have "refused_mcp err" by (simp add: refused_mcp_def)
  with True mappers_agree [of err] challengeFor_status [of env v err] refusal_iff [of err] show ?thesis
    by (auto simp: Refusal_def Let_def WriteChallenge_def case_prod_beta)
next
  case False
  with mappers_agree [of err] challengeFor_status [of env v err] refusal_iff [of err] show ?thesis
    by (cases "refused_mcp err")
      (auto simp: Refusal_def Let_def WriteChallenge_def case_prod_beta httpMapper_Map_def grpcMapper_Map_def split: option.splits if_splits)
qed

subsection \<open>The flow that succeeds\<close>

lemma granted_code_fields [simp]:
  "ac_Hash (granted_code env srv req client su t v f) = Hash env v" "ac_FamilyID (granted_code env srv req client su t v f) = f"
  "ac_RedeemedAt (granted_code env srv req client su t v f) = 0" "ac_ClientID (granted_code env srv req client su t v f) = cl_ID client"
  "ac_RedirectURI (granted_code env srv req client su t v f) = Form_Get req ''redirect_uri''" "ac_Subject (granted_code env srv req client su t v f) = su"
  "ac_CodeChallenge (granted_code env srv req client su t v f) = Form_Get req ''code_challenge''"
  "ac_ExpiresAt (granted_code env srv req client su t v f) = store_now t + srv_codeTTL srv"
  "ac_Scopes (granted_code env srv req client su t v f) = splitScopes (Form_Get req ''scope'')"
  "ac_Resources (granted_code env srv req client su t v f) = form_values req ''resource''"
  by (simp_all add: granted_code_def)

text \<open>What each request does to the store, when the digests are new.\<close>

lemma authorize_stored:
  assumes "mget (ms_clients s) (Form_Get req ''client_id'') = Some client" and "Form_Get req ''client_id'' \<noteq> []" and "\<not> client_dead (store_now t) client"
    and "Hash env v \<noteq> []" and "mget (ms_codes s) (Hash env v) = None"
  shows "performs_all mem_ops t (authorize_calls env srv req client su t v f) s =
    Some (s\<lparr>ms_codes := mput (Hash env v) (granted_code env srv req client su t v f) (ms_codes s)\<rparr>)"
  using assms
  by (auto simp: authorize_calls_def performs_def mem_ops_def answered_def GetClient_mem_def CreateAuthorizationCode_mem_def client_dead_def)

lemma redeem_stored:
  assumes "mget (ms_clients s) (cl_ID client) = Some client" and "cl_ID client \<noteq> []" and "\<not> client_dead (store_now t) client"
    and "mget (ms_codes s) (Hash env (Form_Get req ''code'')) = Some code" and "Hash env (Form_Get req ''code'') \<noteq> []"
    and "time_is_zero (ac_RedeemedAt code)" and "store_now t < ac_ExpiresAt code"
  shows "performs_all mem_ops t (redeem_calls env req client (Consumed (code\<lparr>ac_RedeemedAt := store_now t\<rparr>))) s =
    Some (s\<lparr>ms_codes := mput (Hash env (Form_Get req ''code'')) (code\<lparr>ac_RedeemedAt := store_now t\<rparr>) (ms_codes s)\<rparr>)"
  using assms
  by (auto simp: redeem_calls_def performs_def mem_ops_def answered_def GetClient_mem_def ConsumeAuthorizationCode_mem_def client_dead_def Let_def)

lemma issue_stored:
  assumes "Hash env v \<noteq> []" and "Hash env v' \<noteq> []" and "mget (ms_access s) (Hash env v) = None" and "mget (ms_refresh s) (Hash env v') = None"
  shows "performs_all mem_ops t (issue_calls env srv code t v v') s =
    Some (s\<lparr>ms_access := mput (Hash env v) (issued_access env srv code t v) (ms_access s),
            ms_refresh := mput (Hash env v') (issued_refresh env srv code t v') (ms_refresh s)\<rparr>)"
  using assms
  by (simp add: issue_calls_def performs_def mem_ops_def answered_def CreateAccessToken_mem_def CreateRefreshToken_mem_def issued_access_def issued_refresh_def)

lemma performs_all_append:
  "performs_all ops t (es @ es') s = (case performs_all ops t es s of None \<Rightarrow> None | Some s' \<Rightarrow> performs_all ops t es' s')"
  by (induction es arbitrary: s) (auto split: option.splits)

text \<open>C12. The authorization code flow works: for every store with a live public client and every well-formed authorization request
  of it for a user the deployment vouches for, the code the browser is redirected with, presented with the verifier whose digest was the
  challenge, is answered with a token pair, and a resource the request named admits the access token, for that user and with the
  scopes that were asked for. The values minted are taken to have digests of 32 bytes that the store does not hold yet.\<close>

theorem code_flow_succeeds:
  assumes "mget (ms_clients s) (cl_ID client) = Some client" and "\<not> client_dead (store_now t) client" and "su_ID su \<noteq> []" and "f \<noteq> []"
    and "good_request env srv areq client" and "Form_Get areq ''client_id'' = cl_ID client"
    and "redeeming treq client" and "Form_Get treq ''code'' = v" and "Form_Get treq ''redirect_uri'' = Form_Get areq ''redirect_uri''"
    and "Form_Get areq ''code_challenge'' = S256Challenge env (Form_Get treq ''code_verifier'')"
    and "\<forall>x. length (oe_sha256 env x) = 32" and "0 < srv_codeTTL srv" and "0 < srv_accessTTL srv"
    and "mget (ms_codes s) (Hash env v) = None" and "mget (ms_access s) (Hash env a) = None" and "mget (ms_refresh s) (Hash env r) = None"
    and "vf_resource vf \<in> set (form_values areq ''resource'')" and "set required \<subseteq> set (splitScopes (Form_Get areq ''scope''))" and "TrimSpace a \<noteq> []"
  shows "\<exists>s1 params code s2 resp token.
    after (AuthorizeHandler env srv areq) (authorize_calls env srv areq client su t v f) = Some (Ret (FoundAt (Form_Get areq ''redirect_uri'') ((''code'', v) # params))) \<and>
    performs_all mem_ops t (authorize_calls env srv areq client su t v f) s = Some s1 \<and>
    after (TokenHandler env srv treq) (redeem_calls env treq client (Consumed code) @ issue_calls env srv code t a r) = Some (Ret (TokenJSON resp)) \<and>
    performs_all mem_ops t (redeem_calls env treq client (Consumed code) @ issue_calls env srv code t a r) s1 = Some s2 \<and> tr_AccessToken resp = a \<and>
    after (Verify env vf a required) [Store (EvGetAccess (Hash env a) (Inr token))] = Some (Ret (Inr token)) \<and>
    performs_all mem_ops t [Store (EvGetAccess (Hash env a) (Inr token))] s2 = Some s2 \<and>
    at_Subject token = su \<and> at_Scopes token = splitScopes (Form_Get areq ''scope'')"
proof -
  let ?code = "granted_code env srv areq client su t v f"
  let ?red = "?code\<lparr>ac_RedeemedAt := store_now t\<rparr>"
  let ?s1 = "s\<lparr>ms_codes := mput (Hash env v) ?code (ms_codes s)\<rparr>"
  let ?s1' = "s\<lparr>ms_codes := mput (Hash env v) ?red (mput (Hash env v) ?code (ms_codes s))\<rparr>"
  let ?at = "issued_access env srv ?red t a"
  let ?s2 = "?s1'\<lparr>ms_access := mput (Hash env a) ?at (ms_access s), ms_refresh := mput (Hash env r) (issued_refresh env srv ?red t r) (ms_refresh s)\<rparr>"
  have ne: "Hash env x \<noteq> []" for x using Hash_nonempty assms(11) by blast
  have id: "cl_ID client \<noteq> []" using assms(7) by (simp add: redeeming_def)
  obtain params where 1: "after (AuthorizeHandler env srv areq) (authorize_calls env srv areq client su t v f) =
      Some (Ret (FoundAt (Form_Get areq ''redirect_uri'') ((''code'', v) # params)))"
    using authorize_trace [OF assms(5,3)] by blast
  have 2: "performs_all mem_ops t (authorize_calls env srv areq client su t v f) s = Some ?s1"
    using authorize_stored assms(1,2,6,14) ne id by simp
  have "Form_Get treq ''code_verifier'' \<noteq> []" using assms(7) by (auto simp: redeeming_def validCodeVerifier_def MinCodeVerifierLength_def)
  then have "meets env treq client ?red"
    using assms(4,9,10,11) VerifyPKCE_S256Challenge by (simp add: meets_def)
  note 3 = token_trace [OF assms(7) this, of srv t a r]
  have "performs_all mem_ops t (redeem_calls env treq client (Consumed ?red)) ?s1 = Some ?s1'"
    using redeem_stored [of ?s1 client t env treq ?code] assms(1,2,8,12) ne id by simp
  then have 4: "performs_all mem_ops t (redeem_calls env treq client (Consumed ?red) @ issue_calls env srv ?red t a r) ?s1 = Some ?s2"
    using issue_stored [of env a r ?s1' t srv ?red] ne assms(15,16) by (simp add: performs_all_append)
  have "bind_prog (Authenticate_srv env a) g = GetAccessToken (Hash env a) g" for g :: "store_error + AccessToken \<Rightarrow> (verify_error + AccessToken) prog"
    using assms(19) by (auto simp: Authenticate_srv_def TrimSpace_visible)
  then have 5: "after (Verify env vf a required) [Store (EvGetAccess (Hash env a) (Inr ?at))] = Some (Ret (Inr ?at))"
    using assms(17-19) by (simp add: Verify_def HasScopes_iff issued_access_def audienceFor_def)
  have 6: "performs_all mem_ops t [Store (EvGetAccess (Hash env a) (Inr ?at))] ?s2 = Some ?s2"
    using ne assms(13) by (simp add: performs_def mem_ops_def answered_def GetAccessToken_mem_def Active_def issued_access_def)
  show ?thesis
    by (intro exI conjI, rule 1, rule 2, rule 3, rule 4, simp add: issued_response_def, rule 5, rule 6) (simp_all add: issued_access_def)
qed

lemma code_flow_succeeds_witness:
  "\<exists>s1. performs_all mem_ops 2000 (authorize_calls sample_env sample_server sample_authorize sample_client sample_subject 2000 ''code'' ''family'') registered_store = Some s1"
proof -
  have "0 < srv_codeTTL sample_server" "0 < srv_accessTTL sample_server"
    by (simp_all add: sample_server_def default_server_def DefaultAuthorizationCodeTTL_def DefaultAccessTokenTTL_def Minute_def Second_def Millisecond_def)
  moreover have "mget (ms_clients registered_store) (cl_ID sample_client) = Some sample_client" "\<not> client_dead (store_now 2000) sample_client"
    using sample_times by (simp_all add: sample_store_defs mget_def sample_client_fields)
  moreover have "mget (ms_codes registered_store) h = None" "mget (ms_access registered_store) h = None" "mget (ms_refresh registered_store) h = None" for h
    by (simp_all add: sample_store_defs)
  moreover have "vf_resource sample_resource \<in> set (form_values sample_authorize ''resource'')" "TrimSpace ''access'' \<noteq> []" "su_ID sample_subject \<noteq> []"
    by (simp_all add: sample_resource_def sample_form TrimSpace_visible visible_def sample_subject_def)
  ultimately show ?thesis
    using code_flow_succeeds [of registered_store sample_client 2000 sample_subject "''family''" sample_env sample_server sample_authorize sample_token "''code''"
      "''access''" "''refresh''" sample_resource "[]"] sample_good sample_redeeming sample_sha256
    by (auto simp: sample_form sample_token_form sample_client_fields)
qed

subsection \<open>The shape of the store\<close>

text \<open>Every record is filed under its own identifier, which is not empty, and no key occurs twice.\<close>

definition mem_typed :: "mem_store \<Rightarrow> bool" where
  "mem_typed s \<longleftrightarrow> mem_ok s \<and>
     list_all (\<lambda>(k, c). cl_ID c = k \<and> k \<noteq> []) (ms_clients s) \<and> list_all (\<lambda>(k, c). ac_Hash c = k \<and> k \<noteq> []) (ms_codes s) \<and>
     list_all (\<lambda>(k, c). at_Hash c = k \<and> k \<noteq> []) (ms_access s) \<and> list_all (\<lambda>(k, c). rt_Hash c = k \<and> k \<noteq> []) (ms_refresh s)"

lemma list_all_mput: "list_all P m \<Longrightarrow> P (k, v) \<Longrightarrow> list_all P (mput k v m)"
  by (induction m) (auto simp: mput_def)

lemma list_all_mdel: "list_all P m \<Longrightarrow> list_all P (mdel k m)"
  by (induction m) (auto simp: mdel_def AList.delete_eq)

lemma list_all_filed: "list_all (\<lambda>(k, c). g c = k \<and> k \<noteq> []) m \<Longrightarrow> mget m k = Some v \<Longrightarrow> g v = k"
  by (auto simp: mget_def list_all_iff dest: map_of_SomeD)

lemma typed_filed:
  assumes "mem_typed s"
  shows "mget (ms_codes s) k = Some c \<Longrightarrow> ac_Hash c = k" and "mget (ms_access s) k = Some a \<Longrightarrow> at_Hash a = k"
    and "mget (ms_refresh s) k = Some r \<Longrightarrow> rt_Hash r = k"
  using list_all_filed [of ac_Hash "ms_codes s" k c] list_all_filed [of at_Hash "ms_access s" k a] list_all_filed [of rt_Hash "ms_refresh s" k r] assms
  unfolding mem_typed_def by blast+

lemma list_all_filter: "list_all P m \<Longrightarrow> list_all P (filter Q m)"
  by (induction m) auto

lemma list_all_map_val: "list_all P m \<Longrightarrow> (\<And>k v. P (k, v) \<Longrightarrow> P (k, f v)) \<Longrightarrow> list_all P (map (\<lambda>(k, v). (k, f v)) m)"
  by (induction m) auto

text \<open>C39. The store in memory is well formed at every moment: a store that files every record under its own, non-empty
  identifier and holds no key twice does so after every operation, whichever it is and whatever it answers; the empty
  store does.\<close>

theorem mem_store_typed:
  "mem_typed NewStore \<and> (mem_typed s \<and> store_step mem_ops t e s = Some s' \<longrightarrow> mem_typed s')"
proof (intro conjI impI)
  show "mem_typed NewStore" by (simp add: mem_typed_def NewStore_def mem_ok_def)
next
  assume a: "mem_typed s \<and> store_step mem_ops t e s = Some s'"
  then have "mem_ok s'" using mem_step_ok unfolding mem_typed_def by blast
  then show "mem_typed s'"
    using a
    by (cases e) (auto simp: mem_typed_def mem_ops_def answered_def mem_op_defs RevokeFamily_mem_def Sweep_mem_def Let_def revoke_access_def revoke_refresh_def
      split: option.splits if_splits intro!: list_all_mput list_all_mdel list_all_filter list_all_map_val, (erule typed_filed [OF conjunct1 [OF a]])+)
qed

lemma mem_store_typed_witness: "mem_typed registered_store"
proof -
  have "store_step mem_ops 2000 (EvCreateClient sample_client None) NewStore = Some registered_store"
    by (simp add: mem_ops_def answered_def CreateClient_mem_def sample_client_fields sample_store_defs mput_def)
  then show ?thesis using mem_store_typed [of NewStore 2000 "EvCreateClient sample_client None" registered_store] by blast
qed

subsection \<open>Two behaviours the comments do not expect\<close>

text \<open>A replay that is detected can leave the pair of the first redemption usable. Redeeming a code and issuing its tokens are
  separate calls to the store: when a replay of the code is answered between them, the family is revoked while it has no
  tokens, and the pair the first request then issues stays live. There is such a run, on the store in memory.\<close>

theorem replay_between_redeem_and_issue:
  "\<exists>w. world_run sample_env sample_server mem_ops start w \<and>
     occurs (log_of w) (Store (EvConsumeCode (Hash sample_env ''code'') (Refused ErrAlreadyRedeemed (Some sample_redeemed)))) \<and>
     occurs (log_of w) (Store (EvRevokeFamily ''family'' (Inr 0))) \<and>
     GetAccessToken_mem 2000 (Hash sample_env ''access'') (wd_store w) = (Inr sample_access, wd_store w) \<and> at_FamilyID sample_access = ''family''"
proof -
  obtain k where k: "replaying_prog = RevokeFamily ''family'' k" using sample_traces(6) by blast
  let ?r = "Store (EvRevokeFamily ''family'' (Inr 0))"
  let ?replay = "\<lparr>th_prog = k (Inr 0), th_log = replay_log @ [?r]\<rparr>"
  let ?w1 = "\<lparr>wd_store = redeemed_store, wd_threads = wd_threads redeemed_world @ [?replay]\<rparr>"
  let ?w2 = "\<lparr>wd_store = issued_store, wd_threads = granted_threads @ [\<lparr>th_prog = Ret token_reply, th_log = redeem_log @ issue_log\<rparr>, ?replay]\<rparr>"
  have "after (TokenHandler sample_env sample_server sample_token) (replay_log @ [?r]) = Some (k (Inr 0))"
    using sample_traces(5) by (simp add: after_append k)
  moreover have "performs_all mem_ops 2000 (replay_log @ [?r]) redeemed_store = Some redeemed_store"
    using replay_performed [of redeemed_store]
    by (simp add: performs_all_append sample_store_defs) (simp add: performs_def mem_ops_def answered_def RevokeFamily_mem_def Let_def)
  moreover have "fresh_log sample_env logs [] (replay_log @ [?r])" for logs
    by (simp add: replay_log_def redeem_calls_def)
  ultimately have "served sample_env sample_server mem_ops 2000 (Token sample_token) (replay_log @ [?r]) (k (Inr 0)) redeemed_world ?w1"
    by (simp add: served_def redeemed_world_def)
  then have 1: "world_run sample_env sample_server mem_ops start ?w1" using redeemed_run served_run run_trans by blast
  have "fresh_log sample_env (map th_log (granted_threads @ [?replay])) redeem_log issue_log"
    by (rule issue_fresh [of _ "[?r]"]) (auto simp: granted_threads_def minted_simps)
  from calls_run [OF sample_traces(4) issue_performed this] have "world_run sample_env sample_server mem_ops ?w1 ?w2"
    by (simp add: redeemed_world_def)
  with 1 have "world_run sample_env sample_server mem_ops start ?w2" by (rule run_trans)
  moreover have "log_of ?w2 3 = replay_log @ [?r]" by (simp add: log_of_def granted_threads_def)
  then have "?r \<in> set (log_of ?w2 3)" "Store (EvConsumeCode (Hash sample_env ''code'') (Refused ErrAlreadyRedeemed (Some sample_redeemed))) \<in> set (log_of ?w2 3)"
    by (simp_all add: replay_log_def redeem_calls_def sample_token_form)
  then have "occurs (log_of ?w2) ?r" "occurs (log_of ?w2) (Store (EvConsumeCode (Hash sample_env ''code'') (Refused ErrAlreadyRedeemed (Some sample_redeemed))))"
    unfolding occurs_def by blast+
  moreover have "GetAccessToken_mem 2000 (Hash sample_env ''access'') (wd_store ?w2) = (Inr sample_access, wd_store ?w2)"
    using sample_verified(2) by (simp add: performs_def mem_ops_def answered_def split: if_splits) (metis prod.collapse)
  ultimately show ?thesis using sample_issued(3) by blast
qed

text \<open>Sweeping forgets that a code was redeemed. An expired code that was redeemed is answered as a replay, with its record,
  before a sweep and as unknown after it, so that the replay no longer reaches the revocation of the family.\<close>

theorem sweep_forgets_replays:
  assumes "mem_ok s" and "mget (ms_codes s) h = Some code" and "h \<noteq> []" and "\<not> time_is_zero (ac_RedeemedAt code)" and "\<not> store_now t < ac_ExpiresAt code"
  shows "fst (ConsumeAuthorizationCode_mem t h s) = Refused ErrAlreadyRedeemed (Some code) \<and>
    fst (ConsumeAuthorizationCode_mem t h (snd (Sweep_mem t s))) = Refused ErrNotFound None"
proof -
  have "mget (ms_codes (snd (Sweep_mem t s))) h = None"
    using assms(1,2,5) by (simp add: Sweep_mem_def Let_def mem_ok_def mget_filter_val only_if_def)
  then show ?thesis using assms(2-4) by (simp add: ConsumeAuthorizationCode_mem_def)
qed

lemma sweep_forgets_replays_witness:
  "fst (ConsumeAuthorizationCode_mem 120000000000 (Hash sample_env ''code'') (snd (Sweep_mem 120000000000 redeemed_store))) = Refused ErrNotFound None"
proof -
  have "\<not> store_now 120000000000 < ac_ExpiresAt sample_redeemed"
    by (simp add: store_now_def sample_redeemed_def sample_code_def sample_server_def default_server_def DefaultAuthorizationCodeTTL_def Minute_def Second_def Millisecond_def)
  then show ?thesis
    using sweep_forgets_replays [of redeemed_store "Hash sample_env ''code''" sample_redeemed 120000000000] sample_digests(7) sample_issued(8)
    by (simp add: mem_ok_def is_map_def sample_store_defs mget_def)
qed

end
