(* ===== verification/GoText.thy ===== *)
theory GoText
  imports GoStrings
begin

text \<open>
  The functions of \<^verbatim>\<open>strings\<close> the packages compose text with, and computations that may panic: a panic is the left
  of a sum and ends the computation there.
\<close>

subsection \<open>Computations that may panic\<close>

primrec attempt :: "'e + 'a \<Rightarrow> ('a \<Rightarrow> 'e + 'b) \<Rightarrow> 'e + 'b" where
  "attempt (Inl e) f = Inl e"
| "attempt (Inr x) f = f x"

text \<open>A loop that appends one result per element.\<close>

primrec attempt_all :: "('a \<Rightarrow> 'e + 'b) \<Rightarrow> 'a list \<Rightarrow> 'e + 'b list" where
  "attempt_all f [] = Inr []"
| "attempt_all f (x # xs) = attempt (f x) (\<lambda>y. attempt (attempt_all f xs) (\<lambda>ys. Inr (y # ys)))"

text \<open>A guard: the panic \<open>e\<close> unless the condition holds.\<close>

definition require :: "bool \<Rightarrow> 'e \<Rightarrow> 'e + unit" where
  "require b e = (if b then Inr () else Inl e)"

named_theorems returns_iff \<open>when a computation that may panic returns, and what\<close>

lemma attempt_returns [returns_iff]: "attempt m f = Inr y \<longleftrightarrow> (\<exists>x. m = Inr x \<and> f x = Inr y)"
  by (cases m) auto

lemma attempt_all_returns [returns_iff]:
  "attempt_all f xs = Inr ys \<longleftrightarrow> list_all2 (\<lambda>x y. f x = Inr y) xs ys"
  by (induction xs arbitrary: ys) (auto simp: attempt_returns list_all2_Cons1)

lemma require_returns [returns_iff]: "require b e = Inr u \<longleftrightarrow> b"
  by (simp add: require_def)

lemma require_simps [simp]: "require True e = Inr ()" "require False e = Inl e"
  by (simp_all add: require_def)

lemma Inr_returns [returns_iff]: "(Inr x = (Inr y :: 'e + 'a)) \<longleftrightarrow> x = y"
  by simp

lemma attempt_panics: "attempt m f = Inl e \<longleftrightarrow> m = Inl e \<or> (\<exists>x. m = Inr x \<and> f x = Inl e)"
  by (cases m) auto

lemma attempt_all_Inr: "\<forall>x \<in> set xs. \<exists>y. f x = Inr y \<Longrightarrow> \<exists>ys. attempt_all f xs = Inr ys"
  by (induction xs) auto

lemma attempt_all_map: "\<forall>x \<in> set xs. f x = Inr (g x) \<Longrightarrow> attempt_all f xs = Inr (map g xs)"
  by (induction xs) auto

lemma attempt_all_append [simp]:
  "attempt_all f (xs @ ys) = attempt (attempt_all f xs) (\<lambda>us. attempt (attempt_all f ys) (\<lambda>vs. Inr (us @ vs)))"
proof (induction xs)
  case Nil
  show ?case by (cases "attempt_all f ys") auto
next
  case (Cons x xs)
  then show ?case by (cases "f x"; cases "attempt_all f xs"; cases "attempt_all f ys") auto
qed

subsection \<open>Text\<close>

abbreviation nl :: string where "nl \<equiv> [CHR 0x0A]"
abbreviation tab :: string where "tab \<equiv> [CHR 0x09]"
abbreviation apos :: string where "apos \<equiv> [CHR 0x27]"

text \<open>\<^verbatim>\<open>strings.Join\<close>.\<close>

fun Join :: "string list \<Rightarrow> string \<Rightarrow> string" where
  "Join [] sep = []"
| "Join [x] sep = x"
| "Join (x # y # xs) sep = x @ sep @ Join (y # xs) sep"

text \<open>\<^verbatim>\<open>strings.Split\<close> at a byte.\<close>

definition Split :: "string \<Rightarrow> char \<Rightarrow> string list" where
  "Split s sep = split_by ((=) sep) s"

text \<open>
  \<^verbatim>\<open>strings.ReplaceAll\<close> of one byte, and a \<^verbatim>\<open>strings.NewReplacer\<close> whose old strings are single bytes, which looks every
  byte up once.
\<close>

definition ReplaceAll :: "string \<Rightarrow> char \<Rightarrow> string \<Rightarrow> string" where
  "ReplaceAll s old new = concat (map (\<lambda>c. if c = old then new else [c]) s)"

definition Replace_bytes :: "(char \<times> string) list \<Rightarrow> string \<Rightarrow> string" where
  "Replace_bytes tbl s = concat (map (\<lambda>c. case map_of tbl c of None \<Rightarrow> [c] | Some r \<Rightarrow> r) s)"

definition HasPrefix :: "string \<Rightarrow> string \<Rightarrow> bool" where
  "HasPrefix s p \<longleftrightarrow> take (length p) s = p"

definition HasSuffix :: "string \<Rightarrow> string \<Rightarrow> bool" where
  "HasSuffix s p \<longleftrightarrow> length p \<le> length s \<and> drop (length s - length p) s = p"

definition TrimSuffix :: "string \<Rightarrow> string \<Rightarrow> string" where
  "TrimSuffix s p = (if HasSuffix s p then take (length s - length p) s else s)"

text \<open>\<^verbatim>\<open>strings.TrimRight\<close> with a set of bytes to cut.\<close>

definition TrimRight :: "string \<Rightarrow> string \<Rightarrow> string" where
  "TrimRight s cutset = rev (dropWhile (\<lambda>c. c \<in> set cutset) (rev s))"

text \<open>
  \<^verbatim>\<open>strings.ToUpper\<close> of a string of one byte: a byte that is no rune of its own comes back as the encoding of the
  replacement character.
\<close>

definition ToUpper_byte :: "char \<Rightarrow> string" where
  "ToUpper_byte c =
     (if 97 \<le> (of_char c :: nat) \<and> of_char c \<le> (122 :: nat) then [char_of (of_char c - 32 :: nat)]
      else if (of_char c :: nat) < 128 then [c]
      else map char_of [0xEF, 0xBF, 0xBD :: nat])"

lemma Join_Cons: "Join (x # xs) sep = x @ (if xs = [] then [] else sep @ Join xs sep)"
  by (cases xs) auto

lemma Join_append: "Join (xs @ ys) sep = Join xs sep @ (if xs = [] \<or> ys = [] then [] else sep) @ Join ys sep"
  by (induction xs) (auto simp: Join_Cons)

lemma Join_single_sep: "Join xs [c] = join c xs"
  by (induction c xs rule: join.induct) auto

lemma Split_Join: "xs \<noteq> [] \<Longrightarrow> \<forall>x \<in> set xs. c \<notin> set x \<Longrightarrow> Split (Join xs [c]) c = xs"
  by (simp add: Join_single_sep Split_def split_by_join)

lemma HasPrefix_append [simp]: "HasPrefix (p @ s) p"
  by (simp add: HasPrefix_def)

lemma HasPrefix_iff: "HasPrefix s p \<longleftrightarrow> (\<exists>t. s = p @ t)"
  unfolding HasPrefix_def by (metis append_eq_conv_conj append_take_drop_id)

lemma HasSuffix_append [simp]: "HasSuffix (s @ p) p"
  by (simp add: HasSuffix_def)

lemma HasSuffix_iff: "HasSuffix s p \<longleftrightarrow> (\<exists>t. s = t @ p)"
proof
  assume "HasSuffix s p"
  then have "s = take (length s - length p) s @ p"
    using append_take_drop_id [of "length s - length p" s] by (simp add: HasSuffix_def)
  then show "\<exists>t. s = t @ p" by blast
qed auto

lemma TrimSuffix_append [simp]: "TrimSuffix (s @ p) p = s"
  by (simp add: TrimSuffix_def)

lemma ReplaceAll_append [simp]: "ReplaceAll (s @ t) old new = ReplaceAll s old new @ ReplaceAll t old new"
  by (simp add: ReplaceAll_def)

lemma ReplaceAll_Nil [simp]: "ReplaceAll [] old new = []"
  by (simp add: ReplaceAll_def)

lemma ReplaceAll_Cons [simp]: "ReplaceAll (c # s) old new = (if c = old then new else [c]) @ ReplaceAll s old new"
  by (simp add: ReplaceAll_def)

lemma ReplaceAll_absent: "old \<notin> set s \<Longrightarrow> ReplaceAll s old new = s"
  by (induction s) auto

end
