(* ===== verification/SqlDialect.thy ===== *)
theory SqlDialect
  imports GoText Charset
begin

text \<open>
  The package \<^verbatim>\<open>database/dialect\<close>: the SQL dialects, their bind markers, the names that may be interpolated into query
  text, the quoting of those that may not, and the splitting of DDL into statements.
\<close>

subsection \<open>dialect.go\<close>

type_synonym Dialect = string

definition Postgres :: Dialect where "Postgres = ''postgres''"
definition MySQL :: Dialect where "MySQL = ''mysql''"
definition SQLite :: Dialect where "SQLite = ''sqlite''"

definition Valid_dialect :: "Dialect \<Rightarrow> bool" where
  "Valid_dialect d \<longleftrightarrow> (if d = Postgres \<or> d = MySQL \<or> d = SQLite then True else False)"

definition SupportsSkipLocked :: "Dialect \<Rightarrow> bool" where
  "SupportsSkipLocked d \<longleftrightarrow> d = Postgres \<or> d = MySQL"

definition SupportsRowLocking :: "Dialect \<Rightarrow> bool" where
  "SupportsRowLocking d \<longleftrightarrow> d = Postgres \<or> d = MySQL"

definition SupportsWriteLimit :: "Dialect \<Rightarrow> bool" where
  "SupportsWriteLimit d \<longleftrightarrow> d = MySQL"

definition SupportsNotify :: "Dialect \<Rightarrow> bool" where
  "SupportsNotify d \<longleftrightarrow> d = Postgres"

definition PostgresNotifyStatement :: string where
  "PostgresNotifyStatement = ''SELECT pg_notify($1, '' @ apos @ apos @ '')''"

text \<open>\<^verbatim>\<open>ErrUnsupported\<close> wrapped with the component, the dialect and the tail of the message.\<close>

datatype dialect_error = ErrUnsupported string Dialect string

definition requirement :: "Dialect list \<Rightarrow> string" where
  "requirement want =
     (let names = map (\<lambda>w. w) want
      in if length names = 1 then names ! 0 else ''one of '' @ Join names '', '')"

definition RequireDialect :: "string \<Rightarrow> Dialect \<Rightarrow> Dialect list \<Rightarrow> dialect_error option" where
  "RequireDialect component d want =
     (if length want = 0 then Some (ErrUnsupported component d ''RequireDialect called with no accepted dialects'')
      else if d \<in> set want then None
      else Some (ErrUnsupported component d (''requires '' @ requirement want)))"

definition RequirePostgres :: "string \<Rightarrow> Dialect \<Rightarrow> dialect_error option" where
  "RequirePostgres component d = RequireDialect component d [Postgres]"

text \<open>An \<^verbatim>\<open>int\<close> is a word of 64 bits read with its sign.\<close>

definition Placeholder :: "Dialect \<Rightarrow> u64 \<Rightarrow> string" where
  "Placeholder d n = (if d = Postgres then ''$'' @ FormatInt (sint n) else ''?'')"

text \<open>\<^verbatim>\<open>make\<close> panics on a negative capacity, which is \<^const>\<open>None\<close>.\<close>

definition Placeholders :: "Dialect \<Rightarrow> u64 \<Rightarrow> u64 \<Rightarrow> string option" where
  "Placeholders d start count =
     (if sint count < 0 then None
      else let parts = foldl (\<lambda>parts i. parts @ [Placeholder d (start + word_of_nat i)]) [] [0..<nat (sint count)]
           in Some (Join parts '', ''))"

definition IdentifierChars :: cset where
  "IdentifierChars = UnionSet ASCIIAlphanumeric [Bytes [0x5F]]"

definition IdentifierLeadChars :: cset where
  "IdentifierLeadChars = UnionSet ASCIILetters [Bytes [0x5F]]"

definition identifier_rule :: checker where
  "identifier_rule = New IdentifierChars [WithFirst IdentifierLeadChars, WithSeparator 0x2E 2]"

definition ValidIdentifier :: "string \<Rightarrow> bool" where
  "ValidIdentifier s = Valid identifier_rule s"

definition QuoteIdentifier :: "Dialect \<Rightarrow> string \<Rightarrow> string" where
  "QuoteIdentifier d idt =
     (let quote = (if d = MySQL then CHR 0x60 else CHR 0x22)
      in [quote] @ ReplaceAll idt quote [quote, quote] @ [quote])"

definition stripComments :: "string \<Rightarrow> string" where
  "stripComments ddl =
     (let kept = foldl (\<lambda>kept line. let trimmed = TrimSpace line
                                    in if trimmed \<noteq> [] \<and> \<not> HasPrefix trimmed ''--'' then kept @ [line] else kept)
                       [] (Split ddl CHR 0x0A)
      in Join kept nl)"

definition SplitStatements :: "string \<Rightarrow> string list" where
  "SplitStatements ddl =
     foldl (\<lambda>stmts raw. let stmt = TrimSpace raw in if stmt \<noteq> [] then stmts @ [stmt] else stmts)
       [] (Split (stripComments ddl) CHR '';'')"

subsection \<open>The dialects\<close>

lemma dialects_distinct [simp]:
  "Postgres \<noteq> MySQL" "MySQL \<noteq> Postgres" "Postgres \<noteq> SQLite" "SQLite \<noteq> Postgres" "MySQL \<noteq> SQLite" "SQLite \<noteq> MySQL"
  by (simp_all add: Postgres_def MySQL_def SQLite_def)

lemma Valid_dialect_cases: "Valid_dialect d \<Longrightarrow> d = Postgres \<or> d = MySQL \<or> d = SQLite"
  by (simp add: Valid_dialect_def split: if_splits)

text \<open>Loops that append are maps and filters.\<close>

lemma foldl_append_filter:
  "foldl (\<lambda>acc x. if P x then acc @ [f x] else acc) acc xs = acc @ map f (filter P xs)"
  by (induction xs arbitrary: acc) auto

lemma stripComments_filter:
  "stripComments ddl =
     Join (filter (\<lambda>line. TrimSpace line \<noteq> [] \<and> \<not> HasPrefix (TrimSpace line) ''--'') (Split ddl CHR 0x0A)) nl"
  using foldl_append_filter [of "\<lambda>line. TrimSpace line \<noteq> [] \<and> \<not> HasPrefix (TrimSpace line) ''--''" "\<lambda>line. line" "[]"]
  by (simp add: stripComments_def Let_def)

lemma SplitStatements_filter:
  "SplitStatements ddl = filter (\<lambda>s. s \<noteq> []) (map TrimSpace (Split (stripComments ddl) CHR '';''))"
  using foldl_append_filter [of "\<lambda>raw. TrimSpace raw \<noteq> []" TrimSpace "[]"]
  by (simp add: SplitStatements_def Let_def filter_map comp_def)

subsection \<open>Identifiers\<close>

definition lead_char :: "char \<Rightarrow> bool" where
  "lead_char c \<longleftrightarrow> (let n = of_char c in 97 \<le> n \<and> n \<le> 122 \<or> 65 \<le> n \<and> n \<le> 90 \<or> n = (95 :: nat))"

definition word_char :: "char \<Rightarrow> bool" where
  "word_char c \<longleftrightarrow> lead_char c \<or> is_digit c"

text \<open>What an interpolated name consists of, the separator of schema and name included.\<close>

definition ident_char :: "char \<Rightarrow> bool" where
  "ident_char c \<longleftrightarrow> word_char c \<or> c = CHR ''.''"

definition ident :: "string \<Rightarrow> bool" where
  "ident s \<longleftrightarrow> s \<noteq> [] \<and> list_all ident_char s"

lemma byte_of_le: "byte_of c \<le> b \<longleftrightarrow> of_char c \<le> unat b" "b \<le> byte_of c \<longleftrightarrow> unat b \<le> of_char c"
  by (simp_all add: word_le_nat_alt)

lemma byte_of_eq: "byte_of c = b \<longleftrightarrow> of_char c = unat b"
  by (simp flip: unat_byte_of add: word_unat_eq_iff)

lemma Contains_lead: "Contains IdentifierLeadChars (byte_of c) \<longleftrightarrow> lead_char c"
  by (auto simp: IdentifierLeadChars_def ASCIILetters_def ASCIILower_def ASCIIUpper_def lead_char_def Let_def
      byte_of_le byte_of_eq)

lemma Contains_word: "Contains IdentifierChars (byte_of c) \<longleftrightarrow> word_char c"
  by (auto simp: IdentifierChars_def ASCIIAlphanumeric_def ASCIIDigits_def ASCIILetters_def ASCIILower_def ASCIIUpper_def
      word_char_def lead_char_def is_digit_def Let_def byte_of_le byte_of_eq)

lemma wf_identifier_sets: "wf_cset IdentifierChars" "wf_cset IdentifierLeadChars"
  by (simp_all add: IdentifierChars_def IdentifierLeadChars_def ASCIIAlphanumeric_def ASCIIDigits_def ASCIILetters_def
      ASCIILower_def ASCIIUpper_def)

lemma word_char_not_dot: "word_char c \<Longrightarrow> byte_of c \<noteq> 0x2E" "lead_char c \<Longrightarrow> byte_of c \<noteq> 0x2E"
  by (auto simp: word_char_def lead_char_def is_digit_def Let_def byte_of_eq)

lemma byte_of_dot: "byte_of c = 0x2E \<longleftrightarrow> CHR ''.'' = c"
proof -
  have "byte_of CHR ''.'' = 0x2E" by (simp add: byte_of_def)
  then show ?thesis using byte_of_eq_iff [of "CHR ''.''" c] by metis
qed

text \<open>A name is one or two words joined by a dot, each a letter or underscore and then letters, digits and underscores.\<close>

lemma ValidIdentifier_iff:
  "ValidIdentifier s \<longleftrightarrow>
     length (Split s CHR ''.'') \<le> 2 \<and>
     list_all (\<lambda>g. g \<noteq> [] \<and> lead_char (hd g) \<and> list_all word_char (tl g)) (Split s CHR ''.'')"
proof -
  have c: "ck_minLength identifier_rule = 1" "ck_maxLength identifier_rule = -1" "ck_segmented identifier_rule"
    "ck_separator identifier_rule = 0x2E" "ck_maxSegs identifier_rule = 2" "ck_hasFirst identifier_rule"
    "ck_first identifier_rule = Without IdentifierLeadChars [Bytes [0x2E]]"
    "ck_body identifier_rule = Without IdentifierChars [Bytes [0x2E]]"
    by (simp_all add: identifier_rule_def New_def WithFirst_def WithSeparator_def)
  have segs: "segments_of identifier_rule s = Split s CHR ''.''"
    by (simp add: segments_of_def c Split_def byte_of_dot)
  have "validSegment identifier_rule g \<longleftrightarrow> g \<noteq> [] \<and> lead_char (hd g) \<and> list_all word_char (tl g)" for g
    using word_char_not_dot
    by (cases g) (auto simp: validSegment_def c wf_identifier_sets Contains_lead Contains_word list_all_iff)
  then have "Valid identifier_rule s \<longleftrightarrow>
      s \<noteq> [] \<and> list_all (\<lambda>g. g \<noteq> [] \<and> lead_char (hd g) \<and> list_all word_char (tl g)) (Split s CHR ''.'') \<and>
      length (Split s CHR ''.'') \<le> 2"
    unfolding Valid_segments segs by (cases s) (auto simp: c list_all_iff)
  moreover have "Split s CHR ''.'' = [[]]" if "s = []" using that by (simp add: Split_def)
  ultimately show ?thesis by (auto simp: ValidIdentifier_def)
qed

lemma split_by_chars: "(\<forall>g \<in> set (split_by P s). \<forall>x \<in> set g. Q x) \<Longrightarrow> x \<in> set s \<Longrightarrow> P x \<or> Q x"
  by (induction s) (auto split: if_splits list.splits)

lemma ValidIdentifier_ident: "ValidIdentifier s \<Longrightarrow> ident s"
proof -
  assume v: "ValidIdentifier s"
  then have "s \<noteq> []" by (auto simp: ValidIdentifier_iff Split_def)
  moreover have "\<forall>g \<in> set (Split s CHR ''.''). \<forall>x \<in> set g. word_char x"
  proof (intro ballI)
    fix g x assume "g \<in> set (Split s CHR ''.'')" "x \<in> set g"
    with v have "x = hd g \<and> lead_char (hd g) \<or> word_char x"
      by (cases g) (auto simp: ValidIdentifier_iff list_all_iff)
    then show "word_char x" by (auto simp: word_char_def)
  qed
  then have "ident_char x" if "x \<in> set s" for x
    using split_by_chars [of "(=) CHR ''.''" s word_char x] that by (auto simp: Split_def ident_char_def)
  ultimately show ?thesis by (simp add: ident_def list_all_iff)
qed

lemma ident_char_visible: "ident_char c \<Longrightarrow> visible c"
  by (auto simp: ident_char_def word_char_def lead_char_def is_digit_def visible_def Let_def)

text \<open>The bytes that structure a statement are in no name.\<close>

lemma ident_chars_plain:
  "ident_char c \<Longrightarrow>
     c \<notin> {CHR 0x0A, CHR 0x09, CHR '' '', CHR '','', CHR '';'', CHR ''('', CHR '')'', CHR 0x27, CHR 0x22, CHR 0x60,
          CHR ''-'', CHR ''/'', CHR ''*'', CHR ''#'', CHR ''='', CHR ''!'', CHR ''<'', CHR ''>''}"
  by (auto simp: ident_char_def word_char_def lead_char_def is_digit_def Let_def)

lemma ident_append [simp]: "ident s \<Longrightarrow> ident t \<Longrightarrow> ident (s @ t)"
  by (simp add: ident_def)

lemma ident_not_Nil [simp]: "ident s \<Longrightarrow> s \<noteq> []"
  by (simp add: ident_def)

lemma ident_no: "ident s \<Longrightarrow> \<not> ident_char c \<Longrightarrow> c \<notin> set s"
  by (auto simp: ident_def list_all_iff)

subsection \<open>Quoting\<close>

text \<open>
  How a server reads a quoted identifier: the text up to the closing quote, a doubled quote standing for one, and what
  is left after it.
\<close>

fun read_quoted :: "char \<Rightarrow> string \<Rightarrow> (string \<times> string) option" where
  "read_quoted q [] = None"
| "read_quoted q [c] = (if c = q then Some ([], []) else None)"
| "read_quoted q (c # c' # s) =
     (if c \<noteq> q then map_option (apfst ((#) c)) (read_quoted q (c' # s))
      else if c' = q then map_option (apfst ((#) q)) (read_quoted q s)
      else Some ([], c' # s))"

definition quote_of :: "Dialect \<Rightarrow> char" where
  "quote_of d = (if d = MySQL then CHR 0x60 else CHR 0x22)"

lemma read_quoted_ReplaceAll:
  "\<not> HasPrefix rest [q] \<Longrightarrow> read_quoted q (ReplaceAll s q [q, q] @ q # rest) = Some (s, rest)"
proof (induction s)
  case Nil
  then show ?case by (cases rest) (auto simp: HasPrefix_def)
next
  case (Cons c s)
  show ?case
  proof (cases "c = q")
    case True
    with Cons show ?thesis by simp
  next
    case False
    with Cons show ?thesis by (cases "ReplaceAll s q [q, q] @ q # rest") auto
  qed
qed

lemma QuoteIdentifier_quote: "QuoteIdentifier d s = quote_of d # ReplaceAll s (quote_of d) [quote_of d, quote_of d] @ [quote_of d]"
  by (simp add: QuoteIdentifier_def quote_of_def Let_def)

subsection \<open>Bind markers\<close>

lemma Placeholders_map:
  "0 \<le> sint count \<Longrightarrow>
     Placeholders d start count = Some (Join (map (\<lambda>i. Placeholder d (start + word_of_nat i)) [0..<nat (sint count)]) '', '')"
  using foldl_append_map [of "\<lambda>i. Placeholder d (start + word_of_nat i)" "[]"] by (simp add: Placeholders_def Let_def)

end
