(* ===== verification/QueryGen.thy ===== *)
theory QueryGen
  imports SqlDialect Filtering
begin

text \<open>
  The package \<^verbatim>\<open>database/querygen\<close>, first part: columns, annotated queries, directions, the expressions the dialects
  disagree about, predicates, orderings, locks, bounds and joins (\<^verbatim>\<open>columns.go\<close>, \<^verbatim>\<open>query.go\<close>, \<^verbatim>\<open>direction.go\<close>,
  \<^verbatim>\<open>generator.go\<close>, \<^verbatim>\<open>fragments.go\<close>, \<^verbatim>\<open>keyed.go\<close>, \<^verbatim>\<open>lock.go\<close>, \<^verbatim>\<open>bounded.go\<close>, \<^verbatim>\<open>junction.go\<close>).

  A statement is the string the generator renders. A panic is a value of \<open>querygen_error\<close>, the sentinel with what its
  message names, and arguments are evaluated in the order of the source, so that the first panic is the one reported.
\<close>

unbundle bit_operations_syntax

subsection \<open>Panics\<close>

datatype querygen_error =
    ErrUnsupportedDialect Dialect
  | ErrInvalidIdentifier string string
  | ErrMissingIDColumn string
  | ErrUnaddressableRow string
  | ErrArgumentlessMatch string string string
  | ErrDuplicateQueryName string string
  | ErrNilRegistry
  | ErrIncompleteJunction string
  | ErrDegenerateInsert string string
  | ErrDegenerateUpsert string string
  | ErrUnknownLockMode string
  | ErrUnorderedBoundedStatement string
  | ErrUnpredicatedStatement string
  | ErrUnknownSearchColumn string string
  | ErrMissingSetColumn string
  | ErrPositionalSetInList Dialect string
  | ErrDegeneratePrune string string
  | ErrIncompleteClosure string

definition mustIdentifier :: "string \<Rightarrow> string \<Rightarrow> querygen_error + unit" where
  "mustIdentifier kind name = require (ValidIdentifier name) (ErrInvalidIdentifier kind name)"

text \<open>The loops that vet a list of names.\<close>

definition mustIdentifiers :: "string \<Rightarrow> string list \<Rightarrow> querygen_error + unit" where
  "mustIdentifiers kind names = attempt (attempt_all (mustIdentifier kind) names) (\<lambda>_. Inr ())"

subsection \<open>columns.go\<close>

definition IDColumn :: string where "IDColumn = ''id''"
definition CreatedAtColumn :: string where "CreatedAtColumn = ''created_at''"
definition LastUpdatedAtColumn :: string where "LastUpdatedAtColumn = ''last_updated_at''"
definition ArchivedAtColumn :: string where "ArchivedAtColumn = ''archived_at''"
definition LastIndexedAtColumn :: string where "LastIndexedAtColumn = ''last_indexed_at''"
definition BelongsToAccountColumn :: string where "BelongsToAccountColumn = ''belongs_to_account''"

definition CursorArg :: string where "CursorArg = ''page_cursor''"
definition LimitArg :: string where "LimitArg = ''result_limit''"
definition IncludeArchivedArg :: string where "IncludeArchivedArg = ''include_archived''"
definition CreatedAfterArg :: string where "CreatedAfterArg = ''created_after''"
definition CreatedBeforeArg :: string where "CreatedBeforeArg = ''created_before''"
definition UpdatedAfterArg :: string where "UpdatedAfterArg = ''updated_after''"
definition UpdatedBeforeArg :: string where "UpdatedBeforeArg = ''updated_before''"
definition OffsetArg :: string where "OffsetArg = ''result_offset''"
definition ReindexCursorArg :: string where "ReindexCursorArg = ''reindex_cursor''"
definition IDsArg :: string where "IDsArg = ''ids''"

definition NowExpression :: string where "NowExpression = ''CURRENT_TIMESTAMP''"

definition databaseOwnedColumns :: "string list" where
  "databaseOwnedColumns = [ArchivedAtColumn, CreatedAtColumn, LastUpdatedAtColumn, LastIndexedAtColumn]"

definition without :: "string list \<Rightarrow> string list \<Rightarrow> string list" where
  "without columns excluded = foldl (\<lambda>out column. if column \<notin> set excluded then out @ [column] else out) [] columns"

definition ForInsert :: "string list \<Rightarrow> string list \<Rightarrow> string list" where
  "ForInsert columns exceptions = without columns (databaseOwnedColumns @ exceptions)"

definition ForUpdate :: "string list \<Rightarrow> string list \<Rightarrow> string list" where
  "ForUpdate columns exceptions = ForInsert columns (exceptions @ [IDColumn])"

definition Qualify :: "string \<Rightarrow> string \<Rightarrow> string" where
  "Qualify table column = concat [table, ''.'', column]"

definition QualifyAll :: "string \<Rightarrow> string list \<Rightarrow> string list" where
  "QualifyAll table columns = foldl (\<lambda>out column. out @ [Qualify table column]) [] columns"

subsection \<open>query.go\<close>

type_synonym QueryType = string

definition ExecType :: QueryType where "ExecType = '':exec''"
definition ExecRowsType :: QueryType where "ExecRowsType = '':execrows''"
definition ManyType :: QueryType where "ManyType = '':many''"
definition OneType :: QueryType where "OneType = '':one''"

record QueryAnnotation =
  qa_Name :: string
  qa_Type :: QueryType

record Query =
  q_Content :: string
  q_Annotation :: QueryAnnotation

text \<open>The composite literal \<^verbatim>\<open>&Query{Annotation: QueryAnnotation{Name: name, Type: t}, Content: c}\<close>.\<close>

definition new_query :: "string \<Rightarrow> QueryType \<Rightarrow> string \<Rightarrow> Query" where
  "new_query name t c = \<lparr>q_Content = c, q_Annotation = \<lparr>qa_Name = name, qa_Type = t\<rparr>\<rparr>"

definition Render :: "Query \<Rightarrow> string" where
  "Render q =
     (let content = q_Content q;
          content = (if \<not> HasSuffix content '';'' then content @ '';'' else content)
      in concat [''-- name: '', qa_Name (q_Annotation q), '' '', qa_Type (q_Annotation q), nl, content, nl])"

definition RenderFile :: "Query list \<Rightarrow> string" where
  "RenderFile queries =
     (if length queries = 0 then []
      else let rendered = foldl (\<lambda>rendered query. rendered @ [Render query]) [] queries;
               lines = foldl (\<lambda>lines line. lines @ [TrimRight line ('' '' @ tab)]) []
                         (Split (TrimSpace (Join rendered nl)) CHR 0x0A)
           in Join lines nl @ nl)"

subsection \<open>direction.go\<close>

type_synonym Direction = int

definition Ascending :: Direction where "Ascending = 0"
definition Descending :: Direction where "Descending = 1"

definition String_Direction :: "Direction \<Rightarrow> string" where
  "String_Direction d = (if d = Descending then ''descending'' else ''ascending'')"

definition direction_keyword :: "Direction \<Rightarrow> string" where
  "direction_keyword d = (if d = Descending then ''DESC'' else ''ASC'')"

definition DirectionOf :: "QueryFilter option \<Rightarrow> Direction" where
  "DirectionOf qfilter = (if SortsDescending qfilter then Descending else Ascending)"

definition DescendingSuffix :: string where "DescendingSuffix = ''Descending''"

definition DescendingName :: "string \<Rightarrow> string" where
  "DescendingName name = name @ DescendingSuffix"

subsection \<open>generator.go and bounded.go: where the dialects disagree\<close>

record Generator =
  gen_dialect :: Dialect

definition For :: "Dialect \<Rightarrow> querygen_error + Generator" where
  "For d = attempt (require (Valid_dialect d) (ErrUnsupportedDialect d)) (\<lambda>_. Inr \<lparr>gen_dialect = d\<rparr>)"

definition Dialect_of :: "Generator \<Rightarrow> Dialect" where
  "Dialect_of g = gen_dialect g"

definition substringMatch :: "Generator \<Rightarrow> string \<Rightarrow> string \<Rightarrow> string" where
  "substringMatch g column argument =
     (if gen_dialect g = MySQL then
        concat [''LOWER('', column, '') LIKE CONCAT('', apos, ''%'', apos, '', LOWER(sqlc.arg('', argument, '')), '', apos, ''%'', apos, '')'']
      else if gen_dialect g = SQLite then
        concat [''LOWER('', column, '') LIKE '', apos, ''%'', apos, '' || LOWER(sqlc.arg('', argument, '')) || '', apos, ''%'', apos]
      else
        concat [column, '' ILIKE '', apos, ''%'', apos, '' || sqlc.arg('', argument, '')::text || '', apos, ''%'', apos])"

definition prefixPatternArgument :: "Generator \<Rightarrow> string \<Rightarrow> string" where
  "prefixPatternArgument g argument =
     (if gen_dialect g = Postgres then concat [''sqlc.arg('', argument, '')::text''] else concat [''sqlc.arg('', argument, '')''])"

definition byteOrdered :: "Generator \<Rightarrow> string \<Rightarrow> string" where
  "byteOrdered g expression =
     (if gen_dialect g = MySQL then concat [''CAST('', expression, '' AS BINARY)'']
      else if gen_dialect g = SQLite then expression @ '' COLLATE BINARY''
      else expression @ '' COLLATE '' @ [CHR 0x22] @ ''C'' @ [CHR 0x22])"

definition timeHorizon :: "Generator \<Rightarrow> string \<Rightarrow> string" where
  "timeHorizon g sign =
     (if gen_dialect g = MySQL then concat [''(SELECT '', NowExpression, '' '', sign, '' INTERVAL 999 YEAR)'']
      else if gen_dialect g = SQLite then concat [''(SELECT datetime('', NowExpression, '', '', apos, sign, ''999 years'', apos, ''))'']
      else concat [''(SELECT '', NowExpression, '' '', sign, '' '', apos, ''999 years'', apos, ''::INTERVAL)''])"

definition storedNow :: "Generator \<Rightarrow> string" where
  "storedNow g = (if gen_dialect g = MySQL then NowExpression @ ''(6)'' else NowExpression)"

definition includeArchivedFlag :: "Generator \<Rightarrow> string" where
  "includeArchivedFlag g =
     (let coalesced = concat [''COALESCE(sqlc.narg('', IncludeArchivedArg, ''), false)'']
      in if gen_dialect g = Postgres then coalesced @ ''::boolean'' else coalesced @ '' = true'')"

definition unsetArgument :: "Generator \<Rightarrow> string \<Rightarrow> string" where
  "unsetArgument g argument =
     (if gen_dialect g = MySQL then concat [''CAST(sqlc.narg('', argument, '') AS CHAR) IS NULL'']
      else if gen_dialect g = SQLite then concat [''CAST(sqlc.narg('', argument, '') AS TEXT) IS NULL'']
      else concat [''sqlc.narg('', argument, '')::text IS NULL''])"

definition doomedAlias :: string where "doomedAlias = ''doomed''"
definition sweepAlias :: string where "sweepAlias = ''bounded''"

type_synonym boundedWriteForm = byte

definition selfReferencingSubquery :: boundedWriteForm where "selfReferencingSubquery = push_bit 0 1"
definition materializedSubquery :: boundedWriteForm where "materializedSubquery = push_bit 1 1"
definition nativeBound :: boundedWriteForm where "nativeBound = push_bit 2 1"

definition has_form :: "boundedWriteForm \<Rightarrow> boundedWriteForm \<Rightarrow> bool" where
  "has_form f form \<longleftrightarrow> f AND form \<noteq> 0"

definition boundedWriteForms :: "Generator \<Rightarrow> boundedWriteForm" where
  "boundedWriteForms g =
     (if SupportsWriteLimit (gen_dialect g) then nativeBound OR materializedSubquery
      else selfReferencingSubquery OR materializedSubquery)"

definition boundedLimit :: "Generator \<Rightarrow> string \<Rightarrow> string" where
  "boundedLimit g argument =
     (if gen_dialect g = MySQL then ''LIMIT '' @ Placeholder (gen_dialect g) 1 else ''LIMIT '' @ argument)"

definition limitClause :: "Generator \<Rightarrow> string" where
  "limitClause g =
     boundedLimit g (concat [''COALESCE(sqlc.narg('', LimitArg, ''), '', FormatInt (uint DefaultQueryFilterLimit), '')''])"

definition capClause :: "Generator \<Rightarrow> string" where
  "capClause g = boundedLimit g (concat [''sqlc.arg('', LimitArg, '')''])"

definition setPredicate :: "Generator \<Rightarrow> string \<Rightarrow> string \<Rightarrow> string" where
  "setPredicate g column argument =
     (if gen_dialect g = Postgres then concat [column, '' = ANY(sqlc.arg('', argument, '')::text[])'']
      else concat [column, '' IN (sqlc.slice('', argument, ''))''])"

definition conflictHeader :: "Generator \<Rightarrow> string list \<Rightarrow> string" where
  "conflictHeader g keyColumns =
     (if gen_dialect g = MySQL then ''ON DUPLICATE KEY UPDATE''
      else concat [''ON CONFLICT ('', Join keyColumns '', '', '') DO UPDATE SET''])"

definition ignoreSpelling :: "Generator \<Rightarrow> string list \<Rightarrow> string \<times> string" where
  "ignoreSpelling g keyColumns =
     (if gen_dialect g = MySQL then (''IGNORE '', [])
      else if gen_dialect g = SQLite then (''OR IGNORE '', [])
      else ([], concat [''ON CONFLICT ('', Join keyColumns '', '', '') DO NOTHING'']))"

definition insertedValue :: "Generator \<Rightarrow> string \<Rightarrow> string" where
  "insertedValue g column =
     (if gen_dialect g = MySQL then concat [''VALUES('', column, '')''] else ''EXCLUDED.'' @ column)"

subsection \<open>lock.go\<close>

datatype LockMode = LockNone | LockExclusive | LockShared | LockExclusiveSkipLocked | OtherLockMode int

definition String_LockMode :: "LockMode \<Rightarrow> string" where
  "String_LockMode m =
     (case m of
        LockNone \<Rightarrow> ''no lock''
      | LockExclusive \<Rightarrow> ''exclusive''
      | LockShared \<Rightarrow> ''shared''
      | LockExclusiveSkipLocked \<Rightarrow> ''exclusive, skipping locked rows''
      | OtherLockMode n \<Rightarrow> ''unknown lock mode '' @ FormatInt n)"

definition lockClause_for :: "LockMode \<Rightarrow> bool \<Rightarrow> bool \<Rightarrow> querygen_error + string" where
  "lockClause_for mode rowLocking skipLocked =
     (let finish = (\<lambda>clause. if \<not> rowLocking then Inr [] else Inr (nl @ clause))
      in case mode of
           LockNone \<Rightarrow> Inr []
         | LockExclusive \<Rightarrow> finish ''FOR UPDATE''
         | LockShared \<Rightarrow> finish ''FOR SHARE''
         | LockExclusiveSkipLocked \<Rightarrow> finish (if skipLocked then ''FOR UPDATE SKIP LOCKED'' else ''FOR UPDATE'')
         | OtherLockMode n \<Rightarrow> Inl (ErrUnknownLockMode (String_LockMode mode)))"

definition lockClause :: "Generator \<Rightarrow> LockMode \<Rightarrow> querygen_error + string" where
  "lockClause g mode =
     lockClause_for mode (SupportsRowLocking (gen_dialect g)) (SupportsSkipLocked (gen_dialect g))"

subsection \<open>keyed.go: what a row is matched by\<close>

datatype Comparand =
    BoundArgument | NoValue | EmptyString | CurrentTime | OptionalArgument | OptionalNarrowing | AtMostArgument
  | OtherComparand int

definition String_Comparand :: "Comparand \<Rightarrow> string" where
  "String_Comparand c =
     (case c of
        BoundArgument \<Rightarrow> ''bound argument''
      | NoValue \<Rightarrow> ''NULL''
      | EmptyString \<Rightarrow> ''the empty string''
      | CurrentTime \<Rightarrow> ''the current time''
      | OptionalArgument \<Rightarrow> ''an optional bound argument''
      | OptionalNarrowing \<Rightarrow> ''an optional narrowing''
      | AtMostArgument \<Rightarrow> ''a bound ceiling''
      | OtherComparand n \<Rightarrow> ''unknown comparand '' @ FormatInt n)"

definition binds :: "Comparand \<Rightarrow> bool" where
  "binds c \<longleftrightarrow> c = BoundArgument \<or> c = OptionalArgument \<or> c = OptionalNarrowing \<or> c = AtMostArgument"

record Match =
  m_Column :: string
  m_Arg :: string
  m_Against :: Comparand
  m_Exclude :: bool

definition match_argument :: "Match \<Rightarrow> string" where
  "match_argument m = (if m_Arg m \<noteq> [] then m_Arg m else m_Column m)"

definition operator :: "Match \<Rightarrow> string" where
  "operator m = (if m_Exclude m then ''<>'' else ''='')"

record Read =
  r_Order :: string
  r_Projection :: "string list"
  r_Lock :: LockMode

definition zero_Read :: Read where
  "zero_Read = \<lparr>r_Order = [], r_Projection = [], r_Lock = LockNone\<rparr>"

definition projecting :: "Read \<Rightarrow> string list \<Rightarrow> string list" where
  "projecting r columns = (if length (r_Projection r) = 0 then columns else r_Projection r)"

definition matchPredicate :: "Generator \<Rightarrow> string \<Rightarrow> Match \<Rightarrow> bool \<Rightarrow> querygen_error + string" where
  "matchPredicate g table match qualified =
     (if m_Arg match \<noteq> [] \<and> \<not> binds (m_Against match)
      then Inl (ErrArgumentlessMatch (m_Column match) (String_Comparand (m_Against match)) (m_Arg match))
      else
        let name = (if qualified then Qualify table (m_Column match) else m_Column match);
            ceiling_op = (if m_Exclude match then ''>'' else ''<='')
        in Inr (case m_Against match of
             NoValue \<Rightarrow> if m_Exclude match then name @ '' IS NOT NULL'' else name @ '' IS NULL''
           | EmptyString \<Rightarrow> concat [name, '' '', operator match, '' '', apos, apos]
           | CurrentTime \<Rightarrow> concat [name, '' '', ceiling_op, '' '', storedNow g]
           | OptionalArgument \<Rightarrow>
               concat [name, '' '', operator match, '' COALESCE(sqlc.narg('', match_argument match, ''), '', apos, apos, '')'']
           | OptionalNarrowing \<Rightarrow>
               concat [''('', unsetArgument g (match_argument match), '' OR '', name, '' '', operator match, '' sqlc.narg('',
                 match_argument match, ''))'']
           | AtMostArgument \<Rightarrow> concat [name, '' '', ceiling_op, '' sqlc.arg('', match_argument match, '')'']
           | _ \<Rightarrow> concat [name, '' '', operator match, '' sqlc.arg('', match_argument match, '')'']))"

definition matchPredicates :: "Generator \<Rightarrow> string \<Rightarrow> bool \<Rightarrow> Match list \<Rightarrow> querygen_error + string list" where
  "matchPredicates g table qualified matches = attempt_all (\<lambda>m. matchPredicate g table m qualified) matches"

definition equalityPredicate :: "Generator \<Rightarrow> string \<Rightarrow> string \<Rightarrow> bool \<Rightarrow> querygen_error + string" where
  "equalityPredicate g table column qualified =
     matchPredicate g table \<lparr>m_Column = column, m_Arg = [], m_Against = BoundArgument, m_Exclude = False\<rparr> qualified"

subsection \<open>junction.go: orderings and joins\<close>

record Order =
  o_Column :: string
  o_Descending :: bool

definition String_Order :: "Order \<Rightarrow> string" where
  "String_Order o' = (if o_Descending o' then o_Column o' @ '' DESC'' else o_Column o' @ '' ASC'')"

definition qualified_order :: "Order \<Rightarrow> string \<Rightarrow> string" where
  "qualified_order o' table =
     (if table = [] then String_Order o'
      else String_Order \<lparr>o_Column = Qualify table (o_Column o'), o_Descending = o_Descending o'\<rparr>)"

definition orderTerms :: "string \<Rightarrow> Order list \<Rightarrow> querygen_error + string" where
  "orderTerms table order =
     (if length order = 0 then Inr []
      else attempt (attempt_all (\<lambda>term. attempt (mustIdentifier ''order column'' (o_Column term))
                                          (\<lambda>_. Inr (qualified_order term table))) order)
             (\<lambda>terms. Inr (Join terms '', '')))"

definition listOrderClause :: "string \<Rightarrow> Order list \<Rightarrow> querygen_error + string" where
  "listOrderClause table order =
     attempt (orderTerms table order) (\<lambda>terms. Inr (if terms = [] then [] else nl @ ''ORDER BY '' @ terms))"

definition boundedOrder :: "string \<Rightarrow> Order list \<Rightarrow> querygen_error + Order list" where
  "boundedOrder table order =
     (if length order = 0 then Inl (ErrUnorderedBoundedStatement table) else Inr order)"

record JoinStatement =
  js_JoinTarget :: string
  js_TargetColumn :: string
  js_OnTable :: string
  js_OnColumn :: string

definition String_JoinStatement :: "JoinStatement \<Rightarrow> string" where
  "String_JoinStatement j =
     concat [''JOIN '', js_JoinTarget j, '' ON '', js_OnTable j, ''.'', js_OnColumn j, ''='', js_JoinTarget j, ''.'', js_TargetColumn j]"

record Junction =
  j_Table :: string
  j_Column :: string
  j_OnColumn :: string
  j_Prefix :: string
  j_Columns :: "string list"
  j_Matches :: "Match list"

definition joined :: "Junction option \<Rightarrow> bool" where
  "joined j = (case j of None \<Rightarrow> False | Some j \<Rightarrow> j_Table j \<noteq> [])"

definition Junction_must :: "Junction option \<Rightarrow> querygen_error + unit" where
  "Junction_must jo =
     (case jo of
        None \<Rightarrow> Inr ()
      | Some j \<Rightarrow>
          attempt (require (j_Table j \<noteq> []) (ErrIncompleteJunction [])) (\<lambda>_.
          attempt (require (\<not> (j_Column j = [] \<or> j_OnColumn j = [])) (ErrIncompleteJunction (j_Table j))) (\<lambda>_.
          attempt (mustIdentifier ''junction table'' (j_Table j)) (\<lambda>_.
          attempt (mustIdentifier ''junction column'' (j_Column j)) (\<lambda>_.
          attempt (mustIdentifier ''junction join column'' (j_OnColumn j)) (\<lambda>_.
          attempt (mustIdentifiers ''junction column'' (j_Columns j)) (\<lambda>_.
          attempt (mustIdentifiers ''junction match column'' (map m_Column (j_Matches j))) (\<lambda>_.
            if j_Prefix j \<noteq> [] then mustIdentifier ''junction column prefix'' (j_Prefix j) else Inr ()))))))))"

definition joins :: "Junction option \<Rightarrow> string \<Rightarrow> string list" where
  "joins jo table =
     (case jo of
        None \<Rightarrow> []
      | Some j \<Rightarrow>
          if \<not> joined jo then []
          else [String_JoinStatement \<lparr>js_JoinTarget = j_Table j, js_TargetColumn = j_Column j, js_OnTable = table,
                                      js_OnColumn = j_OnColumn j\<rparr>])"

definition junction_conditions :: "Junction option \<Rightarrow> Generator \<Rightarrow> querygen_error + string list" where
  "junction_conditions jo g =
     (case jo of
        None \<Rightarrow> Inr []
      | Some j \<Rightarrow>
          if \<not> joined jo then Inr []
          else attempt (matchPredicates g (j_Table j) True (j_Matches j)) (\<lambda>ms.
            Inr ((if ArchivedAtColumn \<in> set (j_Columns j) then [Qualify (j_Table j) ArchivedAtColumn @ '' IS NULL''] else [])
                 @ ms)))"

definition projection :: "Junction option \<Rightarrow> string list" where
  "projection jo =
     (case jo of
        None \<Rightarrow> []
      | Some j \<Rightarrow>
          if \<not> joined jo \<or> j_Prefix j = [] then []
          else map (\<lambda>column. concat [Qualify (j_Table j) column, '' AS '', j_Prefix j, ''_'', column]) (j_Columns j))"

definition fromClause :: "string \<Rightarrow> string list \<Rightarrow> string" where
  "fromClause table js = Join ((''FROM '' @ table) # js) nl"

subsection \<open>fragments.go\<close>

definition joinPredicates :: "string list \<Rightarrow> string \<Rightarrow> string" where
  "joinPredicates predicates indent =
     Join (map (\<lambda>(i, predicate).
                  let predicate = ReplaceAll predicate CHR 0x0A (nl @ indent)
                  in if i > 0 then ''AND '' @ predicate else predicate)
               (List.enumerate 0 predicates))
          (nl @ indent)"

definition LimitClause :: "Generator \<Rightarrow> string" where
  "LimitClause g = limitClause g"

definition PageClause :: "Generator \<Rightarrow> string" where
  "PageClause g =
     (if gen_dialect g = MySQL
      then ''LIMIT '' @ Placeholder (gen_dialect g) 1 @ '', '' @ Placeholder (gen_dialect g) 2
      else concat [''LIMIT sqlc.arg('', LimitArg, '') OFFSET sqlc.arg('', OffsetArg, '')''])"

definition SetCondition :: "Generator \<Rightarrow> string \<Rightarrow> string \<Rightarrow> querygen_error + string" where
  "SetCondition g column argument =
     attempt (mustIdentifier ''set argument'' argument) (\<lambda>_. Inr (setPredicate g column argument))"

definition MatchConditions :: "Generator \<Rightarrow> string \<Rightarrow> Match list \<Rightarrow> querygen_error + string list" where
  "MatchConditions g table matches =
     attempt (mustIdentifier ''table name'' table) (\<lambda>_. matchPredicates g table True matches)"

definition boundPredicate :: "Generator \<Rightarrow> string \<Rightarrow> string \<Rightarrow> string \<Rightarrow> string" where
  "boundPredicate g column comparison argument =
     (let sign = (if comparison = ''<'' then ''+'' else ''-'')
      in concat [column, '' '', comparison, '' COALESCE(sqlc.narg('', argument, ''), '', timeHorizon g sign, '')''])"

definition nullableBoundPredicate :: "Generator \<Rightarrow> string \<Rightarrow> string \<Rightarrow> string \<Rightarrow> string" where
  "nullableBoundPredicate g column comparison argument =
     concat [''('', nl, tab, column, '' IS NULL'', nl, tab, ''OR '', boundPredicate g column comparison argument, nl, '')'']"

definition WindowConditions :: "Generator \<Rightarrow> string \<Rightarrow> string \<Rightarrow> string \<Rightarrow> querygen_error + string list" where
  "WindowConditions g column afterArg beforeArg =
     attempt (mustIdentifier ''window after argument'' afterArg) (\<lambda>_.
     attempt (mustIdentifier ''window before argument'' beforeArg) (\<lambda>_.
       Inr [boundPredicate g column ''>'' afterArg, boundPredicate g column ''<'' beforeArg]))"

definition ContainsCondition :: "Generator \<Rightarrow> string \<Rightarrow> string \<Rightarrow> string" where
  "ContainsCondition g column argument = substringMatch g column argument"

definition cursorCondition :: "Generator \<Rightarrow> string \<Rightarrow> string \<Rightarrow> Direction \<Rightarrow> string" where
  "cursorCondition g table column direction =
     (let position = Qualify table column
      in if direction = Descending then
           concat [''('', position, '' <= COALESCE(sqlc.narg('', CursorArg, ''), '', position, '') AND '', position,
             '' <> COALESCE(sqlc.narg('', CursorArg, ''), '', apos, apos, ''))'']
         else concat [position, '' > COALESCE(sqlc.narg('', CursorArg, ''), '', apos, apos, '')''])"

definition CursorCondition :: "Generator \<Rightarrow> string \<Rightarrow> Direction \<Rightarrow> string" where
  "CursorCondition g table direction = cursorCondition g table IDColumn direction"

definition cursorLimitClause :: "Generator \<Rightarrow> string \<Rightarrow> string \<Rightarrow> Direction \<Rightarrow> string" where
  "cursorLimitClause g table column direction =
     concat [''ORDER BY '', Qualify table column, '' '', direction_keyword direction, nl, limitClause g]"

definition CursorLimitClause :: "Generator \<Rightarrow> string \<Rightarrow> Direction \<Rightarrow> string" where
  "CursorLimitClause g table direction = cursorLimitClause g table IDColumn direction"

definition CursorPaginationFragment :: "Generator \<Rightarrow> string \<Rightarrow> Direction \<Rightarrow> string" where
  "CursorPaginationFragment g table direction =
     concat [''AND '', CursorCondition g table direction, nl, CursorLimitClause g table direction]"

definition ReindexScanQuery :: "Generator \<Rightarrow> string \<Rightarrow> string" where
  "ReindexScanQuery g table =
     (let idq = Qualify table IDColumn
      in concat [''SELECT '', idq, nl, ''FROM '', table, nl, ''WHERE '', Qualify table ArchivedAtColumn, '' IS NULL'', nl,
           tab, ''AND '', byteOrdered g idq, '' > sqlc.arg('', ReindexCursorArg, '')'', nl,
           ''ORDER BY '', byteOrdered g idq, nl, limitClause g, '';''])"

definition IndexStampQuery :: "Generator \<Rightarrow> string \<Rightarrow> string" where
  "IndexStampQuery g table =
     concat [''UPDATE '', table, '' SET'', nl, tab, LastIndexedAtColumn, '' = '', storedNow g, nl,
       ''WHERE '', setPredicate g IDColumn IDsArg, '';'']"

definition archivedPredicate :: "Generator \<Rightarrow> string \<Rightarrow> string" where
  "archivedPredicate g table =
     concat [''('', includeArchivedFlag g, '' OR '', Qualify table ArchivedAtColumn, '' IS NULL)'']"

definition filterPredicates :: "Generator \<Rightarrow> string \<Rightarrow> string list \<Rightarrow> string list \<Rightarrow> string list" where
  "filterPredicates g table columns conditions =
     (if CreatedAtColumn \<in> set columns
      then [boundPredicate g (Qualify table CreatedAtColumn) ''>'' CreatedAfterArg,
            boundPredicate g (Qualify table CreatedAtColumn) ''<'' CreatedBeforeArg]
      else []) @
     (if LastUpdatedAtColumn \<in> set columns
      then [nullableBoundPredicate g (Qualify table LastUpdatedAtColumn) ''>'' UpdatedAfterArg,
            nullableBoundPredicate g (Qualify table LastUpdatedAtColumn) ''<'' UpdatedBeforeArg]
      else []) @
     (if ArchivedAtColumn \<in> set columns then [archivedPredicate g table] else []) @
     conditions"

definition FilterConditions :: "Generator \<Rightarrow> string \<Rightarrow> string list \<Rightarrow> Direction \<Rightarrow> string list \<Rightarrow> string" where
  "FilterConditions g table columns direction conditions =
     joinPredicates (filterPredicates g table columns conditions @ [CursorCondition g table direction]) tab"

definition countSelect :: "string \<Rightarrow> string \<Rightarrow> string list \<Rightarrow> string list \<Rightarrow> string" where
  "countSelect alias table js predicates =
     (let lines = [''('', concat [tab, tab, ''SELECT COUNT('', Qualify table IDColumn, '')''], concat [tab, tab, ''FROM '', table]];
          lines = foldl (\<lambda>lines join. lines @ [tab @ tab @ join]) lines js;
          lines = (if length predicates > 0
                   then lines @ [concat [tab, tab, ''WHERE '', joinPredicates predicates (tab @ tab @ tab)]] else lines)
      in Join (lines @ [concat [tab, '') AS '', alias]]) nl)"

definition FilterCountSelect :: "Generator \<Rightarrow> string \<Rightarrow> string list \<Rightarrow> string list \<Rightarrow> string list \<Rightarrow> string" where
  "FilterCountSelect g table columns js conditions =
     countSelect ''filtered_count'' table js (filterPredicates g table columns conditions)"

definition TotalCountSelect :: "Generator \<Rightarrow> string \<Rightarrow> string list \<Rightarrow> string list \<Rightarrow> string list \<Rightarrow> string" where
  "TotalCountSelect g table columns js conditions =
     (let predicates = (if ArchivedAtColumn \<in> set columns then [archivedPredicate g table] else [])
      in countSelect ''total_count'' table js (predicates @ conditions))"

definition StoredNow :: "Generator \<Rightarrow> string" where
  "StoredNow g = storedNow g"

end
