(* ===== verification/QueryStandard.thy ===== *)
theory QueryStandard
  imports QueryGen "HOL-Library.List_Lexorder" "HOL-Library.Char_ord"
begin

text \<open>
  The package \<^verbatim>\<open>database/querygen\<close>, second part: the registry of tables, the statements over one row and over a page
  (\<^verbatim>\<open>registry.go\<close>, \<^verbatim>\<open>standard.go\<close>), and the set of queries \<^verbatim>\<open>StandardCRUD\<close> renders for a table.

  A registry is shared by reference, so registries live in a store and a reference is a number; the package's own is
  number 0. A call that panics after it registered the table leaves the table registered.
\<close>

subsection \<open>registry.go\<close>

record Registry =
  reg_tables :: "(string, unit) gomap option"

type_synonym registries = "nat \<Rightarrow> Registry"

definition NewRegistry :: Registry where
  "NewRegistry = \<lparr>reg_tables = Some []\<rparr>"

definition defaultRegistry :: nat where "defaultRegistry = 0"

definition Register :: "Registry \<Rightarrow> string list \<Rightarrow> querygen_error + Registry" where
  "Register r tables =
     attempt (mustIdentifiers ''table name'' tables) (\<lambda>_.
       let m = (case reg_tables r of None \<Rightarrow> [] | Some m \<Rightarrow> m)
       in Inr (r\<lparr>reg_tables := Some (foldl (\<lambda>m table. mput table () m) m tables)\<rparr>))"

definition Has_table :: "Registry \<Rightarrow> string \<Rightarrow> bool" where
  "Has_table r table = (case reg_tables r of None \<Rightarrow> False | Some m \<Rightarrow> mget m table \<noteq> None)"

definition Tables :: "Registry \<Rightarrow> string list" where
  "Tables r = sort (case reg_tables r of None \<Rightarrow> [] | Some m \<Rightarrow> mkeys m)"

definition RegisterTable :: "registries \<Rightarrow> string list \<Rightarrow> querygen_error + registries" where
  "RegisterTable rs tables =
     attempt (Register (rs defaultRegistry) tables) (\<lambda>r. Inr (rs(defaultRegistry := r)))"

definition RegisteredTables :: "registries \<Rightarrow> string list" where
  "RegisteredTables rs = Tables (rs defaultRegistry)"

definition TableRegistered :: "registries \<Rightarrow> string \<Rightarrow> bool" where
  "TableRegistered rs table = Has_table (rs defaultRegistry) table"

subsection \<open>standard.go: options\<close>

datatype StandardQuery =
    CreateQuery | GetQuery | ExistsQuery | ListQuery | UpdateQuery | ArchiveQuery | ScanIDsForReindexQuery
  | MarkAsIndexedQuery | OtherStandardQuery int

definition String_StandardQuery :: "StandardQuery \<Rightarrow> string" where
  "String_StandardQuery s =
     (case s of
        CreateQuery \<Rightarrow> ''create''
      | GetQuery \<Rightarrow> ''get''
      | ExistsQuery \<Rightarrow> ''exists''
      | ListQuery \<Rightarrow> ''list''
      | UpdateQuery \<Rightarrow> ''update''
      | ArchiveQuery \<Rightarrow> ''archive''
      | ScanIDsForReindexQuery \<Rightarrow> ''scan IDs for reindex''
      | MarkAsIndexedQuery \<Rightarrow> ''mark as indexed''
      | OtherStandardQuery n \<Rightarrow> ''unknown standard query '' @ FormatInt n)"

record settings =
  s_registry :: nat
  s_names :: "(StandardQuery, string) gomap"
  s_singular :: string
  s_plural :: string
  s_ownership :: string
  s_databaseOwned :: "string list"
  s_immutable :: "string list"
  s_omitted :: "StandardQuery list"
  s_nullable :: "string list"

type_synonym Option = "settings \<Rightarrow> settings"

definition WithEntity :: "string \<Rightarrow> string \<Rightarrow> Option" where
  "WithEntity singular plural = (\<lambda>s. s\<lparr>s_singular := singular, s_plural := plural\<rparr>)"

definition WithQueryName :: "StandardQuery \<Rightarrow> string \<Rightarrow> Option" where
  "WithQueryName query name = (\<lambda>s. s\<lparr>s_names := mput query name (s_names s)\<rparr>)"

definition WithOmitted :: "StandardQuery list \<Rightarrow> Option" where
  "WithOmitted queries = (\<lambda>s. s\<lparr>s_omitted := s_omitted s @ queries\<rparr>)"

definition WithNullable :: "string list \<Rightarrow> Option" where
  "WithNullable columns = (\<lambda>s. s\<lparr>s_nullable := s_nullable s @ columns\<rparr>)"

definition WithOwnership :: "string \<Rightarrow> Option" where
  "WithOwnership column = (\<lambda>s. s\<lparr>s_ownership := column\<rparr>)"

definition WithDatabaseOwned :: "string list \<Rightarrow> Option" where
  "WithDatabaseOwned columns = (\<lambda>s. s\<lparr>s_databaseOwned := s_databaseOwned s @ columns\<rparr>)"

definition WithImmutable :: "string list \<Rightarrow> Option" where
  "WithImmutable columns = (\<lambda>s. s\<lparr>s_immutable := s_immutable s @ columns\<rparr>)"

definition WithRegistry :: "nat option \<Rightarrow> querygen_error + Option" where
  "WithRegistry r = (case r of None \<Rightarrow> Inl ErrNilRegistry | Some p \<Rightarrow> Inr (\<lambda>s. s\<lparr>s_registry := p\<rparr>))"

definition camel :: "string \<Rightarrow> string" where
  "camel table =
     (let words = Split table CHR ''_'';
          out = foldl (\<lambda>out word. case word of [] \<Rightarrow> out | c # cs \<Rightarrow> out @ [ToUpper_byte c @ cs]) [] words
      in Join out [])"

definition query_name :: "settings \<Rightarrow> StandardQuery \<Rightarrow> string" where
  "query_name s which =
     (case mget (s_names s) which of
        Some name \<Rightarrow> name
      | None \<Rightarrow>
          (case which of
             CreateQuery \<Rightarrow> ''Create'' @ s_singular s
           | GetQuery \<Rightarrow> ''Get'' @ s_singular s
           | ExistsQuery \<Rightarrow> ''Check'' @ s_singular s @ ''Existence''
           | ListQuery \<Rightarrow> ''List'' @ s_plural s
           | UpdateQuery \<Rightarrow> ''Update'' @ s_singular s
           | ArchiveQuery \<Rightarrow> ''Archive'' @ s_singular s
           | ScanIDsForReindexQuery \<Rightarrow> ''Scan'' @ s_singular s @ ''IDsForReindex''
           | MarkAsIndexedQuery \<Rightarrow> ''Mark'' @ s_plural s @ ''AsIndexed''
           | OtherStandardQuery n \<Rightarrow> []))"

text \<open>\<^verbatim>\<open>named\<close> gives nil for a query the options omit.\<close>

definition named :: "settings \<Rightarrow> StandardQuery \<Rightarrow> string \<Rightarrow> QueryType \<Rightarrow> string \<Rightarrow> Query option" where
  "named s which name queryType content =
     (if which \<in> set (s_omitted s) then None else Some (new_query name queryType content))"

definition query :: "settings \<Rightarrow> StandardQuery \<Rightarrow> QueryType \<Rightarrow> string \<Rightarrow> Query option" where
  "query s which queryType content = named s which (query_name s which) queryType content"

definition descendingQuery :: "settings \<Rightarrow> StandardQuery \<Rightarrow> QueryType \<Rightarrow> string \<Rightarrow> Query option" where
  "descendingQuery s which queryType content = named s which (DescendingName (query_name s which)) queryType content"

fun unique_names :: "string \<Rightarrow> string list \<Rightarrow> Query list \<Rightarrow> querygen_error + unit" where
  "unique_names table seen [] = Inr ()"
| "unique_names table seen (q # qs) =
     (if qa_Name (q_Annotation q) \<in> set seen then Inl (ErrDuplicateQueryName table (qa_Name (q_Annotation q)))
      else unique_names table (qa_Name (q_Annotation q) # seen) qs)"

definition mustBeUniquelyNamed :: "string \<Rightarrow> Query list \<Rightarrow> querygen_error + unit" where
  "mustBeUniquelyNamed table queries = unique_names table [] queries"

subsection \<open>insert.go, sweep.go: what a write binds and assigns\<close>

definition binding :: "string \<Rightarrow> string list \<Rightarrow> string" where
  "binding column nullable =
     (if column \<in> set nullable then concat [''sqlc.narg('', column, '')''] else concat [''sqlc.arg('', column, '')''])"

definition insertStatement :: "string \<Rightarrow> string \<Rightarrow> string list \<Rightarrow> string list \<Rightarrow> querygen_error + string" where
  "insertStatement modifier table insertColumns nullable =
     (if length insertColumns = 0 then Inl (ErrDegenerateInsert table ''inserts no columns'')
      else let values = map (\<lambda>column. binding column nullable) insertColumns
           in Inr (concat [''INSERT '', modifier, ''INTO '', table, '' ('', nl, tab, Join insertColumns ('','' @ nl @ tab), nl,
                     '') VALUES ('', nl, tab, Join values ('','' @ nl @ tab), nl, '');'']))"

definition createStatement :: "string \<Rightarrow> string list \<Rightarrow> string list \<Rightarrow> querygen_error + string" where
  "createStatement table insertColumns nullable = insertStatement [] table insertColumns nullable"

definition assignments :: "Generator \<Rightarrow> string list \<Rightarrow> string list \<Rightarrow> string list \<Rightarrow> string list" where
  "assignments g columns updateColumns nullable =
     (let rendered = map (\<lambda>column. concat [column, '' = '', binding column nullable]) updateColumns
      in if LastUpdatedAtColumn \<in> set columns
         then rendered @ [concat [LastUpdatedAtColumn, '' = '', storedNow g]] else rendered)"

subsection \<open>setread.go: the key of a set\<close>

record SetKey =
  sk_Column :: string
  sk_Arg :: string

definition setkey_argument :: "SetKey \<Rightarrow> string" where
  "setkey_argument k = (if sk_Arg k \<noteq> [] then sk_Arg k else IDsArg)"

subsection \<open>standard.go: statements\<close>

definition keyPredicates :: "Generator \<Rightarrow> string \<Rightarrow> string list \<Rightarrow> string \<Rightarrow> bool \<Rightarrow> Match list \<Rightarrow>
    querygen_error + string list" where
  "keyPredicates g table columns ownership qualified extra =
     (if IDColumn \<notin> set columns \<and> ownership = [] \<and> length extra = 0 then Inl (ErrUnaddressableRow table)
      else
        attempt (if IDColumn \<in> set columns
                 then attempt (equalityPredicate g table IDColumn qualified) (\<lambda>p. Inr [p]) else Inr []) (\<lambda>ps.
        attempt (if ownership \<noteq> []
                 then attempt (equalityPredicate g table ownership qualified) (\<lambda>p. Inr (ps @ [p])) else Inr ps) (\<lambda>ps.
        attempt (matchPredicates g table qualified extra) (\<lambda>ms. Inr (ps @ ms)))))"

definition singleRowPredicates :: "Generator \<Rightarrow> string \<Rightarrow> string list \<Rightarrow> string \<Rightarrow> bool \<Rightarrow> Match list \<Rightarrow>
    querygen_error + string list" where
  "singleRowPredicates g table columns ownership qualified extra =
     attempt (keyPredicates g table columns ownership qualified extra) (\<lambda>keyed.
       if ArchivedAtColumn \<notin> set columns then Inr keyed
       else let name = (if qualified then Qualify table ArchivedAtColumn else ArchivedAtColumn)
            in Inr ((name @ '' IS NULL'') # keyed))"

definition orderClause :: "string \<Rightarrow> string \<Rightarrow> string" where
  "orderClause table column =
     (if column = [] then [] else concat [nl, ''ORDER BY '', Qualify table column, '' ASC'', nl, ''LIMIT 1''])"

definition getStatement :: "Generator \<Rightarrow> string \<Rightarrow> string list \<Rightarrow> string \<Rightarrow> Read \<Rightarrow> Match list \<Rightarrow> querygen_error + string" where
  "getStatement g table columns ownership read extra =
     attempt (singleRowPredicates g table columns ownership True extra) (\<lambda>ps.
     attempt (lockClause g (r_Lock read)) (\<lambda>lock.
       Inr (concat [''SELECT'', nl, tab, Join (QualifyAll table (projecting read columns)) ('','' @ nl @ tab), nl,
              ''FROM '', table, nl, ''WHERE '', joinPredicates ps tab, orderClause table (r_Order read), lock, '';''])))"

definition existsProjection :: "string \<Rightarrow> string list \<Rightarrow> string" where
  "existsProjection table columns = (if IDColumn \<in> set columns then Qualify table IDColumn else ''1'')"

definition existsStatement :: "Generator \<Rightarrow> string \<Rightarrow> string list \<Rightarrow> string \<Rightarrow> Match list \<Rightarrow> querygen_error + string" where
  "existsStatement g table columns ownership extra =
     attempt (singleRowPredicates g table columns ownership True extra) (\<lambda>ps.
       Inr (concat [''SELECT EXISTS ('', nl, tab, ''SELECT '', existsProjection table columns, nl, tab, ''FROM '', table, nl,
              tab, ''WHERE '', joinPredicates ps (tab @ tab), nl, '');'']))"

definition listStatement :: "Generator \<Rightarrow> string \<Rightarrow> string list \<Rightarrow> string \<Rightarrow> Junction option \<Rightarrow> SetKey option \<Rightarrow> Direction \<Rightarrow>
    Match list \<Rightarrow> querygen_error + string" where
  "listStatement g table columns ownership junction key direction extra =
     attempt (if ownership \<noteq> []
              then attempt (equalityPredicate g table ownership True) (\<lambda>p. Inr [p]) else Inr []) (\<lambda>conditions.
     attempt (matchPredicates g table True extra) (\<lambda>ms.
     let conditions = conditions @ ms;
         conditions = (case key of
                         None \<Rightarrow> conditions
                       | Some k \<Rightarrow> conditions @ [setPredicate g (Qualify table (sk_Column k)) (setkey_argument k)])
     in
     attempt (junction_conditions junction g) (\<lambda>jcs.
     let conditions = conditions @ jcs; js = joins junction table
     in Inr (concat [''SELECT'', nl, tab, Join (QualifyAll table columns @ projection junction) ('','' @ nl @ tab), '','', nl, tab,
               FilterCountSelect g table columns js conditions, '','', nl, tab,
               TotalCountSelect g table columns js conditions, nl,
               fromClause table js, nl, ''WHERE '', FilterConditions g table columns direction conditions, nl,
               CursorLimitClause g table direction, '';'']))))"

definition updateStatement :: "Generator \<Rightarrow> string \<Rightarrow> string list \<Rightarrow> string list \<Rightarrow> string \<Rightarrow> string list \<Rightarrow> Match list \<Rightarrow>
    querygen_error + string" where
  "updateStatement g table columns updateColumns ownership nullable extra =
     attempt (singleRowPredicates g table columns ownership False extra) (\<lambda>ps.
       Inr (concat [''UPDATE '', table, '' SET'', nl, tab,
              Join (assignments g columns updateColumns nullable) ('','' @ nl @ tab), nl,
              ''WHERE '', joinPredicates ps tab, '';'']))"

definition archiveStatement :: "Generator \<Rightarrow> string \<Rightarrow> string list \<Rightarrow> string \<Rightarrow> Match list \<Rightarrow> querygen_error + string" where
  "archiveStatement g table columns ownership extra =
     attempt (singleRowPredicates g table columns ownership False extra) (\<lambda>ps.
       Inr (concat [''UPDATE '', table, '' SET'', nl, tab, ArchivedAtColumn, '' = '', storedNow g, nl,
              ''WHERE '', joinPredicates ps tab, '';'']))"

subsection \<open>standard.go: the standard set\<close>

definition default_settings :: "string \<Rightarrow> settings" where
  "default_settings table =
     \<lparr>s_registry = defaultRegistry, s_names = [], s_singular = camel table, s_plural = camel table, s_ownership = [],
      s_databaseOwned = [], s_immutable = [], s_omitted = [], s_nullable = []\<rparr>"

definition apply_options :: "string \<Rightarrow> Option list \<Rightarrow> settings" where
  "apply_options table opts = foldl (\<lambda>s opt. opt s) (default_settings table) opts"

text \<open>The guards of \<^verbatim>\<open>StandardCRUD\<close>, before the table is registered.\<close>

definition crud_guards :: "settings \<Rightarrow> string \<Rightarrow> string list \<Rightarrow> querygen_error + unit" where
  "crud_guards s table columns =
     attempt (mustIdentifier ''table name'' table) (\<lambda>_.
     attempt (mustIdentifiers ''column name'' columns) (\<lambda>_.
     attempt (if s_ownership s \<noteq> [] then mustIdentifier ''ownership column'' (s_ownership s) else Inr ()) (\<lambda>_.
       require (IDColumn \<in> set columns) (ErrMissingIDColumn table))))"

text \<open>The queries of \<^verbatim>\<open>StandardCRUD\<close>, after it.\<close>

definition crud_queries :: "Generator \<Rightarrow> settings \<Rightarrow> string \<Rightarrow> string list \<Rightarrow> querygen_error + Query list" where
  "crud_queries g s table columns =
     (let notUpdatable = s_immutable s @ s_databaseOwned s @ (if s_ownership s \<noteq> [] then [s_ownership s] else []);
          insertColumns = ForInsert columns (s_databaseOwned s);
          updateColumns = ForUpdate columns notUpdatable
      in
      attempt (getStatement g table columns (s_ownership s) zero_Read []) (\<lambda>get.
      attempt (existsStatement g table columns (s_ownership s) []) (\<lambda>exst.
      attempt (listStatement g table columns (s_ownership s) None None Ascending []) (\<lambda>asc.
      attempt (listStatement g table columns (s_ownership s) None None Descending []) (\<lambda>desc.
      let queries = [query s GetQuery OneType get, query s ExistsQuery OneType exst, query s ListQuery ManyType asc,
                     descendingQuery s ListQuery ManyType desc]
      in
      attempt (if length insertColumns > 0
               then attempt (createStatement table insertColumns (s_nullable s))
                      (\<lambda>c. Inr (query s CreateQuery ExecType c # queries))
               else Inr queries) (\<lambda>queries.
      attempt (if length updateColumns > 0
               then attempt (updateStatement g table columns updateColumns (s_ownership s) (s_nullable s) [])
                      (\<lambda>c. Inr (queries @ [query s UpdateQuery ExecRowsType c]))
               else Inr queries) (\<lambda>queries.
      attempt (if ArchivedAtColumn \<in> set columns
               then attempt (archiveStatement g table columns (s_ownership s) [])
                      (\<lambda>c. Inr (queries @ [query s ArchiveQuery ExecRowsType c]))
               else Inr queries) (\<lambda>queries.
      let queries = (if LastIndexedAtColumn \<in> set columns
                     then (if ArchivedAtColumn \<in> set columns
                           then queries @ [query s ScanIDsForReindexQuery ManyType (ReindexScanQuery g table)] else queries)
                          @ [query s MarkAsIndexedQuery ExecRowsType (IndexStampQuery g table)]
                     else queries);
          queries = map the (filter (\<lambda>q. q \<noteq> None) queries)
      in
      attempt (mustBeUniquelyNamed table queries) (\<lambda>_. Inr queries)))))))))"

definition StandardCRUD :: "registries \<Rightarrow> Generator \<Rightarrow> string \<Rightarrow> string list \<Rightarrow> Option list \<Rightarrow>
    registries \<times> (querygen_error + Query list)" where
  "StandardCRUD rs g table columns opts =
     (let s = apply_options table opts
      in case crud_guards s table columns of
           Inl e \<Rightarrow> (rs, Inl e)
         | Inr _ \<Rightarrow>
             (case Register (rs (s_registry s)) [table] of
                Inl e \<Rightarrow> (rs, Inl e)
              | Inr r \<Rightarrow> (rs(s_registry s := r), crud_queries g s table columns)))"

end
