(* ===== verification/QueryShapes.thy ===== *)
theory QueryShapes
  imports QueryStandard
begin

text \<open>
  The package \<^verbatim>\<open>database/querygen\<close>, third part: the statements a corpus names one by one (\<^verbatim>\<open>keyed.go\<close>,
  \<^verbatim>\<open>junction.go\<close>, \<^verbatim>\<open>insert.go\<close>, \<^verbatim>\<open>upsert.go\<close>, \<^verbatim>\<open>delete.go\<close>, \<^verbatim>\<open>count.go\<close>, \<^verbatim>\<open>random.go\<close>, \<^verbatim>\<open>search.go\<close>,
  \<^verbatim>\<open>setread.go\<close>, \<^verbatim>\<open>sweep.go\<close>, \<^verbatim>\<open>prune.go\<close>, \<^verbatim>\<open>closure.go\<close>).
\<close>

text \<open>A query whose content may panic.\<close>

definition query_of :: "string \<Rightarrow> QueryType \<Rightarrow> querygen_error + string \<Rightarrow> querygen_error + Query" where
  "query_of name t content = attempt content (\<lambda>c. Inr (new_query name t c))"

text \<open>The pair of a paged list: ascending under the name, descending under the derived one.\<close>

definition query_pair :: "string \<Rightarrow> (Direction \<Rightarrow> querygen_error + string) \<Rightarrow> querygen_error + Query list" where
  "query_pair name content =
     attempt (query_of name ManyType (content Ascending)) (\<lambda>a.
     attempt (query_of (DescendingName name) ManyType (content Descending)) (\<lambda>d. Inr [a, d]))"

subsection \<open>keyed.go\<close>

definition GetQuery_g :: "Generator \<Rightarrow> string \<Rightarrow> string \<Rightarrow> string list \<Rightarrow> Match list \<Rightarrow> querygen_error + Query" where
  "GetQuery_g g name table columns extra = query_of name OneType (getStatement g table columns [] zero_Read extra)"

definition ReadQuery :: "Generator \<Rightarrow> string \<Rightarrow> string \<Rightarrow> string list \<Rightarrow> Read \<Rightarrow> Match list \<Rightarrow> querygen_error + Query" where
  "ReadQuery g name table columns read extra = query_of name OneType (getStatement g table columns [] read extra)"

definition ExistsQuery_g :: "Generator \<Rightarrow> string \<Rightarrow> string \<Rightarrow> string list \<Rightarrow> Match list \<Rightarrow> querygen_error + Query" where
  "ExistsQuery_g g name table columns extra = query_of name OneType (existsStatement g table columns [] extra)"

definition ListQueries :: "Generator \<Rightarrow> string \<Rightarrow> string \<Rightarrow> string list \<Rightarrow> Match list \<Rightarrow> querygen_error + Query list" where
  "ListQueries g name table columns matches =
     query_pair name (\<lambda>direction. listStatement g table columns [] None None direction matches)"

definition UpdateQuery_g :: "Generator \<Rightarrow> string \<Rightarrow> string \<Rightarrow> string list \<Rightarrow> string list \<Rightarrow> string list \<Rightarrow> Match list \<Rightarrow>
    querygen_error + Query" where
  "UpdateQuery_g g name table columns updateColumns nullable extra =
     query_of name ExecRowsType (updateStatement g table columns updateColumns [] nullable extra)"

definition ArchiveQuery_g :: "Generator \<Rightarrow> string \<Rightarrow> string \<Rightarrow> string list \<Rightarrow> Match list \<Rightarrow> querygen_error + Query" where
  "ArchiveQuery_g g name table columns extra = query_of name ExecRowsType (archiveStatement g table columns [] extra)"

subsection \<open>junction.go\<close>

definition mustJunctionList :: "string \<Rightarrow> string list \<Rightarrow> Junction option \<Rightarrow> querygen_error + unit" where
  "mustJunctionList table columns junction =
     attempt (mustIdentifier ''table name'' table) (\<lambda>_.
     attempt (mustIdentifiers ''column name'' columns) (\<lambda>_. Junction_must junction))"

definition junctionListStatement :: "Generator \<Rightarrow> string \<Rightarrow> string list \<Rightarrow> Junction option \<Rightarrow> Direction \<Rightarrow> Match list \<Rightarrow>
    querygen_error + string" where
  "junctionListStatement g table columns junction direction matches =
     attempt (mustJunctionList table columns junction) (\<lambda>_.
       listStatement g table columns [] junction None direction matches)"

definition JunctionListQueries :: "Generator \<Rightarrow> string \<Rightarrow> string \<Rightarrow> string list \<Rightarrow> Junction option \<Rightarrow> Match list \<Rightarrow>
    querygen_error + Query list" where
  "JunctionListQueries g name table columns junction matches =
     query_pair name (\<lambda>direction. junctionListStatement g table columns junction direction matches)"

text \<open>The predicate that keeps archived rows out, for a column list that has the column.\<close>

definition archivedPredicates :: "string \<Rightarrow> string list \<Rightarrow> string list" where
  "archivedPredicates table columns =
     (if ArchivedAtColumn \<notin> set columns then [] else [Qualify table ArchivedAtColumn @ '' IS NULL''])"

definition junctionListAllStatement :: "Generator \<Rightarrow> string \<Rightarrow> string list \<Rightarrow> Junction option \<Rightarrow> Order list \<Rightarrow> Match list \<Rightarrow>
    querygen_error + string" where
  "junctionListAllStatement g table columns junction order matches =
     attempt (mustJunctionList table columns junction) (\<lambda>_.
     attempt (matchPredicates g table True matches) (\<lambda>ms.
     attempt (junction_conditions junction g) (\<lambda>jcs.
     let predicates = (if ArchivedAtColumn \<in> set columns then [Qualify table ArchivedAtColumn @ '' IS NULL''] else []) @ ms @ jcs;
         statement = concat [''SELECT'', nl, tab, Join (QualifyAll table columns @ projection junction) ('','' @ nl @ tab), nl,
                       fromClause table (joins junction table)];
         statement = (if length predicates > 0 then statement @ nl @ ''WHERE '' @ joinPredicates predicates tab else statement)
     in attempt (listOrderClause table order) (\<lambda>oc. Inr (statement @ oc @ '';'')))))"

definition JunctionListAllQuery :: "Generator \<Rightarrow> string \<Rightarrow> string \<Rightarrow> string list \<Rightarrow> Junction option \<Rightarrow> Order list \<Rightarrow>
    Match list \<Rightarrow> querygen_error + Query" where
  "JunctionListAllQuery g name table columns junction order matches =
     query_of name ManyType (junctionListAllStatement g table columns junction order matches)"

subsection \<open>insert.go and upsert.go\<close>

definition InsertQuery :: "Generator \<Rightarrow> string \<Rightarrow> string \<Rightarrow> string list \<Rightarrow> string list \<Rightarrow> querygen_error + Query" where
  "InsertQuery g name table insertColumns nullable = query_of name ExecType (createStatement table insertColumns nullable)"

definition insertIgnoreStatement :: "Generator \<Rightarrow> string \<Rightarrow> string list \<Rightarrow> string list \<Rightarrow> Match list \<Rightarrow> querygen_error + string" where
  "insertIgnoreStatement g table insertColumns nullable key =
     (if length key = 0 then Inl (ErrDegenerateInsert table ''names no conflict target'')
      else let (modifier, clause) = ignoreSpelling g (map m_Column key)
           in attempt (insertStatement modifier table insertColumns nullable) (\<lambda>statement.
                if clause = [] then Inr statement
                else Inr (concat [TrimSuffix statement '';'', nl, clause, '';''])))"

definition InsertIgnoreQuery :: "Generator \<Rightarrow> string \<Rightarrow> string \<Rightarrow> string list \<Rightarrow> string list \<Rightarrow> Match list \<Rightarrow>
    querygen_error + Query" where
  "InsertIgnoreQuery g name table insertColumns nullable key =
     query_of name ExecRowsType (insertIgnoreStatement g table insertColumns nullable key)"

definition upsertStatement :: "Generator \<Rightarrow> string \<Rightarrow> string list \<Rightarrow> string list \<Rightarrow> string list \<Rightarrow> string list \<Rightarrow> Match list \<Rightarrow>
    querygen_error + string" where
  "upsertStatement g table columns insertColumns updateColumns nullable key =
     (if length key = 0 then Inl (ErrDegenerateUpsert table ''names no conflict target'')
      else if length insertColumns = 0 then Inl (ErrDegenerateUpsert table ''inserts no columns'')
      else
        let keyColumns = map m_Column key;
            assigned = foldl (\<lambda>out column. if column \<in> set keyColumns then out
                                           else out @ [concat [column, '' = '', insertedValue g column]]) [] updateColumns;
            assigned = (if ArchivedAtColumn \<in> set columns then assigned @ [ArchivedAtColumn @ '' = NULL''] else assigned);
            assigned = (if LastUpdatedAtColumn \<in> set columns
                        then assigned @ [concat [LastUpdatedAtColumn, '' = '', storedNow g]] else assigned)
        in if length assigned = 0 then Inl (ErrDegenerateUpsert table ''assigns nothing on conflict'')
           else attempt (createStatement table insertColumns nullable) (\<lambda>c.
                  Inr (concat [TrimSuffix c '';'', nl, conflictHeader g keyColumns, nl, tab, Join assigned ('','' @ nl @ tab), '';''])))"

definition UpsertQuery :: "Generator \<Rightarrow> string \<Rightarrow> string \<Rightarrow> string list \<Rightarrow> string list \<Rightarrow> string list \<Rightarrow> string list \<Rightarrow>
    Match list \<Rightarrow> querygen_error + Query" where
  "UpsertQuery g name table columns insertColumns updateColumns nullable key =
     query_of name ExecType (upsertStatement g table columns insertColumns updateColumns nullable key)"

subsection \<open>delete.go and count.go\<close>

definition deleteStatement :: "Generator \<Rightarrow> string \<Rightarrow> string list \<Rightarrow> Match list \<Rightarrow> querygen_error + string" where
  "deleteStatement g table columns extra =
     attempt (keyPredicates g table columns [] False extra) (\<lambda>ps.
       Inr (concat [''DELETE FROM '', table, nl, ''WHERE '', joinPredicates ps tab, '';'']))"

definition DeleteQuery :: "Generator \<Rightarrow> string \<Rightarrow> string \<Rightarrow> string list \<Rightarrow> Match list \<Rightarrow> querygen_error + Query" where
  "DeleteQuery g name table columns extra = query_of name ExecRowsType (deleteStatement g table columns extra)"

definition sweepPredicates :: "Generator \<Rightarrow> string \<Rightarrow> string list \<Rightarrow> Match list \<Rightarrow> querygen_error + string list" where
  "sweepPredicates g table columns matches =
     attempt (matchPredicates g table True matches) (\<lambda>ms.
       Inr ((if ArchivedAtColumn \<in> set columns then [Qualify table ArchivedAtColumn @ '' IS NULL''] else []) @ ms))"

definition countStatement :: "Generator \<Rightarrow> string \<Rightarrow> string list \<Rightarrow> Match list \<Rightarrow> querygen_error + string" where
  "countStatement g table columns matches =
     attempt (mustIdentifier ''table name'' table) (\<lambda>_.
     attempt (mustIdentifiers ''column name'' columns) (\<lambda>_.
     attempt (require (length matches \<noteq> 0) (ErrUnpredicatedStatement table)) (\<lambda>_.
     attempt (sweepPredicates g table columns matches) (\<lambda>ps.
       Inr (concat [''SELECT COUNT(*)'', nl, ''FROM '', table, nl, ''WHERE '', joinPredicates ps tab, '';''])))))"

definition CountQuery :: "Generator \<Rightarrow> string \<Rightarrow> string \<Rightarrow> string list \<Rightarrow> Match list \<Rightarrow> querygen_error + Query" where
  "CountQuery g name table columns matches = query_of name OneType (countStatement g table columns matches)"

subsection \<open>random.go\<close>

definition randomFunction :: "Generator \<Rightarrow> string" where
  "randomFunction g = (if gen_dialect g = MySQL then ''RAND()'' else ''random()'')"

definition randomStatement :: "Generator \<Rightarrow> string \<Rightarrow> string list \<Rightarrow> Match list \<Rightarrow> querygen_error + string" where
  "randomStatement g table columns matches =
     attempt (mustIdentifier ''table name'' table) (\<lambda>_.
     attempt (mustIdentifiers ''column name'' columns) (\<lambda>_.
     attempt (matchPredicates g table True matches) (\<lambda>ms.
     let predicates = (if ArchivedAtColumn \<in> set columns then [Qualify table ArchivedAtColumn @ '' IS NULL''] else []) @ ms;
         whr = (if length predicates > 0 then nl @ ''WHERE '' @ joinPredicates predicates tab else []);
         random = randomFunction g
     in Inr (concat [''-- ORDER BY '', random, '' sorts every matching row to return one, so this is a full scan.'', nl,
               ''-- Past a few thousand rows, prefer TABLESAMPLE or a pick over a range of ids.'', nl,
               ''SELECT'', nl, tab, Join (QualifyAll table columns) ('','' @ nl @ tab), nl, ''FROM '', table, whr, nl,
               ''ORDER BY '', random, nl, ''LIMIT 1;'']))))"

definition RandomQuery :: "Generator \<Rightarrow> string \<Rightarrow> string \<Rightarrow> string list \<Rightarrow> Match list \<Rightarrow> querygen_error + Query" where
  "RandomQuery g name table columns matches = query_of name OneType (randomStatement g table columns matches)"

subsection \<open>search.go\<close>

definition LikeEscape :: string where "LikeEscape = ''!''"

record PrefixSearch =
  ps_Column :: string
  ps_Name :: string
  ps_CountName :: string

definition PrefixArg :: "string \<Rightarrow> string" where
  "PrefixArg column = column @ ''_prefix''"

definition PrefixPattern :: "string \<Rightarrow> string" where
  "PrefixPattern prefix =
     (let replaced = Replace_bytes [(hd LikeEscape, LikeEscape @ LikeEscape), (CHR ''%'', LikeEscape @ ''%''),
                                    (CHR ''_'', LikeEscape @ ''_'')] prefix
      in replaced @ ''%'')"

definition prefixCondition :: "Generator \<Rightarrow> string \<Rightarrow> string \<Rightarrow> string" where
  "prefixCondition g table column =
     concat [''('', Qualify table column, '' LIKE '', prefixPatternArgument g (PrefixArg column), '' ESCAPE '', apos, LikeEscape,
       apos, '')'']"

definition prefixSearchPredicates :: "Generator \<Rightarrow> string \<Rightarrow> string list \<Rightarrow> string \<Rightarrow> Match list \<Rightarrow>
    querygen_error + string list" where
  "prefixSearchPredicates g table columns column matches =
     attempt (matchPredicates g table True matches) (\<lambda>ms.
       Inr ((if ArchivedAtColumn \<in> set columns then [Qualify table ArchivedAtColumn @ '' IS NULL''] else []) @ ms @
            [prefixCondition g table column]))"

definition prefixSearchStatement :: "Generator \<Rightarrow> string \<Rightarrow> string list \<Rightarrow> string \<Rightarrow> Direction \<Rightarrow> Match list \<Rightarrow>
    querygen_error + string" where
  "prefixSearchStatement g table columns column direction matches =
     attempt (prefixSearchPredicates g table columns column matches) (\<lambda>ps.
       Inr (concat [''SELECT'', nl, tab, Join (QualifyAll table columns) ('','' @ nl @ tab), nl, ''FROM '', table, nl,
              ''WHERE '', joinPredicates (ps @ [cursorCondition g table column direction]) tab, nl,
              cursorLimitClause g table column direction, '';'']))"

definition prefixSearchCountStatement :: "Generator \<Rightarrow> string \<Rightarrow> string list \<Rightarrow> string \<Rightarrow> Match list \<Rightarrow>
    querygen_error + string" where
  "prefixSearchCountStatement g table columns column matches =
     attempt (prefixSearchPredicates g table columns column matches) (\<lambda>ps.
       Inr (concat [''SELECT COUNT(*)'', nl, ''FROM '', table, nl, ''WHERE '', joinPredicates ps tab, '';'']))"

definition PrefixSearchQueries :: "Generator \<Rightarrow> string \<Rightarrow> string list \<Rightarrow> PrefixSearch \<Rightarrow> Match list \<Rightarrow>
    querygen_error + Query list" where
  "PrefixSearchQueries g table columns search matches =
     attempt (mustIdentifier ''table name'' table) (\<lambda>_.
     attempt (mustIdentifiers ''column name'' columns) (\<lambda>_.
     attempt (mustIdentifier ''search column'' (ps_Column search)) (\<lambda>_.
     attempt (require (ps_Column search \<in> set columns) (ErrUnknownSearchColumn table (ps_Column search))) (\<lambda>_.
     attempt (query_of (ps_Name search) ManyType
                (prefixSearchStatement g table columns (ps_Column search) Ascending matches)) (\<lambda>asc.
     attempt (query_of (DescendingName (ps_Name search)) ManyType
                (prefixSearchStatement g table columns (ps_Column search) Descending matches)) (\<lambda>desc.
     attempt (query_of (ps_CountName search) OneType
                (prefixSearchCountStatement g table columns (ps_Column search) matches)) (\<lambda>count.
     attempt (mustBeUniquelyNamed table [asc, desc, count]) (\<lambda>_. Inr [asc, desc, count]))))))))"

subsection \<open>setread.go\<close>

definition SetListQueries :: "Generator \<Rightarrow> string \<Rightarrow> string \<Rightarrow> string list \<Rightarrow> SetKey \<Rightarrow> Match list \<Rightarrow>
    querygen_error + Query list" where
  "SetListQueries g name table columns key matches =
     attempt (require (gen_dialect g = Postgres) (ErrPositionalSetInList (gen_dialect g) table)) (\<lambda>_.
     attempt (mustIdentifier ''table name'' table) (\<lambda>_.
     attempt (require (sk_Column key \<noteq> []) (ErrMissingSetColumn table)) (\<lambda>_.
     attempt (mustIdentifier ''set column'' (sk_Column key)) (\<lambda>_.
     attempt (mustIdentifier ''set argument'' (setkey_argument key)) (\<lambda>_.
       query_pair name (\<lambda>direction. listStatement g table columns [] None (Some key) direction matches))))))"

definition setReadOrder :: "SetKey \<Rightarrow> Read \<Rightarrow> Order list" where
  "setReadOrder key read =
     (let order = [\<lparr>o_Column = sk_Column key, o_Descending = False\<rparr>]
      in if r_Order read \<noteq> [] then order @ [\<lparr>o_Column = r_Order read, o_Descending = False\<rparr>] else order)"

definition setReadStatement :: "Generator \<Rightarrow> string \<Rightarrow> string list \<Rightarrow> Read \<Rightarrow> SetKey \<Rightarrow> Match list \<Rightarrow> querygen_error + string" where
  "setReadStatement g table columns read key matches =
     attempt (mustIdentifier ''table name'' table) (\<lambda>_.
     attempt (mustIdentifiers ''column name'' columns) (\<lambda>_.
     attempt (require (sk_Column key \<noteq> []) (ErrMissingSetColumn table)) (\<lambda>_.
     attempt (mustIdentifier ''set column'' (sk_Column key)) (\<lambda>_.
     attempt (mustIdentifier ''set argument'' (setkey_argument key)) (\<lambda>_.
     attempt (matchPredicates g table True matches) (\<lambda>ms.
     let predicates = (if ArchivedAtColumn \<in> set columns then [Qualify table ArchivedAtColumn @ '' IS NULL''] else []) @ ms @
                      [setPredicate g (Qualify table (sk_Column key)) (setkey_argument key)]
     in
     attempt (listOrderClause table (setReadOrder key read)) (\<lambda>oc.
     attempt (lockClause g (r_Lock read)) (\<lambda>lock.
       Inr (concat [''SELECT'', nl, tab, Join (QualifyAll table (projecting read columns)) ('','' @ nl @ tab), nl,
              ''FROM '', table, nl, ''WHERE '', joinPredicates predicates tab, oc, lock, '';''])))))))))"

definition SetReadQuery :: "Generator \<Rightarrow> string \<Rightarrow> string \<Rightarrow> string list \<Rightarrow> Read \<Rightarrow> SetKey \<Rightarrow> Match list \<Rightarrow>
    querygen_error + Query" where
  "SetReadQuery g name table columns read key matches =
     query_of name ManyType (setReadStatement g table columns read key matches)"

subsection \<open>sweep.go\<close>

record Sweep =
  sw_Order :: "Order list"
  sw_Projection :: "string list"
  sw_Lock :: LockMode

definition sweepStatement :: "Generator \<Rightarrow> string \<Rightarrow> string list \<Rightarrow> string list \<Rightarrow> Order list \<Rightarrow> Match list \<Rightarrow>
    querygen_error + string" where
  "sweepStatement g table columns proj order matches =
     attempt (mustIdentifier ''table name'' table) (\<lambda>_.
     attempt (mustIdentifiers ''column name'' columns) (\<lambda>_.
     attempt (require (length matches \<noteq> 0) (ErrUnpredicatedStatement table)) (\<lambda>_.
     let proj = (if length proj = 0 then columns else proj)
     in
     attempt (boundedOrder table order) (\<lambda>order.
     attempt (sweepPredicates g table columns matches) (\<lambda>ps.
     attempt (listOrderClause table order) (\<lambda>oc.
       Inr (concat [''SELECT'', nl, tab, Join (QualifyAll table proj) ('','' @ nl @ tab), nl, ''FROM '', table, nl,
              ''WHERE '', joinPredicates ps tab, oc, nl, limitClause g])))))))"

definition indentLines :: "string \<Rightarrow> string \<Rightarrow> string" where
  "indentLines block indent =
     Join (map (\<lambda>line. if line \<noteq> [] then indent @ line else line) (Split block CHR 0x0A)) nl"

definition sweepKeyPredicate :: "Generator \<Rightarrow> string \<Rightarrow> string list \<Rightarrow> Order list \<Rightarrow> Match list \<Rightarrow> querygen_error + string" where
  "sweepKeyPredicate g table columns order matches =
     attempt (require (IDColumn \<in> set columns) (ErrMissingIDColumn table)) (\<lambda>_.
     attempt (sweepStatement g table columns [IDColumn] order matches) (\<lambda>scan.
       if \<not> has_form (boundedWriteForms g) selfReferencingSubquery then
         Inr (concat [Qualify table IDColumn, '' IN ('', nl, tab, ''SELECT '', Qualify sweepAlias IDColumn, nl, tab, ''FROM ('', nl,
                indentLines scan (tab @ tab), nl, tab, '') AS '', sweepAlias, nl, '')''])
       else Inr (concat [Qualify table IDColumn, '' IN ('', nl, indentLines scan tab, nl, '')''])))"

definition SweepQuery :: "Generator \<Rightarrow> string \<Rightarrow> string \<Rightarrow> string list \<Rightarrow> Sweep \<Rightarrow> Match list \<Rightarrow> querygen_error + Query" where
  "SweepQuery g name table columns sweep matches =
     query_of name ManyType
       (attempt (sweepStatement g table columns (sw_Projection sweep) (sw_Order sweep) matches) (\<lambda>s.
        attempt (lockClause g (sw_Lock sweep)) (\<lambda>lock. Inr (s @ lock))))"

definition SweepDeleteQuery :: "Generator \<Rightarrow> string \<Rightarrow> string \<Rightarrow> string list \<Rightarrow> Order list \<Rightarrow> Match list \<Rightarrow>
    querygen_error + Query" where
  "SweepDeleteQuery g name table columns order matches =
     query_of name ExecRowsType
       (attempt (sweepKeyPredicate g table columns order matches) (\<lambda>p.
          Inr (concat [''DELETE FROM '', table, nl, ''WHERE '', p, '';''])))"

definition SweepUpdateQuery :: "Generator \<Rightarrow> string \<Rightarrow> string \<Rightarrow> string list \<Rightarrow> string list \<Rightarrow> string list \<Rightarrow> Order list \<Rightarrow>
    Match list \<Rightarrow> querygen_error + Query" where
  "SweepUpdateQuery g name table columns updateColumns nullable order matches =
     query_of name ExecRowsType
       (attempt (sweepKeyPredicate g table columns order matches) (\<lambda>p.
          Inr (concat [''UPDATE '', table, '' SET'', nl, tab, Join (assignments g columns updateColumns nullable) ('','' @ nl @ tab),
                 nl, ''WHERE '', p, '';''])))"

subsection \<open>prune.go\<close>

record Prune =
  pr_Key :: "string list"
  pr_Order :: "Order list"
  pr_Conditions :: "string list"

definition PruneQualifier :: "Generator \<Rightarrow> string \<Rightarrow> querygen_error + string" where
  "PruneQualifier g table =
     attempt (mustIdentifier ''table name'' table) (\<lambda>_.
       Inr (if has_form (boundedWriteForms g) nativeBound then table else doomedAlias))"

definition keyComparand :: "string list \<Rightarrow> string" where
  "keyComparand key = (if length key = 1 then key ! 0 else concat [''('', Join key '', '', '')''])"

definition boundedDelete :: "Generator \<Rightarrow> string \<Rightarrow> Prune \<Rightarrow> Match list \<Rightarrow> querygen_error + string" where
  "boundedDelete g table prune matches =
     (if has_form (boundedWriteForms g) nativeBound then
        attempt (matchPredicates g table False matches) (\<lambda>ms.
        attempt (listOrderClause [] (pr_Order prune)) (\<lambda>oc.
          Inr (concat [''DELETE FROM '', table, nl, ''WHERE '', joinPredicates (ms @ pr_Conditions prune) tab, oc, nl,
                 capClause g, '';''])))
      else
        attempt (matchPredicates g doomedAlias True matches) (\<lambda>ms.
        attempt (orderTerms doomedAlias (pr_Order prune)) (\<lambda>ot.
        let capped = [''SELECT '' @ Join (QualifyAll doomedAlias (pr_Key prune)) '', '',
                      concat [''FROM '', table, '' AS '', doomedAlias],
                      ''WHERE '' @ joinPredicates (ms @ pr_Conditions prune) (tab @ tab),
                      ''ORDER BY '' @ ot,
                      capClause g];
            capped = (if gen_dialect g = Postgres then capped @ [''FOR UPDATE SKIP LOCKED''] else capped)
        in Inr (concat [''DELETE FROM '', table, nl, ''WHERE '', keyComparand (pr_Key prune), '' IN ('', nl, tab,
                  Join capped (nl @ tab), nl, '');'']))))"

definition pruneStatement :: "Generator \<Rightarrow> string \<Rightarrow> Prune \<Rightarrow> Match list \<Rightarrow> querygen_error + string" where
  "pruneStatement g table prune matches =
     attempt (mustIdentifier ''table name'' table) (\<lambda>_.
     attempt (require (length (pr_Key prune) \<noteq> 0) (ErrDegeneratePrune table ''names no key'')) (\<lambda>_.
     attempt (mustIdentifiers ''prune key column'' (pr_Key prune)) (\<lambda>_.
     attempt (require (length matches \<noteq> 0) (ErrDegeneratePrune table ''names no predicate'')) (\<lambda>_.
     attempt (boundedOrder table (pr_Order prune)) (\<lambda>order.
       boundedDelete g table (prune\<lparr>pr_Order := order\<rparr>) matches)))))"

definition PruneQuery :: "Generator \<Rightarrow> string \<Rightarrow> string \<Rightarrow> Prune \<Rightarrow> Match list \<Rightarrow> querygen_error + Query" where
  "PruneQuery g name table prune matches = query_of name ExecRowsType (pruneStatement g table prune matches)"

subsection \<open>closure.go\<close>

record Edge =
  e_Table :: string
  e_From :: string
  e_To :: string

definition Edge_must :: "Edge \<Rightarrow> string \<Rightarrow> querygen_error + unit" where
  "Edge_must e kind =
     attempt (require (e_Table e \<noteq> []) (ErrIncompleteClosure (kind @ '' edge names no table''))) (\<lambda>_.
     attempt (require (\<not> (e_From e = [] \<or> e_To e = []))
                (ErrIncompleteClosure (kind @ '' edge on table '' @ e_Table e @ '' names no pair of columns''))) (\<lambda>_.
     attempt (mustIdentifier (kind @ '' edge table'') (e_Table e)) (\<lambda>_.
     attempt (mustIdentifier (kind @ '' edge column'') (e_From e)) (\<lambda>_.
       mustIdentifier (kind @ '' edge column'') (e_To e)))))"

definition Edge_join :: "Edge \<Rightarrow> string \<Rightarrow> string \<Rightarrow> string \<Rightarrow> string \<Rightarrow> string list" where
  "Edge_join e alias aliasColumn target targetColumn =
     [String_JoinStatement \<lparr>js_JoinTarget = e_Table e, js_TargetColumn = e_From e, js_OnTable = alias, js_OnColumn = aliasColumn\<rparr>,
      String_JoinStatement \<lparr>js_JoinTarget = target, js_TargetColumn = targetColumn, js_OnTable = e_Table e, js_OnColumn = e_To e\<rparr>]"

record Closure =
  c_Alias :: string
  c_Key :: string
  c_Walk :: Edge
  c_Reach :: Edge
  c_Table :: string
  c_Columns :: "string list"
  c_TableKey :: string
  c_Projection :: "string list"

definition closure_key :: "Closure \<Rightarrow> string" where
  "closure_key c = (if c_Key c \<noteq> [] then c_Key c else IDColumn)"

definition tableKey :: "Closure \<Rightarrow> string" where
  "tableKey c = (if c_TableKey c \<noteq> [] then c_TableKey c else IDColumn)"

definition Closure_must :: "Closure option \<Rightarrow> querygen_error + Closure" where
  "Closure_must co =
     (case co of
        None \<Rightarrow> Inl (ErrIncompleteClosure ''closure read describes no closure'')
      | Some c \<Rightarrow>
          attempt (require (c_Alias c \<noteq> []) (ErrIncompleteClosure ''closure names no common table expression'')) (\<lambda>_.
          attempt (require (c_Table c \<noteq> []) (ErrIncompleteClosure ''closure names no table to read'')) (\<lambda>_.
          attempt (require (length (c_Projection c) \<noteq> 0)
                     (ErrIncompleteClosure (''closure on table '' @ c_Table c @ '' projects nothing''))) (\<lambda>_.
          attempt (mustIdentifier ''closure alias'' (c_Alias c)) (\<lambda>_.
          attempt (mustIdentifier ''closure key'' (closure_key c)) (\<lambda>_.
          attempt (mustIdentifier ''closure table'' (c_Table c)) (\<lambda>_.
          attempt (mustIdentifier ''closure table key'' (tableKey c)) (\<lambda>_.
          attempt (mustIdentifiers ''closure column'' (c_Columns c)) (\<lambda>_.
          attempt (mustIdentifiers ''closure projection column'' (c_Projection c)) (\<lambda>_.
          attempt (Edge_must (c_Walk c) ''walk'') (\<lambda>_.
          attempt (Edge_must (c_Reach c) ''reach'') (\<lambda>_. Inr c))))))))))))"

definition seedPredicates :: "Generator \<Rightarrow> string \<Rightarrow> string list \<Rightarrow> SetKey \<Rightarrow> Match list \<Rightarrow> querygen_error + string list" where
  "seedPredicates g table columns key matches =
     attempt (matchPredicates g table True matches) (\<lambda>ms.
       Inr (archivedPredicates table columns @ ms @ [setPredicate g (Qualify table (sk_Column key)) (setkey_argument key)]))"

definition recursivePredicate :: "string \<Rightarrow> string list \<Rightarrow> string" where
  "recursivePredicate table columns =
     (let predicates = archivedPredicates table columns
      in if length predicates = 0 then [] else nl @ tab @ ''WHERE '' @ joinPredicates predicates (tab @ tab))"

definition closureStatement :: "Generator \<Rightarrow> string \<Rightarrow> string list \<Rightarrow> Closure option \<Rightarrow> SetKey \<Rightarrow> Match list \<Rightarrow>
    querygen_error + string" where
  "closureStatement g table columns closure key matches =
     attempt (mustIdentifier ''table name'' table) (\<lambda>_.
     attempt (mustIdentifiers ''column name'' columns) (\<lambda>_.
     attempt (require (sk_Column key \<noteq> []) (ErrMissingSetColumn table)) (\<lambda>_.
     attempt (mustIdentifier ''set column'' (sk_Column key)) (\<lambda>_.
     attempt (mustIdentifier ''set argument'' (setkey_argument key)) (\<lambda>_.
     attempt (Closure_must closure) (\<lambda>c.
     let walked = Qualify table (closure_key c)
     in
     attempt (seedPredicates g table columns key matches) (\<lambda>seed.
       Inr (concat [''WITH RECURSIVE '', c_Alias c, '' AS ('', nl, tab, ''SELECT'', nl, tab, tab, walked, nl, tab, ''FROM '', table, nl,
              tab, ''WHERE '', joinPredicates seed (tab @ tab), nl, tab, ''UNION'', nl, tab, ''SELECT'', nl, tab, tab, walked, nl, tab,
              Join ((''FROM '' @ c_Alias c) # Edge_join (c_Walk c) (c_Alias c) (closure_key c) table (closure_key c)) (nl @ tab),
              recursivePredicate table columns, nl, '')'', nl, ''SELECT DISTINCT'', nl, tab,
              Join (QualifyAll (c_Table c) (c_Projection c)) ('','' @ nl @ tab), nl,
              Join ((''FROM '' @ c_Alias c) # Edge_join (c_Reach c) (c_Alias c) (closure_key c) (c_Table c) (tableKey c)) nl, nl,
              ''WHERE '', joinPredicates (archivedPredicates (c_Table c) (c_Columns c)) tab, nl,
              ''ORDER BY '', Join (QualifyAll (c_Table c) (c_Projection c)) '', '', '';'']))))))))"

definition ClosureQuery :: "Generator \<Rightarrow> string \<Rightarrow> string \<Rightarrow> string list \<Rightarrow> Closure option \<Rightarrow> SetKey \<Rightarrow> Match list \<Rightarrow>
    querygen_error + Query" where
  "ClosureQuery g name table columns closure key matches =
     query_of name ManyType (closureStatement g table columns closure key matches)"

end
