(* ===== verification/QuerySafety.thy ===== *)
theory QuerySafety
  imports QueryShapes
begin

text \<open>
  How a server reads the text of a statement: literals, quoted names, comments and brackets. A text is \<open>neutral\<close> when
  reading it leaves the reader where it began, so that it can stand anywhere in a statement, and every fragment the
  generator composes is neutral as long as the names in it are names.
\<close>

subsection \<open>Reading SQL text\<close>

datatype lex_mode = Code | Dash | Slash | Literal | DoubleQuoted | BackQuoted | LineComment | BlockComment | BlockStar

definition code_step :: "nat \<Rightarrow> char \<Rightarrow> (lex_mode \<times> nat) option" where
  "code_step d c =
     (if c = CHR '';'' then None
      else if c = CHR 0x27 then Some (Literal, d)
      else if c = CHR 0x22 then Some (DoubleQuoted, d)
      else if c = CHR 0x60 then Some (BackQuoted, d)
      else if c = CHR ''-'' then Some (Dash, d)
      else if c = CHR ''/'' then Some (Slash, d)
      else if c = CHR ''#'' then Some (LineComment, d)
      else if c = CHR ''('' then Some (Code, Suc d)
      else if c = CHR '')'' then (case d of 0 \<Rightarrow> None | Suc n \<Rightarrow> Some (Code, n))
      else Some (Code, d))"

text \<open>
  A terminator in code and a closing bracket nobody opened stop the reader, and so does a backslash in a literal, which
  one of the servers reads as an escape.
\<close>

fun lex_step :: "lex_mode \<times> nat \<Rightarrow> char \<Rightarrow> (lex_mode \<times> nat) option" where
  "lex_step (Code, d) c = code_step d c"
| "lex_step (Dash, d) c = (if c = CHR ''-'' then Some (LineComment, d) else code_step d c)"
| "lex_step (Slash, d) c = (if c = CHR ''*'' then Some (BlockComment, d) else code_step d c)"
| "lex_step (Literal, d) c =
     (if c = CHR 0x27 then Some (Code, d) else if c = CHR 0x5C then None else Some (Literal, d))"
| "lex_step (DoubleQuoted, d) c = Some (if c = CHR 0x22 then Code else DoubleQuoted, d)"
| "lex_step (BackQuoted, d) c = Some (if c = CHR 0x60 then Code else BackQuoted, d)"
| "lex_step (LineComment, d) c = Some (if c = CHR 0x0A then Code else LineComment, d)"
| "lex_step (BlockComment, d) c = Some (if c = CHR ''*'' then BlockStar else BlockComment, d)"
| "lex_step (BlockStar, d) c =
     Some (if c = CHR ''/'' then Code else if c = CHR ''*'' then BlockStar else BlockComment, d)"

primrec read_sql :: "lex_mode \<times> nat \<Rightarrow> string \<Rightarrow> (lex_mode \<times> nat) option" where
  "read_sql st [] = Some st"
| "read_sql st (c # s) = (case lex_step st c of None \<Rightarrow> None | Some st' \<Rightarrow> read_sql st' s)"

text \<open>The rest of the text after the terminator of its first statement, if that statement is closed.\<close>

fun after_statement :: "lex_mode \<times> nat \<Rightarrow> string \<Rightarrow> string option" where
  "after_statement st [] = None"
| "after_statement st (c # s) =
     (if c = CHR '';'' \<and> fst st \<in> {Code, Dash, Slash} then (if snd st = 0 then Some s else None)
      else case lex_step st c of None \<Rightarrow> None | Some st' \<Rightarrow> after_statement st' s)"

definition single_statement :: "string \<Rightarrow> bool" where
  "single_statement s =
     (case after_statement (Code, 0) s of None \<Rightarrow> False | Some rest \<Rightarrow> list_all (\<lambda>c. c \<in> {CHR '' '', CHR 0x09, CHR 0x0A}) rest)"

definition neutral :: "string \<Rightarrow> bool" where
  "neutral s \<longleftrightarrow> (\<forall>d. read_sql (Code, d) s = Some (Code, d))"

lemma lex_append: "read_sql st (s @ t) = (case read_sql st s of None \<Rightarrow> None | Some st' \<Rightarrow> read_sql st' t)"
  by (induction s arbitrary: st) (auto split: option.splits)

lemma neutralD: "neutral s \<Longrightarrow> read_sql (Code, d) s = Some (Code, d)"
  by (simp add: neutral_def)

lemma neutralI: "(\<And>d. read_sql (Code, d) s = Some (Code, d)) \<Longrightarrow> neutral s"
  by (simp add: neutral_def)

text \<open>The rules that read a composed text piece by piece.\<close>

lemmas lex_simps = lex_append neutralD code_step_def

lemma neutral_Nil [simp]: "neutral []"
  by (simp add: neutral_def)

lemma neutral_append [simp]: "neutral s \<Longrightarrow> neutral t \<Longrightarrow> neutral (s @ t)"
  by (simp add: neutral_def lex_append)

lemma neutral_Join: "list_all neutral xs \<Longrightarrow> neutral sep \<Longrightarrow> neutral (Join xs sep)"
  by (induction xs) (auto simp: Join_Cons)

lemma ident_neutral: "ident s \<Longrightarrow> neutral s"
proof -
  have "read_sql (Code, d) s = Some (Code, d)" if "list_all ident_char s" for d
    using that
  proof (induction s)
    case (Cons c s)
    then have "ident_char c" by simp
    then have "lex_step (Code, d) c = Some (Code, d)" using ident_chars_plain [of c] by (auto simp: code_step_def)
    with Cons show ?case by simp
  qed simp
  then show "ident s \<Longrightarrow> neutral s" by (simp add: ident_def neutral_def)
qed

lemma ValidIdentifier_neutral: "ValidIdentifier s \<Longrightarrow> neutral s"
  by (simp add: ValidIdentifier_ident ident_neutral)

subsection \<open>Indentation changes nothing\<close>

text \<open>The modes a reader can be in at the beginning of a line.\<close>

definition line_mode :: "lex_mode \<Rightarrow> bool" where
  "line_mode m \<longleftrightarrow> m \<notin> {Dash, Slash, LineComment, BlockStar}"

lemma lex_step_newline: "lex_step (m, d) CHR 0x0A = Some (m', d') \<Longrightarrow> line_mode m'"
  by (cases m) (auto simp: line_mode_def code_step_def)

lemma lex_tabs: "list_all ((=) CHR 0x09) ts \<Longrightarrow> line_mode m \<Longrightarrow> read_sql (m, d) ts = Some (m, d)"
proof (induction ts)
  case (Cons t ts)
  then have "lex_step (m, d) CHR 0x09 = Some (m, d)"
    by (cases m) (auto simp: line_mode_def code_step_def)
  with Cons show ?case by auto
qed simp

lemma lex_indented:
  assumes "list_all ((=) CHR 0x09) ts"
  shows "read_sql (m, d) (ReplaceAll s CHR 0x0A (CHR 0x0A # ts)) = read_sql (m, d) s"
proof (induction s arbitrary: m d)
  case (Cons c s)
  show ?case
  proof (cases "lex_step (m, d) c")
    case None
    then show ?thesis by (cases "c = CHR 0x0A") simp_all
  next
    case (Some st)
    obtain m' d' where st: "st = (m', d')" by (cases st)
    have "c = CHR 0x0A \<Longrightarrow> read_sql (m', d') ts = Some (m', d')"
      using Some st lex_step_newline lex_tabs assms by blast
    then show ?thesis using Some st Cons.IH [of m' d'] by (cases "c = CHR 0x0A") (simp_all add: lex_append)
  qed
qed simp

lemma neutral_indented: "list_all ((=) CHR 0x09) ts \<Longrightarrow> neutral s \<Longrightarrow> neutral (ReplaceAll s CHR 0x0A (CHR 0x0A # ts))"
  by (simp add: neutral_def lex_indented)

lemma lex_indent_lines:
  assumes "list_all ((=) CHR 0x09) ts"
  shows "line_mode m \<Longrightarrow> read_sql (m, d) (Join (map (\<lambda>l. if l \<noteq> [] then ts @ l else l) ls) nl) = read_sql (m, d) (Join ls nl)"
proof (induction ls arbitrary: m d)
  case (Cons l ls)
  have l: "read_sql (m, d) (if l \<noteq> [] then ts @ l else l) = read_sql (m, d) l"
    using lex_tabs [OF assms Cons.prems] by (simp add: lex_append)
  show ?case
  proof (cases "read_sql (m, d) l")
    case None
    with l show ?thesis by (simp add: Join_Cons lex_append)
  next
    case l': (Some st)
    obtain m' d' where st: "st = (m', d')" by (cases st)
    show ?thesis
    proof (cases "lex_step (m', d') CHR 0x0A")
      case None
      with l l' st show ?thesis by (simp add: Join_Cons lex_append)
    next
      case (Some st')
      obtain m'' d'' where st': "st' = (m'', d'')" by (cases st')
      have "line_mode m''" using lex_step_newline Some st' by blast
      with Cons.IH l l' Some st st' show ?thesis by (simp add: Join_Cons lex_append)
    qed
  qed
qed simp

lemma join_split_by: "join sep (split_by ((=) sep) s) = s"
proof (induction s)
  case (Cons c s)
  then show ?case by (cases "split_by ((=) sep) s"; cases "tl (split_by ((=) sep) s)") auto
qed simp

lemma Join_Split: "Join (Split s c) [c] = s"
  by (simp add: Join_single_sep Split_def join_split_by)

lemma neutral_indentLines: "list_all ((=) CHR 0x09) ts \<Longrightarrow> neutral s \<Longrightarrow> neutral (indentLines s ts)"
  using lex_indent_lines [of ts Code _ "Split s CHR 0x0A"]
  by (simp add: neutral_def indentLines_def Join_Split line_mode_def)

subsection \<open>Statements\<close>

lemma lex_step_semicolon: "lex_step st CHR '';'' \<noteq> Some (Code, d)"
  by (cases "(st, CHR '';'')" rule: lex_step.cases) (auto simp: code_step_def)

text \<open>\<open>ends\<close> with a terminator is a statement; what is neutral is not yet one, and rendering it adds the terminator.\<close>

lemma neutral_no_terminator: "neutral s \<Longrightarrow> \<not> HasSuffix s '';''"
proof
  assume n: "neutral s" and "HasSuffix s '';''"
  then obtain t where s: "s = t @ '';''" by (auto simp: HasSuffix_iff)
  show False
  proof (cases "read_sql (Code, 0) t")
    case None
    with n s neutralD [OF n, of 0] show False by (simp add: lex_append)
  next
    case (Some st)
    with s neutralD [OF n, of 0] lex_step_semicolon [of st 0] show False
      by (auto simp: lex_append split: option.splits)
  qed
qed

lemma after_statement_lex:
  "read_sql st s = Some (Code, 0) \<Longrightarrow> after_statement st (s @ CHR '';'' # rest) = Some rest"
proof (induction s arbitrary: st)
  case Nil
  then show ?case by simp
next
  case (Cons c s)
  then obtain st' where st': "lex_step st c = Some st'" "read_sql st' s = Some (Code, 0)" by (auto split: option.splits)
  have "\<not> (c = CHR '';'' \<and> fst st \<in> {Code, Dash, Slash})"
    using st'(1) by (cases st) (auto simp: code_step_def)
  with Cons.IH [OF st'(2)] st'(1) show ?case by simp
qed

lemma single_statementI:
  "neutral s \<Longrightarrow> list_all (\<lambda>c. c \<in> {CHR '' '', CHR 0x09, CHR 0x0A}) rest \<Longrightarrow> single_statement (s @ CHR '';'' # rest)"
  using after_statement_lex [of "(Code, 0)" s rest] by (simp add: single_statement_def neutralD)

subsection \<open>Fragments\<close>

named_theorems neutrals \<open>what is neutral as long as the names in it are\<close>

lemma neutral_names [neutrals, simp]:
  "neutral IDColumn" "neutral CreatedAtColumn" "neutral LastUpdatedAtColumn" "neutral ArchivedAtColumn"
  "neutral LastIndexedAtColumn" "neutral CursorArg" "neutral LimitArg" "neutral IncludeArchivedArg" "neutral CreatedAfterArg"
  "neutral CreatedBeforeArg" "neutral UpdatedAfterArg" "neutral UpdatedBeforeArg" "neutral OffsetArg" "neutral ReindexCursorArg"
  "neutral IDsArg" "neutral NowExpression" "neutral doomedAlias" "neutral sweepAlias"
  by (simp_all add: neutral_def code_step_def IDColumn_def CreatedAtColumn_def LastUpdatedAtColumn_def ArchivedAtColumn_def
      LastIndexedAtColumn_def CursorArg_def LimitArg_def IncludeArchivedArg_def CreatedAfterArg_def CreatedBeforeArg_def
      UpdatedAfterArg_def UpdatedBeforeArg_def OffsetArg_def ReindexCursorArg_def IDsArg_def NowExpression_def doomedAlias_def
      sweepAlias_def)

lemma neutral_separators [neutrals, simp]:
  "neutral nl" "neutral tab" "neutral '', ''" "neutral [CHR 0x2C, CHR 0x0A, CHR 0x09]" "neutral [CHR 0x0A, CHR 0x09]"
  "neutral [CHR 0x0A, CHR 0x09, CHR 0x09]" "neutral [CHR 0x0A, CHR 0x09, CHR 0x09, CHR 0x09]"
  by (simp_all add: neutral_def code_step_def)

lemma neutral_Qualify [neutrals]: "neutral t \<Longrightarrow> neutral c \<Longrightarrow> neutral (Qualify t c)"
  by (rule neutralI) (simp add: Qualify_def lex_simps)

lemma QualifyAll_map: "QualifyAll t cs = map (Qualify t) cs"
  using foldl_append_map [of "Qualify t" "[]" cs] by (simp add: QualifyAll_def)

lemma neutral_QualifyAll [neutrals]: "neutral t \<Longrightarrow> list_all neutral cs \<Longrightarrow> list_all neutral (QualifyAll t cs)"
  by (simp add: QualifyAll_map list_all_iff neutral_Qualify)

lemma neutral_byteOrdered [neutrals]: "neutral e \<Longrightarrow> neutral (byteOrdered g e)"
  by (rule neutralI) (simp add: byteOrdered_def lex_simps)

lemma neutral_timeHorizon [neutrals]: "sign = ''+'' \<or> sign = ''-'' \<Longrightarrow> neutral (timeHorizon g sign)"
  by (rule neutralI) (auto simp: timeHorizon_def lex_simps)

lemma neutral_storedNow [neutrals]: "neutral (storedNow g)"
  by (rule neutralI) (simp add: storedNow_def lex_simps)

lemma neutral_includeArchivedFlag [neutrals]: "neutral (includeArchivedFlag g)"
  by (rule neutralI) (simp add: includeArchivedFlag_def lex_simps Let_def)

lemma neutral_unsetArgument [neutrals]: "neutral a \<Longrightarrow> neutral (unsetArgument g a)"
  by (rule neutralI) (simp add: unsetArgument_def lex_simps)

lemma limit_text: "FormatInt (uint DefaultQueryFilterLimit) = ''50''"
  by (simp add: DefaultQueryFilterLimit_def FormatInt_def decimal.simps char_of_def bit_0)

lemma neutral_boundedLimit [neutrals]: "neutral a \<Longrightarrow> neutral (boundedLimit g a)"
  by (rule neutralI) (simp add: boundedLimit_def Placeholder_def lex_simps)

lemma neutral_limitClause [neutrals]: "neutral (limitClause g)"
  unfolding limitClause_def limit_text by (rule neutral_boundedLimit, rule neutralI) (simp add: lex_simps)

lemma neutral_capClause [neutrals]: "neutral (capClause g)"
  unfolding capClause_def by (rule neutral_boundedLimit, rule neutralI) (simp add: lex_simps)

lemma neutral_setPredicate [neutrals]: "neutral c \<Longrightarrow> neutral a \<Longrightarrow> neutral (setPredicate g c a)"
  by (rule neutralI) (simp add: setPredicate_def lex_simps)

lemma neutral_conflictHeader [neutrals]: "list_all neutral ks \<Longrightarrow> neutral (conflictHeader g ks)"
  by (rule neutralI) (simp add: conflictHeader_def lex_simps neutral_Join)

lemma neutral_insertedValue [neutrals]: "neutral c \<Longrightarrow> neutral (insertedValue g c)"
  by (rule neutralI) (simp add: insertedValue_def lex_simps)

lemma neutral_binding [neutrals]: "neutral c \<Longrightarrow> neutral (binding c ns)"
  by (rule neutralI) (simp add: binding_def lex_simps)

lemma neutral_boundPredicate [neutrals]:
  "neutral c \<Longrightarrow> comparison = ''<'' \<or> comparison = ''>'' \<Longrightarrow> neutral a \<Longrightarrow> neutral (boundPredicate g c comparison a)"
  by (rule neutralI) (auto simp: boundPredicate_def lex_simps neutral_timeHorizon)

lemma neutral_nullableBoundPredicate [neutrals]:
  "neutral c \<Longrightarrow> comparison = ''<'' \<or> comparison = ''>'' \<Longrightarrow> neutral a \<Longrightarrow> neutral (nullableBoundPredicate g c comparison a)"
  using neutral_boundPredicate by (intro neutralI) (simp add: nullableBoundPredicate_def lex_simps)

lemma neutral_archivedPredicate [neutrals]: "neutral t \<Longrightarrow> neutral (archivedPredicate g t)"
  by (rule neutralI) (simp add: archivedPredicate_def lex_simps neutrals)

lemma neutral_cursorCondition [neutrals]: "neutral t \<Longrightarrow> neutral c \<Longrightarrow> neutral (cursorCondition g t c d)"
  by (rule neutralI) (simp add: cursorCondition_def lex_simps neutral_Qualify Let_def)

lemma neutral_cursorLimitClause [neutrals]: "neutral t \<Longrightarrow> neutral c \<Longrightarrow> neutral (cursorLimitClause g t c d)"
  by (rule neutralI) (simp add: cursorLimitClause_def direction_keyword_def lex_simps neutral_Qualify neutral_limitClause)

lemma neutral_substringMatch [neutrals]: "neutral c \<Longrightarrow> neutral a \<Longrightarrow> neutral (substringMatch g c a)"
  by (rule neutralI) (simp add: substringMatch_def lex_simps)

lemma neutral_prefixCondition [neutrals]: "neutral t \<Longrightarrow> neutral c \<Longrightarrow> neutral (prefixCondition g t c)"
  by (rule neutralI) (simp add: prefixCondition_def prefixPatternArgument_def PrefixArg_def LikeEscape_def lex_simps neutral_Qualify)

lemma neutral_joinPredicates [neutrals]:
  assumes "list_all neutral ps" and "list_all ((=) CHR 0x09) ts"
  shows "neutral (joinPredicates ps ts)"
proof -
  have ts: "neutral (CHR 0x0A # ts)"
    using neutral_indented [OF assms(2), of nl] by simp
  have "neutral ((\<lambda>(i, p). let p = ReplaceAll p CHR 0x0A (nl @ ts) in if i > 0 then ''AND '' @ p else p) (i, p))"
    if "(i, p) \<in> set (List.enumerate 0 ps)" for i p
  proof -
    from that assms(1) have "neutral p" by (auto simp: list_all_iff in_set_enumerate_eq)
    then have "neutral (ReplaceAll p CHR 0x0A (CHR 0x0A # ts))" by (rule neutral_indented [OF assms(2)])
    then show ?thesis by (auto simp: Let_def neutral_def code_step_def)
  qed
  then show ?thesis
    unfolding joinPredicates_def by (intro neutral_Join) (auto simp: list_all_iff ts)
qed

lemma neutral_filterPredicates [neutrals]:
  "neutral t \<Longrightarrow> list_all neutral conds \<Longrightarrow> list_all neutral (filterPredicates g t cols conds)"
  by (auto simp: filterPredicates_def neutrals)

lemma Join_concat: "Join (x # xs) sep = x @ concat (map (\<lambda>y. sep @ y) xs)"
  by (induction xs arbitrary: x) auto

lemma neutral_concat: "list_all neutral xs \<Longrightarrow> neutral (concat xs)"
  by (induction xs) auto

lemma countSelect_text:
  "countSelect alias t js ps =
     concat [''('', nl, tab, tab, ''SELECT COUNT('', Qualify t IDColumn, '')'', nl, tab, tab, ''FROM '', t,
       concat (map (\<lambda>j. nl @ tab @ tab @ j) js),
       (if ps = [] then [] else concat [nl, tab, tab, ''WHERE '', joinPredicates ps (tab @ tab @ tab)]),
       nl, tab, '') AS '', alias]"
proof -
  have "foldl (\<lambda>lines join. lines @ [tab @ tab @ join]) ls js = ls @ map (\<lambda>j. tab @ tab @ j) js" for ls
    using foldl_append_map [of "\<lambda>j. tab @ tab @ j"] by simp
  then show ?thesis by (simp add: countSelect_def Let_def Join_concat comp_def)
qed

lemma neutral_after_breaks [simp]: "neutral s \<Longrightarrow> neutral (CHR 0x0A # s)" "neutral s \<Longrightarrow> neutral (CHR 0x09 # s)"
  by (simp_all add: neutral_def code_step_def)

lemma neutral_countSelect [neutrals]:
  assumes "neutral alias" "neutral t" "list_all neutral js" "list_all neutral ps"
  shows "neutral (countSelect alias t js ps)"
proof -
  have "neutral (concat (map (\<lambda>j. nl @ tab @ tab @ j) js))"
    using assms(3) by (intro neutral_concat) (auto simp: list_all_iff)
  then show ?thesis
    using assms by (intro neutralI) (simp add: countSelect_text lex_simps neutrals)
qed

lemma neutral_FilterCountSelect [neutrals]:
  "neutral t \<Longrightarrow> list_all neutral js \<Longrightarrow> list_all neutral conds \<Longrightarrow> neutral (FilterCountSelect g t cols js conds)"
  unfolding FilterCountSelect_def
  by (intro neutral_countSelect neutral_filterPredicates) (simp_all add: neutral_def code_step_def)

lemma neutral_TotalCountSelect [neutrals]:
  "neutral t \<Longrightarrow> list_all neutral js \<Longrightarrow> list_all neutral conds \<Longrightarrow> neutral (TotalCountSelect g t cols js conds)"
  unfolding TotalCountSelect_def Let_def
  by (intro neutral_countSelect) (simp_all add: neutral_archivedPredicate, simp add: neutral_def code_step_def)

lemma neutral_FilterConditions [neutrals]:
  "neutral t \<Longrightarrow> list_all neutral conds \<Longrightarrow> neutral (FilterConditions g t cols d conds)"
  unfolding FilterConditions_def CursorCondition_def
  by (intro neutral_joinPredicates) (simp_all add: neutrals)

lemma neutral_CursorLimitClause [neutrals]: "neutral t \<Longrightarrow> neutral (CursorLimitClause g t d)"
  by (simp add: CursorLimitClause_def neutral_cursorLimitClause)

lemma neutral_JoinStatement [neutrals]:
  "neutral (js_JoinTarget j) \<Longrightarrow> neutral (js_TargetColumn j) \<Longrightarrow> neutral (js_OnTable j) \<Longrightarrow> neutral (js_OnColumn j) \<Longrightarrow>
     neutral (String_JoinStatement j)"
  by (rule neutralI) (simp add: String_JoinStatement_def lex_simps)

lemma neutral_fromClause [neutrals]: "neutral t \<Longrightarrow> list_all neutral js \<Longrightarrow> neutral (fromClause t js)"
proof -
  assume "neutral t" "list_all neutral js"
  then have "list_all neutral ((''FROM '' @ t) # js)" by (simp add: neutral_def code_step_def)
  then show ?thesis unfolding fromClause_def by (rule neutral_Join) simp
qed

lemma neutral_column_list: "neutral t \<Longrightarrow> list_all neutral cs \<Longrightarrow> neutral (Join (QualifyAll t cs) [CHR 0x2C, CHR 0x0A, CHR 0x09])"
  by (simp add: neutral_Join neutrals)

subsection \<open>What a caller supplies\<close>

text \<open>Names the package vets or that its callers spell as literals, and matches over them.\<close>

definition match_ok :: "Match \<Rightarrow> bool" where
  "match_ok m \<longleftrightarrow> ValidIdentifier (m_Column m) \<and> (m_Arg m = [] \<or> ValidIdentifier (m_Arg m))"

definition names_ok :: "string list \<Rightarrow> bool" where
  "names_ok ns \<longleftrightarrow> list_all ValidIdentifier ns"

definition read_ok :: "Read \<Rightarrow> bool" where
  "read_ok r \<longleftrightarrow> (r_Order r = [] \<or> ValidIdentifier (r_Order r)) \<and> names_ok (r_Projection r)"

lemma names_ok_neutral: "names_ok ns \<Longrightarrow> list_all neutral ns"
  by (auto simp: names_ok_def list_all_iff ValidIdentifier_neutral)

lemma neutral_match:
  "match_ok m \<Longrightarrow> neutral (m_Column m)" "match_ok m \<Longrightarrow> neutral (match_argument m)"
  by (auto simp: match_ok_def match_argument_def ValidIdentifier_neutral)

lemma neutral_matchPredicate:
  assumes "matchPredicate g t m q = Inr p" and "neutral t" and "match_ok m"
  shows "neutral p"
proof -
  have "neutral (Qualify t (m_Column m))" "neutral (unsetArgument g (match_argument m))"
    using assms by (simp_all add: neutrals neutral_match)
  with assms neutral_match [OF assms(3)] neutral_storedNow [of g] show ?thesis
    by (cases "m_Against m")
      (auto simp: matchPredicate_def Let_def operator_def lex_simps intro!: neutralI split: if_splits)
qed

lemma neutral_matchPredicates:
  assumes "matchPredicates g t q ms = Inr ps" and "neutral t" and "list_all match_ok ms"
  shows "list_all neutral ps"
proof -
  have "list_all2 (\<lambda>m p. matchPredicate g t m q = Inr p) ms ps"
    using assms(1) by (simp add: matchPredicates_def returns_iff)
  then show ?thesis using assms(3)
    by (induction rule: list_all2_induct) (auto intro: neutral_matchPredicate assms(2))
qed

lemma equality_match_ok:
  "ValidIdentifier c \<Longrightarrow> match_ok \<lparr>m_Column = c, m_Arg = [], m_Against = BoundArgument, m_Exclude = False\<rparr>"
  by (simp add: match_ok_def)

lemma neutral_equalityPredicate:
  "equalityPredicate g t c q = Inr p \<Longrightarrow> neutral t \<Longrightarrow> ValidIdentifier c \<Longrightarrow> neutral p"
  unfolding equalityPredicate_def by (blast intro: neutral_matchPredicate equality_match_ok)

lemma ValidIdentifier_id: "ValidIdentifier IDColumn"
  by (simp add: ValidIdentifier_iff IDColumn_def Split_def lead_char_def word_char_def Let_def)

lemma neutral_lockClause: "lockClause g m = Inr c \<Longrightarrow> neutral c"
  by (cases m) (auto simp: lockClause_def lockClause_for_def Let_def neutral_def code_step_def split: if_splits)

lemma neutral_orderTerms:
  assumes "orderTerms t os = Inr terms" and "t = [] \<or> neutral t"
  shows "neutral terms"
proof (cases "os = []")
  case True
  with assms show ?thesis by (simp add: orderTerms_def)
next
  case False
  have ordered: "neutral (qualified_order o' t)" if "ValidIdentifier (o_Column o')" for o'
  proof -
    have "neutral (Qualify t (o_Column o'))" if "t \<noteq> []" using that assms(2) \<open>ValidIdentifier (o_Column o')\<close>
      by (simp add: neutral_Qualify ValidIdentifier_neutral)
    with ValidIdentifier_neutral [OF that] show ?thesis
      by (auto simp: qualified_order_def String_Order_def lex_simps intro!: neutralI)
  qed
  obtain ts where ts: "terms = Join ts '', ''"
    "list_all2 (\<lambda>o' s. ValidIdentifier (o_Column o') \<and> qualified_order o' t = s) os ts"
    using assms(1) False by (auto simp: orderTerms_def returns_iff mustIdentifier_def)
  from ts(2) have "list_all neutral ts" by (induction rule: list_all2_induct) (auto intro: ordered)
  with ts(1) show ?thesis by (simp add: neutral_Join)
qed

lemma neutral_listOrderClause: "listOrderClause t os = Inr c \<Longrightarrow> t = [] \<or> neutral t \<Longrightarrow> neutral c"
  using neutral_orderTerms [of t os]
  by (auto simp: listOrderClause_def returns_iff neutral_def code_step_def split: if_splits)

subsection \<open>Statements are closed\<close>

definition terminated :: "string \<Rightarrow> bool" where
  "terminated c \<longleftrightarrow> c \<noteq> [] \<and> last c = CHR '';'' \<and> neutral (butlast c)"

lemma terminatedI:
  "c \<noteq> [] \<Longrightarrow> last c = CHR '';'' \<Longrightarrow> (\<And>d. read_sql (Code, d) (butlast c) = Some (Code, d)) \<Longrightarrow> terminated c"
  by (simp add: terminated_def neutral_def)

lemmas text_simps = butlast_append lex_simps neutrals neutral_Join names_ok_neutral

lemma neutral_keyPredicates:
  assumes "keyPredicates g t cols own q ms = Inr ps" and "neutral t" and "own = [] \<or> ValidIdentifier own" and "list_all match_ok ms"
  shows "list_all neutral ps"
  using assms neutral_equalityPredicate [of g t IDColumn q] neutral_equalityPredicate [of g t own q]
    neutral_matchPredicates [of g t q ms] ValidIdentifier_id
  by (auto simp: keyPredicates_def returns_iff split: if_splits)

lemma neutral_is_null: "neutral c \<Longrightarrow> neutral (c @ '' IS NULL'')"
  by (rule neutralI) (simp add: lex_simps)

lemma neutral_singleRowPredicates:
  assumes "singleRowPredicates g t cols own q ms = Inr ps" and "neutral t" and "own = [] \<or> ValidIdentifier own" and "list_all match_ok ms"
  shows "list_all neutral ps"
  using assms neutral_keyPredicates [of g t cols own q ms]
  by (auto simp: singleRowPredicates_def returns_iff Let_def neutral_is_null neutrals split: if_splits)

lemma read_ok_projecting: "read_ok r \<Longrightarrow> names_ok cols \<Longrightarrow> list_all neutral (projecting r cols)"
  by (simp add: read_ok_def projecting_def names_ok_neutral)

lemma neutral_orderClause: "neutral t \<Longrightarrow> c = [] \<or> ValidIdentifier c \<Longrightarrow> neutral (orderClause t c)"
  by (rule neutralI) (auto simp: orderClause_def lex_simps neutral_Qualify ValidIdentifier_neutral)

lemma terminated_getStatement:
  assumes "getStatement g t cols own r ms = Inr c" and "neutral t" and "names_ok cols" and "own = [] \<or> ValidIdentifier own"
    and "read_ok r" and "list_all match_ok ms"
  shows "terminated c"
proof -
  obtain ps lock where *: "singleRowPredicates g t cols own True ms = Inr ps" "lockClause g (r_Lock r) = Inr lock"
    "c = concat [''SELECT'', nl, tab, Join (QualifyAll t (projecting r cols)) ('','' @ nl @ tab), nl,
              ''FROM '', t, nl, ''WHERE '', joinPredicates ps tab, orderClause t (r_Order r), lock, '';'']"
    using assms(1) by (auto simp: getStatement_def returns_iff)
  have "list_all neutral ps" "neutral lock" "list_all neutral (projecting r cols)" "neutral (orderClause t (r_Order r))"
    using assms * neutral_singleRowPredicates neutral_lockClause read_ok_projecting neutral_orderClause
    by (auto simp: read_ok_def)
  with assms(2) show ?thesis unfolding *(3) by (intro terminatedI) (simp_all add: text_simps)
qed

lemma neutral_existsProjection: "neutral t \<Longrightarrow> neutral (existsProjection t cols)"
  by (rule neutralI) (simp add: existsProjection_def lex_simps neutral_Qualify)

lemma terminated_existsStatement:
  assumes "existsStatement g t cols own ms = Inr c" and "neutral t" and "own = [] \<or> ValidIdentifier own" and "list_all match_ok ms"
  shows "terminated c"
proof -
  obtain ps where *: "singleRowPredicates g t cols own True ms = Inr ps"
    "c = concat [''SELECT EXISTS ('', nl, tab, ''SELECT '', existsProjection t cols, nl, tab, ''FROM '', t, nl,
              tab, ''WHERE '', joinPredicates ps (tab @ tab), nl, '');'']"
    using assms(1) by (auto simp: existsStatement_def returns_iff)
  have "list_all neutral ps" "neutral (existsProjection t cols)"
    using neutral_singleRowPredicates [OF *(1) assms(2-4)] neutral_existsProjection [OF assms(2)] by simp_all
  with assms(2) show ?thesis unfolding *(2) by (intro terminatedI) (simp_all add: text_simps)
qed

lemma mustIdentifier_returns [returns_iff]: "mustIdentifier kind n = Inr u \<longleftrightarrow> ValidIdentifier n"
  by (simp add: mustIdentifier_def returns_iff)

lemma mustIdentifiers_returns [returns_iff]: "mustIdentifiers kind ns = Inr u \<longleftrightarrow> names_ok ns"
proof -
  have "(\<exists>us :: unit list. list_all2 (\<lambda>n u. ValidIdentifier n) ns us) \<longleftrightarrow> list_all ValidIdentifier ns"
    by (induction ns) (auto simp: list_all2_Cons1)
  then show ?thesis by (auto simp: mustIdentifiers_def names_ok_def returns_iff)
qed

lemma neutral_junction:
  assumes "Junction_must j = Inr u"
  shows "neutral t \<Longrightarrow> list_all neutral (joins j t)" and "list_all neutral (projection j)"
proof -
  show "neutral t \<Longrightarrow> list_all neutral (joins j t)"
    using assms
    by (cases j) (auto simp: joins_def Junction_must_def returns_iff ValidIdentifier_neutral
        intro!: neutral_JoinStatement)
  have proj: "neutral (concat [Qualify (j_Table j) c, '' AS '', j_Prefix j, ''_'', c])"
    if "ValidIdentifier (j_Table j)" "ValidIdentifier (j_Prefix j)" "ValidIdentifier c" for j c
    using that by (intro neutralI) (simp add: lex_simps neutrals ValidIdentifier_neutral)
  show "list_all neutral (projection j)"
    using assms
    by (cases j) (auto simp: projection_def Junction_must_def returns_iff list_all_iff names_ok_def intro: proj [simplified])
qed

definition junction_ok :: "Junction option \<Rightarrow> bool" where
  "junction_ok jo = (case jo of None \<Rightarrow> True | Some j \<Rightarrow> ValidIdentifier (j_Table j) \<and> list_all match_ok (j_Matches j))"

lemma neutral_junction_conditions:
  "junction_conditions jo g = Inr cs \<Longrightarrow> junction_ok jo \<Longrightarrow> list_all neutral cs"
  using neutral_matchPredicates
  by (cases jo) (fastforce simp: junction_conditions_def junction_ok_def returns_iff neutral_is_null neutrals
      ValidIdentifier_neutral split: if_splits)+

definition setkey_ok :: "SetKey option \<Rightarrow> bool" where
  "setkey_ok ko = (case ko of None \<Rightarrow> True | Some k \<Rightarrow> ValidIdentifier (sk_Column k) \<and> ValidIdentifier (setkey_argument k))"

lemma terminated_listStatement:
  assumes "listStatement g t cols own j k dir ms = Inr c" and "neutral t" and "list_all neutral cols"
    and "own = [] \<or> ValidIdentifier own" and "list_all match_ok ms" and "junction_ok j" and "setkey_ok k"
    and "list_all neutral (joins j t)" and "list_all neutral (projection j)"
  shows "terminated c"
proof -
  obtain c1 c2 c3 where *: "(if own \<noteq> [] then attempt (equalityPredicate g t own True) (\<lambda>p. Inr [p]) else Inr []) = Inr c1"
    "matchPredicates g t True ms = Inr c2" "junction_conditions j g = Inr c3"
    and c: "\<exists>conds. conds = c1 @ c2 @ (case k of None \<Rightarrow> [] | Some k \<Rightarrow> [setPredicate g (Qualify t (sk_Column k)) (setkey_argument k)]) @ c3 \<and>
      c = concat [''SELECT'', nl, tab, Join (QualifyAll t cols @ projection j) ('','' @ nl @ tab), '','', nl, tab,
               FilterCountSelect g t cols (joins j t) conds, '','', nl, tab,
               TotalCountSelect g t cols (joins j t) conds, nl,
               fromClause t (joins j t), nl, ''WHERE '', FilterConditions g t cols dir conds, nl,
               CursorLimitClause g t dir, '';'']"
    using assms(1) by (cases k) (auto simp: listStatement_def returns_iff Let_def split: if_splits)
  then obtain conds where conds: "conds = c1 @ c2 @ (case k of None \<Rightarrow> [] | Some k \<Rightarrow> [setPredicate g (Qualify t (sk_Column k)) (setkey_argument k)]) @ c3"
    and c: "c = concat [''SELECT'', nl, tab, Join (QualifyAll t cols @ projection j) ('','' @ nl @ tab), '','', nl, tab,
               FilterCountSelect g t cols (joins j t) conds, '','', nl, tab,
               TotalCountSelect g t cols (joins j t) conds, nl,
               fromClause t (joins j t), nl, ''WHERE '', FilterConditions g t cols dir conds, nl,
               CursorLimitClause g t dir, '';'']" by blast
  have "list_all neutral c1" "list_all neutral c2" "list_all neutral c3"
    using * assms neutral_equalityPredicate [of g t own True] neutral_matchPredicates [of g t True ms] neutral_junction_conditions
    by (auto simp: returns_iff split: if_splits)
  then have "list_all neutral conds"
    using assms(2,7) by (auto simp: conds setkey_ok_def neutrals ValidIdentifier_neutral split: option.splits)
  with assms(2,3,8,9) show ?thesis unfolding c by (intro terminatedI) (simp_all add: text_simps)
qed

lemma neutral_assignments:
  "list_all neutral ucs \<Longrightarrow> list_all neutral (assignments g cols ucs ns)"
  by (auto simp: assignments_def Let_def list_all_iff lex_simps neutrals intro!: neutralI)

lemma terminated_updateStatement:
  assumes "updateStatement g t cols ucs own ns ms = Inr c" and "neutral t" and "list_all neutral ucs"
    and "own = [] \<or> ValidIdentifier own" and "list_all match_ok ms"
  shows "terminated c"
proof -
  obtain ps where *: "singleRowPredicates g t cols own False ms = Inr ps"
    "c = concat [''UPDATE '', t, '' SET'', nl, tab, Join (assignments g cols ucs ns) ('','' @ nl @ tab), nl,
              ''WHERE '', joinPredicates ps tab, '';'']"
    using assms(1) by (auto simp: updateStatement_def returns_iff)
  have "list_all neutral ps" "list_all neutral (assignments g cols ucs ns)"
    using assms * neutral_singleRowPredicates neutral_assignments by auto
  with assms(2) show ?thesis unfolding *(2) by (intro terminatedI) (simp_all add: text_simps)
qed

lemma terminated_archiveStatement:
  assumes "archiveStatement g t cols own ms = Inr c" and "neutral t" and "own = [] \<or> ValidIdentifier own" and "list_all match_ok ms"
  shows "terminated c"
proof -
  obtain ps where *: "singleRowPredicates g t cols own False ms = Inr ps"
    "c = concat [''UPDATE '', t, '' SET'', nl, tab, ArchivedAtColumn, '' = '', storedNow g, nl,
              ''WHERE '', joinPredicates ps tab, '';'']"
    using assms(1) by (auto simp: archiveStatement_def returns_iff)
  have "list_all neutral ps" using assms * neutral_singleRowPredicates by auto
  with assms(2) show ?thesis unfolding *(2) by (intro terminatedI) (simp_all add: text_simps)
qed

lemma terminated_insertStatement:
  assumes "insertStatement modifier t ics ns = Inr c" and "neutral modifier" and "neutral t" and "list_all neutral ics"
  shows "terminated c"
proof -
  have c: "c = concat [''INSERT '', modifier, ''INTO '', t, '' ('', nl, tab, Join ics ('','' @ nl @ tab), nl,
                     '') VALUES ('', nl, tab, Join (map (\<lambda>column. binding column ns) ics) ('','' @ nl @ tab), nl, '');'']"
    using assms(1) by (simp add: insertStatement_def Let_def split: if_splits)
  have "list_all neutral (map (\<lambda>column. binding column ns) ics)" using assms(4) by (auto simp: list_all_iff neutrals)
  with assms(2-4) show ?thesis unfolding c by (intro terminatedI) (simp_all add: text_simps)
qed

lemma terminated_index_queries:
  "neutral t \<Longrightarrow> terminated (ReindexScanQuery g t)" "neutral t \<Longrightarrow> terminated (IndexStampQuery g t)"
  unfolding ReindexScanQuery_def IndexStampQuery_def Let_def
  by (intro terminatedI; simp add: text_simps)+

end
