(* ===== verification/QueryCorpus.thy ===== *)
theory QueryCorpus
  imports QuerySafety
begin

text \<open>
  Every statement the generator renders is one statement: \<open>emits\<close> collects the exported operations, with what each of
  them takes from its caller without vetting it, and every query among them, rendered, is read by a server as exactly one
  closed statement.
\<close>

subsection \<open>The named shapes are closed\<close>

lemma terminatedE: "terminated c \<Longrightarrow> \<exists>b. c = b @ '';'' \<and> neutral b"
  unfolding terminated_def by (metis append_butlast_last_id)

lemma neutral_TrimSuffix: "terminated c \<Longrightarrow> neutral (TrimSuffix c '';'')"
  by (auto dest!: terminatedE)

lemma neutral_ignoreSpelling:
  "ignoreSpelling g ks = (m, cl) \<Longrightarrow> list_all neutral ks \<Longrightarrow> neutral m \<and> neutral cl"
  by (auto simp: ignoreSpelling_def lex_simps neutral_Join intro!: neutralI split: if_splits)

lemma match_columns_neutral: "list_all match_ok ms \<Longrightarrow> list_all neutral (map m_Column ms)"
  by (auto simp: list_all_iff neutral_match)

lemma terminated_insertIgnore:
  assumes "insertIgnoreStatement g t ics ns key = Inr c" and "neutral t" and "list_all neutral ics" and "list_all match_ok key"
  shows "terminated c"
proof -
  obtain m cl where m: "ignoreSpelling g (map m_Column key) = (m, cl)" by fastforce
  then have n: "neutral m" "neutral cl" using neutral_ignoreSpelling match_columns_neutral [OF assms(4)] by blast+
  from assms(1) m obtain st where st: "insertStatement m t ics ns = Inr st"
    and c: "c = (if cl = [] then st else concat [TrimSuffix st '';'', nl, cl, '';''])"
    by (auto simp: insertIgnoreStatement_def returns_iff split: if_splits)
  have "terminated st" using terminated_insertStatement [OF st n(1) assms(2,3)] .
  with n neutral_TrimSuffix [OF this] show ?thesis
    unfolding c by (auto intro!: terminatedI simp: text_simps)
qed

lemma upsert_assigned_neutral:
  "list_all neutral acc \<Longrightarrow> list_all neutral ucs \<Longrightarrow>
     list_all neutral (foldl (\<lambda>out column. if column \<in> set ks then out
                                else out @ [concat [column, '' = '', insertedValue g column]]) acc ucs)"
proof (induction ucs arbitrary: acc)
  case (Cons u ucs)
  then have "neutral (concat [u, '' = '', insertedValue g u])" by (intro neutralI) (simp add: lex_simps neutrals)
  with Cons show ?case by simp
qed simp

lemma neutral_upsert_extras: "neutral (ArchivedAtColumn @ '' = NULL'')" "neutral (concat [LastUpdatedAtColumn, '' = '', storedNow g])"
  by (rule neutralI, simp add: lex_simps neutrals)+

lemma terminated_upsert:
  assumes "upsertStatement g t cols ics ucs ns key = Inr c" and "neutral t" and "list_all neutral ics" and "list_all neutral ucs"
    and "list_all match_ok key"
  shows "terminated c"
proof -
  define a0 where "a0 = foldl (\<lambda>out column. if column \<in> set (map m_Column key) then out
                                else out @ [concat [column, '' = '', insertedValue g column]]) [] ucs"
  define a1 where "a1 = (if ArchivedAtColumn \<in> set cols then a0 @ [ArchivedAtColumn @ '' = NULL''] else a0)"
  define a2 where "a2 = (if LastUpdatedAtColumn \<in> set cols then a1 @ [concat [LastUpdatedAtColumn, '' = '', storedNow g]] else a1)"
  have "list_all neutral a0" unfolding a0_def by (rule upsert_assigned_neutral) (simp_all add: assms(4))
  then have a2: "list_all neutral a2" using neutral_upsert_extras by (simp add: a1_def a2_def)
  from assms(1) obtain st where st: "createStatement t ics ns = Inr st"
    and c: "c = concat [TrimSuffix st '';'', nl, conflictHeader g (map m_Column key), nl, tab, Join a2 ('','' @ nl @ tab), '';'']"
    unfolding upsertStatement_def Let_def a0_def [symmetric] a1_def [symmetric] a2_def [symmetric]
    by (auto simp: returns_iff split: if_splits)
  have "terminated st"
    using st assms(2,3) terminated_insertStatement [of "[]"] by (simp add: createStatement_def)
  then have "neutral (TrimSuffix st '';'')" by (rule neutral_TrimSuffix)
  with a2 match_columns_neutral [OF assms(5)] show ?thesis
    unfolding c by (intro terminatedI) (simp_all add: text_simps)
qed

lemma terminated_deleteStatement:
  assumes "deleteStatement g t cols ms = Inr c" and "neutral t" and "list_all match_ok ms"
  shows "terminated c"
proof -
  obtain ps where *: "keyPredicates g t cols [] False ms = Inr ps"
    "c = concat [''DELETE FROM '', t, nl, ''WHERE '', joinPredicates ps tab, '';'']"
    using assms(1) by (auto simp: deleteStatement_def returns_iff)
  have "list_all neutral ps" using neutral_keyPredicates [OF *(1)] assms by simp
  with assms(2) show ?thesis unfolding *(2) by (intro terminatedI) (simp_all add: text_simps)
qed

lemma neutral_archived: "neutral t \<Longrightarrow> list_all neutral (if ArchivedAtColumn \<in> set cols then [Qualify t ArchivedAtColumn @ '' IS NULL''] else [])"
  by (simp add: neutral_is_null neutrals)

lemma neutral_archivedPredicates: "neutral t \<Longrightarrow> list_all neutral (archivedPredicates t cols)"
  by (simp add: archivedPredicates_def neutral_is_null neutrals)

lemma neutral_sweepPredicates:
  "sweepPredicates g t cols ms = Inr ps \<Longrightarrow> neutral t \<Longrightarrow> list_all match_ok ms \<Longrightarrow> list_all neutral ps"
  using neutral_matchPredicates [of g t True ms] neutral_archived [of t cols]
  by (auto simp: sweepPredicates_def returns_iff split: if_splits)

lemma terminated_countStatement:
  assumes "countStatement g t cols ms = Inr c" and "list_all match_ok ms"
  shows "terminated c"
proof -
  obtain ps where *: "ValidIdentifier t" "sweepPredicates g t cols ms = Inr ps"
    "c = concat [''SELECT COUNT(*)'', nl, ''FROM '', t, nl, ''WHERE '', joinPredicates ps tab, '';'']"
    using assms(1) by (auto simp: countStatement_def returns_iff)
  then have "list_all neutral ps" "neutral t"
    using neutral_sweepPredicates [OF *(2)] assms by (auto simp: ValidIdentifier_neutral)
  then show ?thesis unfolding *(3) by (intro terminatedI) (simp_all add: text_simps)
qed

lemma terminated_randomStatement:
  assumes "randomStatement g t cols ms = Inr c" and "list_all match_ok ms"
  shows "terminated c"
proof -
  obtain ps where *: "ValidIdentifier t" "names_ok cols" "matchPredicates g t True ms = Inr ps"
    and c: "\<exists>whr. whr = (let pr = (if ArchivedAtColumn \<in> set cols then [Qualify t ArchivedAtColumn @ '' IS NULL''] else []) @ ps
                in if length pr > 0 then nl @ ''WHERE '' @ joinPredicates pr tab else []) \<and>
      c = concat [''-- ORDER BY '', randomFunction g, '' sorts every matching row to return one, so this is a full scan.'', nl,
               ''-- Past a few thousand rows, prefer TABLESAMPLE or a pick over a range of ids.'', nl,
               ''SELECT'', nl, tab, Join (QualifyAll t cols) ('','' @ nl @ tab), nl, ''FROM '', t, whr, nl,
               ''ORDER BY '', randomFunction g, nl, ''LIMIT 1;'']"
    using assms(1) unfolding randomStatement_def returns_iff Let_def by blast
  from c obtain whr where whr: "whr = (let pr = (if ArchivedAtColumn \<in> set cols then [Qualify t ArchivedAtColumn @ '' IS NULL''] else []) @ ps
                in if length pr > 0 then nl @ ''WHERE '' @ joinPredicates pr tab else [])"
    and c: "c = concat [''-- ORDER BY '', randomFunction g, '' sorts every matching row to return one, so this is a full scan.'', nl,
               ''-- Past a few thousand rows, prefer TABLESAMPLE or a pick over a range of ids.'', nl,
               ''SELECT'', nl, tab, Join (QualifyAll t cols) ('','' @ nl @ tab), nl, ''FROM '', t, whr, nl,
               ''ORDER BY '', randomFunction g, nl, ''LIMIT 1;'']" by blast
  have t: "neutral t" "list_all neutral cols" using * by (simp_all add: ValidIdentifier_neutral names_ok_neutral)
  then have "list_all neutral ((if ArchivedAtColumn \<in> set cols then [Qualify t ArchivedAtColumn @ '' IS NULL''] else []) @ ps)"
    using neutral_archived [OF t(1), of cols] neutral_matchPredicates [OF *(3) t(1) assms(2)] by simp
  then have "neutral (joinPredicates ((if ArchivedAtColumn \<in> set cols then [Qualify t ArchivedAtColumn @ '' IS NULL''] else []) @ ps) tab)"
    by (rule neutral_joinPredicates) simp
  then have w: "neutral whr" unfolding whr Let_def by (intro neutralI) (simp add: lex_simps)
  show ?thesis
  proof (cases "gen_dialect g = MySQL")
    case True
    then have "randomFunction g = ''RAND()''" by (simp add: randomFunction_def)
    with t w show ?thesis unfolding c by (intro terminatedI) (simp_all add: text_simps)
  next
    case False
    then have "randomFunction g = ''random()''" by (simp add: randomFunction_def)
    with t w show ?thesis unfolding c by (intro terminatedI) (simp_all add: text_simps)
  qed
qed

lemma neutral_prefixSearchPredicates:
  "prefixSearchPredicates g t cols col ms = Inr ps \<Longrightarrow> neutral t \<Longrightarrow> neutral col \<Longrightarrow> list_all match_ok ms \<Longrightarrow> list_all neutral ps"
  using neutral_matchPredicates [of g t True ms] neutral_archived [of t cols]
  by (auto simp: prefixSearchPredicates_def returns_iff neutral_prefixCondition split: if_splits)

lemma terminated_prefixSearch:
  assumes "neutral t" and "neutral col" and "list_all match_ok ms"
  shows "list_all neutral cols \<Longrightarrow> prefixSearchStatement g t cols col d ms = Inr c \<Longrightarrow> terminated c"
    and "prefixSearchCountStatement g t cols col ms = Inr c \<Longrightarrow> terminated c"
proof -
  assume "list_all neutral cols" "prefixSearchStatement g t cols col d ms = Inr c"
  moreover then obtain ps where *: "prefixSearchPredicates g t cols col ms = Inr ps"
    "c = concat [''SELECT'', nl, tab, Join (QualifyAll t cols) ('','' @ nl @ tab), nl, ''FROM '', t, nl,
              ''WHERE '', joinPredicates (ps @ [cursorCondition g t col d]) tab, nl, cursorLimitClause g t col d, '';'']"
    by (auto simp: prefixSearchStatement_def returns_iff)
  moreover have "list_all neutral ps" using neutral_prefixSearchPredicates * assms by blast
  ultimately show "terminated c" using assms(1,2) unfolding *(2) by (intro terminatedI) (simp_all add: text_simps)
next
  assume "prefixSearchCountStatement g t cols col ms = Inr c"
  then obtain ps where *: "prefixSearchPredicates g t cols col ms = Inr ps"
    "c = concat [''SELECT COUNT(*)'', nl, ''FROM '', t, nl, ''WHERE '', joinPredicates ps tab, '';'']"
    by (auto simp: prefixSearchCountStatement_def returns_iff)
  moreover have "list_all neutral ps" using neutral_prefixSearchPredicates * assms by blast
  ultimately show "terminated c" using assms(1,2) unfolding *(2) by (intro terminatedI) (simp_all add: text_simps)
qed

lemma terminated_setRead:
  assumes "setReadStatement g t cols r k ms = Inr c" and "names_ok (r_Projection r)" and "list_all match_ok ms"
  shows "terminated c"
proof -
  obtain ps oc lock where *: "ValidIdentifier t" "names_ok cols" "ValidIdentifier (sk_Column k)" "ValidIdentifier (setkey_argument k)"
    "matchPredicates g t True ms = Inr ps" "listOrderClause t (setReadOrder k r) = Inr oc" "lockClause g (r_Lock r) = Inr lock"
    and c: "c = concat [''SELECT'', nl, tab, Join (QualifyAll t (projecting r cols)) ('','' @ nl @ tab), nl, ''FROM '', t, nl, ''WHERE '',
      joinPredicates ((if ArchivedAtColumn \<in> set cols then [Qualify t ArchivedAtColumn @ '' IS NULL''] else []) @ ps @
                      [setPredicate g (Qualify t (sk_Column k)) (setkey_argument k)]) tab, oc, lock, '';'']"
    using assms(1) unfolding setReadStatement_def returns_iff Let_def by blast
  have t: "neutral t" "neutral (sk_Column k)" "neutral (setkey_argument k)" "list_all neutral (projecting r cols)"
    using * assms(2) by (simp_all add: ValidIdentifier_neutral projecting_def names_ok_neutral)
  have "list_all neutral ((if ArchivedAtColumn \<in> set cols then [Qualify t ArchivedAtColumn @ '' IS NULL''] else []) @ ps @
                      [setPredicate g (Qualify t (sk_Column k)) (setkey_argument k)])"
    using neutral_archived [OF t(1), of cols] neutral_matchPredicates [OF *(5) t(1) assms(3)] t by (simp add: neutrals)
  then have "neutral (joinPredicates ((if ArchivedAtColumn \<in> set cols then [Qualify t ArchivedAtColumn @ '' IS NULL''] else []) @ ps @
                      [setPredicate g (Qualify t (sk_Column k)) (setkey_argument k)]) tab)"
    by (rule neutral_joinPredicates) simp
  moreover have "neutral oc" "neutral lock"
    using neutral_listOrderClause [OF *(6)] neutral_lockClause [OF *(7)] t(1) by blast+
  ultimately show ?thesis using t unfolding c by (intro terminatedI) (simp_all add: text_simps)
qed

lemma neutral_sweepStatement:
  assumes "sweepStatement g t cols proj os ms = Inr c" and "list_all neutral proj" and "list_all match_ok ms"
  shows "neutral c"
proof -
  obtain os' ps oc where *: "ValidIdentifier t" "names_ok cols" "sweepPredicates g t cols ms = Inr ps" "listOrderClause t os' = Inr oc"
    and c: "c = concat [''SELECT'', nl, tab, Join (QualifyAll t (if length proj = 0 then cols else proj)) ('','' @ nl @ tab), nl,
              ''FROM '', t, nl, ''WHERE '', joinPredicates ps tab, oc, nl, limitClause g]"
    using assms(1) unfolding sweepStatement_def returns_iff Let_def by blast
  have t: "neutral t" "list_all neutral (if length proj = 0 then cols else proj)"
    using * assms(2) by (simp_all add: ValidIdentifier_neutral names_ok_neutral)
  have "list_all neutral ps" "neutral oc"
    using neutral_sweepPredicates [OF *(3) t(1) assms(3)] neutral_listOrderClause [OF *(4)] t(1) by blast+
  with t show ?thesis unfolding c by (intro neutralI) (simp add: text_simps)
qed

lemma neutral_sweepKeyPredicate:
  assumes "sweepKeyPredicate g t cols os ms = Inr c" and "list_all match_ok ms"
  shows "neutral c \<and> neutral t"
proof -
  obtain scan where *: "sweepStatement g t cols [IDColumn] os ms = Inr scan"
    and c: "c = (if \<not> has_form (boundedWriteForms g) selfReferencingSubquery then
         concat [Qualify t IDColumn, '' IN ('', nl, tab, ''SELECT '', Qualify sweepAlias IDColumn, nl, tab, ''FROM ('', nl,
                indentLines scan (tab @ tab), nl, tab, '') AS '', sweepAlias, nl, '')'']
       else concat [Qualify t IDColumn, '' IN ('', nl, indentLines scan tab, nl, '')''])"
    using assms(1) by (auto simp: sweepKeyPredicate_def returns_iff split: if_splits)
  then have "ValidIdentifier t" by (auto simp: sweepStatement_def returns_iff)
  then have t: "neutral t" by (rule ValidIdentifier_neutral)
  have "neutral scan" using neutral_sweepStatement [OF *] assms(2) by simp
  then have "neutral (indentLines scan (tab @ tab))" "neutral (indentLines scan tab)"
    by (simp_all add: neutral_indentLines)
  with t show ?thesis unfolding c by (auto intro!: neutralI simp: lex_simps neutrals)
qed

lemma terminated_sweep_writes:
  assumes "neutral p" and "neutral t"
  shows "terminated (concat [''DELETE FROM '', t, nl, ''WHERE '', p, '';''])"
    and "list_all neutral as \<Longrightarrow> terminated (concat [''UPDATE '', t, '' SET'', nl, tab, Join as ('','' @ nl @ tab), nl, ''WHERE '', p, '';''])"
  using assms by (intro terminatedI; simp add: text_simps)+

lemma neutral_keyComparand: "list_all neutral ks \<Longrightarrow> ks \<noteq> [] \<Longrightarrow> neutral (keyComparand ks)"
proof (cases "length ks = 1")
  case True
  then obtain k where "ks = [k]" by (auto simp: length_Suc_conv)
  then show "list_all neutral ks \<Longrightarrow> ?thesis" by (simp add: keyComparand_def)
next
  case False
  then show "list_all neutral ks \<Longrightarrow> ?thesis"
    by (intro neutralI) (simp add: keyComparand_def lex_simps neutral_Join)
qed

lemma terminated_boundedDelete:
  assumes "boundedDelete g t pr ms = Inr c" and "neutral t" and "list_all neutral (pr_Key pr)" and "pr_Key pr \<noteq> []"
    and "list_all neutral (pr_Conditions pr)" and "list_all match_ok ms"
  shows "terminated c"
proof (cases "has_form (boundedWriteForms g) nativeBound")
  case True
  then obtain ps oc where *: "matchPredicates g t False ms = Inr ps" "listOrderClause [] (pr_Order pr) = Inr oc"
    and c: "c = concat [''DELETE FROM '', t, nl, ''WHERE '', joinPredicates (ps @ pr_Conditions pr) tab, oc, nl, capClause g, '';'']"
    using assms(1) by (auto simp: boundedDelete_def returns_iff)
  have "list_all neutral ps" "neutral oc"
    using neutral_matchPredicates [OF *(1) assms(2,6)] neutral_listOrderClause [OF *(2)] by blast+
  with assms(2,5) show ?thesis unfolding c by (intro terminatedI) (simp_all add: text_simps)
next
  case False
  define capped where "capped ps ot =
      [''SELECT '' @ Join (QualifyAll doomedAlias (pr_Key pr)) '', '', concat [''FROM '', t, '' AS '', doomedAlias],
       ''WHERE '' @ joinPredicates (ps @ pr_Conditions pr) (tab @ tab), ''ORDER BY '' @ ot, capClause g]" for ps ot
  from False obtain ps ot where *: "matchPredicates g doomedAlias True ms = Inr ps" "orderTerms doomedAlias (pr_Order pr) = Inr ot"
    and c: "c = concat [''DELETE FROM '', t, nl, ''WHERE '', keyComparand (pr_Key pr), '' IN ('', nl, tab,
                  Join (if gen_dialect g = Postgres then capped ps ot @ [''FOR UPDATE SKIP LOCKED''] else capped ps ot) (nl @ tab), nl, '');'']"
    using assms(1) unfolding boundedDelete_def Let_def capped_def [symmetric] by (auto simp: returns_iff)
  have "list_all neutral ps" "neutral ot"
    using neutral_matchPredicates [OF *(1) _ assms(6)] neutral_orderTerms [OF *(2)] by simp_all
  then have "list_all neutral (capped ps ot)"
    using assms(2,3,5) by (auto simp: capped_def intro!: neutralI) (simp_all add: lex_simps neutrals neutral_Join)
  moreover have "neutral ''FOR UPDATE SKIP LOCKED''" by (simp add: neutral_def code_step_def)
  ultimately have "neutral (Join (if gen_dialect g = Postgres then capped ps ot @ [''FOR UPDATE SKIP LOCKED''] else capped ps ot) (nl @ tab))"
    by (intro neutral_Join) simp_all
  with assms(2) neutral_keyComparand [OF assms(3,4)] show ?thesis
    unfolding c by (intro terminatedI) (simp_all add: text_simps)
qed

lemma terminated_pruneStatement:
  assumes "pruneStatement g t pr ms = Inr c" and "list_all neutral (pr_Conditions pr)" and "list_all match_ok ms"
  shows "terminated c"
proof -
  obtain os where *: "ValidIdentifier t" "pr_Key pr \<noteq> []" "names_ok (pr_Key pr)" "boundedDelete g t (pr\<lparr>pr_Order := os\<rparr>) ms = Inr c"
    using assms(1) by (auto simp: pruneStatement_def returns_iff)
  then show ?thesis
    using terminated_boundedDelete [OF *(4)] assms(2,3) by (simp add: ValidIdentifier_neutral names_ok_neutral)
qed

lemma mustJunctionList_returns [returns_iff]:
  "mustJunctionList t cols j = Inr u \<longleftrightarrow> ValidIdentifier t \<and> names_ok cols \<and> Junction_must j = Inr ()"
  by (auto simp: mustJunctionList_def returns_iff)

text \<open>\<^verbatim>\<open>must\<close> vets the columns of a junction's matches; what is left to the caller is the arguments they name.\<close>

definition junction_args_ok :: "Junction option \<Rightarrow> bool" where
  "junction_args_ok jo =
     (case jo of None \<Rightarrow> True | Some j \<Rightarrow> list_all (\<lambda>m. m_Arg m = [] \<or> ValidIdentifier (m_Arg m)) (j_Matches j))"

lemma Junction_must_ok: "Junction_must jo = Inr u \<Longrightarrow> junction_args_ok jo \<Longrightarrow> junction_ok jo"
  by (cases jo)
    (auto simp: Junction_must_def junction_args_ok_def junction_ok_def returns_iff names_ok_def match_ok_def list_all_iff)

lemma terminated_junctionList:
  assumes "junctionListStatement g t cols j d ms = Inr c" and "junction_args_ok j" and "list_all match_ok ms"
  shows "terminated c"
proof -
  have *: "ValidIdentifier t" "names_ok cols" "Junction_must j = Inr ()" "listStatement g t cols [] j None d ms = Inr c"
    using assms(1) by (auto simp: junctionListStatement_def returns_iff)
  show ?thesis
    using terminated_listStatement [OF *(4)] * neutral_junction [OF *(3)] Junction_must_ok [OF *(3) assms(2)] assms(3)
    by (simp add: setkey_ok_def ValidIdentifier_neutral names_ok_neutral)
qed

lemma terminated_junctionListAll:
  assumes "junctionListAllStatement g t cols j os ms = Inr c" and "junction_args_ok j" and "list_all match_ok ms"
  shows "terminated c"
proof -
  let ?pr = "\<lambda>ps jcs. (if ArchivedAtColumn \<in> set cols then [Qualify t ArchivedAtColumn @ '' IS NULL''] else []) @ ps @ jcs"
  let ?head = "concat [''SELECT'', nl, tab, Join (QualifyAll t cols @ projection j) ('','' @ nl @ tab), nl, fromClause t (joins j t)]"
  obtain ps jcs oc where *: "ValidIdentifier t" "names_ok cols" "Junction_must j = Inr ()" "matchPredicates g t True ms = Inr ps"
    "junction_conditions j g = Inr jcs" "listOrderClause t os = Inr oc"
    and c: "c = (if length (?pr ps jcs) > 0 then ?head @ nl @ ''WHERE '' @ joinPredicates (?pr ps jcs) tab else ?head) @ oc @ '';''"
    using assms(1) unfolding junctionListAllStatement_def returns_iff Let_def by blast
  have t: "neutral t" "list_all neutral cols" using * by (simp_all add: ValidIdentifier_neutral names_ok_neutral)
  have "list_all neutral (?pr ps jcs)"
    using neutral_archived [OF t(1), of cols] neutral_matchPredicates [OF *(4) t(1) assms(3)]
      neutral_junction_conditions [OF *(5) Junction_must_ok [OF *(3) assms(2)]] by simp
  then have p: "neutral (joinPredicates (?pr ps jcs) tab)" by (rule neutral_joinPredicates) simp
  have h: "neutral ?head"
    using t neutral_junction [OF *(3)] by (intro neutralI) (simp add: text_simps)
  then have "neutral (?head @ nl @ ''WHERE '' @ joinPredicates (?pr ps jcs) tab)"
    using p by (intro neutral_append) (simp_all add: neutral_def code_step_def)
  moreover have "neutral oc" using neutral_listOrderClause [OF *(6)] t(1) by blast
  ultimately have "neutral ((if length (?pr ps jcs) > 0 then ?head @ nl @ ''WHERE '' @ joinPredicates (?pr ps jcs) tab else ?head) @ oc)"
    using h by (intro neutral_append) (simp_all only: if_split simp_thms)
  then show ?thesis unfolding c terminated_def by (simp add: butlast_append)
qed

lemma Closure_must_returns:
  "Closure_must co = Inr c \<longleftrightarrow>
     co = Some c \<and> c_Projection c \<noteq> [] \<and> names_ok ([c_Alias c, closure_key c, c_Table c, tableKey c] @ c_Columns c @ c_Projection c) \<and>
     c_Alias c \<noteq> [] \<and> c_Table c \<noteq> [] \<and> Edge_must (c_Walk c) ''walk'' = Inr () \<and> Edge_must (c_Reach c) ''reach'' = Inr ()"
  by (cases co) (auto simp: Closure_must_def returns_iff names_ok_def)

lemma Edge_must_names: "Edge_must e kind = Inr u \<Longrightarrow> neutral (e_Table e) \<and> neutral (e_From e) \<and> neutral (e_To e)"
  by (auto simp: Edge_must_def returns_iff ValidIdentifier_neutral)

lemma neutral_Edge_join:
  "Edge_must e kind = Inr u \<Longrightarrow> neutral a \<Longrightarrow> neutral ac \<Longrightarrow> neutral t \<Longrightarrow> neutral tc \<Longrightarrow>
     list_all neutral ((''FROM '' @ a) # Edge_join e a ac t tc)"
  using Edge_must_names [of e kind u] by (auto simp: Edge_join_def neutral_JoinStatement lex_simps intro!: neutralI [of "_ # _"])

lemma terminated_closureStatement:
  assumes "closureStatement g t cols co k ms = Inr c" and "list_all match_ok ms"
  shows "terminated c"
proof -
  obtain cl ps where *: "ValidIdentifier t" "ValidIdentifier (sk_Column k)" "ValidIdentifier (setkey_argument k)"
    "Closure_must co = Inr cl" "matchPredicates g t True ms = Inr ps"
    and c: "c = concat [''WITH RECURSIVE '', c_Alias cl, '' AS ('', nl, tab, ''SELECT'', nl, tab, tab, Qualify t (closure_key cl), nl, tab,
              ''FROM '', t, nl, tab, ''WHERE '',
              joinPredicates (archivedPredicates t cols @ ps @ [setPredicate g (Qualify t (sk_Column k)) (setkey_argument k)]) (tab @ tab),
              nl, tab, ''UNION'', nl, tab, ''SELECT'', nl, tab, tab, Qualify t (closure_key cl), nl, tab,
              Join ((''FROM '' @ c_Alias cl) # Edge_join (c_Walk cl) (c_Alias cl) (closure_key cl) t (closure_key cl)) (nl @ tab),
              recursivePredicate t cols, nl, '')'', nl, ''SELECT DISTINCT'', nl, tab,
              Join (QualifyAll (c_Table cl) (c_Projection cl)) ('','' @ nl @ tab), nl,
              Join ((''FROM '' @ c_Alias cl) # Edge_join (c_Reach cl) (c_Alias cl) (closure_key cl) (c_Table cl) (tableKey cl)) nl, nl,
              ''WHERE '', joinPredicates (archivedPredicates (c_Table cl) (c_Columns cl)) tab, nl,
              ''ORDER BY '', Join (QualifyAll (c_Table cl) (c_Projection cl)) '', '', '';'']"
    using assms(1) unfolding closureStatement_def seedPredicates_def returns_iff Let_def by blast
  have cl: "neutral (c_Alias cl)" "neutral (closure_key cl)" "neutral (c_Table cl)" "neutral (tableKey cl)"
    "list_all neutral (c_Projection cl)" "Edge_must (c_Walk cl) ''walk'' = Inr ()" "Edge_must (c_Reach cl) ''reach'' = Inr ()"
    using *(4) by (auto simp: Closure_must_returns names_ok_def list_all_iff ValidIdentifier_neutral)
  have t: "neutral t" "neutral (sk_Column k)" "neutral (setkey_argument k)" using * by (simp_all add: ValidIdentifier_neutral)
  have 1: "neutral (joinPredicates (archivedPredicates t cols @ ps @ [setPredicate g (Qualify t (sk_Column k)) (setkey_argument k)]) (tab @ tab))"
    using neutral_archivedPredicates [OF t(1), of cols] neutral_matchPredicates [OF *(5) t(1) assms(2)] t
    by (intro neutral_joinPredicates) (simp_all add: neutrals)
  have 2: "neutral (Join ((''FROM '' @ c_Alias cl) # Edge_join (c_Walk cl) (c_Alias cl) (closure_key cl) t (closure_key cl)) (nl @ tab))"
    "neutral (Join ((''FROM '' @ c_Alias cl) # Edge_join (c_Reach cl) (c_Alias cl) (closure_key cl) (c_Table cl) (tableKey cl)) nl)"
    by (rule neutral_Join, rule neutral_Edge_join [OF cl(6) cl(1) cl(2) t(1) cl(2)], simp,
        rule neutral_Join, rule neutral_Edge_join [OF cl(7) cl(1) cl(2) cl(3) cl(4)], simp)
  have 3: "neutral (recursivePredicate t cols)"
    using neutral_joinPredicates [OF neutral_archivedPredicates [OF t(1), of cols], of "tab @ tab"]
    by (intro neutralI) (simp add: recursivePredicate_def lex_simps Let_def)
  have 4: "neutral (joinPredicates (archivedPredicates (c_Table cl) (c_Columns cl)) tab)"
    using neutral_joinPredicates [OF neutral_archivedPredicates [OF cl(3)]] by simp
  have 5: "neutral (Join (QualifyAll (c_Table cl) (c_Projection cl)) ('','' @ nl @ tab))"
    "neutral (Join (QualifyAll (c_Table cl) (c_Projection cl)) '', '')" "neutral (Qualify t (closure_key cl))"
    using cl t by (simp_all add: neutral_Join neutrals)
  show ?thesis
    unfolding c
    supply [simp del] = append_Cons
    by (intro terminatedI) (simp_all add: butlast_append lex_simps 1 2 3 4 5 t cl)
qed

text \<open>
  The recursive term leaves its \<^verbatim>\<open>WHERE\<close> out when there is nothing to say in it; the outer one does not. A closure that reads
  a table without \<^verbatim>\<open>archived_at\<close> is rendered with an empty clause, which no server parses.
\<close>

lemma closure_renders_empty_where:
  assumes "closureStatement g t cols (Some cl) k ms = Inr c" and "ArchivedAtColumn \<notin> set (c_Columns cl)"
  shows "\<exists>a b. c = a @ ''WHERE '' @ nl @ ''ORDER BY '' @ b"
proof -
  have "joinPredicates (archivedPredicates (c_Table cl) (c_Columns cl)) tab = []"
    using assms(2) by (simp add: archivedPredicates_def joinPredicates_def)
  with assms(1) obtain a where "c = a @ ''WHERE '' @ nl @ ''ORDER BY '' @ Join (QualifyAll (c_Table cl) (c_Projection cl)) '', '' @ '';''"
    unfolding closureStatement_def seedPredicates_def returns_iff Let_def Closure_must_returns
    by (auto simp del: append_Cons simp: concat.simps)
  then show ?thesis by blast
qed

subsection \<open>The standard set\<close>

lemma without_filter: "without cs ex = filter (\<lambda>c. c \<notin> set ex) cs"
  using foldl_append_filter [of "\<lambda>c. c \<notin> set ex" "\<lambda>c. c" "[]" cs] by (simp add: without_def)

lemma write_columns_neutral:
  "list_all neutral cs \<Longrightarrow> list_all neutral (ForInsert cs ex)" "list_all neutral cs \<Longrightarrow> list_all neutral (ForUpdate cs ex)"
  by (auto simp: ForInsert_def ForUpdate_def without_filter list_all_iff)

lemma crud_guards_returns [returns_iff]:
  "crud_guards s t cols = Inr u \<longleftrightarrow>
     ValidIdentifier t \<and> names_ok cols \<and> (s_ownership s = [] \<or> ValidIdentifier (s_ownership s)) \<and> IDColumn \<in> set cols"
  by (auto simp: crud_guards_def returns_iff)

text \<open>On a column list with an id nothing in the set panics, so its queries are a list, nil for those the options omit.\<close>

definition eq_text :: "string \<Rightarrow> string \<Rightarrow> bool \<Rightarrow> string" where
  "eq_text t c q = concat [if q then Qualify t c else c, '' = sqlc.arg('', c, '')'']"

definition row_terms :: "string \<Rightarrow> string list \<Rightarrow> string \<Rightarrow> bool \<Rightarrow> string list" where
  "row_terms t cols own q =
     (if ArchivedAtColumn \<in> set cols then [(if q then Qualify t ArchivedAtColumn else ArchivedAtColumn) @ '' IS NULL''] else []) @
     [eq_text t IDColumn q] @ (if own \<noteq> [] then [eq_text t own q] else [])"

lemma equalityPredicate_text: "equalityPredicate g t c q = Inr (eq_text t c q)"
  by (simp add: equalityPredicate_def matchPredicate_def eq_text_def operator_def match_argument_def)

lemma singleRow_text: "IDColumn \<in> set cols \<Longrightarrow> singleRowPredicates g t cols own q [] = Inr (row_terms t cols own q)"
  by (simp add: singleRowPredicates_def keyPredicates_def equalityPredicate_text row_terms_def matchPredicates_def)

lemma statements_return:
  assumes "IDColumn \<in> set cols"
  shows "getStatement g t cols own zero_Read [] = Inr (projr (getStatement g t cols own zero_Read []))"
    "existsStatement g t cols own [] = Inr (projr (existsStatement g t cols own []))"
    "listStatement g t cols own None None d [] = Inr (projr (listStatement g t cols own None None d []))"
    "updateStatement g t cols ucs own ns [] = Inr (projr (updateStatement g t cols ucs own ns []))"
    "archiveStatement g t cols own [] = Inr (projr (archiveStatement g t cols own []))"
    "ics \<noteq> [] \<Longrightarrow> createStatement t ics ns = Inr (projr (createStatement t ics ns))"
proof -
  show "listStatement g t cols own None None d [] = Inr (projr (listStatement g t cols own None None d []))"
    by (cases "own = []")
      (simp_all add: listStatement_def equalityPredicate_text matchPredicates_def junction_conditions_def Let_def)
qed (simp_all add: getStatement_def existsStatement_def updateStatement_def archiveStatement_def singleRow_text [OF assms]
    lockClause_def lockClause_for_def zero_Read_def createStatement_def insertStatement_def Let_def)

definition not_updatable :: "settings \<Rightarrow> string list" where
  "not_updatable s = s_immutable s @ s_databaseOwned s @ (if s_ownership s \<noteq> [] then [s_ownership s] else [])"

definition crud_list :: "Generator \<Rightarrow> settings \<Rightarrow> string \<Rightarrow> string list \<Rightarrow> Query option list" where
  "crud_list g s t cols =
     (let own = s_ownership s; ics = ForInsert cols (s_databaseOwned s); ucs = ForUpdate cols (not_updatable s)
      in (if ics \<noteq> [] then [query s CreateQuery ExecType (projr (createStatement t ics (s_nullable s)))] else []) @
         [query s GetQuery OneType (projr (getStatement g t cols own zero_Read [])),
          query s ExistsQuery OneType (projr (existsStatement g t cols own [])),
          query s ListQuery ManyType (projr (listStatement g t cols own None None Ascending [])),
          descendingQuery s ListQuery ManyType (projr (listStatement g t cols own None None Descending []))] @
         (if ucs \<noteq> [] then [query s UpdateQuery ExecRowsType (projr (updateStatement g t cols ucs own (s_nullable s) []))] else []) @
         (if ArchivedAtColumn \<in> set cols then [query s ArchiveQuery ExecRowsType (projr (archiveStatement g t cols own []))] else []) @
         (if LastIndexedAtColumn \<in> set cols
          then (if ArchivedAtColumn \<in> set cols then [query s ScanIDsForReindexQuery ManyType (ReindexScanQuery g t)] else []) @
               [query s MarkAsIndexedQuery ExecRowsType (IndexStampQuery g t)]
          else []))"

definition present :: "'a option list \<Rightarrow> 'a list" where
  "present xs = map the (filter (\<lambda>x. x \<noteq> None) xs)"

lemma in_present: "x \<in> set (present xs) \<longleftrightarrow> Some x \<in> set xs"
  by (force simp: present_def)

abbreviation name_of :: "Query \<Rightarrow> string" where
  "name_of q \<equiv> qa_Name (q_Annotation q)"

lemma unique_names_returns:
  "unique_names t seen qs = Inr u \<longleftrightarrow> distinct (map name_of qs) \<and> set (map name_of qs) \<inter> set seen = {}"
  by (induction qs arbitrary: seen) auto

lemma mustBeUniquelyNamed_returns [returns_iff]:
  "mustBeUniquelyNamed t qs = Inr u \<longleftrightarrow> distinct (map name_of qs)"
  by (simp add: mustBeUniquelyNamed_def unique_names_returns)

lemma crud_queries_list:
  assumes "IDColumn \<in> set cols"
  shows "crud_queries g s t cols =
    attempt (mustBeUniquelyNamed t (present (crud_list g s t cols))) (\<lambda>_. Inr (present (crud_list g s t cols)))"
proof -
  define ics where "ics = ForInsert cols (s_databaseOwned s)"
  define ucs where "ucs = ForUpdate cols (not_updatable s)"
  obtain get where get: "getStatement g t cols (s_ownership s) zero_Read [] = Inr get" using statements_return(1) [OF assms] ..
  obtain ex where ex: "existsStatement g t cols (s_ownership s) [] = Inr ex" using statements_return(2) [OF assms] ..
  obtain asc where asc: "listStatement g t cols (s_ownership s) None None Ascending [] = Inr asc"
    using statements_return(3) [OF assms] ..
  obtain dsc where dsc: "listStatement g t cols (s_ownership s) None None Descending [] = Inr dsc"
    using statements_return(3) [OF assms] ..
  obtain up where up: "updateStatement g t cols ucs (s_ownership s) (s_nullable s) [] = Inr up"
    using statements_return(4) [OF assms] ..
  obtain ar where ar: "archiveStatement g t cols (s_ownership s) [] = Inr ar" using statements_return(5) [OF assms] ..
  obtain cr where cr: "ics \<noteq> [] \<Longrightarrow> createStatement t ics (s_nullable s) = Inr cr"
    using statements_return(6) [OF assms, of ics t "s_nullable s"] by blast
  show ?thesis
    unfolding crud_queries_def crud_list_def Let_def not_updatable_def [symmetric] present_def [symmetric]
      ics_def [symmetric] ucs_def [symmetric]
    by (cases "ics = []"; cases "ucs = []"; cases "ArchivedAtColumn \<in> set cols"; cases "LastIndexedAtColumn \<in> set cols")
      (simp_all add: get ex asc dsc up ar cr)
qed

lemma new_query_content [simp]: "q_Content (new_query n ty c) = c"
  by (simp add: new_query_def)

lemma query_Some: "query s w ty c = Some q \<longleftrightarrow> w \<notin> set (s_omitted s) \<and> q = new_query (query_name s w) ty c"
  "descendingQuery s w ty c = Some q \<longleftrightarrow> w \<notin> set (s_omitted s) \<and> q = new_query (DescendingName (query_name s w)) ty c"
  by (auto simp: query_def descendingQuery_def named_def)

lemma crud_list_cases:
  assumes "Some q \<in> set (crud_list g s t cols)"
  obtains (create) "ForInsert cols (s_databaseOwned s) \<noteq> []"
      "q = new_query (query_name s CreateQuery) ExecType (projr (createStatement t (ForInsert cols (s_databaseOwned s)) (s_nullable s)))"
    | (get) "q = new_query (query_name s GetQuery) OneType (projr (getStatement g t cols (s_ownership s) zero_Read []))"
    | (exist) "q = new_query (query_name s ExistsQuery) OneType (projr (existsStatement g t cols (s_ownership s) []))"
    | (asc) "q = new_query (query_name s ListQuery) ManyType (projr (listStatement g t cols (s_ownership s) None None Ascending []))"
    | (desc) "q = new_query (DescendingName (query_name s ListQuery)) ManyType
        (projr (listStatement g t cols (s_ownership s) None None Descending []))"
    | (update) "ForUpdate cols (not_updatable s) \<noteq> []"
      "q = new_query (query_name s UpdateQuery) ExecRowsType
        (projr (updateStatement g t cols (ForUpdate cols (not_updatable s)) (s_ownership s) (s_nullable s) []))"
    | (archive) "q = new_query (query_name s ArchiveQuery) ExecRowsType (projr (archiveStatement g t cols (s_ownership s) []))"
    | (scan) "q = new_query (query_name s ScanIDsForReindexQuery) ManyType (ReindexScanQuery g t)"
    | (stamp) "q = new_query (query_name s MarkAsIndexedQuery) ExecRowsType (IndexStampQuery g t)"
proof -
  note eqs = sym [of "Some q"]
  from assms show ?thesis
    unfolding crud_list_def Let_def
    by (simp only: set_append set_simps Un_iff insert_iff empty_iff if_split_asm)
      (elim disjE conjE, auto dest!: eqs simp: query_Some split: if_splits intro: that)
qed

lemma terminated_crud_list:
  assumes g: "crud_guards s t cols = Inr u" and q: "Some q \<in> set (crud_list g s t cols)"
  shows "terminated (q_Content q)"
proof -
  have v: "ValidIdentifier t" "names_ok cols" "s_ownership s = [] \<or> ValidIdentifier (s_ownership s)" "IDColumn \<in> set cols"
    using g by (simp_all add: returns_iff)
  have t: "neutral t" "list_all neutral cols" using v by (simp_all add: ValidIdentifier_neutral names_ok_neutral)
  have r: "read_ok zero_Read" by (simp add: read_ok_def zero_Read_def names_ok_def)
  note ret = statements_return [OF v(4)]
  have *: "terminated (projr (getStatement g t cols (s_ownership s) zero_Read []))"
    "terminated (projr (existsStatement g t cols (s_ownership s) []))"
    "\<And>d. terminated (projr (listStatement g t cols (s_ownership s) None None d []))"
    "\<And>ucs ns. list_all neutral ucs \<Longrightarrow> terminated (projr (updateStatement g t cols ucs (s_ownership s) ns []))"
    "terminated (projr (archiveStatement g t cols (s_ownership s) []))"
    "\<And>ics ns. ics \<noteq> [] \<Longrightarrow> list_all neutral ics \<Longrightarrow> terminated (projr (createStatement t ics ns))"
    using terminated_getStatement [OF ret(1) t(1) v(2) v(3) r] terminated_existsStatement [OF ret(2) t(1) v(3)]
      terminated_listStatement [OF ret(3) t v(3)] terminated_updateStatement [OF ret(4) t(1) _ v(3)]
      terminated_archiveStatement [OF ret(5) t(1) v(3)]
      terminated_insertStatement [OF ret(6) [unfolded createStatement_def] _ t(1)]
    by (simp_all add: junction_ok_def setkey_ok_def joins_def projection_def createStatement_def)
  from q show ?thesis
    by (cases rule: crud_list_cases)
      (simp_all add: * write_columns_neutral [OF t(2)] terminated_index_queries [OF t(1)])
qed

subsection \<open>Everything the package emits\<close>

text \<open>
  The queries of a generator. Premises on names are on those an operation interpolates without vetting them; the package
  takes them to be literals of the program that calls it. A caller's own conditions in a prune are interpolated as they
  are, and have to be closed.
\<close>

inductive emits :: "Generator \<Rightarrow> Query \<Rightarrow> bool" for g where
  standard: "snd (StandardCRUD rs g t cols opts) = Inr qs \<Longrightarrow> q \<in> set qs \<Longrightarrow> emits g q"
| get: "GetQuery_g g n t cols ms = Inr q \<Longrightarrow> names_ok (t # cols) \<Longrightarrow> list_all match_ok ms \<Longrightarrow> emits g q"
| read: "ReadQuery g n t cols r ms = Inr q \<Longrightarrow> names_ok (t # cols) \<Longrightarrow> read_ok r \<Longrightarrow> list_all match_ok ms \<Longrightarrow> emits g q"
| exist: "ExistsQuery_g g n t cols ms = Inr q \<Longrightarrow> ValidIdentifier t \<Longrightarrow> list_all match_ok ms \<Longrightarrow> emits g q"
| lst: "ListQueries g n t cols ms = Inr qs \<Longrightarrow> q \<in> set qs \<Longrightarrow> names_ok (t # cols) \<Longrightarrow> list_all match_ok ms \<Longrightarrow> emits g q"
| update: "UpdateQuery_g g n t cols ucs ns ms = Inr q \<Longrightarrow> names_ok (t # ucs) \<Longrightarrow> list_all match_ok ms \<Longrightarrow> emits g q"
| archive: "ArchiveQuery_g g n t cols ms = Inr q \<Longrightarrow> ValidIdentifier t \<Longrightarrow> list_all match_ok ms \<Longrightarrow> emits g q"
| insert: "InsertQuery g n t ics ns = Inr q \<Longrightarrow> names_ok (t # ics) \<Longrightarrow> emits g q"
| insert_ignore: "InsertIgnoreQuery g n t ics ns key = Inr q \<Longrightarrow> names_ok (t # ics) \<Longrightarrow> list_all match_ok key \<Longrightarrow> emits g q"
| upsert: "UpsertQuery g n t cols ics ucs ns key = Inr q \<Longrightarrow> names_ok (t # ics @ ucs) \<Longrightarrow> list_all match_ok key \<Longrightarrow> emits g q"
| delete: "DeleteQuery g n t cols ms = Inr q \<Longrightarrow> ValidIdentifier t \<Longrightarrow> list_all match_ok ms \<Longrightarrow> emits g q"
| count: "CountQuery g n t cols ms = Inr q \<Longrightarrow> list_all match_ok ms \<Longrightarrow> emits g q"
| random: "RandomQuery g n t cols ms = Inr q \<Longrightarrow> list_all match_ok ms \<Longrightarrow> emits g q"
| junction_list: "JunctionListQueries g n t cols j ms = Inr qs \<Longrightarrow> q \<in> set qs \<Longrightarrow> junction_args_ok j \<Longrightarrow> list_all match_ok ms \<Longrightarrow> emits g q"
| junction_all: "JunctionListAllQuery g n t cols j os ms = Inr q \<Longrightarrow> junction_args_ok j \<Longrightarrow> list_all match_ok ms \<Longrightarrow> emits g q"
| prefix_search: "PrefixSearchQueries g t cols sr ms = Inr qs \<Longrightarrow> q \<in> set qs \<Longrightarrow> list_all match_ok ms \<Longrightarrow> emits g q"
| set_list: "SetListQueries g n t cols k ms = Inr qs \<Longrightarrow> q \<in> set qs \<Longrightarrow> names_ok cols \<Longrightarrow> list_all match_ok ms \<Longrightarrow> emits g q"
| set_read: "SetReadQuery g n t cols r k ms = Inr q \<Longrightarrow> names_ok (r_Projection r) \<Longrightarrow> list_all match_ok ms \<Longrightarrow> emits g q"
| sweep: "SweepQuery g n t cols sw ms = Inr q \<Longrightarrow> names_ok (sw_Projection sw) \<Longrightarrow> list_all match_ok ms \<Longrightarrow> emits g q"
| sweep_delete: "SweepDeleteQuery g n t cols os ms = Inr q \<Longrightarrow> list_all match_ok ms \<Longrightarrow> emits g q"
| sweep_update: "SweepUpdateQuery g n t cols ucs ns os ms = Inr q \<Longrightarrow> names_ok ucs \<Longrightarrow> list_all match_ok ms \<Longrightarrow> emits g q"
| prune: "PruneQuery g n t pr ms = Inr q \<Longrightarrow> list_all neutral (pr_Conditions pr) \<Longrightarrow> list_all match_ok ms \<Longrightarrow> emits g q"
| closure: "ClosureQuery g n t cols co k ms = Inr q \<Longrightarrow> list_all match_ok ms \<Longrightarrow> emits g q"

lemma query_of_returns [returns_iff]: "query_of n ty c = Inr q \<longleftrightarrow> (\<exists>x. c = Inr x \<and> q = new_query n ty x)"
  by (auto simp: query_of_def returns_iff)

lemma query_pair_content: "query_pair n c = Inr qs \<Longrightarrow> q \<in> set qs \<Longrightarrow> \<exists>d. c d = Inr (q_Content q)"
  unfolding query_pair_def returns_iff by fastforce

definition registered :: "Registry \<Rightarrow> string list \<Rightarrow> Registry" where
  "registered r ts = r\<lparr>reg_tables := Some (foldl (\<lambda>m table. mput table () m) (case reg_tables r of None \<Rightarrow> [] | Some m \<Rightarrow> m) ts)\<rparr>"

lemma Register_returns [returns_iff]: "Register r ts = Inr r' \<longleftrightarrow> names_ok ts \<and> r' = registered r ts"
  by (auto simp: Register_def returns_iff Let_def registered_def)

lemma StandardCRUD_eq:
  "StandardCRUD rs g t cols opts =
     (let s = apply_options t opts
      in case crud_guards s t cols of
           Inl e \<Rightarrow> (rs, Inl e)
         | Inr _ \<Rightarrow> (rs(s_registry s := registered (rs (s_registry s)) [t]),
                     attempt (mustBeUniquelyNamed t (present (crud_list g s t cols))) (\<lambda>_. Inr (present (crud_list g s t cols)))))"
proof (cases "crud_guards (apply_options t opts) t cols")
  case (Inr u)
  then have v: "names_ok [t]" "IDColumn \<in> set cols" by (simp_all add: returns_iff names_ok_def)
  then have "Register r [t] = Inr (registered r [t])" for r by (simp add: returns_iff)
  with Inr v show ?thesis by (simp add: StandardCRUD_def Let_def crud_queries_list)
qed (simp add: StandardCRUD_def Let_def)

lemma StandardCRUD_returns:
  "snd (StandardCRUD rs g t cols opts) = Inr qs \<longleftrightarrow>
     crud_guards (apply_options t opts) t cols = Inr () \<and> qs = present (crud_list g (apply_options t opts) t cols) \<and>
     distinct (map name_of qs)"
  by (cases "crud_guards (apply_options t opts) t cols") (auto simp: StandardCRUD_eq Let_def attempt_returns mustBeUniquelyNamed_returns)

lemma emits_closed: "emits g q \<Longrightarrow> terminated (q_Content q) \<or> neutral (q_Content q)"
proof (induction rule: emits.induct)
  case (standard rs t cols opts qs q)
  then show ?case using terminated_crud_list by (auto simp: StandardCRUD_returns in_present)
next
  case (get n t cols ms q)
  then show ?case using terminated_getStatement [of g t cols "[]" zero_Read ms]
    by (auto simp: GetQuery_g_def returns_iff names_ok_def read_ok_def zero_Read_def ValidIdentifier_neutral)
next
  case (read n t cols r ms q)
  then show ?case using terminated_getStatement [of g t cols "[]" r ms]
    by (auto simp: ReadQuery_def returns_iff names_ok_def ValidIdentifier_neutral)
next
  case (exist n t cols ms q)
  then show ?case using terminated_existsStatement [of g t cols "[]" ms]
    by (auto simp: ExistsQuery_g_def returns_iff ValidIdentifier_neutral)
next
  case (lst n t cols ms qs q)
  then obtain d where "listStatement g t cols [] None None d ms = Inr (q_Content q)"
    unfolding ListQueries_def using query_pair_content by blast
  with lst show ?case using terminated_listStatement [of g t cols "[]" None None d ms]
    by (simp add: names_ok_def ValidIdentifier_neutral list_all_iff junction_ok_def setkey_ok_def joins_def projection_def)
next
  case (update n t cols ucs ns ms q)
  then show ?case using terminated_updateStatement [of g t cols ucs "[]" ns ms]
    by (auto simp: UpdateQuery_g_def returns_iff names_ok_def ValidIdentifier_neutral list_all_iff)
next
  case (archive n t cols ms q)
  then show ?case using terminated_archiveStatement [of g t cols "[]" ms]
    by (auto simp: ArchiveQuery_g_def returns_iff ValidIdentifier_neutral)
next
  case (insert n t ics ns q)
  then show ?case using terminated_insertStatement [of "[]" t ics ns]
    by (auto simp: InsertQuery_def createStatement_def returns_iff names_ok_def ValidIdentifier_neutral list_all_iff)
next
  case (insert_ignore n t ics ns key q)
  then show ?case using terminated_insertIgnore [of g t ics ns key]
    by (auto simp: InsertIgnoreQuery_def returns_iff names_ok_def ValidIdentifier_neutral list_all_iff)
next
  case (upsert n t cols ics ucs ns key q)
  then show ?case using terminated_upsert [of g t cols ics ucs ns key]
    by (auto simp: UpsertQuery_def returns_iff names_ok_def ValidIdentifier_neutral list_all_iff)
next
  case (delete n t cols ms q)
  then show ?case using terminated_deleteStatement [of g t cols ms]
    by (auto simp: DeleteQuery_def returns_iff ValidIdentifier_neutral)
next
  case (count n t cols ms q)
  then show ?case using terminated_countStatement [of g t cols ms] by (auto simp: CountQuery_def returns_iff)
next
  case (random n t cols ms q)
  then show ?case using terminated_randomStatement [of g t cols ms] by (auto simp: RandomQuery_def returns_iff)
next
  case (junction_list n t cols j ms qs q)
  then show ?case unfolding JunctionListQueries_def using query_pair_content terminated_junctionList by blast
next
  case (junction_all n t cols j os ms q)
  then show ?case using terminated_junctionListAll [of g t cols j os ms] by (auto simp: JunctionListAllQuery_def returns_iff)
next
  case (prefix_search t cols sr ms qs q)
  then have "neutral t" "neutral (ps_Column sr)" "list_all neutral cols"
    by (auto simp: PrefixSearchQueries_def returns_iff ValidIdentifier_neutral names_ok_neutral)
  moreover from prefix_search have "(\<exists>d. prefixSearchStatement g t cols (ps_Column sr) d ms = Inr (q_Content q)) \<or>
      prefixSearchCountStatement g t cols (ps_Column sr) ms = Inr (q_Content q)"
    unfolding PrefixSearchQueries_def returns_iff by fastforce
  ultimately show ?case using terminated_prefixSearch prefix_search(3) by blast
next
  case (set_list n t cols k ms qs q)
  then have "ValidIdentifier t" "setkey_ok (Some k)"
    and "query_pair n (\<lambda>direction. listStatement g t cols [] None (Some k) direction ms) = Inr qs"
    by (auto simp: SetListQueries_def returns_iff setkey_ok_def)
  moreover then obtain d where "listStatement g t cols [] None (Some k) d ms = Inr (q_Content q)"
    using query_pair_content set_list(2) by blast
  ultimately show ?case using set_list terminated_listStatement [of g t cols "[]" None "Some k" d ms]
    by (simp add: ValidIdentifier_neutral names_ok_neutral junction_ok_def joins_def projection_def)
next
  case (set_read n t cols r k ms q)
  then show ?case using terminated_setRead [of g t cols r k ms] by (auto simp: SetReadQuery_def returns_iff)
next
  case (sweep n t cols sw ms q)
  then obtain c l where "sweepStatement g t cols (sw_Projection sw) (sw_Order sw) ms = Inr c" "lockClause g (sw_Lock sw) = Inr l"
    "q_Content q = c @ l" by (auto simp: SweepQuery_def returns_iff)
  with sweep neutral_sweepStatement neutral_lockClause show ?case by (auto simp: names_ok_neutral)
next
  case (sweep_delete n t cols os ms q)
  then show ?case using neutral_sweepKeyPredicate terminated_sweep_writes(1)
    by (fastforce simp: SweepDeleteQuery_def returns_iff simp del: concat.simps)
next
  case (sweep_update n t cols ucs ns os ms q)
  then show ?case using neutral_sweepKeyPredicate terminated_sweep_writes(2) neutral_assignments names_ok_neutral
    by (fastforce simp: SweepUpdateQuery_def returns_iff simp del: concat.simps)
next
  case (prune n t pr ms q)
  then show ?case using terminated_pruneStatement [of g t pr ms] by (auto simp: PruneQuery_def returns_iff)
next
  case (closure n t cols co k ms q)
  then show ?case using terminated_closureStatement [of g t cols co k ms] by (auto simp: ClosureQuery_def returns_iff)
qed

end
