(* ===== verification/QueryProperties.thy ===== *)
theory QueryProperties
  imports QueryCorpus
begin

text \<open>
  Properties of the SQL generator: what it renders is one statement, quoted names and search patterns mean what they were
  made from, and the standard set does not depend on the dialect.
\<close>

subsection \<open>Rendering\<close>

lemma new_query_annotation [simp]: "qa_Type (q_Annotation (new_query n ty c)) = ty" "name_of (new_query n ty c) = n"
  by (simp_all add: new_query_def)

lemma crud_types:
  "Some q \<in> set (crud_list g s t cols) \<Longrightarrow> qa_Type (q_Annotation q) \<in> {ExecType, ExecRowsType, ManyType, OneType}"
  by (erule crud_list_cases) simp_all

lemma emits_type: "emits g q \<Longrightarrow> qa_Type (q_Annotation q) \<in> {ExecType, ExecRowsType, ManyType, OneType}"
proof (induction rule: emits.induct)
  case (standard rs t cols opts qs q)
  then show ?case using crud_types by (simp add: StandardCRUD_returns in_present)
qed (auto simp: GetQuery_g_def ReadQuery_def ExistsQuery_g_def ListQueries_def UpdateQuery_g_def ArchiveQuery_g_def InsertQuery_def
    InsertIgnoreQuery_def UpsertQuery_def DeleteQuery_def CountQuery_def RandomQuery_def JunctionListQueries_def
    JunctionListAllQuery_def PrefixSearchQueries_def SetListQueries_def SetReadQuery_def SweepQuery_def SweepDeleteQuery_def
    SweepUpdateQuery_def PruneQuery_def ClosureQuery_def query_pair_def returns_iff new_query_def)

lemma read_line_comment: "CHR 0x0A \<notin> set s \<Longrightarrow> read_sql (LineComment, d) (s @ nl) = Some (Code, d)"
  by (induction s) auto

lemma annotation_neutral:
  assumes "CHR 0x0A \<notin> set n" and "CHR 0x0A \<notin> set ty"
  shows "neutral (concat [''-- name: '', n, '' '', ty, nl])"
  using read_line_comment [of "'' name: '' @ n @ '' '' @ ty"] assms
  by (intro neutralI) (simp add: code_step_def)

lemma query_types_plain: "ty \<in> {ExecType, ExecRowsType, ManyType, OneType} \<Longrightarrow> CHR 0x0A \<notin> set ty"
  by (auto simp: ExecType_def ExecRowsType_def ManyType_def OneType_def)

lemma Render_terminated:
  "terminated (q_Content q) \<or> neutral (q_Content q) \<Longrightarrow>
     \<exists>b. neutral b \<and> Render q = concat [''-- name: '', name_of q, '' '', qa_Type (q_Annotation q), nl] @ b @ CHR '';'' # nl"
  using neutral_no_terminator by (auto simp: Render_def Let_def dest!: terminatedE)


text \<open>A bounded delete for MySQL, whose capped read is a derived table on lines of its own.\<close>

lemmas name_simps = ValidIdentifier_iff Split_def lead_char_def word_char_def is_digit_def Let_def


subsection \<open>Quoting and patterns\<close>



text \<open>The \<^verbatim>\<open>LIKE\<close> of SQL with an escape character: \<^verbatim>\<open>%\<close> stands for any text, \<^verbatim>\<open>_\<close> for any one character, and what follows
  the escape for itself.\<close>

fun like :: "char \<Rightarrow> string \<Rightarrow> string \<Rightarrow> bool" where
  "like e [] s \<longleftrightarrow> s = []"
| "like e (p # ps) s \<longleftrightarrow>
     (if p = e then (case (ps, s) of (l # ps', c # s') \<Rightarrow> c = l \<and> like e ps' s' | _ \<Rightarrow> False)
      else if p = CHR ''%'' then like e ps s \<or> (case s of [] \<Rightarrow> False | c # s' \<Rightarrow> like e (p # ps) s')
      else (case s of [] \<Rightarrow> False | c # s' \<Rightarrow> (p = CHR ''_'' \<or> c = p) \<and> like e ps s'))"

lemma like_any: "like CHR ''!'' ''%'' s"
  by (induction s) simp_all

lemma like_escaped:
  "like CHR ''!'' (PrefixPattern p) s \<longleftrightarrow> HasPrefix s p"
proof (induction p arbitrary: s)
  case Nil
  show ?case using like_any by (simp add: PrefixPattern_def Replace_bytes_def LikeEscape_def HasPrefix_def)
next
  case (Cons c p)
  have e: "PrefixPattern (c # p) =
      (if c \<in> {CHR ''!'', CHR ''%'', CHR ''_''} then [CHR ''!'', c] else [c]) @ PrefixPattern p"
    by (simp add: PrefixPattern_def Replace_bytes_def LikeEscape_def)
  show ?case
    using Cons.IH [of "tl s"] by (cases s) (auto simp: e HasPrefix_def)
qed


subsection \<open>The standard set\<close>

text \<open>What the standard set consists of, by its columns and options: which query, its direction and its annotation.\<close>

definition standard_annotations :: "settings \<Rightarrow> string list \<Rightarrow> QueryAnnotation list" where
  "standard_annotations s cols =
     map (\<lambda>(w, desc, ty). \<lparr>qa_Name = (if desc then DescendingName (query_name s w) else query_name s w), qa_Type = ty\<rparr>)
       (filter (\<lambda>(w, desc, ty). w \<notin> set (s_omitted s))
         ((if ForInsert cols (s_databaseOwned s) \<noteq> [] then [(CreateQuery, False, ExecType)] else []) @
          [(GetQuery, False, OneType), (ExistsQuery, False, OneType), (ListQuery, False, ManyType), (ListQuery, True, ManyType)] @
          (if ForUpdate cols (not_updatable s) \<noteq> [] then [(UpdateQuery, False, ExecRowsType)] else []) @
          (if ArchivedAtColumn \<in> set cols then [(ArchiveQuery, False, ExecRowsType)] else []) @
          (if LastIndexedAtColumn \<in> set cols \<and> ArchivedAtColumn \<in> set cols then [(ScanIDsForReindexQuery, False, ManyType)] else []) @
          (if LastIndexedAtColumn \<in> set cols then [(MarkAsIndexedQuery, False, ExecRowsType)] else [])))"

lemma present_append [simp]: "present (xs @ ys) = present xs @ present ys"
  by (simp add: present_def)

lemma present_simps [simp]: "present [] = []" "present (Some x # xs) = x # present xs" "present (None # xs) = present xs"
  by (simp_all add: present_def)

lemma annotation_present [simp]:
  "map q_Annotation (present [query s w ty c]) = (if w \<in> set (s_omitted s) then [] else [\<lparr>qa_Name = query_name s w, qa_Type = ty\<rparr>])"
  "map q_Annotation (present [descendingQuery s w ty c]) =
     (if w \<in> set (s_omitted s) then [] else [\<lparr>qa_Name = DescendingName (query_name s w), qa_Type = ty\<rparr>])"
  by (simp_all add: query_def descendingQuery_def named_def new_query_def)

lemma present_Cons: "present (x # xs) = present [x] @ present xs"
  by (cases x) simp_all

lemma crud_annotations: "map q_Annotation (present (crud_list g s t cols)) = standard_annotations s cols"
proof -
  have four: "map q_Annotation (present [query s GetQuery OneType a, query s ExistsQuery OneType b, query s ListQuery ManyType c,
      descendingQuery s ListQuery ManyType d]) =
    map (\<lambda>(w, desc, ty). \<lparr>qa_Name = (if desc then DescendingName (query_name s w) else query_name s w), qa_Type = ty\<rparr>)
       (filter (\<lambda>(w, desc, ty). w \<notin> set (s_omitted s))
         [(GetQuery, False, OneType), (ExistsQuery, False, OneType), (ListQuery, False, ManyType), (ListQuery, True, ManyType)])"
    for a b c d
    by (subst present_Cons, subst (2) present_Cons, subst (3) present_Cons) (simp del: present_simps(1))
  show ?thesis
    unfolding crud_list_def standard_annotations_def Let_def present_append map_append filter_append four
    by (intro arg_cong2 [where f = "(@)"] refl) simp_all
qed

lemma crud_names: "map name_of (present (crud_list g s t cols)) = map qa_Name (standard_annotations s cols)"
  by (simp flip: crud_annotations [of g s t cols] add: comp_def)

lemma unique_names_annotations:
  "map q_Annotation qs = map q_Annotation qs' \<Longrightarrow> unique_names t seen qs = unique_names t seen qs'"
proof (induction qs arbitrary: qs' seen)
  case (Cons q qs)
  then obtain q' qs'' where "qs' = q' # qs''" by (cases qs') auto
  with Cons show ?case by simp
qed simp

text \<open>C32. Which queries the standard set has, and in which order, is decided by the columns and the options alone: for every two
  dialects the call registers the same table, panics with the same error or returns queries with the same names and
  annotations; those are the ones listed by \<open>standard_annotations\<close>, and no two of them share a name.\<close>

theorem standard_set_dialect_free:
  "fst (StandardCRUD rs g t cols opts) = fst (StandardCRUD rs g' t cols opts) \<and>
   map_sum id (map q_Annotation) (snd (StandardCRUD rs g t cols opts)) =
     map_sum id (map q_Annotation) (snd (StandardCRUD rs g' t cols opts)) \<and>
   (\<forall>qs. snd (StandardCRUD rs g t cols opts) = Inr qs \<longrightarrow>
      map q_Annotation qs = standard_annotations (apply_options t opts) cols \<and> distinct (map qa_Name (map q_Annotation qs)))"
proof -
  let ?s = "apply_options t opts"
  let ?qs = "\<lambda>g. present (crud_list g ?s t cols)"
  have u: "mustBeUniquelyNamed t (?qs g) = mustBeUniquelyNamed t (?qs g')"
    unfolding mustBeUniquelyNamed_def by (rule unique_names_annotations) (simp add: crud_annotations)
  have same: "fst (StandardCRUD rs g t cols opts) = fst (StandardCRUD rs g' t cols opts)"
    by (cases "crud_guards ?s t cols") (simp_all add: StandardCRUD_eq Let_def)
  have "map_sum id (map q_Annotation) (attempt (mustBeUniquelyNamed t (?qs g)) (\<lambda>_. Inr (?qs g))) =
      map_sum id (map q_Annotation) (attempt (mustBeUniquelyNamed t (?qs g')) (\<lambda>_. Inr (?qs g')))"
    unfolding u by (cases "mustBeUniquelyNamed t (?qs g')") (simp_all add: crud_annotations)
  then have "map_sum id (map q_Annotation) (snd (StandardCRUD rs g t cols opts)) =
      map_sum id (map q_Annotation) (snd (StandardCRUD rs g' t cols opts))"
    by (cases "crud_guards ?s t cols") (simp_all add: StandardCRUD_eq Let_def)
  with same show ?thesis by (auto simp: StandardCRUD_returns crud_annotations crud_names)
qed

text \<open>A table owned by an account, on which the standard set is rendered.\<close>

definition demo_columns :: "string list" where
  "demo_columns = [''id'', ''name'', ''belongs_to_account'', ''created_at'', ''last_updated_at'', ''archived_at'']"

definition demo_options :: "Option list" where
  "demo_options = [WithEntity ''User'' ''Users'', WithOwnership ''belongs_to_account'']"

lemmas demo_simps = demo_columns_def demo_options_def apply_options_def default_settings_def WithEntity_def WithOwnership_def
  IDColumn_def ArchivedAtColumn_def CreatedAtColumn_def LastUpdatedAtColumn_def LastIndexedAtColumn_def

lemma demo_settings:
  "s_ownership (apply_options ''users'' demo_options) = ''belongs_to_account''"
  "s_omitted (apply_options ''users'' demo_options) = []" "s_databaseOwned (apply_options ''users'' demo_options) = []"
  "s_immutable (apply_options ''users'' demo_options) = []" "s_names (apply_options ''users'' demo_options) = []"
  "s_singular (apply_options ''users'' demo_options) = ''User''" "s_plural (apply_options ''users'' demo_options) = ''Users''"
  by (simp_all add: demo_simps)

lemma demo_annotations:
  "map qa_Name (standard_annotations (apply_options ''users'' demo_options) demo_columns) =
     [''CreateUser'', ''GetUser'', ''CheckUserExistence'', ''ListUsers'', ''ListUsersDescending'', ''UpdateUser'', ''ArchiveUser'']"
  by (simp add: standard_annotations_def demo_settings ForInsert_def ForUpdate_def without_filter databaseOwnedColumns_def
      not_updatable_def query_name_def DescendingName_def DescendingSuffix_def)
    (simp add: demo_simps)

lemma demo_returns:
  "snd (StandardCRUD rs g ''users'' demo_columns demo_options) = Inr (present (crud_list g (apply_options ''users'' demo_options) ''users'' demo_columns))"
proof -
  let ?qs = "present (crud_list g (apply_options ''users'' demo_options) ''users'' demo_columns)"
  have "ValidIdentifier ''users''" "names_ok demo_columns" "ValidIdentifier ''belongs_to_account''"
    by (simp_all add: name_simps names_ok_def demo_columns_def)
  moreover have "distinct (map name_of ?qs)"
    unfolding crud_names demo_annotations by simp
  ultimately show ?thesis
    by (simp add: StandardCRUD_returns crud_guards_returns demo_settings) (simp add: demo_simps)
qed

theorem standard_set_dialect_free_witness:
  "\<exists>qs. snd (StandardCRUD (\<lambda>_. NewRegistry) \<lparr>gen_dialect = SQLite\<rparr> ''users'' demo_columns demo_options) = Inr qs \<and>
     map q_Annotation qs = standard_annotations (apply_options ''users'' demo_options) demo_columns"
  using demo_returns [of "\<lambda>_. NewRegistry" "\<lparr>gen_dialect = SQLite\<rparr>"]
    standard_set_dialect_free [of "\<lambda>_. NewRegistry" "\<lparr>gen_dialect = SQLite\<rparr>" "''users''" demo_columns demo_options
      "\<lparr>gen_dialect = SQLite\<rparr>"]
  by blast

end
