(* ===== verification/QueryRows.thy ===== *)
theory QueryRows
  imports QueryProperties
begin

text \<open>
  The rows the standard set of a table touches: the columns its writes name and the conditions its statements carry, both
  read back off the text of the statements.
\<close>

subsection \<open>What the standard set writes\<close>

text \<open>
  The columns a write names, read off its text: the indented lines that follow the first one, each up to a blank or a comma.
\<close>

definition lines :: "string \<Rightarrow> string list" where
  "lines s = Split s CHR 0x0A"

definition written_columns :: "string \<Rightarrow> string list" where
  "written_columns s =
     map (\<lambda>l. takeWhile (\<lambda>c. c \<noteq> CHR '' '' \<and> c \<noteq> CHR '','') (tl l)) (takeWhile (\<lambda>l. HasPrefix l tab) (tl (lines s)))"

lemma lines_Cons: "CHR 0x0A \<notin> set a \<Longrightarrow> lines (a @ CHR 0x0A # b) = a # lines b"
  unfolding lines_def Split_def by (rule split_by_append_sep) auto

lemma lines_listed:
  "xs \<noteq> [] \<Longrightarrow> \<forall>x \<in> set xs. CHR 0x0A \<notin> set x \<Longrightarrow>
     lines (CHR 0x09 # Join xs [CHR 0x2C, CHR 0x0A, CHR 0x09] @ CHR 0x0A # rest) =
       map (\<lambda>x. CHR 0x09 # x @ '','') (butlast xs) @ [CHR 0x09 # last xs] @ lines rest"
proof (induction xs)
  case (Cons x xs)
  show ?case
  proof (cases xs)
    case Nil
    with Cons.prems lines_Cons [of "CHR 0x09 # x" rest] show ?thesis by simp
  next
    case (Cons y ys)
    with Cons.IH Cons.prems show ?thesis
      using lines_Cons [of "CHR 0x09 # x @ '',''" "CHR 0x09 # Join xs [CHR 0x2C, CHR 0x0A, CHR 0x09] @ CHR 0x0A # rest"]
      by (simp add: Join_Cons)
  qed
qed simp

lemma written_columns_listed:
  assumes "CHR 0x0A \<notin> set a" and "xs \<noteq> []" and "\<forall>x \<in> set xs. CHR 0x0A \<notin> set x" and "\<not> HasPrefix (hd (lines rest)) tab"
  shows "written_columns (a @ CHR 0x0A # CHR 0x09 # Join xs [CHR 0x2C, CHR 0x0A, CHR 0x09] @ CHR 0x0A # rest) =
    map (takeWhile (\<lambda>c. c \<noteq> CHR '' '' \<and> c \<noteq> CHR '','')) xs"
proof -
  let ?P = "\<lambda>c. c \<noteq> CHR '' '' \<and> c \<noteq> CHR '',''"
  have rest: "takeWhile (\<lambda>l. HasPrefix l tab) (lines rest) = []"
    using assms(4) by (cases "lines rest") auto
  have "takeWhile (\<lambda>l. HasPrefix l tab) (map (\<lambda>x. CHR 0x09 # x @ '','') (butlast xs) @ [CHR 0x09 # last xs] @ lines rest) =
      map (\<lambda>x. CHR 0x09 # x @ '','') (butlast xs) @ [CHR 0x09 # last xs]"
    using rest by (subst takeWhile_append2) (auto simp: HasPrefix_def)
  moreover have "takeWhile ?P (x @ '','') = takeWhile ?P x" for x
    by (induction x) auto
  ultimately have "written_columns (a @ CHR 0x0A # CHR 0x09 # Join xs [CHR 0x2C, CHR 0x0A, CHR 0x09] @ CHR 0x0A # rest) =
      map (takeWhile ?P) (butlast xs) @ [takeWhile ?P (last xs)]"
    unfolding written_columns_def lines_Cons [OF assms(1)] list.sel lines_listed [OF assms(2,3)] by simp
  also have "\<dots> = map (takeWhile ?P) (butlast xs @ [last xs])" by simp
  finally show ?thesis using assms(2) by simp
qed

lemma name_takeWhile:
  "ident c \<Longrightarrow> takeWhile (\<lambda>c. c \<noteq> CHR '' '' \<and> c \<noteq> CHR '','') (c @ CHR '' '' # rest) = c"
  "ident c \<Longrightarrow> takeWhile (\<lambda>c. c \<noteq> CHR '' '' \<and> c \<noteq> CHR '','') c = c"
proof -
  assume "ident c"
  then have "\<forall>x \<in> set c. x \<noteq> CHR '' '' \<and> x \<noteq> CHR '',''" using ident_chars_plain by (fastforce simp: ident_def list_all_iff)
  then show "takeWhile (\<lambda>c. c \<noteq> CHR '' '' \<and> c \<noteq> CHR '','') (c @ CHR '' '' # rest) = c"
    "takeWhile (\<lambda>c. c \<noteq> CHR '' '' \<and> c \<noteq> CHR '','') c = c"
    by (auto simp: takeWhile_append takeWhile_eq_all_conv)
qed

lemma ident_no_newline: "ident c \<Longrightarrow> CHR 0x0A \<notin> set c"
  using ident_chars_plain by (fastforce simp: ident_def list_all_iff)

lemma texts_no_newline:
  "CHR 0x0A \<notin> set (storedNow g)" "ident c \<Longrightarrow> CHR 0x0A \<notin> set (binding c ns)" "CHR 0x0A \<notin> set LastUpdatedAtColumn"
  "CHR 0x0A \<notin> set ArchivedAtColumn" "CHR 0x0A \<notin> set LastIndexedAtColumn"
  by (simp_all add: storedNow_def NowExpression_def binding_def ident_no_newline LastUpdatedAtColumn_def ArchivedAtColumn_def
      LastIndexedAtColumn_def)

lemma ident_columns: "ident LastUpdatedAtColumn" "ident ArchivedAtColumn" "ident LastIndexedAtColumn" "ident IDColumn"
  by (simp_all add: ident_def ident_char_def word_char_def lead_char_def Let_def LastUpdatedAtColumn_def ArchivedAtColumn_def
      LastIndexedAtColumn_def IDColumn_def)

lemma where_not_indented: "c \<noteq> CHR 0x09 \<Longrightarrow> \<not> HasPrefix (hd (lines (c # s))) tab"
  by (simp add: lines_def Split_def HasPrefix_def split: list.splits)

lemma written_by_insert:
  assumes "ident t" and "ics \<noteq> []" and "list_all ident ics"
  shows "written_columns (projr (createStatement t ics ns)) = ics"
proof -
  have c: "projr (createStatement t ics ns) = (''INSERT INTO '' @ t @ '' ('') @ CHR 0x0A # CHR 0x09 # Join ics [CHR 0x2C, CHR 0x0A, CHR 0x09] @
      CHR 0x0A # ('') VALUES ('' @ nl @ tab @ Join (map (\<lambda>column. binding column ns) ics) ('','' @ nl @ tab) @ nl @ '');'')"
    using assms(2) by (simp add: createStatement_def insertStatement_def)
  show ?thesis
    unfolding c using assms
    by (subst written_columns_listed) (auto simp: ident_no_newline where_not_indented list_all_iff name_takeWhile intro: map_idI)
qed

lemma written_by_set:
  assumes "ident t" and "as \<noteq> []" and "\<forall>(c, v) \<in> set as. ident c \<and> CHR 0x0A \<notin> set v"
  shows "written_columns (concat [''UPDATE '', t, '' SET'', nl, tab, Join (map (\<lambda>(c, v). concat [c, '' = '', v]) as) ('','' @ nl @ tab), nl,
    ''WHERE '' @ w]) = map fst as"
proof -
  have c: "concat [''UPDATE '', t, '' SET'', nl, tab, Join (map (\<lambda>(c, v). concat [c, '' = '', v]) as) ('','' @ nl @ tab), nl, ''WHERE '' @ w] =
      (''UPDATE '' @ t @ '' SET'') @ CHR 0x0A # CHR 0x09 # Join (map (\<lambda>(c, v). concat [c, '' = '', v]) as) [CHR 0x2C, CHR 0x0A, CHR 0x09] @
      CHR 0x0A # (''WHERE '' @ w)" by simp
  have "map (takeWhile (\<lambda>c. c \<noteq> CHR '' '' \<and> c \<noteq> CHR '','')) (map (\<lambda>(c, v). concat [c, '' = '', v]) as) = map fst as"
    using assms(3) by (auto simp: name_takeWhile)
  with assms show ?thesis
    unfolding c by (subst written_columns_listed) (auto simp: ident_no_newline where_not_indented)
qed

lemma assignments_pairs:
  "assignments g cols ucs ns = map (\<lambda>(c, v). concat [c, '' = '', v])
     (map (\<lambda>c. (c, binding c ns)) ucs @ (if LastUpdatedAtColumn \<in> set cols then [(LastUpdatedAtColumn, storedNow g)] else []))"
  by (simp add: assignments_def Let_def comp_def)

lemma written_by_updates:
  assumes "ident t" and "IDColumn \<in> set cols"
  shows "ucs \<noteq> [] \<Longrightarrow> list_all ident ucs \<Longrightarrow> written_columns (projr (updateStatement g t cols ucs own ns [])) =
      ucs @ (if LastUpdatedAtColumn \<in> set cols then [LastUpdatedAtColumn] else [])"
    and "written_columns (projr (archiveStatement g t cols own [])) = [ArchivedAtColumn]"
    and "written_columns (IndexStampQuery g t) = [LastIndexedAtColumn]"
proof -
  let ?as = "map (\<lambda>c. (c, binding c ns)) ucs @ (if LastUpdatedAtColumn \<in> set cols then [(LastUpdatedAtColumn, storedNow g)] else [])"
  let ?w = "joinPredicates (row_terms t cols own False) tab @ '';''"
  show "written_columns (projr (updateStatement g t cols ucs own ns [])) =
      ucs @ (if LastUpdatedAtColumn \<in> set cols then [LastUpdatedAtColumn] else [])" if "ucs \<noteq> []" "list_all ident ucs"
  proof -
    have "\<forall>(c, v) \<in> set ?as. ident c \<and> CHR 0x0A \<notin> set v" "?as \<noteq> []"
      using that by (auto simp: list_all_iff texts_no_newline ident_columns)
    note written_by_set [OF assms(1) this(2) this(1), of ?w]
    then show ?thesis
      by (simp add: updateStatement_def singleRow_text [OF assms(2)] assignments_pairs comp_def)
  qed
  show "written_columns (projr (archiveStatement g t cols own [])) = [ArchivedAtColumn]"
    using written_by_set [OF assms(1), of "[(ArchivedAtColumn, storedNow g)]" ?w]
    by (simp add: archiveStatement_def singleRow_text [OF assms(2)] texts_no_newline ident_columns)
  show "written_columns (IndexStampQuery g t) = [LastIndexedAtColumn]"
    using written_by_set [OF assms(1), of "[(LastIndexedAtColumn, storedNow g)]" "setPredicate g IDColumn IDsArg @ '';''"]
    by (simp add: IndexStampQuery_def texts_no_newline ident_columns)
qed

text \<open>C15. What the writes of the standard set name, read off their text: the create lists exactly the columns that neither the package nor
  the options give to the database, in order; every other write is the update, which sets exactly those columns that are
  also neither immutable nor the owner nor the id and then the update stamp where the table has one, or the archive stamp,
  or the index stamp. Every remaining query is a read.\<close>

theorem standard_writes_allowed_columns:
  assumes "snd (StandardCRUD rs g t cols opts) = Inr qs" and "q \<in> set qs"
  shows "(qa_Type (q_Annotation q) = ExecType \<longrightarrow> written_columns (q_Content q) =
      filter (\<lambda>c. c \<notin> set databaseOwnedColumns \<and> c \<notin> set (s_databaseOwned (apply_options t opts))) cols) \<and>
    (qa_Type (q_Annotation q) = ExecRowsType \<longrightarrow> written_columns (q_Content q) \<in>
      {filter (\<lambda>c. c \<notin> set databaseOwnedColumns \<and> c \<notin> set (s_databaseOwned (apply_options t opts)) \<and>
                   c \<notin> set (s_immutable (apply_options t opts)) \<and> c \<noteq> s_ownership (apply_options t opts) \<and> c \<noteq> IDColumn) cols @
         (if LastUpdatedAtColumn \<in> set cols then [LastUpdatedAtColumn] else []),
       [ArchivedAtColumn], [LastIndexedAtColumn]}) \<and>
    (qa_Type (q_Annotation q) \<notin> {ExecType, ExecRowsType} \<longrightarrow> HasPrefix (q_Content q) ''SELECT'')"
proof -
  let ?s = "apply_options t opts"
  have v: "ValidIdentifier t" "names_ok cols" "IDColumn \<in> set cols" and q: "Some q \<in> set (crud_list g ?s t cols)"
    using assms by (auto simp: StandardCRUD_returns crud_guards_returns in_present)
  have t: "ident t" "list_all ident cols" using v by (auto simp: ValidIdentifier_ident names_ok_def list_all_iff)
  have sub: "list_all ident (ForInsert cols ex)" "list_all ident (ForUpdate cols ex)" for ex
    using t(2) by (auto simp: ForInsert_def ForUpdate_def without_filter list_all_iff)
  have "[] \<notin> set cols" using t(2) by (auto simp: list_all_iff ident_def)
  then have ucs: "ForUpdate cols (not_updatable ?s) = filter (\<lambda>c. c \<notin> set databaseOwnedColumns \<and> c \<notin> set (s_databaseOwned ?s) \<and>
                   c \<notin> set (s_immutable ?s) \<and> c \<noteq> s_ownership ?s \<and> c \<noteq> IDColumn) cols"
    by (auto simp: ForUpdate_def ForInsert_def without_filter not_updatable_def intro!: filter_cong)
  have types: "ExecType \<noteq> ExecRowsType" "ExecType \<noteq> ManyType" "ExecType \<noteq> OneType" "ExecRowsType \<noteq> ManyType" "ExecRowsType \<noteq> OneType"
    by (simp_all add: ExecType_def ExecRowsType_def ManyType_def OneType_def)
  have reads: "HasPrefix (projr (getStatement g t cols own zero_Read [])) ''SELECT''"
    "HasPrefix (projr (existsStatement g t cols own [])) ''SELECT''"
    "HasPrefix (projr (listStatement g t cols own None None d [])) ''SELECT''" "HasPrefix (ReindexScanQuery g t) ''SELECT''" for own d
    by (simp_all add: getStatement_def existsStatement_def singleRow_text [OF v(3)] lockClause_def lockClause_for_def zero_Read_def
        ReindexScanQuery_def listStatement_def equalityPredicate_text matchPredicates_def junction_conditions_def Let_def HasPrefix_def)
  from q show ?thesis
  proof (cases rule: crud_list_cases)
    case create
    then show ?thesis
      using written_by_insert [OF t(1) create(1) sub(1)] types by (simp add: ForInsert_def without_filter)
  next
    case update
    then show ?thesis using written_by_updates(1) [OF t(1) v(3) update(1) sub(2)] types by (simp add: ucs)
  qed (simp_all add: types types [symmetric] reads written_by_updates(2,3) [OF t(1) v(3)])
qed

theorem standard_writes_allowed_columns_witness:
  "\<exists>q. q \<in> set (projr (snd (StandardCRUD (\<lambda>_. NewRegistry) \<lparr>gen_dialect = Postgres\<rparr> ''users'' demo_columns demo_options))) \<and>
     name_of q = ''CreateUser'' \<and> written_columns (q_Content q) = [''id'', ''name'', ''belongs_to_account'']"
proof -
  let ?g = "\<lparr>gen_dialect = Postgres\<rparr>"
  let ?s = "apply_options ''users'' demo_options"
  let ?ics = "ForInsert demo_columns (s_databaseOwned ?s)"
  let ?q = "new_query (query_name ?s CreateQuery) ExecType (projr (createStatement ''users'' ?ics (s_nullable ?s)))"
  have ics: "?ics = [''id'', ''name'', ''belongs_to_account'']"
    by (simp add: ForInsert_def without_filter databaseOwnedColumns_def demo_settings) (simp add: demo_simps)
  have "Some ?q \<in> set (crud_list ?g ?s ''users'' demo_columns)"
    by (simp add: crud_list_def Let_def ics query_Some) (simp add: query_def named_def demo_settings)
  then have q: "?q \<in> set (present (crud_list ?g ?s ''users'' demo_columns))" by (simp add: in_present)
  from standard_writes_allowed_columns [OF demo_returns [of "\<lambda>_. NewRegistry"] q]
  have "written_columns (q_Content ?q) =
      filter (\<lambda>c. c \<notin> set databaseOwnedColumns \<and> c \<notin> set (s_databaseOwned ?s)) demo_columns" by simp
  also have "\<dots> = [''id'', ''name'', ''belongs_to_account'']"
    by (simp add: databaseOwnedColumns_def demo_settings) (simp add: demo_simps)
  finally show ?thesis using q
    by (intro exI [of _ ?q]) (simp add: demo_returns query_name_def demo_settings)
qed

subsection \<open>Whose rows the standard set touches\<close>

text \<open>
  Reading the conditions of a statement off its text: on each line without its indentation, \<^verbatim>\<open>WHERE\<close> opens a clause (unless
  it is a column of that name being set) and \<^verbatim>\<open>AND\<close> continues it. A statement is \<open>scoped\<close> by a predicate when it
  has a clause and every clause has that predicate among its conjuncts.
\<close>

definition is_where :: "string \<Rightarrow> bool" where
  "is_where l \<longleftrightarrow> HasPrefix l ''WHERE '' \<and> \<not> HasPrefix l ''WHERE = ''"

definition unindented :: "string \<Rightarrow> string list" where
  "unindented s = map (dropWhile ((=) CHR 0x09)) (lines s)"

fun clauses_have :: "string \<Rightarrow> bool \<Rightarrow> string list \<Rightarrow> bool option" where
  "clauses_have p owed [] = Some owed"
| "clauses_have p owed (l # ls) =
     (if is_where l then (if owed then None else clauses_have p (l \<notin> {''WHERE '' @ p, ''WHERE '' @ p @ '';''}) ls)
      else clauses_have p (owed \<and> l \<notin> {''AND '' @ p, ''AND '' @ p @ '';''}) ls)"

definition scoped :: "string \<Rightarrow> string \<Rightarrow> bool" where
  "scoped p s \<longleftrightarrow> list_ex is_where (unindented s) \<and> clauses_have p False (unindented s) = Some False"

lemma lines_append: "lines (a @ CHR 0x0A # b) = lines a @ lines b"
proof (induction a)
  case (Cons c a)
  then show ?case by (auto simp: lines_def Split_def split: list.splits)
qed (simp add: lines_def Split_def)

lemma unindented_append: "unindented (a @ CHR 0x0A # b) = unindented a @ unindented b"
  by (simp add: unindented_def lines_append)

lemma unindented_line: "CHR 0x0A \<notin> set a \<Longrightarrow> unindented a = [dropWhile ((=) CHR 0x09) a]"
  unfolding unindented_def lines_def Split_def by (subst split_by_no_sep) auto

lemma unindented_tab: "unindented (CHR 0x09 # s) = unindented s"
  by (cases "split_by ((=) CHR 0x0A) s") (auto simp: unindented_def lines_def Split_def)

lemma unindented_not_Nil [simp]: "unindented s \<noteq> []"
  by (simp add: unindented_def lines_def Split_def)

lemma clauses_have_append:
  "clauses_have p owed (xs @ ys) = (case clauses_have p owed xs of None \<Rightarrow> None | Some o' \<Rightarrow> clauses_have p o' ys)"
  by (induction xs arbitrary: owed) auto

definition quiet :: "string list \<Rightarrow> bool" where
  "quiet ls = list_all (\<lambda>l. \<not> is_where l) ls"

lemma quiet_append [simp]: "quiet (xs @ ys) \<longleftrightarrow> quiet xs \<and> quiet ys"
  by (simp add: quiet_def)

lemma clauses_have_quiet:
  "quiet ls \<Longrightarrow> clauses_have p owed ls = Some (owed \<and> set ls \<inter> {''AND '' @ p, ''AND '' @ p @ '';''} = {})"
  by (induction ls arbitrary: owed) (auto simp: quiet_def)

lemma no_blank_quiet: "CHR '' '' \<notin> set l \<Longrightarrow> \<not> is_where l"
  by (auto simp: is_where_def HasPrefix_iff)

lemma not_where: "l = [] \<or> hd l \<noteq> CHR ''W'' \<Longrightarrow> \<not> is_where l"
  by (auto simp: is_where_def HasPrefix_iff)

text \<open>A predicate of a clause: no line of it but the first could be taken for one that opens a clause.\<close>

definition clause_pred :: "string \<Rightarrow> bool" where
  "clause_pred p \<longleftrightarrow> p \<noteq> [] \<and> hd p \<noteq> CHR ''='' \<and> quiet (tl (unindented p))"

lemma unindented_ReplaceAll:
  assumes "list_all ((=) CHR 0x09) ts"
  shows "unindented (ReplaceAll s CHR 0x0A (CHR 0x0A # ts)) = unindented s"
proof -
  have ts: "unindented (ts @ r) = unindented r" for r
    using assms by (induction ts) (auto simp: unindented_tab)
  have "\<exists>n. length s \<le> n" by blast
  then obtain n where "length s \<le> n" ..
  then show ?thesis
  proof (induction n arbitrary: s)
    case (Suc n)
    show ?case
    proof (cases "CHR 0x0A \<in> set s")
      case True
      then obtain a b where s: "s = a @ CHR 0x0A # b" "CHR 0x0A \<notin> set a" by (metis split_list_first)
      with Suc show ?thesis by (simp add: ReplaceAll_absent unindented_append ts)
    qed (simp add: ReplaceAll_absent)
  qed (simp add: unindented_def)
qed

lemma unindented_prefix:
  "CHR 0x0A \<notin> set w \<Longrightarrow> w \<noteq> [] \<Longrightarrow> hd w \<noteq> CHR 0x09 \<Longrightarrow> unindented (w @ s) = (w @ hd (lines s)) # tl (unindented s)"
proof -
  assume w: "CHR 0x0A \<notin> set w" "w \<noteq> []" "hd w \<noteq> CHR 0x09"
  have "lines (w @ s) = (w @ hd (lines s)) # tl (lines s)"
    using w(1) by (induction w) (auto simp: lines_def Split_def split: list.splits)
  with w(2,3) show ?thesis by (cases w) (simp_all add: unindented_def map_tl)
qed

lemma joinPredicates_Cons:
  "joinPredicates (p # ps) ts =
     ReplaceAll p CHR 0x0A (CHR 0x0A # ts) @ concat (map (\<lambda>p. CHR 0x0A # ts @ ''AND '' @ ReplaceAll p CHR 0x0A (CHR 0x0A # ts)) ps)"
proof -
  have "map (\<lambda>(i, p). let p = ReplaceAll p CHR 0x0A (nl @ ts) in if i > 0 then ''AND '' @ p else p) (List.enumerate (Suc n) ps) =
      map (\<lambda>p. ''AND '' @ ReplaceAll p CHR 0x0A (nl @ ts)) ps" for n
    by (induction ps arbitrary: n) (simp_all add: Let_def)
  then show ?thesis by (simp add: joinPredicates_def Join_concat comp_def)
qed

lemma unindented_conjuncts:
  assumes "list_all ((=) CHR 0x09) ts"
  shows "unindented (a @ concat (map (\<lambda>p. CHR 0x0A # ts @ ''AND '' @ ReplaceAll p CHR 0x0A (CHR 0x0A # ts)) ps)) =
    unindented a @ concat (map (\<lambda>p. unindented (''AND '' @ p)) ps)"
proof (induction ps arbitrary: a)
  case (Cons p ps)
  have ts: "unindented (ts @ r) = unindented r" for r
    using assms by (induction ts) (auto simp: unindented_tab)
  have "''AND '' @ ReplaceAll p CHR 0x0A (CHR 0x0A # ts) = ReplaceAll (''AND '' @ p) CHR 0x0A (CHR 0x0A # ts)" by simp
  then have "unindented (''AND '' @ ReplaceAll p CHR 0x0A (CHR 0x0A # ts)) = unindented (''AND '' @ p)"
    using unindented_ReplaceAll [OF assms] by metis
  with Cons.IH [of "a @ CHR 0x0A # ts @ ''AND '' @ ReplaceAll p CHR 0x0A (CHR 0x0A # ts)"] show ?case
    by (simp add: unindented_append ts del: append_Cons)
qed simp

lemma clause_lines:
  assumes "list_all ((=) CHR 0x09) ts" and "ps \<noteq> []"
  shows "unindented (''WHERE '' @ joinPredicates ps ts) =
    unindented (''WHERE '' @ hd ps) @ concat (map (\<lambda>p. unindented (''AND '' @ p)) (tl ps))"
proof -
  obtain p ps' where ps: "ps = p # ps'" using assms(2) by (cases ps) auto
  have "''WHERE '' @ ReplaceAll p CHR 0x0A (CHR 0x0A # ts) = ReplaceAll (''WHERE '' @ p) CHR 0x0A (CHR 0x0A # ts)" by simp
  then have "unindented (''WHERE '' @ ReplaceAll p CHR 0x0A (CHR 0x0A # ts)) = unindented (''WHERE '' @ p)"
    using unindented_ReplaceAll [OF assms(1)] by metis
  then show ?thesis
    using unindented_conjuncts [OF assms(1), of "''WHERE '' @ ReplaceAll p CHR 0x0A (CHR 0x0A # ts)" ps']
    by (simp add: ps joinPredicates_Cons)
qed

text \<open>A clause that has the predicate among its conjuncts leaves nothing owed.\<close>

lemma clause_has:
  assumes "list_all ((=) CHR 0x09) ts" and "list_all clause_pred ps" and "q \<in> set ps" and "CHR 0x0A \<notin> set q"
    and q: "q = p \<or> q = p @ '';''"
  shows "clauses_have p False (unindented (''WHERE '' @ joinPredicates ps ts)) = Some False"
    and "list_ex is_where (unindented (''WHERE '' @ joinPredicates ps ts))"
proof -
  obtain p0 ps' where ps: "ps = p0 # ps'" using assms(3) by (cases ps) auto
  have p0: "unindented (''WHERE '' @ p0) = (''WHERE '' @ hd (lines p0)) # tl (unindented p0)"
    by (rule unindented_prefix) simp_all
  have and_p: "unindented (''AND '' @ q) = (''AND '' @ hd (lines q)) # tl (unindented q)" for q
    by (rule unindented_prefix) simp_all
  have "hd p0 \<noteq> CHR ''=''" "p0 \<noteq> []" using assms(2) ps by (simp_all add: clause_pred_def)
  then have "\<not> HasPrefix (hd (lines p0)) ''= ''"
    by (cases p0) (auto simp: lines_def Split_def HasPrefix_iff split: list.splits)
  then have w: "is_where (''WHERE '' @ hd (lines p0))" by (auto simp: is_where_def HasPrefix_iff)
  have qs: "quiet (tl (unindented p0) @ concat (map (\<lambda>p. unindented (''AND '' @ p)) ps'))"
    using assms(2) ps by (auto simp: clause_pred_def quiet_def and_p [simplified] list_all_iff not_where)
  have line: "lines q = [q]" unfolding lines_def Split_def using assms(4) by (intro split_by_no_sep) auto
  have all: "unindented (''WHERE '' @ joinPredicates ps ts) =
      (''WHERE '' @ hd (lines p0)) # tl (unindented p0) @ concat (map (\<lambda>p. unindented (''AND '' @ p)) ps')"
    using clause_lines [OF assms(1), of ps] by (simp add: ps p0 [simplified])
  have "q = p0 \<or> ''AND '' @ q \<in> set (concat (map (\<lambda>p. unindented (''AND '' @ p)) ps'))"
    using assms(3) ps by (auto simp: and_p [simplified] line intro!: bexI [of _ q])
  then show "clauses_have p False (unindented (''WHERE '' @ joinPredicates ps ts)) = Some False"
    unfolding all using w clauses_have_quiet [OF qs] line q by (auto simp del: append_Cons)
  show "list_ex is_where (unindented (''WHERE '' @ joinPredicates ps ts))" unfolding all using w by simp
qed

lemma scoped_prefix: "quiet (unindented a) \<Longrightarrow> scoped p b \<Longrightarrow> scoped p (a @ CHR 0x0A # b)"
  by (simp add: scoped_def unindented_append clauses_have_append clauses_have_quiet)

lemma scoped_suffix: "scoped p a \<Longrightarrow> quiet (unindented b) \<Longrightarrow> scoped p (a @ CHR 0x0A # b)"
  by (simp add: scoped_def unindented_append clauses_have_append clauses_have_quiet)

lemma scoped_both: "scoped p a \<Longrightarrow> scoped p b \<Longrightarrow> scoped p (a @ CHR 0x0A # b)"
  by (simp add: scoped_def unindented_append clauses_have_append)

lemma scoped_tab: "scoped p (CHR 0x09 # s) = scoped p s"
  by (simp add: scoped_def unindented_tab)

lemma quiet_line: "CHR 0x0A \<notin> set a \<Longrightarrow> \<not> is_where (dropWhile ((=) CHR 0x09) a) \<Longrightarrow> quiet (unindented a)"
  by (simp add: unindented_line quiet_def)

lemma quiet_join: "quiet (unindented a) \<Longrightarrow> quiet (unindented b) \<Longrightarrow> quiet (unindented (a @ CHR 0x0A # b))"
  by (simp add: unindented_append)

lemma quiet_listed:
  assumes "\<forall>x \<in> set xs. CHR 0x0A \<notin> set x \<and> \<not> is_where (dropWhile ((=) CHR 0x09) x) \<and> \<not> is_where (dropWhile ((=) CHR 0x09) (x @ '',''))"
  shows "quiet (unindented (CHR 0x09 # Join xs [CHR 0x2C, CHR 0x0A, CHR 0x09]))"
    and "quiet (unindented (CHR 0x09 # Join xs [CHR 0x2C, CHR 0x0A, CHR 0x09] @ '',''))"
proof -
  have base: "quiet (unindented [])" "quiet (unindented '','')" by (simp_all add: unindented_line quiet_def not_where)
  have line: "x \<in> set xs \<Longrightarrow> quiet (unindented x)" "x \<in> set xs \<Longrightarrow> quiet (unindented (x @ '',''))" for x
    using assms by (auto intro!: quiet_line)
  have "quiet (unindented (Join xs [CHR 0x2C, CHR 0x0A, CHR 0x09])) \<and> quiet (unindented (Join xs [CHR 0x2C, CHR 0x0A, CHR 0x09] @ '',''))"
    using line
  proof (induction xs)
    case (Cons x xs)
    then show ?case
      using quiet_join [of "x @ '',''"] by (cases xs) (simp_all add: unindented_tab)
  qed (simp add: base)
  then show "quiet (unindented (CHR 0x09 # Join xs [CHR 0x2C, CHR 0x0A, CHR 0x09]))"
    "quiet (unindented (CHR 0x09 # Join xs [CHR 0x2C, CHR 0x0A, CHR 0x09] @ '',''))"
    by (simp_all add: unindented_tab)
qed

lemma ident_hd: "ident c \<Longrightarrow> ident_char (hd c)"
  by (cases c) (simp_all add: ident_def)

lemma ident_dropWhile: "ident c \<Longrightarrow> dropWhile ((=) CHR 0x09) (c @ s) = c @ s"
proof -
  assume c: "ident c"
  then have "hd c \<noteq> CHR 0x09" using ident_chars_plain [OF ident_hd [OF c]] by simp
  with c show ?thesis by (cases c) (simp_all add: ident_def)
qed

lemma ident_no_blank: "ident c \<Longrightarrow> CHR '' '' \<notin> set c"
  using ident_chars_plain by (fastforce simp: ident_def list_all_iff)

lemma ident_Qualify: "ident t \<Longrightarrow> ident c \<Longrightarrow> ident (Qualify t c)"
  by (simp add: Qualify_def ident_def ident_char_def)

lemma quiet_columns:
  assumes "ident t" and "list_all ident cols"
  shows "quiet (unindented (CHR 0x09 # Join (QualifyAll t cols) [CHR 0x2C, CHR 0x0A, CHR 0x09]))"
    "quiet (unindented (CHR 0x09 # Join (QualifyAll t cols) [CHR 0x2C, CHR 0x0A, CHR 0x09] @ '',''))"
proof -
  have "CHR 0x0A \<notin> set x \<and> \<not> is_where (dropWhile ((=) CHR 0x09) x) \<and> \<not> is_where (dropWhile ((=) CHR 0x09) (x @ '',''))"
    if "x \<in> set (QualifyAll t cols)" for x
  proof -
    from that assms have x: "ident x" by (auto simp: QualifyAll_map list_all_iff ident_Qualify)
    then show ?thesis
      using ident_dropWhile [OF x, of "[]"] ident_dropWhile [OF x, of "'',''"] ident_no_blank [OF x] ident_no_newline [OF x]
      by (simp add: no_blank_quiet)
  qed
  then show "quiet (unindented (CHR 0x09 # Join (QualifyAll t cols) [CHR 0x2C, CHR 0x0A, CHR 0x09]))"
    "quiet (unindented (CHR 0x09 # Join (QualifyAll t cols) [CHR 0x2C, CHR 0x0A, CHR 0x09] @ '',''))"
    using quiet_listed by blast+
qed

lemma quiet_assignments:
  assumes "list_all ident ucs"
  shows "quiet (unindented (CHR 0x09 # Join (assignments g cols ucs ns) [CHR 0x2C, CHR 0x0A, CHR 0x09]))"
proof -
  have set_line: "\<not> is_where (dropWhile ((=) CHR 0x09) (c @ '' = '' @ v))" if "ident c" for c v
  proof -
    have "\<not> is_where (c @ '' = '' @ v)"
    proof
      assume "is_where (c @ '' = '' @ v)"
      then obtain r where r: "c @ '' = '' @ v = ''WHERE '' @ r" "\<not> HasPrefix (c @ '' = '' @ v) ''WHERE = ''"
        by (auto simp: is_where_def HasPrefix_iff)
      have "c @ CHR '' '' # (''= '' @ v) = ''WHERE'' @ CHR '' '' # r" using r(1) by simp
      then have "c = ''WHERE''" using append_sep_cancel [of "CHR '' ''" c "''WHERE''"] ident_no_blank [OF that] by auto
      with r(2) show False by (simp add: HasPrefix_def)
    qed
    then show ?thesis using ident_dropWhile [OF that] by simp
  qed
  have "CHR 0x0A \<notin> set (concat [c, '' = '', v]) \<and> \<not> is_where (dropWhile ((=) CHR 0x09) (concat [c, '' = '', v])) \<and>
      \<not> is_where (dropWhile ((=) CHR 0x09) (concat [c, '' = '', v] @ '',''))"
    if "ident c" "CHR 0x0A \<notin> set v" for c v
    using that set_line [of c v] set_line [of c "v @ '',''"] by (simp add: ident_no_newline)
  then have "\<forall>x \<in> set (assignments g cols ucs ns). CHR 0x0A \<notin> set x \<and> \<not> is_where (dropWhile ((=) CHR 0x09) x) \<and>
      \<not> is_where (dropWhile ((=) CHR 0x09) (x @ '',''))"
    using assms texts_no_newline ident_columns(1)
    unfolding assignments_pairs by (auto simp: list_all_iff)
  then show ?thesis by (rule quiet_listed(1))
qed

lemma clause_pred_line: "CHR 0x0A \<notin> set p \<Longrightarrow> p \<noteq> [] \<Longrightarrow> hd p \<noteq> CHR ''='' \<Longrightarrow> clause_pred p"
  by (simp add: clause_pred_def unindented_line quiet_def)

lemma row_terms_lines:
  assumes "ident t" and "own = [] \<or> ident own" and "p \<in> set (row_terms t cols own b)"
  shows "CHR 0x0A \<notin> set p" and "p \<noteq> []" and "hd p \<noteq> CHR ''=''"
proof -
  have e: "CHR 0x0A \<notin> set (eq_text t c b) \<and> eq_text t c b \<noteq> [] \<and> hd (eq_text t c b) \<noteq> CHR ''=''" if "ident c" for c
    using that assms(1) ident_chars_plain [OF ident_hd [OF that]] ident_chars_plain [OF ident_hd [OF ident_Qualify [OF assms(1) that]]]
      ident_no_newline [OF ident_Qualify [OF assms(1) that]] ident_not_Nil [OF ident_Qualify [OF assms(1) that]]
    by (simp add: eq_text_def ident_no_newline)
  have a: "CHR 0x0A \<notin> set (c @ '' IS NULL'') \<and> c @ '' IS NULL'' \<noteq> [] \<and> hd (c @ '' IS NULL'') \<noteq> CHR ''=''" if "ident c" for c
    using that ident_chars_plain [OF ident_hd [OF that]] by (simp add: ident_no_newline)
  have "CHR 0x0A \<notin> set p \<and> p \<noteq> [] \<and> hd p \<noteq> CHR ''=''"
    using assms(2,3) e [of own] e [OF ident_columns(4)] a [OF ident_columns(2)] a [OF ident_Qualify [OF assms(1) ident_columns(2)]]
    by (auto simp: row_terms_def split: if_splits)
  then show "CHR 0x0A \<notin> set p" "p \<noteq> []" "hd p \<noteq> CHR ''=''" by simp_all
qed

lemma joinPredicates_snoc:
  "ps \<noteq> [] \<Longrightarrow> joinPredicates ps ts @ '';'' = joinPredicates (butlast ps @ [last ps @ '';'']) ts"
proof -
  assume "ps \<noteq> []"
  then obtain qs q where "ps = qs @ [q]" by (metis append_butlast_last_id)
  then show ?thesis by (cases qs) (simp_all add: joinPredicates_Cons)
qed

lemma row_clause:
  assumes "ident t" and "own = [] \<or> ident own" and "p \<in> set (row_terms t cols own b)" and "list_all ((=) CHR 0x09) ts"
  shows "scoped p (''WHERE '' @ joinPredicates (row_terms t cols own b) ts)"
    and "scoped p (''WHERE '' @ joinPredicates (row_terms t cols own b) ts @ '';'')"
proof -
  let ?ps = "row_terms t cols own b"
  note l = row_terms_lines [OF assms(1,2), of _ cols b]
  have "list_all clause_pred ?ps" using l by (auto simp: list_all_iff intro: clause_pred_line)
  then show "scoped p (''WHERE '' @ joinPredicates ?ps ts)"
    unfolding scoped_def using clause_has [OF assms(4) _ assms(3) l(1) [OF assms(3)], of p] by blast
  have ne: "?ps \<noteq> []" by (simp add: row_terms_def)
  let ?qs = "butlast ?ps @ [last ?ps @ '';'']"
  have "clause_pred x" if "x \<in> set ?qs" for x
  proof (cases "x \<in> set (butlast ?ps)")
    case True
    then have "x \<in> set ?ps" by (rule in_set_butlastD)
    then show ?thesis by (intro clause_pred_line l)
  next
    case False
    with that have "x = last ?ps @ '';''" by simp
    then show ?thesis using l [OF last_in_set [OF ne]] by (intro clause_pred_line) simp_all
  qed
  then have q: "list_all clause_pred ?qs" by (simp add: list_all_iff)
  obtain q where "q \<in> set ?qs" "CHR 0x0A \<notin> set q" "q = p \<or> q = p @ '';''"
  proof (cases "p \<in> set (butlast ?ps)")
    case True
    with that [of p] l(1) [OF assms(3)] show ?thesis by simp
  next
    case False
    have "set ?ps = set (butlast ?ps @ [last ?ps])" using ne by simp
    with assms(3) False have "p = last ?ps" by auto
    with that [of "p @ '';''"] l(1) [OF assms(3)] show ?thesis by simp
  qed
  then show "scoped p (''WHERE '' @ joinPredicates ?ps ts @ '';'')"
    unfolding joinPredicates_snoc [OF ne] scoped_def using clause_has [OF assms(4) q] by blast
qed

lemma scoped_row_statements:
  assumes t: "ident t" "list_all ident cols" and own: "own = [] \<or> ident own" and i: "IDColumn \<in> set cols"
  shows "p \<in> set (row_terms t cols own True) \<Longrightarrow> scoped p (projr (getStatement g t cols own zero_Read []))"
    and "p \<in> set (row_terms t cols own True) \<Longrightarrow> scoped p (projr (existsStatement g t cols own []))"
    and "p \<in> set (row_terms t cols own False) \<Longrightarrow> list_all ident ucs \<Longrightarrow> scoped p (projr (updateStatement g t cols ucs own ns []))"
    and "p \<in> set (row_terms t cols own False) \<Longrightarrow> scoped p (projr (archiveStatement g t cols own []))"
proof -
  have tabs: "list_all ((=) CHR 0x09) [CHR 0x09, CHR 0x09]" "list_all ((=) CHR 0x09) tab" by simp_all
  assume p: "p \<in> set (row_terms t cols own True)"
  have get: "projr (getStatement g t cols own zero_Read []) =
      ''SELECT'' @ CHR 0x0A # ((CHR 0x09 # Join (QualifyAll t cols) [CHR 0x2C, CHR 0x0A, CHR 0x09]) @ CHR 0x0A # ((''FROM '' @ t) @ CHR 0x0A #
        (''WHERE '' @ joinPredicates (row_terms t cols own True) tab @ '';'')))"
    by (simp add: getStatement_def singleRow_text [OF i] lockClause_def lockClause_for_def zero_Read_def projecting_def orderClause_def)
  show "scoped p (projr (getStatement g t cols own zero_Read []))"
    unfolding get
    by (intro scoped_prefix quiet_columns [OF t] row_clause(2) [OF t(1) own p tabs(2)])
      (use t(1) in \<open>simp_all add: quiet_line not_where ident_no_newline\<close>)
  have ex: "projr (existsStatement g t cols own []) =
      (''SELECT EXISTS ('' @ CHR 0x0A # ((CHR 0x09 # ''SELECT '' @ existsProjection t cols) @ CHR 0x0A # ((CHR 0x09 # ''FROM '' @ t) @ CHR 0x0A #
        CHR 0x09 # (''WHERE '' @ joinPredicates (row_terms t cols own True) [CHR 0x09, CHR 0x09])))) @ CHR 0x0A # '');''"
    by (simp add: existsStatement_def singleRow_text [OF i])
  have "scoped p (CHR 0x09 # (''WHERE '' @ joinPredicates (row_terms t cols own True) [CHR 0x09, CHR 0x09]))"
    unfolding scoped_tab by (rule row_clause(1) [OF t(1) own p tabs(1)])
  moreover have "CHR 0x0A \<notin> set (existsProjection t cols)"
    using ident_no_newline [OF ident_Qualify [OF t(1) ident_columns(4)]] by (simp add: existsProjection_def)
  ultimately show "scoped p (projr (existsStatement g t cols own []))"
    unfolding ex
    by (intro scoped_suffix scoped_prefix) (use t(1) in \<open>simp_all add: quiet_line not_where ident_no_newline\<close>)
next
  assume p: "p \<in> set (row_terms t cols own False)"
  have tabs: "list_all ((=) CHR 0x09) tab" by simp
  have up: "projr (updateStatement g t cols ucs own ns []) =
      (''UPDATE '' @ t @ '' SET'') @ CHR 0x0A # ((CHR 0x09 # Join (assignments g cols ucs ns) [CHR 0x2C, CHR 0x0A, CHR 0x09]) @ CHR 0x0A #
        (''WHERE '' @ joinPredicates (row_terms t cols own False) tab @ '';''))"
    by (simp add: updateStatement_def singleRow_text [OF i])
  show "scoped p (projr (updateStatement g t cols ucs own ns []))" if "list_all ident ucs"
    unfolding up
    by (intro scoped_prefix quiet_assignments [OF that] row_clause(2) [OF t(1) own p tabs])
      (use t(1) in \<open>simp_all add: quiet_line not_where ident_no_newline\<close>)
  have ar: "projr (archiveStatement g t cols own []) =
      (''UPDATE '' @ t @ '' SET'') @ CHR 0x0A # ((CHR 0x09 # ArchivedAtColumn @ '' = '' @ storedNow g) @ CHR 0x0A #
        (''WHERE '' @ joinPredicates (row_terms t cols own False) tab @ '';''))"
    by (simp add: archiveStatement_def singleRow_text [OF i])
  have "quiet (unindented (CHR 0x09 # ArchivedAtColumn @ '' = '' @ storedNow g))"
    by (intro quiet_line) (simp_all add: texts_no_newline, simp add: ArchivedAtColumn_def not_where)
  then show "scoped p (projr (archiveStatement g t cols own []))"
    unfolding ar
    by (intro scoped_prefix row_clause(2) [OF t(1) own p tabs])
      (use t(1) in \<open>simp_all add: quiet_line not_where ident_no_newline\<close>)
qed

lemma horizon_no_newline: "CHR 0x0A \<notin> set (timeHorizon g sign)" if "sign = ''+'' \<or> sign = ''-''"
  using that by (auto simp: timeHorizon_def NowExpression_def)

lemma args_no_newline:
  "CHR 0x0A \<notin> set CreatedAfterArg" "CHR 0x0A \<notin> set CreatedBeforeArg" "CHR 0x0A \<notin> set UpdatedAfterArg" "CHR 0x0A \<notin> set UpdatedBeforeArg"
  "CHR 0x0A \<notin> set CursorArg" "CHR 0x0A \<notin> set IncludeArchivedArg" "CHR 0x0A \<notin> set LimitArg"
  by (simp_all add: CreatedAfterArg_def CreatedBeforeArg_def UpdatedAfterArg_def UpdatedBeforeArg_def CursorArg_def IncludeArchivedArg_def
      LimitArg_def)

lemma bound_no_newline:
  "CHR 0x0A \<notin> set c \<Longrightarrow> CHR 0x0A \<notin> set a \<Longrightarrow> cmp = ''<'' \<or> cmp = ''>'' \<Longrightarrow> CHR 0x0A \<notin> set (boundPredicate g c cmp a)"
  using horizon_no_newline [of "''+''" g] horizon_no_newline [of "''-''" g] by (auto simp: boundPredicate_def)

lemma clause_pred_bound:
  "ident c \<Longrightarrow> CHR 0x0A \<notin> set a \<Longrightarrow> cmp = ''<'' \<or> cmp = ''>'' \<Longrightarrow> clause_pred (boundPredicate g c cmp a)"
proof -
  assume c: "ident c" "CHR 0x0A \<notin> set a" "cmp = ''<'' \<or> cmp = ''>''"
  have "CHR 0x0A \<notin> set (boundPredicate g c cmp a)" using c by (intro bound_no_newline) (simp_all add: ident_no_newline)
  then show ?thesis
    using c ident_chars_plain [OF ident_hd [OF c(1)]] by (intro clause_pred_line) (simp_all add: boundPredicate_def)
qed

lemma clause_pred_nullable:
  assumes "ident c" "CHR '' '' \<notin> set c" "CHR 0x0A \<notin> set a" "cmp = ''<'' \<or> cmp = ''>''" and w: "\<not> HasPrefix (c @ '' '') ''WHERE ''"
  shows "clause_pred (nullableBoundPredicate g c cmp a)"
proof -
  have b: "CHR 0x0A \<notin> set (boundPredicate g c cmp a)" using assms by (intro bound_no_newline) (simp_all add: ident_no_newline)
  have p: "nullableBoundPredicate g c cmp a = ''('' @ CHR 0x0A # ((CHR 0x09 # c @ '' IS NULL'') @ CHR 0x0A #
      ((CHR 0x09 # ''OR '' @ boundPredicate g c cmp a) @ CHR 0x0A # '')''))"
    by (simp add: nullableBoundPredicate_def)
  have "\<not> is_where (c @ '' IS NULL'')"
  proof
    assume "is_where (c @ '' IS NULL'')"
    then obtain r where "c @ CHR '' '' # ''IS NULL'' = ''WHERE'' @ CHR '' '' # r" by (auto simp: is_where_def HasPrefix_iff)
    then have "c = ''WHERE''" using append_sep_cancel [of "CHR '' ''" c "''WHERE''"] assms(2) by auto
    with w show False by (simp add: HasPrefix_def)
  qed
  then have "quiet (unindented (CHR 0x09 # c @ '' IS NULL''))"
    using ident_no_newline [OF assms(1)] ident_dropWhile [OF assms(1)] by (intro quiet_line) simp_all
  moreover have "quiet (unindented (CHR 0x09 # ''OR '' @ boundPredicate g c cmp a))" "quiet (unindented '')'')"
    using b by (auto intro!: quiet_line simp: not_where)
  ultimately have "quiet (tl (unindented (nullableBoundPredicate g c cmp a)))"
    unfolding p unindented_append by (simp add: unindented_line)
  then show ?thesis by (simp add: clause_pred_def nullableBoundPredicate_def)
qed

lemma clause_preds_filter:
  assumes t: "ident t" and conds: "list_all clause_pred conds"
  shows "list_all clause_pred (filterPredicates g t cols conds)"
    and "clause_pred (archivedPredicate g t)" and "CHR 0x0A \<notin> set (archivedPredicate g t)" and "clause_pred (CursorCondition g t d)"
proof -
  have cols: "ident CreatedAtColumn" "ident LastUpdatedAtColumn"
    by (simp_all add: ident_def ident_char_def word_char_def lead_char_def Let_def CreatedAtColumn_def LastUpdatedAtColumn_def)
  note q = ident_Qualify [OF t cols(1)] ident_Qualify [OF t cols(2)]
  have a: "CHR 0x0A \<notin> set (archivedPredicate g t)"
    using ident_no_newline [OF ident_Qualify [OF t ident_columns(2)]]
    by (simp add: archivedPredicate_def includeArchivedFlag_def Let_def args_no_newline)
  then show "CHR 0x0A \<notin> set (archivedPredicate g t)" .
  from a show ar: "clause_pred (archivedPredicate g t)" by (intro clause_pred_line) (simp_all add: archivedPredicate_def)
  note qi = ident_Qualify [OF t ident_columns(4)]
  show "clause_pred (CursorCondition g t d)"
    using ident_no_newline [OF qi] ident_chars_plain [OF ident_hd [OF qi]] ident_not_Nil [OF qi]
    by (intro clause_pred_line) (simp_all add: CursorCondition_def cursorCondition_def Let_def args_no_newline)
  have "\<not> HasPrefix (Qualify t LastUpdatedAtColumn @ '' '') ''WHERE ''"
  proof
    assume "HasPrefix (Qualify t LastUpdatedAtColumn @ '' '') ''WHERE ''"
    then obtain r where "Qualify t LastUpdatedAtColumn @ CHR '' '' # [] = ''WHERE'' @ CHR '' '' # r" by (auto simp: HasPrefix_iff)
    then have "Qualify t LastUpdatedAtColumn = ''WHERE''"
      using append_sep_cancel [of "CHR '' ''" "Qualify t LastUpdatedAtColumn" "''WHERE''"] ident_no_blank [OF q(2)] by auto
    then have "CHR ''.'' \<in> set ''WHERE''" by (metis Qualify_def append_Cons concat.simps(2) in_set_conv_decomp)
    then show False by simp
  qed
  then show "list_all clause_pred (filterPredicates g t cols conds)"
    using conds ar q args_no_newline ident_no_blank [OF q(2)]
    by (auto simp: filterPredicates_def clause_pred_bound clause_pred_nullable)
qed

lemma scoped_countSelect:
  assumes t: "ident t" and ps: "list_all clause_pred ps" "p \<in> set ps" "CHR 0x0A \<notin> set p" and a: "CHR 0x0A \<notin> set alias"
    and r: "CHR 0x0A \<notin> set rest"
  shows "scoped p (countSelect alias t [] ps @ rest)"
proof -
  have c: "countSelect alias t [] ps @ rest = (''('' @ CHR 0x0A # ((tab @ tab @ ''SELECT COUNT('' @ Qualify t IDColumn @ '')'') @ CHR 0x0A #
      ((tab @ tab @ ''FROM '' @ t) @ CHR 0x0A # CHR 0x09 # CHR 0x09 # (''WHERE '' @ joinPredicates ps (tab @ tab @ tab))))) @ CHR 0x0A #
      (tab @ '') AS '' @ alias @ rest)"
    using ps(2) by (auto simp: countSelect_text)
  have "scoped p (CHR 0x09 # CHR 0x09 # (''WHERE '' @ joinPredicates ps (tab @ tab @ tab)))"
    unfolding scoped_tab unfolding scoped_def using clause_has [of "tab @ tab @ tab" ps p p] ps by simp
  then show ?thesis
    unfolding c using r a ident_no_newline [OF t] ident_no_newline [OF ident_Qualify [OF t ident_columns(4)]]
    by (intro scoped_suffix scoped_prefix) (simp_all add: quiet_line not_where)
qed

lemma scoped_listStatement:
  assumes t: "ident t" "list_all ident cols" and own: "own = [] \<or> ident own"
  shows "own \<noteq> [] \<Longrightarrow> scoped (eq_text t own True) (projr (listStatement g t cols own None None d []))"
    and "ArchivedAtColumn \<in> set cols \<Longrightarrow> scoped (archivedPredicate g t) (projr (listStatement g t cols own None None d []))"
proof -
  define conds where "conds = (if own \<noteq> [] then [eq_text t own True] else [])"
  have c: "projr (listStatement g t cols own None None d []) =
      (''SELECT'' @ CHR 0x0A # ((CHR 0x09 # Join (QualifyAll t cols) [CHR 0x2C, CHR 0x0A, CHR 0x09] @ '','') @ CHR 0x0A #
       ((CHR 0x09 # FilterCountSelect g t cols [] conds @ '','') @ CHR 0x0A # ((CHR 0x09 # TotalCountSelect g t cols [] conds @ []) @ CHR 0x0A #
       ((''FROM '' @ t) @ CHR 0x0A # (''WHERE '' @ FilterConditions g t cols d conds)))))) @ CHR 0x0A # (CursorLimitClause g t d @ '';'')"
    by (simp add: listStatement_def equalityPredicate_text matchPredicates_def junction_conditions_def Let_def conds_def joins_def
        projection_def fromClause_def)
  have eq: "CHR 0x0A \<notin> set (eq_text t own True)" "clause_pred (eq_text t own True)" if "own \<noteq> []"
    using row_terms_lines [OF t(1) own, of "eq_text t own True" cols True] that by (auto simp: row_terms_def intro: clause_pred_line)
  then have conds: "list_all clause_pred conds" by (simp add: conds_def)
  note fp = clause_preds_filter [OF t(1) conds]
  have tail: "quiet (unindented (CursorLimitClause g t d @ '';''))"
  proof -
    have l: "CursorLimitClause g t d @ '';'' =
        (''ORDER BY '' @ Qualify t IDColumn @ '' '' @ direction_keyword d) @ CHR 0x0A # (limitClause g @ '';'')"
      by (simp add: CursorLimitClause_def cursorLimitClause_def)
    have "quiet (unindented (limitClause g @ '';''))"
      by (intro quiet_line) (simp_all add: limitClause_def limit_text boundedLimit_def Placeholder_def args_no_newline not_where)
    moreover have "quiet (unindented (''ORDER BY '' @ Qualify t IDColumn @ '' '' @ direction_keyword d))"
      using ident_no_newline [OF ident_Qualify [OF t(1) ident_columns(4)]]
      by (intro quiet_line) (simp_all add: direction_keyword_def not_where)
    ultimately show ?thesis unfolding l by (intro quiet_join)
  qed
  have main: "scoped p (projr (listStatement g t cols own None None d []))"
    if p: "CHR 0x0A \<notin> set p" and mem: "p \<in> set (filterPredicates g t cols conds)"
      "p \<in> set ((if ArchivedAtColumn \<in> set cols then [archivedPredicate g t] else []) @ conds)" for p
  proof -
    have tot: "list_all clause_pred ((if ArchivedAtColumn \<in> set cols then [archivedPredicate g t] else []) @ conds)"
      using conds fp(2) by simp
    have "scoped p (FilterCountSelect g t cols [] conds @ '','')"
      unfolding FilterCountSelect_def using scoped_countSelect [OF t(1) fp(1) mem(1) p] by simp
    moreover have "scoped p (TotalCountSelect g t cols [] conds @ [])"
      unfolding TotalCountSelect_def Let_def by (rule scoped_countSelect [OF t(1) tot mem(2) p]) simp_all
    moreover have "list_all clause_pred (filterPredicates g t cols conds @ [CursorCondition g t d])" using fp(1,4) by simp
    then have "scoped p (''WHERE '' @ FilterConditions g t cols d conds)"
      unfolding FilterConditions_def scoped_def
      using clause_has [of tab "filterPredicates g t cols conds @ [CursorCondition g t d]" p p] mem(1) p by simp
    ultimately show ?thesis
      unfolding c
      by (intro scoped_suffix [OF _ tail] scoped_prefix scoped_both quiet_columns(2) [OF t])
        (use t(1) in \<open>simp_all only: scoped_tab quiet_line\<close>, simp_all add: quiet_line not_where ident_no_newline t(1))
  qed
  show "own \<noteq> [] \<Longrightarrow> scoped (eq_text t own True) (projr (listStatement g t cols own None None d []))"
    using eq by (intro main) (simp_all add: filterPredicates_def conds_def)
  show "ArchivedAtColumn \<in> set cols \<Longrightarrow> scoped (archivedPredicate g t) (projr (listStatement g t cols own None None d []))"
    using fp(3) by (intro main) (simp_all add: filterPredicates_def)
qed

text \<open>C14. The standard set stays inside its owner and leaves archived rows alone. On a table with an owner column every clause of every
  query but the create and the two index queries has the owner's equality among its conjuncts, in the page of a list and
  in both of its counts; and on a table that archives its rows every such clause excludes archived ones, which only the
  explicit argument of a list admits.\<close>

theorem standard_set_is_scoped:
  assumes "snd (StandardCRUD rs g t cols opts) = Inr qs" and "q \<in> set qs" and "qa_Type (q_Annotation q) \<noteq> ExecType"
    and "q_Content q \<notin> {ReindexScanQuery g t, IndexStampQuery g t}"
  shows "(s_ownership (apply_options t opts) \<noteq> [] \<longrightarrow>
      (\<exists>qualified. scoped (eq_text t (s_ownership (apply_options t opts)) qualified) (q_Content q))) \<and>
    (ArchivedAtColumn \<in> set cols \<longrightarrow>
      scoped (Qualify t ArchivedAtColumn @ '' IS NULL'') (q_Content q) \<or> scoped (ArchivedAtColumn @ '' IS NULL'') (q_Content q) \<or>
      qa_Type (q_Annotation q) = ManyType \<and> scoped (archivedPredicate g t) (q_Content q))"
proof -
  let ?s = "apply_options t opts"
  let ?own = "s_ownership ?s"
  have v: "ValidIdentifier t" "names_ok cols" "?own = [] \<or> ValidIdentifier ?own" and i: "IDColumn \<in> set cols"
    and q: "Some q \<in> set (crud_list g ?s t cols)"
    using assms(1,2) by (auto simp: StandardCRUD_returns crud_guards_returns in_present)
  have t: "ident t" "list_all ident cols" and own: "?own = [] \<or> ident ?own"
    using v by (auto simp: ValidIdentifier_ident names_ok_def list_all_iff)
  have ucs: "list_all ident (ForUpdate cols ex)" for ex
    using t(2) by (auto simp: ForInsert_def ForUpdate_def without_filter list_all_iff)
  have terms: "?own \<noteq> [] \<Longrightarrow> eq_text t ?own b \<in> set (row_terms t cols ?own b)"
    "ArchivedAtColumn \<in> set cols \<Longrightarrow> (if b then Qualify t ArchivedAtColumn else ArchivedAtColumn) @ '' IS NULL'' \<in> set (row_terms t cols ?own b)" for b
    by (simp_all add: row_terms_def)
  note rows = scoped_row_statements [OF t own i] and pages = scoped_listStatement [OF t own]
  from q show ?thesis
  proof (cases rule: crud_list_cases)
    case get
    then show ?thesis using rows(1) [OF terms(1) [of True]] rows(1) [OF terms(2) [of True]] by auto
  next
    case exist
    then show ?thesis using rows(2) [OF terms(1) [of True]] rows(2) [OF terms(2) [of True]] by auto
  next
    case update
    then show ?thesis using rows(3) [OF terms(1) [of False] ucs] rows(3) [OF terms(2) [of False] ucs] by auto
  next
    case archive
    then show ?thesis using rows(4) [OF terms(1) [of False]] rows(4) [OF terms(2) [of False]] by auto
  qed (use assms(3,4) pages in auto)
qed

theorem standard_set_is_scoped_witness:
  "\<exists>q. q \<in> set (projr (snd (StandardCRUD (\<lambda>_. NewRegistry) \<lparr>gen_dialect = MySQL\<rparr> ''users'' demo_columns demo_options))) \<and>
     name_of q = ''GetUser'' \<and> (\<exists>qualified. scoped (eq_text ''users'' ''belongs_to_account'' qualified) (q_Content q))"
proof -
  let ?g = "\<lparr>gen_dialect = MySQL\<rparr>"
  let ?s = "apply_options ''users'' demo_options"
  let ?q = "new_query (query_name ?s GetQuery) OneType (projr (getStatement ?g ''users'' demo_columns (s_ownership ?s) zero_Read []))"
  have i: "IDColumn \<in> set demo_columns" by (simp add: demo_simps)
  have "Some ?q \<in> set (crud_list ?g ?s ''users'' demo_columns)"
    by (simp add: crud_list_def Let_def) (simp add: query_def named_def demo_settings)
  then have q: "?q \<in> set (present (crud_list ?g ?s ''users'' demo_columns))" by (simp add: in_present)
  have ne: "OneType \<noteq> ExecType" by (simp add: OneType_def ExecType_def)
  have "q_Content ?q \<notin> {ReindexScanQuery ?g ''users'', IndexStampQuery ?g ''users''}"
    by (simp add: getStatement_def singleRow_text [OF i] lockClause_def lockClause_for_def zero_Read_def ReindexScanQuery_def
        IndexStampQuery_def Let_def)
  from standard_set_is_scoped [OF demo_returns [of "\<lambda>_. NewRegistry"] q _ this] ne
  have "\<exists>qualified. scoped (eq_text ''users'' ''belongs_to_account'' qualified) (q_Content ?q)"
    by (simp add: demo_settings)
  with q show ?thesis
    by (intro exI [of _ ?q]) (simp add: demo_returns query_name_def demo_settings)
qed

end
