(* ===== verification/QueryFiles.thy ===== *)
theory QueryFiles
  imports QueryRows
begin

text \<open>
  The file a corpus is written to and the way DDL is split are inverse: splitting a rendered file gives the statements
  back, without the annotations.
\<close>

subsection \<open>Trimming\<close>

lemma space_bytes_not_visible:
  "list_all (list_all (\<lambda>c. \<not> visible c)) space_encodings" "list_all (list_all (\<lambda>c. \<not> visible c)) (map rev space_encodings)"
  by code_simp+

lemma trim_by_keeps:
  assumes "list_all (list_all (\<lambda>c. \<not> visible c)) es" and "visible c"
  shows "\<exists>x'. trim_by es (x @ c # y) = x' @ c # y"
proof (induction "length x" arbitrary: x rule: less_induct)
  case less
  show ?case
  proof (cases "find (\<lambda>e. e \<noteq> [] \<and> take (length e) (x @ c # y) = e) es")
    case None
    then show ?thesis by (subst trim_by.simps) auto
  next
    case (Some e)
    then have e: "e \<in> set es" "e \<noteq> []" "take (length e) (x @ c # y) = e" by (auto simp: find_Some_iff)
    have "length e \<le> length x"
    proof (rule ccontr)
      assume "\<not> length e \<le> length x"
      then have "c \<in> set e" using e(3) by (metis in_set_conv_decomp not_le take_Cons' take_append append_Cons diff_is_0_eq nat_le_linear set_append UnCI list.set_intros(1))
      then show False using assms e(1) by (auto simp: list_all_iff)
    qed
    then have "drop (length e) (x @ c # y) = drop (length e) x @ c # y" by simp
    moreover have "length (drop (length e) x) < length x" using e(2) \<open>length e \<le> length x\<close> by (cases e; cases x) auto
    ultimately show ?thesis using less [of "drop (length e) x"] Some by (subst trim_by.simps) simp
  qed
qed

lemma trim_left_visible: "s = [] \<or> visible (hd s) \<Longrightarrow> trim_by space_encodings s = s"
  by (rule trim_by_visible [OF spaces_not_visible(1)])

lemma trim_right_visible: "s = [] \<or> visible (hd s) \<Longrightarrow> trim_by (map rev space_encodings) s = s"
  by (rule trim_by_visible [OF spaces_not_visible(2)])

lemma TrimSpace_ends: "s \<noteq> [] \<Longrightarrow> visible (hd s) \<Longrightarrow> visible (last s) \<Longrightarrow> TrimSpace s = s"
  by (simp add: TrimSpace_def trim_left_visible trim_right_visible hd_rev)

lemma TrimSpace_comment: "HasPrefix (TrimSpace (''--'' @ r)) ''--''"
proof -
  have v: "visible CHR ''-''" by (simp add: visible_def)
  obtain x' where "trim_by (map rev space_encodings) (rev r @ CHR ''-'' # ''-'') = x' @ CHR ''-'' # ''-''"
    using trim_by_keeps [OF space_bytes_not_visible(2) v] by blast
  then have "TrimSpace (''--'' @ r) = ''--'' @ rev x'" by (simp add: TrimSpace_def trim_left_visible v)
  then show ?thesis by (simp add: HasPrefix_def)
qed

lemma find_newline:
  "find (\<lambda>e. e \<noteq> [] \<and> take (length e) (CHR 0x0A # s) = e) space_encodings = Some nl"
  "find (\<lambda>e. e \<noteq> [] \<and> take (length e) (CHR 0x0A # s) = e) (map rev space_encodings) = Some nl"
  by (simp_all add: space_encodings_def char_of_def bit_0)

lemma TrimSpace_newlines:
  assumes "s \<noteq> []" "visible (hd s)" "visible (last s)"
  shows "TrimSpace (CHR 0x0A # s) = s" and "TrimSpace (s @ nl) = s"
proof -
  have "trim_by space_encodings (CHR 0x0A # s) = s"
    using assms by (subst trim_by.simps) (simp add: find_newline trim_left_visible)
  then show "TrimSpace (CHR 0x0A # s) = s" using assms by (simp add: TrimSpace_def trim_right_visible hd_rev)
  have "trim_by (map rev space_encodings) (CHR 0x0A # rev s) = rev s"
    using assms by (subst trim_by.simps) (simp add: find_newline trim_right_visible hd_rev)
  then show "TrimSpace (s @ nl) = s" using assms by (simp add: TrimSpace_def trim_left_visible)
qed

subsection \<open>Files\<close>

text \<open>
  A statement as the generator lays them out: one terminator, at its end; visible at both ends; and no line of it is blank, a
  comment, or ends in a blank.
\<close>

definition line_ok :: "string \<Rightarrow> bool" where
  "line_ok l \<longleftrightarrow> TrimRight l ('' '' @ tab) = l \<and> TrimSpace l \<noteq> [] \<and> \<not> HasPrefix (TrimSpace l) ''--''"

definition clean_query :: "Query \<Rightarrow> bool" where
  "clean_query q \<longleftrightarrow>
     (let b = TrimSuffix (q_Content q) '';''
      in b \<noteq> [] \<and> visible (hd b) \<and> visible (last b) \<and> CHR '';'' \<notin> set b \<and> list_all line_ok (lines (b @ '';'')) \<and>
         CHR 0x0A \<notin> set (name_of q) \<and> CHR 0x0A \<notin> set (qa_Type (q_Annotation q)))"

definition body_of :: "Query \<Rightarrow> string" where
  "body_of q = TrimSuffix (q_Content q) '';''"

definition head_of :: "Query \<Rightarrow> string" where
  "head_of q = ''-- name: '' @ name_of q @ '' '' @ qa_Type (q_Annotation q)"

lemma Render_clean: "Render q = head_of q @ CHR 0x0A # body_of q @ '';'' @ nl"
proof (cases "HasSuffix (q_Content q) '';''")
  case True
  then obtain b where "q_Content q = b @ '';''" by (auto simp: HasSuffix_iff)
  then show ?thesis by (simp add: Render_def head_of_def body_of_def)
next
  case False
  then show ?thesis by (simp add: Render_def head_of_def body_of_def TrimSuffix_def)
qed

lemma clean_queryD:
  assumes "clean_query q"
  shows "body_of q \<noteq> []" "visible (hd (body_of q))" "visible (last (body_of q))" "CHR '';'' \<notin> set (body_of q)"
    "list_all line_ok (lines (body_of q @ '';''))" "CHR 0x0A \<notin> set (head_of q)"
  using assms by (simp_all add: clean_query_def body_of_def head_of_def Let_def)

definition block :: "Query \<Rightarrow> string" where
  "block q = head_of q @ CHR 0x0A # body_of q @ '';''"

lemma rendered_join: "qs \<noteq> [] \<Longrightarrow> Join (map Render qs) nl = Join (map block qs) [CHR 0x0A, CHR 0x0A] @ nl"
proof (induction qs)
  case (Cons q qs)
  then show ?case by (cases qs) (simp_all add: Render_clean block_def)
qed simp

lemma lines_blocks:
  "qs \<noteq> [] \<Longrightarrow> lines (Join (map block qs) [CHR 0x0A, CHR 0x0A]) =
     lines (block (hd qs)) @ concat (map (\<lambda>q. [] # lines (block q)) (tl qs))"
proof (induction qs)
  case (Cons q qs)
  have "lines (CHR 0x0A # r) = [] # lines r" for r using lines_Cons [of "[]" r] by simp
  with Cons show ?case by (cases qs) (simp_all add: lines_append)
qed simp

lemma block_ends: "visible (hd (block q))" "visible (last (block q))" "block q \<noteq> []"
  by (simp_all add: block_def head_of_def visible_def)

lemma blocks_ends:
  assumes "qs \<noteq> []"
  shows "visible (hd (Join (map block qs) [CHR 0x0A, CHR 0x0A]))" "visible (last (Join (map block qs) [CHR 0x0A, CHR 0x0A]))"
    "Join (map block qs) [CHR 0x0A, CHR 0x0A] \<noteq> []"
proof -
  have "visible (hd (Join (map block qs) [CHR 0x0A, CHR 0x0A])) \<and> visible (last (Join (map block qs) [CHR 0x0A, CHR 0x0A])) \<and>
      Join (map block qs) [CHR 0x0A, CHR 0x0A] \<noteq> []"
    using assms
  proof (induction qs)
    case (Cons q qs)
    then show ?case using block_ends by (cases qs) (simp_all add: last_append)
  qed simp
  then show "visible (hd (Join (map block qs) [CHR 0x0A, CHR 0x0A]))" "visible (last (Join (map block qs) [CHR 0x0A, CHR 0x0A]))"
    "Join (map block qs) [CHR 0x0A, CHR 0x0A] \<noteq> []" by simp_all
qed

lemma RenderFile_lines:
  assumes "qs \<noteq> []"
  shows "RenderFile qs = Join (map (\<lambda>l. TrimRight l ('' '' @ tab))
    (lines (block (hd qs)) @ concat (map (\<lambda>q. [] # lines (block q)) (tl qs)))) nl @ nl"
proof -
  have folds: "foldl (\<lambda>rendered query. rendered @ [Render query]) [] qs = map Render qs"
    "foldl (\<lambda>lines line. lines @ [TrimRight line ('' '' @ tab)]) [] ls = map (\<lambda>l. TrimRight l ('' '' @ tab)) ls" for ls
    using foldl_append_map [of Render "[]" qs] foldl_append_map [of "\<lambda>l. TrimRight l ('' '' @ tab)" "[]" ls] by simp_all
  have "TrimSpace (Join (map Render qs) nl) = Join (map block qs) [CHR 0x0A, CHR 0x0A]"
    unfolding rendered_join [OF assms] using TrimSpace_newlines(2) blocks_ends [OF assms] by blast
  then show ?thesis
    using assms lines_blocks [OF assms] unfolding RenderFile_def Let_def folds lines_def by simp
qed

text \<open>What survives of a file when comments and blank lines are dropped.\<close>

abbreviation keeps :: "string \<Rightarrow> bool" where
  "keeps line \<equiv> TrimSpace line \<noteq> [] \<and> \<not> HasPrefix (TrimSpace line) ''--''"

lemma TrimRight_comment: "\<exists>r. TrimRight (''-- name: '' @ s) ('' '' @ tab) = ''--'' @ r"
proof -
  have "dropWhile (\<lambda>c. c \<in> set ('' '' @ tab)) (rev s @ rev ''-- name: '') = dropWhile (\<lambda>c. c \<in> set ('' '' @ tab)) (rev s) @ rev ''-- name: ''
     \<or> dropWhile (\<lambda>c. c \<in> set ('' '' @ tab)) (rev s @ rev ''-- name: '') = rev ''-- name:''"
    by (simp add: dropWhile_append)
  then have "TrimRight (''-- name: '' @ s) ('' '' @ tab) =
        ''--'' @ '' name: '' @ rev (dropWhile (\<lambda>c. c \<in> set ('' '' @ tab)) (rev s)) \<or>
      TrimRight (''-- name: '' @ s) ('' '' @ tab) = ''--'' @ '' name:''"
    by (auto simp: TrimRight_def)
  then show ?thesis by blast
qed

lemma TrimSpace_Nil: "TrimSpace [] = []"
  by (simp add: TrimSpace_def trim_left_visible trim_right_visible)

lemma kept_block:
  assumes "clean_query q"
  shows "filter keeps (map (\<lambda>l. TrimRight l ('' '' @ tab)) (lines (block q))) = lines (body_of q @ '';'')"
    and "filter keeps (map (\<lambda>l. TrimRight l ('' '' @ tab)) ([] # lines (block q))) = lines (body_of q @ '';'')"
proof -
  note c = clean_queryD [OF assms]
  have l: "lines (block q) = head_of q # lines (body_of q @ '';'')"
    unfolding block_def using lines_Cons [OF c(6)] by simp
  obtain r where "TrimRight (head_of q) ('' '' @ tab) = ''--'' @ r" using TrimRight_comment unfolding head_of_def by blast
  then have h: "\<not> keeps (TrimRight (head_of q) ('' '' @ tab))" using TrimSpace_comment [of r] by simp
  have "filter keeps (map (\<lambda>l. TrimRight l ('' '' @ tab)) ls) = ls" if "list_all line_ok ls" for ls
    using that by (induction ls) (simp_all add: line_ok_def)
  from this [OF c(5)]
  have b: "filter keeps (map (\<lambda>l. TrimRight l ('' '' @ tab)) (lines (body_of q @ '';''))) = lines (body_of q @ '';'')" .
  show "filter keeps (map (\<lambda>l. TrimRight l ('' '' @ tab)) (lines (block q))) = lines (body_of q @ '';'')"
    unfolding l using h b by simp
  then show "filter keeps (map (\<lambda>l. TrimRight l ('' '' @ tab)) ([] # lines (block q))) = lines (body_of q @ '';'')"
    by (simp add: TrimRight_def TrimSpace_Nil)
qed

lemma lines_no_newline: "l \<in> set (lines s) \<Longrightarrow> CHR 0x0A \<notin> set l"
  using split_by_parts [of l "(=) CHR 0x0A" s] by (auto simp: lines_def Split_def)

lemma TrimRight_set: "set (TrimRight s cs) \<subseteq> set s"
  unfolding TrimRight_def using set_dropWhileD by fastforce

lemma stripped_file:
  assumes "qs \<noteq> []" and "list_all clean_query qs"
  shows "stripComments (RenderFile qs) = Join (map (\<lambda>q. body_of q @ '';'') qs) nl"
proof -
  let ?ls = "map (\<lambda>l. TrimRight l ('' '' @ tab)) (lines (block (hd qs)) @ concat (map (\<lambda>q. [] # lines (block q)) (tl qs)))"
  have "CHR 0x0A \<notin> set l" if l: "l \<in> set ?ls" for l
  proof -
    from l obtain l' where "l = TrimRight l' ('' '' @ tab)" "l' = [] \<or> (\<exists>q. l' \<in> set (lines (block q)))"
      unfolding set_map by (fastforce split: if_splits)
    then show ?thesis using TrimRight_set [of l' "'' '' @ tab"] lines_no_newline by fastforce
  qed
  moreover have "?ls \<noteq> []" by (simp add: lines_def Split_def)
  ultimately have "Split (Join ?ls nl @ nl) CHR 0x0A = ?ls @ [[]]"
    using Split_Join [of "?ls @ [[]]" "CHR 0x0A"] by (auto simp: Join_append)
  then have "stripComments (RenderFile qs) = Join (filter keeps (?ls @ [[]])) nl"
    unfolding RenderFile_lines [OF assms(1)] stripComments_filter by simp
  also have "filter keeps (?ls @ [[]]) = filter keeps ?ls" by (simp add: TrimSpace_Nil)
  also have "\<dots> = concat (map (\<lambda>q. lines (body_of q @ '';'')) qs)"
  proof -
    have tail: "filter keeps (map (\<lambda>l. TrimRight l ('' '' @ tab)) (concat (map (\<lambda>q. [] # lines (block q)) qs'))) =
        concat (map (\<lambda>q. lines (body_of q @ '';'')) qs')" if "list_all clean_query qs'" for qs'
      using that
    proof (induction qs')
      case (Cons q qs')
      then have c: "clean_query q" and ih: "filter keeps (map (\<lambda>l. TrimRight l ('' '' @ tab)) (concat (map (\<lambda>q. [] # lines (block q)) qs'))) =
        concat (map (\<lambda>q. lines (body_of q @ '';'')) qs')" by simp_all
      have e: "concat (map (\<lambda>q. [] # lines (block q)) (q # qs')) = ([] # lines (block q)) @ concat (map (\<lambda>q. [] # lines (block q)) qs')"
        by simp
      show ?case unfolding e map_append filter_append kept_block(2) [OF c] ih by simp
    qed simp
    obtain q qs' where qs: "qs = q # qs'" using assms(1) by (cases qs) auto
    with assms(2) tail [of qs'] kept_block(1) [of q] show ?thesis by simp
  qed
  also have "Join \<dots> nl = Join (map (\<lambda>q. body_of q @ '';'') qs) nl"
    using assms(1)
  proof (induction qs)
    case (Cons q qs)
    have "Join (lines s) nl = s" for s using Join_Split [of s "CHR 0x0A"] by (simp add: lines_def)
    moreover have "lines s \<noteq> []" for s by (simp add: lines_def Split_def)
    ultimately show ?case using Cons by (cases qs) (simp_all add: Join_append)
  qed simp
  finally show ?thesis .
qed

lemma statements_of_bodies:
  assumes "list_all clean_query qs" and "qs \<noteq> []"
  shows "map TrimSpace (Split (Join (map (\<lambda>q. body_of q @ '';'') qs) nl) CHR '';'') = map body_of qs @ [[]]"
proof -
  let ?tails = "\<lambda>qs. concat (map (\<lambda>q. CHR 0x0A # body_of q @ '';'') qs)"
  have tail: "map TrimSpace (Split (?tails qs') CHR '';'') = map body_of qs' @ [[]]" if "list_all clean_query qs'" for qs'
    using that
  proof (induction qs')
    case (Cons q qs')
    then have c: "clean_query q" by simp
    note d = clean_queryD [OF c]
    have "Split ((CHR 0x0A # body_of q) @ CHR '';'' # ?tails qs') CHR '';'' = (CHR 0x0A # body_of q) # Split (?tails qs') CHR '';''"
      unfolding Split_def by (rule split_by_append_sep) (use d(4) in auto)
    with Cons TrimSpace_newlines(1) [OF d(1-3)] show ?case by simp
  qed (simp add: Split_def TrimSpace_Nil)
  obtain q qs' where qs: "qs = q # qs'" using assms(2) by (cases qs) auto
  with assms(1) have c: "clean_query q" "list_all clean_query qs'" by simp_all
  note d = clean_queryD [OF c(1)]
  have "Join (map (\<lambda>q. body_of q @ '';'') qs) nl = body_of q @ CHR '';'' # ?tails qs'"
    by (simp add: qs Join_concat comp_def)
  moreover have "Split (body_of q @ CHR '';'' # ?tails qs') CHR '';'' = body_of q # Split (?tails qs') CHR '';''"
    unfolding Split_def by (rule split_by_append_sep) (use d(4) in auto)
  ultimately show ?thesis using tail [OF c(2)] TrimSpace_ends [OF d(1-3)] by (simp add: qs)
qed



end
