(* ===== verification/RedisSlots.thy ===== *)
theory RedisSlots
  imports GoText "HOL-Library.Word"
begin

text \<open>
  The package \<^verbatim>\<open>cache/redis/slots\<close>: the hash slot of a Redis Cluster key, the layout of the slots over nodes, and the keys that are
  planned to spread evenly over the nodes.

  A Go \<^verbatim>\<open>int\<close> is an integer; the one product that can leave its 64 bits is wrapped. What \<^verbatim>\<open>CLUSTER SHARDS\<close> answers is a
  parameter. Running out of memory is not modelled.
\<close>

unbundle bit_operations_syntax

subsection \<open>crc16.go\<close>

definition SlotCount :: int where "SlotCount = 16384"

definition crc16tab :: "u16 list" where
  "crc16tab =
    [0x0000, 0x1021, 0x2042, 0x3063, 0x4084, 0x50a5, 0x60c6, 0x70e7, 0x8108, 0x9129, 0xa14a, 0xb16b, 0xc18c, 0xd1ad, 0xe1ce, 0xf1ef,
     0x1231, 0x0210, 0x3273, 0x2252, 0x52b5, 0x4294, 0x72f7, 0x62d6, 0x9339, 0x8318, 0xb37b, 0xa35a, 0xd3bd, 0xc39c, 0xf3ff, 0xe3de,
     0x2462, 0x3443, 0x0420, 0x1401, 0x64e6, 0x74c7, 0x44a4, 0x5485, 0xa56a, 0xb54b, 0x8528, 0x9509, 0xe5ee, 0xf5cf, 0xc5ac, 0xd58d,
     0x3653, 0x2672, 0x1611, 0x0630, 0x76d7, 0x66f6, 0x5695, 0x46b4, 0xb75b, 0xa77a, 0x9719, 0x8738, 0xf7df, 0xe7fe, 0xd79d, 0xc7bc,
     0x48c4, 0x58e5, 0x6886, 0x78a7, 0x0840, 0x1861, 0x2802, 0x3823, 0xc9cc, 0xd9ed, 0xe98e, 0xf9af, 0x8948, 0x9969, 0xa90a, 0xb92b,
     0x5af5, 0x4ad4, 0x7ab7, 0x6a96, 0x1a71, 0x0a50, 0x3a33, 0x2a12, 0xdbfd, 0xcbdc, 0xfbbf, 0xeb9e, 0x9b79, 0x8b58, 0xbb3b, 0xab1a,
     0x6ca6, 0x7c87, 0x4ce4, 0x5cc5, 0x2c22, 0x3c03, 0x0c60, 0x1c41, 0xedae, 0xfd8f, 0xcdec, 0xddcd, 0xad2a, 0xbd0b, 0x8d68, 0x9d49,
     0x7e97, 0x6eb6, 0x5ed5, 0x4ef4, 0x3e13, 0x2e32, 0x1e51, 0x0e70, 0xff9f, 0xefbe, 0xdfdd, 0xcffc, 0xbf1b, 0xaf3a, 0x9f59, 0x8f78,
     0x9188, 0x81a9, 0xb1ca, 0xa1eb, 0xd10c, 0xc12d, 0xf14e, 0xe16f, 0x1080, 0x00a1, 0x30c2, 0x20e3, 0x5004, 0x4025, 0x7046, 0x6067,
     0x83b9, 0x9398, 0xa3fb, 0xb3da, 0xc33d, 0xd31c, 0xe37f, 0xf35e, 0x02b1, 0x1290, 0x22f3, 0x32d2, 0x4235, 0x5214, 0x6277, 0x7256,
     0xb5ea, 0xa5cb, 0x95a8, 0x8589, 0xf56e, 0xe54f, 0xd52c, 0xc50d, 0x34e2, 0x24c3, 0x14a0, 0x0481, 0x7466, 0x6447, 0x5424, 0x4405,
     0xa7db, 0xb7fa, 0x8799, 0x97b8, 0xe75f, 0xf77e, 0xc71d, 0xd73c, 0x26d3, 0x36f2, 0x0691, 0x16b0, 0x6657, 0x7676, 0x4615, 0x5634,
     0xd94c, 0xc96d, 0xf90e, 0xe92f, 0x99c8, 0x89e9, 0xb98a, 0xa9ab, 0x5844, 0x4865, 0x7806, 0x6827, 0x18c0, 0x08e1, 0x3882, 0x28a3,
     0xcb7d, 0xdb5c, 0xeb3f, 0xfb1e, 0x8bf9, 0x9bd8, 0xabbb, 0xbb9a, 0x4a75, 0x5a54, 0x6a37, 0x7a16, 0x0af1, 0x1ad0, 0x2ab3, 0x3a92,
     0xfd2e, 0xed0f, 0xdd6c, 0xcd4d, 0xbdaa, 0xad8b, 0x9de8, 0x8dc9, 0x7c26, 0x6c07, 0x5c64, 0x4c45, 0x3ca2, 0x2c83, 0x1ce0, 0x0cc1,
     0xef1f, 0xff3e, 0xcf5d, 0xdf7c, 0xaf9b, 0xbfba, 0x8fd9, 0x9ff8, 0x6e17, 0x7e36, 0x4e55, 0x5e74, 0x2e93, 0x3eb2, 0x0ed1, 0x1ef0]"

definition crc16sum :: "string \<Rightarrow> u16" where
  "crc16sum s =
     foldl (\<lambda>crc c. push_bit 8 crc XOR crc16tab ! unat ((ucast (drop_bit 8 crc) XOR byte_of c) AND 0xff :: byte)) 0 s"

definition Slot :: "string \<Rightarrow> u16" where
  "Slot s = crc16sum s mod word_of_int SlotCount"

text \<open>\<^verbatim>\<open>strings.IndexByte\<close>\<close>

definition IndexByte :: "string \<Rightarrow> char \<Rightarrow> int" where
  "IndexByte s c = (let p = takeWhile (\<lambda>x. x \<noteq> c) s in if length p = length s then -1 else int (length p))"

definition SlotForKey :: "string \<Rightarrow> u16" where
  "SlotForKey key =
     (let s = IndexByte key CHR ''{''
      in if s \<ge> 0
         then let rest = drop (nat (s + 1)) key; e = IndexByte rest CHR ''}''
              in if e > 0 then Slot (take (nat e) rest) else Slot key
         else Slot key)"

subsection \<open>slots.go\<close>

record SlotRange =
  rg_Start :: u16
  rg_End :: u16

definition Contains_range :: "SlotRange \<Rightarrow> u16 \<Rightarrow> bool" where
  "Contains_range r slot \<longleftrightarrow> slot \<ge> rg_Start r \<and> slot \<le> rg_End r"

type_synonym NodeSlots = "SlotRange list"

definition Contains_node :: "NodeSlots \<Rightarrow> u16 \<Rightarrow> bool" where
  "Contains_node n slot = list_ex (\<lambda>r. Contains_range r slot) n"

text \<open>The errors, with what their messages name; \<open>'e\<close> is the error of the cluster's client.\<close>

datatype 'e slots_error =
    NodeCountNotPositive
  | CannotSplit int int
  | NoNodes
  | SlotsPerNodeNotPositive
  | ExhaustedCandidates int int int
  | FetchingShards 'e
  | RangeOutOfBounds int int
  | NilTopologySource
  | ResolvingTopology "'e slots_error"
  | ComputingHashtags "'e slots_error"

definition equalSplit :: "int \<Rightarrow> 'e slots_error + NodeSlots list" where
  "equalSplit n =
     (if n \<le> 0 then Inl NodeCountNotPositive
      else if n > SlotCount then Inl (CannotSplit SlotCount n)
      else Inr (map (\<lambda>i. [\<lparr>rg_Start = word_of_int (i * SlotCount div n),
                            rg_End = word_of_int ((i + 1) * SlotCount div n - 1)\<rparr>]) [0..n - 1]))"

primrec nodeForSlot_from :: "int \<Rightarrow> NodeSlots list \<Rightarrow> u16 \<Rightarrow> int" where
  "nodeForSlot_from i [] slot = -1"
| "nodeForSlot_from i (n # ns) slot = (if Contains_node n slot then i else nodeForSlot_from (i + 1) ns slot)"

definition nodeForSlot :: "NodeSlots list \<Rightarrow> u16 \<Rightarrow> int" where
  "nodeForSlot nodes slot = nodeForSlot_from 0 nodes slot"

text \<open>
  The search: the values found for each node, the slots seen on each, and how many nodes are filled. \<^const>\<open>Inr\<close> is the return
  inside the loop, \<^const>\<open>Inl\<close> the result at the end of the candidates.
\<close>

function distribute_loop :: "string \<Rightarrow> string \<Rightarrow> NodeSlots list \<Rightarrow> int \<Rightarrow> int \<Rightarrow> int \<Rightarrow> int list list \<Rightarrow> (u16, unit) gomap list \<Rightarrow>
    int \<Rightarrow> int list list + int list list" where
  "distribute_loop prefix suffix nodes slotsPerNode maxAttempts v result seen filledNodes =
     (if \<not> v < maxAttempts then Inl result
      else
        let slot = Slot (prefix @ FormatInt v @ suffix);
            node = nodeForSlot nodes slot;
            continue = distribute_loop prefix suffix nodes slotsPerNode maxAttempts (v + 1)
        in if node < 0 then continue result seen filledNodes
           else if int (length (result ! nat node)) = slotsPerNode then continue result seen filledNodes
           else if mget (seen ! nat node) slot \<noteq> None then continue result seen filledNodes
           else
             let seen = seen[nat node := mput slot () (seen ! nat node)];
                 result = result[nat node := (result ! nat node) @ [v]]
             in if int (length (result ! nat node)) = slotsPerNode
                then if filledNodes + 1 = int (length nodes) then Inr result
                     else continue result seen (filledNodes + 1)
                else continue result seen filledNodes)"
  by pat_completeness auto
termination
  by (relation "measure (\<lambda>(_, _, _, _, m, v, _). nat (m - v))") auto

declare distribute_loop.simps [simp del]

definition max_attempts :: "int \<Rightarrow> int" where
  "max_attempts slotsPerNode = max (sint (word_of_int (SlotCount * slotsPerNode * 4) :: u64)) SlotCount"

definition distribute :: "string \<Rightarrow> string \<Rightarrow> NodeSlots list \<Rightarrow> int \<Rightarrow> 'e slots_error + int list list" where
  "distribute prefix suffix nodes slotsPerNode =
     (if length nodes = 0 then Inl NoNodes
      else if slotsPerNode \<le> 0 then Inl SlotsPerNodeNotPositive
      else
        let maxAttempts = max_attempts slotsPerNode
        in case distribute_loop prefix suffix nodes slotsPerNode maxAttempts 0 (map (\<lambda>_. []) nodes) (map (\<lambda>_. []) nodes) 0 of
             Inr result \<Rightarrow> Inr result
           | Inl result \<Rightarrow>
               let filled = foldl (\<lambda>filled r. filled + int (length r)) 0 result
               in Inl (ExhaustedCandidates maxAttempts filled (int (length nodes) * slotsPerNode)))"

subsection \<open>cluster.go\<close>

text \<open>The ranges of a shard as the client reports them, in integers of 64 bits.\<close>

definition nodeSlotsFromClient :: "'e + (int \<times> int) list list \<Rightarrow> 'e slots_error + NodeSlots list" where
  "nodeSlotsFromClient answer =
     (case answer of Inl err \<Rightarrow> Inl (FetchingShards err)
      | Inr shards \<Rightarrow>
          attempt_all (attempt_all (\<lambda>(start, end).
            if start < 0 \<or> end < 0 \<or> start \<ge> SlotCount \<or> end \<ge> SlotCount then Inl (RangeOutOfBounds start end)
            else Inr \<lparr>rg_Start = word_of_int start, rg_End = word_of_int end\<rparr>)) shards)"

subsection \<open>keygen.go\<close>

record Topology =
  tp_Nodes :: "NodeSlots list"
  tp_SlotsPerNode :: int

type_synonym 'e TopologySource = "unit \<Rightarrow> 'e slots_error + Topology"

definition FromClusterConfig :: "int \<Rightarrow> int \<Rightarrow> 'e TopologySource" where
  "FromClusterConfig nodeCount slotsPerNode =
     (\<lambda>_. attempt (equalSplit nodeCount) (\<lambda>nodes. Inr \<lparr>tp_Nodes = nodes, tp_SlotsPerNode = slotsPerNode\<rparr>))"

text \<open>The client is asked when the source is called.\<close>

definition FromClusterClient :: "(unit \<Rightarrow> 'e + (int \<times> int) list list) \<Rightarrow> int \<Rightarrow> 'e TopologySource" where
  "FromClusterClient ClusterShards slotsPerNode =
     (\<lambda>_. attempt (nodeSlotsFromClient (ClusterShards ())) (\<lambda>nodes. Inr \<lparr>tp_Nodes = nodes, tp_SlotsPerNode = slotsPerNode\<rparr>))"

record KeyGenerator =
  kg_hashtags :: "string list"

definition hashtag :: "string \<Rightarrow> string \<Rightarrow> int \<Rightarrow> string" where
  "hashtag prefix suffix v = concat [''{'', prefix, FormatInt v, suffix, ''}'']"

definition NewKeyGenerator :: "string \<Rightarrow> string \<Rightarrow> 'e TopologySource option \<Rightarrow> 'e slots_error + KeyGenerator" where
  "NewKeyGenerator prefix suffix src =
     (case src of None \<Rightarrow> Inl NilTopologySource
      | Some src \<Rightarrow>
          (case src () of Inl err \<Rightarrow> Inl (ResolvingTopology err)
           | Inr topology \<Rightarrow>
               (case distribute prefix suffix (tp_Nodes topology) (tp_SlotsPerNode topology) of
                  Inl err \<Rightarrow> Inl (ComputingHashtags err)
                | Inr values \<Rightarrow>
                    let flat = foldl (foldl (\<lambda>flat v. flat @ [hashtag prefix suffix v])) [] values
                    in Inr \<lparr>kg_hashtags = flat\<rparr>)))"

text \<open>\<^verbatim>\<open>hash/fnv\<close>: FNV-1a of 32 bits.\<close>

definition fnv32a :: "string \<Rightarrow> u32" where
  "fnv32a s = foldl (\<lambda>h c. (h XOR ucast (byte_of c)) * 16777619) 2166136261 s"

text \<open>A remainder by zero and an index out of range are panics, \<^const>\<open>None\<close>.\<close>

definition SlottedKey :: "KeyGenerator \<Rightarrow> string \<Rightarrow> string option" where
  "SlottedKey g seed =
     (let n = word_of_nat (length (kg_hashtags g)) :: u32
      in if n = 0 then None
         else let i = unat (fnv32a seed mod n)
              in if i < length (kg_hashtags g) then Some (kg_hashtags g ! i) else None)"

definition Hashtags :: "KeyGenerator \<Rightarrow> string list" where
  "Hashtags g = kg_hashtags g"

subsection \<open>The checksum\<close>

text \<open>Division of polynomials with coefficients of one bit, as a register that takes in the message bit by bit.\<close>

definition crc_bit :: "u16 \<Rightarrow> bool \<Rightarrow> u16" where
  "crc_bit r b = push_bit 1 r XOR (if bit r 15 \<noteq> b then 0x1021 else 0)"

definition crc16_bits :: "bool list \<Rightarrow> u16" where
  "crc16_bits bs = foldl crc_bit 0 bs"

definition bits_msb :: "char \<Rightarrow> bool list" where
  "bits_msb c = map (\<lambda>j. bit (byte_of c) (7 - j)) [0..<8]"

lemma crc_bit_add: "crc_bit (r XOR r') (b = (\<not> b')) = crc_bit r b XOR crc_bit r' b'"
  by (auto simp: crc_bit_def push_bit_xor ac_simps bit_xor_iff)

lemma crc_run_add:
  "length bs = length bs' \<Longrightarrow>
   foldl crc_bit (r XOR r') (map2 (\<lambda>b b'. b = (\<not> b')) bs bs') = foldl crc_bit r bs XOR foldl crc_bit r' bs'"
  by (induction bs bs' arbitrary: r r' rule: list_induct2) (simp_all add: crc_bit_add)

lemma crc_shift: "n \<le> 16 \<Longrightarrow> foldl crc_bit r (map (\<lambda>j. bit r (15 - j)) [0..<n]) = push_bit n r"
  by (induction n) (simp_all add: crc_bit_def bit_push_bit_iff)

abbreviation zeros :: "bool list" where "zeros \<equiv> map (\<lambda>_. False) [0..<8]"

lemma crc_zeros_add: "foldl crc_bit (r XOR r') zeros = foldl crc_bit r zeros XOR foldl crc_bit r' zeros"
  using crc_run_add [of zeros zeros r r'] by (simp add: zip_map_map case_prod_beta' zip_same_conv_map comp_def)

definition crc_entry :: "nat \<Rightarrow> u16" where
  "crc_entry i = foldl crc_bit (push_bit 8 (word_of_nat i)) zeros"

lemma crc_entry_add: "j < 2 ^ k \<Longrightarrow> crc_entry (2 ^ k + j) = crc_entry (2 ^ k) XOR crc_entry j"
proof -
  assume "j < 2 ^ k"
  then have "\<not> bit j k" by (simp add: bit_iff_odd)
  then have "(2 ^ k :: nat) AND j = 0" by (intro bit_eqI) (auto simp: bit_simps)
  then have "word_of_nat (2 ^ k + j) = (word_of_nat (2 ^ k) XOR word_of_nat j :: u16)"
    by (simp only: disjunctive_add_eq_xor of_nat_xor_eq)
  then show ?thesis by (simp only: crc_entry_def push_bit_xor crc_zeros_add)
qed

lemma crc_entries_double:
  "map crc_entry [0..<2 ^ Suc k] = map crc_entry [0..<2 ^ k] @ map (\<lambda>x. crc_entry (2 ^ k) XOR x) (map crc_entry [0..<2 ^ k])"
proof -
  have "[0..<2 ^ Suc k] = [0..<2 ^ k] @ map (\<lambda>j. j + 2 ^ k) [0..<2 ^ k]"
    by (simp only: map_add_upt upt_add_eq_append [of 0 "2 ^ k" "2 ^ k", simplified] mult_2 power_Suc)
  then show ?thesis by (simp add: crc_entry_add add.commute [of _ "2 ^ k"])
qed

lemma crc_entry_basis:
  "map (\<lambda>k. crc_entry (2 ^ k)) [0..<8] = [0x1021, 0x2042, 0x4084, 0x8108, 0x1231, 0x2462, 0x48c4, 0x9188]"
  by code_simp

lemma crc16tab_entries: "map crc_entry [0..<256] = crc16tab"
proof -
  have b: "crc_entry (2 ^ 0) = 0x1021" "crc_entry (2 ^ 1) = 0x2042" "crc_entry (2 ^ 2) = 0x4084" "crc_entry (2 ^ 3) = 0x8108"
    "crc_entry (2 ^ 4) = 0x1231" "crc_entry (2 ^ 5) = 0x2462" "crc_entry (2 ^ 6) = 0x48c4" "crc_entry (2 ^ 7) = 0x9188"
    using crc_entry_basis by (simp_all add: upt_rec)
  have z: "map crc_entry [0..<2 ^ 0] = [0]" by code_simp
  note d = crc_entries_double [of 0] crc_entries_double [of 1] crc_entries_double [of 2] crc_entries_double [of 3]
    crc_entries_double [of 4] crc_entries_double [of 5] crc_entries_double [of 6] crc_entries_double [of 7]
  have e: "Suc 0 = 1" "Suc 1 = 2" "Suc 2 = 3" "Suc 3 = 4" "Suc 4 = 5" "Suc 5 = 6" "Suc 6 = 7" "Suc 7 = 8" by simp_all
  have "map crc_entry [0..<2 ^ 8] = crc16tab"
    unfolding d [unfolded e] b z by (simp add: crc16tab_def)
  then show ?thesis by simp
qed

lemma crc_byte:
  "foldl crc_bit r (bits_msb c) = push_bit 8 r XOR crc16tab ! unat ((ucast (drop_bit 8 r) XOR byte_of c) AND 0xff :: byte)"
proof -
  let ?h = "ucast (drop_bit 8 r) XOR byte_of c :: byte"
  let ?c = "push_bit 8 (ucast (byte_of c)) :: u16" and ?lo = "take_bit 8 r" and ?hi = "push_bit 8 (ucast ?h) :: u16"
  have split: "r = (?lo XOR ?hi) XOR ?c"
    by (rule bit_eqI) (auto simp: bit_simps)
  have "bits_msb c = map2 (\<lambda>b b'. b = (\<not> b')) zeros (bits_msb c)"
    by (simp add: bits_msb_def zip_map_map case_prod_beta' zip_same_conv_map)
  then have "foldl crc_bit r (bits_msb c) = foldl crc_bit (?lo XOR ?hi) zeros XOR foldl crc_bit ?c (bits_msb c)"
    by (subst split, subst \<open>bits_msb c = _\<close>, subst crc_run_add) (simp_all add: bits_msb_def)
  moreover have "foldl crc_bit ?c (bits_msb c) = 0"
  proof -
    have "bits_msb c = map (\<lambda>j. bit ?c (15 - j)) [0..<8]"
      by (auto simp: bits_msb_def bit_simps)
    then show ?thesis using crc_shift [of 8 ?c] by simp
  qed
  moreover have "foldl crc_bit (?lo XOR ?hi) zeros = foldl crc_bit ?lo zeros XOR foldl crc_bit ?hi zeros"
    by (rule crc_zeros_add)
  moreover have "foldl crc_bit ?lo zeros = push_bit 8 r"
  proof -
    have zeros: "map (\<lambda>j. bit ?lo (15 - j)) [0..<8] = zeros" by (auto simp: bit_simps)
    have "push_bit 8 ?lo = push_bit 8 r" by (rule bit_eqI) (auto simp: bit_simps)
    then show ?thesis using crc_shift [of 8 ?lo] by (simp only: zeros)
  qed
  moreover have "foldl crc_bit ?hi zeros = crc16tab ! unat (?h AND 0xff)"
  proof -
    have "(0xff :: byte) = - 1" by simp
    then have "?h AND 0xff = ?h" by (simp only: bit.conj_one_right)
    moreover have "unat ?h < 256" using unsigned_less [of ?h, where ?'a = nat] by simp
    ultimately show ?thesis by (simp add: crc16tab_entries [symmetric] crc_entry_def)
  qed
  ultimately show ?thesis by simp
qed

lemma crc16sum_bits: "crc16sum s = crc16_bits (concat (map bits_msb s))"
proof -
  have "foldl (\<lambda>crc c. push_bit 8 crc XOR crc16tab ! unat ((ucast (drop_bit 8 crc) XOR byte_of c) AND 0xff :: byte)) r s =
      foldl crc_bit r (concat (map bits_msb s))" for r
    by (induction s arbitrary: r) (simp_all add: crc_byte)
  then show ?thesis by (simp add: crc16sum_def crc16_bits_def)
qed

subsection \<open>Which node owns a slot\<close>

lemma nodeForSlot_from_cases:
  "nodeForSlot_from k nodes slot = -1 \<and> (\<forall>n \<in> set nodes. \<not> Contains_node n slot) \<or>
   (\<exists>i < length nodes. nodeForSlot_from k nodes slot = k + int i \<and> Contains_node (nodes ! i) slot \<and>
      (\<forall>j < i. \<not> Contains_node (nodes ! j) slot))"
proof (induction nodes arbitrary: k)
  case (Cons n ns)
  show ?case
  proof (cases "Contains_node n slot")
    case False
    from Cons [of "k + 1"] show ?thesis
    proof (elim disjE exE conjE)
      fix i assume "i < length ns" "nodeForSlot_from (k + 1) ns slot = k + 1 + int i" "Contains_node (ns ! i) slot"
        "\<forall>j < i. \<not> Contains_node (ns ! j) slot"
      with False show ?thesis by (intro disjI2 exI [of _ "Suc i"]) (auto simp: less_Suc_eq_0_disj)
    qed (use False in auto)
  qed auto
qed simp

lemma nodeForSlot_cases:
  obtains (unowned) "nodeForSlot nodes slot = -1" "\<forall>n \<in> set nodes. \<not> Contains_node n slot"
  | (owner) i where "i < length nodes" "nodeForSlot nodes slot = int i" "Contains_node (nodes ! i) slot"
      "\<forall>j < i. \<not> Contains_node (nodes ! j) slot"
  using nodeForSlot_from_cases [of 0 nodes slot] by (auto simp: nodeForSlot_def)

lemma nodeForSlot_range: "nodeForSlot nodes slot < int (length nodes)" "-1 \<le> nodeForSlot nodes slot"
  by (cases rule: nodeForSlot_cases [of nodes slot]; simp)+

lemma Slot_less: "unat (Slot s) < 16384"
  by (simp add: Slot_def SlotCount_def unat_mod)

text \<open>C28. The table-driven checksum computes the checksum Redis specifies: the slot of a tag is the remainder, modulo the number of
  slots, of the polynomial of the tag's bits, highest bit of every byte first, divided by \<open>x^16 + x^12 + x^5 + 1\<close> one bit at a
  time; and it is a slot of the cluster.\<close>

theorem crc16_matches_reference:
  "Slot s = crc16_bits (concat (map bits_msb s)) mod 16384 \<and> unat (Slot s) < 16384"
  using Slot_less by (simp add: Slot_def SlotCount_def crc16sum_bits)

subsection \<open>An even layout\<close>

lemma int_div_le:
  fixes a n s :: int
  assumes "0 < n"
  shows "a div n \<le> s \<longleftrightarrow> a < (s + 1) * n"
proof -
  have a: "n * (a div n) \<le> a" "a < n * (a div n + 1)"
    using mult_div_mod_eq [of n a] pos_mod_bound [OF assms, of a] pos_mod_sign [OF assms, of a]
    unfolding distrib_left by linarith+
  show ?thesis
  proof
    assume "a div n \<le> s"
    then have "n * (a div n + 1) \<le> n * (s + 1)" using assms by simp
    with a(2) show "a < (s + 1) * n" by (simp add: mult.commute)
  next
    assume "a < (s + 1) * n"
    with a(1) have "n * (a div n) < n * (s + 1)" by (simp add: mult.commute)
    then show "a div n \<le> s" using assms by simp
  qed
qed

lemma split_quotient:
  fixes i n s C :: int
  assumes "0 < n" "0 < C"
  shows "i * C div n \<le> s \<longleftrightarrow> i \<le> ((s + 1) * n - 1) div C"
  using int_div_le [OF assms(1), of "i * C" s] int_div_le [OF assms(2), of "(s + 1) * n - 1" "i - 1"] by auto

abbreviation split_node :: "int \<Rightarrow> int \<Rightarrow> NodeSlots" where
  "split_node n i \<equiv> [\<lparr>rg_Start = word_of_int (i * SlotCount div n), rg_End = word_of_int ((i + 1) * SlotCount div n - 1)\<rparr>]"

lemma split_bounds:
  assumes "0 < n" "n \<le> SlotCount" "0 \<le> i" "i < n"
  shows "0 \<le> i * SlotCount div n" "i * SlotCount div n \<le> SlotCount"
    "1 \<le> (i + 1) * SlotCount div n" "(i + 1) * SlotCount div n \<le> SlotCount"
proof -
  have "i * SlotCount \<le> n * SlotCount" "(i + 1) * SlotCount \<le> n * SlotCount" "1 * n \<le> (i + 1) * SlotCount"
    using assms by (simp_all add: SlotCount_def)
  then show "0 \<le> i * SlotCount div n" "i * SlotCount div n \<le> SlotCount"
    "1 \<le> (i + 1) * SlotCount div n" "(i + 1) * SlotCount div n \<le> SlotCount"
    using assms int_div_le [OF assms(1), of "(i + 1) * SlotCount" 0] int_div_le [OF assms(1), of _ SlotCount]
    by (auto simp: pos_imp_zdiv_nonneg_iff SlotCount_def algebra_simps)
qed

lemma split_node_owns:
  assumes "0 < n" "n \<le> SlotCount" "0 \<le> i" "i < n"
  shows "Contains_node (split_node n i) slot \<longleftrightarrow> i * SlotCount div n \<le> uint slot \<and> uint slot < (i + 1) * SlotCount div n"
    "Contains_node (split_node n i) slot \<longleftrightarrow> i = ((uint slot + 1) * n - 1) div SlotCount"
proof -
  note b = split_bounds [OF assms]
  have C: "0 < SlotCount" by (simp add: SlotCount_def)
  have w: "uint (word_of_int x :: u16) = x" if "0 \<le> x" "x \<le> SlotCount" for x
    using that by (simp add: uint_word_of_int_eq take_bit_int_eq_self_iff SlotCount_def)
  have "uint (word_of_int (i * SlotCount div n) :: u16) = i * SlotCount div n"
    "uint (word_of_int ((i + 1) * SlotCount div n - 1) :: u16) = (i + 1) * SlotCount div n - 1"
    by (rule w; use b in linarith)+
  then show owns: "Contains_node (split_node n i) slot \<longleftrightarrow> i * SlotCount div n \<le> uint slot \<and> uint slot < (i + 1) * SlotCount div n"
    by (auto simp: Contains_node_def Contains_range_def word_le_def)
  show "Contains_node (split_node n i) slot \<longleftrightarrow> i = ((uint slot + 1) * n - 1) div SlotCount"
    unfolding owns using split_quotient [OF assms(1) C, of i "uint slot"] split_quotient [OF assms(1) C, of "i + 1" "uint slot"] by linarith
qed

lemma equalSplit_returns:
  "equalSplit n = Inr nodes \<longleftrightarrow> 0 < n \<and> n \<le> SlotCount \<and> nodes = map (split_node n) [0..n - 1]"
  by (auto simp: equalSplit_def)

lemma equalSplit_nodeForSlot:
  assumes "equalSplit n = Inr nodes" "uint slot < SlotCount"
  shows "nodeForSlot nodes slot = ((uint slot + 1) * n - 1) div SlotCount"
proof -
  from assms(1) have n: "0 < n" "n \<le> SlotCount" and nodes: "nodes = map (split_node n) [0..n - 1]"
    by (simp_all add: equalSplit_returns)
  let ?q = "((uint slot + 1) * n - 1) div SlotCount"
  have C: "0 < SlotCount" by (simp add: SlotCount_def)
  have "(uint slot + 1) * n \<le> SlotCount * n" using assms(2) n(1) by simp
  then have "?q \<le> n - 1" using int_div_le [OF C, of "(uint slot + 1) * n - 1" "n - 1"] by (simp add: mult.commute)
  moreover have "0 < (uint slot + 1) * n" using n(1) by (simp add: add_nonneg_pos)
  then have "0 \<le> ?q" using C by (simp add: pos_imp_zdiv_nonneg_iff)
  ultimately have "Contains_node (split_node n ?q) slot" "split_node n ?q \<in> set nodes"
    using split_node_owns(2) [OF n, of ?q slot] nodes by auto
  then show ?thesis
  proof (cases rule: nodeForSlot_cases [of nodes slot])
    case (owner i)
    then have "Contains_node (split_node n (int i)) slot" "int i < n" using nodes n(1) by auto
    with split_node_owns(2) [OF n, of "int i" slot] owner show ?thesis by simp
  qed auto
qed

lemma div_split_size:
  fixes a b n :: int
  assumes "0 < n"
  shows "(a + b) div n - a div n \<in> {b div n, b div n + 1}"
proof -
  have "a mod n + b mod n < 2 * n" "0 \<le> a mod n + b mod n"
    using pos_mod_bound [OF assms, of a] pos_mod_bound [OF assms, of b] pos_mod_sign [OF assms, of a] pos_mod_sign [OF assms, of b]
    by linarith+
  then have "(a mod n + b mod n) div n \<le> 1" "0 \<le> (a mod n + b mod n) div n"
    using int_div_le [OF assms, of "a mod n + b mod n" 1] assms by (simp_all add: pos_imp_zdiv_nonneg_iff)
  then have "(a mod n + b mod n) div n \<in> {0, 1}" by auto
  then show ?thesis by (simp add: div_add1_eq [of a b n]) 
qed

lemma even_layout_balanced:
  assumes "equalSplit n = Inr nodes" "i < length nodes"
  shows "length nodes = nat n \<and> int (card {slot. Contains_node (nodes ! i) slot}) \<in> {SlotCount div n, SlotCount div n + 1}"
proof -
  from assms have n: "0 < n" "n \<le> SlotCount" "0 \<le> int i" "int i < n" and nodes: "nodes = map (split_node n) [0..n - 1]"
    by (auto simp: equalSplit_returns)
  let ?lo = "int i * SlotCount div n" and ?hi = "(int i + 1) * SlotCount div n"
  note b = split_bounds [OF n]
  have "nodes ! i = split_node n (int i)" using assms(2) nodes by simp
  then have "{slot. Contains_node (nodes ! i) slot} = word_of_int ` {?lo..<?hi}"
  proof (intro set_eqI iffI)
    fix slot :: u16
    assume "slot \<in> word_of_int ` {?lo..<?hi}"
    then obtain x where x: "slot = word_of_int x" "?lo \<le> x" "x < ?hi" by auto
    moreover from this have "uint slot = x"
      using b by (simp add: uint_word_of_int_eq take_bit_int_eq_self_iff SlotCount_def)
    ultimately show "slot \<in> {slot. Contains_node (nodes ! i) slot}"
      using split_node_owns(1) [OF n, of slot] \<open>nodes ! i = _\<close> by simp
  next
    fix slot assume "slot \<in> {slot. Contains_node (nodes ! i) slot}"
    then have "?lo \<le> uint slot" "uint slot < ?hi" using split_node_owns(1) [OF n, of slot] \<open>nodes ! i = _\<close> by simp_all
    then show "slot \<in> word_of_int ` {?lo..<?hi}" by (intro image_eqI [of _ _ "uint slot"]) auto
  qed
  moreover have "inj_on (word_of_int :: int \<Rightarrow> u16) {?lo..<?hi}"
    by (rule inj_on_inverseI [of _ uint])
      (use b in \<open>simp add: uint_word_of_int_eq take_bit_int_eq_self_iff SlotCount_def\<close>)
  moreover have "?lo \<le> ?hi" using n by (intro zdiv_mono1) (simp_all add: SlotCount_def)
  ultimately have "int (card {slot. Contains_node (nodes ! i) slot}) = ?hi - ?lo" by (simp add: card_image)
  then show ?thesis
    using div_split_size [OF n(1), of "int i * SlotCount" SlotCount] nodes by (simp add: distrib_right)
qed

subsection \<open>The search for values\<close>

definition slot_of :: "string \<Rightarrow> string \<Rightarrow> int \<Rightarrow> u16" where
  "slot_of prefix suffix v = Slot (prefix @ FormatInt v @ suffix)"

text \<open>
  What is known of the values found for node \<open>i\<close> when every candidate below \<open>v\<close> was tried: they are candidates of the node with slots of
  their own, and no other slot of the node was met unless the node is full.
\<close>

definition found :: "(int \<Rightarrow> u16) \<Rightarrow> NodeSlots list \<Rightarrow> int \<Rightarrow> int \<Rightarrow> nat \<Rightarrow> int list \<Rightarrow> bool" where
  "found sl nodes K v i vals \<longleftrightarrow> distinct (map sl vals) \<and> int (length vals) \<le> K \<and>
     (\<forall>x \<in> set vals. 0 \<le> x \<and> x < v \<and> nodeForSlot nodes (sl x) = int i) \<and>
     (\<forall>x. 0 \<le> x \<and> x < v \<and> nodeForSlot nodes (sl x) = int i \<longrightarrow> int (length vals) = K \<or> sl x \<in> sl ` set vals)"

lemma found_skip:
  assumes "found sl nodes K v i vals"
    and "nodeForSlot nodes (sl v) = int i \<Longrightarrow> int (length vals) = K \<or> sl v \<in> sl ` set vals"
  shows "found sl nodes K (v + 1) i vals"
  using assms unfolding found_def by (auto simp: le_less)

lemma found_add:
  assumes "found sl nodes K v i vals" "0 \<le> v" "nodeForSlot nodes (sl v) = int i" "int (length vals) \<noteq> K" "sl v \<notin> sl ` set vals"
  shows "found sl nodes K (v + 1) i (vals @ [v])"
  using assms unfolding found_def by (auto simp: le_less)

definition full :: "int \<Rightarrow> int list list \<Rightarrow> nat set" where
  "full K result = {i. i < length result \<and> int (length (result ! i)) = K}"

definition searching :: "(int \<Rightarrow> u16) \<Rightarrow> NodeSlots list \<Rightarrow> int \<Rightarrow> int \<Rightarrow> int list list \<Rightarrow> (u16, unit) gomap list \<Rightarrow> int \<Rightarrow> bool" where
  "searching sl nodes K v result seen filled \<longleftrightarrow>
     length result = length nodes \<and> length seen = length nodes \<and> filled = int (card (full K result)) \<and> filled < int (length nodes) \<and>
     (\<forall>i < length nodes. found sl nodes K v i (result ! i) \<and> set (mkeys (seen ! i)) = sl ` set (result ! i))"

lemma finite_full [simp]: "finite (full K result)"
  by (simp add: full_def)

lemma full_all: "card (full K result) = length result \<Longrightarrow> i < length result \<Longrightarrow> int (length (result ! i)) = K"
  using card_subset_eq [of "{..<length result}" "full K result"] by (auto simp: full_def)

lemma card_full_le: "card (full K result) \<le> length result"
  using card_mono [of "{..<length result}" "full K result"] by (auto simp: full_def)

lemma full_append:
  assumes "i < length result" "int (length (result ! i)) \<noteq> K"
  shows "full K (result[i := result ! i @ [v]]) = (if int (Suc (length (result ! i))) = K then insert i (full K result) else full K result)"
    "i \<notin> full K result"
  using assms by (auto simp: full_def nth_list_update split: if_splits)

lemma searching_skip:
  assumes "searching sl nodes K v result seen filled"
    and "\<And>i. i < length nodes \<Longrightarrow> nodeForSlot nodes (sl v) = int i \<Longrightarrow>
      int (length (result ! i)) = K \<or> mget (seen ! i) (sl v) \<noteq> None"
  shows "searching sl nodes K (v + 1) result seen filled"
  using assms found_skip unfolding searching_def by (auto simp: mget_eq_None_iff)

lemma searching_add:
  assumes "searching sl nodes K v result seen filled" "0 \<le> v" "nodeForSlot nodes (sl v) = int i" "i < length nodes"
    and "int (length (result ! i)) \<noteq> K" "mget (seen ! i) (sl v) = None"
  shows "\<forall>j < length nodes. found sl nodes K (v + 1) j (result[i := result ! i @ [v]] ! j) \<and>
      set (mkeys (seen[i := mput (sl v) () (seen ! i)] ! j)) = sl ` set (result[i := result ! i @ [v]] ! j)"
proof (intro allI impI)
  fix j assume "j < length nodes"
  with assms have j: "found sl nodes K v j (result ! j)" "set (mkeys (seen ! j)) = sl ` set (result ! j)"
    and len: "length result = length nodes" "length seen = length nodes"
    by (simp_all add: searching_def)
  show "found sl nodes K (v + 1) j (result[i := result ! i @ [v]] ! j) \<and>
      set (mkeys (seen[i := mput (sl v) () (seen ! i)] ! j)) = sl ` set (result[i := result ! i @ [v]] ! j)"
  proof (cases "j = i")
    case True
    moreover have "sl v \<notin> sl ` set (result ! i)" using assms(6) j(2) True by (simp add: mget_eq_None_iff)
    ultimately show ?thesis
      using found_add [where sl = sl and v = v and vals = "result ! i"] assms(2,3,5) j assms(4) len by (simp add: set_mkeys_mput)
  next
    case False
    then show ?thesis using found_skip [OF j(1)] j(2) assms(3) by simp
  qed
qed


lemma searching_filled:
  assumes "searching sl nodes K v result seen filled" "i < length nodes" "int (length (result ! i)) \<noteq> K"
  shows "int (card (full K (result[i := result ! i @ [v]]))) = (if int (Suc (length (result ! i))) = K then filled + 1 else filled)"
  using assms full_append [of i result K] by (simp add: searching_def)

text \<open>The search returns inside the loop exactly when every node is full, and otherwise it has tried every candidate.\<close>

lemma distribute_loop_spec:
  assumes "searching (slot_of prefix suffix) nodes K v result seen filled" "0 \<le> v" "v \<le> m"
  shows "case distribute_loop prefix suffix nodes K m v result seen filled of
      Inr r \<Rightarrow> length r = length nodes \<and> (\<exists>v' \<le> m. \<forall>i < length nodes. found (slot_of prefix suffix) nodes K v' i (r ! i) \<and> int (length (r ! i)) = K)
    | Inl r \<Rightarrow> length r = length nodes \<and> (\<forall>i < length nodes. found (slot_of prefix suffix) nodes K m i (r ! i)) \<and>
        (\<exists>i < length nodes. int (length (r ! i)) < K)"
  using assms
proof (induction "nat (m - v)" arbitrary: v result seen filled)
  case 0
  note s = "0.prems"(1)
  from 0 have "v = m" by simp
  moreover have "\<exists>i < length nodes. int (length (result ! i)) < K"
  proof (rule ccontr)
    assume "\<not> ?thesis"
    then have "K \<le> int (length (result ! i))" if "i < length nodes" for i using that by (meson not_less)
    with s have "full K result = {..<length nodes}"
      unfolding searching_def full_def found_def by (auto intro!: order_antisym)
    with s show False by (auto simp: searching_def)
  qed
  ultimately show ?case using s by (simp add: distribute_loop.simps searching_def)
next
  case (Suc n)
  let ?sl = "slot_of prefix suffix" and ?node = "nodeForSlot nodes (slot_of prefix suffix v)"
  note s = Suc.prems(1)
  from Suc have v: "v < m" "n = nat (m - (v + 1))" "0 \<le> v + 1" "v + 1 \<le> m" by simp_all
  note IH = Suc.hyps(1) [OF v(2) _ v(3,4)]
  note step = distribute_loop.simps [of prefix suffix nodes K m v result seen filled, folded slot_of_def]
  show ?case
  proof (cases "?node < 0 \<or> int (length (result ! nat ?node)) = K \<or> mget (seen ! nat ?node) (?sl v) \<noteq> None")
    case True
    have "searching ?sl nodes K (v + 1) result seen filled"
      by (rule searching_skip [OF s]) (use True in auto)
    moreover have "distribute_loop prefix suffix nodes K m v result seen filled = distribute_loop prefix suffix nodes K m (v + 1) result seen filled"
      using True v(1) by (auto simp: step Let_def)
    ultimately show ?thesis using IH by simp
  next
    case False
    then obtain i where i: "?node = int i" "i < length nodes"
      using nodeForSlot_range(1) [of nodes "?sl v"] by (metis nat_0_le nat_less_iff not_less)
    let ?r = "result[i := result ! i @ [v]]" and ?s = "seen[i := mput (?sl v) () (seen ! i)]"
    have len: "length result = length nodes" using s by (simp add: searching_def)
    have fresh: "int (length (result ! i)) \<noteq> K" "mget (seen ! i) (?sl v) = None" using False unfolding i(1) by (simp_all del: not_None_eq)
    note new = searching_add [OF s _ i fresh]
    note card = searching_filled [OF s i(2) fresh(1), symmetric] card_full_le [of K ?r]
    have loop: "distribute_loop prefix suffix nodes K m v result seen filled =
        (if int (Suc (length (result ! i))) = K \<and> filled + 1 = int (length nodes) then Inr ?r
         else distribute_loop prefix suffix nodes K m (v + 1) ?r ?s (if int (Suc (length (result ! i))) = K then filled + 1 else filled))"
      using False v(1) i len by (simp add: step Let_def)
    show ?thesis
    proof (cases "int (Suc (length (result ! i))) = K \<and> filled + 1 = int (length nodes)")
      case True
      then have "\<forall>j < length nodes. int (length (?r ! j)) = K"
        using card full_all [of K ?r] len by simp
      then show ?thesis using loop True new Suc.prems(2) v(4) len by (auto intro!: exI [of _ "v + 1"])
    next
      case False
      then have "searching ?sl nodes K (v + 1) ?r ?s (if int (Suc (length (result ! i))) = K then filled + 1 else filled)"
        using new Suc.prems(2) s card len unfolding searching_def by (auto split: if_splits)
      from IH [OF this] show ?thesis unfolding loop if_not_P [OF False] .
    qed
  qed
qed

lemma searching_start:
  assumes "nodes \<noteq> []" "0 < K"
  shows "searching sl nodes K 0 (map (\<lambda>_. []) nodes) (map (\<lambda>_. []) nodes) 0"
proof -
  have "full K (map (\<lambda>_. []) nodes) = {}" using assms by (auto simp: full_def)
  then show ?thesis using assms by (auto simp: searching_def found_def)
qed

lemma max_attempts_pos: "0 < max_attempts K"
  by (simp add: max_attempts_def SlotCount_def)

text \<open>The slots of a node that some candidate has.\<close>

definition reachable_slots :: "string \<Rightarrow> string \<Rightarrow> NodeSlots list \<Rightarrow> int \<Rightarrow> nat \<Rightarrow> u16 set" where
  "reachable_slots prefix suffix nodes m i =
     {slot_of prefix suffix v | v. 0 \<le> v \<and> v < m \<and> nodeForSlot nodes (slot_of prefix suffix v) = int i}"

lemma found_reachable:
  assumes "found (slot_of prefix suffix) nodes K v i vals" "v \<le> m"
  shows "slot_of prefix suffix ` set vals \<subseteq> reachable_slots prefix suffix nodes m i"
    "card (slot_of prefix suffix ` set vals) = length vals"
    "v = m \<Longrightarrow> int (length vals) < K \<Longrightarrow> reachable_slots prefix suffix nodes m i = slot_of prefix suffix ` set vals"
proof -
  have x: "0 \<le> x" "x < m" "nodeForSlot nodes (slot_of prefix suffix x) = int i" if "x \<in> set vals" for x
    using assms that by (force simp: found_def)+
  then show "slot_of prefix suffix ` set vals \<subseteq> reachable_slots prefix suffix nodes m i"
    by (auto simp: reachable_slots_def)
  show "card (slot_of prefix suffix ` set vals) = length vals"
    using assms(1) distinct_card [of "map (slot_of prefix suffix) vals"] by (simp add: found_def)
  show "reachable_slots prefix suffix nodes m i = slot_of prefix suffix ` set vals" if "v = m" "int (length vals) < K"
    using assms(1) that x unfolding reachable_slots_def found_def by fastforce
qed

lemma distribute_cases:
  assumes "nodes \<noteq> []" "0 < K"
  obtains (planned) r v where "(distribute prefix suffix nodes K :: 'e slots_error + _) = Inr r" "length r = length nodes"
      "v \<le> max_attempts K"
      "\<And>i. i < length nodes \<Longrightarrow> found (slot_of prefix suffix) nodes K v i (r ! i) \<and> int (length (r ! i)) = K"
  | (exhausted) f r i where "(distribute prefix suffix nodes K :: 'e slots_error + _) =
        Inl (ExhaustedCandidates (max_attempts K) f (int (length nodes) * K))"
      "i < length nodes" "found (slot_of prefix suffix) nodes K (max_attempts K) i (r ! i)" "int (length (r ! i)) < K"
  using distribute_loop_spec [OF searching_start [OF assms], of "max_attempts K" prefix suffix] max_attempts_pos [of K] assms
  by (auto simp: distribute_def Let_def split: sum.splits)

lemma distribute_returns_iff:
  assumes "nodes \<noteq> []" "0 < K"
  shows "isl (distribute prefix suffix nodes K :: 'e slots_error + _) \<longleftrightarrow>
    (\<exists>i < length nodes. int (card (reachable_slots prefix suffix nodes (max_attempts K) i)) < K)"
  using assms
proof (cases rule: distribute_cases [where prefix = prefix and suffix = suffix and 'e = 'e])
  case (planned r v)
  have "K \<le> int (card (reachable_slots prefix suffix nodes (max_attempts K) i))" if "i < length nodes" for i
  proof -
    note f = planned(4) [OF that]
    have "card (slot_of prefix suffix ` set (r ! i)) \<le> card (reachable_slots prefix suffix nodes (max_attempts K) i)"
      using found_reachable(1) [of prefix suffix nodes K v i "r ! i"] f planned(3) by (intro card_mono) auto
    with f show ?thesis using found_reachable(2) [of prefix suffix nodes K v i "r ! i"] planned(3) by simp
  qed
  then have "\<not> (\<exists>i < length nodes. int (card (reachable_slots prefix suffix nodes (max_attempts K) i)) < K)"
    by (meson not_less)
  with planned(1) show ?thesis by simp
next
  case (exhausted f r i)
  then have "card (reachable_slots prefix suffix nodes (max_attempts K) i) = length (r ! i)"
    using found_reachable(2,3) [OF exhausted(3) order_refl] by simp
  with exhausted show ?thesis by auto
qed


subsection \<open>The keys\<close>

lemma IndexByte_append: "c \<notin> set p \<Longrightarrow> IndexByte (p @ c # s) c = int (length p)"
proof -
  assume "c \<notin> set p"
  then have "takeWhile (\<lambda>x. x \<noteq> c) (p @ c # s) = p" by (induction p) auto
  then show ?thesis by (simp add: IndexByte_def)
qed

lemma SlotForKey_tag:
  assumes "CHR ''}'' \<notin> set body" "body \<noteq> []"
  shows "SlotForKey (CHR ''{'' # body @ CHR ''}'' # rest) = Slot body"
  using IndexByte_append [of "CHR ''{''" "[]" "body @ CHR ''}'' # rest"] IndexByte_append [OF assms(1), of rest] assms(2)
  by (simp add: SlotForKey_def Let_def)

lemma FormatInt_no_brace: "CHR ''}'' \<notin> set (FormatInt v)"
  using decimal_no_char [of "CHR ''}''"] by (auto simp: FormatInt_def)

lemma FormatInt_not_Nil: "FormatInt v \<noteq> []"
  using decimal_not_Nil by (simp add: FormatInt_def)

lemma SlotForKey_hashtag:
  assumes "CHR ''}'' \<notin> set prefix" "CHR ''}'' \<notin> set suffix"
  shows "SlotForKey (hashtag prefix suffix v @ rest) = slot_of prefix suffix v"
  using SlotForKey_tag [of "prefix @ FormatInt v @ suffix" rest] assms FormatInt_no_brace FormatInt_not_Nil
  by (simp add: hashtag_def slot_of_def)

lemma concat_nth_chunk:
  "\<lbrakk>\<forall>xs \<in> set xss. length xs = K; i < length xss; k < K\<rbrakk> \<Longrightarrow> concat xss ! (i * K + k) = xss ! i ! k"
proof (induction xss arbitrary: i)
  case (Cons xs xss)
  then show ?case by (cases i) (simp_all add: nth_append ac_simps)
qed simp

lemma distinct_concat_chunks:
  "\<lbrakk>\<forall>i < length xss. distinct (xss ! i) \<and> (\<forall>x \<in> set (xss ! i). f x = int i)\<rbrakk> \<Longrightarrow> distinct (concat xss)"
proof (induction xss rule: rev_induct)
  case (snoc xs xss)
  have "distinct (concat xss)" using snoc by (metis append_is_Nil_conv length_append_singleton less_SucI nth_append)
  moreover have "f x \<noteq> int (length xss)" if "x \<in> set (concat xss)" for x
  proof -
    from that obtain i where i: "i < length xss" "x \<in> set (xss ! i)" by (auto simp: in_set_conv_nth [of _ xss])
    with snoc.prems [THEN spec, of i] show ?thesis by (simp add: nth_append)
  qed
  moreover have "distinct xs" "\<forall>x \<in> set xs. f x = int (length xss)"
    using snoc.prems [THEN spec, of "length xss"] by (simp_all add: nth_append)
  ultimately show ?case by auto
qed simp

lemma flat_hashtags: "foldl (foldl (\<lambda>flat v. flat @ [f v])) acc vss = acc @ concat (map (map f) vss)"
  by (induction vss arbitrary: acc) (simp_all add: foldl_append_map)

lemma NewKeyGenerator_returns:
  "NewKeyGenerator prefix suffix (Some src) = Inr g \<longleftrightarrow>
     (\<exists>t values. src () = Inr t \<and> distribute prefix suffix (tp_Nodes t) (tp_SlotsPerNode t) = (Inr values :: 'e slots_error + _) \<and>
        g = \<lparr>kg_hashtags = concat (map (map (hashtag prefix suffix)) values)\<rparr>)" for src :: "'e TopologySource"
  by (auto simp: NewKeyGenerator_def Let_def flat_hashtags split: sum.splits)

lemma SlottedKey_total:
  assumes "Hashtags g \<noteq> []" "length (Hashtags g) < 2 ^ 32"
  shows "\<exists>tag \<in> set (Hashtags g). SlottedKey g seed = Some tag"
proof -
  let ?n = "word_of_nat (length (kg_hashtags g)) :: u32"
  have n: "unat ?n = length (kg_hashtags g)" using assms(2) by (simp add: Hashtags_def unat_of_nat)
  with assms(1) have "?n \<noteq> 0" by (auto simp: Hashtags_def)
  moreover from this have "unat (fnv32a seed mod ?n) < length (kg_hashtags g)"
    using n assms(1) by (simp add: unat_mod Hashtags_def)
  ultimately show ?thesis by (auto simp: SlottedKey_def Let_def Hashtags_def)
qed

lemma generator_plan:
  fixes src :: "'e TopologySource"
  assumes "NewKeyGenerator prefix suffix (Some src) = Inr g"
  obtains t vss v where "src () = Inr t" "0 < tp_SlotsPerNode t" "tp_Nodes t \<noteq> []" "length vss = length (tp_Nodes t)"
    "Hashtags g = concat (map (map (hashtag prefix suffix)) vss)"
    "\<And>i. i < length vss \<Longrightarrow>
      found (slot_of prefix suffix) (tp_Nodes t) (tp_SlotsPerNode t) v i (vss ! i) \<and> length (vss ! i) = nat (tp_SlotsPerNode t)"
proof -
  from assms obtain t vss where t: "src () = Inr t"
    and d: "distribute prefix suffix (tp_Nodes t) (tp_SlotsPerNode t) = (Inr vss :: 'e slots_error + _)"
    and g: "Hashtags g = concat (map (map (hashtag prefix suffix)) vss)"
    by (auto simp: NewKeyGenerator_returns Hashtags_def)
  from d have K: "tp_Nodes t \<noteq> []" "0 < tp_SlotsPerNode t"
    by (auto simp: distribute_def split: if_splits)
  show thesis
    using K
  proof (cases rule: distribute_cases [where prefix = prefix and suffix = suffix and 'e = 'e])
    case (planned r v)
    with d have "r = vss" by simp
    moreover have "length (r ! i) = nat (tp_SlotsPerNode t)" if "i < length (tp_Nodes t)" for i
      using planned(4) [OF that] by (metis nat_int)
    ultimately show thesis using planned by (intro that [OF t K(2,1) _ g, of v]) auto
  qed (use d in simp)
qed

lemma planned_slots_distinct:
  assumes "\<And>i. i < length vss \<Longrightarrow> found sl nodes K v i (vss ! i)"
  shows "distinct (concat (map (map sl) vss))"
  by (rule distinct_concat_chunks [where f = "nodeForSlot nodes"]) (use assms in \<open>auto simp: found_def\<close>)

lemma distinct_slots_bound:
  fixes slots :: "u16 list"
  assumes "distinct slots" "\<forall>slot \<in> set slots. unat slot < 16384"
  shows "length slots \<le> 16384"
proof -
  have "length slots = card (unat ` set slots)"
    using assms(1) by (simp add: card_image inj_on_def word_unat_eq_iff distinct_card)
  also have "\<dots> \<le> card {..<16384 :: nat}" using assms(2) by (intro card_mono) auto
  finally show ?thesis by simp
qed

lemma length_concat_chunks: "\<forall>xs \<in> set xss. length xs = K \<Longrightarrow> length (concat (map (map f) xss)) = length xss * K"
  by (induction xss) simp_all

text \<open>C20. Keys planned for a cluster land where they were planned: the generator holds \<open>K\<close> tags for each node of the topology, in the
  order of the nodes; whatever a caller writes after a tag, the slot Redis computes for the key is owned by the tag's
  node; no two tags share a slot; and every seed is answered with one of the tags. The template must not hold the brace that ends a
  tag.\<close>

theorem planned_keys_land_on_their_node:
  fixes src :: "'e TopologySource"
  assumes "NewKeyGenerator prefix suffix (Some src) = Inr g" and "src () = Inr t"
    and "CHR ''}'' \<notin> set prefix" and "CHR ''}'' \<notin> set suffix"
  shows "length (Hashtags g) = length (tp_Nodes t) * nat (tp_SlotsPerNode t) \<and>
    (\<forall>i < length (tp_Nodes t). \<forall>k < nat (tp_SlotsPerNode t). \<forall>rest.
       nodeForSlot (tp_Nodes t) (SlotForKey (Hashtags g ! (i * nat (tp_SlotsPerNode t) + k) @ rest)) = int i) \<and>
    distinct (map SlotForKey (Hashtags g)) \<and>
    (\<forall>seed. \<exists>tag \<in> set (Hashtags g). SlottedKey g seed = Some tag)"
proof -
  obtain vss v where K: "0 < tp_SlotsPerNode t" "tp_Nodes t \<noteq> []" and vss: "length vss = length (tp_Nodes t)"
    and g: "Hashtags g = concat (map (map (hashtag prefix suffix)) vss)"
    and f: "\<And>i. i < length vss \<Longrightarrow> found (slot_of prefix suffix) (tp_Nodes t) (tp_SlotsPerNode t) v i (vss ! i) \<and>
      length (vss ! i) = nat (tp_SlotsPerNode t)"
    using generator_plan [OF assms(1)] assms(2) by (metis Inr_inject)
  let ?K = "nat (tp_SlotsPerNode t)"
  have len: "\<forall>xs \<in> set vss. length xs = ?K" using f by (auto simp: in_set_conv_nth)
  then have total: "length (Hashtags g) = length vss * ?K"
    unfolding g by (rule length_concat_chunks)
  note slot = SlotForKey_hashtag [OF assms(3,4)]
  have "nodeForSlot (tp_Nodes t) (SlotForKey (Hashtags g ! (i * ?K + k) @ rest)) = int i"
    if "i < length (tp_Nodes t)" "k < ?K" for i k rest
  proof -
    have "Hashtags g ! (i * ?K + k) = hashtag prefix suffix (vss ! i ! k)"
      using concat_nth_chunk [of "map (map (hashtag prefix suffix)) vss" ?K i k] len that vss f by (simp add: g)
    moreover have "vss ! i ! k \<in> set (vss ! i)" using that f vss by simp
    ultimately show ?thesis using f [of i] that vss by (simp add: slot found_def)
  qed
  moreover have map_slots: "map SlotForKey (Hashtags g) = concat (map (map (slot_of prefix suffix)) vss)"
    using slot [of _ "[]"] by (simp add: g map_concat comp_def)
  have "distinct (map SlotForKey (Hashtags g))"
    unfolding map_slots using planned_slots_distinct [of vss] f by blast
  moreover from this have "length (map SlotForKey (Hashtags g)) \<le> 16384"
    by (rule distinct_slots_bound) (auto simp: map_slots slot_of_def Slot_less)
  then have "\<exists>tag \<in> set (Hashtags g). SlottedKey g seed = Some tag" for seed
    by (intro SlottedKey_total) (use total K vss in auto)
  ultimately show ?thesis using vss total by simp
qed

theorem planned_keys_land_on_their_node_witness:
  "length [''{key:version2}'', ''{key:version3}'', ''{key:version0}''] = 3 \<and>
   nodeForSlot (map (split_node 3) [0, 1, 2]) (SlotForKey ''{key:version3}/user'') = 1 \<and>
   SlottedKey \<lparr>kg_hashtags = [''{key:version2}'', ''{key:version3}'', ''{key:version0}'']\<rparr> ''user'' \<noteq> None"
proof -
  let ?g = "\<lparr>kg_hashtags = [''{key:version2}'', ''{key:version3}'', ''{key:version0}'']\<rparr>"
  let ?t = "\<lparr>tp_Nodes = map (split_node 3) [0, 1, 2], tp_SlotsPerNode = 1\<rparr>"
  have g: "NewKeyGenerator ''key:version'' [] (Some (FromClusterConfig 3 1 :: unit TopologySource)) = Inr ?g" by code_simp
  have t: "(FromClusterConfig 3 1 :: unit TopologySource) () = Inr ?t"
    by (simp add: FromClusterConfig_def equalSplit_def SlotCount_def upto.simps)
  note p = planned_keys_land_on_their_node [OF g t]
  have "nodeForSlot (tp_Nodes ?t) (SlotForKey (Hashtags ?g ! 1 @ ''/user'')) = 1"
    using p by (auto dest!: spec [of _ "1 :: nat"])
  moreover have "SlottedKey ?g ''user'' \<noteq> None" using p by (auto dest!: spec [of _ "''user''"])
  ultimately show ?thesis by (simp add: Hashtags_def)
qed

subsection \<open>Two divergences\<close>

text \<open>The package comment says that the keys \<^verbatim>\<open>{key:version0}\<close> and \<^verbatim>\<open>{key:version2}\<close> share a node of an even cluster of three; they do not.\<close>

lemma comment_example_nodes:
  "map (\<lambda>key. nodeForSlot (projr (equalSplit 3 :: unit slots_error + _)) (SlotForKey key))
     [''{key:version0}'', ''{key:version1}'', ''{key:version2}''] = [2, 2, 0]"
  by code_simp

text \<open>A brace in the template ends the tag early: every planned key then has the one slot of the text before it.\<close>

lemma brace_collapses_plan:
  fixes src :: "'e TopologySource"
  assumes "NewKeyGenerator (p @ CHR ''}'' # q) suffix (Some src) = Inr g" "CHR ''}'' \<notin> set p" "p \<noteq> []" "tag \<in> set (Hashtags g)"
  shows "SlotForKey (tag @ rest) = Slot p"
proof -
  from assms(1,4) obtain v where "tag = hashtag (p @ CHR ''}'' # q) suffix v"
    by (auto simp: NewKeyGenerator_returns Hashtags_def)
  then show ?thesis
    using SlotForKey_tag [OF assms(2,3), of "q @ FormatInt v @ suffix @ ''}'' @ rest"] by (simp add: hashtag_def)
qed

end
