(* ===== verification/Webhooks.thy ===== *)
theory Webhooks
  imports RequestSigning GoText "HOL-Library.List_Lexorder" "HOL-Library.Char_ord"
begin

text \<open>
  The package \<^verbatim>\<open>webhooks/inbound\<close>: verifiers for webhooks that providers sign, and the receiver that reads, verifies, publishes and
  acknowledges a delivery.

  The keyed hashes are a parameter, one for each digest; so are \<^verbatim>\<open>url.Parse\<close> and \<^verbatim>\<open>url.ParseQuery\<close>, what reading a request gives
  and what the broker answers. A header bag is a map from names to values, and the empty map is also the nil one. The
  clock is given by its reading at the call. Registering the route, logging and spans are not modelled.
\<close>

subsection \<open>net/http: header names\<close>

definition header_byte :: "char \<Rightarrow> bool" where
  "header_byte c \<longleftrightarrow> c \<in> set ''ABCDEFGHIJKLMNOPQRSTUVWXYZabcdefghijklmnopqrstuvwxyz0123456789!#$%&*+-.^_|~'' \<or>
     of_char c \<in> {0x27, 0x60 :: nat}"

definition upper :: "char \<Rightarrow> char" where
  "upper c = (if 97 \<le> (of_char c :: nat) \<and> of_char c \<le> (122 :: nat) then char_of (of_char c - 32 :: nat) else c)"

fun canonical_from :: "bool \<Rightarrow> string \<Rightarrow> string" where
  "canonical_from start [] = []"
| "canonical_from start (c # s) = (if start then upper c else lower c) # canonical_from (c = CHR ''-'') s"

definition CanonicalHeaderKey :: "string \<Rightarrow> string" where
  "CanonicalHeaderKey s = (if list_all header_byte s then canonical_from True s else s)"

type_synonym Header = "(string, string list) gomap"

definition Get_header :: "Header \<Rightarrow> string \<Rightarrow> string" where
  "Get_header h key = (case mget h (CanonicalHeaderKey key) of None \<Rightarrow> [] | Some [] \<Rightarrow> [] | Some (v # _) \<Rightarrow> v)"

subsection \<open>encoding/base64: the standard alphabet, with padding\<close>

definition base64_value :: "char \<Rightarrow> nat option" where
  "base64_value c =
     (let n = of_char c
      in if 65 \<le> n \<and> n \<le> 90 then Some (n - 65)
         else if 97 \<le> n \<and> n \<le> 122 then Some (n - 71)
         else if 48 \<le> n \<and> n \<le> 57 then Some (n + 4)
         else if c = CHR ''+'' then Some 62 else if c = CHR ''/'' then Some 63 else None)"

text \<open>The bytes of a quantum of sextets, the last ones cut off where the padding stands; line ends are skipped.\<close>

definition base64_bytes :: "nat list \<Rightarrow> string" where
  "base64_bytes v =
     [char_of (v ! 0 * 4 + v ! 1 div 16), char_of (v ! 1 mod 16 * 16 + v ! 2 div 4), char_of (v ! 2 mod 4 * 64 + v ! 3)]"

definition base64_values :: "string \<Rightarrow> nat list option" where
  "base64_values s = (if list_all (\<lambda>c. base64_value c \<noteq> None) s then Some (map (the \<circ> base64_value) s) else None)"

fun base64_quanta :: "string \<Rightarrow> string option" where
  "base64_quanta [] = Some []"
| "base64_quanta (a # b # c # d # s) =
     (case base64_values [a, b, c, d] of
        Some v \<Rightarrow> map_option ((@) (base64_bytes v)) (base64_quanta s)
      | None \<Rightarrow>
          if s = [] \<and> d = CHR ''='' then
            if c = CHR ''='' then map_option (\<lambda>v. take 1 (base64_bytes (v @ [0, 0]))) (base64_values [a, b])
            else map_option (\<lambda>v. take 2 (base64_bytes (v @ [0]))) (base64_values [a, b, c])
          else None)"
| "base64_quanta _ = None"

definition base64_decode :: "string \<Rightarrow> string option" where
  "base64_decode s = base64_quanta (filter (\<lambda>c. c \<noteq> CHR 0x0A \<and> c \<noteq> CHR 0x0D) s)"

subsection \<open>cryptography/hashing/hmac\<close>

text \<open>A hasher is what it hashes with: the keyed hash under the key it holds.\<close>

record hmacs =
  hm_SHA1 :: keyed_hash
  hm_SHA256 :: keyed_hash
  hm_SHA512 :: keyed_hash

type_synonym Hasher = "string \<Rightarrow> string"

definition NewHMACSHA1Hasher :: "hmacs \<Rightarrow> string \<Rightarrow> Hasher" where
  "NewHMACSHA1Hasher hm key = hm_SHA1 hm key"

definition NewHMACSHA256Hasher :: "hmacs \<Rightarrow> string \<Rightarrow> Hasher" where
  "NewHMACSHA256Hasher hm key = hm_SHA256 hm key"

definition NewHMACSHA512Hasher :: "hmacs \<Rightarrow> string \<Rightarrow> Hasher" where
  "NewHMACSHA512Hasher hm key = hm_SHA512 hm key"

subsection \<open>inbound.go\<close>

definition DefaultMaxBodyBytes :: int where
  "DefaultMaxBodyBytes = 256 * 2 ^ 10"

text \<open>What the constructors refuse with; verifying fails with a \<^typ>\<open>sig_error\<close>.\<close>

datatype webhook_error =
    ErrNilScheme
  | ErrEmptyProvider
  | ErrEmptyHeader
  | ErrUnknownDigest string
  | ErrUnknownEncoding string
  | ErrNoSecret
  | ErrEmptyPublicURL
  | ErrURLNotAbsolute string
  | ErrNilVerifier
  | ErrNilPublisher

text \<open>The interface \<^verbatim>\<open>Verifier\<close>.\<close>

record Verifier =
  vf_Provider :: string
  vf_Verify :: "Header \<Rightarrow> string \<Rightarrow> sig_error option"

record Delivery =
  dl_ReceivedAt :: gotime
  dl_Headers :: Header
  dl_Provider :: string
  dl_Body :: string

subsection \<open>options.go\<close>

record verifierConfig =
  vc_Freshness :: Freshness
  vc_additions :: "string list"

type_synonym VerifierOption = "verifierConfig \<Rightarrow> verifierConfig"

definition newVerifierConfig :: "VerifierOption option list \<Rightarrow> verifierConfig" where
  "newVerifierConfig opts =
     foldl (\<lambda>cfg opt. case opt of None \<Rightarrow> cfg | Some f \<Rightarrow> f cfg)
       \<lparr>vc_Freshness = \<lparr>fr_Clock = None, fr_At = 0, fr_Tolerance = DefaultTolerance\<rparr>, vc_additions = []\<rparr> opts"

definition secretsWith :: "verifierConfig \<Rightarrow> string \<Rightarrow> string list" where
  "secretsWith c primary = foldl (\<lambda>secrets s. if s \<noteq> [] then secrets @ [s] else secrets) [] (primary # vc_additions c)"

definition WithAdditionalSecrets :: "string list \<Rightarrow> VerifierOption" where
  "WithAdditionalSecrets secrets cfg = cfg\<lparr>vc_additions := vc_additions cfg @ secrets\<rparr>"

definition WithTolerance_wh :: "duration \<Rightarrow> VerifierOption" where
  "WithTolerance_wh d cfg = (if d > 0 then cfg\<lparr>vc_Freshness := (vc_Freshness cfg)\<lparr>fr_Tolerance := d\<rparr>\<rparr> else cfg)"

definition WithClock_wh :: "gotime option \<Rightarrow> VerifierOption" where
  "WithClock_wh c cfg = (if c \<noteq> None then cfg\<lparr>vc_Freshness := (vc_Freshness cfg)\<lparr>fr_Clock := c\<rparr>\<rparr> else cfg)"

definition WithVerificationTime_wh :: "gotime \<Rightarrow> VerifierOption" where
  "WithVerificationTime_wh t cfg = (if \<not> time_is_zero t then cfg\<lparr>vc_Freshness := (vc_Freshness cfg)\<lparr>fr_At := t\<rparr>\<rparr> else cfg)"

subsection \<open>hmac.go\<close>

definition GitHubSignatureHeader :: string where "GitHubSignatureHeader = ''X-Hub-Signature-256''"
definition githubSignaturePrefix :: string where "githubSignaturePrefix = ''sha256=''"
definition providerGitHub :: string where "providerGitHub = ''github''"

definition DigestSHA256 :: string where "DigestSHA256 = ''sha256''"
definition DigestSHA512 :: string where "DigestSHA512 = ''sha512''"
definition EncodingHex :: string where "EncodingHex = ''hex''"
definition EncodingBase64 :: string where "EncodingBase64 = ''base64''"

record HMACScheme =
  sc_Provider :: string
  sc_Header :: string
  sc_Prefix :: string
  sc_Digest :: string
  sc_Encoding :: string

record HMACVerifier =
  hv_decode :: "string \<Rightarrow> string option"
  hv_scheme :: HMACScheme
  hv_hashers :: "Hasher list"

definition hasherFactory :: "hmacs \<Rightarrow> string \<Rightarrow> webhook_error + (string \<Rightarrow> Hasher)" where
  "hasherFactory hm d =
     (if d = DigestSHA256 then Inr (NewHMACSHA256Hasher hm)
      else if d = DigestSHA512 then Inr (NewHMACSHA512Hasher hm)
      else Inl (ErrUnknownDigest d))"

definition decoderFor :: "string \<Rightarrow> webhook_error + (string \<Rightarrow> string option)" where
  "decoderFor e =
     (if e = EncodingHex then Inr hex_decode
      else if e = EncodingBase64 then Inr base64_decode
      else Inl (ErrUnknownEncoding e))"

definition NewHMACVerifier :: "hmacs \<Rightarrow> HMACScheme option \<Rightarrow> string \<Rightarrow> VerifierOption option list \<Rightarrow>
    webhook_error + HMACVerifier" where
  "NewHMACVerifier hm scheme secret opts =
     (case scheme of None \<Rightarrow> Inl ErrNilScheme
      | Some s \<Rightarrow>
          if sc_Provider s = [] then Inl ErrEmptyProvider
          else if sc_Header s = [] then Inl ErrEmptyHeader
          else
            let s = (if sc_Digest s = [] then s\<lparr>sc_Digest := DigestSHA256\<rparr> else s);
                s = (if sc_Encoding s = [] then s\<lparr>sc_Encoding := EncodingHex\<rparr> else s)
            in attempt (hasherFactory hm (sc_Digest s)) (\<lambda>newHasher.
               attempt (decoderFor (sc_Encoding s)) (\<lambda>decode.
               let cfg = newVerifierConfig opts; secrets = secretsWith cfg secret
               in if length secrets = 0 then Inl ErrNoSecret
                  else
                    let hashers = foldl (\<lambda>hashers key. hashers @ [newHasher key]) [] secrets
                    in Inr \<lparr>hv_decode = decode, hv_scheme = s, hv_hashers = hashers\<rparr>)))"

definition NewGitHubVerifier :: "hmacs \<Rightarrow> string \<Rightarrow> VerifierOption option list \<Rightarrow> webhook_error + HMACVerifier" where
  "NewGitHubVerifier hm secret opts =
     NewHMACVerifier hm (Some \<lparr>sc_Provider = providerGitHub, sc_Header = GitHubSignatureHeader, sc_Prefix = githubSignaturePrefix,
       sc_Digest = DigestSHA256, sc_Encoding = EncodingHex\<rparr>) secret opts"

definition Provider_hmac :: "HMACVerifier \<Rightarrow> string" where
  "Provider_hmac v = sc_Provider (hv_scheme v)"

definition CutPrefix :: "string \<Rightarrow> string \<Rightarrow> string option" where
  "CutPrefix s prefix = (if HasPrefix s prefix then Some (drop (length prefix) s) else None)"

definition Verify_hmac :: "HMACVerifier \<Rightarrow> Header \<Rightarrow> string \<Rightarrow> sig_error option" where
  "Verify_hmac v headers body =
     (let presented = Get_header headers (sc_Header (hv_scheme v))
      in if presented = [] then Some ErrInvalidSignature
         else
           case (if sc_Prefix (hv_scheme v) \<noteq> [] then CutPrefix presented (sc_Prefix (hv_scheme v)) else Some presented) of
             None \<Rightarrow> Some ErrInvalidSignature
           | Some presented \<Rightarrow>
               (case hv_decode v presented of
                  None \<Rightarrow> Some ErrInvalidSignature
                | Some candidate \<Rightarrow>
                    if \<not> MatchesAny (hv_hashers v) body [candidate] then Some ErrInvalidSignature else None))"

subsection \<open>timestamped.go\<close>

definition StripeSignatureHeader :: string where "StripeSignatureHeader = ''Stripe-Signature''"
definition RevenueCatSignatureHeader :: string where "RevenueCatSignatureHeader = ''X-RevenueCat-Webhook-Signature''"
definition timestampElement :: string where "timestampElement = ''t''"
definition signatureElement :: string where "signatureElement = ''v1''"
definition providerStripe :: string where "providerStripe = ''stripe''"
definition providerRevenueCat :: string where "providerRevenueCat = ''revenuecat''"

record TimestampedHMACScheme =
  ts_Provider :: string
  ts_Header :: string

record TimestampedHMACVerifier =
  tv_cfg :: verifierConfig
  tv_scheme :: TimestampedHMACScheme
  tv_hashers :: "Hasher list"

definition NewTimestampedHMACVerifier :: "hmacs \<Rightarrow> TimestampedHMACScheme option \<Rightarrow> string \<Rightarrow> VerifierOption option list \<Rightarrow>
    webhook_error + TimestampedHMACVerifier" where
  "NewTimestampedHMACVerifier hm scheme secret opts =
     (case scheme of None \<Rightarrow> Inl ErrNilScheme
      | Some s \<Rightarrow>
          if ts_Provider s = [] then Inl ErrEmptyProvider
          else if ts_Header s = [] then Inl ErrEmptyHeader
          else
            let cfg = newVerifierConfig opts; secrets = secretsWith cfg secret
            in if length secrets = 0 then Inl ErrNoSecret
               else
                 let hashers = foldl (\<lambda>hashers key. hashers @ [NewHMACSHA256Hasher hm key]) [] secrets
                 in Inr \<lparr>tv_cfg = cfg, tv_scheme = s, tv_hashers = hashers\<rparr>)"

definition NewStripeVerifier :: "hmacs \<Rightarrow> string \<Rightarrow> VerifierOption option list \<Rightarrow> webhook_error + TimestampedHMACVerifier" where
  "NewStripeVerifier hm secret opts =
     NewTimestampedHMACVerifier hm (Some \<lparr>ts_Provider = providerStripe, ts_Header = StripeSignatureHeader\<rparr>) secret opts"

definition NewRevenueCatVerifier :: "hmacs \<Rightarrow> string \<Rightarrow> VerifierOption option list \<Rightarrow> webhook_error + TimestampedHMACVerifier" where
  "NewRevenueCatVerifier hm secret opts =
     NewTimestampedHMACVerifier hm (Some \<lparr>ts_Provider = providerRevenueCat, ts_Header = RevenueCatSignatureHeader\<rparr>) secret opts"

definition Provider_timestamped :: "TimestampedHMACVerifier \<Rightarrow> string" where
  "Provider_timestamped v = ts_Provider (tv_scheme v)"

record timestampedSignature =
  sg_rawTimestamp :: string
  sg_timestamp :: gotime
  sg_candidates :: "string list"

definition zero_signature :: timestampedSignature where
  "zero_signature = \<lparr>sg_rawTimestamp = [], sg_timestamp = 0, sg_candidates = []\<rparr>"

fun parse_elements :: "string list \<Rightarrow> timestampedSignature \<Rightarrow> timestampedSignature" where
  "parse_elements [] sg = sg"
| "parse_elements (element # elements) sg =
     (case cut (CHR ''='') (TrimSpace element) of
        None \<Rightarrow> parse_elements elements sg
      | Some (key, val) \<Rightarrow>
          if key = timestampElement then
            (case ParseInt val of
               None \<Rightarrow> zero_signature
             | Some seconds \<Rightarrow> parse_elements elements (sg\<lparr>sg_rawTimestamp := val, sg_timestamp := time_Unix seconds\<rparr>))
          else if key = signatureElement then
            (case hex_decode val of
               None \<Rightarrow> parse_elements elements sg
             | Some decoded \<Rightarrow> parse_elements elements (sg\<lparr>sg_candidates := sg_candidates sg @ [decoded]\<rparr>))
          else parse_elements elements sg)"

definition parseTimestampedSignature :: "string \<Rightarrow> timestampedSignature" where
  "parseTimestampedSignature header = parse_elements (split_by ((=) (CHR '','')) header) zero_signature"

definition Verify_timestamped :: "gotime \<Rightarrow> TimestampedHMACVerifier \<Rightarrow> Header \<Rightarrow> string \<Rightarrow> sig_error option" where
  "Verify_timestamped wall v headers body =
     (let presented = Get_header headers (ts_Header (tv_scheme v))
      in if presented = [] then Some ErrInvalidSignature
         else
           let sg = parseTimestampedSignature presented
           in if time_is_zero (sg_timestamp sg) \<or> length (sg_candidates sg) = 0 then Some ErrInvalidSignature
              else
                case Check wall (vc_Freshness (tv_cfg v)) (sg_timestamp sg) of
                  Some err \<Rightarrow> Some err
                | None \<Rightarrow>
                    let signed = sg_rawTimestamp sg @ ''.'' @ body
                    in if \<not> MatchesAny (tv_hashers v) signed (sg_candidates sg) then Some ErrInvalidSignature else None)"

subsection \<open>twilio.go\<close>

definition TwilioSignatureHeader :: string where "TwilioSignatureHeader = ''X-Twilio-Signature''"
definition TwilioMessageSidParam :: string where "TwilioMessageSidParam = ''MessageSid''"
definition providerTwilio :: string where "providerTwilio = ''twilio''"

record TwilioVerifier =
  tw_signedURLs :: "string list"
  tw_hashers :: "Hasher list"

text \<open>\<^verbatim>\<open>strings.Index\<close> for a text, \<^verbatim>\<open>strings.IndexAny\<close>, and \<^verbatim>\<open>strings.LastIndex\<close> for a byte; \<^const>\<open>None\<close> is \<^verbatim>\<open>-1\<close>.\<close>

fun Index :: "string \<Rightarrow> string \<Rightarrow> nat option" where
  "Index s t = (if HasPrefix s t then Some 0 else case s of [] \<Rightarrow> None | c # s' \<Rightarrow> map_option Suc (Index s' t))"

definition IndexAny :: "string \<Rightarrow> string \<Rightarrow> nat option" where
  "IndexAny s chars =
     (let p = takeWhile (\<lambda>c. c \<notin> set chars) s in if length p = length s then None else Some (length p))"

definition LastIndex :: "string \<Rightarrow> char \<Rightarrow> nat option" where
  "LastIndex s c = (if c \<in> set s then Some (length s - 1 - length (takeWhile (\<lambda>x. x \<noteq> c) (rev s))) else None)"

definition port_index :: "string \<Rightarrow> nat option" where
  "port_index host =
     (case (LastIndex host CHR '':'', LastIndex host CHR '']'') of
        (Some p, Some b) \<Rightarrow> if p < b then None else Some p
      | (p, None) \<Rightarrow> p
      | (None, Some b) \<Rightarrow> None)"

definition twilioSignedURLs :: "string \<Rightarrow> string list" where
  "twilioSignedURLs publicURL =
     (case Index publicURL ''://'' of None \<Rightarrow> [publicURL]
      | Some schemeEnd \<Rightarrow>
          let scheme = ToLower (take schemeEnd publicURL);
              defaultPort = (if scheme = ''https'' then Some ''443'' else if scheme = ''http'' then Some ''80'' else None)
          in case defaultPort of None \<Rightarrow> [publicURL]
             | Some defaultPort \<Rightarrow>
                 let authorityStart = schemeEnd + length ''://'';
                     rest = drop authorityStart publicURL;
                     authorityEnd = (case IndexAny rest ''/?#'' of None \<Rightarrow> length rest | Some n \<Rightarrow> n);
                     head = take authorityStart publicURL;
                     authority = take authorityEnd rest;
                     tail = drop authorityEnd rest;
                     host = (case LastIndex authority CHR ''@'' of None \<Rightarrow> authority | Some n \<Rightarrow> drop (n + 1) authority)
                 in case port_index host of
                      None \<Rightarrow> [publicURL, head @ authority @ '':'' @ defaultPort @ tail]
                    | Some portStart \<Rightarrow>
                        if drop (portStart + 1) host \<noteq> defaultPort then [publicURL]
                        else [publicURL, head @ take (length authority - length host + portStart) authority @ tail])"

text \<open>\<^verbatim>\<open>url.Parse\<close> answers whether the text is an absolute URL and with its host.\<close>

definition NewTwilioVerifier :: "hmacs \<Rightarrow> (string \<Rightarrow> (bool \<times> string) option) \<Rightarrow> string \<Rightarrow> string \<Rightarrow> VerifierOption option list \<Rightarrow>
    webhook_error + TwilioVerifier" where
  "NewTwilioVerifier hm url_Parse authToken publicURL opts =
     (if publicURL = [] then Inl ErrEmptyPublicURL
      else if (case url_Parse publicURL of None \<Rightarrow> True | Some (isAbs, host) \<Rightarrow> \<not> isAbs \<or> host = []) then Inl (ErrURLNotAbsolute publicURL)
      else
        let cfg = newVerifierConfig opts; secrets = secretsWith cfg authToken
        in if length secrets = 0 then Inl ErrNoSecret
           else
             let hashers = foldl (\<lambda>hashers key. hashers @ [NewHMACSHA1Hasher hm key]) [] secrets
             in Inr \<lparr>tw_signedURLs = twilioSignedURLs publicURL, tw_hashers = hashers\<rparr>)"

definition Provider_twilio :: "TwilioVerifier \<Rightarrow> string" where
  "Provider_twilio v = providerTwilio"

definition twilioSignedString :: "(string \<Rightarrow> (string, string list) gomap option) \<Rightarrow> string \<Rightarrow> string \<Rightarrow> string option" where
  "twilioSignedString url_ParseQuery publicURL body =
     (case url_ParseQuery body of None \<Rightarrow> None
      | Some params \<Rightarrow>
          Some (foldl (\<lambda>signed key.
                  foldl (\<lambda>signed val. signed @ key @ val) signed
                    (sort (case mget params key of None \<Rightarrow> [] | Some vs \<Rightarrow> vs)))
                publicURL (sort (mkeys params))))"

fun twilio_match :: "(string \<Rightarrow> (string, string list) gomap option) \<Rightarrow> Hasher list \<Rightarrow> string \<Rightarrow> string \<Rightarrow> string list \<Rightarrow> bool \<Rightarrow> bool option" where
  "twilio_match url_ParseQuery hashers body candidate [] matched = Some matched"
| "twilio_match url_ParseQuery hashers body candidate (signedURL # urls) matched =
     (case twilioSignedString url_ParseQuery signedURL body of
        None \<Rightarrow> None
      | Some signedText \<Rightarrow>
          twilio_match url_ParseQuery hashers body candidate urls (if MatchesAny hashers signedText [candidate] then True else matched))"

definition Verify_twilio :: "(string \<Rightarrow> (string, string list) gomap option) \<Rightarrow> TwilioVerifier \<Rightarrow> Header \<Rightarrow> string \<Rightarrow> sig_error option" where
  "Verify_twilio url_ParseQuery v headers body =
     (let presented = Get_header headers TwilioSignatureHeader
      in if presented = [] then Some ErrInvalidSignature
         else
           case base64_decode presented of
             None \<Rightarrow> Some ErrInvalidSignature
           | Some candidate \<Rightarrow>
               (case twilio_match url_ParseQuery (tw_hashers v) body candidate (tw_signedURLs v) False of
                  None \<Rightarrow> Some ErrInvalidSignature
                | Some matched \<Rightarrow> if \<not> matched then Some ErrInvalidSignature else None))"

subsection \<open>receiver.go\<close>

definition credentialHeaders :: "string list" where
  "credentialHeaders = [''Authorization'', ''Proxy-Authorization'', ''Cookie'']"

text \<open>The receiver with its counters; \<open>rc_clock\<close> is \<^const>\<open>None\<close> for the wall clock.\<close>

record Receiver =
  rc_verifier :: Verifier
  rc_clock :: "gotime option"
  rc_forwarded :: "(string, unit) gomap option"
  rc_maxBodyBytes :: int
  rc_received :: nat
  rc_rejected :: "string list"
  rc_published :: nat

type_synonym ReceiverOption = "Receiver \<Rightarrow> Receiver"

definition WithReceiverClock :: "gotime option \<Rightarrow> ReceiverOption" where
  "WithReceiverClock c r = (if c \<noteq> None then r\<lparr>rc_clock := c\<rparr> else r)"

definition WithMaxBodyBytes :: "int \<Rightarrow> ReceiverOption" where
  "WithMaxBodyBytes n r = (if n > 0 then r\<lparr>rc_maxBodyBytes := n\<rparr> else r)"

definition WithForwardedHeaders :: "string list \<Rightarrow> ReceiverOption" where
  "WithForwardedHeaders names r =
     foldl (\<lambda>r name.
       if name = [] then r
       else
         let fwd = (case rc_forwarded r of None \<Rightarrow> [] | Some m \<Rightarrow> m)
         in r\<lparr>rc_forwarded := Some (mput (CanonicalHeaderKey name) () fwd)\<rparr>) r names"

definition NewReceiver :: "Verifier option \<Rightarrow> bool \<Rightarrow> ReceiverOption option list \<Rightarrow> webhook_error + Receiver" where
  "NewReceiver verifier publisher_given opts =
     (case verifier of None \<Rightarrow> Inl ErrNilVerifier
      | Some v \<Rightarrow>
          if \<not> publisher_given then Inl ErrNilPublisher
          else
            Inr (foldl (\<lambda>r opt. case opt of None \<Rightarrow> r | Some f \<Rightarrow> f r)
              \<lparr>rc_verifier = v, rc_clock = None, rc_forwarded = None, rc_maxBodyBytes = DefaultMaxBodyBytes,
               rc_received = 0, rc_rejected = [], rc_published = 0\<rparr> opts))"

text \<open>A request: its headers, and the bytes its body gives before it ends or fails.\<close>

record 'e wh_request =
  wr_Header :: Header
  wr_Body :: "(string \<times> 'e option) option"

datatype 'e body_error = ErrBodyTooLarge int | ErrReadingBody 'e

definition readBody :: "Receiver \<Rightarrow> 'e wh_request \<Rightarrow> 'e body_error + string" where
  "readBody r req =
     (case wr_Body req of None \<Rightarrow> Inr []
      | Some (content, err) \<Rightarrow>
          if int (length content) > rc_maxBodyBytes r then Inl (ErrBodyTooLarge (rc_maxBodyBytes r))
          else case err of Some e \<Rightarrow> Inl (ErrReadingBody e) | None \<Rightarrow> Inr content)"

definition forwardedHeaders :: "Receiver \<Rightarrow> Header \<Rightarrow> Header" where
  "forwardedHeaders r headers =
     foldl (\<lambda>forwarded (name, vals).
       let canonical = CanonicalHeaderKey name
       in if (case rc_forwarded r of Some allowed \<Rightarrow> mget allowed canonical = None
              | None \<Rightarrow> canonical \<in> set credentialHeaders) then forwarded
          else mput canonical vals forwarded) [] headers"

definition reject :: "Receiver \<Rightarrow> string \<Rightarrow> nat \<Rightarrow> nat \<times> Receiver" where
  "reject r reason status = (status, r\<lparr>rc_rejected := rc_rejected r @ [reason]\<rparr>)"

text \<open>
  One request: the status of the response, the deliveries that were handed to the broker with what it answered, and the receiver after.
\<close>

definition ServeHTTP :: "(Delivery \<Rightarrow> 'p option) \<Rightarrow> gotime \<Rightarrow> Receiver \<Rightarrow> 'e wh_request \<Rightarrow>
    nat \<times> (Delivery \<times> 'p option) list \<times> Receiver" where
  "ServeHTTP publish wall r req =
     (let startedAt = (case rc_clock r of Some t \<Rightarrow> t | None \<Rightarrow> wall);
          r = r\<lparr>rc_received := rc_received r + 1\<rparr>
      in case readBody r req of
           Inl err \<Rightarrow>
             let status = (case err of ErrBodyTooLarge _ \<Rightarrow> 413 | ErrReadingBody _ \<Rightarrow> 400); (status, r) = reject r ''unreadable_body'' status
             in (status, [], r)
         | Inr body \<Rightarrow>
             (case vf_Verify (rc_verifier r) (wr_Header req) body of
                Some err \<Rightarrow>
                  let reason = (case err of ErrStaleSignature _ \<Rightarrow> ''stale_signature'' | _ \<Rightarrow> ''invalid_signature'');
                      (status, r) = reject r reason 400
                  in (status, [], r)
              | None \<Rightarrow>
                  let delivery = \<lparr>dl_ReceivedAt = startedAt, dl_Headers = forwardedHeaders r (wr_Header req),
                        dl_Provider = vf_Provider (rc_verifier r), dl_Body = body\<rparr>
                  in case publish delivery of
                       Some err \<Rightarrow> let (status, r) = reject r ''publish_failed'' 503 in (status, [(delivery, Some err)], r)
                     | None \<Rightarrow> (204, [(delivery, None)], r\<lparr>rc_published := rc_published r + 1\<rparr>)))"

subsection \<open>What a verifier accepts\<close>

lemma ParseInt_no_dot: "ParseInt s = Some n \<Longrightarrow> CHR ''.'' \<notin> set s"
proof -
  assume "ParseInt s = Some n"
  then have "list_all is_digit (tl s)" "is_digit (hd s) \<or> hd s = CHR ''-'' \<or> hd s = CHR ''+''" "s \<noteq> []"
    by (cases s; auto simp: ParseInt_def ParseUint_digits_def Let_def split: if_splits)+
  moreover have "\<not> is_digit CHR ''.''" by (simp add: is_digit_def)
  ultimately show ?thesis by (cases s) (auto simp: list_all_iff)
qed

lemma ParseInt_of_FormatInt: "ParseInt (FormatInt t) = Some n \<Longrightarrow> n = t"
  using hd_decimal [of "nat t"] by (auto simp: ParseInt_def FormatInt_def Let_def split: if_splits)

lemma signed_text_inj:
  assumes "raw @ ''.'' @ body = FormatInt t @ ''.'' @ b" "ParseInt raw = Some n"
  shows "n = t \<and> body = b"
proof -
  have "CHR ''.'' \<notin> set (FormatInt t)" using FormatInt_plain by blast
  with assms have "raw = FormatInt t" "body = b"
    using append_sep_cancel [of "CHR ''.''" raw "FormatInt t" body b] ParseInt_no_dot [OF assms(2)] by simp_all
  with assms(2) show ?thesis using ParseInt_of_FormatInt by blast
qed

definition read_ok_signature :: "timestampedSignature \<Rightarrow> bool" where
  "read_ok_signature sg \<longleftrightarrow> sg_timestamp sg = 0 \<or> (\<exists>s. ParseInt (sg_rawTimestamp sg) = Some s \<and> sg_timestamp sg = time_Unix s)"

lemma parse_elements_ok: "read_ok_signature sg \<Longrightarrow> read_ok_signature (parse_elements es sg)"
  by (induction es sg rule: parse_elements.induct)
    (auto simp: read_ok_signature_def zero_signature_def split: option.splits prod.splits)

lemma secretsWith_eq: "secretsWith c primary = filter (\<lambda>s. s \<noteq> []) (primary # vc_additions c)"
proof -
  have "foldl (\<lambda>secrets s. if s \<noteq> [] then secrets @ [s] else secrets) acc xs = acc @ filter (\<lambda>s. s \<noteq> []) xs"
    for acc xs :: "string list"
    by (induction xs arbitrary: acc) auto
  then show ?thesis by (simp add: secretsWith_def)
qed

text \<open>What it means for a provider to have signed a delivery, for each scheme.\<close>

definition authentic_hmac :: "HMACVerifier \<Rightarrow> Header \<Rightarrow> string \<Rightarrow> bool" where
  "authentic_hmac v headers body \<longleftrightarrow>
     (\<exists>text mac h. Get_header headers (sc_Header (hv_scheme v)) = sc_Prefix (hv_scheme v) @ text \<and> hv_decode v text = Some mac \<and>
        h \<in> set (hv_hashers v) \<and> h body = mac)"

definition authentic_timestamped :: "gotime \<Rightarrow> TimestampedHMACVerifier \<Rightarrow> Header \<Rightarrow> string \<Rightarrow> bool" where
  "authentic_timestamped wall v headers body \<longleftrightarrow>
     (let sg = parseTimestampedSignature (Get_header headers (ts_Header (tv_scheme v)))
      in \<exists>s h. ParseInt (sg_rawTimestamp sg) = Some s \<and>
           \<bar>time_Sub (Now wall (vc_Freshness (tv_cfg v))) (time_Unix s)\<bar> \<le> fr_Tolerance (vc_Freshness (tv_cfg v)) \<and>
           h \<in> set (tv_hashers v) \<and> h (sg_rawTimestamp sg @ ''.'' @ body) \<in> set (sg_candidates sg))"

definition authentic_twilio :: "(string \<Rightarrow> (string, string list) gomap option) \<Rightarrow> TwilioVerifier \<Rightarrow> Header \<Rightarrow> string \<Rightarrow> bool" where
  "authentic_twilio url_ParseQuery v headers body \<longleftrightarrow>
     (\<exists>url text mac h. url \<in> set (tw_signedURLs v) \<and> twilioSignedString url_ParseQuery url body = Some text \<and>
        base64_decode (Get_header headers TwilioSignatureHeader) = Some mac \<and> h \<in> set (tw_hashers v) \<and> h text = mac)"

lemma Verify_hmac_authentic: "Verify_hmac v headers body = None \<Longrightarrow> authentic_hmac v headers body"
  by (fastforce simp: Verify_hmac_def authentic_hmac_def CutPrefix_def HasPrefix_iff Let_def MatchesAny_iff
      split: if_splits option.splits)

lemma Verify_timestamped_authentic:
  assumes "Verify_timestamped wall v headers body = None"
  shows "authentic_timestamped wall v headers body"
proof -
  let ?sg = "parseTimestampedSignature (Get_header headers (ts_Header (tv_scheme v)))"
  have "read_ok_signature ?sg"
    unfolding parseTimestampedSignature_def by (rule parse_elements_ok) (simp add: read_ok_signature_def zero_signature_def)
  with assms show ?thesis
    by (fastforce simp: Verify_timestamped_def authentic_timestamped_def read_ok_signature_def Let_def MatchesAny_iff Check_def
        split: if_splits option.splits)
qed

lemma twilio_match_iff:
  "twilio_match q hashers body candidate urls m = Some matched \<Longrightarrow>
   matched \<longleftrightarrow> m \<or> (\<exists>url \<in> set urls. \<exists>text. twilioSignedString q url body = Some text \<and> MatchesAny hashers text [candidate])"
  by (induction q hashers body candidate urls m rule: twilio_match.induct) (auto split: option.splits)

lemma Verify_twilio_authentic: "Verify_twilio q v headers body = None \<Longrightarrow> authentic_twilio q v headers body"
  by (auto simp: Verify_twilio_def authentic_twilio_def Let_def MatchesAny_iff dest!: twilio_match_iff split: if_splits option.splits)
    blast

subsection \<open>Forwarded headers\<close>

definition may_forward :: "Receiver \<Rightarrow> string \<Rightarrow> bool" where
  "may_forward r name = (case rc_forwarded r of Some allowed \<Rightarrow> name \<in> set (mkeys allowed) | None \<Rightarrow> name \<notin> set credentialHeaders)"

lemma forwardedHeaders_keys:
  "set (mkeys (forwardedHeaders r headers)) = {k \<in> CanonicalHeaderKey ` set (mkeys headers). may_forward r k}"
proof -
  let ?step = "\<lambda>forwarded (name, vals).
       let canonical = CanonicalHeaderKey name
       in if (case rc_forwarded r of Some allowed \<Rightarrow> mget allowed canonical = None
              | None \<Rightarrow> canonical \<in> set credentialHeaders) then forwarded
          else mput canonical vals forwarded"
  have "set (mkeys (foldl ?step acc hs)) = set (mkeys acc) \<union> {k \<in> CanonicalHeaderKey ` set (mkeys hs). may_forward r k}" for acc hs
  proof (induction hs arbitrary: acc)
    case (Cons x hs)
    obtain name vals where x: "x = (name, vals)" by force
    have "set (mkeys (?step acc x)) = set (mkeys acc) \<union> (if may_forward r (CanonicalHeaderKey name) then {CanonicalHeaderKey name} else {})"
      by (auto simp: x Let_def may_forward_def mget_eq_None_iff set_mkeys_mput split: option.splits)
    then show ?case using Cons [of "?step acc x"] by (auto simp: x mkeys_def)
  qed (simp add: mkeys_def)
  from this [of "[]" headers] show ?thesis by (simp add: forwardedHeaders_def mkeys_def)
qed

subsection \<open>The receiver\<close>

text \<open>What a verifier promises its receiver, for whatever a scheme takes as proof.\<close>

locale webhook_verifier =
  fixes verifier :: Verifier
    and authentic :: "Header \<Rightarrow> string \<Rightarrow> bool"
  assumes accepts: "vf_Verify verifier headers body = None \<Longrightarrow> authentic headers body"
begin

lemma published_is_authentic:
  assumes "rc_verifier r = verifier" "ServeHTTP publish wall r req = (status, calls, r')" "(d, answer) \<in> set calls"
  shows "authentic (wr_Header req) (dl_Body d) \<and> dl_Provider d = vf_Provider verifier"
  using assms accepts [of "wr_Header req"]
  by (auto simp: ServeHTTP_def Let_def reject_def split: sum.splits option.splits)

end

text \<open>The verifiers of the package as values of the interface.\<close>

definition hmac_verifier :: "HMACVerifier \<Rightarrow> Verifier" where
  "hmac_verifier v = \<lparr>vf_Provider = Provider_hmac v, vf_Verify = Verify_hmac v\<rparr>"

definition timestamped_verifier :: "gotime \<Rightarrow> TimestampedHMACVerifier \<Rightarrow> Verifier" where
  "timestamped_verifier wall v = \<lparr>vf_Provider = Provider_timestamped v, vf_Verify = Verify_timestamped wall v\<rparr>"

definition twilio_verifier :: "(string \<Rightarrow> (string, string list) gomap option) \<Rightarrow> TwilioVerifier \<Rightarrow> Verifier" where
  "twilio_verifier url_ParseQuery v = \<lparr>vf_Provider = Provider_twilio v, vf_Verify = Verify_twilio url_ParseQuery v\<rparr>"

interpretation hv: webhook_verifier "hmac_verifier v" "authentic_hmac v" for v
  by unfold_locales (simp add: hmac_verifier_def Verify_hmac_authentic)

interpretation tv: webhook_verifier "timestamped_verifier wall v" "authentic_timestamped wall v" for wall v
  by unfold_locales (simp add: timestamped_verifier_def Verify_timestamped_authentic)

interpretation tw: webhook_verifier "twilio_verifier q v" "authentic_twilio q v" for q v
  by unfold_locales (simp add: twilio_verifier_def Verify_twilio_authentic)

lemma ServeHTTP_cases:
  assumes "ServeHTTP publish wall r req = (status, calls, r')"
  obtains (refused) "calls = []" "status \<in> {400, 413}" "\<exists>reason. rc_rejected r' = rc_rejected r @ [reason]" "rc_published r' = rc_published r"
  | (offered) d where "calls = [(d, publish d)]" "vf_Verify (rc_verifier r) (wr_Header req) (dl_Body d) = None"
      "dl_Body d = (case wr_Body req of None \<Rightarrow> [] | Some (content, _) \<Rightarrow> content)"
      "wr_Body req = None \<or> int (length (dl_Body d)) \<le> rc_maxBodyBytes r"
      "dl_Headers d = forwardedHeaders r (wr_Header req)"
      "publish d = None \<Longrightarrow> status = 204 \<and> rc_rejected r' = rc_rejected r \<and> rc_published r' = rc_published r + 1"
      "publish d \<noteq> None \<Longrightarrow> status = 503 \<and> (\<exists>reason. rc_rejected r' = rc_rejected r @ [reason]) \<and> rc_published r' = rc_published r"
proof (cases "readBody (r\<lparr>rc_received := rc_received r + 1\<rparr>) req")
  case (Inl err)
  with assms show thesis
    by (intro refused) (auto simp: ServeHTTP_def Let_def reject_def split: body_error.splits)
next
  case (Inr body)
  show thesis
  proof (cases "vf_Verify (rc_verifier r) (wr_Header req) body")
    case (Some err)
    with assms Inr show thesis
      by (intro refused) (auto simp: ServeHTTP_def Let_def reject_def)
  next
    case None
    let ?d = "\<lparr>dl_ReceivedAt = (case rc_clock r of Some t \<Rightarrow> t | None \<Rightarrow> wall),
        dl_Headers = forwardedHeaders (r\<lparr>rc_received := rc_received r + 1\<rparr>) (wr_Header req),
        dl_Provider = vf_Provider (rc_verifier r), dl_Body = body\<rparr>"
    have f: "forwardedHeaders (r\<lparr>rc_received := rc_received r + 1\<rparr>) h = forwardedHeaders r h" for h
      by (simp add: forwardedHeaders_def)
    from Inr have b: "body = (case wr_Body req of None \<Rightarrow> [] | Some (content, _) \<Rightarrow> content)"
      "wr_Body req = None \<or> int (length body) \<le> rc_maxBodyBytes r"
      by (auto simp: readBody_def split: option.splits if_splits)
    show thesis
      by (rule offered [of ?d])
        (use assms Inr None b f in \<open>auto simp: ServeHTTP_def Let_def reject_def split: option.splits\<close>)
  qed
qed

text \<open>C19. A webhook is acknowledged exactly when the broker took it. Whatever the verifier, the broker is offered at most one delivery per request,
  and only one whose body verified and is, byte for byte and within the limit, what the request carried, with no header but those the
  receiver may forward; the response is 204 exactly when the broker accepted it, and otherwise an error that the provider retries, with
  the refusal counted.\<close>

theorem acknowledged_iff_published:
  assumes "ServeHTTP publish wall r req = (status, calls, r')"
  shows "(status = 204 \<longleftrightarrow> (\<exists>d. calls = [(d, None)])) \<and> status \<in> {204, 400, 413, 503} \<and>
    (calls = [] \<or> (\<exists>d. calls = [(d, publish d)] \<and> vf_Verify (rc_verifier r) (wr_Header req) (dl_Body d) = None \<and>
       dl_Body d = (case wr_Body req of None \<Rightarrow> [] | Some (content, _) \<Rightarrow> content) \<and>
       (wr_Body req = None \<or> int (length (dl_Body d)) \<le> rc_maxBodyBytes r) \<and>
       set (mkeys (dl_Headers d)) = {k \<in> CanonicalHeaderKey ` set (mkeys (wr_Header req)). may_forward r k})) \<and>
    rc_published r' = rc_published r + (if status = 204 then 1 else 0) \<and>
    length (rc_rejected r') = length (rc_rejected r) + (if status = 204 then 0 else 1)"
  using assms
proof (cases rule: ServeHTTP_cases)
  case (offered d)
  then show ?thesis by (cases "publish d") (auto simp: forwardedHeaders_keys)
qed auto


theorem acknowledged_iff_published_witness:
  "\<exists>r' d. ServeHTTP (\<lambda>_. None :: unit option) 7
      \<lparr>rc_verifier = \<lparr>vf_Provider = ''p'', vf_Verify = (\<lambda>h b. None)\<rparr>, rc_clock = None, rc_forwarded = None, rc_maxBodyBytes = 10,
       rc_received = 0, rc_rejected = [], rc_published = 0\<rparr>
      \<lparr>wr_Header = [(''cookie'', [''c'']), (''X-Id'', [''1''])], wr_Body = Some (''body'', None :: unit option)\<rparr> = (204, [(d, None)], r') \<and>
    dl_Body d = ''body'' \<and> set (mkeys (dl_Headers d)) = {''X-Id''}"
proof -
  let ?r = "\<lparr>rc_verifier = \<lparr>vf_Provider = ''p'', vf_Verify = (\<lambda>h b. None)\<rparr>, rc_clock = None, rc_forwarded = None, rc_maxBodyBytes = 10,
       rc_received = 0, rc_rejected = [], rc_published = 0\<rparr>"
  let ?req = "\<lparr>wr_Header = [(''cookie'', [''c'']), (''X-Id'', [''1''])], wr_Body = Some (''body'', None :: unit option)\<rparr>"
  obtain status calls r' where s: "ServeHTTP (\<lambda>_. None :: unit option) 7 ?r ?req = (status, calls, r')"
    by (metis prod_cases3)
  have "status = 204" using s by (auto simp: ServeHTTP_def readBody_def Let_def)
  moreover have "CanonicalHeaderKey ''cookie'' = ''Cookie''" "CanonicalHeaderKey ''X-Id'' = ''X-Id''" by code_simp+
  then have "{k \<in> CanonicalHeaderKey ` set (mkeys (wr_Header ?req)). may_forward ?r k} = {''X-Id''}"
    by (auto simp: mkeys_def may_forward_def credentialHeaders_def)
  ultimately show ?thesis using acknowledged_iff_published [OF s] s by auto
qed

lemma NewTimestampedHMACVerifier_returns:
  assumes "NewTimestampedHMACVerifier hm scheme secret opts = Inr v"
  shows "tv_cfg v = newVerifierConfig opts" "tv_hashers v = map (hm_SHA256 hm) (secretsWith (newVerifierConfig opts) secret)"
    "tv_scheme v = the scheme"
  using assms by (auto simp: NewTimestampedHMACVerifier_def Let_def foldl_append_map NewHMACSHA256Hasher_def
      split: option.splits if_splits)

text \<open>C16. A delivery acknowledged under a scheme with a signed time was signed by the provider, recently: as long as nobody but the provider
  can produce a digest under a secret the verifier holds, the published body is one the provider signed, together with a time that is within the
  tolerance of the verifier's clock. Neither the body nor the time can be exchanged for another one, since the signed text
  has one reading.\<close>

theorem acknowledged_webhook_was_signed:
  fixes sent :: "(int \<times> string) set"
  assumes "NewTimestampedHMACVerifier hm (Some scheme) secret opts = Inr v" and "rc_verifier r = timestamped_verifier wall v"
    and "ServeHTTP publish wall r req = (204, calls, r')"
    and "\<forall>key \<in> set (secretsWith (newVerifierConfig opts) secret). \<forall>m.
      hm_SHA256 hm key m \<in> set (sg_candidates (parseTimestampedSignature (Get_header (wr_Header req) (ts_Header scheme)))) \<longrightarrow>
      (\<exists>(t, body) \<in> sent. m = FormatInt t @ ''.'' @ body)"
  shows "\<exists>d t. calls = [(d, None)] \<and> (t, dl_Body d) \<in> sent \<and>
    \<bar>time_Sub (Now wall (vc_Freshness (newVerifierConfig opts))) (time_Unix t)\<bar> \<le> fr_Tolerance (vc_Freshness (newVerifierConfig opts))"
proof -
  note v = NewTimestampedHMACVerifier_returns [OF assms(1)]
  obtain d where d: "calls = [(d, None)]"
    using assms(3) by (cases rule: ServeHTTP_cases) auto
  let ?sg = "parseTimestampedSignature (Get_header (wr_Header req) (ts_Header scheme))"
  have "authentic_timestamped wall v (wr_Header req) (dl_Body d)"
    using tv.published_is_authentic [OF assms(2,3), of d None] d by simp
  then obtain s key where s: "ParseInt (sg_rawTimestamp ?sg) = Some s"
    "\<bar>time_Sub (Now wall (vc_Freshness (newVerifierConfig opts))) (time_Unix s)\<bar> \<le> fr_Tolerance (vc_Freshness (newVerifierConfig opts))"
    "key \<in> set (secretsWith (newVerifierConfig opts) secret)"
    "hm_SHA256 hm key (sg_rawTimestamp ?sg @ ''.'' @ dl_Body d) \<in> set (sg_candidates ?sg)"
    using v by (auto simp: authentic_timestamped_def Let_def)
  with assms(4) obtain t body where "(t, body) \<in> sent" "sg_rawTimestamp ?sg @ ''.'' @ dl_Body d = FormatInt t @ ''.'' @ body"
    by blast
  with signed_text_inj [OF this(2) s(1)] s(2) d show ?thesis by auto
qed

theorem acknowledged_webhook_was_signed_witness:
  "\<exists>v calls r'. NewTimestampedHMACVerifier \<lparr>hm_SHA1 = (@), hm_SHA256 = (@), hm_SHA512 = (@)\<rparr>
        (Some \<lparr>ts_Provider = ''p'', ts_Header = ''Sig''\<rparr>) ''k'' [Some (WithVerificationTime_wh (time_Unix 7))] = Inr v \<and>
      ServeHTTP (\<lambda>_. None :: unit option) 0
        \<lparr>rc_verifier = timestamped_verifier 0 v, rc_clock = None, rc_forwarded = None, rc_maxBodyBytes = 10,
         rc_received = 0, rc_rejected = [], rc_published = 0\<rparr>
        \<lparr>wr_Header = [(''Sig'', [''t=7,v1=6b372e62''])], wr_Body = Some (''b'', None :: unit option)\<rparr> = (204, calls, r') \<and>
      (\<exists>d. calls = [(d, None)] \<and> dl_Body d = ''b'')"
proof -
  let ?hm = "\<lparr>hm_SHA1 = (@), hm_SHA256 = (@), hm_SHA512 = (@)\<rparr> :: hmacs"
  let ?scheme = "\<lparr>ts_Provider = ''p'', ts_Header = ''Sig''\<rparr>" and ?opts = "[Some (WithVerificationTime_wh (time_Unix 7))]"
  let ?h = "[(''Sig'', [''t=7,v1=6b372e62''])] :: Header"
  have k: "secretsWith (newVerifierConfig ?opts) ''k'' = [''k'']" by code_simp
  then obtain v where v: "NewTimestampedHMACVerifier ?hm (Some ?scheme) ''k'' ?opts = Inr v"
    by (simp add: NewTimestampedHMACVerifier_def Let_def)
  note n = NewTimestampedHMACVerifier_returns [OF v]
  have sg: "parseTimestampedSignature (Get_header ?h ''Sig'') =
      \<lparr>sg_rawTimestamp = ''7'', sg_timestamp = time_Unix 7, sg_candidates = [''k7.b'']\<rparr>"
  proof -
    have "Get_header ?h ''Sig'' = ''t=7,v1=6b372e62''" by code_simp
    moreover have "split_by ((=) (CHR '','')) ''t=7,v1=6b372e62'' = [''t=7'', ''v1=6b372e62'']" by code_simp
    moreover have "list_all visible ''t=7''" "list_all visible ''v1=6b372e62''" by code_simp+
    then have "TrimSpace ''t=7'' = ''t=7''" "TrimSpace ''v1=6b372e62'' = ''v1=6b372e62''" using TrimSpace_visible by blast+
    moreover have "ParseInt ''7'' = Some 7" using ParseInt_FormatInt [of 7] by (simp add: FormatInt_def decimal.simps [of 7] char_of_def bit_0)
    moreover have "hex_decode ''6b372e62'' = Some ''k7.b''" by (simp add: hex_value_def char_of_def bit_0)
    ultimately show ?thesis
      by (simp add: parseTimestampedSignature_def zero_signature_def timestampElement_def signatureElement_def)
  qed
  have f: "vc_Freshness (newVerifierConfig ?opts) = \<lparr>fr_Clock = None, fr_At = time_Unix 7, fr_Tolerance = DefaultTolerance\<rparr>"
    and nz: "time_Unix 7 \<noteq> 0" "Get_header ?h ''Sig'' \<noteq> []" by code_simp+
  have "Verify_timestamped 0 v ?h ''b'' = None"
    using n nz f k by (simp add: Verify_timestamped_def sg Check_def Now_def time_Sub_def DefaultTolerance_def Minute_def Second_def
        Millisecond_def MatchesAny_iff Let_def)
  let ?r = "\<lparr>rc_verifier = timestamped_verifier 0 v, rc_clock = None, rc_forwarded = None, rc_maxBodyBytes = 10,
         rc_received = 0, rc_rejected = [], rc_published = 0\<rparr>"
  let ?req = "\<lparr>wr_Header = ?h, wr_Body = Some (''b'', None :: unit option)\<rparr>"
  obtain calls r' where c: "ServeHTTP (\<lambda>_. None :: unit option) 0 ?r ?req = (204, calls, r')"
    using \<open>Verify_timestamped 0 v ?h ''b'' = None\<close> by (simp add: ServeHTTP_def readBody_def timestamped_verifier_def Let_def)
  have "\<exists>d t. calls = [(d, None)] \<and> (t, dl_Body d) \<in> {(7 :: int, ''b'')} \<and> \<bar>time_Sub (Now 0 (vc_Freshness (newVerifierConfig ?opts)))
      (time_Unix t)\<bar> \<le> fr_Tolerance (vc_Freshness (newVerifierConfig ?opts))"
    by (rule acknowledged_webhook_was_signed [OF v _ c]) (auto simp: k sg FormatInt_def decimal.simps [of 7] char_of_def bit_0)
  with v c show ?thesis by blast
qed

text \<open>An allow list decides alone: naming a credential header in it forwards the credential.\<close>

lemma allow_list_forwards_credentials:
  "may_forward (WithForwardedHeaders [''authorization''] r) ''Authorization''"
proof -
  have "CanonicalHeaderKey ''authorization'' = ''Authorization''" by code_simp
  then show ?thesis by (simp add: WithForwardedHeaders_def may_forward_def set_mkeys_mput)
qed

end
