(* ===== verification/Spec2Isabelle.thy ===== *)
theory Spec2Isabelle
  imports Idempotency PolicyCached RequestSigning EncryptionKeyring Batching FilteringGrpc RateLimiting JobsPool JobsScheduler
    Bitmask OAuthProperties QueryFiles RedisSlots Webhooks
begin

text \<open>
  Verification library of the Go module primitives-go.

  \<^bold>\<open>The program.\<close> The module is a set of building blocks for services: each directory under \<^verbatim>\<open>src/\<close> is a package with
  an interface, one or more providers and the wiring to configure them. The packages with logic of their own are
  modelled here; most of the others are clients of a vendor or of a server and are listed at the end.

  How the modelled parts interact: \<^verbatim>\<open>idempotency\<close> runs work at most once per key by keeping a record in a \<^verbatim>\<open>cache\<close>
  under a lock of \<^verbatim>\<open>distributedlock\<close>; its keys are checked by \<^verbatim>\<open>charset\<close>. The scoped adapter of \<^verbatim>\<open>distributedlock\<close> polls
  with the jitter of \<^verbatim>\<open>retry\<close>. \<^verbatim>\<open>authorization/cached\<close> keeps the answers of \<^verbatim>\<open>authorization/static\<close>, which expands the
  roles of \<^verbatim>\<open>authorization\<close>, in a \<^verbatim>\<open>cache\<close>. \<^verbatim>\<open>jobs\<close> runs a job under a lease of \<^verbatim>\<open>distributedlock\<close> and a message under
  the policy of \<^verbatim>\<open>retry\<close>. \<^verbatim>\<open>filtering/grpc\<close> carries the filters of \<^verbatim>\<open>filtering\<close> over a wire. In
  \<^verbatim>\<open>authentication/oauth2server\<close> the endpoints of the authorization server and the verifier of a resource server share a
  store. \<^verbatim>\<open>database/querygen\<close> renders SQL for the dialects of \<^verbatim>\<open>database/dialect\<close>, whose identifiers are a rule of \<^verbatim>\<open>charset\<close>, and
  takes the direction of a list from a filter of \<^verbatim>\<open>filtering\<close>. The timestamped verifiers of \<^verbatim>\<open>webhooks/inbound\<close> use the window of
  freshness and the key matching of \<^verbatim>\<open>cryptography/requestsigning\<close>. \<^verbatim>\<open>cache/redis/slots\<close>, \<^verbatim>\<open>batching\<close>, \<^verbatim>\<open>bitmask\<close>,
  \<^verbatim>\<open>ratelimiting\<close> and \<^verbatim>\<open>cryptography/encryption\<close> stand on their own.

  \<^bold>\<open>Theories.\<close>
  \<^item> \<open>Prelude\<close>: Go values (strings as bytes, times and durations as integers in nanoseconds, maps as association
    lists with distinct keys), and lemmas on maps, splitting, joining and decimal numbers. \<open>GoStrings\<close>: the functions
    of \<^verbatim>\<open>strings\<close>, \<^verbatim>\<open>strconv\<close>, \<^verbatim>\<open>encoding/hex\<close> and \<^verbatim>\<open>encoding/base64\<close> the packages use, with their round trips.
  \<^item> \<open>Charset\<close> (\<^verbatim>\<open>charset/\<close>): alphabets as four words of 64 bits are sets of bytes; the single-pass checker accepts
    exactly the strings whose segments obey its rules; truncation keeps the longest prefix of whole runes.
  \<^item> \<open>CacheSpec\<close> (\<^verbatim>\<open>cache/\<close>): the contract of a cache as the locale \<open>cache_contract\<close>. \<open>CacheBounds\<close> and \<open>CacheMemory\<close>
    (\<^verbatim>\<open>cache/memory/\<close>): the eviction index and the cache with its janitor and loader, interpreted as a
    \<open>cache_contract\<close>. Its size never exceeds the bound, a write keeps exactly the newest keys, reads answer the live
    value.
  \<^item> \<open>LockMemory\<close> (\<^verbatim>\<open>distributedlock/memory\<close>): leases over time with any number of clients exclude each other.
    \<open>LockScoped\<close> (\<^verbatim>\<open>distributedlock/scoped.go\<close>): running a function under a lock, over the locale \<open>locker_contract\<close>
    that the in-memory locker meets.
  \<^item> \<open>Retry\<close> (\<^verbatim>\<open>retry/\<close>, \<^verbatim>\<open>retry/config\<close>): the loop seen through the log of its operation's results, and its delays.
  \<^item> \<open>Idempotency\<close> (\<^verbatim>\<open>idempotency/\<close>): the manager's sections under the lock, and every interleaving of executions.
  \<^item> \<open>Authorization\<close> (\<^verbatim>\<open>authorization/\<close>), \<open>PolicyStatic\<close> (\<^verbatim>\<open>authorization/static\<close>), \<open>PolicyCached\<close>
    (\<^verbatim>\<open>authorization/cached\<close>): expansion of role inheritance is the reflexive transitive closure, its diagnosis of unknown
    parents and cycles is exact, the memo of the static resolver is transparent, and a cached answer is one the policy
    gave within its time to live or since the last invalidation, for any cache that meets the locale \<open>policy_cache\<close>.
  \<^item> \<open>RequestSigning\<close> (\<^verbatim>\<open>cryptography/requestsigning\<close>) and \<open>EncryptionKeyring\<close> (\<^verbatim>\<open>cryptography/encryption\<close>): round trips
    and authenticity for any keyed hash and any ciphers.
  \<^item> \<open>Batching\<close> (\<^verbatim>\<open>batching/\<close>): the buffer and the group commit with their goroutines as step relations.
  \<^item> \<open>Filtering\<close> (\<^verbatim>\<open>filtering/\<close>, \<^verbatim>\<open>database/nullable\<close>) and \<open>FilteringGrpc\<close> (\<^verbatim>\<open>filtering/grpc\<close>): parameters, defaults,
    bounds and pages of list queries, at the widths of the source.
  \<^item> \<open>RateLimiting\<close> (\<^verbatim>\<open>ratelimiting/\<close>): the bound of the map of token buckets, and that forgetting idle ones changes no
    decision.
  \<^item> \<open>JobsPool\<close> and \<open>JobsScheduler\<close> (\<^verbatim>\<open>jobs/\<close>): a message ends once and a closed pool drains; a job's runs exclude each
    other across replicas, by the invariant of \<open>LockMemory\<close>.
  \<^item> \<open>Bitmask\<close> (\<^verbatim>\<open>bitmask/\<close>): masks over words of any length are sets of flags.
  \<^item> The authorization server (\<^verbatim>\<open>authentication/oauth2server\<close>). \<open>OAuthTypes\<close>: its data, errors, proof keys and registration
    rules. \<open>OAuthStore\<close> (\<^verbatim>\<open>store.go\<close>, \<^verbatim>\<open>memory/\<close>): what a store promises as the locale \<open>oauth_store\<close>, which the store in memory
    meets. \<open>OAuthServer\<close>: every handler as a tree of the calls it makes. \<open>OAuthVerifier\<close>: the resource server's half with its
    transports. \<open>OAuthRuns\<close> and \<open>OAuthGuards\<close>: what every call of a handler rests on, from the programs alone. \<open>OAuthWorld\<close>: any
    number of requests whose calls interleave over a store; the invariant between the logs of the requests and the store is
    proved in the locale for every store that meets the contract. \<open>OAuthFlows\<close> and \<open>OAuthProperties\<close>: where a verified token comes
    from, that credentials are spent once, that a revoked family stays revoked, that redirects are safe, that the flow succeeds.
  \<^item> \<open>SqlDialect\<close> (\<^verbatim>\<open>database/dialect\<close>), over the text functions of \<open>GoText\<close>: what the dialects support, bind markers,
    identifiers, quoting and the splitting of DDL.
  \<^item> The SQL generator (\<^verbatim>\<open>database/querygen\<close>), which returns text or panics. \<open>QueryGen\<close>: columns, annotated queries and the
    fragments the dialects disagree about. \<open>QueryStandard\<close>: the registries of tables and the standard set of a table.
    \<open>QueryShapes\<close>: the statements named one by one. What the text says is stated by readers of it. \<open>QuerySafety\<close> and
    \<open>QueryCorpus\<close>: a reader of literals, quoted names, comments and brackets (\<open>read_sql\<close>, \<open>single_statement\<close>) finds exactly
    one closed statement in every query that the relation \<open>emits\<close> collects. \<open>QueryProperties\<close>: a quoted name reads back
    (\<open>read_quoted\<close>), a prefix pattern matches exactly the prefixes (\<open>like\<close>), the standard set is the same for every dialect.
    \<open>QueryRows\<close>: the columns its writes name (\<open>written_columns\<close>) and the conjuncts of its clauses (\<open>scoped\<close>). \<open>QueryFiles\<close>:
    splitting a rendered file gives the statements back.
  \<^item> \<open>RedisSlots\<close> (\<^verbatim>\<open>cache/redis/slots\<close>): the table-driven checksum is polynomial division, an even layout gives every node its
    share, and planned keys land on their nodes; the search for them fails exactly where a node has too few slots.
  \<^item> \<open>Webhooks\<close> (\<^verbatim>\<open>webhooks/inbound\<close>): the verifiers behind the locale \<open>webhook_verifier\<close>, the receiver that publishes before it
    acknowledges, and that an acknowledged body was signed recently.
  \<^item> This theory: the chain from a static policy through the cached resolver to a decision.

  \<^bold>\<open>Conventions.\<close> A record per struct, a datatype per set of errors, one definition per function with the state passed
  explicitly. Clocks, random numbers, identifiers, contexts, floating point, ciphers, parsers and stores that are not
  under \<^verbatim>\<open>src/\<close> are arguments; what a theorem needs of them is a hypothesis, and its witness gives an instance. Code under
  a mutex is one step; goroutines are steps of an inductive relation, so that a theorem about a run holds for every
  interleaving of those steps. Counters of the metrics are fields of the state.

  \<^bold>\<open>Termination and fuel.\<close> Loops are recursive functions with a measure. The walks over the role graph in \<open>Authorization\<close> take
  fuel of the number of roles plus two, which is proved enough: a walk without a cycle cannot be longer. The polling of
  \<open>WithLock\<close> has no bound in the source and is a partial function; that it returns is proved for lockers that become
  free. Counters that the source keeps in 64 bits and that cannot wrap in practice are natural numbers, except where
  the width is observable: generations, page sizes, counts and the words of an alphabet are words.

  \<^bold>\<open>Not modelled.\<close> Clients of vendors and servers (\<^verbatim>\<open>analytics\<close>, \<^verbatim>\<open>capitalism\<close>, \<^verbatim>\<open>email\<close>, \<^verbatim>\<open>embeddings\<close>, \<^verbatim>\<open>featureflags\<close>,
  \<^verbatim>\<open>llm\<close>, \<^verbatim>\<open>messagequeue\<close>, \<^verbatim>\<open>notifications\<close>, \<^verbatim>\<open>search\<close>, \<^verbatim>\<open>secrets\<close>, \<^verbatim>\<open>sms\<close>, \<^verbatim>\<open>uploads\<close>, the Redis and Postgres providers):
  what they do is decided outside \<^verbatim>\<open>src/\<close>. Transports and wiring (\<^verbatim>\<open>server\<close>, \<^verbatim>\<open>routing\<close>, \<^verbatim>\<open>httpclient\<close>, \<^verbatim>\<open>config\<close> and
  the \<^verbatim>\<open>http\<close>, \<^verbatim>\<open>grpc\<close>, \<^verbatim>\<open>config\<close> and \<^verbatim>\<open>mock\<close> subpackages) and \<^verbatim>\<open>observability\<close>: glue. The rest of \<^verbatim>\<open>authentication\<close> and the ciphers
  rest on cryptographic libraries. Of the modelled packages, log lines, spans and histograms are left out, as are the
  interleavings inside one method of the rate limiter and the waiting between the ticks of the scheduler. Of the
  authorization server, decoding of forms and JSON, the login page and the limit on registrations are left out. Of the
  database packages, clients, transactions and migrations act through drivers and servers, and the generator's statements are
  read as text: what a server does when it runs them is not modelled. Candidates for later are \<^verbatim>\<open>tenancy\<close>, \<^verbatim>\<open>numbers\<close> and the
  pool groups of \<^verbatim>\<open>jobs\<close>.
\<close>

section \<open>From a policy to a decision\<close>

text \<open>The static resolver, after some questions, as the inner resolver of a cached one.\<close>

definition static_inner :: "StaticResolver \<Rightarrow> string list list \<Rightarrow> role_key_error inner_resolver" where
  "static_inner sr calls roles = fst (PermissionsForRoles_static roles (after_calls calls sr))"

definition asks_static :: "StaticResolver \<Rightarrow> role_key_error policy_op \<Rightarrow> bool" where
  "asks_static sr x = (case x of OpResolve t inner rs \<Rightarrow> \<exists>calls. inner = static_inner sr calls | _ \<Rightarrow> True)"

lemma static_inner_granted:
  assumes "NewResolver_static policy = Some (Inr sr)" and "static_inner sr calls roles = Inr s"
  shows "granted s = (\<Union>n \<in> set roles \<inter> set (map ro_Name policy). effective (by_name policy) n)"
proof -
  note sr = NewResolver_static_ok [OF assms(1)]
  have "s = fst (permissionsForRoles roles (after_calls calls sr))"
    using assms(2) by (simp add: static_inner_def PermissionsForRoles_static_def case_prod_beta)
  then have "granted s = (\<Union>n \<in> set roles. set_of (sr_expanded sr) n)"
    using after_calls_spec [of sr calls] permissionsForRoles_spec [of "after_calls calls sr" roles] sr by simp
  also have "\<dots> = (\<Union>n \<in> set roles \<inter> set (map ro_Name policy). effective (by_name policy) n)"
    using sr by (auto split: if_splits)
  finally show ?thesis .
qed

lemma justified_static:
  assumes "NewResolver_static policy = Some (Inr sr)" and "list_all (asks_static sr) xs" and "s \<in> justified ttl t roles xs"
  shows "granted s = (\<Union>n \<in> set roles \<inter> set (map ro_Name policy). effective (by_name policy) n)"
  using assms(2,3)
proof (induction xs)
  case (Cons x xs)
  show ?case
  proof (cases "s \<in> justified ttl t roles xs")
    case False
    with Cons.prems obtain calls t' rs where "x = OpResolve t' (static_inner sr calls) rs" "sort rs = sort roles"
      "static_inner sr calls rs = Inr s"
      by (auto simp: asks_static_def split: policy_op.splits if_splits)
    with static_inner_granted [OF assms(1)] sort_eq_set show ?thesis by metis
  qed (use Cons in simp)
qed simp

text \<open>C10. A cached resolver over a static policy decides as the policy says: whatever was asked and
  invalidated before, a principal with some roles is granted a permission exactly when one of those
  roles reaches, through inheritance, a role of the policy that lists it.\<close>

theorem cached_static_policy_decides:
  assumes "NewResolver_static policy = Some (Inr sr)" and "NewInMemoryCache d [] = Inr c"
    and "NewResolver_cached (Some sr) (Some c) [Some (WithTTL_cached ttl)] = Inr r"
    and "ops_ordered xs" and "bumps xs < 2 ^ 64" and "ops_now xs \<le> t" and "list_all (asks_static sr) xs"
    and "roles \<noteq> []" and "no_NUL roles"
  shows "\<exists>s. fst (PermissionsForRoles_cached (mem_policy_env t) (static_inner sr calls) roles (policy_run mem_policy_env r xs)) = Inr s \<and>
    (Has_g (NewGrants [s]) p \<longleftrightarrow>
       (\<exists>n \<in> set roles \<inter> set (map ro_Name policy). p \<in> effective (by_name policy) n))"
proof -
  let ?answer = "fst (PermissionsForRoles_cached (mem_policy_env t) (static_inner sr calls) roles (policy_run mem_policy_env r xs))"
  obtain s0 where s0: "static_inner sr calls roles = Inr s0"
    by (simp add: static_inner_def PermissionsForRoles_static_def case_prod_beta)
  note start = new_memory_cache [OF assms(2)] new_cached_resolver [OF assms(3)]
  have "(\<exists>s \<in> justified (cr_ttl r) t roles xs. ?answer = Inr s) \<or> ?answer = map_sum ErrInner id (static_inner sr calls roles)"
    by (rule mp.policy_answers) (use start assms(4-6,8,9) in simp_all)
  then have "(\<exists>s \<in> justified (cr_ttl r) t roles xs. ?answer = Inr s) \<or> ?answer = Inr s0" by (simp only: s0 map_sum.simps id_apply)
  then obtain s where "?answer = Inr s" "granted s = (\<Union>n \<in> set roles \<inter> set (map ro_Name policy). effective (by_name policy) n)"
    by (elim disjE bexE) (rule that, assumption, rule justified_static [OF assms(1,7)], assumption,
      rule that, assumption, rule static_inner_granted [OF assms(1) s0])
  moreover have "Has_g (NewGrants [s]) p \<longleftrightarrow> p \<in> granted s" by (simp add: Has_g_New granted_def)
  ultimately show ?thesis by simp
qed

theorem cached_static_policy_decides_witness:
  "\<exists>sr c r s. NewResolver_static [\<lparr>ro_Name = ''b'', ro_Description = [], ro_Permissions = [''p''], ro_Inherits = []\<rparr>,
        \<lparr>ro_Name = ''a'', ro_Description = [], ro_Permissions = [''q''], ro_Inherits = [''b'']\<rparr>] = Some (Inr sr) \<and>
      NewInMemoryCache 0 [] = Inr c \<and>
      (NewResolver_cached (Some sr) (Some c) [Some (WithTTL_cached 10)] :: role_key_error policy_failure + _) = Inr r \<and>
      fst (PermissionsForRoles_cached (mem_policy_env 5) (static_inner sr []) [''a'', ''x'']
        (policy_run mem_policy_env r [OpResolve 1 (static_inner sr []) [''x'', ''a'']])) = Inr s \<and>
      Has_g (NewGrants [s]) ''p''"
proof -
  let ?policy = "[\<lparr>ro_Name = ''b'', ro_Description = [], ro_Permissions = [''p''], ro_Inherits = []\<rparr>,
        \<lparr>ro_Name = ''a'', ro_Description = [], ro_Permissions = [''q''], ro_Inherits = [''b'']\<rparr>]"
  have "map_option isl (NewResolver_static ?policy) = Some False" by code_simp
  then obtain sr where sr: "NewResolver_static ?policy = Some (Inr sr)"
    by (cases "NewResolver_static ?policy"; cases "the (NewResolver_static ?policy)") auto
  obtain c :: "PermissionSet option cache" where c: "NewInMemoryCache 0 [] = Inr c"
    by (simp add: NewInMemoryCache_def Let_def)
  obtain r where r: "(NewResolver_cached (Some sr) (Some c) [Some (WithTTL_cached 10)] :: role_key_error policy_failure + _) = Inr r"
    by (simp add: NewResolver_cached_def)
  let ?xs = "[OpResolve 1 (static_inner sr []) [''x'', ''a'']]"
  have asks: "list_all (asks_static sr) ?xs" by (auto simp: asks_static_def)
  have "''p'' \<in> effective (by_name ?policy) ''a''"
    by (simp add: effective_unfold [of _ "''a''"] effective_unfold [of _ "''b''"] perms_of_def parents_of_def by_name_def)
  with cached_static_policy_decides [OF sr c r, of ?xs 5 "[''a'', ''x'']" "[]" "''p''"] asks sr c r show ?thesis
    by (auto simp: bumps_def no_NUL_def NUL_def)
qed

end
